(* ===== verification/Prelude.thy ===== *)
theory Prelude
  imports Main "HOL-Library.Word"
begin

text \<open>
  Shared vocabulary of the development: the machine integers of the 16-bit compiler, the
  byte-order helpers of \<^verbatim>\<open>code/TCPINC/INLINES.H\<close>, the Ethernet and IPv4 address types of
  \<^verbatim>\<open>code/TCPINC/TYPES.H\<close>, the collections of hints the component theories add to, and
  generic lemmas on words and lists.

  Conventions.  \<open>uint8_t\<close>, \<open>uint16_t\<close> and \<open>uint32_t\<close> are \<open>8 word\<close>, \<open>16 word\<close> and
  \<open>32 word\<close>; the compiler is a 16-bit one, so \<open>int\<close> and \<open>unsigned\<close> are 16 bits wide and
  an expression over \<open>uint16_t\<close> wraps at \<open>2 ^ 16\<close>.  Return codes are \<open>int\<close>.  A
  multi-byte header field is held as the value the little-endian x86 loads, that is in
  network byte order until \<open>ntohs\<close> or \<open>ntohl\<close> is applied, as in the source.
\<close>

unbundle bit_operations_syntax

type_synonym u8 = "8 word"
type_synonym u16 = "16 word"
type_synonym u32 = "32 word"

named_theorems cfg_defs \<open>the compile-time configuration constants\<close>
named_theorems frame_simps \<open>which state components an operation leaves alone\<close>
named_theorems inv_intros \<open>invariant preservation\<close>
named_theorems byte_simps \<open>byte order and bit fields\<close>

section \<open>Byte order\<close>

definition htons :: "u16 \<Rightarrow> u16" where
  "htons x = (push_bit 8 x) OR (drop_bit 8 x)"

abbreviation ntohs :: "u16 \<Rightarrow> u16" where
  "ntohs \<equiv> htons"

text \<open>
  \<^verbatim>\<open>xchg al,ah; xchg bl,bh; xchg ax,bx\<close>: the bytes of the low half are swapped, the bytes
  of the high half are swapped, and the halves change place.
\<close>

definition htonl :: "u32 \<Rightarrow> u32" where
  "htonl x =
     (let ax = htons (ucast x); bx = htons (ucast (drop_bit 16 x))
      in push_bit 16 (ucast ax) OR ucast bx)"

abbreviation ntohl :: "u32 \<Rightarrow> u32" where
  "ntohl \<equiv> htonl"

lemma htons_htons [simp, byte_simps]: "htons (htons x) = x"
  by (rule bit_word_eqI) (auto simp: htons_def bit_simps)

lemma htonl_htonl [simp, byte_simps]: "htonl (htonl x) = x"
proof (rule bit_word_eqI)
  fix n assume "n < LENGTH(32)"
  then have "n < 8 \<or> 8 \<le> n \<and> n < 16 \<or> 16 \<le> n \<and> n < 24 \<or> 24 \<le> n \<and> n < 32" by auto
  then show "bit (htonl (htonl x)) n = bit x n"
    by (elim disjE) (auto simp: htonl_def htons_def Let_def bit_simps)
qed

lemma htons_eq_iff [simp]: "htons x = htons y \<longleftrightarrow> x = y"
  by (metis htons_htons)

lemma htonl_eq_iff [simp]: "htonl x = htonl y \<longleftrightarrow> x = y"
  by (metis htonl_htonl)

section \<open>Addresses\<close>

text \<open>
  An IPv4 address is four bytes in memory order; \<^verbatim>\<open>Ip::isSame\<close> and \<^verbatim>\<open>Ip::copy\<close> work on its
  image as one 32-bit load, \<open>ip_u32\<close>.  An Ethernet address is three 16-bit words, the unit
  in which \<^verbatim>\<open>Eth::isSame\<close> and \<^verbatim>\<open>Eth::copy\<close> access it.
\<close>

type_synonym IpAddr = "u8 \<times> u8 \<times> u8 \<times> u8"
type_synonym EthAddr = "u16 \<times> u16 \<times> u16"

definition le16 :: "u8 \<Rightarrow> u8 \<Rightarrow> u16" where
  "le16 lo hi = ucast lo OR push_bit 8 (ucast hi)"

definition ip_u32 :: "IpAddr \<Rightarrow> u32" where
  "ip_u32 a = (case a of (o1, o2, o3, o4) \<Rightarrow>
     ucast o1 OR push_bit 8 (ucast o2) OR push_bit 16 (ucast o3) OR push_bit 24 (ucast o4))"

definition u32_ip :: "u32 \<Rightarrow> IpAddr" where
  "u32_ip x = (ucast x, ucast (drop_bit 8 x), ucast (drop_bit 16 x), ucast (drop_bit 24 x))"

lemma bit_u8_ge [simp]: "8 \<le> n \<Longrightarrow> \<not> bit (x :: u8) n"
  by (auto dest: bit_imp_le_length)

lemma u32_ip_ip_u32 [simp]: "u32_ip (ip_u32 a) = a"
  by (cases a) (auto simp: u32_ip_def ip_u32_def bit_simps intro!: bit_word_eqI)

lemma ip_u32_u32_ip [simp]: "ip_u32 (u32_ip x) = x"
proof (rule bit_word_eqI)
  fix n assume "n < LENGTH(32)"
  then have "n < 8 \<or> 8 \<le> n \<and> n < 16 \<or> 16 \<le> n \<and> n < 24 \<or> 24 \<le> n \<and> n < 32" by auto
  then show "bit (ip_u32 (u32_ip x)) n = bit x n"
    by (elim disjE) (auto simp: u32_ip_def ip_u32_def bit_simps)
qed

definition ip_isSame :: "IpAddr \<Rightarrow> IpAddr \<Rightarrow> bool" where
  "ip_isSame a b \<longleftrightarrow> ip_u32 a = ip_u32 b"

lemma ip_isSame_iff [simp]: "ip_isSame a b \<longleftrightarrow> a = b"
  unfolding ip_isSame_def by (metis u32_ip_ip_u32)

definition eth_isSame :: "EthAddr \<Rightarrow> EthAddr \<Rightarrow> bool" where
  "eth_isSame a b \<longleftrightarrow>
     fst a = fst b \<and> fst (snd a) = fst (snd b) \<and> snd (snd a) = snd (snd b)"

lemma eth_isSame_iff [simp]: "eth_isSame a b \<longleftrightarrow> a = b"
  by (auto simp: eth_isSame_def prod_eq_iff)

definition Eth_Broadcast :: EthAddr where
  "Eth_Broadcast = (0xFFFF, 0xFFFF, 0xFFFF)"

definition IpBroadcastNonRoutable :: IpAddr where
  "IpBroadcastNonRoutable = (255, 255, 255, 255)"

definition IpInvalid :: IpAddr where
  "IpInvalid = (0, 0, 0, 0)"

section \<open>Memory\<close>

text \<open>
  A buffer is read through its memory: a function from the offset to the byte stored there,
  total because the machine loads whatever is at the address.
\<close>

type_synonym mem = "nat \<Rightarrow> u8"

definition rd16 :: "mem \<Rightarrow> nat \<Rightarrow> u16" where
  "rd16 m p = le16 (m p) (m (Suc p))"

definition rd32 :: "mem \<Rightarrow> nat \<Rightarrow> u32" where
  "rd32 m p = ip_u32 (m p, m (p + 1), m (p + 2), m (p + 3))"

definition rdip :: "mem \<Rightarrow> nat \<Rightarrow> IpAddr" where
  "rdip m p = (m p, m (p + 1), m (p + 2), m (p + 3))"

definition rdeth :: "mem \<Rightarrow> nat \<Rightarrow> EthAddr" where
  "rdeth m p = (rd16 m p, rd16 m (p + 2), rd16 m (p + 4))"

definition mem_of :: "u8 list \<Rightarrow> mem" where
  "mem_of xs i = (if i < length xs then xs ! i else 0)"

definition rdbytes :: "mem \<Rightarrow> nat \<Rightarrow> nat \<Rightarrow> u8 list" where
  "rdbytes m p n = map m [p..<p + n]"

text \<open>\<^verbatim>\<open>memcpy\<close> into a buffer: the bytes of the list are stored from offset \<open>p\<close> on.\<close>

definition memcpy :: "mem \<Rightarrow> nat \<Rightarrow> u8 list \<Rightarrow> mem" where
  "memcpy m p xs = (\<lambda>i. if p \<le> i \<and> i < p + length xs then xs ! (i - p) else m i)"

lemma length_rdbytes [simp]: "length (rdbytes m p n) = n"
  by (simp add: rdbytes_def)

lemma nth_rdbytes [simp]: "i < n \<Longrightarrow> rdbytes m p n ! i = m (p + i)"
  by (simp add: rdbytes_def)

lemma rdbytes_0 [simp]: "rdbytes m p 0 = []"
  by (simp add: rdbytes_def)

lemma rdbytes_append: "rdbytes m p (a + b) = rdbytes m p a @ rdbytes m (p + a) b"
  by (rule nth_equalityI) (auto simp: nth_append)

lemma rdbytes_cong:
  "(\<And>i. p \<le> i \<Longrightarrow> i < p + n \<Longrightarrow> m i = m' i) \<Longrightarrow> rdbytes m p n = rdbytes m' p n"
  by (rule nth_equalityI) auto

lemma rdbytes_memcpy_same [simp]: "rdbytes (memcpy m p xs) p (length xs) = xs"
  by (rule nth_equalityI) (auto simp: memcpy_def)

lemma rdbytes_memcpy_disj:
  "q + n \<le> p \<or> p + length xs \<le> q \<Longrightarrow> rdbytes (memcpy m p xs) q n = rdbytes m q n"
  by (rule rdbytes_cong) (auto simp: memcpy_def)

lemma memcpy_Nil [simp]: "memcpy m p [] = m"
  by (rule ext) (auto simp: memcpy_def)

lemma memcpy_append: "memcpy (memcpy m p xs) (p + length xs) ys = memcpy m p (xs @ ys)"
  by (auto simp: memcpy_def nth_append fun_eq_iff)

section \<open>Words as numbers\<close>

lemma mod4_neq:
  assumes "i < n" and "n < 4"
  shows "(f + i) mod 4 \<noteq> (f + n) mod (4 :: nat)"
proof
  assume "(f + i) mod 4 = (f + n) mod 4"
  then have "4 dvd (f + n) - (f + i)"
    using assms by (subst (asm) eq_commute) (simp add: mod_eq_dvd_iff_nat)
  then show False
    using assms by (auto dest!: dvd_imp_le)
qed

lemma u16_bound: "unat (x :: u16) < 65536"
  using unsigned_less [of x] by simp

lemma u8_bound: "unat (x :: u8) < 256"
  using unsigned_less [of x] by simp

lemma u32_bound: "unat (x :: u32) < 4294967296"
  using unsigned_less [of x] by simp

lemma take_bit_nat_less: "m < 2 ^ n \<Longrightarrow> take_bit n m = (m :: nat)"
  by (simp add: take_bit_nat_eq_self_iff)

lemma unat_ucast_8_16 [simp]: "unat (ucast (x :: u8) :: u16) = unat x"
  using u8_bound [of x] by (simp add: unsigned_ucast_eq take_bit_nat_less)

lemma unat_ucast_8_32 [simp]: "unat (ucast (x :: u8) :: u32) = unat x"
  using u8_bound [of x] by (simp add: unsigned_ucast_eq take_bit_nat_less)

lemma unat_ucast_16_32 [simp]: "unat (ucast (x :: u16) :: u32) = unat x"
  using u16_bound [of x] by (simp add: unsigned_ucast_eq take_bit_nat_less)

lemma unat_less_bounds: "unat (x :: u8) \<le> 255" "unat (y :: u16) \<le> 65535" "unat (z :: u32) \<le> 4294967295"
  using u8_bound [of x] u16_bound [of y] u32_bound [of z] by simp_all

lemma unat_minus1_u8: "unat (- 1 :: u8) = 255" and unat_minus1_u16: "unat (- 1 :: u16) = 65535"
  by (simp_all add: unsigned_minus_1_eq_mask mask_eq_exp_minus_1)

lemma word_eq_of_nat: "unat w = n \<Longrightarrow> w = of_nat n"
  by (metis of_nat_unat ucast_id)

lemma unat_pred_less:
  assumes "x - 1 \<noteq> 0"
  shows "unat (x - 1 - 1) < unat (x - 1 :: 'a::len word)"
  using assms unat_minus_one [of "x - 1"] unat_gt_0 [of "x - 1"] by linarith

lemma unat_le16: "unat (le16 lo hi) = unat lo + 256 * unat hi"
proof -
  have disj: "(ucast lo :: u16) AND push_bit 8 (ucast hi) = 0"
    by (rule bit_word_eqI) (auto simp: bit_simps dest: bit_imp_le_length)
  have "le16 lo hi = (ucast lo :: u16) + push_bit 8 (ucast hi)"
    by (simp add: le16_def disjunctive_add_eq_or disj)
  then show ?thesis
    using u8_bound [of lo] u8_bound [of hi]
    by (simp add: unat_word_ariths push_bit_eq_mult)
qed

text \<open>16-bit sums and differences without a wrap.\<close>

lemma u16_add: "unat a + unat b < 65536 \<Longrightarrow> unat (a + b :: u16) = unat a + unat b"
  by (simp add: unat_word_ariths)

lemma u16_sub: "b \<le> a \<Longrightarrow> unat (a - b :: u16) = unat a - unat b"
  by (rule unat_sub)

lemma sint_u16_small: "unat (x :: u16) < 32768 \<Longrightarrow> sint x = int (unat x)"
proof -
  assume u: "unat x < 32768"
  obtain n where n: "unat x = n" by blast
  then have e: "uint x = int n" by (simp only: uint_nat)
  have "signed_take_bit 15 (int n) = int n"
    by (rule signed_take_bit_int_eq_self) (use u n in simp_all)
  then show ?thesis by (simp add: sint_uint e n)
qed

end
