(* ===== verification/Headers.thy ===== *)
theory Headers
  imports Prelude
begin

text \<open>
  The wire formats: \<^verbatim>\<open>EthHeader\<close> (ETH.H), \<^verbatim>\<open>IpHeader\<close> (IP.H), \<^verbatim>\<open>TcpHeader\<close> (TCP.H),
  \<^verbatim>\<open>UdpHeader\<close> (UDP.H) and \<^verbatim>\<open>ArpHeader\<close> (ARP.H).  A header is a record of its fields, each
  holding the value the x86 loads from memory (network byte order for multi-byte fields).
  \<open>read_...\<close> loads a header from a buffer; \<open>..._bytes\<close> is its memory image.
\<close>

unbundle bit_operations_syntax

section \<open>Bytes of a field\<close>

definition bytes16 :: "u16 \<Rightarrow> u8 list" where
  "bytes16 x = [ucast x, ucast (drop_bit 8 x)]"

definition bytes32 :: "u32 \<Rightarrow> u8 list" where
  "bytes32 x = [ucast x, ucast (drop_bit 8 x), ucast (drop_bit 16 x), ucast (drop_bit 24 x)]"

definition ip_addr_bytes :: "IpAddr \<Rightarrow> u8 list" where
  "ip_addr_bytes a = (case a of (o1, o2, o3, o4) \<Rightarrow> [o1, o2, o3, o4])"

definition eth_addr_bytes :: "EthAddr \<Rightarrow> u8 list" where
  "eth_addr_bytes a = bytes16 (fst a) @ bytes16 (fst (snd a)) @ bytes16 (snd (snd a))"

lemma le16_bytes16 [simp]: "le16 (ucast x) (ucast (drop_bit 8 x)) = x"
proof (rule bit_word_eqI)
  fix n assume "n < LENGTH(16)"
  then have "n < 8 \<or> 8 \<le> n \<and> n < 16" by auto
  then show "bit (le16 (ucast x) (ucast (drop_bit 8 x))) n = bit x n"
    by (elim disjE) (auto simp: le16_def bit_simps)
qed

lemma le16_low [simp]: "ucast (le16 lo hi) = lo"
  by (rule bit_word_eqI) (auto simp: le16_def bit_simps)

lemma le16_high [simp]: "ucast (drop_bit 8 (le16 lo hi)) = hi"
  by (rule bit_word_eqI) (auto simp: le16_def bit_simps)

lemma bytes16_le16 [simp]: "bytes16 (le16 lo hi) = [lo, hi]"
  by (simp add: bytes16_def)

lemma length_bytes16 [simp]: "length (bytes16 x) = 2"
  by (simp add: bytes16_def)

lemma length_bytes32 [simp]: "length (bytes32 x) = 4"
  by (simp add: bytes32_def)

lemma length_ip_addr_bytes [simp]: "length (ip_addr_bytes a) = 4"
  by (simp add: ip_addr_bytes_def split: prod.split)

lemma length_eth_addr_bytes [simp]: "length (eth_addr_bytes a) = 6"
  by (simp add: eth_addr_bytes_def)

section \<open>Ethernet\<close>

record EthHeader =
  eh_dest :: EthAddr
  eh_src :: EthAddr
  eh_type :: u16

definition eh_setDest :: "EthAddr \<Rightarrow> EthHeader \<Rightarrow> EthHeader" where
  "eh_setDest a h = h\<lparr>eh_dest := a\<rparr>"

definition eh_setSrc :: "EthAddr \<Rightarrow> EthHeader \<Rightarrow> EthHeader" where
  "eh_setSrc a h = h\<lparr>eh_src := a\<rparr>"

definition eh_setType :: "u16 \<Rightarrow> EthHeader \<Rightarrow> EthHeader" where
  "eh_setType t h = h\<lparr>eh_type := htons t\<rparr>"

definition read_EthHeader :: "mem \<Rightarrow> EthHeader" where
  "read_EthHeader m =
     \<lparr>eh_dest = rdeth m 0, eh_src = rdeth m 6, eh_type = rd16 m 12\<rparr>"

definition eth_bytes :: "EthHeader \<Rightarrow> u8 list" where
  "eth_bytes h = eth_addr_bytes (eh_dest h) @ eth_addr_bytes (eh_src h) @ bytes16 (eh_type h)"

lemma length_eth_bytes [simp]: "length (eth_bytes h) = 14"
  by (simp add: eth_bytes_def)

section \<open>IP\<close>

definition IP_PROTOCOL_ICMP :: u8 where [cfg_defs]: "IP_PROTOCOL_ICMP = 1"
definition IP_PROTOCOL_TCP :: u8 where [cfg_defs]: "IP_PROTOCOL_TCP = 6"
definition IP_PROTOCOL_UDP :: u8 where [cfg_defs]: "IP_PROTOCOL_UDP = 17"

record IpHeader =
  ip_versHlen :: u8
  ip_service_type :: u8
  ip_total_length :: u16
  ip_ident :: u16
  ip_flags :: u16
  ip_ttl :: u8
  ip_protocol :: u8
  ip_chksum :: u16
  ip_src :: IpAddr
  ip_dest :: IpAddr

definition setIpHlen :: "u8 \<Rightarrow> IpHeader \<Rightarrow> IpHeader" where
  "setIpHlen len h = h\<lparr>ip_versHlen := 0x40 OR drop_bit 2 len\<rparr>"

definition getIpHlen :: "IpHeader \<Rightarrow> u16" where
  "getIpHlen h = push_bit 2 (ucast (ip_versHlen h AND 0xF))"

definition isFragment :: "IpHeader \<Rightarrow> bool" where
  "isFragment h \<longleftrightarrow> ip_flags h AND 0xFF3F \<noteq> 0"

definition isLastFragment :: "IpHeader \<Rightarrow> bool" where
  "isLastFragment h \<longleftrightarrow> ip_flags h AND 0x0020 = 0"

definition fragmentOffset :: "IpHeader \<Rightarrow> u16" where
  "fragmentOffset h = push_bit 3 (ntohs (ip_flags h) AND 0x1FFF)"

definition setFlags :: "u8 \<Rightarrow> IpHeader \<Rightarrow> IpHeader" where
  "setFlags p_flags h =
     (let f = ntohs (ip_flags h);
          f' = push_bit 13 (ucast (p_flags AND 0x7)) OR (f AND 0x1FFF)
      in h\<lparr>ip_flags := htons f'\<rparr>)"

definition setFragOffset :: "u16 \<Rightarrow> IpHeader \<Rightarrow> IpHeader" where
  "setFragOffset p_offset h =
     (let f = ntohs (ip_flags h);
          f' = (f AND 0xE000) OR (drop_bit 3 p_offset AND 0x1FFF)
      in h\<lparr>ip_flags := htons f'\<rparr>)"

text \<open>\<^verbatim>\<open>payloadPtr\<close> as an offset from the start of the IP header, and \<^verbatim>\<open>payloadLen\<close>.\<close>

definition payloadOff :: "IpHeader \<Rightarrow> nat" where
  "payloadOff h = unat (getIpHlen h)"

definition payloadLen :: "IpHeader \<Rightarrow> u16" where
  "payloadLen h = ntohs (ip_total_length h) - getIpHlen h"

definition read_IpHeader :: "mem \<Rightarrow> nat \<Rightarrow> IpHeader" where
  "read_IpHeader m p =
     \<lparr>ip_versHlen = m p, ip_service_type = m (p + 1), ip_total_length = rd16 m (p + 2),
      ip_ident = rd16 m (p + 4), ip_flags = rd16 m (p + 6), ip_ttl = m (p + 8),
      ip_protocol = m (p + 9), ip_chksum = rd16 m (p + 10), ip_src = rdip m (p + 12),
      ip_dest = rdip m (p + 16)\<rparr>"

definition ip_bytes :: "IpHeader \<Rightarrow> u8 list" where
  "ip_bytes h =
     [ip_versHlen h, ip_service_type h] @ bytes16 (ip_total_length h) @ bytes16 (ip_ident h) @
     bytes16 (ip_flags h) @ [ip_ttl h, ip_protocol h] @ bytes16 (ip_chksum h) @
     ip_addr_bytes (ip_src h) @ ip_addr_bytes (ip_dest h)"

lemma length_ip_bytes [simp]: "length (ip_bytes h) = 20"
  by (simp add: ip_bytes_def)

section \<open>TCP\<close>

definition TCP_CODEBITS_URG :: u8 where [cfg_defs]: "TCP_CODEBITS_URG = 0x20"
definition TCP_CODEBITS_ACK :: u8 where [cfg_defs]: "TCP_CODEBITS_ACK = 0x10"
definition TCP_CODEBITS_PSH :: u8 where [cfg_defs]: "TCP_CODEBITS_PSH = 0x08"
definition TCP_CODEBITS_RST :: u8 where [cfg_defs]: "TCP_CODEBITS_RST = 0x04"
definition TCP_CODEBITS_SYN :: u8 where [cfg_defs]: "TCP_CODEBITS_SYN = 0x02"
definition TCP_CODEBITS_FIN :: u8 where [cfg_defs]: "TCP_CODEBITS_FIN = 0x01"
definition TCP_CODEBITS_MASK :: u8 where [cfg_defs]: "TCP_CODEBITS_MASK = 0x3F"

record TcpHeader =
  tcp_src :: u16
  tcp_dst :: u16
  tcp_seqnum :: u32
  tcp_acknum :: u32
  tcp_hlenBits :: u8
  tcp_codeBits :: u8
  tcp_window :: u16
  tcp_checksum :: u16
  tcp_urgent :: u16

definition setTcpHlen :: "u16 \<Rightarrow> TcpHeader \<Rightarrow> TcpHeader" where
  "setTcpHlen bytes h = h\<lparr>tcp_hlenBits := ucast (push_bit 4 (drop_bit 2 bytes))\<rparr>"

definition getTcpHlen :: "TcpHeader \<Rightarrow> u8" where
  "getTcpHlen h = drop_bit 2 (tcp_hlenBits h)"

definition setCodeBits :: "u8 \<Rightarrow> TcpHeader \<Rightarrow> TcpHeader" where
  "setCodeBits bits h = h\<lparr>tcp_codeBits := bits\<rparr>"

definition addCodeBits :: "u8 \<Rightarrow> TcpHeader \<Rightarrow> TcpHeader" where
  "addCodeBits bits h = h\<lparr>tcp_codeBits := tcp_codeBits h OR bits\<rparr>"

definition getCodeBits :: "TcpHeader \<Rightarrow> u8" where
  "getCodeBits h = tcp_codeBits h AND TCP_CODEBITS_MASK"

definition read_TcpHeader :: "mem \<Rightarrow> nat \<Rightarrow> TcpHeader" where
  "read_TcpHeader m p =
     \<lparr>tcp_src = rd16 m p, tcp_dst = rd16 m (p + 2), tcp_seqnum = rd32 m (p + 4),
      tcp_acknum = rd32 m (p + 8), tcp_hlenBits = m (p + 12), tcp_codeBits = m (p + 13),
      tcp_window = rd16 m (p + 14), tcp_checksum = rd16 m (p + 16), tcp_urgent = rd16 m (p + 18)\<rparr>"

definition tcp_bytes :: "TcpHeader \<Rightarrow> u8 list" where
  "tcp_bytes h =
     bytes16 (tcp_src h) @ bytes16 (tcp_dst h) @ bytes32 (tcp_seqnum h) @
     bytes32 (tcp_acknum h) @ [tcp_hlenBits h, tcp_codeBits h] @ bytes16 (tcp_window h) @
     bytes16 (tcp_checksum h) @ bytes16 (tcp_urgent h)"

lemma length_tcp_bytes [simp]: "length (tcp_bytes h) = 20"
  by (simp add: tcp_bytes_def)

section \<open>UDP\<close>

record UdpHeader =
  udp_src :: u16
  udp_dst :: u16
  udp_len :: u16
  udp_chksum :: u16

definition read_UdpHeader :: "mem \<Rightarrow> nat \<Rightarrow> UdpHeader" where
  "read_UdpHeader m p =
     \<lparr>udp_src = rd16 m p, udp_dst = rd16 m (p + 2), udp_len = rd16 m (p + 4),
      udp_chksum = rd16 m (p + 6)\<rparr>"

definition udp_bytes :: "UdpHeader \<Rightarrow> u8 list" where
  "udp_bytes h =
     bytes16 (udp_src h) @ bytes16 (udp_dst h) @ bytes16 (udp_len h) @ bytes16 (udp_chksum h)"

lemma length_udp_bytes [simp]: "length (udp_bytes h) = 8"
  by (simp add: udp_bytes_def)

section \<open>ARP\<close>

record ArpHeader =
  ah_hardwareType :: u16
  ah_protocolType :: u16
  ah_hlen :: u8
  ah_plen :: u8
  ah_operation :: u16
  ah_sender_ha :: EthAddr
  ah_sender_ip :: IpAddr
  ah_target_ha :: EthAddr
  ah_target_ip :: IpAddr

definition read_ArpHeader :: "mem \<Rightarrow> nat \<Rightarrow> ArpHeader" where
  "read_ArpHeader m p =
     \<lparr>ah_hardwareType = rd16 m p, ah_protocolType = rd16 m (p + 2), ah_hlen = m (p + 4),
      ah_plen = m (p + 5), ah_operation = rd16 m (p + 6), ah_sender_ha = rdeth m (p + 8),
      ah_sender_ip = rdip m (p + 14), ah_target_ha = rdeth m (p + 18),
      ah_target_ip = rdip m (p + 24)\<rparr>"

definition arp_bytes :: "ArpHeader \<Rightarrow> u8 list" where
  "arp_bytes h =
     bytes16 (ah_hardwareType h) @ bytes16 (ah_protocolType h) @ [ah_hlen h, ah_plen h] @
     bytes16 (ah_operation h) @ eth_addr_bytes (ah_sender_ha h) @
     ip_addr_bytes (ah_sender_ip h) @ eth_addr_bytes (ah_target_ha h) @
     ip_addr_bytes (ah_target_ip h)"

lemma length_arp_bytes [simp]: "length (arp_bytes h) = 28"
  by (simp add: arp_bytes_def)

section \<open>A header written to memory is read back\<close>

lemma memcpy_nth: "k < length xs \<Longrightarrow> memcpy m p xs (p + k) = xs ! k"
  by (simp add: memcpy_def)

lemma memcpy_nth0: "0 < length xs \<Longrightarrow> memcpy m p xs p = xs ! 0"
  by (simp add: memcpy_def)

lemma rd16_memcpy:
  "Suc k < length xs \<Longrightarrow> rd16 (memcpy m p xs) (p + k) = le16 (xs ! k) (xs ! Suc k)"
  using memcpy_nth [of k xs m p] memcpy_nth [of "Suc k" xs m p] by (simp add: rd16_def)

lemma rd32_memcpy:
  "k + 3 < length xs \<Longrightarrow> rd32 (memcpy m p xs) (p + k) =
     ip_u32 (xs ! k, xs ! (k + 1), xs ! (k + 2), xs ! (k + 3))"
  using memcpy_nth [of k xs m p] memcpy_nth [of "k + 1" xs m p] memcpy_nth [of "k + 2" xs m p]
    memcpy_nth [of "k + 3" xs m p]
  by (simp add: rd32_def add.assoc)

lemma rdip_memcpy:
  "k + 3 < length xs \<Longrightarrow> rdip (memcpy m p xs) (p + k) =
     (xs ! k, xs ! (k + 1), xs ! (k + 2), xs ! (k + 3))"
  using memcpy_nth [of k xs m p] memcpy_nth [of "k + 1" xs m p] memcpy_nth [of "k + 2" xs m p]
    memcpy_nth [of "k + 3" xs m p]
  by (simp add: rdip_def add.assoc)

lemma ip_u32_bytes [simp]:
  "ip_u32 (ucast x, ucast (drop_bit 8 x), ucast (drop_bit 16 x), ucast (drop_bit 24 x)) = x"
  using ip_u32_u32_ip [of x] by (simp add: u32_ip_def)

lemma read_IpHeader_ip_bytes [simp]:
  "read_IpHeader (memcpy m p (ip_bytes h)) p = h"
proof -
  have n: "ip_bytes h = ip_bytes h @ []" by simp
  obtain a b c d where s: "ip_src h = (a, b, c, d)" by (cases "ip_src h") auto
  obtain e f g i where t: "ip_dest h = (e, f, g, i)" by (cases "ip_dest h") auto
  show ?thesis
    using rd16_memcpy [of 2 "ip_bytes h" m p] rd16_memcpy [of 4 "ip_bytes h" m p]
      rd16_memcpy [of 6 "ip_bytes h" m p] rd16_memcpy [of 10 "ip_bytes h" m p]
      rdip_memcpy [of 12 "ip_bytes h" m p] rdip_memcpy [of 16 "ip_bytes h" m p]
      memcpy_nth [of 0 "ip_bytes h" m p] memcpy_nth [of 1 "ip_bytes h" m p]
      memcpy_nth [of 8 "ip_bytes h" m p] memcpy_nth [of 9 "ip_bytes h" m p]
    by (simp add: read_IpHeader_def) (simp add: ip_bytes_def bytes16_def ip_addr_bytes_def s t)
qed

lemma read_TcpHeader_tcp_bytes [simp]:
  "read_TcpHeader (memcpy m p (tcp_bytes h @ xs)) p = h"
  using rd16_memcpy [of 0 "tcp_bytes h @ xs" m p] rd16_memcpy [of 2 "tcp_bytes h @ xs" m p]
    rd32_memcpy [of 4 "tcp_bytes h @ xs" m p] rd32_memcpy [of 8 "tcp_bytes h @ xs" m p]
    memcpy_nth [of 12 "tcp_bytes h @ xs" m p] memcpy_nth [of 13 "tcp_bytes h @ xs" m p]
    rd16_memcpy [of 14 "tcp_bytes h @ xs" m p] rd16_memcpy [of 16 "tcp_bytes h @ xs" m p]
    rd16_memcpy [of 18 "tcp_bytes h @ xs" m p]
  by (simp add: read_TcpHeader_def) (simp add: tcp_bytes_def bytes16_def bytes32_def)

lemma read_UdpHeader_udp_bytes [simp]:
  "read_UdpHeader (memcpy m p (udp_bytes h @ xs)) p = h"
  using rd16_memcpy [of 0 "udp_bytes h @ xs" m p] rd16_memcpy [of 2 "udp_bytes h @ xs" m p]
    rd16_memcpy [of 4 "udp_bytes h @ xs" m p] rd16_memcpy [of 6 "udp_bytes h @ xs" m p]
  by (simp add: read_UdpHeader_def) (simp add: udp_bytes_def bytes16_def)

text \<open>Storing a 16-bit field in a memory image.\<close>

lemma mem_of_patch:
  "k = length xs \<Longrightarrow> mem_of (xs @ bytes16 c @ ys) = memcpy (mem_of (xs @ bytes16 d @ ys)) k (bytes16 c)"
  by (rule ext) (auto simp: mem_of_def memcpy_def nth_append)

section \<open>Bit fields\<close>

lemma mask_1FFF: "(0x1FFF :: u16) = mask 13" and mask_E000: "(0xE000 :: u16) = NOT (mask 13)"
  and mask_FF3F: "(0xFF3F :: u16) = htons (mask 14)" and mask_0020: "(0x0020 :: u16) = htons (push_bit 13 1)"
  by (simp_all add: mask_eq_exp_minus_1 htons_def)

lemma bit_htons: "bit (htons x) n \<longleftrightarrow> (if n < 8 then bit x (n + 8) else n < 16 \<and> bit x (n - 8))"
  by (auto simp: htons_def bit_simps add.commute dest: bit_imp_le_length)

lemma htons_AND: "htons (x AND y) = htons x AND htons y"
  by (rule bit_word_eqI) (auto simp: bit_htons bit_and_iff)

lemma htons_0 [simp]: "htons 0 = 0"
  by (simp add: htons_def)

lemma htons_eq_0 [simp]: "htons x = 0 \<longleftrightarrow> x = 0"
  using htons_eq_iff [of x 0] by simp

lemma htons_AND_swap: "(htons x AND htons y = 0) \<longleftrightarrow> (x AND y = 0)"
  by (simp flip: htons_AND)

lemma isFragment_host: "isFragment h \<longleftrightarrow> ntohs (ip_flags h) AND mask 14 \<noteq> 0"
  unfolding isFragment_def mask_FF3F
  using htons_AND_swap [of "htons (ip_flags h)" "mask 14"] by simp

lemma isLastFragment_host: "isLastFragment h \<longleftrightarrow> \<not> bit (ntohs (ip_flags h)) 13"
proof -
  have "isLastFragment h \<longleftrightarrow> ntohs (ip_flags h) AND push_bit 13 1 = 0"
    unfolding isLastFragment_def mask_0020
    using htons_AND_swap [of "htons (ip_flags h)" "push_bit 13 1"] by simp
  also have "\<dots> \<longleftrightarrow> \<not> bit (ntohs (ip_flags h)) 13"
    using bit_iff_and_push_bit_not_eq_0 [of "ntohs (ip_flags h)" 13] by simp
  finally show ?thesis .
qed

definition frag_word :: "u8 \<Rightarrow> u16 \<Rightarrow> u16" where
  "frag_word mf off = push_bit 13 (ucast (mf AND 0x7)) OR take_bit 13 (drop_bit 3 off)"

lemma set_frag_flags:
  "ip_flags (setFragOffset off (setFlags mf h)) = htons (frag_word mf off)"
proof -
  have "(((push_bit 13 (ucast (mf AND 0x7)) OR (x AND mask 13)) AND NOT (mask 13)) OR
      (drop_bit 3 off AND mask 13)) = frag_word mf off" for x :: u16
    by (rule bit_word_eqI) (auto simp: frag_word_def bit_simps)
  then show ?thesis
    by (simp add: setFragOffset_def setFlags_def Let_def mask_1FFF mask_E000)
qed

lemma fragmentOffset_set:
  assumes "take_bit 3 off = 0"
  shows "fragmentOffset (setFragOffset off (setFlags mf h)) = off"
proof (rule bit_word_eqI)
  fix n assume n: "n < LENGTH(16)"
  have low: "\<not> bit off n" if "n < 3" for n
    using assms that by (metis bit_0_eq bit_take_bit_iff bot_apply bot_bool_def)
  show "bit (fragmentOffset (setFragOffset off (setFlags mf h))) n = bit off n"
    using n low [of n]
    by (cases "n < 3") (auto simp: fragmentOffset_def set_frag_flags frag_word_def mask_1FFF bit_simps)
qed

lemma isLastFragment_set:
  "isLastFragment (setFragOffset off (setFlags mf h)) \<longleftrightarrow> \<not> bit mf 0"
proof -
  have "bit (mf AND 7) 0 = bit mf 0" by (simp add: bit_simps)
  then show ?thesis
    by (simp add: isLastFragment_host set_frag_flags frag_word_def bit_simps)
qed

lemma getTcpHlen_unat:
  "unat (getTcpHlen h) = 4 * (unat (tcp_hlenBits h) div 16) + unat (tcp_hlenBits h) mod 16 div 4"
proof -
  have "unat (getTcpHlen h) = unat (tcp_hlenBits h) div 4"
    unfolding getTcpHlen_def unat_drop_bit_eq by (simp add: drop_bit_eq_div)
  then show ?thesis by presburger
qed

lemma getTcpHlen_set_20 [simp]: "getTcpHlen (setTcpHlen 20 h) = 20"
  and getTcpHlen_set_24 [simp]: "getTcpHlen (setTcpHlen 24 h) = 24"
  by (simp_all add: getTcpHlen_def setTcpHlen_def)

lemma getIpHlen_set_20 [simp]: "getIpHlen (setIpHlen 20 h) = 20"
  by (simp add: getIpHlen_def setIpHlen_def)

end
