(* ===== verification/Packet.thy ===== *)
theory Packet
  imports Headers "HOL-Library.Multiset"
begin

text \<open>
  The packet layer, \<^verbatim>\<open>code/TCPLIB/PACKET.CPP\<close>: the pool of incoming buffers (a stack of free
  buffers and a ring of received ones, shared with the interrupt-time \<open>receiver\<close>), the
  EtherType handler table, and sending through the packet driver.  The record \<open>net\<close> is the
  bottom layer of the program state: the platform (clock, heap, packet driver), the
  configuration and the packet layer.  Higher layers extend it.

  The packet driver is not part of the repository.  Its answer to the \<open>n\<close>-th send call (the
  carry flag) is the function \<open>drv_carry\<close> of the state, and so is the success of the \<open>n\<close>-th
  \<^verbatim>\<open>malloc\<close>; a frame the driver accepts goes to \<open>wire\<close>.
\<close>

unbundle bit_operations_syntax

section \<open>Frames and buffers\<close>

text \<open>
  A frame handed to the driver: the headers and what follows them.  \<open>frame_bytes\<close> is the
  memory the driver is given.
\<close>

datatype frame =
    ArpFrame EthHeader ArpHeader
  | TcpFrame EthHeader IpHeader TcpHeader "u8 list"
  | UdpFrame EthHeader IpHeader UdpHeader "u8 list"
  | IpFrame EthHeader IpHeader "u8 list"

definition frame_bytes :: "frame \<Rightarrow> u8 list" where
  "frame_bytes f = (case f of
       ArpFrame eh ah \<Rightarrow> eth_bytes eh @ arp_bytes ah
     | TcpFrame eh ip tcp xs \<Rightarrow> eth_bytes eh @ ip_bytes ip @ tcp_bytes tcp @ xs
     | UdpFrame eh ip udp xs \<Rightarrow> eth_bytes eh @ ip_bytes ip @ udp_bytes udp @ xs
     | IpFrame eh ip xs \<Rightarrow> eth_bytes eh @ ip_bytes ip @ xs)"

text \<open>A packet pointer: a buffer of the incoming pool, or one of the reassembly big packets.\<close>

datatype bufref = PoolBuf nat | BigBuf nat

text \<open>The EtherType handlers that can be registered.\<close>

datatype handler = HandlerArp | HandlerIp | HandlerUser nat

definition PACKET_HANDLERS :: u8 where [cfg_defs]: "PACKET_HANDLERS = 2"
definition PACKET_BUFFERS :: u8 where [cfg_defs]: "PACKET_BUFFERS = 10"
definition PACKET_BUFFER_LEN :: u16 where [cfg_defs]: "PACKET_BUFFER_LEN = 1514"
definition PACKET_RB_SIZE :: u8 where [cfg_defs]: "PACKET_RB_SIZE = PACKET_BUFFERS + 1"

record net =
  Timer_CurrentTicks :: u32
  unix_time :: u32
  rand_stream :: "nat \<Rightarrow> u16"
  rand_calls :: nat
  malloc_ok :: "nat \<Rightarrow> bool"
  heap_next :: nat
  heap_live :: "nat set"
  heap_mem :: "nat \<Rightarrow> mem"
  drv_carry :: "nat \<Rightarrow> bool"
  drv_calls :: nat
  wire :: "(frame \<times> u16) list"
  MyEthAddr :: EthAddr
  MyMTU :: u16
  MyIpAddr :: IpAddr
  MyIpAddr_u :: u32
  Netmask :: IpAddr
  Netmask_u :: u32
  Gateway :: IpAddr
  env_MTCPSLIP :: bool
  cfg_ICMP :: bool
  cfg_TCP_LISTEN :: bool
  pkt_mem :: "bufref \<Rightarrow> mem"
  Buffer :: "nat \<Rightarrow> bufref"
  Buffer_len :: "nat \<Rightarrow> u16"
  Buffer_first :: u8
  Buffer_next :: u8
  Buffer_fs :: "nat \<Rightarrow> bufref"
  Buffer_fs_index :: u8
  Buffer_packetBeingCopied :: bufref
  Buffer_lowFreeCount :: u8
  BufferMemPtr :: "nat option"
  BigPacketFreeList :: "nat \<Rightarrow> bufref"
  BigPacketFreeIndex :: u16
  Packet_EtherTypeVal :: "nat \<Rightarrow> u16"
  Packet_EtherTypeHandler :: "nat \<Rightarrow> handler"
  Packet_EtherTypeHandlers :: u8
  Packet_typeUnhandled :: "handler option"
  Packets_dropped :: u32
  Packets_received :: u32
  Packets_sent :: u32
  Packets_send_errs :: u32
  Packets_send_retries :: u32

section \<open>The heap and the clock\<close>

definition malloc :: "'a net_scheme \<Rightarrow> 'a net_scheme \<times> nat option" where
  "malloc s =
     (let n = heap_next s
      in if malloc_ok s n
         then (s\<lparr>heap_next := Suc n, heap_live := insert n (heap_live s)\<rparr>, Some n)
         else (s\<lparr>heap_next := Suc n\<rparr>, None))"

definition free :: "nat \<Rightarrow> 'a net_scheme \<Rightarrow> 'a net_scheme" where
  "free p s = s\<lparr>heap_live := heap_live s - {p}\<rparr>"

definition c_rand :: "'a net_scheme \<Rightarrow> 'a net_scheme \<times> u16" where
  "c_rand s = (s\<lparr>rand_calls := Suc (rand_calls s)\<rparr>, rand_stream s (rand_calls s))"

definition Timer_diff :: "u32 \<Rightarrow> u32 \<Rightarrow> u32" where
  "Timer_diff start end = end - start"

definition TIMER_MS_TO_TICKS :: "u32 \<Rightarrow> u32" where
  "TIMER_MS_TO_TICKS a = a div 55"

section \<open>Buffer management\<close>

definition Buffer_init :: "'a net_scheme \<Rightarrow> 'a net_scheme \<times> int" where
  "Buffer_init s =
     (case malloc s of
        (s, None) \<Rightarrow> (s, -1)
      | (s, Some tmp) \<Rightarrow>
          (s\<lparr>Buffer_fs := (\<lambda>i. if i < 10 then PoolBuf i else Buffer_fs s i),
             Buffer_fs_index := 0,
             Buffer_lowFreeCount := PACKET_BUFFERS,
             Buffer_first := 0,
             Buffer_next := 0\<rparr>, 0))"

definition Buffer_startReceiving :: "'a net_scheme \<Rightarrow> 'a net_scheme" where
  "Buffer_startReceiving s = s\<lparr>Buffer_fs_index := PACKET_BUFFERS\<rparr>"

definition isIpBigPacket :: "bufref \<Rightarrow> bool" where
  "isIpBigPacket b = (case b of BigBuf _ \<Rightarrow> True | PoolBuf _ \<Rightarrow> False)"

definition freeBigPacket :: "bufref \<Rightarrow> 'a net_scheme \<Rightarrow> 'a net_scheme" where
  "freeBigPacket bp s =
     s\<lparr>BigPacketFreeList := (BigPacketFreeList s)(unat (BigPacketFreeIndex s) := bp),
       BigPacketFreeIndex := BigPacketFreeIndex s + 1\<rparr>"

definition getBigPacket :: "'a net_scheme \<Rightarrow> 'a net_scheme \<times> bufref option" where
  "getBigPacket s =
     (if BigPacketFreeIndex s \<noteq> 0
      then (s\<lparr>BigPacketFreeIndex := BigPacketFreeIndex s - 1\<rparr>,
            Some (BigPacketFreeList s (unat (BigPacketFreeIndex s - 1))))
      else (s, None))"

definition Buffer_free :: "bufref \<Rightarrow> 'a net_scheme \<Rightarrow> 'a net_scheme" where
  "Buffer_free buffer s =
     (if isIpBigPacket buffer then freeBigPacket buffer s
      else s\<lparr>Buffer_fs := (Buffer_fs s)(unat (Buffer_fs_index s) := buffer),
             Buffer_fs_index := Buffer_fs_index s + 1\<rparr>)"

definition Buffer_stopReceiving :: "'a net_scheme \<Rightarrow> 'a net_scheme" where
  "Buffer_stopReceiving s = s\<lparr>Buffer_fs_index := 0\<rparr>"

definition Buffer_stop :: "'a net_scheme \<Rightarrow> 'a net_scheme" where
  "Buffer_stop s = (case BufferMemPtr s of None \<Rightarrow> s | Some p \<Rightarrow> free p s)"

section \<open>EtherType handlers\<close>

definition Packet_registerEtherType ::
    "u16 \<Rightarrow> handler \<Rightarrow> 'a net_scheme \<Rightarrow> 'a net_scheme \<times> int" where
  "Packet_registerEtherType val f s =
     (if Packet_EtherTypeHandlers s = PACKET_HANDLERS then (s, -1)
      else (let n = unat (Packet_EtherTypeHandlers s) in
        (s\<lparr>Packet_EtherTypeVal := (Packet_EtherTypeVal s)(n := htons val),
           Packet_EtherTypeHandler := (Packet_EtherTypeHandler s)(n := f),
           Packet_EtherTypeHandlers := Packet_EtherTypeHandlers s + 1\<rparr>, 0)))"

definition Packet_registerDefault :: "handler \<Rightarrow> 'a net_scheme \<Rightarrow> 'a net_scheme" where
  "Packet_registerDefault f s = s\<lparr>Packet_typeUnhandled := Some f\<rparr>"

section \<open>The packet driver's two calls\<close>

text \<open>
  \<^verbatim>\<open>receiver\<close> with AX = 0 asks for a buffer for a packet of CX bytes (\<open>None\<close> is the null
  address, which drops the packet), otherwise it reports that the packet has been copied.
\<close>

definition receiver :: "u16 \<Rightarrow> u16 \<Rightarrow> 'a net_scheme \<Rightarrow> 'a net_scheme \<times> bufref option" where
  "receiver ax cx s =
     (if ax = 0 then
        (if PACKET_BUFFER_LEN < cx \<or> Buffer_fs_index s = 0
         then (s\<lparr>Packets_dropped := Packets_dropped s + 1\<rparr>, None)
         else (let i = Buffer_fs_index s - 1; b = Buffer_fs s (unat i)
               in (s\<lparr>Buffer_fs_index := i, Buffer_packetBeingCopied := b\<rparr>, Some b)))
      else
        (let n = unat (Buffer_next s); nx = Buffer_next s + 1
         in (s\<lparr>Packets_received := Packets_received s + 1,
               Buffer := (Buffer s)(n := Buffer_packetBeingCopied s),
               Buffer_len := (Buffer_len s)(n := cx),
               Buffer_next := (if nx = PACKET_RB_SIZE then 0 else nx),
               Buffer_lowFreeCount :=
                 (if Buffer_fs_index s < Buffer_lowFreeCount s then Buffer_fs_index s
                  else Buffer_lowFreeCount s)\<rparr>, None)))"

text \<open>The driver's own action between the two calls: the bytes are copied to the buffer.\<close>

definition driver_copy :: "bufref \<Rightarrow> u8 list \<Rightarrow> 'a net_scheme \<Rightarrow> 'a net_scheme" where
  "driver_copy b xs s = s\<lparr>pkt_mem := (pkt_mem s)(b := memcpy (pkt_mem s b) 0 xs)\<rparr>"

section \<open>Sending\<close>

fun drv_send :: "nat \<Rightarrow> frame \<Rightarrow> u16 \<Rightarrow> 'a net_scheme \<Rightarrow> 'a net_scheme" where
  "drv_send 0 f len s = s\<lparr>Packets_send_errs := Packets_send_errs s + 1\<rparr>"
| "drv_send (Suc n) f len s =
     (let carry = drv_carry s (drv_calls s); s = s\<lparr>drv_calls := Suc (drv_calls s)\<rparr>
      in if \<not> carry then s\<lparr>wire := wire s @ [(f, len)]\<rparr> else drv_send n f len s)"

definition Packet_send_pkt :: "frame \<Rightarrow> u16 \<Rightarrow> 'a net_scheme \<Rightarrow> 'a net_scheme" where
  "Packet_send_pkt f bufferLen s =
     (let s = s\<lparr>Packets_sent := Packets_sent s + 1\<rparr>;
          bufferLen = (if bufferLen < 60 then 60 else bufferLen)
      in drv_send 5 f bufferLen s)"

section \<open>Taking the next packet off the ring\<close>

definition Packet_dequeue :: "'a net_scheme \<Rightarrow> 'a net_scheme \<times> bufref \<times> u16" where
  "Packet_dequeue s =
     (let packet = Buffer s (unat (Buffer_first s));
          packet_len = Buffer_len s (unat (Buffer_first s));
          nx = Buffer_first s + 1
      in (s\<lparr>Buffer_first := (if nx = PACKET_RB_SIZE then 0 else nx)\<rparr>, packet, packet_len))"

text \<open>The first registered handler of the EtherType at byte 12, else the default handler.\<close>

definition Packet_route :: "'a net_scheme \<Rightarrow> u16 \<Rightarrow> handler option" where
  "Packet_route s protocol =
     (case find (\<lambda>i. Packet_EtherTypeVal s i = protocol) [0..<unat (Packet_EtherTypeHandlers s)] of
        Some i \<Rightarrow> Some (Packet_EtherTypeHandler s i)
      | None \<Rightarrow> Packet_typeUnhandled s)"

text \<open>The handlers are function pointers: \<open>call\<close> runs one.\<close>

definition Packet_process_internal ::
    "(handler \<Rightarrow> bufref \<Rightarrow> u16 \<Rightarrow> 'a net_scheme \<Rightarrow> 'a net_scheme option) \<Rightarrow> 'a net_scheme \<Rightarrow>
     'a net_scheme option"
  where
  "Packet_process_internal call s =
     (let (s, packet, packet_len) = Packet_dequeue s;
          protocol = rd16 (pkt_mem s packet) 12
      in case Packet_route s protocol of
           Some h \<Rightarrow> call h packet packet_len s
         | None \<Rightarrow> Some (Buffer_free packet s))"

section \<open>What a send changes\<close>

lemma drv_send_shape:
  "drv_send n f l s =
     s\<lparr>drv_calls := drv_calls (drv_send n f l s), wire := wire (drv_send n f l s),
       Packets_send_errs := Packets_send_errs (drv_send n f l s)\<rparr>"
proof (induction n arbitrary: s)
  case 0
  then show ?case by simp
next
  case (Suc n)
  show ?case
  proof (cases "drv_carry s (drv_calls s)")
    case True
    then show ?thesis
      using Suc.IH [of "s\<lparr>drv_calls := Suc (drv_calls s)\<rparr>"] by (simp add: Let_def)
  qed simp
qed

lemma Packet_send_pkt_shape:
  "Packet_send_pkt f l s =
     s\<lparr>drv_calls := drv_calls (Packet_send_pkt f l s), wire := wire (Packet_send_pkt f l s),
       Packets_sent := Packets_sent s + 1,
       Packets_send_errs := Packets_send_errs (Packet_send_pkt f l s)\<rparr>"
  unfolding Packet_send_pkt_def Let_def
  by (subst drv_send_shape) (subst (5) drv_send_shape, simp)

lemma drv_send_wire:
  "wire (drv_send n f l s) =
     (if \<exists>k<n. \<not> drv_carry s (drv_calls s + k) then wire s @ [(f, l)] else wire s)"
proof (induction n arbitrary: s)
  case 0
  then show ?case by simp
next
  case (Suc n)
  have "(\<exists>k<Suc n. \<not> drv_carry s (drv_calls s + k)) \<longleftrightarrow>
      \<not> drv_carry s (drv_calls s) \<or> (\<exists>k<n. \<not> drv_carry s (Suc (drv_calls s) + k))"
    by (auto simp: less_Suc_eq_0_disj)
  then show ?case using Suc.IH [of "s\<lparr>drv_calls := Suc (drv_calls s)\<rparr>"] by (simp add: Let_def)
qed

lemma drv_send_errs:
  "Packets_send_errs (drv_send n f l s) =
     (if \<exists>k<n. \<not> drv_carry s (drv_calls s + k) then Packets_send_errs s else Packets_send_errs s + 1)"
proof (induction n arbitrary: s)
  case 0
  then show ?case by simp
next
  case (Suc n)
  have "(\<exists>k<Suc n. \<not> drv_carry s (drv_calls s + k)) \<longleftrightarrow>
      \<not> drv_carry s (drv_calls s) \<or> (\<exists>k<n. \<not> drv_carry s (Suc (drv_calls s) + k))"
    by (auto simp: less_Suc_eq_0_disj)
  then show ?case using Suc.IH [of "s\<lparr>drv_calls := Suc (drv_calls s)\<rparr>"] by (simp add: Let_def)
qed

text \<open>The driver accepts one of the next five attempts.\<close>

definition drv_ok :: "'a net_scheme \<Rightarrow> bool" where
  "drv_ok s \<longleftrightarrow> (\<exists>k<5. \<not> drv_carry s (drv_calls s + k))"

lemma Packet_send_pkt_wire:
  "wire (Packet_send_pkt f l s) =
     (if drv_ok s then wire s @ [(f, if l < 60 then 60 else l)] else wire s)"
  by (simp add: Packet_send_pkt_def drv_send_wire drv_ok_def)

lemma Packet_send_pkt_errs:
  "Packets_send_errs (Packet_send_pkt f l s) =
     (if drv_ok s then Packets_send_errs s else Packets_send_errs s + 1)"
  by (simp add: Packet_send_pkt_def drv_send_errs drv_ok_def)

lemma Packet_send_pkt_frame [simp]:
  "Timer_CurrentTicks (Packet_send_pkt f l s) = Timer_CurrentTicks s"
  "unix_time (Packet_send_pkt f l s) = unix_time s"
  "rand_stream (Packet_send_pkt f l s) = rand_stream s"
  "rand_calls (Packet_send_pkt f l s) = rand_calls s"
  "malloc_ok (Packet_send_pkt f l s) = malloc_ok s"
  "heap_next (Packet_send_pkt f l s) = heap_next s"
  "heap_live (Packet_send_pkt f l s) = heap_live s"
  "heap_mem (Packet_send_pkt f l s) = heap_mem s"
  "drv_carry (Packet_send_pkt f l s) = drv_carry s"
  "MyEthAddr (Packet_send_pkt f l s) = MyEthAddr s"
  "MyMTU (Packet_send_pkt f l s) = MyMTU s"
  "MyIpAddr (Packet_send_pkt f l s) = MyIpAddr s"
  "MyIpAddr_u (Packet_send_pkt f l s) = MyIpAddr_u s"
  "Netmask (Packet_send_pkt f l s) = Netmask s"
  "Netmask_u (Packet_send_pkt f l s) = Netmask_u s"
  "Gateway (Packet_send_pkt f l s) = Gateway s"
  "env_MTCPSLIP (Packet_send_pkt f l s) = env_MTCPSLIP s"
  "cfg_ICMP (Packet_send_pkt f l s) = cfg_ICMP s"
  "cfg_TCP_LISTEN (Packet_send_pkt f l s) = cfg_TCP_LISTEN s"
  "pkt_mem (Packet_send_pkt f l s) = pkt_mem s"
  "Buffer (Packet_send_pkt f l s) = Buffer s"
  "Buffer_len (Packet_send_pkt f l s) = Buffer_len s"
  "Buffer_first (Packet_send_pkt f l s) = Buffer_first s"
  "Buffer_next (Packet_send_pkt f l s) = Buffer_next s"
  "Buffer_fs (Packet_send_pkt f l s) = Buffer_fs s"
  "Buffer_fs_index (Packet_send_pkt f l s) = Buffer_fs_index s"
  "Buffer_packetBeingCopied (Packet_send_pkt f l s) = Buffer_packetBeingCopied s"
  "BigPacketFreeList (Packet_send_pkt f l s) = BigPacketFreeList s"
  "BigPacketFreeIndex (Packet_send_pkt f l s) = BigPacketFreeIndex s"
  "Packets_send_retries (Packet_send_pkt f l s) = Packets_send_retries s"
  "Packets_sent (Packet_send_pkt f l s) = Packets_sent s + 1"
  by (subst Packet_send_pkt_shape, simp)+

section \<open>Every buffer is accounted for\<close>

definition free_list :: "'a net_scheme \<Rightarrow> bufref list" where
  "free_list s = map (Buffer_fs s) [0..<unat (Buffer_fs_index s)]"

definition ring_list :: "'a net_scheme \<Rightarrow> bufref list" where
  "ring_list s =
     map (\<lambda>i. Buffer s ((unat (Buffer_first s) + i) mod 11))
       [0..<(unat (Buffer_next s) + 11 - unat (Buffer_first s)) mod 11]"

definition pool_all :: "bufref multiset" where
  "pool_all = mset (map PoolBuf [0..<10])"

text \<open>
  \<open>held\<close> are the buffers in the hands of the stack or the application, \<open>copying\<close> the one the
  packet driver is filling.
\<close>

definition buf_inv :: "bufref multiset \<Rightarrow> bufref option \<Rightarrow> 'a net_scheme \<Rightarrow> bool" where
  "buf_inv held copying s \<longleftrightarrow>
     unat (Buffer_first s) < 11 \<and> unat (Buffer_next s) < 11 \<and>
     mset (free_list s) + mset (ring_list s) +
       (case copying of None \<Rightarrow> {#} | Some b \<Rightarrow> {#b#}) + held = pool_all \<and>
     (\<forall>b. copying = Some b \<longrightarrow> Buffer_packetBeingCopied s = b)"

lemma size_pool_all: "size pool_all = 10"
  by (simp add: pool_all_def)

lemma buf_inv_sizes:
  assumes "buf_inv held copying s"
  shows "unat (Buffer_fs_index s) + length (ring_list s) +
     (case copying of None \<Rightarrow> 0 | Some b \<Rightarrow> 1) + size held = 10"
proof -
  have "size (mset (free_list s) + mset (ring_list s) +
       (case copying of None \<Rightarrow> {#} | Some b \<Rightarrow> {#b#}) + held) = 10"
    using assms by (simp only: buf_inv_def size_pool_all)
  then show ?thesis by (simp add: free_list_def split: option.splits)
qed

lemma buf_inv_init:
  "malloc_ok s (heap_next s) \<Longrightarrow> buf_inv {#} None (Buffer_startReceiving (fst (Buffer_init s)))"
  by (auto simp: Buffer_init_def malloc_def buf_inv_def Buffer_startReceiving_def cfg_defs
      free_list_def ring_list_def pool_all_def Let_def intro!: image_mset_cong)

lemma u8_pred: "x \<noteq> 0 \<Longrightarrow> unat x = Suc (unat (x - 1))" for x :: u8
  using unat_minus_one [of x] unat_gt_0 [of x] by auto

lemma u8_Suc: "unat x < 255 \<Longrightarrow> unat (x + 1) = Suc (unat x)" for x :: u8
  by (simp add: unat_word_ariths)

lemma buf_inv_receive:
  assumes "buf_inv held None s" and "ax = 0"
  shows "buf_inv held (snd (receiver ax cx s)) (fst (receiver ax cx s))"
proof (cases "PACKET_BUFFER_LEN < cx \<or> Buffer_fs_index s = 0")
  case True
  then show ?thesis
    using assms by (simp add: receiver_def buf_inv_def free_list_def ring_list_def)
next
  case False
  then have "unat (Buffer_fs_index s) = Suc (unat (Buffer_fs_index s - 1))"
    using u8_pred by blast
  then have "free_list s = map (Buffer_fs s) [0..<unat (Buffer_fs_index s - 1)] @
      [Buffer_fs s (unat (Buffer_fs_index s - 1))]"
    by (simp add: free_list_def)
  then show ?thesis
    using False assms
    by (simp add: receiver_def Let_def buf_inv_def free_list_def ring_list_def ac_simps)
qed

text \<open>Ring indices: one step forward modulo the ring size.\<close>

definition rb_step :: "u8 \<Rightarrow> u8" where
  "rb_step x = (if x + 1 = PACKET_RB_SIZE then 0 else x + 1)"

lemma rb_step_unat: "unat x < 11 \<Longrightarrow> unat (rb_step x) = (unat x + 1) mod 11"
proof -
  assume x: "unat x < 11"
  have "x + 1 = PACKET_RB_SIZE \<longleftrightarrow> unat (x + 1) = 11"
    by (auto simp: cfg_defs word_unat_eq_iff)
  then show ?thesis using x u8_Suc [of x] by (auto simp: rb_step_def mod_Suc)
qed

lemma mod11_neq: "i < n \<Longrightarrow> n < 11 \<Longrightarrow> (f + i) mod 11 \<noteq> (f + n) mod (11 :: nat)"
proof
  assume *: "i < n" "n < 11" "(f + i) mod 11 = (f + n) mod 11"
  then have "11 dvd (f + n) - (f + i)"
    by (subst (asm) eq_commute) (simp add: mod_eq_dvd_iff_nat)
  then show False using * by (auto dest!: dvd_imp_le)
qed

lemma length_ring_list:
  "length (ring_list s) = (unat (Buffer_next s) + 11 - unat (Buffer_first s)) mod 11"
  by (simp add: ring_list_def)

lemma ring_next:
  assumes "unat (Buffer_first s) < 11" and "unat (Buffer_next s) < 11"
  shows "(unat (Buffer_first s) + length (ring_list s)) mod 11 = unat (Buffer_next s)"
proof -
  have "(unat (Buffer_first s) + (unat (Buffer_next s) + 11 - unat (Buffer_first s)) mod 11) mod 11 =
      (unat (Buffer_first s) + (unat (Buffer_next s) + 11 - unat (Buffer_first s))) mod 11"
    by (rule mod_add_right_eq)
  then show ?thesis using assms by (simp add: length_ring_list)
qed

lemma ring_count_unique:
  assumes "f < 11" and "k < 11" and "n = (f + k) mod (11 :: nat)"
  shows "(n + 11 - f) mod 11 = k"
  using assms by (cases "f + k < 11") (auto simp: mod_if)

lemma ring_list_push:
  assumes "unat (Buffer_first s) < 11" and "unat (Buffer_next s) < 11" and "length (ring_list s) < 10"
    and "Buffer s' = (Buffer s)(unat (Buffer_next s) := b)" and "Buffer_first s' = Buffer_first s"
    and "Buffer_next s' = rb_step (Buffer_next s)"
  shows "ring_list s' = ring_list s @ [b]"
proof -
  let ?f = "unat (Buffer_first s)" and ?n = "unat (Buffer_next s)" and ?k = "length (ring_list s)"
  have n: "?n = (?f + ?k) mod 11" using ring_next [OF assms(1,2)] by simp
  have "unat (Buffer_next s') = (?f + Suc ?k) mod 11"
    using assms n by (simp add: rb_step_unat mod_Suc_eq)
  then have k: "length (ring_list s') = Suc ?k"
    using ring_count_unique [OF assms(1), of "Suc ?k"] assms(3,5) by (simp add: length_ring_list)
  have "ring_list s' = map (\<lambda>i. Buffer s' ((?f + i) mod 11)) [0..<Suc ?k]"
    using k assms(5) unfolding length_ring_list by (simp add: ring_list_def)
  also have "\<dots> = map (\<lambda>i. Buffer s ((?f + i) mod 11)) [0..<?k] @ [b]"
    using assms(3,4) n mod11_neq [of _ ?k ?f] by simp
  also have "map (\<lambda>i. Buffer s ((?f + i) mod 11)) [0..<?k] = ring_list s"
    by (simp add: ring_list_def length_ring_list)
  finally show ?thesis .
qed

lemma ring_list_pop:
  assumes "unat (Buffer_first s) < 11" and "unat (Buffer_next s) < 11"
    and "Buffer_first s \<noteq> Buffer_next s"
    and "Buffer s' = Buffer s" and "Buffer_first s' = rb_step (Buffer_first s)"
    and "Buffer_next s' = Buffer_next s"
  shows "ring_list s = Buffer s (unat (Buffer_first s)) # ring_list s'"
proof -
  let ?f = "unat (Buffer_first s)" and ?n = "unat (Buffer_next s)" and ?k = "length (ring_list s)"
  have n: "?n = (?f + ?k) mod 11" using ring_next [OF assms(1,2)] by simp
  have "?n \<noteq> ?f" using assms(3) by (simp add: word_unat_eq_iff)
  then have "?k \<noteq> 0" using n assms(1) by (cases "?k = 0") auto
  then obtain j where j: "?k = Suc j" by (cases ?k) auto
  have lt: "?k < 11" by (simp add: length_ring_list)
  have f': "unat (Buffer_first s') = (?f + 1) mod 11" using assms by (simp add: rb_step_unat)
  have "?n = ((?f + 1) mod 11 + j) mod 11" using n j by (simp add: mod_simps)
  then have k': "length (ring_list s') = j"
    using ring_count_unique [of "(?f + 1) mod 11" j ?n] f' lt j assms(6) by (simp add: length_ring_list)
  have "ring_list s = map (\<lambda>i. Buffer s ((?f + i) mod 11)) [0..<Suc j]"
    using j unfolding length_ring_list by (simp add: ring_list_def)
  also have "\<dots> = Buffer s (?f mod 11) # map (\<lambda>i. Buffer s ((?f + Suc i) mod 11)) [0..<j]"
    by (simp add: upt_conv_Cons flip: map_Suc_upt del: upt_Suc)
  also have "map (\<lambda>i. Buffer s ((?f + Suc i) mod 11)) [0..<j] = ring_list s'"
    using k' f' assms(4) unfolding length_ring_list by (simp add: ring_list_def mod_simps)
  finally show ?thesis using assms(1) by simp
qed

lemma buf_inv_received:
  assumes "buf_inv held (Some b) s" and "ax \<noteq> 0"
  shows "buf_inv held None (fst (receiver ax cx s))"
proof -
  let ?s = "fst (receiver ax cx s)"
  have l: "length (ring_list s) < 10" using buf_inv_sizes [OF assms(1)] by simp
  have "ring_list ?s = ring_list s @ [b]"
    using assms l by (intro ring_list_push) (auto simp: buf_inv_def receiver_def Let_def rb_step_def)
  moreover have "free_list ?s = free_list s" and "Buffer_next ?s = rb_step (Buffer_next s)"
    and "Buffer_first ?s = Buffer_first s"
    using assms(2) by (simp_all add: receiver_def Let_def free_list_def rb_step_def)
  ultimately show ?thesis
    using assms(1) rb_step_unat [of "Buffer_next s"] by (simp add: buf_inv_def ac_simps)
qed

lemma buf_inv_dequeue:
  assumes "buf_inv held copying s" and "Buffer_first s \<noteq> Buffer_next s"
  shows "buf_inv (held + {#fst (snd (Packet_dequeue s))#}) copying (fst (Packet_dequeue s))"
proof -
  let ?s = "fst (Packet_dequeue s)"
  have "ring_list s = Buffer s (unat (Buffer_first s)) # ring_list ?s"
    using assms by (intro ring_list_pop) (auto simp: buf_inv_def Packet_dequeue_def Let_def rb_step_def)
  moreover have "free_list ?s = free_list s" and "Buffer_first ?s = rb_step (Buffer_first s)"
    and "fst (snd (Packet_dequeue s)) = Buffer s (unat (Buffer_first s))"
    and "Buffer_next ?s = Buffer_next s"
    and "Buffer_packetBeingCopied ?s = Buffer_packetBeingCopied s"
    by (simp_all add: Packet_dequeue_def Let_def free_list_def rb_step_def)
  ultimately show ?thesis
    using assms(1) rb_step_unat [of "Buffer_first s"] by (simp add: buf_inv_def ac_simps)
qed

lemma buf_inv_free:
  assumes "buf_inv (held + {#b#}) copying s"
  shows "buf_inv held copying (Buffer_free b s)"
proof -
  have "b \<in># pool_all"
    using assms by (metis (no_types, lifting) buf_inv_def add_mset_add_single union_iff union_single_eq_member)
  then have nb: "\<not> isIpBigPacket b" by (auto simp: pool_all_def isIpBigPacket_def)
  have "unat (Buffer_fs_index s) < 10" using buf_inv_sizes [OF assms] by simp
  then have "unat (Buffer_fs_index s + 1) = Suc (unat (Buffer_fs_index s))" by (intro u8_Suc) simp
  then have "free_list (Buffer_free b s) = free_list s @ [b]"
    using nb by (simp add: free_list_def Buffer_free_def)
  then show ?thesis
    using assms nb by (simp add: buf_inv_def Buffer_free_def ring_list_def ac_simps)
qed

text \<open>
  The life of the pool: the driver asks for a buffer and reports the copy, the main loop takes
  the oldest packet, and whoever holds a buffer frees it.
\<close>

inductive pool_step ::
    "bufref multiset \<times> bufref option \<times> 'a net_scheme \<Rightarrow> bufref multiset \<times> bufref option \<times> 'a net_scheme \<Rightarrow> bool"
  where
  Ask: "pool_step (held, None, s) (held, snd (receiver 0 cx s), fst (receiver 0 cx s))"
| Copy: "pool_step (held, Some b, s) (held, Some b, driver_copy b xs s)"
| Copied: "ax \<noteq> 0 \<Longrightarrow> pool_step (held, Some b, s) (held, None, fst (receiver ax cx s))"
| Take: "Buffer_first s \<noteq> Buffer_next s \<Longrightarrow>
    pool_step (held, c, s) (held + {#fst (snd (Packet_dequeue s))#}, c, fst (Packet_dequeue s))"
| Give: "b \<in># held \<Longrightarrow> pool_step (held, c, s) (held - {#b#}, c, Buffer_free b s)"
| Send: "pool_step (held, c, s) (held, c, Packet_send_pkt f l s)"

inductive_cases pool_stepE: "pool_step (held, c, s) (held', c', s')"

lemma pool_step_inv:
  assumes "pool_step x y" and "case x of (held, c, s) \<Rightarrow> buf_inv held c s"
  shows "case y of (held, c, s) \<Rightarrow> buf_inv held c s"
  using assms
proof (induction rule: pool_step.induct)
  case (Ask held s cx)
  then show ?case using buf_inv_receive [of held s 0 cx] by simp
next
  case (Copy held b s xs)
  then show ?case by (simp add: driver_copy_def buf_inv_def free_list_def ring_list_def)
next
  case (Copied ax held b s cx)
  then show ?case using buf_inv_received by simp
next
  case (Take s held c)
  then show ?case using buf_inv_dequeue by simp
next
  case (Give b held c s)
  then show ?case using buf_inv_free [of "held - {#b#}" b c s] by simp
next
  case (Send held c s f l)
  then show ?case by (simp add: buf_inv_def free_list_def ring_list_def)
qed

lemma pool_reach_inv:
  assumes "pool_step\<^sup>*\<^sup>* x y" and "case x of (held, c, s) \<Rightarrow> buf_inv held c s"
  shows "case y of (held, c, s) \<Rightarrow> buf_inv held c s"
  using assms by (induction rule: rtranclp_induct) (auto dest: pool_step_inv)

section \<open>The program before initialisation\<close>

text \<open>The zero-initialised statics, with a heap and a driver that never fail.\<close>

definition zero_net :: net where
  "zero_net = \<lparr>Timer_CurrentTicks = 0, unix_time = 0, rand_stream = (\<lambda>_. 0), rand_calls = 0,
     malloc_ok = (\<lambda>_. True), heap_next = 0, heap_live = {}, heap_mem = (\<lambda>_ _. 0),
     drv_carry = (\<lambda>_. False), drv_calls = 0, wire = [], MyEthAddr = (0, 0, 0), MyMTU = 1500,
     MyIpAddr = IpInvalid, MyIpAddr_u = 0, Netmask = IpInvalid, Netmask_u = 0, Gateway = IpInvalid,
     env_MTCPSLIP = False, cfg_ICMP = False, cfg_TCP_LISTEN = False, pkt_mem = (\<lambda>_ _. 0),
     Buffer = (\<lambda>_. PoolBuf 0), Buffer_len = (\<lambda>_. 0), Buffer_first = 0, Buffer_next = 0,
     Buffer_fs = (\<lambda>_. PoolBuf 0), Buffer_fs_index = 0, Buffer_packetBeingCopied = PoolBuf 0,
     Buffer_lowFreeCount = 0, BufferMemPtr = None, BigPacketFreeList = (\<lambda>_. BigBuf 0),
     BigPacketFreeIndex = 0, Packet_EtherTypeVal = (\<lambda>_. 0),
     Packet_EtherTypeHandler = (\<lambda>_. HandlerArp), Packet_EtherTypeHandlers = 0,
     Packet_typeUnhandled = None, Packets_dropped = 0, Packets_received = 0, Packets_sent = 0,
     Packets_send_errs = 0, Packets_send_retries = 0\<rparr>"

section \<open>Properties\<close>

text \<open>
  C12. No incoming buffer is lost or duplicated: from \<open>Buffer_init\<close> and
  \<open>Buffer_startReceiving\<close> on, whatever the driver, the main loop and the holders of packets do,
  the free stack, the ring, the buffer being filled and the packets held are together exactly
  the ten buffers, and the stack and ring indices stay in their arrays.
\<close>

theorem buffer_pool_conserved:
  assumes "malloc_ok s0 (heap_next s0)"
    and "pool_step\<^sup>*\<^sup>* ({#}, None, Buffer_startReceiving (fst (Buffer_init s0))) (held, c, s)"
  shows "mset (free_list s) + mset (ring_list s) + (case c of None \<Rightarrow> {#} | Some b \<Rightarrow> {#b#}) + held =
      mset (map PoolBuf [0..<10]) \<and> unat (Buffer_fs_index s) \<le> 10 \<and>
      unat (Buffer_first s) < 11 \<and> unat (Buffer_next s) < 11"
proof -
  have "buf_inv held c s"
    using pool_reach_inv [OF assms(2)] buf_inv_init [OF assms(1)] by simp
  then show ?thesis
    using buf_inv_sizes [of held c s] by (simp add: buf_inv_def pool_all_def)
qed

theorem buffer_pool_conserved_witness:
  "unat (Buffer_fs_index (fst (receiver 0 60 (Buffer_startReceiving (fst (Buffer_init zero_net)))))) \<le> 10"
proof -
  let ?s = "Buffer_startReceiving (fst (Buffer_init zero_net))"
  have m: "malloc_ok zero_net (heap_next zero_net)" by (simp add: zero_net_def)
  have "pool_step ({#}, None, ?s) ({#}, snd (receiver 0 60 ?s), fst (receiver 0 60 ?s))" by (rule Ask)
  then show ?thesis using buffer_pool_conserved [OF m r_into_rtranclp] by blast
qed

text \<open>
  A frame is offered to the driver at most five times and reaches the wire once, padded to the
  60-byte minimum, unless all five attempts fail, which is counted as one error.  The retry
  counter \<^verbatim>\<open>Packets_send_retries\<close> never changes.
\<close>

lemma Packet_send_pkt_delivers:
  "wire (Packet_send_pkt f len s) =
     (if \<exists>k<5. \<not> drv_carry s (drv_calls s + k) then wire s @ [(f, if len < 60 then 60 else len)] else wire s)
   \<and> Packets_send_errs (Packet_send_pkt f len s) =
     Packets_send_errs s + (if \<exists>k<5. \<not> drv_carry s (drv_calls s + k) then 0 else 1)
   \<and> Packets_sent (Packet_send_pkt f len s) = Packets_sent s + 1
   \<and> Packets_send_retries (Packet_send_pkt f len s) = Packets_send_retries s"
  by (simp add: Packet_send_pkt_wire Packet_send_pkt_errs drv_ok_def)

end
