(* ===== verification/Arp.thy ===== *)
theory Arp
  imports Packet
begin

text \<open>
  Address resolution, \<^verbatim>\<open>code/TCPLIB/ARP.CPP\<close> and \<^verbatim>\<open>ARP.H\<close>: the cache \<open>arpTable\<close>, the table of
  pending requests with its retries, the pre-built packets and the handler of incoming ARP
  packets.  \<open>arp_state\<close> extends the packet layer's state.
\<close>

unbundle bit_operations_syntax

section \<open>State\<close>

definition ARP_MAX_ENTRIES :: u16 where [cfg_defs]: "ARP_MAX_ENTRIES = 5"
definition ARP_MAX_PENDING :: u16 where [cfg_defs]: "ARP_MAX_PENDING = 2"
definition ARP_RETRIES :: "8 word" where [cfg_defs]: "ARP_RETRIES = 3"
definition ARP_TIMEOUT :: u32 where [cfg_defs]: "ARP_TIMEOUT = 500"

text \<open>\<^verbatim>\<open>attempts\<close> is an \<^verbatim>\<open>int8_t\<close>; \<open>- 1\<close> marks a slot that is not in use.\<close>

record Pending_t =
  p_target :: IpAddr
  p_start :: u32
  p_attempts :: u8

record Rec_t =
  r_ethAddr :: EthAddr
  r_ipAddr :: IpAddr
  r_updated :: u32

record ArpPacket_t =
  ap_eh :: EthHeader
  ap_ah :: ArpHeader

record arp_state = net +
  pending :: "nat \<Rightarrow> Pending_t"
  pendingEntries :: u16
  arpTable :: "nat \<Rightarrow> Rec_t"
  entries :: u16
  Arp_prebuiltResponse :: ArpPacket_t
  Arp_prebuiltRequest :: ArpPacket_t
  Arp_RequestsReceived :: u32
  Arp_RepliesReceived :: u32
  Arp_RequestsSent :: u32
  Arp_RepliesSent :: u32
  Arp_CacheModifiedCount :: u32
  Arp_CacheEvictions :: u32

text \<open>\<^verbatim>\<open>sizeof( ArpPacket_t )\<close>: two headers and 18 bytes of padding.\<close>

definition sizeof_ArpPacket :: u16 where
  "sizeof_ArpPacket = 60"

section \<open>Initialisation\<close>

definition clearPendingTable :: "'a arp_state_scheme \<Rightarrow> 'a arp_state_scheme" where
  "clearPendingTable s =
     s\<lparr>pending := (\<lambda>i. if i < unat ARP_MAX_PENDING then (pending s i)\<lparr>p_attempts := - 1\<rparr>
                       else pending s i),
       pendingEntries := 0\<rparr>"

definition Arp_init :: "'a arp_state_scheme \<Rightarrow> 'a arp_state_scheme" where
  "Arp_init s =
     (let s = clearPendingTable s;
          s = (if env_MTCPSLIP s
               then s\<lparr>arpTable := (arpTable s)(0 := \<lparr>r_ethAddr = Eth_Broadcast,
                          r_ipAddr = Gateway s, r_updated = unix_time s\<rparr>),
                      entries := entries s + 1\<rparr>
               else s);
          resp = Arp_prebuiltResponse s;
          req = Arp_prebuiltRequest s
      in s\<lparr>Arp_prebuiltResponse :=
             \<lparr>ap_eh = eh_setType 0x0806 (eh_setSrc (MyEthAddr s) (ap_eh resp)),
              ap_ah = (ap_ah resp)\<lparr>ah_hardwareType := ntohs 1, ah_protocolType := ntohs 0x0800,
                ah_hlen := 6, ah_plen := 4, ah_operation := htons 2,
                ah_sender_ha := MyEthAddr s, ah_sender_ip := MyIpAddr s\<rparr>\<rparr>,
           Arp_prebuiltRequest :=
             \<lparr>ap_eh = eh_setType 0x0806 (eh_setSrc (MyEthAddr s) (eh_setDest Eth_Broadcast (ap_eh req))),
              ap_ah = (ap_ah req)\<lparr>ah_hardwareType := ntohs 1, ah_protocolType := ntohs 0x0800,
                ah_hlen := 6, ah_plen := 4, ah_operation := htons 1,
                ah_sender_ha := MyEthAddr s, ah_sender_ip := MyIpAddr s,
                ah_target_ha := Eth_Broadcast\<rparr>\<rparr>\<rparr>)"

section \<open>The cache\<close>

text \<open>The index of the first entry of the address; \<open>None\<close> is the \<open>- 1\<close> of the source.\<close>

definition findEth :: "IpAddr \<Rightarrow> 'a arp_state_scheme \<Rightarrow> nat option" where
  "findEth target_ip s =
     find (\<lambda>i. ip_isSame (r_ipAddr (arpTable s i)) target_ip) [0..<unat (entries s)]"

definition updateEntry :: "nat \<Rightarrow> EthAddr \<Rightarrow> 'a arp_state_scheme \<Rightarrow> 'a arp_state_scheme" where
  "updateEntry index newEthAddr s =
     s\<lparr>arpTable := (arpTable s)(index :=
         (arpTable s index)\<lparr>r_ethAddr := newEthAddr, r_updated := unix_time s\<rparr>)\<rparr>"

text \<open>The scan for the oldest entry, from index 1 on.\<close>

definition lowestTimeIndex :: "'a arp_state_scheme \<Rightarrow> nat" where
  "lowestTimeIndex s =
     foldl (\<lambda>low i. if r_updated (arpTable s i) < r_updated (arpTable s low) then i else low)
       0 [1..<unat (entries s)]"

definition updateOrAddCache :: "EthAddr \<Rightarrow> IpAddr \<Rightarrow> 'a arp_state_scheme \<Rightarrow> 'a arp_state_scheme" where
  "updateOrAddCache newEthAddr newIpAddr s =
     (let s = s\<lparr>Arp_CacheModifiedCount := Arp_CacheModifiedCount s + 1\<rparr>
      in case findEth newIpAddr s of
           Some rc \<Rightarrow> updateEntry rc newEthAddr s
         | None \<Rightarrow>
             (let (s, target) =
                (if entries s < ARP_MAX_ENTRIES
                 then (s\<lparr>entries := entries s + 1\<rparr>, unat (entries s))
                 else (s\<lparr>Arp_CacheEvictions := Arp_CacheEvictions s + 1\<rparr>, lowestTimeIndex s))
              in s\<lparr>arpTable := (arpTable s)(target :=
                     \<lparr>r_ethAddr = newEthAddr, r_ipAddr = newIpAddr, r_updated = unix_time s\<rparr>)\<rparr>))"

section \<open>Requests and responses\<close>

definition sendArpRequest2 :: "IpAddr \<Rightarrow> 'a arp_state_scheme \<Rightarrow> 'a arp_state_scheme" where
  "sendArpRequest2 target_ip s =
     (let arpRequest = Arp_prebuiltRequest s;
          ah = (ap_ah arpRequest)\<lparr>ah_target_ip := target_ip\<rparr>
      in Packet_send_pkt (ArpFrame (ap_eh arpRequest) ah) sizeof_ArpPacket s)"

definition sendArpRequest :: "IpAddr \<Rightarrow> 'a arp_state_scheme \<Rightarrow> 'a arp_state_scheme" where
  "sendArpRequest target_ip s =
     (if \<exists>i<unat ARP_MAX_PENDING. p_attempts (pending s i) \<noteq> - 1 \<and>
            ip_isSame (p_target (pending s i)) target_ip
      then s
      else if pendingEntries s = ARP_MAX_PENDING then s
      else (let i = (case find (\<lambda>i. p_attempts (pending s i) = - 1) [0..<unat ARP_MAX_PENDING] of
                       Some i \<Rightarrow> i | None \<Rightarrow> unat ARP_MAX_PENDING);
                s = s\<lparr>pending := (pending s)(i := \<lparr>p_target = target_ip,
                         p_start = Timer_CurrentTicks s, p_attempts = 0\<rparr>),
                      pendingEntries := pendingEntries s + 1,
                      Arp_RequestsSent := Arp_RequestsSent s + 1\<rparr>
            in sendArpRequest2 target_ip s))"

definition sendArpResponse :: "ArpHeader \<Rightarrow> 'a arp_state_scheme \<Rightarrow> 'a arp_state_scheme" where
  "sendArpResponse ah s =
     (let arpResponse = Arp_prebuiltResponse s;
          eh = eh_setDest (ah_sender_ha ah) (ap_eh arpResponse);
          rh = (ap_ah arpResponse)\<lparr>ah_target_ha := ah_sender_ha ah, ah_target_ip := ah_sender_ip ah\<rparr>;
          s = Packet_send_pkt (ArpFrame eh rh) sizeof_ArpPacket s
      in s\<lparr>Arp_RepliesSent := Arp_RepliesSent s + 1\<rparr>)"

text \<open>
  \<open>resolve\<close> returns the hardware address (return code 0), or \<open>None\<close> (return code 1) when the
  resolution is pending.
\<close>

definition resolve :: "IpAddr \<Rightarrow> 'a arp_state_scheme \<Rightarrow> 'a arp_state_scheme \<times> EthAddr option" where
  "resolve target_ip s =
     (case findEth target_ip s of
        Some i \<Rightarrow> (s, Some (r_ethAddr (arpTable s i)))
      | None \<Rightarrow> (sendArpRequest target_ip s, None))"

section \<open>Incoming packets\<close>

definition arp_request_in :: "ArpHeader \<Rightarrow> 'a arp_state_scheme \<Rightarrow> 'a arp_state_scheme" where
  "arp_request_in ah s =
     (let s = s\<lparr>Arp_RequestsReceived := Arp_RequestsReceived s + 1\<rparr>
      in if ip_isSame (ah_target_ip ah) (MyIpAddr s) \<and> \<not> ip_isSame (ah_sender_ip ah) (MyIpAddr s)
         then sendArpResponse ah (updateOrAddCache (ah_sender_ha ah) (ah_sender_ip ah) s)
         else s)"

text \<open>The pending slot a reply satisfies: the loop leaves at the first.\<close>

definition reply_slot :: "ArpHeader \<Rightarrow> 'a arp_state_scheme \<Rightarrow> nat option" where
  "reply_slot ah s =
     find (\<lambda>i. p_attempts (pending s i) \<noteq> - 1 \<and> ip_isSame (ah_sender_ip ah) (p_target (pending s i)) \<and>
        (\<not> ip_isSame (ah_sender_ip ah) (MyIpAddr s) \<or> \<not> eth_isSame (ah_sender_ha ah) (MyEthAddr s)))
       [0..<unat ARP_MAX_PENDING]"

definition arp_update_known :: "IpAddr \<Rightarrow> EthAddr \<Rightarrow> 'a arp_state_scheme \<Rightarrow> 'a arp_state_scheme" where
  "arp_update_known ip ha s =
     (case findEth ip s of Some rc \<Rightarrow> updateEntry rc ha s | None \<Rightarrow> s)"

definition arp_reply_in :: "ArpHeader \<Rightarrow> 'a arp_state_scheme \<Rightarrow> 'a arp_state_scheme" where
  "arp_reply_in ah s =
     (let s = s\<lparr>Arp_RepliesReceived := Arp_RepliesReceived s + 1\<rparr>
      in case reply_slot ah s of
           None \<Rightarrow> s
         | Some i \<Rightarrow>
             (let s = updateOrAddCache (ah_sender_ha ah) (ah_sender_ip ah) s;
                  s = s\<lparr>pending := (pending s)(i := (pending s i)\<lparr>p_attempts := - 1\<rparr>),
                        pendingEntries := pendingEntries s - 1\<rparr>;
                  s = arp_update_known (ah_target_ip ah) (ah_target_ha ah) s
              in arp_update_known (ah_sender_ip ah) (ah_sender_ha ah) s))"

definition processArp :: "bufref \<Rightarrow> u16 \<Rightarrow> 'a arp_state_scheme \<Rightarrow> 'a arp_state_scheme" where
  "processArp packet packetLen s =
     (let ah = read_ArpHeader (pkt_mem s packet) 14;
          op = ntohs (ah_operation ah);
          s = (if op = 1 then arp_request_in ah s
               else if op = 2 then arp_reply_in ah s
               else s)
      in Buffer_free packet s)"

section \<open>Retries\<close>

definition driveArp_slot :: "nat \<Rightarrow> 'a arp_state_scheme \<Rightarrow> 'a arp_state_scheme" where
  "driveArp_slot i s =
     (if p_attempts (pending s i) = - 1 then s
      else if p_attempts (pending s i) = ARP_RETRIES
      then s\<lparr>pending := (pending s)(i := (pending s i)\<lparr>p_attempts := - 1\<rparr>),
             pendingEntries := pendingEntries s - 1\<rparr>
      else (let current = Timer_CurrentTicks s
            in if TIMER_MS_TO_TICKS ARP_TIMEOUT < Timer_diff (p_start (pending s i)) current
               then (let s = s\<lparr>pending := (pending s)(i := (pending s i)\<lparr>p_start := current,
                           p_attempts := p_attempts (pending s i) + 1\<rparr>)\<rparr>
                     in sendArpRequest2 (p_target (pending s i)) s)
               else s))"

definition driveArp2 :: "'a arp_state_scheme \<Rightarrow> 'a arp_state_scheme" where
  "driveArp2 s = fold driveArp_slot [0..<unat ARP_MAX_PENDING] s"

definition driveArp :: "'a arp_state_scheme \<Rightarrow> 'a arp_state_scheme" where
  "driveArp s = (if pendingEntries s \<noteq> 0 then driveArp2 s else s)"

section \<open>What sending changes\<close>

lemma Packet_send_pkt_arp_frame [simp]:
  "pending (Packet_send_pkt f l s) = pending s"
  "pendingEntries (Packet_send_pkt f l s) = pendingEntries s"
  "arpTable (Packet_send_pkt f l s) = arpTable s"
  "entries (Packet_send_pkt f l s) = entries s"
  "Arp_prebuiltResponse (Packet_send_pkt f l s) = Arp_prebuiltResponse s"
  "Arp_prebuiltRequest (Packet_send_pkt f l s) = Arp_prebuiltRequest s"
  "Arp_RequestsSent (Packet_send_pkt f l s) = Arp_RequestsSent s"
  "Arp_RepliesSent (Packet_send_pkt f l s) = Arp_RepliesSent s"
  by (subst Packet_send_pkt_shape, simp)+

lemma Buffer_free_arp_frame [simp]:
  "pending (Buffer_free b s) = pending s" "pendingEntries (Buffer_free b s) = pendingEntries s"
  "arpTable (Buffer_free b s) = arpTable s" "entries (Buffer_free b s) = entries s"
  "wire (Buffer_free b s) = wire s"
  by (simp_all add: Buffer_free_def freeBigPacket_def)

lemma sendArpRequest2_frame [simp]:
  "pending (sendArpRequest2 ip s) = pending s" "pendingEntries (sendArpRequest2 ip s) = pendingEntries s"
  "arpTable (sendArpRequest2 ip s) = arpTable s" "entries (sendArpRequest2 ip s) = entries s"
  by (simp_all add: sendArpRequest2_def Let_def)

lemma sendArpRequest_frame [simp]:
  "arpTable (sendArpRequest ip s) = arpTable s" "entries (sendArpRequest ip s) = entries s"
  by (simp_all add: sendArpRequest_def Let_def)

section \<open>The cache as a map\<close>

definition cache_wf :: "'a arp_state_scheme \<Rightarrow> bool" where
  "cache_wf s \<longleftrightarrow> unat (entries s) \<le> 5 \<and>
     inj_on (\<lambda>i. r_ipAddr (arpTable s i)) {..<unat (entries s)}"

definition arp_lookup :: "'a arp_state_scheme \<Rightarrow> IpAddr \<Rightarrow> EthAddr option" where
  "arp_lookup s ip = map_option (\<lambda>i. r_ethAddr (arpTable s i)) (findEth ip s)"

lemma findEth_SomeD:
  "findEth ip s = Some i \<Longrightarrow> i < unat (entries s) \<and> r_ipAddr (arpTable s i) = ip"
  by (auto simp: findEth_def find_Some_iff)

lemma findEth_NoneD: "findEth ip s = None \<Longrightarrow> i < unat (entries s) \<Longrightarrow> r_ipAddr (arpTable s i) \<noteq> ip"
  by (auto simp: findEth_def find_None_iff)

lemma findEth_NoneI:
  "(\<And>i. i < unat (entries s) \<Longrightarrow> r_ipAddr (arpTable s i) \<noteq> ip) \<Longrightarrow> findEth ip s = None"
  by (auto simp: findEth_def find_None_iff)

lemma findEth_unique:
  assumes "cache_wf s" and "i < unat (entries s)"
  shows "findEth (r_ipAddr (arpTable s i)) s = Some i"
proof (cases "findEth (r_ipAddr (arpTable s i)) s")
  case None
  then show ?thesis using findEth_NoneD assms(2) by blast
next
  case (Some j)
  then have "j < unat (entries s)" "r_ipAddr (arpTable s j) = r_ipAddr (arpTable s i)"
    using findEth_SomeD by blast+
  then have "j = i" using assms by (auto simp: cache_wf_def dest: inj_onD)
  then show ?thesis using Some by simp
qed

lemma arp_lookup_iff:
  "cache_wf s \<Longrightarrow> arp_lookup s ip = Some ha \<longleftrightarrow>
     (\<exists>i<unat (entries s). r_ipAddr (arpTable s i) = ip \<and> r_ethAddr (arpTable s i) = ha)"
proof (intro iffI)
  assume "cache_wf s" and "arp_lookup s ip = Some ha"
  then show "\<exists>i<unat (entries s). r_ipAddr (arpTable s i) = ip \<and> r_ethAddr (arpTable s i) = ha"
    using findEth_SomeD [of ip s] by (cases "findEth ip s") (auto simp: arp_lookup_def)
next
  assume wf: "cache_wf s"
    and "\<exists>i<unat (entries s). r_ipAddr (arpTable s i) = ip \<and> r_ethAddr (arpTable s i) = ha"
  then obtain i where "i < unat (entries s)" "r_ipAddr (arpTable s i) = ip" "r_ethAddr (arpTable s i) = ha"
    by blast
  then show "arp_lookup s ip = Some ha"
    using findEth_unique [OF wf, of i] by (simp add: arp_lookup_def)
qed

text \<open>The index the scan for the oldest entry returns holds the least time.\<close>

lemma oldest_fold:
  "foldl (\<lambda>low i. if f i < f low then i else low) a xs \<in> insert a (set xs) \<and>
   (\<forall>x \<in> insert a (set xs). f (foldl (\<lambda>low i. if f i < f low then i else low) a xs) \<le> (f x :: 'b::linorder))"
proof (induction xs arbitrary: a)
  case Nil
  then show ?case by simp
next
  case (Cons x xs)
  let ?m = "if f x < f a then x else a"
  let ?r = "foldl (\<lambda>low i. if f i < f low then i else low) ?m xs"
  have "?r \<in> insert ?m (set xs)" and le: "\<forall>y \<in> insert ?m (set xs). f ?r \<le> f y"
    using Cons.IH [of ?m] by blast+
  moreover have "?m \<in> {a, x}" by simp
  moreover have "f ?r \<le> f a" "f ?r \<le> f x"
    using le by (auto simp: not_less split: if_splits intro: order.trans order.strict_implies_order)
  ultimately show ?case unfolding foldl.simps by auto
qed

lemma lowestTimeIndex_least:
  assumes "0 < unat (entries s)"
  shows "lowestTimeIndex s < unat (entries s)"
    and "i < unat (entries s) \<Longrightarrow>
      r_updated (arpTable s (lowestTimeIndex s)) \<le> r_updated (arpTable s i)"
proof -
  note o = oldest_fold [of "\<lambda>i. r_updated (arpTable s i)" 0 "[1..<unat (entries s)]"]
  have "insert 0 (set [1..<unat (entries s)]) = {..<unat (entries s)}" using assms by auto
  then show "lowestTimeIndex s < unat (entries s)" and "i < unat (entries s) \<Longrightarrow>
      r_updated (arpTable s (lowestTimeIndex s)) \<le> r_updated (arpTable s i)"
    using o unfolding lowestTimeIndex_def by auto
qed

lemma entries_full_iff: "entries s < ARP_MAX_ENTRIES \<longleftrightarrow> unat (entries s) < 5"
  by (simp add: cfg_defs word_less_nat_alt)

lemma entries_Suc: "unat (entries s) < 5 \<Longrightarrow> unat (entries s + 1) = Suc (unat (entries s))"
  by (simp add: unat_word_ariths)

text \<open>\<open>updateOrAddCache\<close> in three cases: the address is known, there is room, the oldest goes.\<close>

lemma update_known:
  assumes "cache_wf s" and "findEth ip s = Some i"
  shows "cache_wf (updateOrAddCache ha ip s) \<and>
    arp_lookup (updateOrAddCache ha ip s) = (arp_lookup s)(ip \<mapsto> ha)"
proof -
  let ?s = "updateOrAddCache ha ip s"
  have i: "i < unat (entries s)" "r_ipAddr (arpTable s i) = ip"
    using findEth_SomeD [OF assms(2)] by simp_all
  have f: "findEth ip (s\<lparr>Arp_CacheModifiedCount := c\<rparr>) = Some i" for c
    using assms(2) by (simp add: findEth_def)
  have e: "entries ?s = entries s"
    and t: "arpTable ?s = (arpTable s)(i := (arpTable s i)\<lparr>r_ethAddr := ha, r_updated := unix_time s\<rparr>)"
    by (simp_all add: updateOrAddCache_def Let_def f updateEntry_def)
  have ips: "r_ipAddr (arpTable ?s j) = r_ipAddr (arpTable s j)" for j by (simp add: t)
  have wf: "cache_wf ?s" using assms(1) unfolding cache_wf_def e ips .
  have "findEth ip' ?s = findEth ip' s" for ip' by (simp add: findEth_def e ips)
  then have "arp_lookup ?s ip' = ((arp_lookup s)(ip \<mapsto> ha)) ip'" for ip'
    using assms(2) findEth_SomeD [of ip' s] i by (cases "findEth ip' s") (auto simp: arp_lookup_def t)
  then show ?thesis using wf by auto
qed

lemma update_slot:
  assumes wf: "cache_wf s" and none: "findEth ip s = None"
    and e: "entries s' = (if t < unat (entries s) then entries s else entries s + 1)"
    and tb: "arpTable s' = (arpTable s)(t := \<lparr>r_ethAddr = ha, r_ipAddr = ip, r_updated = u\<rparr>)"
    and t: "t < unat (entries s) \<or> t = unat (entries s) \<and> t < 5"
  shows "cache_wf s' \<and> arp_lookup s' =
     (if t < unat (entries s) then (arp_lookup s)(r_ipAddr (arpTable s t) := None) else arp_lookup s)(ip \<mapsto> ha)"
proof -
  let ?n = "unat (entries s)"
  have fresh: "r_ipAddr (arpTable s i) \<noteq> ip" if "i < ?n" for i using findEth_NoneD [OF none that] .
  have n': "unat (entries s') = (if t < ?n then ?n else Suc ?n)"
    using e t entries_Suc [of s] by auto
  have inj: "r_ipAddr (arpTable s i) = r_ipAddr (arpTable s j) \<Longrightarrow> i = j" if "i < ?n" "j < ?n" for i j
    using wf that by (auto simp: cache_wf_def dest: inj_onD)
  have wf': "cache_wf s'"
    unfolding cache_wf_def inj_on_def n' tb using wf t fresh inj
    by (auto simp: cache_wf_def less_Suc_eq split: if_splits) blast+
  have dom: "i < unat (entries s') \<longleftrightarrow> i < ?n \<or> i = t" for i using n' t by auto
  have "arp_lookup s' x = ((if t < ?n then (arp_lookup s)(r_ipAddr (arpTable s t) := None)
      else arp_lookup s)(ip \<mapsto> ha)) x" for x
  proof (cases "x = ip")
    case True
    then show ?thesis using arp_lookup_iff [OF wf', of ip ha] dom tb by auto
  next
    case False
    have "arp_lookup s' x = Some h \<longleftrightarrow>
       (\<exists>i<?n. i \<noteq> t \<and> r_ipAddr (arpTable s i) = x \<and> r_ethAddr (arpTable s i) = h)" for h
      using arp_lookup_iff [OF wf', of x h] dom tb False by auto
    moreover have "(if t < ?n then (arp_lookup s)(r_ipAddr (arpTable s t) := None) else arp_lookup s) x
        = Some h \<longleftrightarrow> (\<exists>i<?n. i \<noteq> t \<and> r_ipAddr (arpTable s i) = x \<and> r_ethAddr (arpTable s i) = h)" for h
      using arp_lookup_iff [OF wf, of x h] inj t by auto
    ultimately have "arp_lookup s' x = (if t < ?n then (arp_lookup s)(r_ipAddr (arpTable s t) := None)
        else arp_lookup s) x"
      by (metis option.exhaust)
    then show ?thesis using False by simp
  qed
  then show ?thesis using wf' by auto
qed

lemma update_new:
  assumes "cache_wf s" and "findEth ip s = None" and "unat (entries s) < 5"
  shows "cache_wf (updateOrAddCache ha ip s) \<and>
    arp_lookup (updateOrAddCache ha ip s) = (arp_lookup s)(ip \<mapsto> ha)"
proof -
  have f: "findEth ip (s\<lparr>Arp_CacheModifiedCount := c\<rparr>) = None" for c
    using assms(2) by (simp add: findEth_def)
  show ?thesis
    using update_slot [OF assms(1,2), of "updateOrAddCache ha ip s" "unat (entries s)" ha "unix_time s"]
      assms(3) entries_full_iff [of s]
    by (simp add: updateOrAddCache_def Let_def f)
qed

lemma update_evict:
  assumes "cache_wf s" and "findEth ip s = None" and "unat (entries s) = 5"
  shows "cache_wf (updateOrAddCache ha ip s) \<and>
    arp_lookup (updateOrAddCache ha ip s) =
      (arp_lookup s)(r_ipAddr (arpTable s (lowestTimeIndex s)) := None, ip \<mapsto> ha)"
proof -
  have f: "findEth ip (s\<lparr>Arp_CacheModifiedCount := c\<rparr>) = None" for c
    using assms(2) by (simp add: findEth_def)
  have l: "lowestTimeIndex (s\<lparr>Arp_CacheModifiedCount := c, Arp_CacheEvictions := d\<rparr>) = lowestTimeIndex s"
    "lowestTimeIndex (s\<lparr>Arp_CacheModifiedCount := c\<rparr>) = lowestTimeIndex s" for c d
    by (simp_all add: lowestTimeIndex_def)
  have "lowestTimeIndex s < unat (entries s)" using lowestTimeIndex_least(1) [of s] assms(3) by simp
  then show ?thesis
    using update_slot [OF assms(1,2), of "updateOrAddCache ha ip s" "lowestTimeIndex s" ha "unix_time s"]
      assms(3) entries_full_iff [of s]
    by (simp add: updateOrAddCache_def Let_def f l)
qed

lemma cache_entries_le: "cache_wf s \<Longrightarrow> unat (entries s) < 5 \<or> unat (entries s) = 5"
  by (auto simp: cache_wf_def)

lemma updateOrAddCache_wf: "cache_wf s \<Longrightarrow> cache_wf (updateOrAddCache ha ip s)"
  using update_known [of s ip _ ha] update_new [of s ip ha] update_evict [of s ip ha] cache_entries_le [of s]
  by (cases "findEth ip s") auto

lemma updateOrAddCache_lookup:
  assumes "cache_wf s"
  shows "arp_lookup (updateOrAddCache ha ip s) ip = Some ha"
    and "ip' \<noteq> ip \<Longrightarrow> arp_lookup (updateOrAddCache ha ip s) ip' = Some x \<Longrightarrow> arp_lookup s ip' = Some x"
  using update_known [OF assms, of ip _ ha] update_new [OF assms, of ip ha] update_evict [OF assms, of ip ha]
    cache_entries_le [OF assms]
  by (cases "findEth ip s"; auto split: if_splits)+

section \<open>The contract of a neighbour cache\<close>

text \<open>
  What a user of the cache relies on: the last address learned is the one looked up, and
  learning never invents a binding for another address.  A cache may forget.
\<close>

locale neighbour_cache =
  fixes lookup :: "'s \<Rightarrow> 'k \<Rightarrow> 'v option"
    and learn :: "'v \<Rightarrow> 'k \<Rightarrow> 's \<Rightarrow> 's"
    and wf :: "'s \<Rightarrow> bool"
  assumes learn_wf: "wf s \<Longrightarrow> wf (learn v k s)"
    and lookup_learn: "wf s \<Longrightarrow> lookup (learn v k s) k = Some v"
    and lookup_other: "wf s \<Longrightarrow> k' \<noteq> k \<Longrightarrow> lookup (learn v k s) k' = Some x \<Longrightarrow> lookup s k' = Some x"
begin

lemma learns_wf: "wf s \<Longrightarrow> wf (fold (\<lambda>(v, k). learn v k) ps s)"
  by (induction ps arbitrary: s) (auto simp: learn_wf)

lemma never_stale:
  "wf s \<Longrightarrow> lookup (fold (\<lambda>(v, k). learn v k) ps s) k = Some x \<Longrightarrow>
     (case find (\<lambda>(v, k'). k' = k) (rev ps) of Some (v, _) \<Rightarrow> x = v | None \<Rightarrow> lookup s k = Some x)"
proof (induction ps rule: rev_induct)
  case Nil
  then show ?case by simp
next
  case (snoc p ps)
  obtain v k' where p: "p = (v, k')" by (cases p)
  let ?t = "fold (\<lambda>(v, k). learn v k) ps s"
  show ?case
  proof (cases "k' = k")
    case True
    then show ?thesis using snoc.prems lookup_learn [OF learns_wf [OF snoc.prems(1)]] by (simp add: p)
  next
    case False
    then have "lookup ?t k = Some x"
      using snoc.prems lookup_other [OF learns_wf [OF snoc.prems(1), of ps], of k k' v x] by (simp add: p)
    then show ?thesis using snoc.IH [OF snoc.prems(1)] False by (simp add: p)
  qed
qed

end

interpretation arp_cache: neighbour_cache arp_lookup updateOrAddCache cache_wf
  by unfold_locales (use updateOrAddCache_wf updateOrAddCache_lookup in blast)+

section \<open>Resolution\<close>

lemma resolve_lookup: "snd (resolve ip s) = arp_lookup s ip"
  by (auto simp: resolve_def arp_lookup_def split: option.split)

lemma resolve_hit: "arp_lookup s ip \<noteq> None \<Longrightarrow> fst (resolve ip s) = s"
  by (auto simp: resolve_def arp_lookup_def split: option.split)

lemma resolve_miss: "arp_lookup s ip = None \<Longrightarrow> fst (resolve ip s) = sendArpRequest ip s"
  by (auto simp: resolve_def arp_lookup_def split: option.split)

section \<open>The pending table\<close>

definition pend_used :: "'a arp_state_scheme \<Rightarrow> nat set" where
  "pend_used s = {i. i < 2 \<and> p_attempts (pending s i) \<noteq> - 1}"

text \<open>
  The counter counts the slots in use, a slot in use has made at most three retries, and no
  address is requested twice.
\<close>

definition pend_wf :: "'a arp_state_scheme \<Rightarrow> bool" where
  "pend_wf s \<longleftrightarrow> unat (pendingEntries s) = card (pend_used s) \<and>
     (\<forall>i \<in> pend_used s. p_attempts (pending s i) \<le> ARP_RETRIES) \<and>
     inj_on (\<lambda>i. p_target (pending s i)) (pend_used s)"

lemma pend_used_sub: "pend_used s \<subseteq> {0, 1}"
  by (auto simp: pend_used_def)

lemma finite_pend_used [simp, intro]: "finite (pend_used s)"
  using finite_subset [OF pend_used_sub] by simp

lemma card_pend_used: "card (pend_used s) \<le> 2"
  using card_mono [OF _ pend_used_sub [of s]] by simp

lemma pend_wf_cong:
  "pending s' = pending s \<Longrightarrow> pendingEntries s' = pendingEntries s \<Longrightarrow> pend_wf s' = pend_wf s"
  by (simp add: pend_wf_def pend_used_def)

lemma cache_wf_cong:
  "arpTable s' = arpTable s \<Longrightarrow> entries s' = entries s \<Longrightarrow> cache_wf s' = cache_wf s"
  by (simp add: cache_wf_def)

lemma clearPendingTable_wf: "pend_wf (clearPendingTable s)"
proof -
  have "pend_used (clearPendingTable s) = {}" by (auto simp: pend_used_def clearPendingTable_def cfg_defs)
  then show ?thesis by (simp add: pend_wf_def) (simp add: clearPendingTable_def)
qed

text \<open>Leaving a slot and taking a free one.\<close>

lemma pend_release:
  assumes "pend_wf s" and "i \<in> pend_used s"
    and "pending s' = (pending s)(i := (pending s i)\<lparr>p_attempts := - 1\<rparr>)"
    and "pendingEntries s' = pendingEntries s - 1"
  shows "pend_wf s'"
proof -
  have u: "pend_used s' = pend_used s - {i}"
    using assms(3) by (auto simp: pend_used_def split: if_splits)
  have pos: "0 < card (pend_used s)" using assms(2) by (auto simp: card_gt_0_iff)
  then have "pendingEntries s \<noteq> 0" using assms(1) by (auto simp: pend_wf_def)
  then have "unat (pendingEntries s') = unat (pendingEntries s) - 1"
    using assms(4) unat_minus_one by simp
  then show ?thesis
    using assms(1,2,3) u by (auto simp: pend_wf_def inj_on_def)
qed

lemma pend_acquire:
  assumes "pend_wf s" and "i < 2" and "i \<notin> pend_used s"
    and "\<forall>j \<in> pend_used s. p_target (pending s j) \<noteq> ip"
    and "pending s' = (pending s)(i := \<lparr>p_target = ip, p_start = t, p_attempts = 0\<rparr>)"
    and "pendingEntries s' = pendingEntries s + 1"
  shows "pend_wf s'"
proof -
  have u: "pend_used s' = insert i (pend_used s)"
    using assms(2,5) by (auto simp: pend_used_def split: if_splits)
  have "unat (pendingEntries s) \<le> 2" using assms(1) card_pend_used [of s] by (simp add: pend_wf_def)
  then have "unat (pendingEntries s') = Suc (unat (pendingEntries s))"
    using assms(6) by (simp add: unat_word_ariths)
  then show ?thesis
    using assms(1,3,4,5) u by (auto simp: pend_wf_def inj_on_def)
qed

lemma pend_full_iff: "pend_wf s \<Longrightarrow> pendingEntries s = ARP_MAX_PENDING \<longleftrightarrow> pend_used s = {0, 1}"
proof -
  assume wf: "pend_wf s"
  have "pendingEntries s = ARP_MAX_PENDING \<longleftrightarrow> card (pend_used s) = 2"
    using wf by (simp add: pend_wf_def cfg_defs word_unat_eq_iff)
  also have "\<dots> \<longleftrightarrow> pend_used s = {0, 1}"
  proof
    assume "card (pend_used s) = 2"
    then show "pend_used s = {0, 1}"
      using card_subset_eq [of "{0, 1}" "pend_used s"] pend_used_sub [of s] by simp
  qed simp
  finally show ?thesis .
qed

lemma sendArpRequest2_pend [simp]: "pend_wf (sendArpRequest2 ip s) = pend_wf s"
  by (rule pend_wf_cong) simp_all

lemma sendArpRequest_wf:
  assumes "pend_wf s" shows "pend_wf (sendArpRequest ip s)"
proof (cases "(\<exists>i<unat ARP_MAX_PENDING. p_attempts (pending s i) \<noteq> - 1 \<and> ip_isSame (p_target (pending s i)) ip)
    \<or> pendingEntries s = ARP_MAX_PENDING")
  case True
  then show ?thesis using assms by (auto simp: sendArpRequest_def)
next
  case False
  have two: "unat ARP_MAX_PENDING = 2" by (simp add: cfg_defs)
  have "pend_used s \<noteq> {0, 1}" using False pend_full_iff [OF assms] by blast
  then have "0 \<notin> pend_used s \<or> 1 \<notin> pend_used s" using pend_used_sub [of s] by blast
  then obtain k :: nat where "k < 2" "k \<notin> pend_used s" by (metis one_less_numeral_iff semiring_norm(76) zero_less_numeral)
  then have "find (\<lambda>i. p_attempts (pending s i) = - 1) [0..<2] \<noteq> None"
    by (auto simp: find_None_iff pend_used_def)
  then obtain i where i: "find (\<lambda>i. p_attempts (pending s i) = - 1) [0..<2] = Some i" by auto
  then have "i < 2" "i \<notin> pend_used s" by (auto simp: find_Some_iff pend_used_def)
  moreover have "\<forall>j \<in> pend_used s. p_target (pending s j) \<noteq> ip"
    using False by (auto simp: pend_used_def two)
  ultimately have "pend_wf (s\<lparr>pending := (pending s)(i := \<lparr>p_target = ip, p_start = Timer_CurrentTicks s,
      p_attempts = 0\<rparr>), pendingEntries := pendingEntries s + 1, Arp_RequestsSent := Arp_RequestsSent s + 1\<rparr>)"
    by (intro pend_acquire [OF assms]) auto
  then show ?thesis using False i unfolding sendArpRequest_def two Let_def by simp blast
qed

lemma driveArp_slot_wf:
  assumes "pend_wf s" and "i < 2" shows "pend_wf (driveArp_slot i s)"
proof (cases "p_attempts (pending s i) = - 1")
  case True
  then show ?thesis using assms by (simp add: driveArp_slot_def)
next
  case False
  then have i: "i \<in> pend_used s" using assms(2) by (simp add: pend_used_def)
  show ?thesis
  proof (cases "p_attempts (pending s i) = ARP_RETRIES")
    case True
    then show ?thesis
      using False by (auto simp: driveArp_slot_def intro!: pend_release [OF assms(1) i])
  next
    case ne: False
    then have lt: "p_attempts (pending s i) < ARP_RETRIES"
      using assms(1) i by (auto simp: pend_wf_def le_less)
    let ?p = "(pending s i)\<lparr>p_start := Timer_CurrentTicks s, p_attempts := p_attempts (pending s i) + 1\<rparr>"
    let ?s = "s\<lparr>pending := (pending s)(i := ?p)\<rparr>"
    have le: "p_attempts (pending s i) + 1 \<le> ARP_RETRIES"
      using lt by (simp add: cfg_defs word_le_nat_alt word_less_nat_alt unat_word_ariths)
    moreover have "p_attempts (pending s i) + 1 \<noteq> - 1"
    proof
      assume "p_attempts (pending s i) + 1 = - 1"
      then have "unat (p_attempts (pending s i) + 1) = unat (- 1 :: u8)" by (rule arg_cong)
      then have "unat (p_attempts (pending s i) + 1) = 255"
        unfolding unsigned_minus_1_eq_mask by (simp add: mask_eq_exp_minus_1)
      then show False using le by (simp add: cfg_defs word_le_nat_alt)
    qed
    ultimately have u: "pend_used ?s = pend_used s"
      using assms(2) False by (auto simp: pend_used_def)
    have "pend_wf ?s"
    proof -
      have "(\<lambda>j. p_target (pending ?s j)) = (\<lambda>j. p_target (pending s j))" by auto
      then show ?thesis using assms(1) le by (simp add: pend_wf_def u)
    qed
    then show ?thesis using False ne assms(1) by (simp add: driveArp_slot_def Let_def)
  qed
qed

lemma driveArp_wf: "pend_wf s \<Longrightarrow> pend_wf (driveArp s)"
proof -
  assume "pend_wf s"
  then have "pend_wf (driveArp_slot 1 (driveArp_slot 0 s))" by (simp add: driveArp_slot_wf)
  then show ?thesis using \<open>pend_wf s\<close> by (simp add: driveArp_def driveArp2_def cfg_defs upt_rec)
qed

section \<open>The handler keeps both tables well formed\<close>

definition arp_wf :: "'a arp_state_scheme \<Rightarrow> bool" where
  "arp_wf s \<longleftrightarrow> cache_wf s \<and> pend_wf s"

lemma updateOrAddCache_pend [simp]:
  "pending (updateOrAddCache ha ip s) = pending s"
  "pendingEntries (updateOrAddCache ha ip s) = pendingEntries s"
  by (auto simp: updateOrAddCache_def updateEntry_def Let_def split: option.split)

lemma updateEntry_frame [simp]:
  "pending (updateEntry i ha s) = pending s" "pendingEntries (updateEntry i ha s) = pendingEntries s"
  "entries (updateEntry i ha s) = entries s"
  by (simp_all add: updateEntry_def)

lemma updateEntry_wf: "cache_wf s \<Longrightarrow> cache_wf (updateEntry i ha s)"
proof -
  assume "cache_wf s"
  moreover have "(\<lambda>j. r_ipAddr (arpTable (updateEntry i ha s) j)) = (\<lambda>j. r_ipAddr (arpTable s j))"
    by (auto simp: updateEntry_def)
  ultimately show ?thesis by (simp add: cache_wf_def)
qed

lemma arp_update_known_frame [simp]:
  "pending (arp_update_known ip ha s) = pending s"
  "pendingEntries (arp_update_known ip ha s) = pendingEntries s"
  by (auto simp: arp_update_known_def split: option.split)

lemma arp_update_known_wf: "cache_wf s \<Longrightarrow> cache_wf (arp_update_known ip ha s)"
  by (auto simp: arp_update_known_def updateEntry_wf split: option.split)

lemma arp_wf_cong:
  "pending s' = pending s \<Longrightarrow> pendingEntries s' = pendingEntries s \<Longrightarrow> arpTable s' = arpTable s \<Longrightarrow>
   entries s' = entries s \<Longrightarrow> arp_wf s' = arp_wf s"
  using pend_wf_cong [of s' s] cache_wf_cong [of s' s] by (simp add: arp_wf_def)

lemma cache_wf_sendArpRequest [simp]: "cache_wf (sendArpRequest ip s) = cache_wf s"
  by (rule cache_wf_cong) simp_all

lemma pend_wf_updateOrAddCache [simp]: "pend_wf (updateOrAddCache ha ip s) = pend_wf s"
  by (rule pend_wf_cong) simp_all

lemma pend_wf_arp_update_known [simp]: "pend_wf (arp_update_known ip ha s) = pend_wf s"
  by (rule pend_wf_cong) simp_all

lemma sendArpRequest_arp_wf [inv_intros]: "arp_wf s \<Longrightarrow> arp_wf (sendArpRequest ip s)"
  by (simp add: arp_wf_def sendArpRequest_wf)

lemma resolve_arp_wf [inv_intros]: "arp_wf s \<Longrightarrow> arp_wf (fst (resolve ip s))"
  by (auto simp: resolve_def sendArpRequest_arp_wf split: option.split)

lemma updateOrAddCache_arp_wf: "arp_wf s \<Longrightarrow> arp_wf (updateOrAddCache ha ip s)"
  by (simp add: arp_wf_def updateOrAddCache_wf)

lemma sendArpResponse_frame [simp]:
  "pending (sendArpResponse ah s) = pending s" "pendingEntries (sendArpResponse ah s) = pendingEntries s"
  "arpTable (sendArpResponse ah s) = arpTable s" "entries (sendArpResponse ah s) = entries s"
  by (simp_all add: sendArpResponse_def Let_def)

lemma arp_request_in_wf: "arp_wf s \<Longrightarrow> arp_wf (arp_request_in ah s)"
proof -
  assume wf: "arp_wf s"
  let ?s = "s\<lparr>Arp_RequestsReceived := Arp_RequestsReceived s + 1\<rparr>"
  have "arp_wf ?s = arp_wf s" by (rule arp_wf_cong) simp_all
  then have "arp_wf ?s" using wf by simp
  then have "arp_wf (updateOrAddCache (ah_sender_ha ah) (ah_sender_ip ah) ?s)"
    by (rule updateOrAddCache_arp_wf)
  then have "arp_wf (sendArpResponse ah (updateOrAddCache (ah_sender_ha ah) (ah_sender_ip ah) ?s))"
    by (rule arp_wf_cong [THEN iffD2, rotated -1]) simp_all
  then show ?thesis using \<open>arp_wf ?s\<close> by (simp add: arp_request_in_def Let_def)
qed

lemma arp_wf_release:
  assumes "arp_wf u" and "i \<in> pend_used u"
  shows "arp_wf (u\<lparr>pending := (pending u)(i := (pending u i)\<lparr>p_attempts := - 1\<rparr>),
      pendingEntries := pendingEntries u - 1\<rparr>)"
proof -
  let ?r = "u\<lparr>pending := (pending u)(i := (pending u i)\<lparr>p_attempts := - 1\<rparr>),
      pendingEntries := pendingEntries u - 1\<rparr>"
  have "pend_wf ?r" by (rule pend_release [of u i]) (use assms in \<open>simp_all add: arp_wf_def\<close>)
  moreover have "cache_wf ?r = cache_wf u" by (rule cache_wf_cong) simp_all
  ultimately show ?thesis using assms(1) by (simp only: arp_wf_def simp_thms)
qed

lemma arp_reply_in_wf: "arp_wf s \<Longrightarrow> arp_wf (arp_reply_in ah s)"
proof -
  assume wf: "arp_wf s"
  let ?s = "s\<lparr>Arp_RepliesReceived := Arp_RepliesReceived s + 1\<rparr>"
  let ?u = "updateOrAddCache (ah_sender_ha ah) (ah_sender_ip ah) ?s"
  have s: "arp_wf ?s" using wf by (rule arp_wf_cong [THEN iffD2, rotated -1]) simp_all
  show ?thesis
  proof (cases "reply_slot ah ?s")
    case None
    then show ?thesis using s by (simp add: arp_reply_in_def Let_def)
  next
    case (Some i)
    let ?r = "?u\<lparr>pending := (pending ?u)(i := (pending ?u i)\<lparr>p_attempts := - 1\<rparr>),
        pendingEntries := pendingEntries ?u - 1\<rparr>"
    have u: "arp_wf ?u" using s by (rule updateOrAddCache_arp_wf)
    have "i \<in> pend_used ?u"
      using Some by (auto simp: reply_slot_def find_Some_iff pend_used_def cfg_defs)
    then have "arp_wf ?r" by (rule arp_wf_release [OF u])
    moreover have "arp_reply_in ah s = arp_update_known (ah_sender_ip ah) (ah_sender_ha ah)
        (arp_update_known (ah_target_ip ah) (ah_target_ha ah) ?r)"
      by (simp only: arp_reply_in_def Let_def Some option.case)
    ultimately show ?thesis
      by (simp only: arp_wf_def arp_update_known_wf pend_wf_arp_update_known simp_thms)
  qed
qed

lemma processArp_wf [inv_intros]: "arp_wf s \<Longrightarrow> arp_wf (processArp packet len s)"
proof -
  assume wf: "arp_wf s"
  have f: "arp_wf (Buffer_free packet t) = arp_wf t" for t by (rule arp_wf_cong) simp_all
  show ?thesis using wf by (simp add: processArp_def Let_def f arp_request_in_wf arp_reply_in_wf)
qed

lemma driveArp_arp_wf [inv_intros]: "arp_wf s \<Longrightarrow> arp_wf (driveArp s)"
proof -
  assume wf: "arp_wf s"
  have "arpTable (driveArp_slot i t) = arpTable t \<and> entries (driveArp_slot i t) = entries t"
    for i and t :: "'a arp_state_scheme"
    by (simp add: driveArp_slot_def Let_def)
  then have "arpTable (driveArp s) = arpTable s" "entries (driveArp s) = entries s"
    by (simp_all add: driveArp_def driveArp2_def cfg_defs upt_rec)
  then have "cache_wf (driveArp s) = cache_wf s" by (rule cache_wf_cong)
  then show ?thesis using wf by (simp add: arp_wf_def driveArp_wf)
qed

lemma Arp_init_wf: "entries s = 0 \<Longrightarrow> arp_wf (Arp_init s)"
proof -
  assume e: "entries s = 0"
  have p: "pend_wf (Arp_init s)"
    using clearPendingTable_wf [of s] by (rule pend_wf_cong [THEN iffD1, rotated -1])
      (simp_all add: Arp_init_def Let_def)
  have "cache_wf (Arp_init s)"
    using e by (auto simp: cache_wf_def Arp_init_def Let_def clearPendingTable_def inj_on_def)
  then show ?thesis using p by (simp add: arp_wf_def)
qed

section \<open>What a packet does to the cache\<close>

text \<open>A request is answered, and its sender learned, only when it asks for this machine.\<close>

lemma arp_request_cache:
  assumes "arp_wf s"
  shows "arp_lookup (arp_request_in ah s) =
     (if ah_target_ip ah = MyIpAddr s \<and> ah_sender_ip ah \<noteq> MyIpAddr s
      then arp_lookup (updateOrAddCache (ah_sender_ha ah) (ah_sender_ip ah) s) else arp_lookup s)"
proof -
  have f: "findEth ip (s\<lparr>Arp_RequestsReceived := c\<rparr>) = findEth ip s" for ip c
    by (simp add: findEth_def)
  have lt: "lowestTimeIndex (s\<lparr>Arp_RequestsReceived := c, Arp_CacheModifiedCount := d, Arp_CacheEvictions := e\<rparr>)
      = lowestTimeIndex s" for c d e by (simp add: lowestTimeIndex_def)
  have cong: "arpTable t = arpTable u \<Longrightarrow> entries t = entries u \<Longrightarrow> arp_lookup t = arp_lookup u"
    for t :: "'b arp_state_scheme" and u :: "'b arp_state_scheme"
    by (rule ext) (simp add: arp_lookup_def findEth_def)
  show ?thesis
    by (auto simp: arp_request_in_def Let_def intro!: cong)
      (auto simp: updateOrAddCache_def updateEntry_def Let_def findEth_def lowestTimeIndex_def
        split: option.splits)
qed

definition zero_arp :: arp_state where
  "zero_arp = net.extend zero_net (arp_state.fields
     (\<lambda>_. \<lparr>p_target = IpInvalid, p_start = 0, p_attempts = 0\<rparr>) 0
     (\<lambda>_. \<lparr>r_ethAddr = (0, 0, 0), r_ipAddr = IpInvalid, r_updated = 0\<rparr>) 0
     \<lparr>ap_eh = read_EthHeader (\<lambda>_. 0), ap_ah = read_ArpHeader (\<lambda>_. 0) 0\<rparr>
     \<lparr>ap_eh = read_EthHeader (\<lambda>_. 0), ap_ah = read_ArpHeader (\<lambda>_. 0) 0\<rparr> 0 0 0 0 0 0)"

section \<open>The life of the ARP tables\<close>

text \<open>
  What happens to the tables after \<open>init\<close>: the clock moves, packets arrive in the buffers, a
  packet is processed, an address is resolved, the retries are driven.
\<close>

inductive arp_step :: "'a arp_state_scheme \<Rightarrow> 'a arp_state_scheme \<Rightarrow> bool" where
  Clock: "arp_step s (s\<lparr>Timer_CurrentTicks := t, unix_time := u\<rparr>)"
| Arrive: "arp_step s (s\<lparr>pkt_mem := (pkt_mem s)(b := m)\<rparr>)"
| Process: "arp_step s (processArp packet len s)"
| Resolve: "arp_step s (fst (resolve ip s))"
| Drive: "arp_step s (driveArp s)"

lemma arp_step_wf: "arp_step s t \<Longrightarrow> arp_wf s \<Longrightarrow> arp_wf t"
proof (induction rule: arp_step.induct)
  case (Clock s t u)
  then show ?case by (rule arp_wf_cong [THEN iffD2, rotated -1]) simp_all
next
  case (Arrive s b m)
  then show ?case by (rule arp_wf_cong [THEN iffD2, rotated -1]) simp_all
qed (simp_all add: inv_intros)

lemma arp_reach_wf: "arp_step\<^sup>*\<^sup>* s t \<Longrightarrow> arp_wf s \<Longrightarrow> arp_wf t"
  by (induction rule: rtranclp_induct) (auto dest: arp_step_wf)

text \<open>
  C15. From \<open>init\<close> on, whatever arrives and whatever is resolved, the cache holds at most five
  entries with distinct addresses, the pending counter counts the slots in use, no slot exceeds
  three retries and no address is requested by two slots.
\<close>

theorem arp_tables_invariant:
  assumes "entries s0 = 0" and "arp_step\<^sup>*\<^sup>* (Arp_init s0) s"
  shows "unat (entries s) \<le> 5 \<and> inj_on (\<lambda>i. r_ipAddr (arpTable s i)) {..<unat (entries s)} \<and>
    unat (pendingEntries s) = card {i. i < 2 \<and> p_attempts (pending s i) \<noteq> - 1} \<and>
    (\<forall>i j. i < 2 \<and> j < 2 \<and> p_attempts (pending s i) \<noteq> - 1 \<and> p_attempts (pending s j) \<noteq> - 1 \<longrightarrow>
       p_attempts (pending s i) \<le> 3 \<and> (p_target (pending s i) = p_target (pending s j) \<longrightarrow> i = j))"
proof -
  have "arp_wf s" using arp_reach_wf [OF assms(2)] Arp_init_wf [OF assms(1)] by blast
  then show ?thesis
    by (auto simp: arp_wf_def cache_wf_def pend_wf_def pend_used_def cfg_defs inj_on_def)
qed

theorem arp_tables_invariant_witness:
  "unat (entries (fst (resolve (10, 0, 0, 7) (Arp_init zero_arp)))) \<le> 5"
proof -
  have e: "entries zero_arp = 0" by (simp add: zero_arp_def net.defs arp_state.defs zero_net_def)
  have "arp_step (Arp_init zero_arp) (fst (resolve (10, 0, 0, 7) (Arp_init zero_arp)))" by (rule Resolve)
  then show ?thesis using arp_tables_invariant [OF e r_into_rtranclp] by blast
qed

text \<open>
  Learning an address updates its entry, else takes a free entry, else replaces the entry that
  was updated longest ago; no other binding changes.
\<close>

lemma arp_cache_learns:
  assumes "cache_wf s"
  shows "arp_lookup (updateOrAddCache ha ip s) =
     (if arp_lookup s ip = None \<and> unat (entries s) = 5
      then (arp_lookup s)(r_ipAddr (arpTable s (lowestTimeIndex s)) := None, ip \<mapsto> ha)
      else (arp_lookup s)(ip \<mapsto> ha))
   \<and> (unat (entries s) = 5 \<longrightarrow> lowestTimeIndex s < 5 \<and>
        (\<forall>i<5. r_updated (arpTable s (lowestTimeIndex s)) \<le> r_updated (arpTable s i)))"
proof -
  have n: "arp_lookup s ip = None \<longleftrightarrow> findEth ip s = None" by (simp add: arp_lookup_def)
  have "arp_lookup (updateOrAddCache ha ip s) =
     (if arp_lookup s ip = None \<and> unat (entries s) = 5
      then (arp_lookup s)(r_ipAddr (arpTable s (lowestTimeIndex s)) := None, ip \<mapsto> ha)
      else (arp_lookup s)(ip \<mapsto> ha))"
    using update_known [OF assms, of ip _ ha] update_new [OF assms, of ip ha]
      update_evict [OF assms, of ip ha] cache_entries_le [OF assms]
    by (cases "findEth ip s") (auto simp: n)
  then show ?thesis using lowestTimeIndex_least [of s] by auto
qed

text \<open>
  C16. After any sequence of learned addresses, the cache either has forgotten an address or returns
  the last hardware address learned for it; it never returns an older one.
\<close>

theorem arp_cache_never_stale:
  assumes "cache_wf s" and "arp_lookup (fold (\<lambda>(ha, ip). updateOrAddCache ha ip) ps s) ip = Some ha"
  shows "case find (\<lambda>(_, ip'). ip' = ip) (rev ps) of
      Some (ha', _) \<Rightarrow> ha = ha' | None \<Rightarrow> arp_lookup s ip = Some ha"
  using arp_cache.never_stale [OF assms] .

theorem arp_cache_never_stale_witness:
  "arp_lookup (fold (\<lambda>(ha, ip). updateOrAddCache ha ip)
     [((1, 2, 3), (10, 0, 0, 7)), ((4, 5, 6), (10, 0, 0, 8)), ((7, 8, 9), (10, 0, 0, 7))] zero_arp)
     (10, 0, 0, 7) \<noteq> Some (1, 2, 3)"
proof
  assume a: "arp_lookup (fold (\<lambda>(ha, ip). updateOrAddCache ha ip)
     [((1, 2, 3), (10, 0, 0, 7)), ((4, 5, 6), (10, 0, 0, 8)), ((7, 8, 9), (10, 0, 0, 7))] zero_arp)
     (10, 0, 0, 7) = Some (1, 2, 3)"
  have "cache_wf zero_arp"
    by (simp add: cache_wf_def zero_arp_def net.defs arp_state.defs zero_net_def)
  from arp_cache_never_stale [OF this a] show False by simp
qed

section \<open>Bounded retries\<close>

lemma sendArpRequest2_wire_length: "length (wire (sendArpRequest2 ip s)) \<le> Suc (length (wire s))"
  by (simp add: sendArpRequest2_def Let_def Packet_send_pkt_wire)

definition retries_left :: "'a arp_state_scheme \<Rightarrow> nat \<Rightarrow> nat" where
  "retries_left s i =
     (if p_attempts (pending s i) = - 1 then 0 else 3 - unat (p_attempts (pending s i)))"

lemma driveArp_slot_other: "j \<noteq> i \<Longrightarrow> pending (driveArp_slot i s) j = pending s j"
  by (simp add: driveArp_slot_def Let_def)

lemma driveArp_slot_bound:
  assumes "pend_wf s" and "i < 2"
  shows "length (wire (driveArp_slot i s)) + retries_left (driveArp_slot i s) i \<le>
    length (wire s) + retries_left s i"
proof (cases "p_attempts (pending s i) = - 1")
  case True
  then show ?thesis by (simp add: driveArp_slot_def)
next
  case False
  show ?thesis
  proof (cases "p_attempts (pending s i) = ARP_RETRIES")
    case True
    then show ?thesis using False by (simp add: driveArp_slot_def retries_left_def)
  next
    case ne: False
    have "i \<in> pend_used s" using False assms(2) by (simp add: pend_used_def)
    then have lt: "unat (p_attempts (pending s i)) < 3"
      using assms(1) ne by (auto simp: pend_wf_def le_less cfg_defs word_less_nat_alt)
    then have u: "unat (p_attempts (pending s i) + 1) = Suc (unat (p_attempts (pending s i)))"
      by (simp add: unat_word_ariths)
    have m1: "p_attempts (pending s i) + 1 \<noteq> - 1"
    proof
      assume "p_attempts (pending s i) + 1 = - 1"
      then have "unat (p_attempts (pending s i) + 1) = 255" by (metis unat_minus1_u8)
      then show False using lt u by simp
    qed
    let ?t = "s\<lparr>pending := (pending s)(i := (pending s i)\<lparr>p_start := Timer_CurrentTicks s,
        p_attempts := p_attempts (pending s i) + 1\<rparr>)\<rparr>"
    have "driveArp_slot i s = sendArpRequest2 (p_target (pending s i)) ?t \<or> driveArp_slot i s = s"
      using False ne by (simp add: driveArp_slot_def Let_def)
    moreover have "Suc (retries_left ?t i) = retries_left s i"
      using False m1 u lt by (simp add: retries_left_def)
    ultimately show ?thesis
      using sendArpRequest2_wire_length [of "p_target (pending s i)" ?t]
      by (auto simp: retries_left_def)
  qed
qed

text \<open>The whole table: what is sent plus what may still be sent never grows.\<close>

lemma driveArp_bound:
  assumes "pend_wf s"
  shows "length (wire (driveArp s)) + (retries_left (driveArp s) 0 + retries_left (driveArp s) 1) \<le>
    length (wire s) + (retries_left s 0 + retries_left s 1)"
proof -
  let ?s0 = "driveArp_slot 0 s"
  have "retries_left ?s0 1 = retries_left s 1"
    and "retries_left (driveArp_slot 1 ?s0) 0 = retries_left ?s0 0"
    by (simp_all add: retries_left_def driveArp_slot_other)
  then show ?thesis
    using driveArp_slot_bound [OF assms, of 0] driveArp_slot_bound [OF driveArp_slot_wf [OF assms], of 0 1]
    by (simp add: driveArp_def driveArp2_def cfg_defs upt_rec)
qed

lemma drive_ticks_bound:
  "pend_wf s \<Longrightarrow>
   length (wire (fold (\<lambda>t s. driveArp (s\<lparr>Timer_CurrentTicks := t\<rparr>)) ts s)) \<le>
     length (wire s) + (retries_left s 0 + retries_left s 1)"
proof (induction ts arbitrary: s)
  case Nil
  then show ?case by simp
next
  case (Cons t ts)
  let ?s = "s\<lparr>Timer_CurrentTicks := t\<rparr>"
  have w: "pend_wf ?s" using Cons.prems by (rule pend_wf_cong [THEN iffD2, rotated -1]) simp_all
  have "retries_left ?s = retries_left s" by (rule ext) (simp add: retries_left_def)
  then show ?case using Cons.IH [OF driveArp_wf [OF w]] driveArp_bound [OF w] by simp
qed

lemma sendArpRequest_empty:
  assumes "pend_wf s" and "pendingEntries s = 0"
  shows "length (wire (sendArpRequest ip s)) +
    (retries_left (sendArpRequest ip s) 0 + retries_left (sendArpRequest ip s) 1) \<le> length (wire s) + 4"
proof -
  have "pend_used s = {}" using assms by (simp add: pend_wf_def)
  then have f: "p_attempts (pending s i) = - 1" if "i < 2" for i using that by (auto simp: pend_used_def)
  let ?t = "s\<lparr>pending := (pending s)(0 := \<lparr>p_target = ip, p_start = Timer_CurrentTicks s, p_attempts = 0\<rparr>),
      pendingEntries := pendingEntries s + 1, Arp_RequestsSent := Arp_RequestsSent s + 1\<rparr>"
  have "sendArpRequest ip s = sendArpRequest2 ip ?t"
    using assms(2) f by (auto simp: sendArpRequest_def cfg_defs Let_def upt_rec)
  then show ?thesis
    using f sendArpRequest2_wire_length [of ip ?t] by (simp add: retries_left_def)
qed

text \<open>
  C17. However the clock moves between the calls of \<open>driveArp\<close>, a resolution started with no
  other one pending sends at most four requests: the first and three retries.
\<close>

theorem arp_retries_bounded:
  assumes "pend_wf s" and "pendingEntries s = 0"
  shows "length (wire (fold (\<lambda>t s. driveArp (s\<lparr>Timer_CurrentTicks := t\<rparr>)) ts (fst (resolve ip s)))) \<le>
    length (wire s) + 4"
proof (cases "arp_lookup s ip")
  case None
  then have "fst (resolve ip s) = sendArpRequest ip s" by (rule resolve_miss)
  then show ?thesis
    using drive_ticks_bound [OF sendArpRequest_wf [OF assms(1)], of ts ip] sendArpRequest_empty [OF assms, of ip]
    by simp
next
  case (Some ha)
  then have "fst (resolve ip s) = s" by (intro resolve_hit) simp
  moreover have "retries_left s 0 + retries_left s 1 = 0"
    using assms by (auto simp: pend_wf_def pend_used_def retries_left_def)
  ultimately show ?thesis using drive_ticks_bound [OF assms(1), of ts] by simp
qed

lemma clear_zero_arp: "pend_wf (clearPendingTable zero_arp)" "pendingEntries (clearPendingTable zero_arp) = 0"
  using clearPendingTable_wf [of zero_arp] by (simp_all add: clearPendingTable_def)

theorem arp_retries_bounded_witness:
  "length (wire (fold (\<lambda>t s. driveArp (s\<lparr>Timer_CurrentTicks := t\<rparr>)) [1, 20, 40, 60, 80, 100]
     (fst (resolve (10, 0, 0, 7) (clearPendingTable zero_arp))))) \<le> 4"
  using arp_retries_bounded [OF clear_zero_arp, of "[1, 20, 40, 60, 80, 100]" "(10, 0, 0, 7)"]
  by (simp add: clearPendingTable_def zero_arp_def net.defs arp_state.defs zero_net_def)

text \<open>
  A slot that has made its third retry is given up by the very next call of \<open>driveArp\<close>,
  whatever the clock: the answer to the last retry is not awaited.
\<close>

lemma arp_last_retry_not_awaited:
  assumes "pend_wf s" and "i < 2" and "p_attempts (pending s i) = 3"
  shows "p_attempts (pending (driveArp (s\<lparr>Timer_CurrentTicks := t\<rparr>)) i) = - 1"
proof -
  let ?s = "s\<lparr>Timer_CurrentTicks := t\<rparr>"
  have "i \<in> pend_used s" using assms by (simp add: pend_used_def)
  then have "0 < card (pend_used s)" by (auto simp: card_gt_0_iff)
  then have n: "pendingEntries s \<noteq> 0" using assms(1) by (auto simp: pend_wf_def)
  have r: "p_attempts (pending (driveArp_slot i u) i) = - 1" if "p_attempts (pending u i) = 3" for u :: "'a arp_state_scheme"
    using that by (simp add: driveArp_slot_def cfg_defs)
  have "i = 0 \<or> i = 1" using assms(2) by auto
  then show ?thesis
    using n r [of ?s] r [of "driveArp_slot 0 ?s"] assms(3)
    by (auto simp: driveArp_def driveArp2_def cfg_defs upt_rec driveArp_slot_other)
qed

text \<open>
  An ARP reply whose sender has no pending request, a request that is not for this machine
  or comes from its own address, and any other operation leave both tables as they are.
\<close>

lemma arp_unsolicited_ignored:
  assumes "ah = read_ArpHeader (pkt_mem s packet) 14"
    and "ntohs (ah_operation ah) = 1 \<longrightarrow> ah_target_ip ah \<noteq> MyIpAddr s \<or> ah_sender_ip ah = MyIpAddr s"
    and "ntohs (ah_operation ah) = 2 \<longrightarrow>
      (\<forall>i<2. p_attempts (pending s i) \<noteq> - 1 \<longrightarrow> p_target (pending s i) \<noteq> ah_sender_ip ah)"
  shows "arpTable (processArp packet len s) = arpTable s \<and> entries (processArp packet len s) = entries s \<and>
    pending (processArp packet len s) = pending s \<and>
    pendingEntries (processArp packet len s) = pendingEntries s"
proof -
  have "reply_slot ah (s\<lparr>Arp_RepliesReceived := n\<rparr>) = None"
    if "ntohs (ah_operation ah) = 2" for n
    using assms(3) that by (auto simp: reply_slot_def find_None_iff cfg_defs)
  then show ?thesis
    using assms(2) unfolding assms(1)
    by (auto simp: processArp_def Let_def arp_request_in_def arp_reply_in_def)
qed

end
