(* ===== verification/Checksum.thy ===== *)
theory Checksum
  imports Headers
begin

text \<open>
  The Internet checksum routines of \<^verbatim>\<open>code/TCPLIB/IP.CPP\<close> (and, instruction for instruction,
  \<^verbatim>\<open>IPASM.ASM\<close>): \<open>ipchksum\<close> over a block and \<open>ip_p_chksum\<close> over a pseudo header and a
  block with its loop unrolled four times.  The BX register and the carry flag are explicit;
  \<open>adc\<close> is the instruction.  The routines are shown to compute the ones' complement sum of
  RFC 1071, whatever the carries in between.
\<close>

unbundle bit_operations_syntax

section \<open>The instructions\<close>

type_synonym acc = "u16 \<times> bool"

definition adc :: "u16 \<Rightarrow> acc \<Rightarrow> acc" where
  "adc ax a =
     (let c = (if snd a then 1 else 0)
      in (fst a + ax + (if snd a then 1 else 0), 65536 \<le> unat (fst a) + unat ax + c))"

definition clc :: "acc \<Rightarrow> acc" where
  "clc a = (fst a, False)"

text \<open>\<^verbatim>\<open>loop\<close> decrements CX and jumps while it is not zero: a zero CX runs 65536 times.\<close>

function lodsw_loop :: "mem \<Rightarrow> nat \<Rightarrow> u16 \<Rightarrow> acc \<Rightarrow> nat \<times> acc" where
  "lodsw_loop m si cx a =
     (let a' = adc (rd16 m si) a; cx' = cx - 1
      in if cx' = 0 then (si + 2, a') else lodsw_loop m (si + 2) cx' a')"
  by pat_completeness auto

termination lodsw_loop
proof (relation "measure (\<lambda>(m, si, cx, a). unat (cx - 1))", goal_cases)
  case (2 m si cx a a' cx')
  then show ?case using unat_pred_less [of cx] by simp
qed simp

declare lodsw_loop.simps [simp del]

function lodsw_loop4 :: "mem \<Rightarrow> nat \<Rightarrow> u16 \<Rightarrow> acc \<Rightarrow> nat \<times> acc" where
  "lodsw_loop4 m si cx a =
     (let a' = adc (rd16 m (si + 6)) (adc (rd16 m (si + 4))
                 (adc (rd16 m (si + 2)) (adc (rd16 m si) a)));
          cx' = cx - 1
      in if cx' = 0 then (si + 8, a') else lodsw_loop4 m (si + 8) cx' a')"
  by pat_completeness auto

termination lodsw_loop4
proof (relation "measure (\<lambda>(m, si, cx, a). unat (cx - 1))", goal_cases)
  case (2 m si cx a a' cx')
  then show ?case using unat_pred_less [of cx] by simp
qed simp

declare lodsw_loop4.simps [simp del]

text \<open>The last odd byte: a word is loaded and its high byte cleared.\<close>

definition odd_byte :: "mem \<Rightarrow> nat \<Rightarrow> u16 \<Rightarrow> acc \<Rightarrow> acc" where
  "odd_byte m si dx a =
     (if dx AND 1 = 0 then a
      else adc 0 (adc (rd16 m si AND 0x00FF) (clc a)))"

definition ipchksum :: "mem \<Rightarrow> nat \<Rightarrow> u16 \<Rightarrow> u16" where
  "ipchksum m data len =
     (let dx = len; cx = drop_bit 1 dx;
          (si, a) = lodsw_loop m data cx (0, False);
          a = adc 0 a;
          a = odd_byte m si dx a
      in NOT (fst a))"

text \<open>The pseudo header: the two addresses, the protocol in the high byte, the swapped length.\<close>

definition pseudo_acc :: "IpAddr \<Rightarrow> IpAddr \<Rightarrow> u8 \<Rightarrow> u16 \<Rightarrow> acc" where
  "pseudo_acc src target protocol len =
     (let a = adc (rd16 (mem_of (ip_addr_bytes src)) 0) (0, False);
          a = adc (rd16 (mem_of (ip_addr_bytes src)) 2) a;
          a = adc (rd16 (mem_of (ip_addr_bytes target)) 0) a;
          a = adc (rd16 (mem_of (ip_addr_bytes target)) 2) a;
          a = adc 0 a;
          a = adc (push_bit 8 (ucast protocol)) (clc a);
          a = adc (htons len) a
      in adc 0 a)"

definition ip_p_chksum :: "IpAddr \<Rightarrow> IpAddr \<Rightarrow> mem \<Rightarrow> nat \<Rightarrow> u8 \<Rightarrow> u16 \<Rightarrow> u16" where
  "ip_p_chksum src target m data protocol len =
     (let dx = len;
          a = pseudo_acc src target protocol len;
          (si, a) = lodsw_loop4 m data (drop_bit 3 dx) (clc a);
          a = adc 0 a;
          cx = drop_bit 1 dx AND 3;
          (si, a) = (if cx = 0 then (si, a)
                     else (let (si', a') = lodsw_loop m si cx (clc a) in (si', adc 0 a')));
          a = odd_byte m si dx a
      in NOT (fst a))"

section \<open>The reference: the ones' complement sum\<close>

definition oc_fold :: "nat \<Rightarrow> nat" where
  "oc_fold n = (if n = 0 then 0 else (n - 1) mod 65535 + 1)"

definition words_at :: "mem \<Rightarrow> nat \<Rightarrow> nat \<Rightarrow> u16 list" where
  "words_at m p n = map (\<lambda>i. rd16 m (p + 2 * i)) [0..<n]"

definition block_words :: "mem \<Rightarrow> nat \<Rightarrow> nat \<Rightarrow> u16 list" where
  "block_words m p len =
     words_at m p (len div 2) @ (if odd len then [ucast (m (p + len - 1))] else [])"

definition word_sum :: "u16 list \<Rightarrow> nat" where
  "word_sum ws = sum_list (map unat ws)"

definition oc_checksum :: "u16 list \<Rightarrow> u16" where
  "oc_checksum ws = NOT (of_nat (oc_fold (word_sum ws)))"

definition pseudo_words :: "IpAddr \<Rightarrow> IpAddr \<Rightarrow> u8 \<Rightarrow> u16 \<Rightarrow> u16 list" where
  "pseudo_words src target protocol len =
     (let s = mem_of (ip_addr_bytes src); t = mem_of (ip_addr_bytes target)
      in [rd16 s 0, rd16 s 2, rd16 t 0, rd16 t 2, push_bit 8 (ucast protocol), htons len])"

lemma word_sum_simps [simp]:
  "word_sum [] = 0" "word_sum (w # ws) = unat w + word_sum ws"
  "word_sum (ws @ vs) = word_sum ws + word_sum vs"
  by (simp_all add: word_sum_def)

lemma oc_fold_le [simp]: "oc_fold n \<le> 65535"
  using mod_less_divisor [of 65535 "n - 1"] unfolding oc_fold_def by (simp only: split: if_split) linarith

lemma oc_fold_zero [simp]: "oc_fold n = 0 \<longleftrightarrow> n = 0"
  by (simp add: oc_fold_def)

lemma oc_fold_mod: "oc_fold n mod 65535 = n mod 65535"
  by (cases n) (simp_all add: oc_fold_def mod_Suc_eq)

lemma oc_fold_unique:
  assumes "v \<le> 65535" and "v mod 65535 = n mod 65535" and "v = 0 \<longleftrightarrow> n = 0"
  shows "v = oc_fold n"
proof (cases "n = 0")
  case True
  then show ?thesis using assms by simp
next
  case False
  then have "0 < v" "0 < oc_fold n"
    using assms oc_fold_zero [of n] by (auto simp del: oc_fold_zero)
  moreover have "v mod 65535 = oc_fold n mod 65535" using assms oc_fold_mod by simp
  ultimately show ?thesis
    using assms(1) oc_fold_le [of n]
    by (metis (no_types, lifting) le_neq_implies_less mod_less mod_self nat_less_le)
qed

section \<open>What BX and the carry stand for\<close>

definition acc_rep :: "nat \<Rightarrow> acc \<Rightarrow> bool" where
  "acc_rep n a \<longleftrightarrow>
     (let v = unat (fst a) + (if snd a then 1 else 0)
      in v \<le> 65535 \<and> v mod 65535 = n mod 65535 \<and> (v = 0 \<longleftrightarrow> n = 0))"

lemma acc_rep_0 [simp]: "acc_rep 0 (0, False)"
  by (simp add: acc_rep_def)

lemma adc_value:
  assumes "unat (fst a) + (if snd a then 1 else 0) \<le> 65535"
  shows "unat (fst (adc x a)) + (if snd (adc x a) then 65536 else 0) =
     unat (fst a) + (if snd a then 1 else 0) + unat x"
proof -
  obtain b c where a: "a = (b, c)" by (cases a)
  have x: "unat x < 65536" by (rule u16_bound)
  show ?thesis
    using assms x unfolding a adc_def Let_def
    by (auto simp: unat_word_ariths mod_if split: if_splits)
qed

lemma adc_rep:
  assumes "acc_rep n a"
  shows "acc_rep (n + unat x) (adc x a)"
proof -
  let ?v = "unat (fst a) + (if snd a then 1 else 0)"
  let ?w = "unat (fst (adc x a)) + (if snd (adc x a) then 1 else 0)"
  have v: "?v \<le> 65535" "?v mod 65535 = n mod 65535" "?v = 0 \<longleftrightarrow> n = 0"
    using assms by (simp_all add: acc_rep_def Let_def)
  have x: "unat x < 65536" by (rule u16_bound)
  have val: "unat (fst (adc x a)) + (if snd (adc x a) then 65536 else 0) = ?v + unat x"
    using adc_value [of a x] v(1) by simp
  have w: "?w \<le> 65535" "?w = 0 \<longleftrightarrow> ?v + unat x = 0"
    using val v(1) x u16_bound [of "fst (adc x a)"] by (auto split: if_splits)
  have "?v + unat x = ?w + (if snd (adc x a) then 65535 else 0)"
    using val by (auto split: if_splits)
  then have "?w mod 65535 = (?v + unat x) mod 65535"
    by (cases "snd (adc x a)") (simp_all only: if_True if_False add_0_right mod_add_self2)
  then have "?w mod 65535 = (n + unat x) mod 65535"
    using v(2) by (metis mod_add_left_eq)
  then show ?thesis
    unfolding acc_rep_def Let_def using w v(3) by auto
qed

lemma adc_0_rep:
  assumes "acc_rep n a"
  shows "acc_rep n (adc 0 a)" and "\<not> snd (adc 0 a)"
  using adc_rep [OF assms, of 0] assms adc_value [of a 0]
  by (auto simp: acc_rep_def Let_def split: if_splits)

lemma clc_id: "\<not> snd a \<Longrightarrow> clc a = a"
  by (simp add: clc_def prod_eq_iff)

lemma acc_rep_final:
  "acc_rep n a \<Longrightarrow> \<not> snd a \<Longrightarrow> fst a = of_nat (oc_fold n)"
  using oc_fold_unique [of "unat (fst a)" n] by (simp add: acc_rep_def) (metis word_eq_of_nat)

lemma acc_rep_cong: "acc_rep n a \<Longrightarrow> n = m \<Longrightarrow> acc_rep m a"
  by simp

section \<open>The loops\<close>

definition loop_count :: "u16 \<Rightarrow> nat" where
  "loop_count cx = (if cx = 0 then 65536 else unat cx)"

lemma loop_count_step:
  assumes "cx - 1 \<noteq> 0" shows "loop_count cx = Suc (loop_count (cx - 1))"
proof (cases "cx = 0")
  case True
  have "unat (- 1 :: u16) = 65535" by (simp add: unsigned_minus_1_eq_mask mask_eq_exp_minus_1)
  then show ?thesis using True assms by (simp add: loop_count_def)
next
  case False
  then have "0 < unat cx" using unat_gt_0 by blast
  then show ?thesis using False assms by (simp add: loop_count_def unat_minus_one)
qed

lemma loop_count_last: "cx - 1 = 0 \<Longrightarrow> loop_count cx = 1"
  by (simp add: loop_count_def)

lemma words_at_Suc: "words_at m p (Suc n) = rd16 m p # words_at m (p + 2) n"
  by (simp add: words_at_def upt_conv_Cons flip: map_Suc_upt del: upt_Suc)

lemma words_at_append: "words_at m p (a + b) = words_at m p a @ words_at m (p + 2 * a) b"
  by (induction a arbitrary: p) (simp_all add: words_at_Suc, simp_all add: words_at_def)

lemma lodsw_loop_spec:
  "acc_rep n a \<Longrightarrow> fst (lodsw_loop m si cx a) = si + 2 * loop_count cx \<and>
     acc_rep (n + word_sum (words_at m si (loop_count cx))) (snd (lodsw_loop m si cx a))"
proof (induction m si cx a arbitrary: n rule: lodsw_loop.induct)
  case (1 m si cx a)
  let ?a = "adc (rd16 m si) a"
  have r: "acc_rep (n + unat (rd16 m si)) ?a" by (rule adc_rep [OF 1(2)])
  show ?case
  proof (cases "cx - 1 = 0")
    case True
    then show ?thesis
      using r by (subst (1 2) lodsw_loop.simps)
        (simp add: Let_def loop_count_last words_at_Suc, simp add: words_at_def)
  next
    case False
    then show ?thesis
      using 1(1) [OF refl refl False r] by (subst (1 2) lodsw_loop.simps)
        (simp add: Let_def loop_count_step [OF False] words_at_Suc add.assoc)
  qed
qed

lemma lodsw_loop4_spec:
  "acc_rep n a \<Longrightarrow> fst (lodsw_loop4 m si cx a) = si + 8 * loop_count cx \<and>
     acc_rep (n + word_sum (words_at m si (4 * loop_count cx))) (snd (lodsw_loop4 m si cx a))"
proof (induction m si cx a arbitrary: n rule: lodsw_loop4.induct)
  case (1 m si cx a)
  let ?a = "adc (rd16 m (si + 6)) (adc (rd16 m (si + 4)) (adc (rd16 m (si + 2)) (adc (rd16 m si) a)))"
  have four: "words_at m si (4 + 4 * k) = words_at m si 4 @ words_at m (si + 8) (4 * k)" for k
    using words_at_append [of m si 4 "4 * k"] by simp
  have w4: "word_sum (words_at m si 4) = unat (rd16 m si) + unat (rd16 m (si + 2)) +
      unat (rd16 m (si + 4)) + unat (rd16 m (si + 6))"
    by (simp add: words_at_def numeral_eq_Suc)
  have r: "acc_rep (n + word_sum (words_at m si 4)) ?a"
    using adc_rep [OF adc_rep [OF adc_rep [OF adc_rep [OF 1(2)]]]]
    unfolding w4 by (rule acc_rep_cong) simp
  show ?case
  proof (cases "cx - 1 = 0")
    case True
    then show ?thesis
      using r by (subst (1 2) lodsw_loop4.simps) (simp add: Let_def loop_count_last)
  next
    case False
    then show ?thesis
      using 1(1) [OF refl refl False r] by (subst (1 2) lodsw_loop4.simps)
        (simp add: Let_def loop_count_step [OF False] four add.assoc)
  qed
qed

section \<open>The routines compute the reference\<close>

lemma rd16_low_byte: "rd16 m p AND 0x00FF = ucast (m p)"
proof -
  have "rd16 m p AND 0x00FF = take_bit 8 (rd16 m p)"
    by (simp add: take_bit_eq_mask mask_eq_exp_minus_1)
  also have "\<dots> = ucast (m p)"
    by (rule bit_word_eqI) (auto simp: rd16_def le16_def bit_simps)
  finally show ?thesis .
qed

lemma even_word: "(x :: u16) AND 1 = 0 \<longleftrightarrow> even (unat x)"
  by (simp add: and_one_eq even_iff_mod_2_eq_zero flip: unat_eq_0) (simp add: unat_mod)

lemma odd_byte_rep:
  assumes "acc_rep n a" and "\<not> snd a"
  shows "acc_rep (n + (if odd (unat dx) then unat (m si) else 0)) (odd_byte m si dx a)"
    and "\<not> snd (odd_byte m si dx a)"
proof -
  have "clc a = a" using assms(2) by (rule clc_id)
  then have "acc_rep (n + unat (m si)) (adc (rd16 m si AND 0x00FF) (clc a))"
    using adc_rep [OF assms(1), of "rd16 m si AND 0x00FF"] by (simp add: rd16_low_byte)
  then show "acc_rep (n + (if odd (unat dx) then unat (m si) else 0)) (odd_byte m si dx a)"
    and "\<not> snd (odd_byte m si dx a)"
    using assms adc_0_rep by (auto simp: odd_byte_def even_word)
qed

lemma block_words_sum:
  "word_sum (block_words m p len) =
     word_sum (words_at m p (len div 2)) + (if odd len then unat (m (p + 2 * (len div 2))) else 0)"
  by (auto simp: block_words_def elim!: oddE)

lemma unat_drop_bit_16: "unat (drop_bit k (x :: u16)) = unat x div 2 ^ k"
  unfolding unat_drop_bit_eq by (simp add: drop_bit_eq_div)

lemma loop_count_drop: "2 ^ k \<le> unat x \<Longrightarrow> loop_count (drop_bit k x) = unat x div 2 ^ k"
  using unat_drop_bit_16 [of k x] by (auto simp: loop_count_def div_eq_0_iff)

lemma odd_byte_block:
  assumes "acc_rep (P + word_sum (words_at m p (unat len div 2))) a" and "\<not> snd a"
    and "si = p + 2 * (unat len div 2)"
  shows "acc_rep (P + word_sum (block_words m p (unat len))) (odd_byte m si len a) \<and>
     \<not> snd (odd_byte m si len a)"
  using odd_byte_rep [OF assms(1,2), where dx = len and m = m and si = si] assms(3)
  by (simp only: block_words_sum add.assoc simp_thms)

lemma ipchksum_reference:
  assumes "2 \<le> unat len"
  shows "ipchksum m p len = oc_checksum (block_words m p (unat len))"
proof -
  obtain si a where l: "lodsw_loop m p (drop_bit 1 len) (0, False) = (si, a)"
    by (cases "lodsw_loop m p (drop_bit 1 len) (0, False)")
  have c: "loop_count (drop_bit 1 len) = unat len div 2"
    using loop_count_drop [of 1 len] assms by simp
  have "si = p + 2 * (unat len div 2)" and r: "acc_rep (word_sum (words_at m p (unat len div 2))) a"
    using lodsw_loop_spec [OF acc_rep_0, of m p "drop_bit 1 len"] l c by simp_all
  then have "acc_rep (word_sum (block_words m p (unat len))) (odd_byte m si len (adc 0 a)) \<and>
      \<not> snd (odd_byte m si len (adc 0 a))"
    using odd_byte_block [where P = 0] adc_0_rep [OF r] by simp
  then show ?thesis
    using l by (simp add: ipchksum_def oc_checksum_def acc_rep_final)
qed

lemma pseudo_acc_rep:
  "acc_rep (word_sum (pseudo_words src target protocol len)) (pseudo_acc src target protocol len)"
  "\<not> snd (pseudo_acc src target protocol len)"
proof -
  let ?s = "mem_of (ip_addr_bytes src)" and ?t = "mem_of (ip_addr_bytes target)"
  note r1 = adc_rep [OF adc_rep [OF adc_rep [OF adc_rep [OF acc_rep_0, of "rd16 ?s 0"], of "rd16 ?s 2"],
      of "rd16 ?t 0"], of "rd16 ?t 2"]
  note r2 = adc_0_rep [OF r1]
  note r3 = adc_rep [OF adc_rep [OF r2(1), of "push_bit 8 (ucast protocol)"], of "htons len"]
  show "acc_rep (word_sum (pseudo_words src target protocol len)) (pseudo_acc src target protocol len)"
    using adc_0_rep(1) [OF r3] clc_id [OF r2(2)]
    by (simp add: pseudo_acc_def pseudo_words_def Let_def add.assoc)
  show "\<not> snd (pseudo_acc src target protocol len)"
    using adc_0_rep(2) [OF r3] clc_id [OF r2(2)] by (simp add: pseudo_acc_def Let_def)
qed

text \<open>The words the unrolled loop left over and the odd byte, common to the two routines.\<close>

lemma unrolled_tail:
  fixes m :: mem and si :: nat and a :: acc and len :: u16
  defines "t \<equiv> (if drop_bit 1 len AND 3 = 0 then (si, a)
     else (let (si', a') = lodsw_loop m si (drop_bit 1 len AND 3) (clc a) in (si', adc 0 a')))"
  assumes r: "acc_rep (P + word_sum (words_at m p (4 * (unat len div 8)))) a" "\<not> snd a"
    and si: "si = p + 8 * (unat len div 8)"
  shows "acc_rep (P + word_sum (block_words m p (unat len))) (odd_byte m (fst t) len (snd t)) \<and>
     \<not> snd (odd_byte m (fst t) len (snd t))"
proof -
  let ?n = "unat len"
  define cx where "cx = drop_bit 1 len AND 3"
  have "cx = take_bit 2 (drop_bit 1 len)"
    by (simp add: cx_def take_bit_eq_mask mask_eq_exp_minus_1)
  then have cx: "unat cx = ?n div 2 mod 4"
    by (simp add: unsigned_take_bit_eq unat_drop_bit_16 take_bit_eq_mod [where 'a = nat] del: take_bit_numeral_numeral)
  have t: "t = (if cx = 0 then (si, a) else (let (si', a') = lodsw_loop m si cx (clc a) in (si', adc 0 a')))"
    by (simp add: t_def cx_def)
  have split: "?n div 2 = 4 * (?n div 8) + ?n div 2 mod 4"
    by (metis div_mult2_eq mult_div_mod_eq numeral_times_numeral semiring_norm(12) semiring_norm(13))
  have "acc_rep (P + word_sum (words_at m p (?n div 2))) (snd t) \<and> \<not> snd (snd t) \<and> fst t = p + 2 * (?n div 2)"
  proof (cases "cx = 0")
    case True
    then have "?n div 2 = 4 * (?n div 8)" using cx split by simp
    then show ?thesis using True r by (simp add: t si)
  next
    case False
    then have lc: "loop_count cx = ?n div 2 mod 4" using cx by (simp add: loop_count_def)
    have "words_at m p (?n div 2) = words_at m p (4 * (?n div 8)) @ words_at m si (?n div 2 mod 4)"
      using words_at_append [of m p "4 * (?n div 8)" "?n div 2 mod 4"] si split by simp
    then show ?thesis
      using False lodsw_loop_spec [OF r(1), of m si cx] lc si split
      by (auto simp: t clc_id [OF r(2)] Let_def adc_0_rep add.assoc split_beta)
  qed
  then show ?thesis by (intro odd_byte_block) simp_all
qed

lemma ip_p_chksum_reference:
  assumes "8 \<le> unat len"
  shows "ip_p_chksum src target m p protocol len =
     oc_checksum (pseudo_words src target protocol len @ block_words m p (unat len))"
proof -
  let ?P = "word_sum (pseudo_words src target protocol len)" and ?n = "unat len"
  obtain si a where l: "lodsw_loop4 m p (drop_bit 3 len) (pseudo_acc src target protocol len) = (si, a)"
    by (metis prod.exhaust)
  have c: "loop_count (drop_bit 3 len) = ?n div 8"
    using loop_count_drop [of 3 len] assms by simp
  have si: "si = p + 8 * (?n div 8)"
    and r: "acc_rep (?P + word_sum (words_at m p (4 * (?n div 8)))) a"
    using lodsw_loop4_spec [OF pseudo_acc_rep(1) [of src target protocol len], of m p "drop_bit 3 len"]
      l c by simp_all
  define t where "t = (if drop_bit 1 len AND 3 = 0 then (si, adc 0 a)
     else (let (si', a') = lodsw_loop m si (drop_bit 1 len AND 3) (clc (adc 0 a)) in (si', adc 0 a')))"
  have "fst (odd_byte m (fst t) len (snd t)) = of_nat (oc_fold (?P + word_sum (block_words m p ?n)))"
    using unrolled_tail [OF adc_0_rep [OF r] si] unfolding t_def by (intro acc_rep_final) simp_all
  moreover have "ip_p_chksum src target m p protocol len = NOT (fst (odd_byte m (fst t) len (snd t)))"
    by (simp add: ip_p_chksum_def Let_def l t_def clc_id [OF pseudo_acc_rep(2)] split_beta)
  ultimately show ?thesis by (simp add: oc_checksum_def)
qed

section \<open>A stored checksum verifies\<close>

lemma unat_NOT_u16: "unat (NOT (x :: u16)) = 65535 - unat x"
proof -
  have "NOT x = - 1 - x" by (simp add: not_eq_complement)
  moreover have "unat (- 1 :: u16) = 65535"
    by (simp add: unsigned_minus_1_eq_mask mask_eq_exp_minus_1)
  moreover have "x \<le> - 1" by simp
  ultimately show ?thesis using unat_sub [of x "- 1"] by simp
qed

lemma oc_checksum_unat: "unat (oc_checksum ws) = 65535 - oc_fold (word_sum ws)"
  using oc_fold_le [of "word_sum ws"] le_less_trans [of "oc_fold (word_sum ws)" 65535 "2 ^ 16"]
  by (simp add: oc_checksum_def unat_NOT_u16 unsigned_of_nat take_bit_nat_less del: oc_fold_le)

lemma oc_checksum_0_iff: "oc_checksum ws = 0 \<longleftrightarrow> oc_fold (word_sum ws) = 65535"
  using oc_checksum_unat [of ws] oc_fold_le [of "word_sum ws"]
  by (simp del: oc_fold_le flip: unat_eq_0)

lemma word_sum_update:
  "k < length ws \<Longrightarrow> ws ! k = 0 \<Longrightarrow> word_sum (ws[k := c]) = word_sum ws + unat c"
  by (induction ws arbitrary: k) (auto split: nat.splits)

lemma oc_fold_complement:
  "n + (65535 - oc_fold n) > 0 \<Longrightarrow> oc_fold (n + (65535 - oc_fold n)) = 65535"
proof -
  assume pos: "n + (65535 - oc_fold n) > 0"
  have "(n + (65535 - oc_fold n)) mod 65535 = (oc_fold n + (65535 - oc_fold n)) mod 65535"
    using oc_fold_mod [of n] by (metis mod_add_left_eq)
  then have "(n + (65535 - oc_fold n)) mod 65535 = 0" using oc_fold_le [of n] by simp
  then show ?thesis using oc_fold_unique [of 65535 "n + (65535 - oc_fold n)"] pos by simp
qed

lemma oc_checksum_verify:
  assumes "k < length ws" and "ws ! k = 0"
  shows "oc_checksum (ws[k := oc_checksum ws]) = 0"
proof -
  have "word_sum (ws[k := oc_checksum ws]) = word_sum ws + (65535 - oc_fold (word_sum ws))"
    using word_sum_update [OF assms] oc_checksum_unat by simp
  moreover have "word_sum ws + (65535 - oc_fold (word_sum ws)) > 0"
    by (cases "word_sum ws = 0") (auto simp: oc_fold_def)
  ultimately show ?thesis
    using oc_fold_complement by (simp add: oc_checksum_0_iff)
qed

lemma length_words_at [simp]: "length (words_at m p n) = n"
  by (simp add: words_at_def)

lemma nth_words_at [simp]: "i < n \<Longrightarrow> words_at m p n ! i = rd16 m (p + 2 * i)"
  by (simp add: words_at_def)

lemma length_block_words: "n div 2 \<le> length (block_words m p n)"
  by (simp add: block_words_def)

lemma block_words_cong:
  "(\<And>i. i < n \<Longrightarrow> m (p + i) = m' (q + i)) \<Longrightarrow> block_words m p n = block_words m' q n"
proof -
  assume *: "\<And>i. i < n \<Longrightarrow> m (p + i) = m' (q + i)"
  have "rd16 m (p + 2 * i) = rd16 m' (q + 2 * i)" if "i < n div 2" for i
  proof -
    have "2 * i < n" "Suc (2 * i) < n" using that by auto
    then show ?thesis using *[of "2 * i"] *[of "Suc (2 * i)"] by (simp add: rd16_def)
  qed
  moreover have "odd n \<Longrightarrow> m (p + n - 1) = m' (q + n - 1)"
    using *[of "n - 1"] by (cases n) auto
  ultimately show ?thesis by (simp add: block_words_def words_at_def)
qed

lemma block_words_store:
  assumes "k < n div 2"
  shows "block_words (memcpy m (p + 2 * k) (bytes16 c)) p n = (block_words m p n)[k := c]"
proof -
  let ?m = "memcpy m (p + 2 * k) (bytes16 c)"
  have at: "?m i = (if i = p + 2 * k then ucast c else if i = Suc (p + 2 * k) then ucast (drop_bit 8 c)
      else m i)" for i
    by (auto simp: memcpy_def bytes16_def less_Suc_eq nth_Cons split: nat.splits)
  have "rd16 ?m (p + 2 * i) = (if i = k then c else rd16 m (p + 2 * i))" for i
  proof (cases "i = k")
    case True
    then show ?thesis by (simp add: rd16_def at)
  next
    case False
    then have "2 * i \<noteq> 2 * k" "2 * i \<noteq> Suc (2 * k)" "Suc (2 * i) \<noteq> 2 * k" "Suc (2 * i) \<noteq> Suc (2 * k)"
      by presburger+
    then show ?thesis using False by (simp add: rd16_def at)
  qed
  then have w: "words_at ?m p (n div 2) = (words_at m p (n div 2))[k := c]"
    by (intro nth_equalityI) (auto simp: nth_list_update)
  have "?m (p + n - 1) = m (p + n - 1)" if "odd n"
    using that assms by (auto simp: at elim!: oddE)
  then show ?thesis using w assms by (simp add: block_words_def list_update_append)
qed

lemma block_words_nth: "k < n div 2 \<Longrightarrow> block_words m p n ! k = rd16 m (p + 2 * k)"
  by (simp add: block_words_def nth_append)

lemma ipchksum_cong:
  assumes "2 \<le> unat len" and "\<And>i. i < unat len \<Longrightarrow> m (p + i) = m' (q + i)"
  shows "ipchksum m p len = ipchksum m' q len"
proof -
  have "block_words m p (unat len) = block_words m' q (unat len)"
    by (rule block_words_cong) (rule assms(2))
  then show ?thesis by (simp only: ipchksum_reference [OF assms(1)])
qed

lemma ip_p_chksum_cong:
  assumes "8 \<le> unat len" and "\<And>i. i < unat len \<Longrightarrow> m (p + i) = m' (q + i)"
  shows "ip_p_chksum s t m p pr len = ip_p_chksum s t m' q pr len"
proof -
  have "block_words m p (unat len) = block_words m' q (unat len)"
    by (rule block_words_cong) (rule assms(2))
  then show ?thesis by (simp only: ip_p_chksum_reference [OF assms(1)])
qed

lemma ipchksum_store:
  assumes "2 * k + 1 < unat len" and "rd16 m (p + 2 * k) = 0"
  shows "ipchksum (memcpy m (p + 2 * k) (bytes16 (ipchksum m p len))) p len = 0"
proof -
  have k: "k < unat len div 2" and l: "2 \<le> unat len" using assms(1) by auto
  then show ?thesis
    using oc_checksum_verify [of k "block_words m p (unat len)"] block_words_nth [OF k, of m p]
      length_block_words [of "unat len" m p] assms(2)
    by (simp add: ipchksum_reference block_words_store)
qed

lemma ip_p_chksum_store:
  assumes "2 * k + 1 < unat len" and "8 \<le> unat len" and "rd16 m (p + 2 * k) = 0"
  shows "ip_p_chksum s t (memcpy m (p + 2 * k) (bytes16 (ip_p_chksum s t m p pr len))) p pr len = 0"
proof -
  have k: "k < unat len div 2" using assms(1) by auto
  let ?P = "pseudo_words s t pr len"
  let ?ws = "?P @ block_words m p (unat len)"
  have "length ?P + k < length ?ws" using k length_block_words [of "unat len" m p] by simp
  moreover have "?ws ! (length ?P + k) = 0" using block_words_nth [OF k, of m p] assms(3) by simp
  ultimately have "oc_checksum (?ws[length ?P + k := oc_checksum ?ws]) = 0"
    by (rule oc_checksum_verify)
  moreover have "?ws[length ?P + k := c] = ?P @ (block_words m p (unat len))[k := c]" for c
    by (simp add: list_update_append)
  ultimately show ?thesis
    by (simp add: ip_p_chksum_reference [OF assms(2)] block_words_store [OF k])
qed

section \<open>Properties\<close>

text \<open>
  C18. For at least eight bytes, the unrolled add-with-carry loop over the pseudo header and the
  segment is the Internet checksum: the complement of the ones' complement sum of the pseudo
  header's words and the block's words, an odd last byte padded with zero.
\<close>

theorem ip_p_chksum_is_internet_checksum:
  assumes "8 \<le> unat len"
  shows "ip_p_chksum src target m p protocol len =
     oc_checksum (pseudo_words src target protocol len @ block_words m p (unat len))"
  using assms by (rule ip_p_chksum_reference)

theorem ip_p_chksum_is_internet_checksum_witness:
  "ip_p_chksum (10, 0, 0, 1) (10, 0, 0, 2) (mem_of [1, 2, 3, 4, 5, 6, 7, 8, 9]) 0 17 9 = 52946"
proof -
  have w: "block_words (mem_of [1, 2, 3, 4, 5, 6, 7, 8, 9]) 0 9 = [0x201, 0x403, 0x605, 0x807, 9]"
    by (simp add: block_words_def words_at_def rd16_def le16_def mem_of_def upt_rec)
  have v: "pseudo_words (10, 0, 0, 1) (10, 0, 0, 2) 17 9 = [10, 0x100, 10, 0x200, 0x1100, 0x900]"
    by (simp add: pseudo_words_def rd16_def le16_def mem_of_def ip_addr_bytes_def htons_def)
  show ?thesis
    using ip_p_chksum_is_internet_checksum [where len = 9 and m = "mem_of [1, 2, 3, 4, 5, 6, 7, 8, 9]"
      and p = 0 and src = "(10, 0, 0, 1)" and target = "(10, 0, 0, 2)" and protocol = 17]
    by (simp add: v w oc_checksum_def oc_fold_def)
qed

text \<open>
  For at least two bytes \<open>ipchksum\<close> is the Internet checksum of the block, and a block in
  which the checksum has been stored in a zeroed word field verifies: its checksum is zero.
\<close>

lemma ipchksum_stored_verifies:
  assumes "2 * k + 1 < unat len" and "rd16 m (p + 2 * k) = 0"
  shows "ipchksum m p len = oc_checksum (block_words m p (unat len)) \<and>
    ipchksum (memcpy m (p + 2 * k) (bytes16 (ipchksum m p len))) p len = 0"
  using assms ipchksum_reference [of len m p] ipchksum_store [OF assms] by simp

end
