(* ===== verification/IpSend.thy ===== *)
theory IpSend
  imports Arp Checksum
begin

text \<open>
  The sending half of \<^verbatim>\<open>code/TCPLIB/IP.CPP\<close>: \<^verbatim>\<open>IpHeader::set\<close>, which fills in a header, numbers
  it and computes its checksum, and \<^verbatim>\<open>IpHeader::setDestEth\<close>, which decides between local
  delivery, broadcast and the gateway and resolves the Ethernet address.
\<close>

unbundle bit_operations_syntax

section \<open>State\<close>

record ipsend_state = arp_state +
  IpIdent :: u16

lemma Packet_send_pkt_ipsend_frame [simp]:
  "IpIdent (Packet_send_pkt f l s) = IpIdent s"
  by (subst Packet_send_pkt_shape, simp)

section \<open>Local addresses\<close>

definition setMyIpAddr :: "IpAddr \<Rightarrow> 'a net_scheme \<Rightarrow> 'a net_scheme" where
  "setMyIpAddr source s = s\<lparr>MyIpAddr := source, MyIpAddr_u := ip_u32 source\<rparr>"

definition setMyIpAddr_u :: "u32 \<Rightarrow> 'a net_scheme \<Rightarrow> 'a net_scheme" where
  "setMyIpAddr_u newAddr_u s = s\<lparr>MyIpAddr := u32_ip newAddr_u, MyIpAddr_u := newAddr_u\<rparr>"

definition setMyNetmask :: "IpAddr \<Rightarrow> 'a net_scheme \<Rightarrow> 'a net_scheme" where
  "setMyNetmask source s = s\<lparr>Netmask := source, Netmask_u := ip_u32 source\<rparr>"

text \<open>The cached 32-bit images agree with the addresses.\<close>

definition addr_sync :: "'a net_scheme \<Rightarrow> bool" where
  "addr_sync s \<longleftrightarrow> MyIpAddr_u s = ip_u32 (MyIpAddr s) \<and> Netmask_u s = ip_u32 (Netmask s)"

section \<open>Filling in a header\<close>

definition IpHeader_set ::
    "u8 \<Rightarrow> IpAddr \<Rightarrow> u16 \<Rightarrow> u8 \<Rightarrow> u16 \<Rightarrow> IpHeader \<Rightarrow> 'a ipsend_state_scheme \<Rightarrow>
     'a ipsend_state_scheme \<times> IpHeader" where
  "IpHeader_set protocol_p dstHost plen moreFrags fragOffset h s =
     (let h = (setIpHlen 20 h)\<lparr>ip_service_type := 0\<rparr>;
          (s, h) = (if moreFrags = 0
                    then (s\<lparr>IpIdent := IpIdent s + 1\<rparr>, h\<lparr>ip_ident := htons (IpIdent s)\<rparr>)
                    else (s, h));
          h = setFlags moreFrags h;
          h = setFragOffset fragOffset h;
          h = h\<lparr>ip_ttl := 255, ip_protocol := protocol_p,
                ip_src := MyIpAddr s, ip_dest := dstHost,
                ip_total_length := htons (20 + plen), ip_chksum := 0\<rparr>
      in (s, h\<lparr>ip_chksum := ipchksum (mem_of (ip_bytes h)) 0 20\<rparr>))"

section \<open>The next hop\<close>

text \<open>
  \<open>Some a\<close> is return code 0 with the address stored in the target, \<open>None\<close> is return code 1
  (ARP pending, target not written).
\<close>

definition setDestEth :: "IpAddr \<Rightarrow> 'a arp_state_scheme \<Rightarrow> 'a arp_state_scheme \<times> EthAddr option" where
  "setDestEth target_ip s =
     (if ip_isSame target_ip IpBroadcastNonRoutable then (s, Some Eth_Broadcast)
      else (let destIpAddr_u = ip_u32 target_ip
            in if MyIpAddr_u s AND Netmask_u s \<noteq> destIpAddr_u AND Netmask_u s
               then resolve (Gateway s) s
               else if destIpAddr_u AND (NOT (Netmask_u s)) = NOT (Netmask_u s)
               then (s, Some Eth_Broadcast)
               else resolve target_ip s))"

section \<open>A header filled in is what it says\<close>

lemma IpHeader_set_frame [simp]:
  "fst (IpHeader_set pr d l mf fo h s) =
     (if mf = 0 then s\<lparr>IpIdent := IpIdent s + 1\<rparr> else s)"
  by (simp add: IpHeader_set_def Let_def)

text \<open>Storing the checksum field changes two bytes of the image.\<close>

lemma ip_bytes_chksum:
  "mem_of (ip_bytes (h\<lparr>ip_chksum := c\<rparr>)) =
     memcpy (mem_of (ip_bytes (h\<lparr>ip_chksum := 0\<rparr>))) (0 + 2 * 5) (bytes16 c)"
proof -
  let ?xs = "[ip_versHlen h, ip_service_type h] @ bytes16 (ip_total_length h) @ bytes16 (ip_ident h) @
     bytes16 (ip_flags h) @ [ip_ttl h, ip_protocol h]"
  let ?ys = "ip_addr_bytes (ip_src h) @ ip_addr_bytes (ip_dest h)"
  have "ip_bytes (h\<lparr>ip_chksum := x\<rparr>) = ?xs @ bytes16 x @ ?ys" for x by (simp add: ip_bytes_def)
  then show ?thesis using mem_of_patch [of 10 ?xs c ?ys 0] by simp
qed

lemma rd16_mem_of: "Suc p < length xs \<Longrightarrow> rd16 (mem_of xs) p = le16 (xs ! p) (xs ! Suc p)"
  by (simp add: rd16_def mem_of_def)

lemma ip_chksum_verifies:
  assumes "ip_chksum h = 0"
  shows "ipchksum (mem_of (ip_bytes (h\<lparr>ip_chksum := ipchksum (mem_of (ip_bytes h)) 0 20\<rparr>))) 0 20 = 0"
proof -
  have h: "h\<lparr>ip_chksum := 0\<rparr> = h" using assms by simp
  have z: "rd16 (mem_of (ip_bytes h)) (0 + 2 * 5) = 0"
    using assms by (simp add: rd16_mem_of) (simp add: ip_bytes_def bytes16_def le16_def)
  show ?thesis
    using ipchksum_store [where k = 5 and len = 20 and m = "mem_of (ip_bytes h)" and p = 0] z
    unfolding ip_bytes_chksum [where h = h] h by simp
qed

lemma IpHeader_set_checksum:
  "ipchksum (mem_of (ip_bytes (snd (IpHeader_set pr d l mf fo h s)))) 0 20 = 0"
  unfolding IpHeader_set_def Let_def
  by (simp only: snd_conv split_beta, rule ip_chksum_verifies, simp)

lemma IpHeader_set_fields:
  assumes "take_bit 3 fo = 0"
  shows "getIpHlen (snd (IpHeader_set pr d l mf fo h s)) = 20"
    and "payloadLen (snd (IpHeader_set pr d l mf fo h s)) = l"
    and "ip_src (snd (IpHeader_set pr d l mf fo h s)) = MyIpAddr s"
    and "ip_dest (snd (IpHeader_set pr d l mf fo h s)) = d"
    and "ip_protocol (snd (IpHeader_set pr d l mf fo h s)) = pr"
    and "fragmentOffset (snd (IpHeader_set pr d l mf fo h s)) = fo"
    and "isLastFragment (snd (IpHeader_set pr d l mf fo h s)) \<longleftrightarrow> \<not> bit mf 0"
    and "ip_ident (snd (IpHeader_set pr d l mf fo h s)) =
      (if mf = 0 then htons (IpIdent s) else ip_ident h)"
proof -
  let ?h = "snd (IpHeader_set pr d l mf fo h s)"
  have fl: "ip_flags ?h = ip_flags (setFragOffset fo (setFlags mf h))"
    by (simp add: IpHeader_set_def Let_def set_frag_flags)
  have vh: "ip_versHlen ?h = ip_versHlen (setIpHlen 20 h)"
    by (simp add: IpHeader_set_def Let_def setFragOffset_def setFlags_def setIpHlen_def)
  show hl: "getIpHlen ?h = 20"
    using getIpHlen_set_20 [of h] by (simp add: getIpHlen_def vh)
  show "payloadLen ?h = l"
    unfolding payloadLen_def hl by (simp add: IpHeader_set_def Let_def)
  show "fragmentOffset ?h = fo"
    using fragmentOffset_set [OF assms, of mf h] by (simp add: fragmentOffset_def fl)
  show "isLastFragment ?h \<longleftrightarrow> \<not> bit mf 0"
    using isLastFragment_set [of fo mf h] by (simp add: isLastFragment_def fl)
qed (simp_all add: IpHeader_set_def Let_def setFragOffset_def setFlags_def setIpHlen_def)

section \<open>Routing\<close>

text \<open>The address whose Ethernet address is needed: \<open>None\<close> for a broadcast.\<close>

definition next_hop :: "IpAddr \<Rightarrow> 'a net_scheme \<Rightarrow> IpAddr option" where
  "next_hop dst s =
     (let same_net = (ip_u32 (MyIpAddr s) AND ip_u32 (Netmask s) = ip_u32 dst AND ip_u32 (Netmask s));
          host_ones = (ip_u32 dst OR ip_u32 (Netmask s) = - 1)
      in if dst = (255, 255, 255, 255) then None
         else if \<not> same_net then Some (Gateway s)
         else if host_ones then None
         else Some dst)"

lemma host_ones_iff: "(d AND NOT m = NOT m) \<longleftrightarrow> (d OR m = - 1)" for d m :: u32
  by (auto simp: bit_eq_iff bit_simps)

lemma setDestEth_next_hop:
  assumes "addr_sync s"
  shows "setDestEth dst s =
     (case next_hop dst s of None \<Rightarrow> (s, Some Eth_Broadcast) | Some ip \<Rightarrow> resolve ip s)"
  using assms
  by (simp add: setDestEth_def next_hop_def Let_def addr_sync_def IpBroadcastNonRoutable_def host_ones_iff)

lemma setDestEth_arp_wf [inv_intros]: "arp_wf s \<Longrightarrow> arp_wf (fst (setDestEth dst s))"
  by (simp add: setDestEth_def Let_def resolve_arp_wf)

section \<open>What resolution changes\<close>

lemma sendArpRequest_shape:
  "sendArpRequest ip s =
     s\<lparr>drv_calls := drv_calls (sendArpRequest ip s), wire := wire (sendArpRequest ip s),
       Packets_sent := Packets_sent (sendArpRequest ip s),
       Packets_send_errs := Packets_send_errs (sendArpRequest ip s),
       pending := pending (sendArpRequest ip s),
       pendingEntries := pendingEntries (sendArpRequest ip s),
       Arp_RequestsSent := Arp_RequestsSent (sendArpRequest ip s)\<rparr>"
proof (cases "(\<exists>i<unat ARP_MAX_PENDING. p_attempts (pending s i) \<noteq> - 1 \<and> p_target (pending s i) = ip) \<or>
    pendingEntries s = ARP_MAX_PENDING")
  case True
  then have "sendArpRequest ip s = s" by (auto simp: sendArpRequest_def)
  then show ?thesis by simp
next
  case False
  then have "\<exists>f l p n r. sendArpRequest ip s =
      Packet_send_pkt f l (s\<lparr>pending := p, pendingEntries := n, Arp_RequestsSent := r\<rparr>)"
    unfolding sendArpRequest_def Let_def sendArpRequest2_def by simp blast
  then obtain f l p n r where
    e: "sendArpRequest ip s =
      Packet_send_pkt f l (s\<lparr>pending := p, pendingEntries := n, Arp_RequestsSent := r\<rparr>)"
    by blast
  show ?thesis unfolding e
    by (subst Packet_send_pkt_shape) simp
qed

lemma resolve_shape:
  "fst (resolve ip s) =
     s\<lparr>drv_calls := drv_calls (fst (resolve ip s)), wire := wire (fst (resolve ip s)),
       Packets_sent := Packets_sent (fst (resolve ip s)),
       Packets_send_errs := Packets_send_errs (fst (resolve ip s)),
       pending := pending (fst (resolve ip s)),
       pendingEntries := pendingEntries (fst (resolve ip s)),
       Arp_RequestsSent := Arp_RequestsSent (fst (resolve ip s))\<rparr>"
  using sendArpRequest_shape [of ip s] by (simp add: resolve_def split: option.split)

lemma setDestEth_shape:
  "fst (setDestEth ip s) =
     s\<lparr>drv_calls := drv_calls (fst (setDestEth ip s)), wire := wire (fst (setDestEth ip s)),
       Packets_sent := Packets_sent (fst (setDestEth ip s)),
       Packets_send_errs := Packets_send_errs (fst (setDestEth ip s)),
       pending := pending (fst (setDestEth ip s)),
       pendingEntries := pendingEntries (fst (setDestEth ip s)),
       Arp_RequestsSent := Arp_RequestsSent (fst (setDestEth ip s))\<rparr>"
  using resolve_shape [of ip s] resolve_shape [of "Gateway s" s] by (simp add: setDestEth_def Let_def)

definition zero_ipsend :: ipsend_state where
  "zero_ipsend = arp_state.extend zero_arp (ipsend_state.fields 0)"

section \<open>Properties\<close>

text \<open>
  \<open>IpHeader::set\<close> leaves a header that verifies under \<open>ipchksum\<close>, has no options, and reads
  back the payload length, the addresses, the protocol, the fragment offset (a multiple of
  eight) and the more-fragments flag it was given; the ident is fresh except for a non-final
  fragment, which keeps the one of its packet.
\<close>

lemma IpHeader_set_well_formed:
  assumes "fragOffset AND 7 = 0"
  shows "let h' = snd (IpHeader_set protocol_p dst plen mf fragOffset h s)
    in ipchksum (mem_of (ip_bytes h')) 0 20 = 0 \<and> getIpHlen h' = 20 \<and> payloadLen h' = plen \<and>
       ip_src h' = MyIpAddr s \<and> ip_dest h' = dst \<and> ip_protocol h' = protocol_p \<and>
       fragmentOffset h' = fragOffset \<and> (isLastFragment h' \<longleftrightarrow> \<not> bit mf 0) \<and>
       ip_ident h' = (if mf = 0 then htons (IpIdent s) else ip_ident h)"
proof -
  have "take_bit 3 fragOffset = 0" using assms by (simp add: take_bit_eq_mask mask_eq_exp_minus_1)
  then show ?thesis
    unfolding Let_def by (intro conjI) (simp_all only: IpHeader_set_fields IpHeader_set_checksum)
qed

text \<open>
  Once the address and the netmask are set, a packet for the limited broadcast or the
  broadcast address of the subnet goes to the Ethernet broadcast, a packet for another network
  is resolved to the gateway and any other packet to its destination.
\<close>

lemma setDestEth_routes:
  "setDestEth dst (setMyNetmask nm (setMyIpAddr ip s)) =
     (let t = setMyNetmask nm (setMyIpAddr ip s);
          same_net = (ip_u32 ip AND ip_u32 nm = ip_u32 dst AND ip_u32 nm)
      in if dst = (255, 255, 255, 255) then (t, Some Eth_Broadcast)
         else if \<not> same_net then resolve (Gateway s) t
         else if ip_u32 dst OR ip_u32 nm = - 1 then (t, Some Eth_Broadcast)
         else resolve dst t)"
proof -
  let ?t = "setMyNetmask nm (setMyIpAddr ip s)"
  have "addr_sync ?t" by (simp add: addr_sync_def setMyNetmask_def setMyIpAddr_def)
  from setDestEth_next_hop [OF this, of dst] show ?thesis
    by (simp add: next_hop_def Let_def) (simp add: setMyNetmask_def setMyIpAddr_def)
qed

end
