(* ===== verification/IpFrag.thy ===== *)
theory IpFrag
  imports IpSend
begin

text \<open>
  Reassembly of IP fragments, \<^verbatim>\<open>code/TCPLIB/IP.CPP\<close> under \<^verbatim>\<open>IP_FRAGMENTS_ON\<close>: the table of
  fragment control structures, the insertion of a fragment into its sorted list, the
  completeness check, the copy into a big packet and the reassembly timer.
\<close>

unbundle bit_operations_syntax

section \<open>State\<close>

definition IP_MAX_FRAG_PACKETS :: nat where [cfg_defs]: "IP_MAX_FRAG_PACKETS = 4"
definition IP_MAX_FRAGS_PER_PACKET :: u8 where [cfg_defs]: "IP_MAX_FRAGS_PER_PACKET = 10"
definition IP_BIGPACKET_SIZE :: u16 where [cfg_defs]: "IP_BIGPACKET_SIZE = 2048"
definition IP_FRAG_REASSEMBLY_TIMEOUT :: u32 where [cfg_defs]: "IP_FRAG_REASSEMBLY_TIMEOUT = 4000"

record IpFragControl_t =
  inUse :: bool
  fragsRcvd :: u8
  lastFragRcvd :: bool
  fc_srcAddr :: IpAddr
  fc_ident :: u16
  fc_startTime :: u32
  fc_offsets :: "nat \<Rightarrow> u16"
  fc_lengths :: "nat \<Rightarrow> u16"
  fc_packets :: "nat \<Rightarrow> bufref"

record ip_state = ipsend_state +
  fragControl :: "nat \<Rightarrow> IpFragControl_t"
  fragsInReassembly :: u8
  ipReassemblyMemory :: "nat option"
  Ip_icmpRecvPackets :: u32
  Ip_badChecksum :: u32
  Ip_fragsReceived :: u32
  Ip_goodReassemblies :: u32
  Ip_timeoutReassemblies :: u32
  Ip_notEnoughSlots :: u32
  Ip_tooManyInFlight :: u32
  Ip_payloadTooBig :: u32

definition zero_ip_state :: ip_state where
  "zero_ip_state = ipsend_state.extend zero_ipsend (ip_state.fields
     (\<lambda>_. \<lparr>inUse = False, fragsRcvd = 0, lastFragRcvd = False, fc_srcAddr = IpInvalid, fc_ident = 0,
        fc_startTime = 0, fc_offsets = (\<lambda>_. 0), fc_lengths = (\<lambda>_. 0), fc_packets = (\<lambda>_. PoolBuf 0)\<rparr>)
     0 None 0 0 0 0 0 0 0 0)"

lemma Packet_send_pkt_ip_frame [simp]:
  "fragControl (Packet_send_pkt f l s) = fragControl s"
  "fragsInReassembly (Packet_send_pkt f l s) = fragsInReassembly s"
  by (subst Packet_send_pkt_shape, simp)+

section \<open>The table of fragment control structures\<close>

definition upd_fc :: "nat \<Rightarrow> (IpFragControl_t \<Rightarrow> IpFragControl_t) \<Rightarrow> 'a ip_state_scheme \<Rightarrow> 'a ip_state_scheme" where
  "upd_fc i f s = s\<lparr>fragControl := (fragControl s)(i := f (fragControl s i))\<rparr>"

definition findFragControl :: "IpAddr \<Rightarrow> u16 \<Rightarrow> 'a ip_state_scheme \<Rightarrow> nat option" where
  "findFragControl src ident s =
     find (\<lambda>i. inUse (fragControl s i) \<and> ip_isSame (fc_srcAddr (fragControl s i)) src \<and>
            fc_ident (fragControl s i) = ident) [0..<IP_MAX_FRAG_PACKETS]"

definition findOpenFragControl :: "'a ip_state_scheme \<Rightarrow> nat option" where
  "findOpenFragControl s = find (\<lambda>i. \<not> inUse (fragControl s i)) [0..<IP_MAX_FRAG_PACKETS]"

definition killFragmentControl :: "nat \<Rightarrow> 'a ip_state_scheme \<Rightarrow> 'a ip_state_scheme" where
  "killFragmentControl i s =
     (let fc = fragControl s i;
          s = fold (\<lambda>j. Buffer_free (fc_packets fc j)) [0..<unat (fragsRcvd fc)] s;
          s = upd_fc i (\<lambda>fc. fc\<lparr>fragsRcvd := 0, inUse := False\<rparr>) s
      in s\<lparr>fragsInReassembly := fragsInReassembly s - 1\<rparr>)"

definition initForReassembly :: "'a ip_state_scheme \<Rightarrow> 'a ip_state_scheme \<times> int" where
  "initForReassembly s =
     (case malloc s of
        (s, None) \<Rightarrow> (s, -1)
      | (s, Some tmp) \<Rightarrow>
          (s\<lparr>ipReassemblyMemory := Some tmp,
             fragControl := (\<lambda>i. if i < IP_MAX_FRAG_PACKETS then (fragControl s i)\<lparr>inUse := False\<rparr>
                                 else fragControl s i),
             BigPacketFreeList := (\<lambda>i. if i < IP_MAX_FRAG_PACKETS then BigBuf i else BigPacketFreeList s i),
             BigPacketFreeIndex := of_nat IP_MAX_FRAG_PACKETS\<rparr>, 0))"

definition reassemblyStop :: "'a ip_state_scheme \<Rightarrow> 'a ip_state_scheme" where
  "reassemblyStop s =
     (let s = fold (\<lambda>i s. if inUse (fragControl s i) then killFragmentControl i s else s)
                [0..<IP_MAX_FRAG_PACKETS] s
      in case ipReassemblyMemory s of Some p \<Rightarrow> free p s | None \<Rightarrow> s)"

definition purge_slot :: "nat \<Rightarrow> 'a ip_state_scheme \<Rightarrow> 'a ip_state_scheme" where
  "purge_slot i s =
     (if inUse (fragControl s i) then
        (let elapsedTicks = Timer_diff (fc_startTime (fragControl s i)) (Timer_CurrentTicks s)
         in if TIMER_MS_TO_TICKS IP_FRAG_REASSEMBLY_TIMEOUT < elapsedTicks
            then (let s = killFragmentControl i s
                  in s\<lparr>Ip_timeoutReassemblies := Ip_timeoutReassemblies s + 1\<rparr>)
            else s)
      else s)"

definition purgeOverdue :: "'a ip_state_scheme \<Rightarrow> 'a ip_state_scheme" where
  "purgeOverdue s = fold purge_slot [0..<IP_MAX_FRAG_PACKETS] s"

section \<open>Building the big packet\<close>

text \<open>
  The copy loop: the payload of each fragment goes to \<open>data + startOffset\<close>; \<open>data\<close> is at
  offset 34 of a \<^verbatim>\<open>BigPacket_t\<close>, and \<open>startOffset\<close> is a 16-bit counter.
\<close>

fun copy_frags :: "IpFragControl_t \<Rightarrow> (bufref \<Rightarrow> mem) \<Rightarrow> nat list \<Rightarrow> u16 \<Rightarrow> mem \<Rightarrow> mem \<times> u16" where
  "copy_frags fc pm [] startOffset m = (m, startOffset)"
| "copy_frags fc pm (i # is) startOffset m =
     (let src = pm (fc_packets fc i);
          hdr = read_IpHeader src 14;
          len = fc_lengths fc i;
          m = memcpy m (34 + unat startOffset) (rdbytes src (14 + payloadOff hdr) (unat len))
      in copy_frags fc pm is (startOffset + len) m)"

definition makeBigPacket :: "nat \<Rightarrow> 'a ip_state_scheme \<Rightarrow> 'a ip_state_scheme \<times> bufref option" where
  "makeBigPacket i s =
     (let fc = fragControl s i
      in case getBigPacket s of
           (s, None) \<Rightarrow> (killFragmentControl i s, None)
         | (s, Some bp) \<Rightarrow>
             (let first = pkt_mem s (fc_packets fc 0);
                  m = memcpy (pkt_mem s bp) 0 (rdbytes first 0 14);
                  h = setIpHlen 20 (read_IpHeader first 14);
                  m = memcpy m 14 (ip_bytes h);
                  (m, startOffset) = copy_frags fc (pkt_mem s) [0..<unat (fragsRcvd fc)] 0 m;
                  h = h\<lparr>ip_total_length := htons (startOffset + 20), ip_flags := 0, ip_chksum := 0\<rparr>;
                  m = memcpy m 14 (ip_bytes h);
                  s = s\<lparr>pkt_mem := (pkt_mem s)(bp := m)\<rparr>;
                  s = killFragmentControl i s
              in (s\<lparr>Ip_goodReassemblies := Ip_goodReassemblies s + 1\<rparr>, Some bp)))"

section \<open>A new fragment\<close>

definition fragmentLength :: "IpHeader \<Rightarrow> u16" where
  "fragmentLength h = ntohs (ip_total_length h) - getIpHlen h"

text \<open>The first slot whose offset is not below the new one, or the end of the list.\<close>

definition frag_insertPos :: "IpFragControl_t \<Rightarrow> u16 \<Rightarrow> nat" where
  "frag_insertPos fc off =
     (case find (\<lambda>i. off \<le> fc_offsets fc i) [0..<unat (fragsRcvd fc)] of
        Some i \<Rightarrow> i | None \<Rightarrow> unat (fragsRcvd fc))"

text \<open>\<^verbatim>\<open>for ( j=n; j>pos; j-- ) a[j] = a[j-1]\<close>\<close>

fun slide_up :: "nat \<Rightarrow> nat \<Rightarrow> (nat \<Rightarrow> 'b) \<Rightarrow> nat \<Rightarrow> 'b" where
  "slide_up pos 0 a = a"
| "slide_up pos (Suc j) a = (if pos < Suc j then slide_up pos j (a(Suc j := a j)) else a)"

definition frag_insert :: "nat \<Rightarrow> u16 \<Rightarrow> u16 \<Rightarrow> bufref \<Rightarrow> IpFragControl_t \<Rightarrow> IpFragControl_t" where
  "frag_insert pos off len packet fc =
     (let n = unat (fragsRcvd fc)
      in fc\<lparr>fc_offsets := (slide_up pos n (fc_offsets fc))(pos := off),
            fc_lengths := (slide_up pos n (fc_lengths fc))(pos := len),
            fc_packets := (slide_up pos n (fc_packets fc))(pos := packet),
            fragsRcvd := fragsRcvd fc + 1\<rparr>)"

fun frag_contiguous :: "IpFragControl_t \<Rightarrow> nat list \<Rightarrow> u16 \<Rightarrow> bool" where
  "frag_contiguous fc [] startOffset = True"
| "frag_contiguous fc (j # js) startOffset =
     (if startOffset \<noteq> fc_offsets fc j then False
      else frag_contiguous fc js (startOffset + fc_lengths fc j))"

definition frag_first :: "IpHeader \<Rightarrow> bufref \<Rightarrow> 'a ip_state_scheme \<Rightarrow> 'a ip_state_scheme" where
  "frag_first ip packet s =
     (case findOpenFragControl s of
        None \<Rightarrow> Buffer_free packet (s\<lparr>Ip_tooManyInFlight := Ip_tooManyInFlight s + 1\<rparr>)
      | Some i \<Rightarrow>
          (if IP_BIGPACKET_SIZE < fragmentOffset ip + fragmentLength ip
           then Buffer_free packet (s\<lparr>Ip_payloadTooBig := Ip_payloadTooBig s + 1\<rparr>)
           else upd_fc i (\<lambda>fc. fc\<lparr>inUse := True, fragsRcvd := 1, lastFragRcvd := isLastFragment ip,
                     fc_srcAddr := ip_src ip, fc_ident := ip_ident ip,
                     fc_startTime := Timer_CurrentTicks s,
                     fc_offsets := (fc_offsets fc)(0 := fragmentOffset ip),
                     fc_lengths := (fc_lengths fc)(0 := fragmentLength ip),
                     fc_packets := (fc_packets fc)(0 := packet)\<rparr>)
                  (s\<lparr>fragsInReassembly := fragsInReassembly s + 1\<rparr>)))"

definition frag_more :: "nat \<Rightarrow> IpHeader \<Rightarrow> bufref \<Rightarrow> 'a ip_state_scheme \<Rightarrow> 'a ip_state_scheme \<times> bufref option" where
  "frag_more i ip packet s =
     (let off = fragmentOffset ip; len = fragmentLength ip
      in if IP_BIGPACKET_SIZE < off + len
         then (killFragmentControl i
                 (Buffer_free packet (s\<lparr>Ip_payloadTooBig := Ip_payloadTooBig s + 1\<rparr>)), None)
         else
           (let s = (if isLastFragment ip then upd_fc i (\<lambda>fc. fc\<lparr>lastFragRcvd := True\<rparr>) s else s);
                fc = fragControl s i;
                pos = frag_insertPos fc off
            in if pos < unat (fragsRcvd fc) \<and> off = fc_offsets fc pos \<and> len = fc_lengths fc pos
               then (Buffer_free packet s, None)
               else if pos < unat (fragsRcvd fc) \<and> fc_offsets fc pos < off + len
               then (killFragmentControl i (Buffer_free packet s), None)
               else
                 (let s = upd_fc i (frag_insert pos off len packet) s;
                      fc = fragControl s i
                  in if lastFragRcvd fc \<and> frag_contiguous fc [0..<unat (fragsRcvd fc)] 0
                     then makeBigPacket i s
                     else if fragsRcvd fc = IP_MAX_FRAGS_PER_PACKET
                     then (let s = killFragmentControl i s
                           in (s\<lparr>Ip_notEnoughSlots := Ip_notEnoughSlots s + 1\<rparr>, None))
                     else (s, None))))"

definition processFragment :: "IpHeader \<Rightarrow> bufref \<Rightarrow> 'a ip_state_scheme \<Rightarrow> 'a ip_state_scheme \<times> bufref option" where
  "processFragment ip packet s =
     (case findFragControl (ip_src ip) (ip_ident ip) s of
        None \<Rightarrow> (frag_first ip packet s, None)
      | Some i \<Rightarrow> frag_more i ip packet s)"

end
