(* ===== verification/RingBuf.thy ===== *)
theory RingBuf
  imports Prelude
begin

text \<open>
  The packet queues of a socket: class \<^verbatim>\<open>RingBuffer\<close> of \<^verbatim>\<open>code/TCPINC/RINGBUF.H\<close>, with the
  bounded first-in first-out queue it implements.  The interface is the locale
  \<open>bounded_queue\<close>; the lemmas a user of the queue needs are proved in it once and the ring
  buffer interprets it.
\<close>

unbundle bit_operations_syntax

section \<open>The interface: a bounded queue\<close>

datatype 'a queue_op = Enq 'a | Deq

text \<open>A sequence of operations, on any implementation and on its specification: a list with a capacity.\<close>

fun queue_run ::
    "('a \<Rightarrow> 'q \<Rightarrow> 'q \<times> int) \<Rightarrow> ('q \<Rightarrow> 'q \<times> 'a option) \<Rightarrow> 'q \<Rightarrow> 'a queue_op list \<Rightarrow> 'q \<times> 'a option list"
  where
  "queue_run enq deq q [] = (q, [])"
| "queue_run enq deq q (Enq x # ops) = queue_run enq deq (fst (enq x q)) ops"
| "queue_run enq deq q (Deq # ops) =
     (let (q', out) = queue_run enq deq (fst (deq q)) ops in (q', snd (deq q) # out))"

fun fifo_run :: "nat \<Rightarrow> 'a list \<Rightarrow> 'a queue_op list \<Rightarrow> 'a list \<times> 'a option list" where
  "fifo_run cap xs [] = (xs, [])"
| "fifo_run cap xs (Enq x # ops) = fifo_run cap (if length xs < cap then xs @ [x] else xs) ops"
| "fifo_run cap [] (Deq # ops) = (let (ys, out) = fifo_run cap [] ops in (ys, None # out))"
| "fifo_run cap (x # xs) (Deq # ops) = (let (ys, out) = fifo_run cap xs ops in (ys, Some x # out))"

locale bounded_queue =
  fixes enq :: "'a \<Rightarrow> 'q \<Rightarrow> 'q \<times> int"
    and deq :: "'q \<Rightarrow> 'q \<times> 'a option"
    and peek :: "'q \<Rightarrow> 'a option"
    and room :: "'q \<Rightarrow> bool"
    and size_of :: "'q \<Rightarrow> nat"
    and contents :: "'q \<Rightarrow> 'a list"
    and wf :: "'q \<Rightarrow> bool"
    and cap :: nat
  assumes enq_room: "wf q \<Longrightarrow> length (contents q) < cap \<Longrightarrow>
        wf (fst (enq x q)) \<and> contents (fst (enq x q)) = contents q @ [x] \<and> snd (enq x q) = 0"
    and enq_full: "wf q \<Longrightarrow> length (contents q) = cap \<Longrightarrow> enq x q = (q, -1)"
    and deq_some: "wf q \<Longrightarrow> contents q = x # xs \<Longrightarrow>
        wf (fst (deq q)) \<and> contents (fst (deq q)) = xs \<and> snd (deq q) = Some x"
    and deq_none: "wf q \<Longrightarrow> contents q = [] \<Longrightarrow> deq q = (q, None)"
    and peek_some: "wf q \<Longrightarrow> contents q = x # xs \<Longrightarrow> peek q = Some x"
    and peek_none: "wf q \<Longrightarrow> contents q = [] \<Longrightarrow> peek q = None"
    and room_iff: "wf q \<Longrightarrow> room q \<longleftrightarrow> length (contents q) < cap"
    and size_eq: "wf q \<Longrightarrow> size_of q = length (contents q)"
    and bounded: "wf q \<Longrightarrow> length (contents q) \<le> cap"
begin

lemma enq_wf: "wf q \<Longrightarrow> wf (fst (enq x q))"
  using enq_room [of q x] enq_full [of q x] bounded [of q] by (metis fst_conv le_neq_implies_less)

lemma enq_contents:
  "wf q \<Longrightarrow>
    contents (fst (enq x q)) = (if length (contents q) < cap then contents q @ [x] else contents q)"
  using enq_room [of q x] enq_full [of q x] bounded [of q] by (auto simp: le_less)

lemma deq_wf: "wf q \<Longrightarrow> wf (fst (deq q))"
  using deq_some [of q] deq_none [of q] by (metis fst_conv list.exhaust)

lemma deq_contents: "wf q \<Longrightarrow> contents (fst (deq q)) = tl (contents q)"
  using deq_some [of q] deq_none [of q] by (cases "contents q") auto

lemma deq_result:
  "wf q \<Longrightarrow> snd (deq q) = (case contents q of [] \<Rightarrow> None | x # _ \<Rightarrow> Some x)"
  using deq_some [of q] deq_none [of q] by (cases "contents q") auto

lemma peek_result:
  "wf q \<Longrightarrow> peek q = (case contents q of [] \<Rightarrow> None | x # _ \<Rightarrow> Some x)"
  using peek_some [of q] peek_none [of q] by (cases "contents q") auto

lemma run_refines:
  "wf q \<Longrightarrow> wf (fst (queue_run enq deq q ops)) \<and>
     (contents (fst (queue_run enq deq q ops)), snd (queue_run enq deq q ops)) =
       fifo_run cap (contents q) ops"
proof (induction ops arbitrary: q)
  case Nil
  then show ?case by simp
next
  case (Cons a ops)
  show ?case
  proof (cases a)
    case (Enq x)
    then show ?thesis
      using Cons.IH [OF enq_wf [OF Cons.prems, of x]] by (simp add: enq_contents [OF Cons.prems])
  next
    case Deq
    note IH = Cons.IH [OF deq_wf [OF Cons.prems]]
    show ?thesis
    proof (cases "contents q")
      case Nil
      then show ?thesis
        using IH Deq by (auto simp: split_beta deq_none [OF Cons.prems] prod_eq_iff)
    next
      case (Cons x xs)
      then show ?thesis
        using IH Deq by (auto simp: split_beta deq_some [OF Cons.prems] prod_eq_iff)
    qed
  qed
qed

end

section \<open>The ring buffer\<close>

definition RINGBUFFER_SIZE :: u16 where
  [cfg_defs]: "RINGBUFFER_SIZE = 4"

definition RINGBUFFER_MASK :: u16 where
  [cfg_defs]: "RINGBUFFER_MASK = RINGBUFFER_SIZE - 1"

text \<open>A slot holds a pointer, \<open>None\<close> for the null pointer a cleared slot contains.\<close>

record 'a RingBuffer =
  rb_first :: u16
  rb_next :: u16
  rb_entries :: u16
  rb_ring :: "nat \<Rightarrow> 'a option"

definition rb_init :: "'a RingBuffer \<Rightarrow> 'a RingBuffer" where
  "rb_init r = r\<lparr>rb_first := 0, rb_next := 0, rb_entries := 0\<rparr>"

definition rb_enqueue :: "'a \<Rightarrow> 'a RingBuffer \<Rightarrow> 'a RingBuffer \<times> int" where
  "rb_enqueue d r =
     (if rb_entries r = RINGBUFFER_SIZE then (r, -1)
      else (r\<lparr>rb_ring := (rb_ring r)(unat (rb_next r) := Some d),
              rb_next := (rb_next r + 1) AND RINGBUFFER_MASK,
              rb_entries := rb_entries r + 1\<rparr>, 0))"

definition rb_dequeue :: "'a RingBuffer \<Rightarrow> 'a RingBuffer \<times> 'a option" where
  "rb_dequeue r =
     (if rb_entries r = 0 then (r, None)
      else (let i = rb_first r in
            (r\<lparr>rb_first := (rb_first r + 1) AND RINGBUFFER_MASK,
               rb_entries := rb_entries r - 1\<rparr>, rb_ring r (unat i))))"

definition rb_peek :: "'a RingBuffer \<Rightarrow> 'a option" where
  "rb_peek r = (if rb_entries r = 0 then None else rb_ring r (unat (rb_first r)))"

definition rb_hasRoom :: "'a RingBuffer \<Rightarrow> bool" where
  "rb_hasRoom r \<longleftrightarrow> rb_entries r < RINGBUFFER_SIZE"

section \<open>Abstraction and invariant\<close>

definition rb_slot :: "'a RingBuffer \<Rightarrow> nat \<Rightarrow> nat" where
  "rb_slot r i = (unat (rb_first r) + i) mod 4"

definition rb_list :: "'a RingBuffer \<Rightarrow> 'a list" where
  "rb_list r = map (\<lambda>i. the (rb_ring r (rb_slot r i))) [0..<unat (rb_entries r)]"

definition rb_wf :: "'a RingBuffer \<Rightarrow> bool" where
  "rb_wf r \<longleftrightarrow> unat (rb_first r) < 4 \<and> unat (rb_entries r) \<le> 4 \<and>
     unat (rb_next r) = (unat (rb_first r) + unat (rb_entries r)) mod 4 \<and>
     (\<forall>i < unat (rb_entries r). rb_ring r (rb_slot r i) \<noteq> None)"

lemma length_rb_list [simp]: "length (rb_list r) = unat (rb_entries r)"
  by (simp add: rb_list_def)

lemma rb_mask_unat: "unat ((x + 1) AND RINGBUFFER_MASK) = (unat x + 1) mod 4" for x :: u16
proof -
  have "(x + 1) AND RINGBUFFER_MASK = take_bit 2 (x + 1)"
    by (simp add: cfg_defs take_bit_eq_mask mask_eq_exp_minus_1)
  then have "unat ((x + 1) AND RINGBUFFER_MASK) = unat (x + 1) mod 4"
    by (simp add: unsigned_take_bit_eq take_bit_eq_mod unat_mod)
  also have "\<dots> = (unat x + 1) mod 65536 mod 4"
    by (simp add: unat_word_ariths)
  also have "\<dots> = (unat x + 1) mod 4"
    by (simp add: mod_mod_cancel)
  finally show ?thesis .
qed

lemma rb_entries_Suc: "unat (rb_entries r) < 4 \<Longrightarrow> unat (rb_entries r + 1) = unat (rb_entries r) + 1"
  by (simp add: unat_word_ariths)

lemma rb_entries_pred: "rb_entries r \<noteq> 0 \<Longrightarrow> unat (rb_entries r - 1) = unat (rb_entries r) - 1"
  by (simp add: unat_minus_one)

lemma rb_full_iff: "rb_entries r = RINGBUFFER_SIZE \<longleftrightarrow> unat (rb_entries r) = 4"
  by (simp add: cfg_defs word_unat_eq_iff)

lemma rb_empty_iff: "rb_entries r = 0 \<longleftrightarrow> unat (rb_entries r) = 0"
  by (simp add: unat_eq_0)

lemma rb_enqueue_room:
  assumes "rb_wf r" and "unat (rb_entries r) < 4"
  shows "rb_wf (fst (rb_enqueue x r)) \<and> rb_list (fst (rb_enqueue x r)) = rb_list r @ [x] \<and>
     snd (rb_enqueue x r) = 0"
proof -
  let ?n = "unat (rb_entries r)" and ?f = "unat (rb_first r)"
  have ne: "rb_entries r \<noteq> RINGBUFFER_SIZE" using assms(2) rb_full_iff [of r] by simp
  have nx: "unat (rb_next r) = (?f + ?n) mod 4" using assms(1) by (simp add: rb_wf_def)
  have other: "(?f + i) mod 4 \<noteq> (?f + ?n) mod 4" if "i < ?n" for i
    by (rule mod4_neq [OF that assms(2)])
  let ?r = "fst (rb_enqueue x r)"
  have en: "unat (rb_entries ?r) = Suc ?n" and fi: "rb_first ?r = rb_first r"
    and ne': "unat (rb_next ?r) = ((?f + ?n) mod 4 + 1) mod 4"
    and ri: "rb_ring ?r = (rb_ring r)((?f + ?n) mod 4 := Some x)"
    using ne nx rb_entries_Suc [OF assms(2)] by (auto simp: rb_enqueue_def rb_mask_unat)
  have "rb_ring ?r (rb_slot ?r i) \<noteq> None" if "i < Suc ?n" for i
    using that assms(1) by (cases "i = ?n") (auto simp: ri rb_slot_def fi rb_wf_def)
  then have "rb_wf ?r"
    using assms unfolding rb_wf_def en fi ne' by (simp add: mod_Suc_eq)
  moreover have "rb_list (fst (rb_enqueue x r)) = rb_list r @ [x]"
    using other by (simp add: rb_list_def en rb_slot_def fi ri)
  ultimately show ?thesis using ne by (simp add: rb_enqueue_def)
qed

lemma rb_dequeue_some:
  assumes "rb_wf r" and "rb_list r = x # xs"
  shows "rb_wf (fst (rb_dequeue r)) \<and> rb_list (fst (rb_dequeue r)) = xs \<and>
     snd (rb_dequeue r) = Some x"
proof -
  let ?n = "unat (rb_entries r)" and ?f = "unat (rb_first r)"
  have n: "0 < ?n" using assms(2) length_rb_list [of r] by simp
  then have nz: "rb_entries r \<noteq> 0" by auto
  obtain k where k: "?n = Suc k" using n by (cases ?n) auto
  have pred: "unat (rb_entries r - 1) = k" using rb_entries_pred [OF nz] k by simp
  have f4: "?f < 4" using assms(1) by (simp add: rb_wf_def)
  have slot0: "rb_slot r 0 = ?f" using f4 by (simp add: rb_slot_def)
  have sl: "((?f + 1) mod 4 + i) mod 4 = (?f + Suc i) mod 4" for i
    by (simp add: mod_add_left_eq)
  have hd: "rb_ring r ?f = Some x"
  proof -
    have "rb_ring r (rb_slot r 0) \<noteq> None" using assms(1) n by (auto simp: rb_wf_def)
    moreover have "the (rb_ring r (rb_slot r 0)) = x"
      using assms(2) k by (simp add: rb_list_def upt_conv_Cons del: upt_Suc)
    ultimately show ?thesis using slot0 by auto
  qed
  have tl: "map (\<lambda>i. the (rb_ring r (rb_slot r (Suc i)))) [0..<k] = xs"
    using assms(2) k by (simp add: rb_list_def upt_conv_Cons map_Suc_upt [symmetric] del: map_Suc_upt upt_Suc)
      (simp add: comp_def)
  have "rb_wf (fst (rb_dequeue r))"
    using assms(1) nz k f4
    by (simp add: rb_dequeue_def rb_wf_def rb_mask_unat pred rb_slot_def)
      (metis Suc_less_eq add_Suc_right mod_Suc_eq mod_add_left_eq add.commute plus_1_eq_Suc)
  moreover have "rb_list (fst (rb_dequeue r)) = xs"
    using tl nz sl by (simp add: rb_dequeue_def rb_list_def rb_mask_unat pred rb_slot_def)
  moreover have "snd (rb_dequeue r) = Some x"
    using nz hd by (simp add: rb_dequeue_def)
  ultimately show ?thesis by simp
qed

interpretation rb: bounded_queue rb_enqueue rb_dequeue rb_peek rb_hasRoom
  "\<lambda>r. unat (rb_entries r)" rb_list rb_wf 4
proof (unfold_locales, goal_cases)
  case (1 q x)
  then show ?case using rb_enqueue_room by simp
next
  case (2 q x)
  then show ?case by (simp add: rb_enqueue_def rb_full_iff)
next
  case (3 q x xs)
  then show ?case by (rule rb_dequeue_some)
next
  case (4 q)
  then have "unat (rb_entries q) = 0" using length_rb_list [of q] by simp
  then show ?case by (simp add: rb_dequeue_def rb_empty_iff)
next
  case (5 q x xs)
  then have "snd (rb_dequeue q) = Some x" and "rb_entries q \<noteq> 0"
    using rb_dequeue_some [of q x xs] length_rb_list [of q] by auto
  then show ?case by (simp add: rb_dequeue_def rb_peek_def)
next
  case (6 q)
  then have "unat (rb_entries q) = 0" using length_rb_list [of q] by simp
  then show ?case by (simp add: rb_peek_def rb_empty_iff)
next
  case (7 q)
  have "unat RINGBUFFER_SIZE = 4" by (simp add: cfg_defs)
  then show ?case by (simp add: rb_hasRoom_def word_less_nat_alt)
next
  case (8 q)
  then show ?case by simp
next
  case (9 q)
  then show ?case by (simp add: rb_wf_def)
qed

lemma rb_init_wf [simp, intro]: "rb_wf (rb_init r)" and rb_init_list [simp]: "rb_list (rb_init r) = []"
  by (simp_all add: rb_init_def rb_wf_def rb_list_def)

section \<open>The property\<close>

text \<open>
  C19. Any sequence of \<open>enqueue\<close> and \<open>dequeue\<close> calls on a well-formed ring buffer keeps it well
  formed and behaves as on a list of capacity four: a full ring refuses the element, an empty
  one returns the null pointer, and elements leave in the order they came.
\<close>

theorem ring_buffer_refines_queue:
  assumes "rb_wf r"
  shows "rb_wf (fst (queue_run rb_enqueue rb_dequeue r ops)) \<and>
    (rb_list (fst (queue_run rb_enqueue rb_dequeue r ops)), snd (queue_run rb_enqueue rb_dequeue r ops)) =
      fifo_run 4 (rb_list r) ops"
  using assms by (rule rb.run_refines)

theorem ring_buffer_refines_queue_witness:
  "snd (queue_run rb_enqueue rb_dequeue
      (rb_init \<lparr>rb_first = 7, rb_next = 9, rb_entries = 2, rb_ring = (\<lambda>_. None)\<rparr>)
      [Enq (1 :: nat), Enq 2, Enq 3, Enq 4, Enq 5, Deq, Enq 6, Deq, Deq, Deq, Deq, Deq]) =
    [Some 1, Some 2, Some 3, Some 4, Some 6, None]"
  using ring_buffer_refines_queue
    [OF rb_init_wf [of "\<lparr>rb_first = 7, rb_next = 9, rb_entries = 2, rb_ring = (\<lambda>_. None)\<rparr>"],
     of "[Enq (1 :: nat), Enq 2, Enq 3, Enq 4, Enq 5, Deq, Enq 6, Deq, Deq, Deq, Deq, Deq]"]
  by simp

end
