(* ===== verification/TcpBase.thy ===== *)
theory TcpBase
  imports IpFrag RingBuf
begin

text \<open>
  The data of TCP (\<^verbatim>\<open>code/TCPINC/TCP.H\<close>) and what manages it: transmit buffers and their pool
  (\<^verbatim>\<open>TcpBuffer\<close> in \<^verbatim>\<open>TCP.CPP\<close>), sockets and their queues, and the socket manager
  (\<^verbatim>\<open>code/TCPLIB/TCPSOCKM.CPP\<close>).  Sockets and buffers are reached through pointers in the
  source; here a socket is an index into \<open>socks\<close> and a buffer a \<open>bref\<close> into \<open>tbuf\<close>, so that
  two queues can hold the same buffer, as they can in the program.
\<close>

unbundle bit_operations_syntax

section \<open>Constants\<close>

definition TCP_MAX_SRTT :: u16 where [cfg_defs]: "TCP_MAX_SRTT = 181"
definition TCP_RETRANS_COUNT :: u8 where [cfg_defs]: "TCP_RETRANS_COUNT = 10"
definition TCP_PA_TIMEOUT :: u32 where [cfg_defs]: "TCP_PA_TIMEOUT = 10000"
definition TCP_PROBE_INTERVAL :: u32 where [cfg_defs]: "TCP_PROBE_INTERVAL = 1000"
definition TCP_CLOSE_TIMEOUT :: u32 where [cfg_defs]: "TCP_CLOSE_TIMEOUT = 15000"
definition TCP_MAX_SOCKETS :: u8 where [cfg_defs]: "TCP_MAX_SOCKETS = 2"
definition TCP_MAX_XMIT_BUFS :: u8 where [cfg_defs]: "TCP_MAX_XMIT_BUFS = 10"

definition TCP_RC_GOOD :: int where [cfg_defs]: "TCP_RC_GOOD = 0"
definition TCP_RC_BAD :: int where [cfg_defs]: "TCP_RC_BAD = -1"
definition TCP_RC_TIMEOUT :: int where [cfg_defs]: "TCP_RC_TIMEOUT = -3"
definition TCP_RC_PORT_IN_USE :: int where [cfg_defs]: "TCP_RC_PORT_IN_USE = -4"
definition TCP_RC_TOO_MUCH_DATA :: int where [cfg_defs]: "TCP_RC_TOO_MUCH_DATA = -5"
definition TCP_RC_RECV_BAD_STATE :: int where [cfg_defs]: "TCP_RC_RECV_BAD_STATE = -6"

section \<open>Socket states\<close>

datatype TcpState =
    TCP_STATE_CLOSED | TCP_STATE_LISTEN | TCP_STATE_SYN_SENT | TCP_STATE_SYN_RECVED
  | TCP_STATE_ESTABLISHED | TCP_STATE_CLOSE_WAIT | TCP_STATE_LAST_ACK | TCP_STATE_FIN_WAIT_1
  | TCP_STATE_FIN_WAIT_2 | TCP_STATE_CLOSING | TCP_STATE_TIME_WAIT | TCP_STATE_SEND_FIN1
  | TCP_STATE_SEND_FIN2 | TCP_STATE_SEND_FIN3

text \<open>The numbers the header gives the states; the source compares states with \<open><\<close>.\<close>

fun state_num :: "TcpState \<Rightarrow> nat" where
  "state_num TCP_STATE_CLOSED = 1" | "state_num TCP_STATE_LISTEN = 2"
| "state_num TCP_STATE_SYN_SENT = 3" | "state_num TCP_STATE_SYN_RECVED = 4"
| "state_num TCP_STATE_ESTABLISHED = 5" | "state_num TCP_STATE_CLOSE_WAIT = 6"
| "state_num TCP_STATE_LAST_ACK = 7" | "state_num TCP_STATE_FIN_WAIT_1 = 8"
| "state_num TCP_STATE_FIN_WAIT_2 = 9" | "state_num TCP_STATE_CLOSING = 10"
| "state_num TCP_STATE_TIME_WAIT = 11" | "state_num TCP_STATE_SEND_FIN1 = 12"
| "state_num TCP_STATE_SEND_FIN2 = 13" | "state_num TCP_STATE_SEND_FIN3 = 14"

lemma state_num_inj: "state_num a = state_num b \<Longrightarrow> a = b"
  by (cases a; cases b; simp)

instantiation TcpState :: linorder
begin

definition less_eq_TcpState :: "TcpState \<Rightarrow> TcpState \<Rightarrow> bool" where
  "less_eq_TcpState a b \<longleftrightarrow> state_num a \<le> state_num b"

definition less_TcpState :: "TcpState \<Rightarrow> TcpState \<Rightarrow> bool" where
  "less_TcpState a b \<longleftrightarrow> state_num a < state_num b"

instance
  by standard (auto simp: less_eq_TcpState_def less_TcpState_def intro: state_num_inj)

end

section \<open>Buffers\<close>

text \<open>
  A buffer is the connect packet of a socket, a buffer of the transmit pool, or the one
  \<^verbatim>\<open>sendPureAck\<close> allocates on its stack.
\<close>

datatype bref = ConnectPacket nat | XmitBuffer nat | StackBuffer

record TcpBuffer =
  b_seqNum :: u32
  b_dataLen :: u16
  b_packetLen :: u16
  b_timeSent :: u32
  b_overdueAt :: u32
  b_attempts :: u8
  b_pendingArp :: u8
  b_rc :: u8
  b_bufferPool :: u8
  b_flags :: u16
  b_eh :: EthHeader
  b_ip :: IpHeader
  b_tcp :: TcpHeader
  b_data :: mem

definition wasAckOnly :: "TcpBuffer \<Rightarrow> bool" where
  "wasAckOnly b \<longleftrightarrow> b_flags b AND 0x01 = 0x01"

definition setWasAckOnly :: "TcpBuffer \<Rightarrow> TcpBuffer" where
  "setWasAckOnly b = b\<lparr>b_flags := b_flags b OR 0x01\<rparr>"

definition isForceAckOnly :: "TcpBuffer \<Rightarrow> bool" where
  "isForceAckOnly b \<longleftrightarrow> b_flags b AND 0x80 = 0x80"

definition setForceAckOnly :: "TcpBuffer \<Rightarrow> TcpBuffer" where
  "setForceAckOnly b = b\<lparr>b_flags := b_flags b OR 0x80\<rparr>"

definition isForceProbe :: "TcpBuffer \<Rightarrow> bool" where
  "isForceProbe b \<longleftrightarrow> b_flags b AND 0x40 = 0x40"

definition setForceProbe :: "TcpBuffer \<Rightarrow> TcpBuffer" where
  "setForceProbe b = b\<lparr>b_flags := b_flags b OR 0x40\<rparr>"

definition zero_eth :: EthHeader where
  "zero_eth = \<lparr>eh_dest = (0, 0, 0), eh_src = (0, 0, 0), eh_type = 0\<rparr>"

definition zero_ip :: IpHeader where
  "zero_ip = \<lparr>ip_versHlen = 0, ip_service_type = 0, ip_total_length = 0, ip_ident = 0, ip_flags = 0,
     ip_ttl = 0, ip_protocol = 0, ip_chksum = 0, ip_src = (0, 0, 0, 0), ip_dest = (0, 0, 0, 0)\<rparr>"

definition zero_tcp :: TcpHeader where
  "zero_tcp = \<lparr>tcp_src = 0, tcp_dst = 0, tcp_seqnum = 0, tcp_acknum = 0, tcp_hlenBits = 0,
     tcp_codeBits = 0, tcp_window = 0, tcp_checksum = 0, tcp_urgent = 0\<rparr>"

definition zero_buffer :: TcpBuffer where
  "zero_buffer = \<lparr>b_seqNum = 0, b_dataLen = 0, b_packetLen = 0, b_timeSent = 0, b_overdueAt = 0,
     b_attempts = 0, b_pendingArp = 0, b_rc = 0, b_bufferPool = 0, b_flags = 0, b_eh = zero_eth,
     b_ip = zero_ip, b_tcp = zero_tcp, b_data = (\<lambda>_. 0)\<rparr>"

section \<open>Sockets\<close>

record TcpSocket =
  srcPort :: u16
  dstHost :: IpAddr
  dstPort :: u16
  seqNum :: u32
  ackNum :: u32
  oldestUnackedSeq :: u32
  lastActivity :: u32
  lastAckRcvd :: u32
  closeStarted :: u32
  state :: TcpState
  disableReads :: bool
  pendingAccept :: bool
  closeReason :: u8
  remoteMSS :: u16
  maxEnqueueSize :: u16
  remoteWindow :: u16
  outgoing :: "bref RingBuffer"
  sent :: "bref RingBuffer"
  incoming :: "bufref RingBuffer"
  rcvBuffer :: "nat option"
  rcvBufFirst :: u16
  rcvBufLast :: u16
  rcvBufEntries :: u16
  rcvBufSize :: u16
  cachedMacAddr :: EthAddr
  SRTT :: u16
  RTT_deviation :: u16
  consecutiveGoodPackets :: u8
  consecutiveSeqErrs :: u8
  reportSmallWindow :: bool

record tcp_state = ip_state +
  socks :: "nat \<Rightarrow> TcpSocket"
  tbuf :: "bref \<Rightarrow> TcpBuffer"
  xmitBuffers :: "nat \<Rightarrow> bref"
  freeXmitBuffers :: u8
  allocatedXmitBuffers :: u8
  xmitBuffersMemPtr :: "nat option"
  socketTable :: "nat \<Rightarrow> nat"
  availSocketTable :: "nat \<Rightarrow> nat"
  socketsMemPtr :: "nat option"
  activeSockets :: u8
  availSockets :: u8
  allocatedSockets :: u8
  pendingAccepts :: u8
  MSS_to_advertise :: u16
  Tcp_Packets_Sent :: u32
  Tcp_Packets_Received :: u32
  Packets_Retransmitted :: u32
  Packets_SeqOrAckError :: u32
  Packets_DroppedNoSpace :: u32
  Tcp_ChecksumErrors :: u32
  OurWindowReopened :: u32
  SentZeroWindowProbe :: u32
  Pending_Sent :: u16
  Pending_Outgoing :: u16

text \<open>Writing through a socket pointer and through a buffer pointer.\<close>

definition upd_sock :: "nat \<Rightarrow> (TcpSocket \<Rightarrow> TcpSocket) \<Rightarrow> 'a tcp_state_scheme \<Rightarrow> 'a tcp_state_scheme" where
  "upd_sock i f s = s\<lparr>socks := (socks s)(i := f (socks s i))\<rparr>"

definition upd_buf :: "bref \<Rightarrow> (TcpBuffer \<Rightarrow> TcpBuffer) \<Rightarrow> 'a tcp_state_scheme \<Rightarrow> 'a tcp_state_scheme" where
  "upd_buf b f s = s\<lparr>tbuf := (tbuf s)(b := f (tbuf s b))\<rparr>"

section \<open>The transmit buffer pool\<close>

text \<open>\<^verbatim>\<open>MK_FP\<close> normalises the address; it still points to the \<open>i\<close>-th buffer of the block.\<close>

definition TcpBuffer_init :: "u8 \<Rightarrow> 'a tcp_state_scheme \<Rightarrow> 'a tcp_state_scheme \<times> int" where
  "TcpBuffer_init xmitBufs_p s =
     (let s = s\<lparr>allocatedXmitBuffers := 0, freeXmitBuffers := 0\<rparr>
      in if TCP_MAX_XMIT_BUFS < xmitBufs_p then (s, TCP_RC_BAD)
         else (case malloc s of
             (s, None) \<Rightarrow> (s, TCP_RC_BAD)
           | (s, Some tmp) \<Rightarrow>
               (let n = unat xmitBufs_p
                in (s\<lparr>xmitBuffersMemPtr := Some tmp,
                      freeXmitBuffers := xmitBufs_p, allocatedXmitBuffers := xmitBufs_p,
                      xmitBuffers := (\<lambda>i. if i < n then XmitBuffer i else xmitBuffers s i),
                      tbuf := (\<lambda>b. case b of
                          XmitBuffer i \<Rightarrow> if i < n then (tbuf s b)\<lparr>b_bufferPool := 1\<rparr> else tbuf s b
                        | _ \<Rightarrow> tbuf s b)\<rparr>, TCP_RC_GOOD))))"

definition TcpBuffer_stop :: "'a tcp_state_scheme \<Rightarrow> 'a tcp_state_scheme" where
  "TcpBuffer_stop s = (case xmitBuffersMemPtr s of None \<Rightarrow> s | Some p \<Rightarrow> free p s)"

definition getXmitBuf :: "'a tcp_state_scheme \<Rightarrow> 'a tcp_state_scheme \<times> bref option" where
  "getXmitBuf s =
     (if freeXmitBuffers s \<noteq> 0
      then (s\<lparr>freeXmitBuffers := freeXmitBuffers s - 1\<rparr>,
            Some (xmitBuffers s (unat (freeXmitBuffers s - 1))))
      else (s, None))"

definition returnXmitBuf :: "bref \<Rightarrow> 'a tcp_state_scheme \<Rightarrow> 'a tcp_state_scheme" where
  "returnXmitBuf b s =
     (if b_bufferPool (tbuf s b) \<noteq> 0
      then s\<lparr>xmitBuffers := (xmitBuffers s)(unat (freeXmitBuffers s) := b),
             freeXmitBuffers := freeXmitBuffers s + 1\<rparr>
      else s)"

section \<open>Creating a socket\<close>

definition empty_ring :: "'b RingBuffer" where
  "empty_ring = \<lparr>rb_first = 0, rb_next = 0, rb_entries = 0, rb_ring = (\<lambda>_. None)\<rparr>"

text \<open>The socket \<^verbatim>\<open>memset\<close> leaves; state 0 has no name and is overwritten at once.\<close>

definition zero_socket :: TcpSocket where
  "zero_socket = \<lparr>srcPort = 0, dstHost = (0, 0, 0, 0), dstPort = 0, seqNum = 0, ackNum = 0,
     oldestUnackedSeq = 0, lastActivity = 0, lastAckRcvd = 0, closeStarted = 0,
     state = TCP_STATE_CLOSED, disableReads = False, pendingAccept = False, closeReason = 0,
     remoteMSS = 0, maxEnqueueSize = 0, remoteWindow = 0, outgoing = empty_ring, sent = empty_ring,
     incoming = empty_ring, rcvBuffer = None, rcvBufFirst = 0, rcvBufLast = 0, rcvBufEntries = 0,
     rcvBufSize = 0, cachedMacAddr = (0, 0, 0), SRTT = 0, RTT_deviation = 0,
     consecutiveGoodPackets = 0, consecutiveSeqErrs = 0, reportSmallWindow = False\<rparr>"

definition zero_tcp_state :: tcp_state where
  "zero_tcp_state = ip_state.extend zero_ip_state (tcp_state.fields
     (\<lambda>_. zero_socket) (\<lambda>_. zero_buffer) (\<lambda>_. ConnectPacket 0) 0 0 None (\<lambda>_. 0) (\<lambda>_. 0) None
     0 0 0 0 0 0 0 0 0 0 0 0 0 0 0)"

text \<open>The records behind the state before initialisation, for evaluation.\<close>

lemmas zero_state = zero_tcp_state_def zero_ip_state_def zero_ipsend_def zero_arp_def zero_net_def
  net.defs arp_state.defs ipsend_state.defs ip_state.defs tcp_state.defs

definition reinit :: "nat \<Rightarrow> 'a tcp_state_scheme \<Rightarrow> 'a tcp_state_scheme" where
  "reinit this s =
     (let s = upd_buf (ConnectPacket this) (\<lambda>_. zero_buffer) s;
          (s, hi) = c_rand s;
          (s, lo) = c_rand s;
          big = (ucast hi :: u32) OR push_bit 16 (ucast lo)
      in upd_sock this (\<lambda>_. zero_socket\<lparr>oldestUnackedSeq := big, seqNum := big, ackNum := 0,
           state := TCP_STATE_CLOSED, lastActivity := Timer_CurrentTicks s,
           lastAckRcvd := Timer_CurrentTicks s, cachedMacAddr := Eth_Broadcast,
           SRTT := TCP_MAX_SRTT\<rparr>) s)"

definition setRecvBuffer :: "nat \<Rightarrow> u16 \<Rightarrow> 'a tcp_state_scheme \<Rightarrow> 'a tcp_state_scheme \<times> int" where
  "setRecvBuffer this recvBufferSize_p s =
     (if recvBufferSize_p = 0 then (s, TCP_RC_GOOD)
      else if recvBufferSize_p < 512 \<or> 16384 < recvBufferSize_p then (s, TCP_RC_BAD)
      else (case malloc (upd_sock this (\<lambda>k. k\<lparr>rcvBufSize := recvBufferSize_p\<rparr>) s) of
          (s, None) \<Rightarrow>
            (upd_sock this (\<lambda>k. k\<lparr>rcvBuffer := None, rcvBufSize := 0\<rparr>) s, TCP_RC_BAD)
        | (s, Some p) \<Rightarrow> (upd_sock this (\<lambda>k. k\<lparr>rcvBuffer := Some p\<rparr>) s, TCP_RC_GOOD)))"

section \<open>The socket manager\<close>

definition TcpSocketMgr_init :: "u8 \<Rightarrow> 'a tcp_state_scheme \<Rightarrow> 'a tcp_state_scheme \<times> int" where
  "TcpSocketMgr_init maxSockets s =
     (if maxSockets = 0 \<or> TCP_MAX_SOCKETS < maxSockets then (s, TCP_RC_BAD)
      else (case malloc s of
          (s, None) \<Rightarrow> (s\<lparr>allocatedSockets := 0\<rparr>, TCP_RC_BAD)
        | (s, Some _) \<Rightarrow>
            (s\<lparr>allocatedSockets := maxSockets,
               availSocketTable := (\<lambda>i. if i < unat maxSockets then i else availSocketTable s i),
               availSockets := maxSockets, activeSockets := 0, pendingAccepts := 0,
               MSS_to_advertise := MyMTU s - 40\<rparr>, TCP_RC_GOOD)))"

definition TcpSocketMgr_stop :: "'a tcp_state_scheme \<Rightarrow> 'a tcp_state_scheme" where
  "TcpSocketMgr_stop s = (case socketsMemPtr s of None \<Rightarrow> s | Some p \<Rightarrow> free p s)"

definition getSocket :: "'a tcp_state_scheme \<Rightarrow> 'a tcp_state_scheme \<times> nat option" where
  "getSocket s =
     (if availSockets s = 0 then (s, None)
      else (let s = s\<lparr>availSockets := availSockets s - 1\<rparr>;
                rc = availSocketTable s (unat (availSockets s))
            in (reinit rc s, Some rc)))"

definition freeSocket :: "nat \<Rightarrow> 'a tcp_state_scheme \<Rightarrow> 'a tcp_state_scheme \<times> int" where
  "freeSocket target s =
     (if availSockets s = allocatedSockets s then (s, TCP_RC_BAD)
      else (s\<lparr>availSocketTable := (availSocketTable s)(unat (availSockets s) := target),
              availSockets := availSockets s + 1\<rparr>, TCP_RC_GOOD))"

definition find_active :: "nat \<Rightarrow> 'a tcp_state_scheme \<Rightarrow> nat option" where
  "find_active target s = find (\<lambda>i. socketTable s i = target) [0..<unat (activeSockets s)]"

definition makeActive :: "nat \<Rightarrow> 'a tcp_state_scheme \<Rightarrow> 'a tcp_state_scheme" where
  "makeActive target s =
     (case find_active target s of
        None \<Rightarrow> s\<lparr>socketTable := (socketTable s)(unat (activeSockets s) := target),
                  activeSockets := activeSockets s + 1\<rparr>
      | Some _ \<Rightarrow> s)"

text \<open>\<^verbatim>\<open>for ( j=i; j < activeSockets; j++ ) socketTable[j] = socketTable[j+1]\<close>\<close>

definition slide_down :: "nat \<Rightarrow> nat \<Rightarrow> (nat \<Rightarrow> 'b) \<Rightarrow> nat \<Rightarrow> 'b" where
  "slide_down i n a = foldl (\<lambda>a j. a(j := a (Suc j))) a [i..<n]"

definition makeInactive :: "nat \<Rightarrow> 'a tcp_state_scheme \<Rightarrow> 'a tcp_state_scheme" where
  "makeInactive target s =
     (case find_active target s of
        None \<Rightarrow> s
      | Some i \<Rightarrow>
          (let n = activeSockets s - 1
           in s\<lparr>activeSockets := n, socketTable := slide_down i (unat n) (socketTable s)\<rparr>))"

end
