(* ===== verification/TcpSend.thy ===== *)
theory TcpSend
  imports TcpBase
begin

text \<open>
  The sending side of a socket, \<^verbatim>\<open>code/TCPLIB/TCP.CPP\<close>: reading the peer's segment size,
  enqueueing a buffer, building and sending a segment, the reset and the pure ACK that are
  sent outside the queues, and \<^verbatim>\<open>send\<close>, which cuts user data into segments.
\<close>

unbundle bit_operations_syntax

section \<open>The maximum segment size option\<close>

text \<open>
  The scan of the options.  It ends at the user data, at an end-of-list option or not at all:
  \<open>None\<close> is a scan that does not return.
\<close>

partial_function (option) readMSS_loop :: "mem \<Rightarrow> nat \<Rightarrow> nat \<Rightarrow> u16 \<Rightarrow> u16 option" where
  [code]: "readMSS_loop m opt userData rc =
     (if opt = userData then Some rc
      else if m opt = 0 then Some rc
      else if m opt = 1 then readMSS_loop m (opt + 1) userData rc
      else if m opt = 2 then
        readMSS_loop m (opt + 4) userData (push_bit 8 (ucast (m (opt + 2))) + ucast (m (opt + 3)))
      else readMSS_loop m (opt + unat (m (opt + 1))) userData rc)"

definition readMSS :: "mem \<Rightarrow> nat \<Rightarrow> u16 option" where
  "readMSS m tcp =
     (let hlen = getTcpHlen (read_TcpHeader m tcp)
      in if hlen \<noteq> 20 then readMSS_loop m (tcp + 20) (tcp + unat hlen) 536 else Some 536)"

definition setMaxEnqueueSize :: "nat \<Rightarrow> mem \<Rightarrow> nat \<Rightarrow> 'a tcp_state_scheme \<Rightarrow> 'a tcp_state_scheme option" where
  "setMaxEnqueueSize this m tcp s =
     (case readMSS m tcp of
        None \<Rightarrow> None
      | Some mss \<Rightarrow> Some (upd_sock this (\<lambda>k. k\<lparr>remoteMSS := mss,
          maxEnqueueSize := (if MSS_to_advertise s < mss then MSS_to_advertise s else mss)\<rparr>) s))"

section \<open>Enqueueing a buffer\<close>

definition enqueue_refused :: "nat \<Rightarrow> bref \<Rightarrow> TcpSocket \<Rightarrow> bool" where
  "enqueue_refused this buf k \<longleftrightarrow>
     state k = TCP_STATE_CLOSED \<or> state k = TCP_STATE_LISTEN \<or> state k = TCP_STATE_CLOSING \<or>
     state k = TCP_STATE_TIME_WAIT \<and> buf \<noteq> ConnectPacket this"

text \<open>\<^verbatim>\<open>TCP_OPT_ENQUEUED_ACKS\<close>: a lone empty packet gives way to the new one.\<close>

definition drop_queued_ack :: "nat \<Rightarrow> 'a tcp_state_scheme \<Rightarrow> 'a tcp_state_scheme" where
  "drop_queued_ack this s =
     (let k = socks s this
      in if rb_entries (outgoing k) = 1 \<and> state k = TCP_STATE_ESTABLISHED then
           (case rb_peek (outgoing k) of
              Some first \<Rightarrow>
                (if b_dataLen (tbuf s first) = 0
                 then returnXmitBuf first
                        (upd_sock this (\<lambda>k. k\<lparr>outgoing := fst (rb_dequeue (outgoing k))\<rparr>) s)
                 else s)
            | None \<Rightarrow> s)
         else s)"

definition reset_accounting :: "TcpBuffer \<Rightarrow> TcpBuffer" where
  "reset_accounting b = b\<lparr>b_timeSent := 0, b_attempts := 0, b_pendingArp := 0, b_flags := 0, b_rc := 0\<rparr>"

definition enqueue :: "nat \<Rightarrow> bref \<Rightarrow> 'a tcp_state_scheme \<Rightarrow> 'a tcp_state_scheme \<times> int" where
  "enqueue this buf s =
     (if enqueue_refused this buf (socks s this) then (s, TCP_RC_BAD)
      else if maxEnqueueSize (socks s this) < b_dataLen (tbuf s buf) then (s, TCP_RC_TOO_MUCH_DATA)
      else
        (let s = drop_queued_ack this s;
             s = upd_sock this (\<lambda>k. k\<lparr>lastActivity := Timer_CurrentTicks s\<rparr>) s;
             s = upd_buf buf reset_accounting s;
             (r, rc) = rb_enqueue buf (outgoing (socks s this));
             s = upd_sock this (\<lambda>k. k\<lparr>outgoing := r\<rparr>) s;
             s = (if rc = 0 then s\<lparr>Pending_Outgoing := Pending_Outgoing s + 1\<rparr> else s)
         in (s, rc)))"

section \<open>Sending a segment\<close>

definition tcp_frame :: "TcpBuffer \<Rightarrow> frame" where
  "tcp_frame b = TcpFrame (b_eh b) (b_ip b) (b_tcp b) (rdbytes (b_data b) 0 (unat (b_packetLen b) - 54))"

text \<open>The memory from the TCP header on: the header, then the data area of the buffer.\<close>

definition tcp_image :: "TcpHeader \<Rightarrow> mem \<Rightarrow> mem" where
  "tcp_image h d = (\<lambda>i. if i < 20 then tcp_bytes h ! i else d (i - 20))"

definition resendPacket :: "nat \<Rightarrow> bref \<Rightarrow> 'a tcp_state_scheme \<Rightarrow> 'a tcp_state_scheme" where
  "resendPacket this buf s =
     (let b = tbuf s buf;
          tcpLen = b_dataLen b + ucast (getTcpHlen (b_tcp b));
          (s, ip) = IpHeader_set IP_PROTOCOL_TCP (ip_dest (b_ip b)) tcpLen 0 0 (b_ip b) s;
          s = upd_buf buf (\<lambda>b. b\<lparr>b_ip := ip\<rparr>) s;
          s = Packet_send_pkt (tcp_frame (tbuf s buf)) (b_packetLen b) s
      in upd_buf buf (\<lambda>b. b\<lparr>b_attempts := b_attempts b + 1\<rparr>) s)"

text \<open>A packet that was built before and waits for address resolution.\<close>

definition sp_retry_arp :: "nat \<Rightarrow> bref \<Rightarrow> 'a tcp_state_scheme \<Rightarrow> 'a tcp_state_scheme \<times> int" where
  "sp_retry_arp this buf s =
     (case setDestEth (ip_dest (b_ip (tbuf s buf))) s of
        (s, Some a) \<Rightarrow>
          (let s = upd_buf buf (\<lambda>b. b\<lparr>b_pendingArp := 0, b_eh := (b_eh b)\<lparr>eh_dest := a\<rparr>\<rparr>) s;
               s = upd_sock this (\<lambda>k. k\<lparr>cachedMacAddr := a\<rparr>) s
           in (Packet_send_pkt (tcp_frame (tbuf s buf)) (b_packetLen (tbuf s buf)) s, 0))
      | (s, None) \<Rightarrow> (upd_buf buf (\<lambda>b. b\<lparr>b_pendingArp := 1\<rparr>) s, 1))"

definition sp_header :: "nat \<Rightarrow> bref \<Rightarrow> 'a tcp_state_scheme \<Rightarrow> 'a tcp_state_scheme" where
  "sp_header this buf s =
     (let k = socks s this; b = tbuf s buf;
          newSeq = seqNum k + ucast (b_dataLen b);
          seq = (if isForceProbe b then newSeq - 1 else seqNum k);
          h = (b_tcp b)\<lparr>tcp_src := htons (srcPort k), tcp_dst := htons (dstPort k), tcp_seqnum := htonl seq\<rparr>;
          h = setCodeBits TCP_CODEBITS_ACK (setTcpHlen 20 h);
          s = s\<lparr>Tcp_Packets_Sent := Tcp_Packets_Sent s + 1\<rparr>;
          s = upd_sock this (\<lambda>k. k\<lparr>seqNum := newSeq\<rparr>) s
      in upd_buf buf (\<lambda>b. b\<lparr>b_packetLen := 54 + b_dataLen b, b_tcp := h\<rparr>) s)"

text \<open>The SYN and its MSS option, which is written to the data area.\<close>

definition syn_mss :: "TcpSocket \<Rightarrow> u16 \<Rightarrow> u16" where
  "syn_mss k mss = (if rcvBufSize k \<noteq> 0 \<and> rcvBufSize k < mss then rcvBufSize k else mss)"

definition sp_syn :: "nat \<Rightarrow> bref \<Rightarrow> 'a tcp_state_scheme \<Rightarrow> 'a tcp_state_scheme" where
  "sp_syn this buf s =
     (let k = socks s this;
          mss = syn_mss k (MSS_to_advertise s);
          opt = [2, 4, ucast (drop_bit 8 mss), ucast (mss AND 0xff)];
          bits = (if state k = TCP_STATE_SYN_SENT then TCP_CODEBITS_SYN
                  else TCP_CODEBITS_SYN OR TCP_CODEBITS_ACK);
          s = upd_sock this (\<lambda>k. k\<lparr>seqNum := seqNum k + 1\<rparr>) s
      in upd_buf buf (\<lambda>b. b\<lparr>
           b_tcp := setTcpHlen 24 (setCodeBits bits
              (if state k = TCP_STATE_SYN_SENT then (b_tcp b)\<lparr>tcp_acknum := 0\<rparr> else b_tcp b)),
           b_data := memcpy (b_data b) 0 opt,
           b_packetLen := b_packetLen b + 4\<rparr>) s)"

definition sp_fin :: "nat \<Rightarrow> bref \<Rightarrow> 'a tcp_state_scheme \<Rightarrow> 'a tcp_state_scheme" where
  "sp_fin this buf s =
     (let k = socks s this
      in if \<not> isForceAckOnly (tbuf s buf) \<and> rb_entries (outgoing k) = 1 then
           (let s = upd_buf buf (\<lambda>b. b\<lparr>b_tcp := addCodeBits TCP_CODEBITS_FIN (b_tcp b)\<rparr>) s
            in upd_sock this (\<lambda>k. k\<lparr>seqNum := seqNum k + 1,
                 state := (if state k = TCP_STATE_SEND_FIN2 then TCP_STATE_LAST_ACK
                           else TCP_STATE_FIN_WAIT_1)\<rparr>) s)
         else s)"

definition sp_codebits :: "nat \<Rightarrow> bref \<Rightarrow> 'a tcp_state_scheme \<Rightarrow> 'a tcp_state_scheme" where
  "sp_codebits this buf s =
     (case state (socks s this) of
        TCP_STATE_ESTABLISHED \<Rightarrow>
          (if b_dataLen (tbuf s buf) \<noteq> 0
           then upd_buf buf (\<lambda>b. b\<lparr>b_tcp := addCodeBits TCP_CODEBITS_PSH (b_tcp b)\<rparr>) s else s)
      | TCP_STATE_SYN_RECVED \<Rightarrow> sp_syn this buf s
      | TCP_STATE_SYN_SENT \<Rightarrow> sp_syn this buf s
      | TCP_STATE_SEND_FIN1 \<Rightarrow> sp_fin this buf s
      | TCP_STATE_SEND_FIN2 \<Rightarrow> sp_fin this buf s
      | TCP_STATE_SEND_FIN3 \<Rightarrow> sp_fin this buf s
      | _ \<Rightarrow> s)"

definition sp_acknum :: "nat \<Rightarrow> bref \<Rightarrow> 'a tcp_state_scheme \<Rightarrow> 'a tcp_state_scheme" where
  "sp_acknum this buf s =
     (let k = socks s this
      in upd_buf buf (\<lambda>b. let b = b\<lparr>b_seqNum := seqNum k - 1,
                                     b_tcp := (b_tcp b)\<lparr>tcp_acknum := htonl (ackNum k)\<rparr>\<rparr>
           in if b_dataLen b = 0 \<and> getCodeBits (b_tcp b) = TCP_CODEBITS_ACK then setWasAckOnly b else b) s)"

text \<open>The window advertised: what is free of the receive buffer, or four segments.\<close>

definition adv_window :: "TcpSocket \<Rightarrow> u16 \<Rightarrow> u16" where
  "adv_window k mss =
     (let win = (if rcvBufSize k \<noteq> 0 then rcvBufSize k - rcvBufEntries k else push_bit 2 mss)
      in if reportSmallWindow k then
           (let w = drop_bit 1 win in if mss < w then mss else w)
         else win)"

definition sp_window :: "nat \<Rightarrow> bref \<Rightarrow> 'a tcp_state_scheme \<Rightarrow> 'a tcp_state_scheme" where
  "sp_window this buf s =
     (let winSize = adv_window (socks s this) (MSS_to_advertise s);
          len = b_dataLen (tbuf s buf);
          s = upd_sock this (\<lambda>k. k\<lparr>remoteWindow :=
                (if len \<le> remoteWindow k then remoteWindow k - len else 0)\<rparr>) s
      in upd_buf buf (\<lambda>b. b\<lparr>b_tcp := (b_tcp b)\<lparr>tcp_window := htons winSize, tcp_checksum := 0,
           tcp_urgent := 0\<rparr>\<rparr>) s)"

definition sp_lower :: "nat \<Rightarrow> bref \<Rightarrow> 'a tcp_state_scheme \<Rightarrow> 'a tcp_state_scheme" where
  "sp_lower this buf s =
     (let b = tbuf s buf; k = socks s this;
          tcpLen = b_dataLen b + ucast (getTcpHlen (b_tcp b));
          c = ip_p_chksum (MyIpAddr s) (dstHost k) (tcp_image (b_tcp b) (b_data b)) 0 IP_PROTOCOL_TCP tcpLen;
          (s, ip) = IpHeader_set IP_PROTOCOL_TCP (dstHost k) tcpLen 0 0 (b_ip b) s
      in upd_buf buf (\<lambda>b. b\<lparr>b_tcp := (b_tcp b)\<lparr>tcp_checksum := c\<rparr>, b_ip := ip,
           b_eh := eh_setType 0x0800 (eh_setSrc (MyEthAddr s) (b_eh b))\<rparr>) s)"

definition sp_transmit :: "nat \<Rightarrow> bref \<Rightarrow> 'a tcp_state_scheme \<Rightarrow> 'a tcp_state_scheme \<times> int" where
  "sp_transmit this buf s =
     (let mac = cachedMacAddr (socks s this);
          s = (if \<not> eth_isSame mac Eth_Broadcast
               then upd_buf buf (\<lambda>b. b\<lparr>b_eh := (b_eh b)\<lparr>eh_dest := mac\<rparr>\<rparr>) s
               else (case setDestEth (ip_dest (b_ip (tbuf s buf))) s of
                   (s, Some a) \<Rightarrow> upd_buf buf (\<lambda>b. b\<lparr>b_pendingArp := 0, b_eh := (b_eh b)\<lparr>eh_dest := a\<rparr>\<rparr>) s
                 | (s, None) \<Rightarrow> upd_buf buf (\<lambda>b. b\<lparr>b_pendingArp := 1\<rparr>) s))
      in if b_pendingArp (tbuf s buf) = 0
         then (Packet_send_pkt (tcp_frame (tbuf s buf)) (b_packetLen (tbuf s buf)) s, 0)
         else (s, int (unat (b_pendingArp (tbuf s buf)))))"

definition sendPacket :: "nat \<Rightarrow> bref \<Rightarrow> 'a tcp_state_scheme \<Rightarrow> 'a tcp_state_scheme \<times> int" where
  "sendPacket this buf s =
     (if b_pendingArp (tbuf s buf) \<noteq> 0 then sp_retry_arp this buf s
      else sp_transmit this buf (sp_lower this buf (sp_window this buf (sp_acknum this buf
             (sp_codebits this buf (sp_header this buf s))))))"

section \<open>Segments outside the queues\<close>

definition reset_header :: "TcpHeader \<Rightarrow> u16 \<Rightarrow> TcpHeader \<Rightarrow> TcpHeader" where
  "reset_header tcp incomingDataLen rp =
     (let bits = getCodeBits tcp;
          seqn = (if bits AND TCP_CODEBITS_ACK \<noteq> 0 then ntohl (tcp_acknum tcp) else 0);
          ackn = ntohl (tcp_seqnum tcp) + ucast incomingDataLen;
          ackn = (if bits AND TCP_CODEBITS_SYN \<noteq> 0 then ackn + 1 else ackn)
      in setCodeBits (TCP_CODEBITS_RST OR TCP_CODEBITS_ACK) (setTcpHlen 20
           (rp\<lparr>tcp_src := tcp_dst tcp, tcp_dst := tcp_src tcp, tcp_seqnum := htonl seqn,
               tcp_acknum := htonl ackn, tcp_window := 0, tcp_checksum := 0, tcp_urgent := 0\<rparr>)))"

text \<open>The packet is a local variable: its fields not assigned are those of \<open>zero_ip\<close> and \<open>zero_eth\<close>.\<close>

definition sendResetPacket :: "IpHeader \<Rightarrow> TcpHeader \<Rightarrow> u16 \<Rightarrow> 'a tcp_state_scheme \<Rightarrow> 'a tcp_state_scheme" where
  "sendResetPacket ip tcp incomingDataLen s =
     (if getCodeBits tcp AND TCP_CODEBITS_RST \<noteq> 0 then s
      else
        (let rp = reset_header tcp incomingDataLen zero_tcp;
             s = s\<lparr>Tcp_Packets_Sent := Tcp_Packets_Sent s + 1\<rparr>;
             rp = rp\<lparr>tcp_checksum := ip_p_chksum (MyIpAddr s) (ip_src ip) (tcp_image rp (\<lambda>_. 0)) 0
                       IP_PROTOCOL_TCP 20\<rparr>;
             (s, rip) = IpHeader_set IP_PROTOCOL_TCP (ip_src ip) 20 0 0 zero_ip s;
             eh = eh_setType 0x0800 (eh_setSrc (MyEthAddr s) zero_eth)
         in case setDestEth (ip_dest rip) s of
              (s, Some a) \<Rightarrow> Packet_send_pkt (TcpFrame (eh\<lparr>eh_dest := a\<rparr>) rip rp []) 54 s
            | (s, None) \<Rightarrow> s))"

definition sendPureAck :: "nat \<Rightarrow> bool \<Rightarrow> 'a tcp_state_scheme \<Rightarrow> 'a tcp_state_scheme" where
  "sendPureAck this forceProbe s =
     (if state (socks s this) \<noteq> TCP_STATE_ESTABLISHED then s
      else
        (let s = upd_buf StackBuffer (\<lambda>b. setForceAckOnly (reset_accounting b)) s;
             s = (if forceProbe
                  then (upd_buf StackBuffer setForceProbe s)
                         \<lparr>SentZeroWindowProbe := SentZeroWindowProbe s + 1\<rparr>
                  else s);
             s = upd_buf StackBuffer (\<lambda>b. b\<lparr>b_dataLen := 0\<rparr>) s
         in fst (sendPacket this StackBuffer s)))"

section \<open>User data\<close>

definition getSuggestedSendSize :: "TcpSocket \<Rightarrow> u16" where
  "getSuggestedSendSize k =
     (if maxEnqueueSize k < remoteWindow k then maxEnqueueSize k else remoteWindow k)"

definition send_step :: "nat \<Rightarrow> mem \<Rightarrow> u16 \<Rightarrow> u16 \<Rightarrow> bref \<Rightarrow> 'a tcp_state_scheme \<Rightarrow> 'a tcp_state_scheme \<times> u16" where
  "send_step this userBuf userBufLen bytesSent tmp s =
     (let sz = getSuggestedSendSize (socks s this);
          cpyLen = (if userBufLen - bytesSent < sz then userBufLen - bytesSent else sz);
          s = upd_buf tmp (\<lambda>b. b\<lparr>
                b_data := memcpy (b_data b) 0 (rdbytes userBuf (unat bytesSent) (unat cpyLen)),
                b_dataLen := cpyLen\<rparr>) s
      in (fst (enqueue this tmp s), bytesSent + cpyLen))"

partial_function (option) send_loop ::
    "nat \<Rightarrow> mem \<Rightarrow> u16 \<Rightarrow> u16 \<Rightarrow> 'a tcp_state_scheme \<Rightarrow> ('a tcp_state_scheme \<times> u16) option" where
  [code]: "send_loop this userBuf userBufLen bytesSent s =
     (if bytesSent < userBufLen \<and> rb_hasRoom (outgoing (socks s this)) then
        (case snd (getXmitBuf s) of
           None \<Rightarrow> Some (s, bytesSent)
         | Some tmp \<Rightarrow>
             send_loop this userBuf userBufLen
               (snd (send_step this userBuf userBufLen bytesSent tmp (fst (getXmitBuf s))))
               (fst (send_step this userBuf userBufLen bytesSent tmp (fst (getXmitBuf s)))))
      else Some (s, bytesSent))"

text \<open>\<open>None\<close> is a call that does not return.\<close>

definition send :: "nat \<Rightarrow> mem \<Rightarrow> u16 \<Rightarrow> 'a tcp_state_scheme \<Rightarrow> ('a tcp_state_scheme \<times> int) option" where
  "send this userBuf userBufLen s =
     (if state (socks s this) \<noteq> TCP_STATE_ESTABLISHED then Some (s, TCP_RC_BAD)
      else if remoteWindow (socks s this) = 0 then Some (s, 0)
      else map_option (\<lambda>(s, n). (s, sint n)) (send_loop this userBuf userBufLen 0 s))"

section \<open>What sending leaves alone\<close>

text \<open>
  \<open>quiet\<close> erases what a transmission may change outside the receive side: the driver and its
  statistics, the ARP requests, the IP identification, the sockets and the buffers.  Two states
  with the same \<open>quiet\<close> agree on everything else.
\<close>

definition quiet :: "'a tcp_state_scheme \<Rightarrow> 'a tcp_state_scheme" where
  "quiet s = s\<lparr>drv_calls := 0, wire := [], Packets_sent := 0, Packets_send_errs := 0,
     pending := (\<lambda>_. \<lparr>p_target = IpInvalid, p_start = 0, p_attempts = 0\<rparr>), pendingEntries := 0,
     Arp_RequestsSent := 0, IpIdent := 0, Tcp_Packets_Sent := 0, SentZeroWindowProbe := 0,
     socks := (\<lambda>_. zero_socket), tbuf := (\<lambda>_. zero_buffer)\<rparr>"

lemma quiet_simps [simp]:
  "quiet (Packet_send_pkt f l s) = quiet s" "quiet (upd_sock i g s) = quiet s"
  "quiet (upd_buf b h s) = quiet s" "quiet (fst (setDestEth ip s)) = quiet s"
  "quiet (s\<lparr>IpIdent := x\<rparr>) = quiet s" "quiet (s\<lparr>Tcp_Packets_Sent := y\<rparr>) = quiet s"
  "quiet (s\<lparr>SentZeroWindowProbe := z\<rparr>) = quiet s"
  by (subst Packet_send_pkt_shape, simp add: quiet_def)
    (simp_all add: quiet_def upd_sock_def upd_buf_def, subst setDestEth_shape, simp)

lemma quiet_sp_header [simp]: "quiet (sp_header i b s) = quiet s"
  by (simp add: sp_header_def Let_def)

lemma quiet_sp_codebits [simp]: "quiet (sp_codebits i b s) = quiet s"
  by (simp add: sp_codebits_def sp_syn_def sp_fin_def Let_def split: TcpState.split)

lemma quiet_sp_acknum [simp]: "quiet (sp_acknum i b s) = quiet s"
  by (simp add: sp_acknum_def Let_def)

lemma quiet_sp_window [simp]: "quiet (sp_window i b s) = quiet s"
  by (simp add: sp_window_def Let_def)

lemma quiet_sp_lower [simp]: "quiet (sp_lower i b s) = quiet s"
  by (simp add: sp_lower_def Let_def split_beta)

lemma quiet_sp_transmit [simp]: "quiet (fst (sp_transmit i b s)) = quiet s"
  using quiet_simps(4) [of "ip_dest (b_ip (tbuf s b))" s]
  by (auto simp: sp_transmit_def Let_def split: prod.split option.split simp del: quiet_simps(4))

lemma quiet_sp_retry_arp [simp]: "quiet (fst (sp_retry_arp i b s)) = quiet s"
  using quiet_simps(4) [of "ip_dest (b_ip (tbuf s b))" s]
  by (auto simp: sp_retry_arp_def Let_def split: prod.split option.split simp del: quiet_simps(4))

lemma quiet_sendPacket [simp]: "quiet (fst (sendPacket i b s)) = quiet s"
  by (simp add: sendPacket_def)

lemma quiet_sendPureAck [simp]: "quiet (sendPureAck i p s) = quiet s"
  by (simp add: sendPureAck_def Let_def)

lemma quiet_resendPacket [simp]: "quiet (resendPacket i b s) = quiet s"
  by (simp add: resendPacket_def Let_def split_beta)

lemma quiet_sendResetPacket [simp]: "quiet (sendResetPacket ip tcp n s) = quiet s"
proof -
  have *: "quiet t = quiet (fst (setDestEth d t))" for d and t :: "'b tcp_state_scheme" by simp
  show ?thesis
    by (auto simp: sendResetPacket_def Let_def split_beta split: option.split)
qed

lemma quiet_sel:
  "Timer_CurrentTicks (quiet s) = Timer_CurrentTicks s"
  "unix_time (quiet s) = unix_time s"
  "rand_stream (quiet s) = rand_stream s"
  "rand_calls (quiet s) = rand_calls s"
  "malloc_ok (quiet s) = malloc_ok s"
  "heap_next (quiet s) = heap_next s"
  "heap_live (quiet s) = heap_live s"
  "heap_mem (quiet s) = heap_mem s"
  "drv_carry (quiet s) = drv_carry s"
  "MyEthAddr (quiet s) = MyEthAddr s"
  "MyMTU (quiet s) = MyMTU s"
  "MyIpAddr (quiet s) = MyIpAddr s"
  "MyIpAddr_u (quiet s) = MyIpAddr_u s"
  "Netmask (quiet s) = Netmask s"
  "Netmask_u (quiet s) = Netmask_u s"
  "Gateway (quiet s) = Gateway s"
  "cfg_TCP_LISTEN (quiet s) = cfg_TCP_LISTEN s"
  "pkt_mem (quiet s) = pkt_mem s"
  "Buffer (quiet s) = Buffer s"
  "Buffer_first (quiet s) = Buffer_first s"
  "Buffer_next (quiet s) = Buffer_next s"
  "Buffer_fs (quiet s) = Buffer_fs s"
  "Buffer_fs_index (quiet s) = Buffer_fs_index s"
  "Buffer_packetBeingCopied (quiet s) = Buffer_packetBeingCopied s"
  "BigPacketFreeList (quiet s) = BigPacketFreeList s"
  "BigPacketFreeIndex (quiet s) = BigPacketFreeIndex s"
  "arpTable (quiet s) = arpTable s"
  "entries (quiet s) = entries s"
  "fragControl (quiet s) = fragControl s"
  "xmitBuffers (quiet s) = xmitBuffers s"
  "freeXmitBuffers (quiet s) = freeXmitBuffers s"
  "allocatedXmitBuffers (quiet s) = allocatedXmitBuffers s"
  "socketTable (quiet s) = socketTable s"
  "availSocketTable (quiet s) = availSocketTable s"
  "activeSockets (quiet s) = activeSockets s"
  "availSockets (quiet s) = availSockets s"
  "allocatedSockets (quiet s) = allocatedSockets s"
  "pendingAccepts (quiet s) = pendingAccepts s"
  "MSS_to_advertise (quiet s) = MSS_to_advertise s"
  "Pending_Sent (quiet s) = Pending_Sent s"
  "Pending_Outgoing (quiet s) = Pending_Outgoing s"
  "Packets_Retransmitted (quiet s) = Packets_Retransmitted s"
  "Packets_DroppedNoSpace (quiet s) = Packets_DroppedNoSpace s"
  "Packets_SeqOrAckError (quiet s) = Packets_SeqOrAckError s"
  by (simp_all add: quiet_def)

lemma quiet_fields:
  assumes "quiet s' = quiet s"
  shows "Timer_CurrentTicks s' = Timer_CurrentTicks s" "unix_time s' = unix_time s"
    "rand_stream s' = rand_stream s" "rand_calls s' = rand_calls s" "malloc_ok s' = malloc_ok s"
    "heap_next s' = heap_next s" "heap_live s' = heap_live s" "heap_mem s' = heap_mem s"
    "drv_carry s' = drv_carry s" "MyEthAddr s' = MyEthAddr s" "MyMTU s' = MyMTU s"
    "MyIpAddr s' = MyIpAddr s" "MyIpAddr_u s' = MyIpAddr_u s" "Netmask s' = Netmask s"
    "Netmask_u s' = Netmask_u s" "Gateway s' = Gateway s" "cfg_TCP_LISTEN s' = cfg_TCP_LISTEN s"
    "pkt_mem s' = pkt_mem s" "Buffer s' = Buffer s" "Buffer_first s' = Buffer_first s"
    "Buffer_next s' = Buffer_next s" "Buffer_fs s' = Buffer_fs s"
    "Buffer_fs_index s' = Buffer_fs_index s"
    "Buffer_packetBeingCopied s' = Buffer_packetBeingCopied s"
    "BigPacketFreeList s' = BigPacketFreeList s" "BigPacketFreeIndex s' = BigPacketFreeIndex s"
    "arpTable s' = arpTable s" "entries s' = entries s" "fragControl s' = fragControl s"
    "xmitBuffers s' = xmitBuffers s" "freeXmitBuffers s' = freeXmitBuffers s"
    "allocatedXmitBuffers s' = allocatedXmitBuffers s"
    "socketTable s' = socketTable s" "availSocketTable s' = availSocketTable s"
    "activeSockets s' = activeSockets s" "availSockets s' = availSockets s"
    "allocatedSockets s' = allocatedSockets s" "pendingAccepts s' = pendingAccepts s"
    "MSS_to_advertise s' = MSS_to_advertise s" "Pending_Sent s' = Pending_Sent s"
    "Pending_Outgoing s' = Pending_Outgoing s" "Packets_Retransmitted s' = Packets_Retransmitted s"
    "Packets_DroppedNoSpace s' = Packets_DroppedNoSpace s"
    "Packets_SeqOrAckError s' = Packets_SeqOrAckError s"
  unfolding quiet_sel [of s', symmetric] quiet_sel [of s, symmetric] assms by (rule refl)+

text \<open>What a socket and a buffer keep when a segment is sent.\<close>

definition sk_rest :: "TcpSocket \<Rightarrow> TcpSocket" where
  "sk_rest k = k\<lparr>seqNum := 0, state := TCP_STATE_CLOSED, remoteWindow := 0, cachedMacAddr := (0, 0, 0)\<rparr>"

definition bf_rest :: "TcpBuffer \<Rightarrow> TcpBuffer" where
  "bf_rest b = b\<lparr>b_seqNum := 0, b_packetLen := 0, b_pendingArp := 0, b_flags := 0, b_eh := zero_eth,
     b_ip := zero_ip, b_tcp := zero_tcp, b_data := (\<lambda>_. 0)\<rparr>"

lemma upd_socks [simp]: "socks (upd_sock i f s) = (socks s)(i := f (socks s i))"
  "socks (upd_buf b h s) = socks s" "tbuf (upd_sock i f s) = tbuf s"
  "tbuf (upd_buf b h s) = (tbuf s)(b := h (tbuf s b))"
  by (simp_all add: upd_sock_def upd_buf_def)

lemma Packet_send_pkt_socks [simp]:
  "socks (Packet_send_pkt f l s) = socks s" "tbuf (Packet_send_pkt f l s) = tbuf s"
  by (subst Packet_send_pkt_shape, simp)+

lemma setDestEth_socks [simp]:
  "socks (fst (setDestEth ip s)) = socks s" "tbuf (fst (setDestEth ip s)) = tbuf s"
  by (subst setDestEth_shape, simp)+

definition sends_frame :: "nat \<Rightarrow> bref \<Rightarrow> 'a tcp_state_scheme \<Rightarrow> 'a tcp_state_scheme \<Rightarrow> bool" where
  "sends_frame i b s s' \<longleftrightarrow>
     (\<forall>j. j \<noteq> i \<longrightarrow> socks s' j = socks s j) \<and> (\<forall>c. c \<noteq> b \<longrightarrow> tbuf s' c = tbuf s c) \<and>
     sk_rest (socks s' i) = sk_rest (socks s i) \<and> bf_rest (tbuf s' b) = bf_rest (tbuf s b)"

lemma sends_frame_trans:
  "sends_frame i b s s' \<Longrightarrow> sends_frame i b s' s'' \<Longrightarrow> sends_frame i b s s''"
  by (auto simp: sends_frame_def)

lemma sf_header: "sends_frame i b s (sp_header i b s)"
  by (simp add: sends_frame_def sp_header_def Let_def sk_rest_def bf_rest_def)

lemma sf_codebits: "sends_frame i b s (sp_codebits i b s)"
  by (simp add: sends_frame_def sp_codebits_def sp_syn_def sp_fin_def Let_def sk_rest_def bf_rest_def
      split: TcpState.split)

lemma sf_acknum: "sends_frame i b s (sp_acknum i b s)"
  by (simp add: sends_frame_def sp_acknum_def Let_def bf_rest_def setWasAckOnly_def)

lemma sf_window: "sends_frame i b s (sp_window i b s)"
  by (simp add: sends_frame_def sp_window_def Let_def sk_rest_def bf_rest_def)

lemma sf_lower: "sends_frame i b s (sp_lower i b s)"
  by (simp add: sends_frame_def sp_lower_def Let_def split_beta bf_rest_def)

lemma sf_transmit: "sends_frame i b s (fst (sp_transmit i b s))"
  using setDestEth_socks [of "ip_dest (b_ip (tbuf s b))" s]
  by (auto simp: sends_frame_def sp_transmit_def Let_def bf_rest_def split: prod.split option.split
      simp del: setDestEth_socks)

lemma sf_retry_arp: "sends_frame i b s (fst (sp_retry_arp i b s))"
  using setDestEth_socks [of "ip_dest (b_ip (tbuf s b))" s]
  by (auto simp: sends_frame_def sp_retry_arp_def Let_def sk_rest_def bf_rest_def
      split: prod.split option.split simp del: setDestEth_socks)

lemma sf_sendPacket: "sends_frame i b s (fst (sendPacket i b s))"
  by (simp add: sendPacket_def sf_retry_arp sends_frame_trans [OF sends_frame_trans [OF
      sends_frame_trans [OF sends_frame_trans [OF sends_frame_trans [OF sf_header sf_codebits]
      sf_acknum] sf_window] sf_lower] sf_transmit])

lemma sk_rest_sel:
  "srcPort (sk_rest k) = srcPort k" "dstHost (sk_rest k) = dstHost k" "dstPort (sk_rest k) = dstPort k"
  "ackNum (sk_rest k) = ackNum k" "oldestUnackedSeq (sk_rest k) = oldestUnackedSeq k"
  "lastActivity (sk_rest k) = lastActivity k" "lastAckRcvd (sk_rest k) = lastAckRcvd k"
  "closeStarted (sk_rest k) = closeStarted k" "disableReads (sk_rest k) = disableReads k"
  "pendingAccept (sk_rest k) = pendingAccept k" "closeReason (sk_rest k) = closeReason k"
  "remoteMSS (sk_rest k) = remoteMSS k" "maxEnqueueSize (sk_rest k) = maxEnqueueSize k"
  "outgoing (sk_rest k) = outgoing k" "sent (sk_rest k) = sent k" "incoming (sk_rest k) = incoming k"
  "rcvBuffer (sk_rest k) = rcvBuffer k" "rcvBufFirst (sk_rest k) = rcvBufFirst k"
  "rcvBufLast (sk_rest k) = rcvBufLast k" "rcvBufEntries (sk_rest k) = rcvBufEntries k"
  "rcvBufSize (sk_rest k) = rcvBufSize k" "SRTT (sk_rest k) = SRTT k"
  "RTT_deviation (sk_rest k) = RTT_deviation k"
  "consecutiveGoodPackets (sk_rest k) = consecutiveGoodPackets k"
  "consecutiveSeqErrs (sk_rest k) = consecutiveSeqErrs k"
  "reportSmallWindow (sk_rest k) = reportSmallWindow k"
  by (simp_all add: sk_rest_def)

lemma sk_rest_fields:
  assumes "sk_rest k' = sk_rest k"
  shows
    "srcPort k' = srcPort k"
    "dstHost k' = dstHost k"
    "dstPort k' = dstPort k"
    "ackNum k' = ackNum k"
    "oldestUnackedSeq k' = oldestUnackedSeq k"
    "lastActivity k' = lastActivity k"
    "lastAckRcvd k' = lastAckRcvd k"
    "closeStarted k' = closeStarted k"
    "disableReads k' = disableReads k"
    "pendingAccept k' = pendingAccept k"
    "closeReason k' = closeReason k"
    "remoteMSS k' = remoteMSS k"
    "maxEnqueueSize k' = maxEnqueueSize k"
    "outgoing k' = outgoing k"
    "sent k' = sent k"
    "incoming k' = incoming k"
    "rcvBuffer k' = rcvBuffer k"
    "rcvBufFirst k' = rcvBufFirst k"
    "rcvBufLast k' = rcvBufLast k"
    "rcvBufEntries k' = rcvBufEntries k"
    "rcvBufSize k' = rcvBufSize k"
    "SRTT k' = SRTT k"
    "RTT_deviation k' = RTT_deviation k"
    "consecutiveGoodPackets k' = consecutiveGoodPackets k"
    "consecutiveSeqErrs k' = consecutiveSeqErrs k"
    "reportSmallWindow k' = reportSmallWindow k"
  unfolding sk_rest_sel [of k', symmetric] sk_rest_sel [of k, symmetric] assms by (rule refl)+

lemma bf_rest_sel:
  "b_dataLen (bf_rest b) = b_dataLen b" "b_timeSent (bf_rest b) = b_timeSent b"
  "b_overdueAt (bf_rest b) = b_overdueAt b" "b_attempts (bf_rest b) = b_attempts b"
  "b_rc (bf_rest b) = b_rc b" "b_bufferPool (bf_rest b) = b_bufferPool b"
  by (simp_all add: bf_rest_def)

lemma bf_rest_fields:
  assumes "bf_rest b' = bf_rest b"
  shows "b_dataLen b' = b_dataLen b" "b_timeSent b' = b_timeSent b"
    "b_overdueAt b' = b_overdueAt b" "b_attempts b' = b_attempts b" "b_rc b' = b_rc b"
    "b_bufferPool b' = b_bufferPool b"
  unfolding bf_rest_sel [of b', symmetric] bf_rest_sel [of b, symmetric] assms by (rule refl)+

lemma sends_frame_fields:
  assumes "sends_frame i b s s'"
  shows "j \<noteq> i \<Longrightarrow> socks s' j = socks s j" and "c \<noteq> b \<Longrightarrow> tbuf s' c = tbuf s c"
    and "sk_rest (socks s' j) = sk_rest (socks s j)" and "bf_rest (tbuf s' c) = bf_rest (tbuf s c)"
  using assms by (cases "j = i"; cases "c = b"; auto simp: sends_frame_def)+

lemmas sendPacket_fields [frame_simps] = quiet_fields [OF quiet_sendPacket]
  sk_rest_fields [OF sends_frame_fields(3) [OF sf_sendPacket]]
  bf_rest_fields [OF sends_frame_fields(4) [OF sf_sendPacket]]
  sends_frame_fields(1,2) [OF sf_sendPacket]

end
