(* ===== verification/TcpSock.thy ===== *)
theory TcpSock
  imports TcpSend
begin

text \<open>
  The rest of a socket's operations, \<^verbatim>\<open>code/TCPLIB/TCP.CPP\<close> and \<^verbatim>\<open>TCPSOCKM.CPP\<close>: the receive
  ring (\<open>addToRcvBuf\<close>, \<open>recv\<close>), removal of acknowledged segments with the round-trip estimate,
  opening (\<open>connect2\<close>, \<open>listen\<close>), shutting down and destroying a socket, and \<open>accept\<close>.
\<close>

unbundle bit_operations_syntax

section \<open>The receive buffer\<close>

definition heap_write :: "nat \<Rightarrow> nat \<Rightarrow> u8 list \<Rightarrow> 'a net_scheme \<Rightarrow> 'a net_scheme" where
  "heap_write p off xs s = s\<lparr>heap_mem := (heap_mem s)(p := memcpy (heap_mem s p) off xs)\<rparr>"

definition addToRcvBuf :: "nat \<Rightarrow> mem \<Rightarrow> nat \<Rightarrow> u16 \<Rightarrow> 'a tcp_state_scheme \<Rightarrow> 'a tcp_state_scheme \<times> int" where
  "addToRcvBuf this m data dataLen s =
     (let k = socks s this; rb = the (rcvBuffer k)
      in if rcvBufSize k - rcvBufEntries k < dataLen then (s, TCP_RC_BAD)
         else
           (let s = upd_sock this (\<lambda>k. k\<lparr>rcvBufEntries := rcvBufEntries k + dataLen\<rparr>) s
            in if dataLen + rcvBufLast k < rcvBufSize k then
                 (let s = heap_write rb (unat (rcvBufLast k)) (rdbytes m data (unat dataLen)) s
                  in (upd_sock this (\<lambda>k. k\<lparr>rcvBufLast := rcvBufLast k + dataLen\<rparr>) s, TCP_RC_GOOD))
               else
                 (let firstCpyLen = rcvBufSize k - rcvBufLast k;
                      s = heap_write rb (unat (rcvBufLast k)) (rdbytes m data (unat firstCpyLen)) s;
                      secondCpyLen = dataLen - firstCpyLen;
                      s = heap_write rb 0 (rdbytes m (data + unat firstCpyLen) (unat secondCpyLen)) s
                  in (upd_sock this (\<lambda>k. k\<lparr>rcvBufLast := secondCpyLen\<rparr>) s, TCP_RC_GOOD))))"

text \<open>The copy out of the ring: the bytes for the user and the socket without them.\<close>

definition recv_copy :: "nat \<Rightarrow> u16 \<Rightarrow> 'a tcp_state_scheme \<Rightarrow> 'a tcp_state_scheme \<times> u8 list" where
  "recv_copy this cpyLen s =
     (let k = socks s this; rb = heap_mem s (the (rcvBuffer k));
          s = upd_sock this (\<lambda>k. k\<lparr>rcvBufEntries := rcvBufEntries k - cpyLen\<rparr>) s
      in if cpyLen + rcvBufFirst k < rcvBufSize k then
           (upd_sock this (\<lambda>k. k\<lparr>rcvBufFirst := rcvBufFirst k + cpyLen\<rparr>) s,
            rdbytes rb (unat (rcvBufFirst k)) (unat cpyLen))
         else
           (let firstCpyLen = rcvBufSize k - rcvBufFirst k;
                secondCpyLen = cpyLen - firstCpyLen
            in (upd_sock this (\<lambda>k. k\<lparr>rcvBufFirst := secondCpyLen\<rparr>) s,
                rdbytes rb (unat (rcvBufFirst k)) (unat firstCpyLen) @
                rdbytes rb 0 (unat secondCpyLen))))"

text \<open>The result is the return code and the bytes stored in the user's buffer.\<close>

definition recv :: "nat \<Rightarrow> u16 \<Rightarrow> 'a tcp_state_scheme \<Rightarrow> 'a tcp_state_scheme \<times> int \<times> u8 list" where
  "recv this userBufLen s =
     (let k = socks s this;
          origWin = rcvBufSize k - rcvBufEntries k
      in if state k < TCP_STATE_ESTABLISHED then (s, TCP_RC_RECV_BAD_STATE, [])
         else if rcvBufEntries k = 0 \<or> userBufLen = 0 then (s, 0, [])
         else
           (let cpyLen = (if rcvBufEntries k < userBufLen then rcvBufEntries k else userBufLen);
                (s, out) = recv_copy this cpyLen s;
                s = (if origWin = 0
                     then (let s = sendPureAck this False s
                           in s\<lparr>OurWindowReopened := OurWindowReopened s + 1\<rparr>)
                     else s)
            in (s, sint cpyLen, out)))"

definition flushRecv :: "nat \<Rightarrow> 'a tcp_state_scheme \<Rightarrow> 'a tcp_state_scheme" where
  "flushRecv this s = upd_sock this (\<lambda>k. k\<lparr>rcvBufFirst := 0, rcvBufLast := 0, rcvBufEntries := 0\<rparr>) s"

definition recvDataWaiting :: "TcpSocket \<Rightarrow> bool" where
  "recvDataWaiting k \<longleftrightarrow> 0 < rb_entries (incoming k) \<or> 0 < rcvBufEntries k"

definition isConnectComplete :: "TcpSocket \<Rightarrow> bool" where
  "isConnectComplete k \<longleftrightarrow> state k = TCP_STATE_ESTABLISHED \<or> state k = TCP_STATE_CLOSE_WAIT"

definition isRemoteClosed :: "TcpSocket \<Rightarrow> bool" where
  "isRemoteClosed k \<longleftrightarrow>
     state k = TCP_STATE_CLOSED \<or> state k = TCP_STATE_CLOSE_WAIT \<or> state k = TCP_STATE_LAST_ACK \<or>
     state k = TCP_STATE_SEND_FIN2 \<or> state k = TCP_STATE_CLOSING \<or> state k = TCP_STATE_TIME_WAIT"

section \<open>Acknowledged segments\<close>

text \<open>Is the segment that ends at \<open>p\<close> covered by an acknowledgement of \<open>target\<close>?\<close>

definition seg_acked :: "u32 \<Rightarrow> u32 \<Rightarrow> u32 \<Rightarrow> bool" where
  "seg_acked p target oldest \<longleftrightarrow>
     p < target \<or> target < p \<and> target < oldest \<and> oldest \<le> p"

text \<open>Integer arithmetic on 16-bit unsigned values; the round-trip time is cut to 16 bits.\<close>

definition srtt_update :: "u32 \<Rightarrow> u32 \<Rightarrow> TcpSocket \<Rightarrow> TcpSocket" where
  "srtt_update timeSent currentTime k =
     (let RTT = ucast (Timer_diff timeSent currentTime) :: u16;
          srtt = (push_bit 3 (SRTT k) + push_bit 2 RTT) div 10;
          delta = (if RTT < srtt then srtt - RTT else RTT - srtt);
          dev = (push_bit 3 (RTT_deviation k) + push_bit 2 delta) div 10
      in k\<lparr>SRTT := (if srtt = 0 then 1 else if TCP_MAX_SRTT < srtt then TCP_MAX_SRTT else srtt),
           RTT_deviation := dev\<rparr>)"

text \<open>One pass of the loop: \<open>True\<close> in the result leaves the loop.\<close>

definition remove_step :: "nat \<Rightarrow> u32 \<Rightarrow> 'a tcp_state_scheme \<Rightarrow> 'a tcp_state_scheme \<times> bool" where
  "remove_step this targetSeqNum s =
     (let k = socks s this
      in case rb_peek (sent k) of
           None \<Rightarrow> (upd_sock this (\<lambda>k. k\<lparr>oldestUnackedSeq := seqNum k\<rparr>) s, True)
         | Some p \<Rightarrow>
             (let b = tbuf s p; currentTime = Timer_CurrentTicks s
              in if seg_acked (b_seqNum b) targetSeqNum (oldestUnackedSeq k) then
                   (let s = (if b_attempts b = 1 then upd_sock this (srtt_update (b_timeSent b) currentTime) s
                             else s);
                        s = upd_sock this (\<lambda>k. k\<lparr>sent := fst (rb_dequeue (sent k))\<rparr>) s;
                        s = s\<lparr>Pending_Sent := Pending_Sent s - 1\<rparr>
                    in (returnXmitBuf p s, False))
                 else (upd_sock this (\<lambda>k. k\<lparr>oldestUnackedSeq := ntohl (tcp_seqnum (b_tcp b))\<rparr>) s, True)))"

function removeSentPackets :: "nat \<Rightarrow> u32 \<Rightarrow> 'a tcp_state_scheme \<Rightarrow> 'a tcp_state_scheme" where
  "removeSentPackets this targetSeqNum s =
     (if snd (remove_step this targetSeqNum s) then fst (remove_step this targetSeqNum s)
      else removeSentPackets this targetSeqNum (fst (remove_step this targetSeqNum s)))"
  by pat_completeness auto

lemma returnXmitBuf_socks [simp]: "socks (returnXmitBuf b s) = socks s"
  by (simp add: returnXmitBuf_def)

lemma rb_dequeue_entries: "rb_entries r \<noteq> 0 \<Longrightarrow> rb_entries (fst (rb_dequeue r)) = rb_entries r - 1"
  by (simp add: rb_dequeue_def Let_def)

lemma srtt_update_sent [simp]: "sent (srtt_update a b k) = sent k"
  by (simp add: srtt_update_def Let_def)

lemma remove_step_entries:
  "\<not> snd (remove_step this t s) \<Longrightarrow>
     rb_entries (sent (socks s this)) \<noteq> 0 \<and>
     rb_entries (sent (socks (fst (remove_step this t s)) this)) = rb_entries (sent (socks s this)) - 1"
  by (auto simp: remove_step_def Let_def rb_peek_def rb_dequeue_entries split: option.splits if_splits)

termination removeSentPackets
proof (relation "measure (\<lambda>(this, t, s). unat (rb_entries (sent (socks s this))))", goal_cases)
  case (2 this t s)
  have n: "rb_entries (sent (socks s this)) \<noteq> 0"
    and e: "rb_entries (sent (socks (fst (remove_step this t s)) this)) = rb_entries (sent (socks s this)) - 1"
    using remove_step_entries [OF 2] by simp_all
  have "0 < unat (rb_entries (sent (socks s this)))" using n unat_gt_0 by blast
  then show ?case using n e by (simp add: unat_minus_one)
qed simp

declare removeSentPackets.simps [simp del]

section \<open>Clearing and destroying\<close>

text \<open>\<^verbatim>\<open>while ( q.entries ) put( q.dequeue( ) )\<close> for the two queues of transmit buffers.\<close>

function drain :: "('q \<Rightarrow> 's \<Rightarrow> 's) \<Rightarrow> 'q RingBuffer \<Rightarrow> 's \<Rightarrow> 's \<times> 'q RingBuffer" where
  "drain put r s =
     (if rb_entries r = 0 then (s, r)
      else drain put (fst (rb_dequeue r))
             (case snd (rb_dequeue r) of Some b \<Rightarrow> put b s | None \<Rightarrow> s))"
  by pat_completeness auto

termination drain
proof (relation "measure (\<lambda>(put, r, s). unat (rb_entries r))", goal_cases)
  case (2 put r s)
  then have "0 < unat (rb_entries r)" using unat_gt_0 by blast
  then show ?case using 2 by (simp add: rb_dequeue_entries unat_minus_one)
qed simp

declare drain.simps [simp del]

definition clearQueues :: "nat \<Rightarrow> 'a tcp_state_scheme \<Rightarrow> 'a tcp_state_scheme" where
  "clearQueues this s =
     (let tmp = rb_entries (outgoing (socks s this));
          (s, r) = drain returnXmitBuf (outgoing (socks s this)) s;
          s = upd_sock this (\<lambda>k. k\<lparr>outgoing := r\<rparr>) s;
          s = s\<lparr>Pending_Outgoing := Pending_Outgoing s - tmp\<rparr>;
          tmp = rb_entries (sent (socks s this));
          (s, r) = drain returnXmitBuf (sent (socks s this)) s;
          s = upd_sock this (\<lambda>k. k\<lparr>sent := r\<rparr>) s;
          s = s\<lparr>Pending_Sent := Pending_Sent s - tmp\<rparr>;
          (s, r) = drain Buffer_free (incoming (socks s this)) s
      in upd_sock this (\<lambda>k. k\<lparr>incoming := r\<rparr>) s)"

definition destroy :: "nat \<Rightarrow> 'a tcp_state_scheme \<Rightarrow> 'a tcp_state_scheme" where
  "destroy this s =
     (let s = clearQueues this s;
          s = upd_sock this (\<lambda>k. k\<lparr>state := TCP_STATE_CLOSED\<rparr>) s;
          s = makeInactive this s;
          s = (case rcvBuffer (socks s this) of
                 Some p \<Rightarrow> upd_sock this (\<lambda>k. k\<lparr>rcvBuffer := None\<rparr>) (free p s)
               | None \<Rightarrow> s)
      in if pendingAccept (socks s this)
         then upd_sock this (\<lambda>k. k\<lparr>pendingAccept := False\<rparr>) (fst (freeSocket this s))
         else s)"

section \<open>Opening\<close>

definition connect2 :: "nat \<Rightarrow> u16 \<Rightarrow> IpAddr \<Rightarrow> u16 \<Rightarrow> 'a tcp_state_scheme \<Rightarrow> 'a tcp_state_scheme \<times> int" where
  "connect2 this srcPort_p host_p dstPort_p s =
     (if state (socks s this) \<noteq> TCP_STATE_CLOSED then (s, TCP_RC_BAD)
      else
        (let s = upd_sock this (\<lambda>k. k\<lparr>srcPort := srcPort_p, dstHost := host_p, dstPort := dstPort_p\<rparr>) s;
             s = makeActive this s;
             s = upd_sock this (\<lambda>k. k\<lparr>state := TCP_STATE_SYN_SENT\<rparr>) s;
             s = upd_buf (ConnectPacket this) (\<lambda>b. b\<lparr>b_dataLen := 0\<rparr>) s
         in (fst (enqueue this (ConnectPacket this) s), 0)))"

definition connectNonBlocking :: "nat \<Rightarrow> u16 \<Rightarrow> IpAddr \<Rightarrow> u16 \<Rightarrow> 'a tcp_state_scheme \<Rightarrow> 'a tcp_state_scheme \<times> int" where
  "connectNonBlocking this srcPort_p host_p dstPort_p s = connect2 this srcPort_p host_p dstPort_p s"

section \<open>Closing\<close>

text \<open>The state after a local close and whether a FIN has to go out.\<close>

fun close_next :: "TcpState \<Rightarrow> TcpState \<times> bool" where
  "close_next TCP_STATE_CLOSED = (TCP_STATE_CLOSED, False)"
| "close_next TCP_STATE_TIME_WAIT = (TCP_STATE_CLOSED, False)"
| "close_next TCP_STATE_LISTEN = (TCP_STATE_CLOSED, False)"
| "close_next TCP_STATE_SYN_SENT = (TCP_STATE_CLOSED, False)"
| "close_next TCP_STATE_SYN_RECVED = (TCP_STATE_SEND_FIN3, True)"
| "close_next TCP_STATE_ESTABLISHED = (TCP_STATE_SEND_FIN1, True)"
| "close_next TCP_STATE_CLOSE_WAIT = (TCP_STATE_SEND_FIN2, True)"
| "close_next st = (st, False)"

definition closeLocal :: "nat \<Rightarrow> 'a tcp_state_scheme \<Rightarrow> 'a tcp_state_scheme" where
  "closeLocal this s =
     (let (st, sendPkt) = close_next (state (socks s this));
          s = upd_sock this (\<lambda>k. k\<lparr>state := st\<rparr>) s
      in if sendPkt \<and> rb_entries (outgoing (socks s this)) = 0
         then fst (enqueue this (ConnectPacket this)
                     (upd_buf (ConnectPacket this) (\<lambda>b. b\<lparr>b_dataLen := 0\<rparr>) s))
         else s)"

datatype shut_how = TCP_SHUT_RD | TCP_SHUT_WR | TCP_SHUT_RDWR

definition shutdown :: "nat \<Rightarrow> shut_how \<Rightarrow> 'a tcp_state_scheme \<Rightarrow> 'a tcp_state_scheme" where
  "shutdown this how s =
     (case how of
        TCP_SHUT_RD \<Rightarrow> upd_sock this (\<lambda>k. k\<lparr>disableReads := True\<rparr>) s
      | TCP_SHUT_WR \<Rightarrow> closeLocal this s
      | TCP_SHUT_RDWR \<Rightarrow> closeLocal this (upd_sock this (\<lambda>k. k\<lparr>disableReads := True\<rparr>) s))"

definition start_close :: "nat \<Rightarrow> 'a tcp_state_scheme \<Rightarrow> 'a tcp_state_scheme" where
  "start_close this s =
     (if closeStarted (socks s this) = 0
      then upd_sock this (\<lambda>k. k\<lparr>closeStarted := Timer_CurrentTicks s\<rparr>) s else s)"

definition closeNonblocking :: "nat \<Rightarrow> 'a tcp_state_scheme \<Rightarrow> 'a tcp_state_scheme" where
  "closeNonblocking this s = closeLocal this (start_close this s)"

definition isCloseDone :: "nat \<Rightarrow> 'a tcp_state_scheme \<Rightarrow> 'a tcp_state_scheme \<times> bool" where
  "isCloseDone this s =
     (let k = socks s this
      in if state k = TCP_STATE_TIME_WAIT \<or> state k = TCP_STATE_CLOSED then
           (upd_sock this (\<lambda>k. k\<lparr>closeReason := 0\<rparr>) (destroy this s), True)
         else if Timer_diff (closeStarted k) (Timer_CurrentTicks s) < TIMER_MS_TO_TICKS TCP_CLOSE_TIMEOUT
         then (s, False)
         else (upd_sock this (\<lambda>k. k\<lparr>closeReason := 2\<rparr>) (destroy this s), True))"

section \<open>Listening\<close>

definition listen :: "nat \<Rightarrow> u16 \<Rightarrow> u16 \<Rightarrow> 'a tcp_state_scheme \<Rightarrow> 'a tcp_state_scheme \<times> int" where
  "listen this srcPort_p recvBufferSize s =
     (if state (socks s this) \<noteq> TCP_STATE_CLOSED then (s, TCP_RC_BAD)
      else if \<exists>i<unat (activeSockets s).
                state (socks s (socketTable s i)) = TCP_STATE_LISTEN \<and>
                srcPort (socks s (socketTable s i)) = srcPort_p
      then (s, TCP_RC_PORT_IN_USE)
      else if activeSockets s = TCP_MAX_SOCKETS then (s, TCP_RC_BAD)
      else
        (let s = upd_sock this (\<lambda>k. k\<lparr>srcPort := srcPort_p, dstHost := (0, 0, 0, 0), dstPort := 0\<rparr>) s;
             s = makeActive this s;
             s = upd_sock this (\<lambda>k. k\<lparr>state := TCP_STATE_LISTEN\<rparr>) s;
             s = shutdown this TCP_SHUT_RD s
         in (upd_sock this (\<lambda>k. k\<lparr>rcvBufSize := recvBufferSize\<rparr>) s, TCP_RC_GOOD)))"

definition accept_stale :: "'a tcp_state_scheme \<Rightarrow> nat \<Rightarrow> bool" where
  "accept_stale s i \<longleftrightarrow>
     (let k = socks s (socketTable s i)
      in pendingAccept k \<and> state k < TCP_STATE_ESTABLISHED \<and>
         TIMER_MS_TO_TICKS TCP_PA_TIMEOUT < Timer_diff (lastActivity k) (Timer_CurrentTicks s))"

definition accept :: "'a tcp_state_scheme \<Rightarrow> 'a tcp_state_scheme \<times> nat option" where
  "accept s =
     (let s = (case find (accept_stale s) [0..<unat (activeSockets s)] of
                 Some i \<Rightarrow> destroy (socketTable s i) s
               | None \<Rightarrow> s)
      in if pendingAccepts s = 0 then (s, None)
         else (case find (\<lambda>i. pendingAccept (socks s (socketTable s i)) \<and>
                              TCP_STATE_ESTABLISHED \<le> state (socks s (socketTable s i)))
                       [0..<unat (activeSockets s)] of
             None \<Rightarrow> (s, None)
           | Some i \<Rightarrow>
               (let rc = socketTable s i;
                    s = upd_sock rc (\<lambda>k. k\<lparr>pendingAccept := False,
                          lastActivity := Timer_CurrentTicks s\<rparr>) s
                in (s\<lparr>pendingAccepts := pendingAccepts s - 1\<rparr>, Some rc))))"

end
