(* ===== verification/TcpProc.thy ===== *)
theory TcpProc
  imports TcpSock
begin

text \<open>
  Incoming segments, \<^verbatim>\<open>Tcp::process\<close>, \<^verbatim>\<open>process2\<close>, \<^verbatim>\<open>processPacketData\<close> and \<^verbatim>\<open>processSyn\<close>
  of \<^verbatim>\<open>code/TCPLIB/TCP.CPP\<close>, and the driver of outgoing segments \<^verbatim>\<open>drivePackets2\<close>.
  \<open>process2\<close> is cut at the blocks of the source: one definition per block, composed in its
  order.  A result \<open>None\<close> is a call that does not return (the option scan of \<open>readMSS\<close>).
\<close>

unbundle bit_operations_syntax

section \<open>The incoming segment\<close>

text \<open>The IP header is at offset 14 of the packet; the TCP header follows the IP header.\<close>

definition pk_ip :: "bufref \<Rightarrow> 'a net_scheme \<Rightarrow> IpHeader" where
  "pk_ip packet s = read_IpHeader (pkt_mem s packet) 14"

definition pk_tcp_off :: "bufref \<Rightarrow> 'a net_scheme \<Rightarrow> nat" where
  "pk_tcp_off packet s = 14 + payloadOff (pk_ip packet s)"

definition pk_tcp :: "bufref \<Rightarrow> 'a net_scheme \<Rightarrow> TcpHeader" where
  "pk_tcp packet s = read_TcpHeader (pkt_mem s packet) (pk_tcp_off packet s)"

definition incomingDataLen :: "bufref \<Rightarrow> 'a net_scheme \<Rightarrow> u16" where
  "incomingDataLen packet s = payloadLen (pk_ip packet s) - ucast (getTcpHlen (pk_tcp packet s))"

text \<open>The locals \<^verbatim>\<open>process2\<close> computes on entry.\<close>

record seg =
  isAckSet :: bool
  isRstSet :: bool
  isSynSet :: bool
  isFinSet :: bool
  sg_codeBits :: u8
  sg_seq :: u32
  sg_ack :: u32
  sg_ackIsCurrent :: bool
  sg_window :: u16
  sg_len :: u16

definition read_seg :: "bufref \<Rightarrow> nat \<Rightarrow> 'a tcp_state_scheme \<Rightarrow> seg" where
  "read_seg packet sock s =
     (let tcp = pk_tcp packet s; bits = getCodeBits tcp;
          ackSet = (bits AND TCP_CODEBITS_ACK \<noteq> 0);
          ackn = ntohl (tcp_acknum tcp)
      in \<lparr>isAckSet = ackSet,
          isRstSet = (bits AND TCP_CODEBITS_RST \<noteq> 0),
          isSynSet = (bits AND TCP_CODEBITS_SYN \<noteq> 0),
          isFinSet = (bits AND TCP_CODEBITS_FIN \<noteq> 0),
          sg_codeBits = bits,
          sg_seq = ntohl (tcp_seqnum tcp),
          sg_ack = ackn,
          sg_ackIsCurrent = (ackSet \<and> ackn = seqNum (socks s sock)),
          sg_window = ntohs (tcp_window tcp),
          sg_len = incomingDataLen packet s\<rparr>)"

section \<open>Delivering data\<close>

text \<open>The result is the pair (free the packet, play dead).\<close>

definition processPacketData ::
    "nat \<Rightarrow> u16 \<Rightarrow> bufref \<Rightarrow> 'a tcp_state_scheme \<Rightarrow> 'a tcp_state_scheme \<times> bool \<times> bool" where
  "processPacketData sock len packet s =
     (let k = socks s sock
      in if disableReads k then
           (upd_sock sock (\<lambda>k. k\<lparr>ackNum := ackNum k + ucast len\<rparr>) s, True, False)
         else if rcvBuffer k = None then
           (if rb_hasRoom (incoming k) then
              (upd_sock sock (\<lambda>k. k\<lparr>ackNum := ackNum k + ucast len,
                 incoming := fst (rb_enqueue packet (incoming k))\<rparr>) s, False, False)
            else (s\<lparr>Packets_DroppedNoSpace := Packets_DroppedNoSpace s + 1\<rparr>, True, True))
         else
           (let data = pk_tcp_off packet s + unat (getTcpHlen (pk_tcp packet s));
                userDataLen = payloadLen (pk_ip packet s) - ucast (getTcpHlen (pk_tcp packet s));
                (s, rc) = addToRcvBuf sock (pkt_mem s packet) data userDataLen s
            in if rc = 0 then (upd_sock sock (\<lambda>k. k\<lparr>ackNum := ackNum k + ucast len\<rparr>) s, True, False)
               else (s\<lparr>Packets_DroppedNoSpace := Packets_DroppedNoSpace s + 1\<rparr>, True, True)))"

section \<open>A SYN for a listening socket\<close>

definition processSyn :: "nat \<Rightarrow> bufref \<Rightarrow> u32 \<Rightarrow> 'a tcp_state_scheme \<Rightarrow> 'a tcp_state_scheme option" where
  "processSyn this packet incomingSeqNum s =
     (case getSocket s of
        (s, None) \<Rightarrow> Some s
      | (s, Some new) \<Rightarrow>
          (case setRecvBuffer new (rcvBufSize (socks s this)) s of
             (s, rc) \<Rightarrow>
               if rc \<noteq> 0 then
                 (let s = destroy new s;
                      s = upd_sock new (\<lambda>k. k\<lparr>closeReason := 3\<rparr>) s
                  in Some (fst (freeSocket new s)))
               else
                 (let s = makeActive new s;
                      s = upd_sock new (\<lambda>k. k\<lparr>pendingAccept := True,
                            srcPort := srcPort (socks s this),
                            dstHost := ip_src (pk_ip packet s),
                            dstPort := ntohs (tcp_src (pk_tcp packet s)),
                            state := TCP_STATE_SYN_RECVED,
                            ackNum := incomingSeqNum + 1\<rparr>) s
                  in case setMaxEnqueueSize new (pkt_mem s packet) (pk_tcp_off packet s) s of
                       None \<Rightarrow> None
                     | Some s \<Rightarrow>
                         (let s = upd_buf (ConnectPacket new) (\<lambda>b. b\<lparr>b_dataLen := 0\<rparr>) s
                          in Some (fst (enqueue new (ConnectPacket new) s))))))"

definition p2_listen :: "nat \<Rightarrow> bufref \<Rightarrow> seg \<Rightarrow> 'a tcp_state_scheme \<Rightarrow> 'a tcp_state_scheme option" where
  "p2_listen sock packet g s =
     (if sg_codeBits g = TCP_CODEBITS_SYN then processSyn sock packet (sg_seq g) s
      else Some (sendResetPacket (pk_ip packet s) (pk_tcp packet s) (sg_len g) s))"

section \<open>A segment in SYN_SENT\<close>

definition p2_synsent_synack :: "nat \<Rightarrow> bufref \<Rightarrow> seg \<Rightarrow> 'a tcp_state_scheme \<Rightarrow> 'a tcp_state_scheme option" where
  "p2_synsent_synack sock packet g s =
     (let s = removeSentPackets sock (sg_ack g) s;
          s = upd_sock sock (\<lambda>k. k\<lparr>state := TCP_STATE_ESTABLISHED, ackNum := sg_seq g + 1\<rparr>) s
      in map_option (upd_sock sock (\<lambda>k. k\<lparr>remoteWindow := sg_window g\<rparr>))
           (setMaxEnqueueSize sock (pkt_mem s packet) (pk_tcp_off packet s) s))"

definition p2_synsent_syn :: "nat \<Rightarrow> bufref \<Rightarrow> seg \<Rightarrow> 'a tcp_state_scheme \<Rightarrow> 'a tcp_state_scheme option" where
  "p2_synsent_syn sock packet g s =
     (let s = upd_sock sock (\<lambda>k. k\<lparr>state := TCP_STATE_SYN_RECVED, ackNum := sg_seq g + 1\<rparr>) s
      in map_option (\<lambda>s.
           (let s = upd_sock sock (\<lambda>k. k\<lparr>seqNum := seqNum k - 1\<rparr>) s;
                s = clearQueues sock s;
                s = upd_buf (ConnectPacket sock) (\<lambda>b. b\<lparr>b_dataLen := 0\<rparr>) s
            in fst (enqueue sock (ConnectPacket sock) s)))
           (setMaxEnqueueSize sock (pkt_mem s packet) (pk_tcp_off packet s) s))"

text \<open>The result is the state and \<^verbatim>\<open>generatePkt\<close>.\<close>

definition p2_synsent :: "nat \<Rightarrow> bufref \<Rightarrow> seg \<Rightarrow> 'a tcp_state_scheme \<Rightarrow> ('a tcp_state_scheme \<times> bool) option" where
  "p2_synsent sock packet g s =
     (if isRstSet g then
        Some (if sg_ackIsCurrent g
              then (upd_sock sock (\<lambda>k. k\<lparr>closeReason := 1\<rparr>) (destroy sock s), False)
              else (s, False))
      else if isSynSet g then
        (if isAckSet g then
           (if sg_ackIsCurrent g then map_option (\<lambda>s. (s, True)) (p2_synsent_synack sock packet g s)
            else Some (sendResetPacket (pk_ip packet s) (pk_tcp packet s) (sg_len g) s, False))
         else map_option (\<lambda>s. (s, False)) (p2_synsent_syn sock packet g s))
      else Some (sendResetPacket (pk_ip packet s) (pk_tcp packet s) (sg_len g) s, False))"

section \<open>A segment in a synchronized state\<close>

definition ack_proper :: "TcpSocket \<Rightarrow> seg \<Rightarrow> bool" where
  "ack_proper k g \<longleftrightarrow>
     isAckSet g \<and>
     (if oldestUnackedSeq k < seqNum k
      then oldestUnackedSeq k \<le> sg_ack g \<and> sg_ack g \<le> seqNum k
      else oldestUnackedSeq k \<le> sg_ack g \<or> sg_ack g \<le> seqNum k)"

definition seq_proper :: "TcpSocket \<Rightarrow> seg \<Rightarrow> bool" where
  "seq_proper k g \<longleftrightarrow>
     sg_seq g = ackNum k \<or> state k = TCP_STATE_SYN_RECVED \<and> sg_seq g = ackNum k - 1"

text \<open>Bookkeeping of a segment with acceptable numbers.\<close>

definition p2_accept :: "nat \<Rightarrow> seg \<Rightarrow> 'a tcp_state_scheme \<Rightarrow> 'a tcp_state_scheme" where
  "p2_accept sock g s =
     (let s = upd_sock sock (\<lambda>k.
            let n = (if consecutiveGoodPackets k < 255 then consecutiveGoodPackets k + 1
                     else consecutiveGoodPackets k)
            in k\<lparr>consecutiveGoodPackets := n, consecutiveSeqErrs := 0,
                 reportSmallWindow := (if 50 < n then False else reportSmallWindow k),
                 lastAckRcvd := Timer_CurrentTicks s\<rparr>) s;
          s = (if rb_entries (sent (socks s sock)) \<noteq> 0 then removeSentPackets sock (sg_ack g) s else s)
      in if rb_entries (sent (socks s sock)) = 0
         then upd_sock sock (\<lambda>k. k\<lparr>remoteWindow := sg_window g\<rparr>) s else s)"

text \<open>The state switch; the result is the state and \<^verbatim>\<open>generatePkt\<close>.\<close>

definition p2_switch ::
    "nat \<Rightarrow> bufref \<Rightarrow> seg \<Rightarrow> bool \<Rightarrow> 'a tcp_state_scheme \<Rightarrow> 'a tcp_state_scheme \<times> bool" where
  "p2_switch sock packet g gen s =
     (let goto = (\<lambda>st. upd_sock sock (\<lambda>k. k\<lparr>state := st\<rparr>) s);
          goto_ack = (\<lambda>st. upd_sock sock (\<lambda>k. k\<lparr>state := st, ackNum := ackNum k + 1\<rparr>) s)
      in case state (socks s sock) of
           TCP_STATE_ESTABLISHED \<Rightarrow>
             (if isFinSet g then (goto_ack TCP_STATE_CLOSE_WAIT, True) else (s, gen))
         | TCP_STATE_SEND_FIN1 \<Rightarrow>
             (if isFinSet g then (goto_ack TCP_STATE_SEND_FIN2, gen) else (s, gen))
         | TCP_STATE_SYN_RECVED \<Rightarrow>
             (if sg_ackIsCurrent g then
                (let s = goto TCP_STATE_ESTABLISHED;
                     s = (if pendingAccept (socks s sock)
                          then s\<lparr>pendingAccepts := pendingAccepts s + 1\<rparr> else s)
                 in (upd_sock sock (\<lambda>k. k\<lparr>remoteWindow := sg_window g\<rparr>) s, gen))
              else
                (let s = clearQueues sock s
                 in (sendResetPacket (pk_ip packet s) (pk_tcp packet s) (sg_len g) s, gen)))
         | TCP_STATE_LAST_ACK \<Rightarrow> (goto TCP_STATE_CLOSED, gen)
         | TCP_STATE_FIN_WAIT_1 \<Rightarrow>
             (if isFinSet g then
                (if sg_ackIsCurrent g then (goto_ack TCP_STATE_TIME_WAIT, True)
                 else (goto_ack TCP_STATE_CLOSING, True))
              else if sg_ackIsCurrent g then (goto TCP_STATE_FIN_WAIT_2, gen)
              else (s, gen))
         | TCP_STATE_FIN_WAIT_2 \<Rightarrow>
             (if isFinSet g then (goto_ack TCP_STATE_TIME_WAIT, True) else (s, gen))
         | TCP_STATE_CLOSING \<Rightarrow>
             (if sg_ackIsCurrent g then (goto TCP_STATE_TIME_WAIT, gen) else (s, gen))
         | _ \<Rightarrow> (s, gen))"

definition p2_error :: "nat \<Rightarrow> 'a tcp_state_scheme \<Rightarrow> 'a tcp_state_scheme" where
  "p2_error sock s =
     (let s = sendPureAck sock False s;
          s = s\<lparr>Packets_SeqOrAckError := Packets_SeqOrAckError s + 1\<rparr>
      in upd_sock sock (\<lambda>k.
           let n = (if consecutiveSeqErrs k < 255 then consecutiveSeqErrs k + 1 else consecutiveSeqErrs k)
           in k\<lparr>consecutiveGoodPackets := 0, consecutiveSeqErrs := n,
                reportSmallWindow := (if 4 < n then True else reportSmallWindow k)\<rparr>) s)"

text \<open>The end of \<^verbatim>\<open>process2\<close>: an ACK if one is due, and the packet goes back to the pool.\<close>

definition p2_tail :: "nat \<Rightarrow> bufref \<Rightarrow> bool \<Rightarrow> bool \<Rightarrow> 'a tcp_state_scheme \<Rightarrow> 'a tcp_state_scheme" where
  "p2_tail sock packet gen freePacket s =
     (let s = (if gen then
                 fst (enqueue sock (ConnectPacket sock)
                        (upd_buf (ConnectPacket sock) (\<lambda>b. b\<lparr>b_dataLen := 0\<rparr>) s))
               else s)
      in if freePacket then Buffer_free packet s else s)"

text \<open>Data, state change and tail of an acceptable segment, with the early exit of a full buffer.\<close>

definition p2_good :: "nat \<Rightarrow> bufref \<Rightarrow> seg \<Rightarrow> 'a tcp_state_scheme \<Rightarrow> 'a tcp_state_scheme" where
  "p2_good sock packet g s =
     (let s = p2_accept sock g s;
          (s, freePacket, dead) = (if sg_len g \<noteq> 0 then processPacketData sock (sg_len g) packet s
                                   else (s, True, False));
          gen = (sg_len g \<noteq> 0 \<and> rb_entries (outgoing (socks s sock)) = 0)
      in if dead then Buffer_free packet s
         else (let (s, gen) = p2_switch sock packet g gen s
               in p2_tail sock packet gen freePacket s))"

definition p2_synchronized :: "nat \<Rightarrow> bufref \<Rightarrow> seg \<Rightarrow> 'a tcp_state_scheme \<Rightarrow> 'a tcp_state_scheme" where
  "p2_synchronized sock packet g s =
     (let k = socks s sock
      in if isRstSet g then
           (let s = (if seq_proper k g
                     then upd_sock sock (\<lambda>k. k\<lparr>closeReason := 1\<rparr>) (destroy sock s) else s)
            in p2_tail sock packet False True s)
         else if ack_proper k g \<and> seq_proper k g then p2_good sock packet g s
         else p2_tail sock packet False True (p2_error sock s))"

definition process2 :: "bufref \<Rightarrow> nat \<Rightarrow> 'a tcp_state_scheme \<Rightarrow> 'a tcp_state_scheme option" where
  "process2 packet sock s =
     (let s = upd_sock sock (\<lambda>k. k\<lparr>lastActivity := Timer_CurrentTicks s\<rparr>) s;
          g = read_seg packet sock s
      in if cfg_TCP_LISTEN s \<and> state (socks s sock) = TCP_STATE_LISTEN then
           map_option (p2_tail sock packet False True) (p2_listen sock packet g s)
         else if state (socks s sock) = TCP_STATE_SYN_SENT then
           map_option (\<lambda>(s, gen). p2_tail sock packet gen True s) (p2_synsent sock packet g s)
         else Some (p2_synchronized sock packet g s))"

section \<open>Demultiplexing\<close>

definition sock_matches :: "bufref \<Rightarrow> 'a tcp_state_scheme \<Rightarrow> TcpSocket \<Rightarrow> bool" where
  "sock_matches packet s k \<longleftrightarrow>
     state k \<noteq> TCP_STATE_CLOSED \<and> state k \<noteq> TCP_STATE_TIME_WAIT \<and>
     ip_isSame (ip_src (pk_ip packet s)) (dstHost k) \<and>
     ntohs (tcp_src (pk_tcp packet s)) = dstPort k \<and>
     ntohs (tcp_dst (pk_tcp packet s)) = srcPort k"

definition owningSocket :: "bufref \<Rightarrow> 'a tcp_state_scheme \<Rightarrow> nat option" where
  "owningSocket packet s =
     (let active = map (socketTable s) [0..<unat (activeSockets s)]
      in case find (\<lambda>i. sock_matches packet s (socks s i)) active of
           Some i \<Rightarrow> Some i
         | None \<Rightarrow>
             (if cfg_TCP_LISTEN s
              then find (\<lambda>i. state (socks s i) = TCP_STATE_LISTEN \<and>
                     ntohs (tcp_dst (pk_tcp packet s)) = srcPort (socks s i)) active
              else None))"

definition tcp_checksum_ok :: "bufref \<Rightarrow> 'a tcp_state_scheme \<Rightarrow> bool" where
  "tcp_checksum_ok packet s \<longleftrightarrow>
     ip_p_chksum (ip_src (pk_ip packet s)) (MyIpAddr s) (pkt_mem s packet) (pk_tcp_off packet s)
       IP_PROTOCOL_TCP (incomingDataLen packet s + ucast (getTcpHlen (pk_tcp packet s))) = 0"

definition Tcp_process :: "bufref \<Rightarrow> 'a tcp_state_scheme \<Rightarrow> 'a tcp_state_scheme option" where
  "Tcp_process packet s =
     (if \<not> tcp_checksum_ok packet s
      then Some (Buffer_free packet (s\<lparr>Tcp_ChecksumErrors := Tcp_ChecksumErrors s + 1\<rparr>))
      else
        (let s = s\<lparr>Tcp_Packets_Received := Tcp_Packets_Received s + 1\<rparr>
         in case owningSocket packet s of
              Some sock \<Rightarrow> process2 packet sock s
            | None \<Rightarrow>
                Some (Buffer_free packet
                  (sendResetPacket (pk_ip packet s) (pk_tcp packet s) (incomingDataLen packet s) s))))"

section \<open>Driving outgoing segments\<close>

text \<open>\<^verbatim>\<open>SRTT + (RTT_deviation<<2)\<close> is a 16-bit sum, extended to the width of the clock.\<close>

definition retrans_ticks :: "TcpSocket \<Rightarrow> u32" where
  "retrans_ticks k = ucast (SRTT k + push_bit 2 (RTT_deviation k)) + 2"

definition drive_retransmit :: "nat \<Rightarrow> bref \<Rightarrow> 'a tcp_state_scheme \<Rightarrow> 'a tcp_state_scheme" where
  "drive_retransmit sock p s =
     (let current = Timer_CurrentTicks s;
          s = upd_sock sock (\<lambda>k. k\<lparr>SRTT :=
                (if TCP_MAX_SRTT < push_bit 1 (SRTT k) then TCP_MAX_SRTT else push_bit 1 (SRTT k))\<rparr>) s;
          s = upd_buf p (\<lambda>b. b\<lparr>b_timeSent := current,
                b_overdueAt := current + retrans_ticks (socks s sock)\<rparr>) s;
          s = s\<lparr>Packets_Retransmitted := Packets_Retransmitted s + 1\<rparr>
      in resendPacket sock p s)"

definition drive_probe :: "nat \<Rightarrow> 'a tcp_state_scheme \<Rightarrow> 'a tcp_state_scheme" where
  "drive_probe sock s =
     (let current = Timer_CurrentTicks s
      in if TIMER_MS_TO_TICKS TCP_PROBE_INTERVAL < Timer_diff (lastAckRcvd (socks s sock)) current
         then sendPureAck sock True (upd_sock sock (\<lambda>k. k\<lparr>lastAckRcvd := current\<rparr>) s)
         else s)"

text \<open>After a first transmission the buffer moves to the sent queue, unless it was a pure ACK.\<close>

definition drive_sent :: "nat \<Rightarrow> bref \<Rightarrow> 'a tcp_state_scheme \<Rightarrow> 'a tcp_state_scheme" where
  "drive_sent sock p s =
     (let now = Timer_CurrentTicks s;
          s = upd_buf p (\<lambda>b. b\<lparr>b_attempts := b_attempts b + 1, b_timeSent := now,
                b_overdueAt := now + retrans_ticks (socks s sock)\<rparr>) s;
          s = upd_sock sock (\<lambda>k. k\<lparr>outgoing := fst (rb_dequeue (outgoing k))\<rparr>) s;
          s = s\<lparr>Pending_Outgoing := Pending_Outgoing s - 1\<rparr>
      in if \<not> wasAckOnly (tbuf s p)
         then (upd_sock sock (\<lambda>k. k\<lparr>sent := fst (rb_enqueue p (sent k))\<rparr>) s)
                \<lparr>Pending_Sent := Pending_Sent s + 1\<rparr>
         else returnXmitBuf p s)"

text \<open>One pass of the inner loop: the flag tells whether the loop goes on.\<close>

definition drive_out_step :: "nat \<Rightarrow> 'a tcp_state_scheme \<Rightarrow> 'a tcp_state_scheme \<times> bool" where
  "drive_out_step sock s =
     (case rb_peek (outgoing (socks s sock)) of
        None \<Rightarrow> (s, False)
      | Some p \<Rightarrow>
          (if \<not> rb_hasRoom (sent (socks s sock)) then (s, False)
           else if remoteWindow (socks s sock) < b_dataLen (tbuf s p) then (drive_probe sock s, False)
           else (case sendPacket sock p s of
                   (s, rc) \<Rightarrow> if rc = 0 then (drive_sent sock p s, True) else (s, False))))"

lemma drive_sent_entries:
  "rb_entries (outgoing (socks s i)) \<noteq> 0 \<Longrightarrow>
     rb_entries (outgoing (socks (drive_sent i p s) i)) = rb_entries (outgoing (socks s i)) - 1"
  by (simp add: drive_sent_def Let_def rb_dequeue_entries)

lemma drive_out_step_entries:
  assumes "snd (drive_out_step i s)"
  shows "rb_entries (outgoing (socks s i)) \<noteq> 0 \<and>
     rb_entries (outgoing (socks (fst (drive_out_step i s)) i)) = rb_entries (outgoing (socks s i)) - 1"
proof -
  obtain p where p: "rb_peek (outgoing (socks s i)) = Some p"
    using assms by (auto simp: drive_out_step_def split: option.splits)
  then have n: "rb_entries (outgoing (socks s i)) \<noteq> 0" by (auto simp: rb_peek_def)
  have "fst (drive_out_step i s) = drive_sent i p (fst (sendPacket i p s))"
    using assms p by (auto simp: drive_out_step_def split: prod.splits if_splits)
  then show ?thesis
    using n drive_sent_entries [of "fst (sendPacket i p s)" i p] by (simp add: frame_simps)
qed

function drive_outgoing :: "nat \<Rightarrow> 'a tcp_state_scheme \<Rightarrow> 'a tcp_state_scheme" where
  "drive_outgoing sock s =
     (if snd (drive_out_step sock s) then drive_outgoing sock (fst (drive_out_step sock s))
      else fst (drive_out_step sock s))"
  by pat_completeness auto

termination drive_outgoing
proof (relation "measure (\<lambda>(i, s). unat (rb_entries (outgoing (socks s i))))", goal_cases)
  case (2 i s)
  note e = drive_out_step_entries [OF 2]
  then have "0 < unat (rb_entries (outgoing (socks s i)))" using unat_gt_0 by blast
  then show ?case using e by (simp add: unat_minus_one)
qed simp

declare drive_outgoing.simps [simp del]

text \<open>
  One socket of the outer loop.  The flag is the \<^verbatim>\<open>return\<close> after a socket was destroyed.
\<close>

definition drive_socket :: "nat \<Rightarrow> 'a tcp_state_scheme \<Rightarrow> 'a tcp_state_scheme \<times> bool" where
  "drive_socket sock s =
     (case rb_peek (sent (socks s sock)) of
        None \<Rightarrow> (drive_outgoing sock s, False)
      | Some p \<Rightarrow>
          (if b_overdueAt (tbuf s p) < Timer_CurrentTicks s then
             (if TCP_RETRANS_COUNT < b_attempts (tbuf s p)
              then (upd_sock sock (\<lambda>k. k\<lparr>closeReason := 4\<rparr>) (destroy sock s), True)
              else (drive_retransmit sock p s, False))
           else (drive_outgoing sock s, False)))"

fun drive_sockets :: "nat list \<Rightarrow> 'a tcp_state_scheme \<Rightarrow> 'a tcp_state_scheme" where
  "drive_sockets [] s = s"
| "drive_sockets (i # is) s =
     (case drive_socket (socketTable s i) s of
        (s, stop) \<Rightarrow> if stop then s else drive_sockets is s)"

definition drivePackets2 :: "'a tcp_state_scheme \<Rightarrow> 'a tcp_state_scheme" where
  "drivePackets2 s = drive_sockets [0..<unat (activeSockets s)] s"

definition drivePackets :: "'a tcp_state_scheme \<Rightarrow> 'a tcp_state_scheme" where
  "drivePackets s =
     (if Pending_Sent s \<noteq> 0 \<or> Pending_Outgoing s \<noteq> 0 then drivePackets2 s else s)"

end
