(* ===== verification/Udp.thy ===== *)
theory Udp
  imports TcpProc
begin

text \<open>
  UDP, \<^verbatim>\<open>code/TCPLIB/UDP.CPP\<close>: the table of callback ports, sending with and without
  fragmentation, and the dispatch of incoming packets to the callbacks.  A packet is a memory
  image with the Ethernet header at 0, the IP header at 14, the UDP header at 34 and the data at
  42 (\<^verbatim>\<open>UdpPacket_t\<close>).  \<open>None\<close> is a call that does not return.
\<close>

unbundle bit_operations_syntax

section \<open>State\<close>

definition UDP_MAX_CALLBACKS :: u8 where [cfg_defs]: "UDP_MAX_CALLBACKS = 1"

text \<open>The registered functions are pointers; the one the stack itself registers is the resolver's.\<close>

datatype udp_fn = UdpDns | UdpUser nat

record udp_state = tcp_state +
  callbackPorts :: u8
  callbackList :: "nat \<Rightarrow> u16"
  callbackFunctions :: "nat \<Rightarrow> udp_fn"
  Udp_Packets_Sent :: u32
  Udp_Fragments_Sent :: u32
  Udp_Packets_Received :: u32
  Udp_NoHandler :: u32
  Udp_ChecksumErrors :: u32
  cfg_IP_SEND_UDP_FRAGS :: bool

definition zero_udp_state :: udp_state where
  "zero_udp_state = tcp_state.extend zero_tcp_state
     (udp_state.fields 0 (\<lambda>_. 0) (\<lambda>_. UdpDns) 0 0 0 0 0 False)"

section \<open>The callback table\<close>

definition callback_index :: "u16 \<Rightarrow> 'a udp_state_scheme \<Rightarrow> nat option" where
  "callback_index port s = find (\<lambda>i. callbackList s i = port) [0..<unat (callbackPorts s)]"

definition registerCallback :: "u16 \<Rightarrow> udp_fn \<Rightarrow> 'a udp_state_scheme \<Rightarrow> 'a udp_state_scheme \<times> int" where
  "registerCallback port f s =
     (if callbackPorts s = UDP_MAX_CALLBACKS then (s, -1)
      else if callback_index port s \<noteq> None then (s, -1)
      else (let n = unat (callbackPorts s)
            in (s\<lparr>callbackList := (callbackList s)(n := port),
                  callbackFunctions := (callbackFunctions s)(n := f),
                  callbackPorts := callbackPorts s + 1\<rparr>, 0)))"

definition unregisterCallback :: "u16 \<Rightarrow> 'a udp_state_scheme \<Rightarrow> 'a udp_state_scheme \<times> int" where
  "unregisterCallback port s =
     (case callback_index port s of
        None \<Rightarrow> (s, -1)
      | Some i \<Rightarrow>
          (let n = callbackPorts s - 1
           in (s\<lparr>callbackPorts := n,
                 callbackList := (callbackList s)(i := callbackList s (unat n)),
                 callbackFunctions := (callbackFunctions s)(i := callbackFunctions s (unat n))\<rparr>, 0)))"

text \<open>
  \<open>clock n\<close> is the low word of the BIOS time of day counter at the \<open>n\<close>th reading; the loop ends
  when the proposed port is not in the table.
\<close>

definition proposed_port :: "u16 \<Rightarrow> u16" where
  "proposed_port t = (if t < 1024 then t + 1024 else t)"

partial_function (option) getUnusedCallbackPort ::
    "(nat \<Rightarrow> u16) \<Rightarrow> nat \<Rightarrow> 'a udp_state_scheme \<Rightarrow> u16 option" where
  [code]: "getUnusedCallbackPort clock n s =
     (if callback_index (proposed_port (clock n)) s \<noteq> None
      then getUnusedCallbackPort clock (Suc n) s
      else Some (proposed_port (clock n)))"

section \<open>The checksum over a header and separate data\<close>

text \<open>\<^verbatim>\<open>ip_p_chksum2\<close> of \<^verbatim>\<open>IPASM.ASM\<close>: the header loop is unrolled twice, the data loop four times.\<close>

function lodsw_loop2 :: "mem \<Rightarrow> nat \<Rightarrow> u16 \<Rightarrow> acc \<Rightarrow> nat \<times> acc" where
  "lodsw_loop2 m si cx a =
     (let a' = adc (rd16 m (si + 2)) (adc (rd16 m si) a); cx' = cx - 1
      in if cx' = 0 then (si + 4, a') else lodsw_loop2 m (si + 4) cx' a')"
  by pat_completeness auto

termination lodsw_loop2
proof (relation "measure (\<lambda>(m, si, cx, a). unat (cx - 1))", goal_cases)
  case (2 m si cx a a' cx')
  then show ?case using unat_pred_less [of cx] by simp
qed simp

declare lodsw_loop2.simps [simp del]

definition ip_p_chksum2 ::
    "IpAddr \<Rightarrow> IpAddr \<Rightarrow> mem \<Rightarrow> nat \<Rightarrow> u8 \<Rightarrow> u16 \<Rightarrow> mem \<Rightarrow> nat \<Rightarrow> u16 \<Rightarrow> u16" where
  "ip_p_chksum2 src target m data protocol len m2 data2 len2 =
     (let a = pseudo_acc src target protocol (len + len2);
          (_, a) = lodsw_loop2 m data (drop_bit 2 len) (clc a);
          a = adc 0 a;
          dx = len2;
          (si, a) = (if len2 < 8 then (data2, a)
                     else (let (si', a') = lodsw_loop4 m2 data2 (drop_bit 3 len2) (clc a) in (si', adc 0 a')));
          cx = drop_bit 1 dx AND 3;
          (si, a) = (if cx = 0 then (si, a)
                     else (let (si', a') = lodsw_loop m2 si cx (clc a) in (si', adc 0 a')));
          a = odd_byte m2 si dx a
      in NOT (fst a))"

section \<open>Sending\<close>

text \<open>The UDP, IP and Ethernet headers of a packet whose data is in place.\<close>

definition udp_header :: "u16 \<Rightarrow> u16 \<Rightarrow> u16 \<Rightarrow> UdpHeader" where
  "udp_header sport dport udpLen =
     \<lparr>udp_src = htons sport, udp_dst = htons dport, udp_len = htons udpLen, udp_chksum = 0\<rparr>"

definition put_ip ::
    "u8 \<Rightarrow> IpAddr \<Rightarrow> u16 \<Rightarrow> u8 \<Rightarrow> u16 \<Rightarrow> mem \<Rightarrow> 'a ipsend_state_scheme \<Rightarrow> 'a ipsend_state_scheme \<times> mem" where
  "put_ip protocol host plen moreFrags off m s =
     (let (s, h) = IpHeader_set protocol host plen moreFrags off (read_IpHeader m 14) s
      in (s, memcpy m 14 (ip_bytes h)))"

definition put_eth :: "mem \<Rightarrow> 'a net_scheme \<Rightarrow> mem" where
  "put_eth m s = memcpy m 0 (eth_bytes (eh_setType 0x0800 (eh_setSrc (MyEthAddr s) (read_EthHeader m))))"

definition put_dest :: "EthAddr \<Rightarrow> mem \<Rightarrow> mem" where
  "put_dest a m = memcpy m 0 (eth_bytes (eh_setDest a (read_EthHeader m)))"

definition udp_frame :: "mem \<Rightarrow> u16 \<Rightarrow> frame" where
  "udp_frame m n = UdpFrame (read_EthHeader m) (read_IpHeader m 14) (read_UdpHeader m 34) (rdbytes m 42 (unat n))"

definition udp_fill ::
    "IpAddr \<Rightarrow> u16 \<Rightarrow> u16 \<Rightarrow> u16 \<Rightarrow> mem \<Rightarrow> 'a udp_state_scheme \<Rightarrow> 'a udp_state_scheme \<times> mem" where
  "udp_fill host sport dport plen m s =
     (let udpLen = 8 + plen;
          m = memcpy m 34 (udp_bytes (udp_header sport dport udpLen));
          ck = ip_p_chksum (MyIpAddr s) host m 34 IP_PROTOCOL_UDP udpLen;
          m = memcpy m 34 (udp_bytes ((udp_header sport dport udpLen)\<lparr>udp_chksum := ck\<rparr>));
          (s, m) = put_ip IP_PROTOCOL_UDP host udpLen 0 0 m s
      in (s, put_eth m s))"

text \<open>Address resolution and transmission; the result code is 0 when sent, 1 when it waits for ARP.\<close>

definition udp_transmit :: "u16 \<Rightarrow> mem \<Rightarrow> 'a udp_state_scheme \<Rightarrow> 'a udp_state_scheme \<times> mem \<times> int" where
  "udp_transmit plen m s =
     (case setDestEth (ip_dest (read_IpHeader m 14)) s of
        (s, None) \<Rightarrow> (s, m, 1)
      | (s, Some a) \<Rightarrow>
          (let m = put_dest a m;
               s = Packet_send_pkt (udp_frame m plen) (42 + plen) s
           in (s\<lparr>Udp_Packets_Sent := Udp_Packets_Sent s + 1\<rparr>, m, 0)))"

section \<open>Sending in fragments\<close>

text \<open>
  The loop over the remaining data at \<open>off\<close> in the user's payload \<open>pl\<close>; the buffer \<open>m\<close> is reused.
\<close>

definition frag_more_flag :: "u16 \<Rightarrow> u16 \<Rightarrow> u8 \<times> u16" where
  "frag_more_flag mtu plen =
     (if plen < mtu - 20 then (0, plen) else (1, (mtu - 20) AND 0xFFF8))"

definition udp_frag_step ::
    "IpAddr \<Rightarrow> mem \<Rightarrow> nat \<Rightarrow> u16 \<Rightarrow> u16 \<Rightarrow> mem \<Rightarrow> 'a udp_state_scheme \<Rightarrow> 'a udp_state_scheme \<times> mem \<times> u16" where
  "udp_frag_step host pl off plen ipOffset m s =
     (let (mf, copyLen) = frag_more_flag (MyMTU s) plen;
          m = memcpy m 34 (rdbytes pl off (unat copyLen));
          (s, m) = put_ip IP_PROTOCOL_UDP host copyLen mf ipOffset m s;
          s = Packet_send_pkt (IpFrame (read_EthHeader m) (read_IpHeader m 14) (rdbytes m 34 (unat copyLen)))
                (copyLen + 34) s
      in (s\<lparr>Udp_Packets_Sent := Udp_Packets_Sent s + 1, Udp_Fragments_Sent := Udp_Fragments_Sent s + 1\<rparr>, m, copyLen))"

partial_function (option) udp_frag_loop ::
    "IpAddr \<Rightarrow> mem \<Rightarrow> nat \<Rightarrow> u16 \<Rightarrow> u16 \<Rightarrow> mem \<Rightarrow> 'a udp_state_scheme \<Rightarrow> 'a udp_state_scheme option" where
  [code]: "udp_frag_loop host pl off plen ipOffset m s =
     (if plen = 0 then Some s
      else (let r = udp_frag_step host pl off plen ipOffset m s; copyLen = snd (snd r)
            in udp_frag_loop host pl (off + unat copyLen) (plen - copyLen) (ipOffset + copyLen) (fst (snd r)) (fst r)))"

definition sendUdpFragments ::
    "IpAddr \<Rightarrow> u16 \<Rightarrow> u16 \<Rightarrow> u16 \<Rightarrow> mem \<Rightarrow> bool \<Rightarrow> 'a udp_state_scheme \<Rightarrow> ('a udp_state_scheme \<times> int) option" where
  "sendUdpFragments host sport dport plen data preAlloc s =
     (case malloc s of
        (s, None) \<Rightarrow> Some (s, -1)
      | (s, Some p) \<Rightarrow>
          (let off = (if preAlloc then 42 else 0);
               copyLen = (MyMTU s - 20 - 8) AND 0xFFF8;
               udpLen = 8 + plen;
               m = memcpy (heap_mem s p) 34 (udp_bytes (udp_header sport dport udpLen));
               ck = ip_p_chksum2 (MyIpAddr s) host m 34 IP_PROTOCOL_UDP 8 data off plen;
               m = memcpy m 34 (udp_bytes ((udp_header sport dport udpLen)\<lparr>udp_chksum := ck\<rparr>));
               m = memcpy m 42 (rdbytes data off (unat copyLen));
               (s, m) = put_ip IP_PROTOCOL_UDP host (copyLen + 8) 1 0 m s;
               m = put_eth m s
           in case setDestEth (ip_dest (read_IpHeader m 14)) s of
                (s, None) \<Rightarrow> Some (free p s, 1)
              | (s, Some a) \<Rightarrow>
                  (let m = put_dest a m;
                       s = Packet_send_pkt (udp_frame m copyLen) (copyLen + 28 + 14) s
                   in map_option (\<lambda>s. (s, 0))
                        (udp_frag_loop host data (off + unat copyLen) (plen - copyLen) (copyLen + 8) m s))))"

text \<open>
  \<open>sendUdp\<close>: with \<open>preAlloc\<close> the memory \<open>data\<close> is the whole packet and comes back with its
  headers filled in, otherwise it is the payload and a packet is allocated for the call.
\<close>

definition sendUdp ::
    "IpAddr \<Rightarrow> u16 \<Rightarrow> u16 \<Rightarrow> u16 \<Rightarrow> mem \<Rightarrow> bool \<Rightarrow> 'a udp_state_scheme \<Rightarrow> ('a udp_state_scheme \<times> mem \<times> int) option" where
  "sendUdp host sport dport plen data preAlloc s =
     (if MyMTU s - 20 - 8 < plen then
        (if cfg_IP_SEND_UDP_FRAGS s
         then map_option (\<lambda>(s, rc). (s, data, rc)) (sendUdpFragments host sport dport plen data preAlloc s)
         else Some (s, data, -1))
      else if preAlloc then
        (let (s, m) = udp_fill host sport dport plen data s in Some (udp_transmit plen m s))
      else
        (case malloc s of
           (s, None) \<Rightarrow> Some (s, data, -1)
         | (s, Some p) \<Rightarrow>
             (let m = memcpy (heap_mem s p) 42 (rdbytes data 0 (unat plen));
                  (s, m) = udp_fill host sport dport plen m s;
                  (s, _, rc) = udp_transmit plen m s
              in Some (free p s, data, rc))))"

section \<open>Receiving\<close>

definition pk_udp :: "bufref \<Rightarrow> 'a net_scheme \<Rightarrow> UdpHeader" where
  "pk_udp packet s = read_UdpHeader (pkt_mem s packet) (pk_tcp_off packet s)"

definition udp_checksum_ok :: "bufref \<Rightarrow> 'a net_scheme \<Rightarrow> bool" where
  "udp_checksum_ok packet s \<longleftrightarrow>
     udp_chksum (pk_udp packet s) = 0 \<or>
     ip_p_chksum (ip_src (pk_ip packet s)) (ip_dest (pk_ip packet s)) (pkt_mem s packet) (pk_tcp_off packet s)
       IP_PROTOCOL_UDP (ntohs (udp_len (pk_udp packet s))) = 0"

text \<open>The test after the search, which looks at the port count again after the callback has run.\<close>

definition udp_unhandled :: "bufref \<Rightarrow> nat \<Rightarrow> 'a udp_state_scheme \<Rightarrow> 'a udp_state_scheme" where
  "udp_unhandled packet i s =
     (if i = unat (callbackPorts s) then Buffer_free packet (s\<lparr>Udp_NoHandler := Udp_NoHandler s + 1\<rparr>) else s)"

definition Udp_process ::
    "(udp_fn \<Rightarrow> bufref \<Rightarrow> 'a udp_state_scheme \<Rightarrow> 'a udp_state_scheme option) \<Rightarrow> bufref \<Rightarrow>
     'a udp_state_scheme \<Rightarrow> 'a udp_state_scheme option" where
  "Udp_process call packet s =
     (let s = s\<lparr>Udp_Packets_Received := Udp_Packets_Received s + 1\<rparr>
      in if \<not> udp_checksum_ok packet s
         then Some (Buffer_free packet (s\<lparr>Udp_ChecksumErrors := Udp_ChecksumErrors s + 1\<rparr>))
         else (case callback_index (ntohs (udp_dst (pk_udp packet s))) s of
                 Some i \<Rightarrow> map_option (udp_unhandled packet i) (call (callbackFunctions s i) packet s)
               | None \<Rightarrow> Some (udp_unhandled packet (unat (callbackPorts s)) s)))"

section \<open>The callback table is a map\<close>

definition callbacks :: "'a udp_state_scheme \<Rightarrow> u16 \<rightharpoonup> udp_fn" where
  "callbacks s port = map_option (callbackFunctions s) (callback_index port s)"

definition callbacks_wf :: "'a udp_state_scheme \<Rightarrow> bool" where
  "callbacks_wf s \<longleftrightarrow> callbackPorts s \<le> UDP_MAX_CALLBACKS \<and>
     distinct (map (callbackList s) [0..<unat (callbackPorts s)])"

lemma callback_index_Some:
  assumes "distinct (map (callbackList s) [0..<unat (callbackPorts s)])"
  shows "callback_index port s = Some i \<longleftrightarrow> i < unat (callbackPorts s) \<and> callbackList s i = port"
proof
  assume "callback_index port s = Some i"
  then show "i < unat (callbackPorts s) \<and> callbackList s i = port"
    by (auto simp: callback_index_def find_Some_iff)
next
  assume i: "i < unat (callbackPorts s) \<and> callbackList s i = port"
  have "callbackList s j \<noteq> port" if "j < i" for j
  proof
    assume "callbackList s j = port"
    then have "callbackList s i = callbackList s j" using i by simp
    moreover have "j < unat (callbackPorts s)" using i that by simp
    ultimately have "i = j" using assms i by (auto simp: distinct_map inj_on_def)
    then show False using that by simp
  qed
  then show "callback_index port s = Some i"
    using i by (auto simp: callback_index_def find_Some_iff)
qed

lemma callback_index_None:
  "callback_index port s = None \<longleftrightarrow> (\<forall>i<unat (callbackPorts s). callbackList s i \<noteq> port)"
  by (auto simp: callback_index_def find_None_iff)

lemma register_spec:
  assumes "callbacks_wf s"
  shows "callbacks_wf (fst (registerCallback port f s)) \<and>
    (if callbackPorts s < UDP_MAX_CALLBACKS \<and> callbacks s port = None
     then snd (registerCallback port f s) = 0 \<and> callbacks (fst (registerCallback port f s)) = (callbacks s)(port \<mapsto> f)
     else registerCallback port f s = (s, -1))"
proof (cases "callbackPorts s < UDP_MAX_CALLBACKS \<and> callbacks s port = None")
  case False
  then show ?thesis
    using assms by (auto simp: registerCallback_def callbacks_def callbacks_wf_def)
next
  case True
  let ?n = "callbackPorts s" and ?t = "fst (registerCallback port f s)"
  have new: "callback_index port s = None" using True by (simp add: callbacks_def)
  have r: "registerCallback port f s = (s\<lparr>callbackList := (callbackList s)(unat ?n := port),
                  callbackFunctions := (callbackFunctions s)(unat ?n := f), callbackPorts := ?n + 1\<rparr>, 0)"
    using True new by (auto simp: registerCallback_def Let_def)
  have n: "unat (?n + 1) = Suc (unat ?n)"
    using True by (intro u8_Suc) (simp add: cfg_defs word_less_nat_alt)
  have d: "distinct (map (callbackList ?t) [0..<unat (callbackPorts ?t)])"
    using assms new by (auto simp: r n callbacks_wf_def callback_index_None distinct_map inj_on_def)
  have wf: "callbacks_wf ?t"
    using d True by (simp add: callbacks_wf_def r cfg_defs word_le_nat_alt word_less_nat_alt n)
  have "callbacks ?t q = ((callbacks s)(port \<mapsto> f)) q" for q
  proof (cases "callback_index q s")
    case None
    then show ?thesis
    proof (cases "q = port")
      case True
      have "callback_index q ?t = Some (unat ?n)"
        using callback_index_Some [OF d, of q "unat ?n"] True by (simp add: r n)
      then show ?thesis using True by (simp add: callbacks_def r)
    next
      case False
      then have "callback_index q ?t = None"
        using None by (auto simp: callback_index_None r n less_Suc_eq)
      then show ?thesis using None False by (simp add: callbacks_def)
    qed
  next
    case (Some i)
    then have i: "i < unat ?n" "callbackList s i = q"
      using callback_index_Some [of s q i] assms by (auto simp: callbacks_wf_def)
    then have "callback_index q ?t = Some i" using callback_index_Some [OF d, of q i] by (simp add: r n)
    moreover have "q \<noteq> port" using i new by (auto simp: callback_index_None)
    ultimately show ?thesis using Some i by (simp add: callbacks_def r)
  qed
  then show ?thesis using True wf by (auto simp: r)
qed

lemma unregister_spec:
  assumes "callbacks_wf s"
  shows "callbacks_wf (fst (unregisterCallback port s)) \<and>
    snd (unregisterCallback port s) = (if callbacks s port = None then -1 else 0) \<and>
    callbacks (fst (unregisterCallback port s)) = (callbacks s)(port := None)"
proof (cases "callback_index port s")
  case None
  then show ?thesis using assms by (auto simp: unregisterCallback_def callbacks_def fun_eq_iff)
next
  case (Some i)
  let ?n = "callbackPorts s" and ?t = "fst (unregisterCallback port s)"
  have d: "distinct (map (callbackList s) [0..<unat ?n])" using assms by (simp add: callbacks_wf_def)
  have i: "i < unat ?n" "callbackList s i = port" using Some callback_index_Some [OF d] by auto
  have n: "unat ?n = Suc (unat (?n - 1))" using i(1) u8_pred [of ?n] by (cases "?n = 0") auto
  have r: "unregisterCallback port s = (s\<lparr>callbackPorts := ?n - 1,
                 callbackList := (callbackList s)(i := callbackList s (unat (?n - 1))),
                 callbackFunctions := (callbackFunctions s)(i := callbackFunctions s (unat (?n - 1)))\<rparr>, 0)"
    by (simp add: unregisterCallback_def Some Let_def)
  have inj: "j = k" if "callbackList s j = callbackList s k" "j < unat ?n" "k < unat ?n" for j k
    using that d by (simp add: distinct_map inj_on_def)
  have inj': "j = k" if "callbackList s j = callbackList s k" "j \<le> unat (?n - 1)" "k \<le> unat (?n - 1)" for j k
    using inj [OF that(1)] that(2,3) n by simp
  have d': "distinct (map (callbackList ?t) [0..<unat (callbackPorts ?t)])"
    using i n by (auto simp: r distinct_map inj_on_def dest: inj')
  have wf: "callbacks_wf ?t"
    using d' assms n by (simp add: callbacks_wf_def r word_le_nat_alt)
  have "callbacks ?t q = ((callbacks s)(port := None)) q" for q
  proof (cases "q = port")
    case True
    have "callback_index port ?t = None"
      using inj i n by (auto simp: callback_index_None r)
    then show ?thesis using True by (simp add: callbacks_def)
  next
    case False
    show ?thesis
    proof (cases "callback_index q s")
      case None
      then have "callback_index q ?t = None"
        using n by (auto simp: callback_index_None r)
      then show ?thesis using None False by (simp add: callbacks_def)
    next
      case (Some k)
      then have k: "k < unat ?n" "callbackList s k = q" using callback_index_Some [OF d] by auto
      define k' where "k' = (if k = unat (?n - 1) then i else k)"
      have "k \<noteq> i" using k i False by auto
      then have "callback_index q ?t = Some k'"
        using callback_index_Some [OF d', of q k'] k i n False by (auto simp: r k'_def)
      then show ?thesis
        using Some False \<open>k \<noteq> i\<close> by (simp add: callbacks_def r k'_def)
    qed
  qed
  then show ?thesis using wf Some by (auto simp: r callbacks_def)
qed

section \<open>A frame is the image of the packet\<close>

lemma header_bytes_at:
  "eth_bytes (read_EthHeader m) = rdbytes m 0 14"
  "ip_bytes (read_IpHeader m p) = rdbytes m p 20"
  "udp_bytes (read_UdpHeader m p) = rdbytes m p 8"
  by (simp_all add: eth_bytes_def read_EthHeader_def eth_addr_bytes_def rdeth_def rd16_def rdbytes_def upt_rec
      ip_bytes_def read_IpHeader_def ip_addr_bytes_def rdip_def udp_bytes_def read_UdpHeader_def numeral_eq_Suc)

lemma udp_frame_image: "frame_bytes (udp_frame m n) = rdbytes m 0 (42 + unat n)"
proof -
  have "rdbytes m 0 (42 + unat n) = rdbytes m 0 14 @ rdbytes m 14 20 @ rdbytes m 34 8 @ rdbytes m 42 (unat n)"
    using rdbytes_append [of m 0 14 "28 + unat n"] rdbytes_append [of m 14 20 "8 + unat n"]
      rdbytes_append [of m 34 8 "unat n"] by simp
  then show ?thesis by (simp add: udp_frame_def frame_bytes_def header_bytes_at)
qed

text \<open>Reads of the headers depend on their bytes only.\<close>

lemma read_headers_cong:
  assumes "\<And>i. p \<le> i \<Longrightarrow> i < p + 20 \<Longrightarrow> m i = m' i"
  shows "read_IpHeader m p = read_IpHeader m' p" and "read_UdpHeader m p = read_UdpHeader m' p"
  using assms by (simp_all add: read_IpHeader_def read_UdpHeader_def rd16_def rdip_def)

lemma read_IpHeader_below: "q + length xs \<le> p \<or> p + 20 \<le> q \<Longrightarrow> read_IpHeader (memcpy m q xs) p = read_IpHeader m p"
  by (rule read_headers_cong) (auto simp: memcpy_def)

lemma read_UdpHeader_other: "q + length xs \<le> p \<or> p + 8 \<le> q \<Longrightarrow> read_UdpHeader (memcpy m q xs) p = read_UdpHeader m p"
  by (auto simp: read_UdpHeader_def rd16_def memcpy_def)

lemma ip_p_chksum_other:
  assumes "8 \<le> unat len" and "q + length xs \<le> p"
  shows "ip_p_chksum src dst (memcpy m q xs) p pr len = ip_p_chksum src dst m p pr len"
  by (rule ip_p_chksum_cong [OF assms(1)]) (use assms(2) in \<open>auto simp: memcpy_def\<close>)

lemma udp_checksum_stored:
  assumes "8 \<le> unat len" and "udp_chksum h = 0"
    and "c = ip_p_chksum src dst (memcpy m p (udp_bytes h)) p pr len"
  shows "ip_p_chksum src dst (memcpy m p (udp_bytes (h\<lparr>udp_chksum := c\<rparr>))) p pr len = 0"
proof -
  let ?m = "memcpy m p (udp_bytes h)"
  have z: "rd16 ?m (p + 2 * 3) = 0"
    using rd16_memcpy [of 6 "udp_bytes h" m p] assms(2) by (simp add: udp_bytes_def bytes16_def le16_def)
  have "memcpy m p (udp_bytes (h\<lparr>udp_chksum := c\<rparr>)) = memcpy ?m (p + 2 * 3) (bytes16 c)"
    by (rule ext) (auto simp: memcpy_def udp_bytes_def bytes16_def nth_Cons split: nat.split)
  then show ?thesis
    using ip_p_chksum_store [of 3 len ?m p src dst pr] z assms(1,3) by simp
qed

section \<open>What is sent is what is received\<close>

lemma put_ip_result:
  "put_ip pr host n mf off m s =
     (fst (IpHeader_set pr host n mf off (read_IpHeader m 14) s),
      memcpy m 14 (ip_bytes (snd (IpHeader_set pr host n mf off (read_IpHeader m 14) s))))"
  by (simp add: put_ip_def split_beta)

lemma udp_fill_result:
  assumes "unat plen \<le> 65527"
  shows "fst (udp_fill host sp dp plen m s) = s\<lparr>IpIdent := IpIdent s + 1\<rparr>"
    and "\<exists>h. read_IpHeader (snd (udp_fill host sp dp plen m s)) 14 = snd (IpHeader_set IP_PROTOCOL_UDP host (8 + plen) 0 0 h s)"
    and "\<exists>c. read_UdpHeader (snd (udp_fill host sp dp plen m s)) 34 = (udp_header sp dp (8 + plen))\<lparr>udp_chksum := c\<rparr>"
    and "ip_p_chksum (MyIpAddr s) host (snd (udp_fill host sp dp plen m s)) 34 IP_PROTOCOL_UDP (8 + plen) = 0"
    and "rdbytes (snd (udp_fill host sp dp plen m s)) 42 n = rdbytes m 42 n"
proof -
  define h0 where "h0 = udp_header sp dp (8 + plen)"
  define c where "c = ip_p_chksum (MyIpAddr s) host (memcpy m 34 (udp_bytes h0)) 34 IP_PROTOCOL_UDP (8 + plen)"
  define m1 where "m1 = memcpy (memcpy m 34 (udp_bytes h0)) 34 (udp_bytes (h0\<lparr>udp_chksum := c\<rparr>))"
  have m1: "m1 = memcpy m 34 (udp_bytes (h0\<lparr>udp_chksum := c\<rparr>))"
    by (auto simp: m1_def memcpy_def)
  define hi where "hi = IpHeader_set IP_PROTOCOL_UDP host (8 + plen) 0 0 (read_IpHeader m1 14) s"
  define s1 where "s1 = fst hi"
  have len: "8 \<le> unat (8 + plen)" using assms by (simp add: unat_word_ariths)
  have e: "udp_fill host sp dp plen m s = (s1, put_eth (memcpy m1 14 (ip_bytes (snd hi))) s1)"
    by (simp add: udp_fill_def Let_def put_ip_result h0_def [symmetric] c_def [symmetric] m1_def [symmetric]
        hi_def [symmetric] s1_def del: IpHeader_set_frame)
  show "fst (udp_fill host sp dp plen m s) = s\<lparr>IpIdent := IpIdent s + 1\<rparr>"
    by (simp add: e s1_def hi_def)
  show "\<exists>h. read_IpHeader (snd (udp_fill host sp dp plen m s)) 14 = snd (IpHeader_set IP_PROTOCOL_UDP host (8 + plen) 0 0 h s)"
    by (intro exI [of _ "read_IpHeader m1 14"]) (simp add: e put_eth_def read_IpHeader_below hi_def)
  show "\<exists>c. read_UdpHeader (snd (udp_fill host sp dp plen m s)) 34 = (udp_header sp dp (8 + plen))\<lparr>udp_chksum := c\<rparr>"
    using read_UdpHeader_udp_bytes [of m 34 "h0\<lparr>udp_chksum := c\<rparr>" "[]"]
    by (intro exI [of _ c]) (simp add: e put_eth_def read_UdpHeader_other m1 h0_def [symmetric])
  show "ip_p_chksum (MyIpAddr s) host (snd (udp_fill host sp dp plen m s)) 34 IP_PROTOCOL_UDP (8 + plen) = 0"
    using udp_checksum_stored [OF len _ c_def] by (simp add: e put_eth_def ip_p_chksum_other [OF len] m1) (simp add: h0_def udp_header_def)
  show "rdbytes (snd (udp_fill host sp dp plen m s)) 42 n = rdbytes m 42 n"
    by (simp add: e put_eth_def rdbytes_memcpy_disj m1)
qed

lemma setDestEth_found: "setDestEth ip s = (t, Some a) \<Longrightarrow> t = s"
  by (auto simp: setDestEth_def resolve_def Let_def split: if_splits option.splits)

lemma udp_packet_read:
  fixes t :: "'a udp_state_scheme" and m plen
  defines "img \<equiv> rdbytes m 0 (42 + unat plen)"
  assumes mem: "pkt_mem t b = memcpy x 0 img" and hl: "getIpHlen (read_IpHeader m 14) = 20" and n: "unat plen \<le> 65493"
    and ck: "ip_p_chksum (ip_src (read_IpHeader m 14)) (ip_dest (read_IpHeader m 14)) m 34 IP_PROTOCOL_UDP (8 + plen) = 0"
    and hd: "read_UdpHeader m 34 = (udp_header sp dp (8 + plen))\<lparr>udp_chksum := c\<rparr>"
  shows "pk_ip b t = read_IpHeader m 14" and "pk_tcp_off b t = 34" and "pk_udp b t = read_UdpHeader m 34"
    and "udp_checksum_ok b t" and "rdbytes (pkt_mem t b) 42 (unat plen) = rdbytes m 42 (unat plen)"
proof -
  have agree: "pkt_mem t b i = m i" if "i < 42 + unat plen" for i
    using that by (simp add: mem img_def memcpy_def)
  show ip: "pk_ip b t = read_IpHeader m 14"
    unfolding pk_ip_def by (rule read_headers_cong(1)) (use agree in auto)
  show off: "pk_tcp_off b t = 34" by (simp add: pk_tcp_off_def ip payloadOff_def hl)
  have "read_UdpHeader (pkt_mem t b) 34 = read_UdpHeader m 34"
    using agree by (simp add: read_UdpHeader_def rd16_def)
  then show udp: "pk_udp b t = read_UdpHeader m 34" by (simp add: pk_udp_def off)
  have len: "unat (8 + plen) = 8 + unat plen" using n by (simp add: unat_word_ariths)
  have "ip_p_chksum a d (pkt_mem t b) 34 pr (8 + plen) = ip_p_chksum a d m 34 pr (8 + plen)" for a d pr
    by (rule ip_p_chksum_cong) (use agree len in auto)
  then show "udp_checksum_ok b t"
    using ck by (simp add: udp_checksum_ok_def ip off udp hd udp_header_def)
  show "rdbytes (pkt_mem t b) 42 (unat plen) = rdbytes m 42 (unat plen)"
    by (rule rdbytes_cong) (use agree in auto)
qed

lemma sendUdp_sent:
  assumes "sendUdp host sp dp plen data True s = Some (s', m, 0)" and "unat plen \<le> 65493"
    and "\<not> MyMTU s - 28 < plen"
  shows "getIpHlen (read_IpHeader m 14) = 20 \<and> ip_src (read_IpHeader m 14) = MyIpAddr s \<and>
      ip_dest (read_IpHeader m 14) = host \<and> ip_protocol (read_IpHeader m 14) = IP_PROTOCOL_UDP \<and>
      payloadLen (read_IpHeader m 14) = 8 + plen"
    and "ip_p_chksum (MyIpAddr s) host m 34 IP_PROTOCOL_UDP (8 + plen) = 0"
    and "\<exists>c. read_UdpHeader m 34 = (udp_header sp dp (8 + plen))\<lparr>udp_chksum := c\<rparr>"
    and "rdbytes m 42 (unat plen) = rdbytes data 42 (unat plen)"
    and "wire s' = (if drv_ok s then wire s @ [(udp_frame m plen, if 42 + plen < 60 then 60 else 42 + plen)] else wire s)"
proof -
  define m0 where "m0 = snd (udp_fill host sp dp plen data s)"
  define t where "t = fst (udp_fill host sp dp plen data s)"
  have n: "unat plen \<le> 65527" using assms(2) by simp
  note r = udp_fill_result [OF n, where host = host and sp = sp and dp = dp and m = data and s = s, folded m0_def t_def]
  obtain h where h: "read_IpHeader m0 14 = snd (IpHeader_set IP_PROTOCOL_UDP host (8 + plen) 0 0 h s)" using r(2) by blast
  have tr: "udp_transmit plen m0 t = (s', m, 0)"
    using assms(1,3) by (simp add: sendUdp_def split_beta t_def m0_def)
  obtain u a where a: "setDestEth (ip_dest (read_IpHeader m0 14)) t = (u, Some a)"
    using tr by (auto simp: udp_transmit_def split: prod.splits option.splits)
  have u: "u = t" using setDestEth_found [OF a] .
  have m: "m = put_dest a m0"
    and w: "s' = (Packet_send_pkt (udp_frame m plen) (42 + plen) t)
      \<lparr>Udp_Packets_Sent := Udp_Packets_Sent (Packet_send_pkt (udp_frame m plen) (42 + plen) t) + 1\<rparr>"
    using tr by (auto simp: udp_transmit_def a u Let_def)
  have h': "read_IpHeader m 14 = read_IpHeader m0 14" by (simp add: m put_dest_def read_IpHeader_below)
  show "getIpHlen (read_IpHeader m 14) = 20 \<and> ip_src (read_IpHeader m 14) = MyIpAddr s \<and>
      ip_dest (read_IpHeader m 14) = host \<and> ip_protocol (read_IpHeader m 14) = IP_PROTOCOL_UDP \<and>
      payloadLen (read_IpHeader m 14) = 8 + plen"
    by (simp add: h' h IpHeader_set_fields)
  have len: "8 \<le> unat (8 + plen)" using n by (simp add: unat_word_ariths)
  show "ip_p_chksum (MyIpAddr s) host m 34 IP_PROTOCOL_UDP (8 + plen) = 0"
    using r(4) by (simp add: m put_dest_def ip_p_chksum_other [OF len])
  show "\<exists>c. read_UdpHeader m 34 = (udp_header sp dp (8 + plen))\<lparr>udp_chksum := c\<rparr>"
    using r(3) by (simp add: m put_dest_def read_UdpHeader_other)
  show "rdbytes m 42 (unat plen) = rdbytes data 42 (unat plen)"
    using r(5) by (simp add: m put_dest_def rdbytes_memcpy_disj)
  show "wire s' = (if drv_ok s then wire s @ [(udp_frame m plen, if 42 + plen < 60 then 60 else 42 + plen)] else wire s)"
    using Packet_send_pkt_wire [of "udp_frame m plen" "42 + plen" t] by (simp add: w r(1) drv_ok_def)
qed

section \<open>The split checksum\<close>

lemma lodsw_loop2_spec:
  "acc_rep n a \<Longrightarrow> acc_rep (n + word_sum (words_at m si (2 * loop_count cx))) (snd (lodsw_loop2 m si cx a))"
proof (induction m si cx a arbitrary: n rule: lodsw_loop2.induct)
  case (1 m si cx a)
  let ?a = "adc (rd16 m (si + 2)) (adc (rd16 m si) a)"
  have two: "words_at m si (Suc (Suc k)) = words_at m si 2 @ words_at m (si + 4) k" for k
    using words_at_append [of m si 2 k] by simp
  have w2: "word_sum (words_at m si 2) = unat (rd16 m si) + unat (rd16 m (si + 2))"
    by (simp add: words_at_def numeral_eq_Suc)
  have r: "acc_rep (n + word_sum (words_at m si 2)) ?a"
    using adc_rep [OF adc_rep [OF 1(2)]] unfolding w2 by (rule acc_rep_cong) simp
  show ?case
  proof (cases "cx - 1 = 0")
    case True
    then show ?thesis
      using r by (subst lodsw_loop2.simps) (simp add: Let_def loop_count_last)
  next
    case False
    then show ?thesis
      using 1(1) [OF refl refl False r] by (subst lodsw_loop2.simps)
        (simp add: Let_def loop_count_step [OF False] two add.assoc)
  qed
qed

lemma ip_p_chksum2_reference:
  assumes "4 \<le> unat len" and "4 dvd unat len"
  shows "ip_p_chksum2 src target m p protocol len m2 p2 len2 =
     oc_checksum (pseudo_words src target protocol (len + len2) @ words_at m p (unat len div 2) @
       block_words m2 p2 (unat len2))"
proof -
  let ?P = "word_sum (pseudo_words src target protocol (len + len2)) + word_sum (words_at m p (unat len div 2))"
  let ?n = "unat len2"
  define a where "a = adc 0 (snd (lodsw_loop2 m p (drop_bit 2 len) (pseudo_acc src target protocol (len + len2))))"
  have c: "2 * loop_count (drop_bit 2 len) = unat len div 2"
    using loop_count_drop [of 2 len] assms by (auto simp: dvd_def)
  have a: "acc_rep ?P a" "\<not> snd a"
    using lodsw_loop2_spec [OF pseudo_acc_rep(1) [of src target protocol "len + len2"], of m p "drop_bit 2 len"]
      c adc_0_rep by (simp_all add: a_def)
  define u where "u = (if len2 < 8 then (p2, a)
     else (let (si', a') = lodsw_loop4 m2 p2 (drop_bit 3 len2) (clc a) in (si', adc 0 a')))"
  have u: "acc_rep (?P + word_sum (words_at m2 p2 (4 * (?n div 8)))) (snd u) \<and> \<not> snd (snd u) \<and> fst u = p2 + 8 * (?n div 8)"
  proof (cases "len2 < 8")
    case True
    then have "?n div 8 = 0" by (simp add: word_less_nat_alt)
    moreover have "words_at m2 p2 0 = []" by (simp add: words_at_def)
    ultimately show ?thesis using True a by (simp add: u_def)
  next
    case False
    then have lc: "loop_count (drop_bit 3 len2) = ?n div 8"
      using loop_count_drop [of 3 len2] by (simp add: word_less_nat_alt)
    note r = lodsw_loop4_spec [OF a(1), of m2 p2 "drop_bit 3 len2"]
    show ?thesis
      using False r adc_0_rep [OF r [THEN conjunct2]]
      by (simp add: u_def clc_id [OF a(2)] Let_def split_beta lc)
  qed
  define t where "t = (if drop_bit 1 len2 AND 3 = 0 then (fst u, snd u)
     else (let (si', a') = lodsw_loop m2 (fst u) (drop_bit 1 len2 AND 3) (clc (snd u)) in (si', adc 0 a')))"
  have "fst (odd_byte m2 (fst t) len2 (snd t)) = of_nat (oc_fold (?P + word_sum (block_words m2 p2 ?n)))"
    using unrolled_tail [of ?P m2 p2 len2 "snd u" "fst u"] u unfolding t_def by (intro acc_rep_final) simp_all
  moreover have "ip_p_chksum2 src target m p protocol len m2 p2 len2 = NOT (fst (odd_byte m2 (fst t) len2 (snd t)))"
    by (simp add: ip_p_chksum2_def Let_def t_def u_def a_def clc_id [OF pseudo_acc_rep(2)] split_beta)
  ultimately show ?thesis by (simp add: oc_checksum_def add.assoc)
qed

text \<open>Header and data checksummed apart give the checksum of the block they form.\<close>

lemma block_words_split:
  assumes "even k"
  shows "block_words m p (k + n) = words_at m p (k div 2) @ block_words m (p + k) n"
  using assms by (auto simp: block_words_def words_at_append add.assoc elim!: evenE)

lemma ip_p_chksum2_joined:
  assumes "4 \<le> unat len" and "4 dvd unat len" and "unat len + unat len2 \<le> 65535" and "8 \<le> unat len + unat len2"
    and "\<And>i. i < unat len \<Longrightarrow> m' (q + i) = m (p + i)"
    and "\<And>i. i < unat len2 \<Longrightarrow> m' (q + unat len + i) = m2 (p2 + i)"
  shows "ip_p_chksum2 src target m p protocol len m2 p2 len2 = ip_p_chksum src target m' q protocol (len + len2)"
proof -
  have n: "unat (len + len2) = unat len + unat len2" using assms(3) by (intro unat_add_lem [THEN iffD1]) simp
  have e: "even (unat len)" using assms(2) by (auto simp: dvd_def)
  have w: "words_at m' q (unat len div 2) = words_at m p (unat len div 2)"
  proof (rule nth_equalityI)
    fix i assume "i < length (words_at m' q (unat len div 2))"
    then have "2 * i + 1 < unat len" using e by auto
    then show "words_at m' q (unat len div 2) ! i = words_at m p (unat len div 2) ! i"
      using assms(5) [of "2 * i"] assms(5) [of "2 * i + 1"] by (simp add: rd16_def)
  qed simp
  have b: "block_words m' (q + unat len) (unat len2) = block_words m2 p2 (unat len2)"
    by (rule block_words_cong) (rule assms(6))
  have "8 \<le> unat (len + len2)" using assms(4) n by simp
  then show ?thesis
    by (simp add: ip_p_chksum2_reference [OF assms(1,2)] ip_p_chksum_reference n block_words_split [OF e] w b)
qed

section \<open>The fragment loop\<close>

lemma udp_frag_step_MTU [simp]: "MyMTU (fst (udp_frag_step host pl off plen ipo m s)) = MyMTU s"
  by (simp add: udp_frag_step_def Let_def split_beta put_ip_result)

lemma udp_frag_step_len:
  "snd (snd (udp_frag_step host pl off plen ipo m s)) = snd (frag_more_flag (MyMTU s) plen)"
  by (simp add: udp_frag_step_def Let_def split_beta)

lemma u16_AND_FFF8: "unat (x AND 0xFFF8 :: u16) = 8 * (unat x div 8)"
proof -
  have "(0xFFF8 :: u16) = NOT (mask 3)" by (simp add: mask_eq_exp_minus_1)
  then have "x AND 0xFFF8 = x AND NOT (mask 3)" by (rule arg_cong)
  also have "\<dots> = push_bit 3 (drop_bit 3 x)" by (rule bit_word_eqI) (auto simp: bit_simps)
  finally have "x AND 0xFFF8 = push_bit 3 (drop_bit 3 x)" .
  moreover have "unat (drop_bit 3 x) = unat x div 8" using unat_drop_bit_16 [of 3 x] by simp
  ultimately show ?thesis
    using u16_bound [of x] by (simp add: push_bit_eq_mult unat_word_ariths mult.commute)
qed

lemma frag_more_flag_len:
  assumes "plen \<noteq> 0" and "28 \<le> unat mtu"
  shows "0 < unat (snd (frag_more_flag mtu plen)) \<and> unat (snd (frag_more_flag mtu plen)) \<le> unat plen"
proof -
  have m: "unat (mtu - 20) = unat mtu - 20" using assms(2) by (simp add: u16_sub word_le_nat_alt)
  show ?thesis
    using assms m unat_gt_0 [of plen]
    by (auto simp: frag_more_flag_def u16_AND_FFF8 word_less_nat_alt not_less)
qed

lemma udp_frag_loop_total:
  assumes "28 \<le> unat (MyMTU s)"
  shows "\<exists>s'. udp_frag_loop host pl off plen ipo m s = Some s'"
  using assms
proof (induction "unat plen" arbitrary: off plen ipo m s rule: less_induct)
  case less
  let ?r = "udp_frag_step host pl off plen ipo m s"
  let ?c = "snd (snd ?r)"
  show ?case
  proof (cases "plen = 0")
    case True
    then show ?thesis by (subst udp_frag_loop.simps) simp
  next
    case False
    have c: "0 < unat ?c" "unat ?c \<le> unat plen"
      using frag_more_flag_len [OF False less.prems] by (simp_all add: udp_frag_step_len)
    then have "unat (plen - ?c) < unat plen"
      using u16_sub [of ?c plen] by (simp add: word_le_nat_alt)
    then show ?thesis
      using less.hyps [of "plen - ?c" "fst ?r" "off + unat ?c" "ipo + ?c" "fst (snd ?r)"] less.prems False
      by (subst udp_frag_loop.simps) (simp add: Let_def)
  qed
qed

lemma udp_frag_loop_stuck:
  assumes "udp_frag_loop host pl off plen ipo m s = Some s'"
  shows "20 \<le> unat (MyMTU s) \<and> unat (MyMTU s) < 28 \<longrightarrow> unat plen < unat (MyMTU s) - 20 \<or> plen = 0"
proof (rule udp_frag_loop.raw_induct [of "\<lambda>host pl off plen ipo m s s'.
    20 \<le> unat (MyMTU s) \<and> unat (MyMTU s) < 28 \<longrightarrow> unat plen < unat (MyMTU s) - 20 \<or> plen = 0"], goal_cases)
  case (1 loop host pl off plen ipo m s s')
  let ?r = "udp_frag_step host pl off plen ipo m s"
  show ?case
  proof (cases "plen = 0")
    case False
    have ih: "20 \<le> unat (MyMTU s) \<and> unat (MyMTU s) < 28 \<longrightarrow>
        unat (plen - snd (snd ?r)) < unat (MyMTU s) - 20 \<or> plen - snd (snd ?r) = 0"
      using 1(1) [of host pl "off + unat (snd (snd ?r))" "plen - snd (snd ?r)" "ipo + snd (snd ?r)" "fst (snd ?r)" "fst ?r" s']
        1(2) False by (simp add: Let_def)
    show ?thesis
    proof (intro impI)
      assume mtu: "20 \<le> unat (MyMTU s) \<and> unat (MyMTU s) < 28"
      then have m: "unat (MyMTU s - 20) = unat (MyMTU s) - 20" by (simp add: u16_sub word_le_nat_alt)
      have "(unat (MyMTU s) - 20) div 8 = 0" using mtu by (intro div_less) linarith
      then have "unat ((MyMTU s - 20) AND 0xFFF8) = 0" using m by (simp add: u16_AND_FFF8)
      then have z: "(MyMTU s - 20) AND 0xFFF8 = 0" by (simp add: unat_eq_0)
      show "unat plen < unat (MyMTU s) - 20 \<or> plen = 0"
        using ih mtu z m False
        by (auto simp: udp_frag_step_len frag_more_flag_def word_less_nat_alt split: if_splits)
    qed
  qed simp
qed (rule assms)

lemma read_EthHeader_above: "14 \<le> q \<Longrightarrow> read_EthHeader (memcpy m q xs) = read_EthHeader m"
  by (simp add: read_EthHeader_def rdeth_def rd16_def memcpy_def)

lemma udp_frag_step_frame:
  fixes s :: "'a udp_state_scheme" and host pl off plen ipo m
  defines "c \<equiv> snd (frag_more_flag (MyMTU s) plen)"
  assumes "drv_ok s"
  shows "wire (fst (udp_frag_step host pl off plen ipo m s)) = wire s @
    [(IpFrame (read_EthHeader m)
       (snd (IpHeader_set IP_PROTOCOL_UDP host c (fst (frag_more_flag (MyMTU s) plen)) ipo
          (read_IpHeader m 14) s))
       (rdbytes pl off (unat c)), if c + 34 < 60 then 60 else c + 34)]"
proof -
  have len: "length (rdbytes pl off (unat c)) = unat c" by simp
  have data: "rdbytes (memcpy (memcpy m 34 (rdbytes pl off (unat c))) 14 (ip_bytes h)) 34 (unat c) = rdbytes pl off (unat c)" for h
    using rdbytes_memcpy_same [of m 34 "rdbytes pl off (unat c)"] by (simp add: rdbytes_memcpy_disj)
  obtain mf where mf: "frag_more_flag (MyMTU s) plen = (mf, c)" by (metis c_def prod.collapse)
  have ok: "drv_ok (s\<lparr>IpIdent := IpIdent s + 1\<rparr>)" using assms(2) by (simp add: drv_ok_def)
  show ?thesis
    by (cases "mf = 0") (simp_all add: udp_frag_step_def mf Let_def split_beta put_ip_result data
      read_EthHeader_above read_IpHeader_below Packet_send_pkt_wire ok assms(2))
qed

section \<open>Properties\<close>

text \<open>
  The callback table is a finite map from ports to functions with room for
  \<open>UDP_MAX_CALLBACKS\<close> entries: registering adds the port when it is new and there is room and
  otherwise changes nothing, unregistering removes exactly that port, and the result codes tell
  which.
\<close>

lemma udp_callbacks_are_a_map:
  assumes "callbacks_wf s"
  shows "callbacks_wf (fst (registerCallback port f s)) \<and> callbacks_wf (fst (unregisterCallback port s)) \<and>
    (if callbackPorts s < UDP_MAX_CALLBACKS \<and> callbacks s port = None
     then snd (registerCallback port f s) = 0 \<and> callbacks (fst (registerCallback port f s)) = (callbacks s)(port \<mapsto> f)
     else registerCallback port f s = (s, -1)) \<and>
    snd (unregisterCallback port s) = (if callbacks s port = None then -1 else 0) \<and>
    callbacks (fst (unregisterCallback port s)) = (callbacks s)(port := None)"
  using register_spec [OF assms, of port f] unregister_spec [OF assms, of port] by blast

lemma zero_udp: "callbackPorts zero_udp_state = 0" "MyMTU zero_udp_state = 1500"
  by (simp_all add: zero_udp_state_def zero_state udp_state.defs)

text \<open>A packet in the caller's memory, and one that is allocated for the call.\<close>

lemma udp_prealloc_roundtrip:
  assumes "sendUdp host sp dp plen data True s = Some (s', m, 0)"
    and "\<not> MyMTU s - 28 < plen" and "unat plen \<le> 65493"
    and "pkt_mem t b = memcpy x 0 (frame_bytes (udp_frame m plen))"
  shows "wire s' = (if drv_ok s then wire s @ [(udp_frame m plen, if 42 + plen < 60 then 60 else 42 + plen)] else wire s) \<and>
    rdbytes (pkt_mem t b) 42 (unat plen) = rdbytes data 42 (unat plen) \<and>
    Udp_process call b t =
      (case callbacks t dp of
         Some f \<Rightarrow> map_option (udp_unhandled b (the (callback_index dp t)))
           (call f b (t\<lparr>Udp_Packets_Received := Udp_Packets_Received t + 1\<rparr>))
       | None \<Rightarrow> Some (Buffer_free b (t\<lparr>Udp_Packets_Received := Udp_Packets_Received t + 1,
           Udp_NoHandler := Udp_NoHandler t + 1\<rparr>)))"
proof -
  note r = sendUdp_sent [OF assms(1,3,2)]
  obtain c where c: "read_UdpHeader m 34 = (udp_header sp dp (8 + plen))\<lparr>udp_chksum := c\<rparr>" using r(3) by blast
  have hl: "getIpHlen (read_IpHeader m 14) = 20" using r(1) by simp
  have ck: "ip_p_chksum (ip_src (read_IpHeader m 14)) (ip_dest (read_IpHeader m 14)) m 34 IP_PROTOCOL_UDP (8 + plen) = 0"
    using r(1,2) by simp
  define u where "u = t\<lparr>Udp_Packets_Received := Udp_Packets_Received t + 1\<rparr>"
  have mem: "pkt_mem v b = memcpy x 0 (rdbytes m 0 (42 + unat plen))" if "v = t \<or> v = u" for v
    using assms(4) that by (auto simp: udp_frame_image u_def)
  note read = udp_packet_read [OF mem hl assms(3) ck c]
  have "ntohs (udp_dst (pk_udp b u)) = dp" by (simp add: read(3) c udp_header_def)
  then have "Udp_process call b t = (case callback_index dp u of
         Some i \<Rightarrow> map_option (udp_unhandled b i) (call (callbackFunctions u i) b u)
       | None \<Rightarrow> Some (Buffer_free b (u\<lparr>Udp_NoHandler := Udp_NoHandler u + 1\<rparr>)))"
    using read(4) [of u] unfolding Udp_process_def Let_def u_def [symmetric] by (simp add: udp_unhandled_def split: option.split)
  moreover have "callback_index dp u = callback_index dp t" "callbackFunctions u = callbackFunctions t"
    by (simp_all add: u_def callback_index_def)
  ultimately have "Udp_process call b t =
      (case callbacks t dp of
         Some f \<Rightarrow> map_option (udp_unhandled b (the (callback_index dp t))) (call f b u) | None \<Rightarrow> Some (Buffer_free b (u\<lparr>Udp_NoHandler := Udp_NoHandler u + 1\<rparr>)))"
    by (simp add: callbacks_def split: option.split)
  then show ?thesis using r(4,5) read(5) [of t] by (auto simp: u_def split: option.split)
qed

lemma sendUdp_alloc:
  assumes "sendUdp host sp dp plen data False s = Some (s', d', rc)" and "\<not> MyMTU s - 28 < plen" and "rc \<noteq> - 1"
  obtains s1 p s2 m where "malloc s = (s1, Some p)"
    and "sendUdp host sp dp plen (memcpy (heap_mem s1 p) 42 (rdbytes data 0 (unat plen))) True s1 = Some (s2, m, rc)"
    and "s' = free p s2" and "d' = data"
proof -
  obtain s1 q where m: "malloc s = (s1, q)" by force
  then have mtu: "MyMTU s1 = MyMTU s" by (auto simp: malloc_def Let_def split: if_splits)
  show thesis
  proof (cases q)
    case None
    then show ?thesis using assms m by (simp add: sendUdp_def)
  next
    case (Some p)
    define f where "f = udp_fill host sp dp plen (memcpy (heap_mem s1 p) 42 (rdbytes data 0 (unat plen))) s1"
    define r where "r = udp_transmit plen (snd f) (fst f)"
    show ?thesis
      by (rule that [of s1 p "fst r" "fst (snd r)"])
        (use assms m mtu Some in \<open>auto simp: sendUdp_def split_beta Let_def r_def f_def\<close>)
  qed
qed

definition udp_arrives ::
    "(udp_fn \<Rightarrow> bufref \<Rightarrow> 'a udp_state_scheme \<Rightarrow> 'a udp_state_scheme option) \<Rightarrow> u16 \<Rightarrow> bufref \<Rightarrow>
     'a udp_state_scheme \<Rightarrow> 'a udp_state_scheme option" where
  "udp_arrives call dp b t =
     (let u = t\<lparr>Udp_Packets_Received := Udp_Packets_Received t + 1\<rparr>
      in case callbacks t dp of
           Some f \<Rightarrow> map_option (udp_unhandled b (the (callback_index dp t))) (call f b u)
         | None \<Rightarrow> Some (Buffer_free b (u\<lparr>Udp_NoHandler := Udp_NoHandler t + 1\<rparr>)))"

text \<open>
  C22. A datagram sent is the datagram received.  When \<open>sendUdp\<close> reports that it sent a datagram that
  fits the MTU (and whose data is at most 65493 bytes), from the caller's packet or from one it allocates for the
  call, one frame \<open>m\<close> is given to the driver, which may fail to send it.  In whatever receive buffer of a
  peer that frame arrives, the data in the buffer is the data sent, and \<open>Udp::process\<close> there finds the checksum
  good and calls the function registered for the destination port, or counts the datagram as unhandled and frees
  the packet.  A packet allocated for the call is freed and the caller's data left as it was.
\<close>

theorem udp_send_process_roundtrip:
  assumes "sendUdp host sp dp plen data pre s = Some (s', d', 0)"
    and "\<not> MyMTU s - 28 < plen" and "unat plen \<le> 65493"
  shows "\<exists>m. wire s' = (if drv_ok s then wire s @ [(udp_frame m plen, if 42 + plen < 60 then 60 else 42 + plen)] else wire s) \<and>
    d' = (if pre then m else data) \<and>
    (\<not> pre \<longrightarrow> heap_next s \<notin> heap_live s') \<and>
    (\<forall>t b x. pkt_mem t b = memcpy x 0 (frame_bytes (udp_frame m plen)) \<longrightarrow>
       rdbytes (pkt_mem t b) 42 (unat plen) = rdbytes data (if pre then 42 else 0) (unat plen) \<and>
       Udp_process call b t = udp_arrives call dp b t)"
proof (cases pre)
  case True
  then have sent: "sendUdp host sp dp plen data True s = Some (s', d', 0)" using assms(1) by simp
  have "wire s' = (if drv_ok s then wire s @ [(udp_frame d' plen, if 42 + plen < 60 then 60 else 42 + plen)] else wire s)"
    using sendUdp_sent(5) [OF sent assms(3,2)] .
  moreover have "rdbytes (pkt_mem t b) 42 (unat plen) = rdbytes data 42 (unat plen) \<and> Udp_process call b t = udp_arrives call dp b t"
    if "pkt_mem t b = memcpy x 0 (frame_bytes (udp_frame d' plen))" for t b x
    using udp_prealloc_roundtrip [OF sent assms(2,3) that] by (simp add: udp_arrives_def Let_def split: option.split)
  ultimately show ?thesis using True by (intro exI [of _ d']) auto
next
  case False
  then have f: "sendUdp host sp dp plen data False s = Some (s', d', 0)" "(0 :: int) \<noteq> - 1" using assms(1) by simp_all
  obtain s1 p s2 m where m: "malloc s = (s1, Some p)"
    and sent: "sendUdp host sp dp plen (memcpy (heap_mem s1 p) 42 (rdbytes data 0 (unat plen))) True s1 = Some (s2, m, 0)"
    and f': "s' = free p s2" "d' = data"
    by (rule sendUdp_alloc [OF f(1) assms(2) f(2)])
  have s1: "MyMTU s1 = MyMTU s" "wire s1 = wire s" "drv_ok s1 = drv_ok s" "p = heap_next s"
    using m by (auto simp: malloc_def Let_def drv_ok_def split: if_splits)
  have mtu: "\<not> MyMTU s1 - 28 < plen" using assms(2) s1(1) by simp
  have "wire s' = (if drv_ok s then wire s @ [(udp_frame m plen, if 42 + plen < 60 then 60 else 42 + plen)] else wire s)"
    using sendUdp_sent(5) [OF sent assms(3) mtu] by (simp add: f' free_def s1)
  moreover have "rdbytes (memcpy v 42 (rdbytes data 0 (unat plen))) 42 (unat plen) = rdbytes data 0 (unat plen)" for v
    by (rule nth_equalityI) (simp_all add: memcpy_def)
  moreover have "rdbytes (pkt_mem t b) 42 (unat plen) = rdbytes data 0 (unat plen) \<and> Udp_process call b t = udp_arrives call dp b t"
    if "pkt_mem t b = memcpy x 0 (frame_bytes (udp_frame m plen))" for t b x
    using udp_prealloc_roundtrip [OF sent mtu assms(3) that] calculation(2) by (simp add: udp_arrives_def Let_def split: option.split)
  moreover have "heap_next s \<notin> heap_live s'" by (simp add: f' free_def s1(4))
  ultimately show ?thesis using False f'(2) by (intro exI [of _ m]) auto
qed

theorem udp_send_process_roundtrip_witness:
  "\<exists>s' m. sendUdp (255, 255, 255, 255) 1057 53 5 (\<lambda>i. of_nat i) False zero_udp_state = Some (s', \<lambda>i. of_nat i, 0) \<and>
    wire s' = wire zero_udp_state @ [(udp_frame m 5, 60)] \<and>
    Udp_process (\<lambda>_ b s. Some (Buffer_free b s)) (PoolBuf 0) (zero_udp_state\<lparr>pkt_mem := (\<lambda>_. memcpy (\<lambda>_. 0) 0 (frame_bytes (udp_frame m 5)))\<rparr>) =
      udp_arrives (\<lambda>_ b s. Some (Buffer_free b s)) 53 (PoolBuf 0) (zero_udp_state\<lparr>pkt_mem := (\<lambda>_. memcpy (\<lambda>_. 0) 0 (frame_bytes (udp_frame m 5)))\<rparr>)"
proof -
  let ?d = "\<lambda>i. of_nat i :: u8"
  have z: "malloc_ok zero_udp_state (heap_next zero_udp_state)" "drv_ok zero_udp_state"
    by (auto simp: zero_udp_state_def zero_state udp_state.defs drv_ok_def intro: exI [of _ 0])
  then obtain s1 where s1: "malloc zero_udp_state = (s1, Some (heap_next zero_udp_state))" by (simp add: malloc_def Let_def)
  let ?m = "memcpy (heap_mem s1 (heap_next zero_udp_state)) 42 (rdbytes ?d 0 5)"
  have d: "ip_dest (read_IpHeader (snd (udp_fill (255, 255, 255, 255) 1057 53 5 ?m s1)) 14) = IpBroadcastNonRoutable"
    using udp_fill_result(2) [of 5 "(255, 255, 255, 255)" 1057 53 ?m s1] by (auto simp: IpHeader_set_fields IpBroadcastNonRoutable_def)
  obtain s' where s: "sendUdp (255, 255, 255, 255) 1057 53 5 ?d False zero_udp_state = Some (s', ?d, 0)"
    by (simp add: sendUdp_def split_beta s1 udp_transmit_def d setDestEth_def zero_udp Let_def)
  have n: "\<not> MyMTU zero_udp_state - 28 < (5 :: u16)" "unat (5 :: u16) \<le> 65493" by (simp_all add: zero_udp)
  let ?call = "\<lambda>_ b t. Some (Buffer_free b (t :: udp_state))"
  obtain m where w: "wire s' = wire zero_udp_state @ [(udp_frame m 5, 60)]" and
      r: "\<And>t b x. pkt_mem t b = memcpy x 0 (frame_bytes (udp_frame m 5)) \<Longrightarrow> Udp_process ?call b t = udp_arrives ?call 53 b t"
    using udp_send_process_roundtrip [OF s n, of ?call] z(2) by auto
  show ?thesis by (intro exI [of _ s'] exI [of _ m] conjI s w) (rule r, simp)
qed

text \<open>
  The checksum routine that takes header and data apart computes what the contiguous routine
  computes: for a header of a positive multiple of four bytes and at least eight bytes in all, it
  is \<open>ip_p_chksum\<close> of any block in which the data follows the header.
\<close>

lemma split_checksum_is_checksum:
  assumes "4 \<le> unat len" and "4 dvd unat len" and "unat len + unat dlen \<le> 65535" and "8 \<le> unat len + unat dlen"
    and "rdbytes m' q (unat len) = rdbytes m p (unat len)"
    and "rdbytes m' (q + unat len) (unat dlen) = rdbytes dm dp (unat dlen)"
  shows "ip_p_chksum2 src target m p protocol len dm dp dlen = ip_p_chksum src target m' q protocol (len + dlen)"
proof (rule ip_p_chksum2_joined [OF assms(1-4)])
  show "m' (q + i) = m (p + i)" if "i < unat len" for i
    using arg_cong [OF assms(5), of "\<lambda>xs. xs ! i"] that by simp
  show "m' (q + unat len + i) = dm (dp + i)" if "i < unat dlen" for i
    using arg_cong [OF assms(6), of "\<lambda>xs. xs ! i"] that by simp
qed

text \<open>
  C23. The loop over the remaining fragments returns for every payload when the MTU is at least
  28; with an MTU of 20 to 27 it returns only when the remaining data fits one fragment, because a
  middle fragment then has length zero.
\<close>

theorem udp_fragment_loop_terminates:
  "(28 \<le> unat (MyMTU s) \<longrightarrow> (\<exists>s'. udp_frag_loop host pl off plen ipo m s = Some s')) \<and>
   (20 \<le> unat (MyMTU s) \<and> unat (MyMTU s) < 28 \<and> plen \<noteq> 0 \<and> unat (MyMTU s) - 20 \<le> unat plen \<longrightarrow>
      udp_frag_loop host pl off plen ipo m s = None)"
  using udp_frag_loop_total [of s host pl off plen ipo m] udp_frag_loop_stuck [of host pl off plen ipo m s]
  by (cases "udp_frag_loop host pl off plen ipo m s") auto

theorem udp_fragment_loop_terminates_witness:
  "(\<exists>s'. udp_frag_loop (10, 0, 0, 2) (\<lambda>_. 7) 0 3000 0 (\<lambda>_. 0) zero_udp_state = Some s') \<and>
   udp_frag_loop (10, 0, 0, 2) (\<lambda>_. 7) 0 3000 0 (\<lambda>_. 0) (zero_udp_state\<lparr>MyMTU := 24\<rparr>) = None"
  using udp_fragment_loop_terminates [of zero_udp_state "(10, 0, 0, 2)" "\<lambda>_. 7" 0 3000 0 "\<lambda>_. 0"]
    udp_fragment_loop_terminates [of "zero_udp_state\<lparr>MyMTU := 24\<rparr>" "(10, 0, 0, 2)" "\<lambda>_. 7" 0 3000 0 "\<lambda>_. 0"]
  by (simp add: zero_udp)

text \<open>
  One turn of the fragment loop sends one IP fragment that carries the next bytes of the
  payload at the offset it was given.  It is marked last exactly when less than a full packet is
  left, so data that fits a packet exactly is never marked last; and only the last fragment gets
  a fresh IP ident, so it does not share the ident of the fragments before it.
\<close>

lemma udp_fragment_sent:
  assumes "ipo AND 7 = 0" and "drv_ok s"
  shows "let c = snd (snd (udp_frag_step host pl off plen ipo m s)) in
    \<exists>h. wire (fst (udp_frag_step host pl off plen ipo m s)) = wire s @
        [(IpFrame (read_EthHeader m) h (rdbytes pl off (unat c)), if c + 34 < 60 then 60 else c + 34)] \<and>
      fragmentOffset h = ipo \<and> payloadLen h = c \<and>
      (isLastFragment h \<longleftrightarrow> plen < MyMTU s - 20) \<and>
      ip_ident h = (if plen < MyMTU s - 20 then htons (IpIdent s) else ip_ident (read_IpHeader m 14))"
proof -
  have o8: "take_bit 3 ipo = 0" using assms(1) by (simp add: take_bit_eq_mask mask_eq_exp_minus_1)
  have mf: "fst (frag_more_flag (MyMTU s) plen) = (if plen < MyMTU s - 20 then 0 else 1)"
    by (simp add: frag_more_flag_def)
  show ?thesis
    unfolding Let_def udp_frag_step_len
    by (intro exI conjI, rule udp_frag_step_frame [OF assms(2)])
      (simp_all add: IpHeader_set_fields [OF o8] mf)
qed

end
