(* ===== verification/Icmp.thy ===== *)
theory Icmp
  imports Udp
begin

text \<open>
  ICMP, \<^verbatim>\<open>Icmp::init\<close> and \<^verbatim>\<open>Icmp::process\<close> of \<^verbatim>\<open>code/TCPLIB/IP.CPP\<close> under \<^verbatim>\<open>COMPILE_ICMP\<close>,
  which answers echo requests from a single packet kept for that purpose.  The echo packet is a
  memory image: Ethernet header at 0, IP header at 14, ICMP header at 34, ident and sequence number
  at 38 and 40, optional data at 42 (\<^verbatim>\<open>IcmpEchoPacket_t\<close>).
\<close>

unbundle bit_operations_syntax

section \<open>State and operations\<close>

definition ICMP_ECHO_OPT_DATA :: u16 where [cfg_defs]: "ICMP_ECHO_OPT_DATA = 256"
definition ICMP_ECHO_REPLY :: u8 where [cfg_defs]: "ICMP_ECHO_REPLY = 0"
definition ICMP_ECHO_REQUEST :: u8 where [cfg_defs]: "ICMP_ECHO_REQUEST = 8"

record icmp_state = udp_state +
  icmpCallback :: "nat option"
  icmpEchoPacket :: mem

definition zero_icmp_state :: icmp_state where
  "zero_icmp_state = udp_state.extend zero_udp_state (icmp_state.fields None (\<lambda>_. 0))"

lemmas zero_icmp = zero_icmp_state_def zero_udp_state_def zero_state icmp_state.defs udp_state.defs

definition Icmp_init :: "'a icmp_state_scheme \<Rightarrow> 'a icmp_state_scheme" where
  "Icmp_init s = s\<lparr>icmpEchoPacket := put_eth (icmpEchoPacket s) s, icmpCallback := None\<rparr>"

text \<open>The reply: the echo packet with the message of the request, turned into a reply.\<close>

definition icmp_reply :: "bufref \<Rightarrow> u16 \<Rightarrow> 'a icmp_state_scheme \<Rightarrow> 'a icmp_state_scheme" where
  "icmp_reply packet icmpLen s =
     (let m = pkt_mem s packet; n = unat icmpLen;
          (s, e) = put_ip IP_PROTOCOL_ICMP (ip_src (pk_ip packet s)) icmpLen 0 0 (icmpEchoPacket s) s;
          e = put_dest (eh_src (read_EthHeader m)) e;
          e = memcpy e 34 (rdbytes m (pk_tcp_off packet s) n);
          e = memcpy e 34 [ICMP_ECHO_REPLY];
          e = memcpy e 36 (bytes16 0);
          e = memcpy e 36 (bytes16 (ipchksum e 34 icmpLen));
          s = s\<lparr>icmpEchoPacket := e\<rparr>
      in Packet_send_pkt (IpFrame (read_EthHeader e) (read_IpHeader e 14) (rdbytes e 34 n)) (icmpLen + 34) s)"

definition Icmp_process ::
    "(nat \<Rightarrow> bufref \<Rightarrow> 'a icmp_state_scheme \<Rightarrow> 'a icmp_state_scheme) \<Rightarrow> bufref \<Rightarrow>
     'a icmp_state_scheme \<Rightarrow> 'a icmp_state_scheme" where
  "Icmp_process call packet s =
     (let off = pk_tcp_off packet s; icmpLen = payloadLen (pk_ip packet s)
      in if ipchksum (pkt_mem s packet) off icmpLen \<noteq> 0 then Buffer_free packet s
         else
           (let s = (case icmpCallback s of Some f \<Rightarrow> call f packet s | None \<Rightarrow> s);
                s = (if pkt_mem s packet off = ICMP_ECHO_REQUEST \<and> icmpLen - 8 \<le> ICMP_ECHO_OPT_DATA
                     then icmp_reply packet icmpLen s else s)
            in Buffer_free packet s))"

section \<open>Properties\<close>

lemma Buffer_free_wire [simp]: "wire (Buffer_free b s) = wire s"
  by (simp add: Buffer_free_def freeBigPacket_def)

text \<open>The length guard, read on 16-bit words, admits exactly the lengths the echo packet holds.\<close>

lemma icmp_len_guard: "len - 8 \<le> ICMP_ECHO_OPT_DATA \<longleftrightarrow> 8 \<le> unat len \<and> unat len \<le> 264"
proof (cases "8 \<le> len")
  case True
  then have "unat (len - 8) = unat len - 8" by (simp add: u16_sub)
  then show ?thesis using True by (simp add: cfg_defs word_le_nat_alt) linarith
next
  case False
  then have "unat len \<in> {0, 1, 2, 3, 4, 5, 6, 7}" by (auto simp: word_le_nat_alt)
  moreover have "len = of_nat (unat len)" by simp
  ultimately have "len \<in> {0, 1, 2, 3, 4, 5, 6, 7}" by (elim insertE) auto
  then show ?thesis by (auto simp: cfg_defs word_le_nat_alt unat_minus1_u16)
qed

section \<open>The reply\<close>

lemma rdbytes_take: "k \<le> n \<Longrightarrow> take k (rdbytes m p n) = rdbytes m p k"
  by (rule nth_equalityI) auto

lemma rdbytes_drop: "k \<le> n \<Longrightarrow> drop k (rdbytes m p n) = rdbytes m (p + k) (n - k)"
  by (rule nth_equalityI) (auto simp: add.assoc)

text \<open>The message of the reply, for a message of \<open>n\<close> bytes at \<open>off\<close> of the request.\<close>

definition reply_mem :: "mem \<Rightarrow> nat \<Rightarrow> u16 \<Rightarrow> mem \<Rightarrow> mem" where
  "reply_mem m off len e =
     (let e = memcpy (memcpy (memcpy e 34 (rdbytes m off (unat len))) 34 [ICMP_ECHO_REPLY]) 36 (bytes16 0)
      in memcpy e 36 (bytes16 (ipchksum e 34 len)))"

lemma read_eth_bytes [simp]: "read_EthHeader (memcpy m 0 (eth_bytes h)) = h"
proof -
  note rd = rd16_memcpy [where p = 0 and xs = "eth_bytes h" and m = m, simplified]
  show ?thesis
    using rd [of 0] rd [of "Suc (Suc 0)"] rd [of 4] rd [of 6] rd [of 8] rd [of 10] rd [of 12]
    by (simp add: read_EthHeader_def rdeth_def) (simp add: eth_bytes_def eth_addr_bytes_def bytes16_def EthHeader.equality)
qed

lemma reply_mem_msg:
  assumes "8 \<le> unat len"
  shows "reply_mem m off len e 34 = ICMP_ECHO_REPLY" and "reply_mem m off len e 35 = m (off + 1)"
    and "rdbytes (reply_mem m off len e) 38 (unat len - 4) = rdbytes m (off + 4) (unat len - 4)"
    and "ipchksum (reply_mem m off len e) 34 len = 0"
    and "i < 34 \<Longrightarrow> reply_mem m off len e i = e i"
proof -
  let ?e = "memcpy (memcpy (memcpy e 34 (rdbytes m off (unat len))) 34 [ICMP_ECHO_REPLY]) 36 (bytes16 0)"
  show "reply_mem m off len e 34 = ICMP_ECHO_REPLY" "reply_mem m off len e 35 = m (off + 1)"
    "i < 34 \<Longrightarrow> reply_mem m off len e i = e i"
    using assms by (auto simp: reply_mem_def Let_def memcpy_def)
  show "rdbytes (reply_mem m off len e) 38 (unat len - 4) = rdbytes m (off + 4) (unat len - 4)"
    by (rule nth_equalityI) (auto simp: reply_mem_def Let_def memcpy_def add.assoc)
  have "rd16 ?e (34 + 2 * 1) = 0" by (simp add: rd16_def memcpy_def bytes16_def le16_def)
  then show "ipchksum (reply_mem m off len e) 34 len = 0"
    using ipchksum_store [of 1 len ?e 34] assms by (simp add: reply_mem_def Let_def)
qed

lemma icmp_reply_frame:
  fixes s :: "'a icmp_state_scheme" and len b
  defines "e \<equiv> icmpEchoPacket s" and "m \<equiv> pkt_mem s b"
  defines "h \<equiv> snd (IpHeader_set IP_PROTOCOL_ICMP (ip_src (pk_ip b s)) len 0 0 (read_IpHeader e 14) s)"
  assumes "8 \<le> unat len"
  shows "\<exists>e'. wire (icmp_reply b len s) = wire s @ (if drv_ok s then
    [(IpFrame (eh_setDest (eh_src (read_EthHeader m)) (read_EthHeader e)) h
        (rdbytes (reply_mem m (pk_tcp_off b s) len e') 34 (unat len)),
      if len + 34 < 60 then 60 else len + 34)] else [])"
proof -
  have ok: "drv_ok (s\<lparr>IpIdent := i, icmpEchoPacket := f\<rparr>) = drv_ok s" for i f by (simp add: drv_ok_def)
  define e1 where "e1 = memcpy e 14 (ip_bytes h)"
  define e2 where "e2 = put_dest (eh_src (read_EthHeader m)) e1"
  define e3 where "e3 = reply_mem m (pk_tcp_off b s) len e2"
  have low: "e3 i = e2 i" if "i < 34" for i using reply_mem_msg(5) [OF assms(4)] that by (simp add: e3_def)
  have eth: "read_EthHeader e3 = eh_setDest (eh_src (read_EthHeader m)) (read_EthHeader e)"
  proof -
    have "read_EthHeader e3 = read_EthHeader e2" using low by (simp add: read_EthHeader_def rdeth_def rd16_def)
    also have "\<dots> = eh_setDest (eh_src (read_EthHeader m)) (read_EthHeader e1)"
      by (simp add: e2_def put_dest_def read_eth_bytes)
    finally show ?thesis by (simp add: e1_def read_EthHeader_above)
  qed
  have ip: "read_IpHeader e3 14 = h"
  proof -
    have "read_IpHeader e3 14 = read_IpHeader e2 14" by (rule read_headers_cong(1)) (use low in auto)
    then show ?thesis by (simp add: e2_def put_dest_def read_IpHeader_below e1_def)
  qed
  have put: "put_ip IP_PROTOCOL_ICMP (ip_src (pk_ip b s)) len 0 0 e s = (s\<lparr>IpIdent := IpIdent s + 1\<rparr>, e1)"
    by (simp add: put_ip_result e1_def h_def)
  have off: "pk_tcp_off b (s\<lparr>IpIdent := IpIdent s + 1\<rparr>) = pk_tcp_off b s" by (simp add: pk_tcp_off_def pk_ip_def)
  show ?thesis
    by (rule exI [of _ e2]) (simp add: icmp_reply_def e_def [symmetric] m_def [symmetric] put Let_def e2_def [symmetric] off
        e3_def [unfolded reply_mem_def Let_def, symmetric] eth ip Packet_send_pkt_wire ok reply_mem_def)
qed

text \<open>
  C24. An echo request is answered, and nothing else is: a message whose checksum is good, whose
  type is echo request and which fits the echo packet makes the stack hand exactly one frame to the driver, to the
  Ethernet address it came from, from our IP address to the sender's, carrying an echo reply with the code,
  ident, sequence number and data of the request and a checksum that verifies; the frame goes out unless the driver
  refuses it in all its tries.  For any other message the stack itself sends nothing.  The packet goes back to the pool in
  every case.  A callback for messages, if there is one, is called first, for every message with a good checksum; it may do
  anything but change the packet.
\<close>

theorem icmp_echo_reply:
  fixes s :: "'a icmp_state_scheme" and b call
  defines "u \<equiv> (case icmpCallback s of Some f \<Rightarrow> call f b s | None \<Rightarrow> s)"
    and "m \<equiv> pkt_mem s b" and "off \<equiv> pk_tcp_off b s" and "len \<equiv> payloadLen (pk_ip b s)"
  assumes "pkt_mem u b = pkt_mem s b"
  shows "if ipchksum m off len \<noteq> 0 then Icmp_process call b s = Buffer_free b s
    else if m off = ICMP_ECHO_REQUEST \<and> 8 \<le> unat len \<and> unat len \<le> 264
    then \<exists>h msg t. Icmp_process call b s = Buffer_free b t \<and>
      wire t = wire u @ (if drv_ok u then
        [(IpFrame (eh_setDest (eh_src (read_EthHeader m)) (read_EthHeader (icmpEchoPacket u))) h
          (rdbytes msg 0 (unat len)), if len + 34 < 60 then 60 else len + 34)] else []) \<and>
      ip_src h = MyIpAddr u \<and> ip_dest h = ip_src (pk_ip b s) \<and> ip_protocol h = IP_PROTOCOL_ICMP \<and> payloadLen h = len \<and>
      msg 0 = ICMP_ECHO_REPLY \<and> msg 1 = m (off + 1) \<and>
      rdbytes msg 4 (unat len - 4) = rdbytes m (off + 4) (unat len - 4) \<and> ipchksum msg 0 len = 0
    else Icmp_process call b s = Buffer_free b u"
proof (cases "ipchksum m off len = 0 \<and> m off = ICMP_ECHO_REQUEST \<and> 8 \<le> unat len \<and> unat len \<le> 264")
  case True
  have same: "pk_tcp_off b u = off" "pk_ip b u = pk_ip b s" "pkt_mem u b = m"
    using assms(5) by (simp_all add: off_def m_def pk_tcp_off_def pk_ip_def)
  have g: "len - 8 \<le> ICMP_ECHO_OPT_DATA" and l: "8 \<le> unat len" using True by (simp_all add: icmp_len_guard)
  obtain e where e: "wire (icmp_reply b len u) = wire u @ (if drv_ok u then
      [(IpFrame (eh_setDest (eh_src (read_EthHeader m)) (read_EthHeader (icmpEchoPacket u)))
          (snd (IpHeader_set IP_PROTOCOL_ICMP (ip_src (pk_ip b s)) len 0 0 (read_IpHeader (icmpEchoPacket u) 14) u))
          (rdbytes (reply_mem m off len e) 34 (unat len)), if len + 34 < 60 then 60 else len + 34)] else [])"
    using icmp_reply_frame [OF l, of b u] unfolding same by blast
  let ?msg = "\<lambda>i. reply_mem m off len e (34 + i)"
  have p: "Icmp_process call b s = Buffer_free b (icmp_reply b len u)"
    using True g same(3) by (simp add: Icmp_process_def Let_def m_def off_def len_def u_def)
  have shift: "rdbytes ?msg k n = rdbytes (reply_mem m off len e) (34 + k) n" for k n
    by (rule nth_equalityI) (auto simp: add.assoc)
  have ck: "ipchksum ?msg 0 len = 0"
    using ipchksum_cong [of len ?msg 0 "reply_mem m off len e" 34] reply_mem_msg(4) [OF l] l by simp
  have "\<exists>h msg t. Icmp_process call b s = Buffer_free b t \<and>
      wire t = wire u @ (if drv_ok u then
        [(IpFrame (eh_setDest (eh_src (read_EthHeader m)) (read_EthHeader (icmpEchoPacket u))) h
          (rdbytes msg 0 (unat len)), if len + 34 < 60 then 60 else len + 34)] else []) \<and>
      ip_src h = MyIpAddr u \<and> ip_dest h = ip_src (pk_ip b s) \<and> ip_protocol h = IP_PROTOCOL_ICMP \<and> payloadLen h = len \<and>
      msg 0 = ICMP_ECHO_REPLY \<and> msg 1 = m (off + 1) \<and>
      rdbytes msg 4 (unat len - 4) = rdbytes m (off + 4) (unat len - 4) \<and> ipchksum msg 0 len = 0"
    by (intro exI [of _ "snd (IpHeader_set IP_PROTOCOL_ICMP (ip_src (pk_ip b s)) len 0 0 (read_IpHeader (icmpEchoPacket u) 14) u)"]
        exI [of _ ?msg] exI [of _ "icmp_reply b len u"])
      (simp add: p e shift ck reply_mem_msg [OF l] IpHeader_set_fields)
  then show ?thesis using True by simp
next
  case False
  then show ?thesis
    using icmp_len_guard [of len] assms(5) by (auto simp: Icmp_process_def Let_def m_def off_def len_def u_def)
qed

text \<open>An echo request of 8 bytes from 10.0.0.9.\<close>

definition demo_ping :: icmp_state where
  "demo_ping = zero_icmp_state\<lparr>MyIpAddr := (10, 0, 0, 1),
     pkt_mem := (\<lambda>_. memcpy (\<lambda>_. 0) 14 [0x45, 0, 0, 28, 0, 0, 0, 0, 64, 1, 0, 0, 10, 0, 0, 9, 10, 0, 0, 1,
       8, 0, 0xF5, 0xFD, 1, 1, 1, 1])\<rparr>"

theorem icmp_echo_reply_witness:
  "\<exists>e h msg l. wire (Icmp_process (\<lambda>_ _ s. s) (PoolBuf 0) demo_ping) = [(IpFrame e h msg, l)] \<and>
     ip_dest h = (10, 0, 0, 9) \<and> msg ! 0 = 0"
proof -
  let ?m = "pkt_mem demo_ping (PoolBuf 0)"
  have d: "icmpCallback demo_ping = None" "wire demo_ping = []"
    and ok: "drv_ok demo_ping"
    by (simp_all add: demo_ping_def zero_icmp drv_ok_def) (rule exI [of _ 0], simp)
  have ip: "pk_tcp_off (PoolBuf 0) demo_ping = 34" "payloadLen (pk_ip (PoolBuf 0) demo_ping) = 8"
    "ip_src (pk_ip (PoolBuf 0) demo_ping) = (10, 0, 0, 9)" "?m 34 = ICMP_ECHO_REQUEST"
    by (simp_all add: demo_ping_def pk_tcp_off_def pk_ip_def payloadOff_def payloadLen_def getIpHlen_def
        read_IpHeader_def rd16_def rdip_def memcpy_def le16_def htons_def ICMP_ECHO_REQUEST_def)
  have "block_words ?m 34 8 = [0x0008, 0xFDF5, 0x0101, 0x0101]"
    by (simp add: block_words_def words_at_def demo_ping_def rd16_def memcpy_def le16_def upt_rec)
  then have "ipchksum ?m 34 8 = 0"
    by (simp add: ipchksum_reference oc_checksum_def word_sum_def oc_fold_def)
  then show ?thesis
    using icmp_echo_reply [of demo_ping "\<lambda>_ _ s. s" "PoolBuf 0"] ip d ok by (auto simp: rdbytes_def ICMP_ECHO_REPLY_def)
qed

end
