(* ===== verification/Utils.thy ===== *)
theory Utils
  imports Prelude
begin

text \<open>
  Text the way the C code sees it: a string is the list of its bytes without the terminating NUL.
  The functions of the standard library the sources call on text (\<^verbatim>\<open>isspace\<close>, \<^verbatim>\<open>isdigit\<close>,
  \<^verbatim>\<open>stricmp\<close>, \<^verbatim>\<open>sscanf\<close>, \<^verbatim>\<open>fgets\<close>) and the text routines of \<^verbatim>\<open>code/TCPLIB/UTILS.CPP\<close>:
  \<^verbatim>\<open>rtrim\<close>, \<^verbatim>\<open>getLine\<close>, \<^verbatim>\<open>getNextToken\<close>, \<^verbatim>\<open>getAppValue\<close>, \<^verbatim>\<open>timeDiff\<close> and \<^verbatim>\<open>dumpBytes\<close>.
\<close>

unbundle bit_operations_syntax

type_synonym cstr = "u8 list"

definition ascii :: "string \<Rightarrow> cstr" where
  "ascii s = map of_char s"

section \<open>The standard library\<close>

definition isspace :: "u8 \<Rightarrow> bool" where
  "isspace c \<longleftrightarrow> c = 32 \<or> 9 \<le> c \<and> c \<le> 13"

definition isdigit :: "u8 \<Rightarrow> bool" where
  "isdigit c \<longleftrightarrow> 48 \<le> c \<and> c \<le> 57"

definition tolower :: "u8 \<Rightarrow> u8" where
  "tolower c = (if 65 \<le> c \<and> c \<le> 90 then c + 32 else c)"

text \<open>The sources only test the result of \<^verbatim>\<open>stricmp\<close> for zero.\<close>

definition stricmp_eq :: "cstr \<Rightarrow> cstr \<Rightarrow> bool" where
  "stricmp_eq a b \<longleftrightarrow> map tolower a = map tolower b"

definition digits_val :: "int \<Rightarrow> (u8 \<Rightarrow> int) \<Rightarrow> cstr \<Rightarrow> int" where
  "digits_val base d xs = foldl (\<lambda>v c. base * v + d c) 0 xs"

definition dec_digit :: "u8 \<Rightarrow> int" where
  "dec_digit c = uint c - 48"

definition isxdigit :: "u8 \<Rightarrow> bool" where
  "isxdigit c \<longleftrightarrow> isdigit c \<or> 97 \<le> tolower c \<and> tolower c \<le> 102"

definition hex_digit :: "u8 \<Rightarrow> int" where
  "hex_digit c = (if isdigit c then uint c - 48 else uint (tolower c) - 87)"

text \<open>An optional sign in front of a number.\<close>

definition scan_sign :: "cstr \<Rightarrow> int \<times> cstr" where
  "scan_sign xs =
     (case xs of c # r \<Rightarrow> if c = 45 then (-1, r) else if c = 43 then (1, r) else (1, xs) | [] \<Rightarrow> (1, xs))"

text \<open>\<^verbatim>\<open>%d\<close>, \<^verbatim>\<open>%u\<close> and \<^verbatim>\<open>%lu\<close>: white space, a sign, at least one digit; the value is not reduced here.\<close>

definition scan_dec :: "cstr \<Rightarrow> (int \<times> cstr) option" where
  "scan_dec xs =
     (let (sg, ys) = scan_sign (dropWhile isspace xs); ds = takeWhile isdigit ys
      in if ds = [] then None else Some (sg * digits_val 10 dec_digit ds, dropWhile isdigit ys))"

text \<open>\<^verbatim>\<open>%x\<close>, which accepts the prefix \<^verbatim>\<open>0x\<close>.\<close>

definition scan_hex :: "cstr \<Rightarrow> (int \<times> cstr) option" where
  "scan_hex xs =
     (let (sg, ys) = scan_sign (dropWhile isspace xs);
          zs = (case ys of a # b # r \<Rightarrow> if a = 48 \<and> tolower b = 120 then r else ys | _ \<Rightarrow> ys);
          ds = takeWhile isxdigit zs
      in if ds = [] then None else Some (sg * digits_val 16 hex_digit ds, dropWhile isxdigit zs))"

text \<open>\<^verbatim>\<open>%s\<close>: white space, then everything up to the next white space.\<close>

definition scan_str :: "cstr \<Rightarrow> (cstr \<times> cstr) option" where
  "scan_str xs =
     (let ys = dropWhile isspace xs; w = takeWhile (\<lambda>c. \<not> isspace c) ys
      in if w = [] then None else Some (w, dropWhile (\<lambda>c. \<not> isspace c) ys))"

text \<open>\<^verbatim>\<open>%d.%d.%d.%d\<close>: the values of the conversions that succeed, in order.\<close>

fun scan_dots :: "nat \<Rightarrow> cstr \<Rightarrow> int list" where
  "scan_dots 0 xs = []"
| "scan_dots (Suc k) xs =
     (case scan_dec xs of
        None \<Rightarrow> []
      | Some (v, r) \<Rightarrow> v # (case r of c # r' \<Rightarrow> if c = 46 then scan_dots k r' else [] | [] \<Rightarrow> []))"

text \<open>
  The call \<^verbatim>\<open>sscanf(text, "%d.%d.%d.%d", &tmp1, ...)\<close> into 16-bit variables: the result code and
  the variables afterwards (\<open>-1\<close> is \<^verbatim>\<open>EOF\<close>, when the text ends before the first conversion).
\<close>

definition sscanf_ip :: "cstr \<Rightarrow> u16 list \<Rightarrow> int \<times> u16 list" where
  "sscanf_ip xs tmp =
     (let vs = scan_dots 4 xs
      in (if dropWhile isspace xs = [] then -1 else int (length vs),
          map of_int vs @ drop (length vs) tmp))"

text \<open>The address built from the variables, each cut to its low byte.\<close>

definition tmp_ip :: "u16 list \<Rightarrow> IpAddr" where
  "tmp_ip tmp = (ucast (tmp ! 0), ucast (tmp ! 1), ucast (tmp ! 2), ucast (tmp ! 3))"

text \<open>
  A file opened for reading: what has not been read yet, the end-of-file flag, and whether the
  read at its end fails instead of reporting the end of the file.
\<close>

record cfile =
  f_rest :: cstr
  f_eof :: bool
  f_err :: bool

definition fopen_file :: "cstr \<Rightarrow> bool \<Rightarrow> cfile" where
  "fopen_file xs err = \<lparr>f_rest = xs, f_eof = False, f_err = err\<rparr>"

text \<open>\<^verbatim>\<open>fgets(buffer, n, f)\<close>: a line with its newline, at most \<open>n - 1\<close> bytes; \<open>None\<close> is NULL.
  The files are taken to hold no NUL bytes: in the program such a byte ends the string early, here it is a character like
  any other.\<close>

definition line_len :: "cstr \<Rightarrow> nat" where
  "line_len xs = length (takeWhile (\<lambda>c. c \<noteq> 10) xs)"

definition fgets :: "nat \<Rightarrow> cfile \<Rightarrow> cfile \<times> cstr option" where
  "fgets n f =
     (let k = line_len (f_rest f); xs = take (min (Suc k) (n - 1)) (f_rest f);
          hitEnd = (length xs < n - 1 \<and> (xs = [] \<or> last xs \<noteq> 10))
      in if hitEnd \<and> (xs = [] \<or> f_err f) then (f\<lparr>f_rest := [], f_eof := \<not> f_err f\<rparr>, None)
         else (f\<lparr>f_rest := drop (length xs) (f_rest f), f_eof := hitEnd\<rparr>, Some xs))"

section \<open>Lines and tokens\<close>

text \<open>\<^verbatim>\<open>Utils::rtrim\<close>: the string without its trailing blanks and tabs, and whether there were any.\<close>

definition rtrim :: "cstr \<Rightarrow> cstr \<times> bool" where
  "rtrim xs =
     (let r = dropWhile (\<lambda>c. c = 32 \<or> c = 9) (rev xs) in (rev r, length r < length xs))"

text \<open>
  \<^verbatim>\<open>Utils::getLine\<close>: the result code and the buffer.  \<open>n\<close> is the size of the buffer.
\<close>

definition getLine :: "bool \<Rightarrow> nat \<Rightarrow> cfile \<Rightarrow> cfile \<times> cstr \<times> int" where
  "getLine removeNewLine n f =
     (case fgets n f of
        (f, None) \<Rightarrow> (f, [], if f_eof f then 0 else -1)
      | (f, Some xs) \<Rightarrow>
          (if last xs \<noteq> 10 then (f, xs, -1)
           else (f, if removeNewLine then butlast xs else xs, 0)))"

datatype tok_state = Normal | QuoteSeen | InQuoteRegion | InQuoteRegionQuoteSeen

text \<open>\<^verbatim>\<open>if ( j < bufLen ) target[j++] = c\<close>.\<close>

definition tput :: "nat \<Rightarrow> cstr \<Rightarrow> u8 \<Rightarrow> cstr" where
  "tput bufLen t c = (if length t < bufLen then t @ [c] else t)"

text \<open>
  The loop of \<^verbatim>\<open>Utils::getNextToken\<close>: the characters stored in \<^verbatim>\<open>target\<close> and the rest of the input
  from the delimiter on, or \<open>None\<close> when the input is used up.
\<close>

fun tok_loop :: "nat \<Rightarrow> tok_state \<Rightarrow> cstr \<Rightarrow> cstr \<Rightarrow> cstr \<times> cstr option" where
  "tok_loop n st t [] = (t, None)"
| "tok_loop n Normal t (c # xs) =
     (if c = 34 then tok_loop n QuoteSeen t xs
      else if isspace c then (t, Some (c # xs))
      else tok_loop n Normal (tput n t c) xs)"
| "tok_loop n QuoteSeen t (c # xs) =
     (if c = 34 then tok_loop n Normal (tput n t 34) xs
      else tok_loop n InQuoteRegion (tput n t c) xs)"
| "tok_loop n InQuoteRegion t (c # xs) =
     (if c = 34 then tok_loop n InQuoteRegionQuoteSeen t xs
      else tok_loop n InQuoteRegion (tput n t c) xs)"
| "tok_loop n InQuoteRegionQuoteSeen t (c # xs) =
     (if isspace c then (t, Some (c # xs))
      else if c = 34 then tok_loop n InQuoteRegion (tput n t 34) xs
      else tok_loop n InQuoteRegion (tput n (tput n t 34) c) xs)"

definition getNextToken :: "nat \<Rightarrow> cstr option \<Rightarrow> cstr \<times> cstr option" where
  "getNextToken bufLen input =
     (case input of
        None \<Rightarrow> ([], None)
      | Some xs \<Rightarrow>
          (let ys = dropWhile isspace xs
           in if ys = [] then ([], None)
              else (let (t, r) = tok_loop bufLen Normal [] ys
                    in (if length t < bufLen then t else take (bufLen - 1) t, r))))"

section \<open>Time and dumps\<close>

record DosTime =
  dt_hour :: u8
  dt_minute :: u8
  dt_second :: u8
  dt_hsecond :: u8

definition centisecs :: "DosTime \<Rightarrow> u32" where
  "centisecs t = ucast (dt_hsecond t) + ucast (dt_second t) * 100 + ucast (dt_minute t) * 6000 + ucast (dt_hour t) * 360000"

definition timeDiff :: "DosTime \<Rightarrow> DosTime \<Rightarrow> u32" where
  "timeDiff startTime endTime =
     (let st = centisecs startTime; et = centisecs endTime
      in if et < st then (et + 8640000) - st else et - st)"

text \<open>The strings \<^verbatim>\<open>Utils::dumpBytes\<close> writes: rows of sixteen bytes, the last one padded.\<close>

definition dump_char :: "u8 \<Rightarrow> u8" where
  "dump_char c = (if 31 < c \<and> c < 127 then c else 46)"

definition hexDigits :: "u8 \<Rightarrow> u8" where
  "hexDigits n = (if n < 10 then 48 + n else 55 + n)"

definition dump_row :: "u8 list \<Rightarrow> cstr" where
  "dump_row xs =
     (let h = concat (map (\<lambda>b. [hexDigits (drop_bit 4 b), hexDigits (b AND 0xF), 32]) xs)
      in h @ replicate (50 - length h) 32 @ map dump_char xs)"

function dumpBytes :: "u8 list \<Rightarrow> cstr list" where
  "dumpBytes xs =
     (if length xs < 16 then [if xs = [] then [10] else dump_row xs @ [10, 10]]
      else (dump_row (take 16 xs) @ [10]) # dumpBytes (drop 16 xs))"
  by pat_completeness auto

termination dumpBytes
  by (relation "measure length") auto

declare dumpBytes.simps [simp del]

section \<open>Application values\<close>

definition UTILS_LINEBUFFER_LEN :: nat where [cfg_defs]: "UTILS_LINEBUFFER_LEN = 160"
definition UTILS_PARAMETER_LEN :: nat where [cfg_defs]: "UTILS_PARAMETER_LEN = 40"

text \<open>A line read without an error uses up some of the file or reaches its end.\<close>

lemma getLine_progress:
  assumes "getLine b n f = (f', xs, 0)" and "2 \<le> n"
  shows "f_eof f' \<or> length (f_rest f') < length (f_rest f)"
  using assms by (auto simp: getLine_def fgets_def Let_def split: if_splits)

text \<open>
  The loop of \<^verbatim>\<open>Utils::getAppValue\<close> over the lines of the configuration file: the value and the
  result code.
\<close>

function app_loop :: "cstr \<Rightarrow> nat \<Rightarrow> cfile \<Rightarrow> cstr \<times> int" where
  "app_loop key valBufLen f =
     (if f_eof f then ([], 1)
      else (case getLine True UTILS_LINEBUFFER_LEN f of
          (f', line, rc) \<Rightarrow>
            if rc \<noteq> 0 then ([], 1)
            else (case getNextToken UTILS_PARAMETER_LEN (Some (fst (rtrim line))) of
                (parmName, None) \<Rightarrow> app_loop key valBufLen f'
              | (parmName, Some rest) \<Rightarrow>
                  if \<not> stricmp_eq parmName key then app_loop key valBufLen f'
                  else (take (valBufLen - 1) (dropWhile isspace rest), 0))))"
  by pat_completeness auto

termination app_loop
proof (relation "measure (\<lambda>(key, n, f). if f_eof f then 0 else Suc (length (f_rest f)))", goal_cases)
  case (2 key n f f' y line rc t r)
  then have "getLine True UTILS_LINEBUFFER_LEN f = (f', line, 0)" by (cases y) auto
  then show ?case using getLine_progress 2(1) by (force simp: cfg_defs)
next
  case (3 key n f f' y line rc t r z)
  then have "getLine True UTILS_LINEBUFFER_LEN f = (f', line, 0)" by (cases y) auto
  then show ?case using getLine_progress 3(1) by (force simp: cfg_defs)
qed simp

declare app_loop.simps [simp del]

text \<open>\<open>seekOk\<close> tells whether the \<^verbatim>\<open>fseek\<close> to the start of the file works.\<close>

definition getAppValue :: "cstr \<Rightarrow> nat \<Rightarrow> bool \<Rightarrow> cstr \<Rightarrow> bool \<Rightarrow> cstr \<times> int" where
  "getAppValue key valBufLen seekOk file err =
     (if \<not> seekOk then ([], -1) else app_loop key valBufLen (fopen_file file err))"

section \<open>Quoting\<close>

text \<open>A token written between quotes, its own quotes doubled.\<close>

definition esc :: "cstr \<Rightarrow> cstr" where
  "esc s = concat (map (\<lambda>c. if c = 34 then [34, 34] else [c]) s)"

definition quote_token :: "cstr \<Rightarrow> cstr" where
  "quote_token s = 34 # esc s @ [34]"

definition after_token :: "cstr \<Rightarrow> cstr option" where
  "after_token rest = (if rest = [] then None else Some rest)"

lemma esc_simps [simp]:
  "esc [] = []" "esc (c # s) = (if c = 34 then [34, 34] else [c]) @ esc s"
  by (simp_all add: esc_def)

lemma isspace_34 [simp]: "\<not> isspace 34"
  by (simp add: isspace_def)

lemma tok_loop_inside:
  assumes "rest = [] \<or> isspace (hd rest)" and "length t + length s \<le> n"
  shows "tok_loop n InQuoteRegion t (esc s @ 34 # rest) = (t @ s, after_token rest)"
  using assms(2)
proof (induction s arbitrary: t)
  case Nil
  then show ?case using assms(1) by (cases rest) (auto simp: after_token_def)
qed (auto simp: tput_def)

lemma tok_loop_opening:
  assumes "rest = [] \<or> isspace (hd rest)" and "length t + length s \<le> n" and "\<exists>c\<in>set s. c \<noteq> 34"
  shows "tok_loop n QuoteSeen t (esc s @ 34 # rest) = (t @ s, after_token rest)"
  using assms(2,3)
proof (induction s arbitrary: t)
  case (Cons c s)
  then show ?case using tok_loop_inside [OF assms(1)] by (auto simp: tput_def)
qed simp

text \<open>
  A quoted token is read back: whatever the token is, as long as it holds a character other
  than a quote and fits the buffer, writing it between quotes with its own quotes doubled and
  reading it with \<open>getNextToken\<close> gives it back, with the input after it.
\<close>

lemma quoted_token_roundtrip:
  assumes "\<exists>c\<in>set s. c \<noteq> 34" and "length s < bufLen"
    and "\<forall>c\<in>set ws. isspace c" and "rest = [] \<or> isspace (hd rest)"
  shows "getNextToken bufLen (Some (ws @ quote_token s @ rest)) = (s, if rest = [] then None else Some rest)"
proof -
  have d: "dropWhile isspace (ws @ quote_token s @ rest) = quote_token s @ rest"
    using assms(3) by (simp add: quote_token_def)
  have "tok_loop bufLen Normal [] (quote_token s @ rest) = (s, after_token rest)"
    using tok_loop_opening [OF assms(4), of "[]" s bufLen] assms(1,2) by (simp add: quote_token_def)
  then show ?thesis
    using assms(2) by (simp add: getNextToken_def d after_token_def) (simp add: quote_token_def)
qed

end
