(* ===== verification/DnsName.thy ===== *)
theory DnsName
  imports Utils Headers
begin

text \<open>
  Domain names on the wire, \<^verbatim>\<open>code/TCPLIB/DNS.CPP\<close>: the query \<^verbatim>\<open>Dns::sendRequest\<close> builds and
  \<^verbatim>\<open>decodeName\<close>, which follows compression pointers.  A packet is a memory image with the DNS
  header at 42 and its data at 54 (\<^verbatim>\<open>DNSpacket\<close>).
\<close>

unbundle bit_operations_syntax

definition DNS_MAX_NAME_LEN :: nat where [cfg_defs]: "DNS_MAX_NAME_LEN = 128"
definition DNS_RECURSION_DESIRED :: u8 where [cfg_defs]: "DNS_RECURSION_DESIRED = 1"

section \<open>Encoding a query\<close>

text \<open>
  The loop over the characters of the name: \<open>lb\<close> is the place of the length byte of the current
  label, \<open>tg\<close> the place of the next character.
\<close>

fun enc_loop :: "cstr \<Rightarrow> nat \<Rightarrow> nat \<Rightarrow> u8 \<Rightarrow> mem \<Rightarrow> mem \<times> nat \<times> nat \<times> u8" where
  "enc_loop [] lb tg sublen m = (m, lb, tg, sublen)"
| "enc_loop (c # cs) lb tg sublen m =
     (if c = 46 then enc_loop cs tg (Suc tg) 0 (m(lb := sublen))
      else enc_loop cs lb (Suc tg) (sublen + 1) (m(tg := c)))"

text \<open>
  The DNS header: ident, flags (recursion desired, all else zero), one question.
\<close>

definition dns_header :: "u16 \<Rightarrow> u8 list" where
  "dns_header ident = bytes16 (htons ident) @ [DNS_RECURSION_DESIRED, 0] @ bytes16 (htons 1) @ replicate 6 0"

definition dns_query :: "u16 \<Rightarrow> cstr \<Rightarrow> mem \<Rightarrow> mem" where
  "dns_query ident targetName m =
     (let m = memcpy m 42 (dns_header ident);
          (m, lb, tg, sublen) = enc_loop targetName 54 55 0 m
      in memcpy (m(lb := sublen)) tg [0, 0, 1, 0, 1])"

definition dns_reqLen :: "cstr \<Rightarrow> u8" where
  "dns_reqLen targetName = 12 + of_nat (length targetName) + 2 + 4"

section \<open>Decoding a name\<close>

text \<open>
  The loop of \<^verbatim>\<open>decodeName\<close> from offset \<open>cur\<close> of the packet, with the index into the name buffer,
  the flag and place of the first pointer, and the buffer; it need not end, because pointers may
  form a cycle.  The result is the place after the loop, the index and the buffer.
\<close>

partial_function (option) decode_loop ::
    "mem \<Rightarrow> nat \<Rightarrow> nat \<Rightarrow> bool \<Rightarrow> nat \<Rightarrow> mem \<Rightarrow> (nat \<times> nat \<times> mem) option" where
  [code]: "decode_loop m cur idx ptrHit pre buf =
     (let nextLen = m cur; cur' = Suc cur; fin = (\<lambda>c. if ptrHit then pre else c)
      in if nextLen = 0 then Some (fin cur, idx, buf)
         else if 191 < nextLen
         then decode_loop m (42 + unat (m cur') + 256 * unat (nextLen AND 0x3F)) idx True (if ptrHit then pre else cur') buf
         else if DNS_MAX_NAME_LEN \<le> idx + unat nextLen
         then Some (fin cur', 9, memcpy buf 0 (ascii ''!TOO_BIG'' @ [0]))
         else decode_loop m (cur' + unat nextLen) (idx + unat nextLen + 1) ptrHit pre
                (memcpy buf idx (rdbytes m cur' (unat nextLen) @ [46])))"

text \<open>
  With no label before a pointer to an empty name the terminator goes to the byte in front of the
  buffer, which is not part of the model: the buffer keeps what it held.
\<close>

definition decodeName :: "mem \<Rightarrow> nat \<Rightarrow> mem \<Rightarrow> (nat \<times> mem) option" where
  "decodeName m cur buf =
     (if m cur = 0 then Some (Suc cur, buf(0 := 0))
      else map_option (\<lambda>(cur, idx, buf). (Suc cur, if idx = 0 then buf else buf(idx - 1 := 0)))
             (decode_loop m cur 0 False cur buf))"

text \<open>The string a name buffer holds.\<close>

definition name_of :: "mem \<Rightarrow> cstr" where
  "name_of buf = takeWhile (\<lambda>c. c \<noteq> 0) (rdbytes buf 0 DNS_MAX_NAME_LEN)"

section \<open>Names as lists of labels\<close>

text \<open>
  The format of RFC 1035 as \<open>decodeName\<close> reads it: the labels of the name at \<open>p\<close>, and the place
  after the name.
\<close>

inductive name_at :: "mem \<Rightarrow> nat \<Rightarrow> cstr list \<Rightarrow> nat \<Rightarrow> bool" for m where
  name_end: "m p = 0 \<Longrightarrow> name_at m p [] (Suc p)"
| name_label: "m p = of_nat (length l) \<Longrightarrow> 0 < length l \<Longrightarrow> length l \<le> 191 \<Longrightarrow>
    rdbytes m (Suc p) (length l) = l \<Longrightarrow> name_at m (Suc p + length l) ls q \<Longrightarrow> name_at m p (l # ls) q"
| name_pointer: "191 < m p \<Longrightarrow> name_at m (42 + unat (m (Suc p)) + 256 * unat (m p AND 0x3F)) ls q \<Longrightarrow>
    name_at m p ls (Suc (Suc p))"

fun dotted :: "cstr list \<Rightarrow> cstr" where
  "dotted [] = []"
| "dotted (l # ls) = l @ 46 # dotted ls"

lemma decode_loop_labels:
  assumes "name_at m p ls q" and "idx + length (dotted ls) \<le> DNS_MAX_NAME_LEN"
  shows "\<exists>q'. decode_loop m p idx hit pre buf = Some (q', idx + length (dotted ls), memcpy buf idx (dotted ls)) \<and>
    Suc q' = (if hit then Suc pre else q)"
  using assms
proof (induction arbitrary: idx hit pre buf rule: name_at.induct)
  case (name_end p)
  then show ?case by (subst decode_loop.simps) simp
next
  case (name_label p l ls q)
  have u: "unat (m p) = length l" using name_label(1,3) by (simp add: unat_of_nat)
  have "m p \<noteq> 0" "\<not> 191 < m p" using u name_label(2,3) by (auto simp: word_less_nat_alt)
  moreover have "\<not> DNS_MAX_NAME_LEN \<le> idx + unat (m p)" using name_label.prems u by simp
  moreover have "idx + length l + 1 + length (dotted ls) \<le> DNS_MAX_NAME_LEN" using name_label.prems by simp
  ultimately show ?case
    using name_label.IH [of "idx + length l + 1" hit pre "memcpy buf idx (l @ [46])"]
      memcpy_append [of buf idx "l @ [46]" "dotted ls"] name_label(4)
    by (subst decode_loop.simps) (simp add: u Let_def add.assoc)
next
  case (name_pointer p ls q)
  then have "m p \<noteq> 0" by auto
  then show ?case
    using name_pointer.IH [OF name_pointer.prems, of True "if hit then pre else Suc p" buf] name_pointer(1)
    by (subst decode_loop.simps) (auto simp: Let_def)
qed

text \<open>The text of a name is its labels with dots between them.\<close>

definition name_text :: "cstr list \<Rightarrow> cstr" where
  "name_text ls = butlast (dotted ls)"

lemma name_text_simps [simp]:
  "name_text [] = []" "name_text [l] = l" "ls \<noteq> [] \<Longrightarrow> name_text (l # ls) = l @ 46 # name_text ls"
  by (auto simp: name_text_def butlast_append) (cases ls, auto)

lemma dotted_text: "ls \<noteq> [] \<Longrightarrow> dotted ls = name_text ls @ [46]"
proof -
  have "ls \<noteq> [] \<Longrightarrow> last (dotted ls) = 46 \<and> dotted ls \<noteq> []" by (induction ls) (auto, case_tac ls, auto)
  then show "ls \<noteq> [] \<Longrightarrow> ?thesis" by (metis append_butlast_last_id name_text_def)
qed

lemma decodeName_labels:
  assumes "name_at m p ls q" and "ls \<noteq> []" and "length (name_text ls) < DNS_MAX_NAME_LEN"
  shows "decodeName m p buf = Some (q, memcpy buf 0 (name_text ls @ [0]))"
proof -
  have d: "length (dotted ls) = Suc (length (name_text ls))" using dotted_text [OF assms(2)] by simp
  have "m p \<noteq> 0" using assms(1,2) by (cases rule: name_at.cases) (auto simp: word_of_nat_eq_0_iff dest: dvd_imp_le)
  moreover obtain q' where "decode_loop m p 0 False p buf = Some (q', length (dotted ls), memcpy buf 0 (dotted ls))" "Suc q' = q"
    using decode_loop_labels [OF assms(1), of 0 False p buf] d assms(3) by auto
  moreover have "(memcpy buf 0 (name_text ls @ [46]))(length (name_text ls) := 0) = memcpy buf 0 (name_text ls @ [0])"
    by (auto simp: memcpy_def fun_eq_iff nth_append)
  ultimately show ?thesis using dotted_text [OF assms(2)] by (simp add: decodeName_def d)
qed

lemma name_of_memcpy:
  assumes "0 \<notin> set xs" and "length xs < DNS_MAX_NAME_LEN"
  shows "name_of (memcpy buf 0 (xs @ [0])) = xs"
proof -
  have "rdbytes (memcpy buf 0 (xs @ [0])) 0 DNS_MAX_NAME_LEN = (xs @ [0]) @ rdbytes buf (Suc (length xs)) (DNS_MAX_NAME_LEN - Suc (length xs))"
    using assms(2) rdbytes_append [of "memcpy buf 0 (xs @ [0])" 0 "Suc (length xs)" "DNS_MAX_NAME_LEN - Suc (length xs)"]
      rdbytes_memcpy_same [of buf 0 "xs @ [0]"] by (simp add: rdbytes_memcpy_disj)
  moreover have "takeWhile (\<lambda>c. c \<noteq> 0) (xs @ 0 # ys) = xs" for ys :: "u8 list"
    using assms(1) by (subst takeWhile_append2) auto
  ultimately show ?thesis by (simp add: name_of_def)
qed

text \<open>A name that does not fit is replaced.\<close>

lemma decode_loop_too_big:
  assumes "name_at m p ls q" and "DNS_MAX_NAME_LEN < idx + length (dotted ls)" and "idx \<le> DNS_MAX_NAME_LEN"
  shows "\<exists>q' b. decode_loop m p idx hit pre buf = Some (q', 9, memcpy b 0 (ascii ''!TOO_BIG'' @ [0]))"
  using assms
proof (induction arbitrary: idx hit pre buf rule: name_at.induct)
  case (name_label p l ls q)
  have u: "unat (m p) = length l" using name_label(1,3) by (simp add: unat_of_nat)
  have m: "m p \<noteq> 0" "\<not> 191 < m p" using u name_label(2,3) by (auto simp: word_less_nat_alt)
  show ?case
  proof (cases "DNS_MAX_NAME_LEN \<le> idx + length l")
    case True
    then show ?thesis using m by (subst decode_loop.simps) (simp add: u Let_def, blast)
  next
    case False
    then show ?thesis
      using m name_label.IH [of "idx + length l + 1" hit pre "memcpy buf idx (l @ [46])"] name_label.prems(1) name_label(4)
      by (subst decode_loop.simps) (simp add: u Let_def add.assoc)
  qed
next
  case (name_pointer p ls q)
  then have "m p \<noteq> 0" by auto
  then show ?case
    using name_pointer.IH [OF name_pointer.prems, of True "if hit then pre else Suc p" buf] name_pointer(1)
    by (subst decode_loop.simps) (auto simp: Let_def)
qed simp

lemma decodeName_too_big:
  assumes "name_at m p ls q" and "DNS_MAX_NAME_LEN \<le> length (name_text ls)"
  shows "\<exists>q' buf'. decodeName m p buf = Some (q', buf') \<and> name_of buf' = ascii ''!TOO_BIG''"
proof -
  have ls: "ls \<noteq> []" using assms(2) by (auto simp: cfg_defs)
  have "m p \<noteq> 0" using assms(1) ls by (cases rule: name_at.cases) (auto simp: word_of_nat_eq_0_iff dest: dvd_imp_le)
  moreover have "DNS_MAX_NAME_LEN < length (dotted ls)" using dotted_text [OF ls] assms(2) by simp
  then obtain q' b where "decode_loop m p 0 False p buf = Some (q', 9, memcpy b 0 (ascii ''!TOO_BIG'' @ [0]))"
    using decode_loop_too_big [OF assms(1), of 0] by fastforce
  moreover have "(memcpy b 0 (ascii ''!TOO_BIG'' @ [0]))(8 := 0) = memcpy b 0 (ascii ''!TOO_BIG'' @ [0])"
    by (auto simp: memcpy_def fun_eq_iff ascii_def)
  moreover have "name_of (memcpy b 0 (ascii ''!TOO_BIG'' @ [0])) = ascii ''!TOO_BIG''"
    by (rule name_of_memcpy) (simp_all add: ascii_def cfg_defs of_char_def)
  ultimately show ?thesis by (simp add: decodeName_def)
qed

text \<open>An empty name; one that is reached by a pointer leaves the buffer as it is.\<close>

lemma decode_loop_empty:
  assumes "name_at m p [] q"
  shows "\<exists>q'. decode_loop m p 0 hit pre buf = Some (q', 0, buf) \<and> Suc q' = (if hit then Suc pre else q)"
  using decode_loop_labels [OF assms, of 0 hit pre buf] by simp

lemma decodeName_empty:
  assumes "name_at m p [] q"
  shows "decodeName m p buf = Some (q, if m p = 0 then buf(0 := 0) else buf)"
proof (cases "m p = 0")
  case True
  have "q = Suc p" using assms True by (cases rule: name_at.cases) auto
  then show ?thesis using True by (simp add: decodeName_def)
next
  case False
  then show ?thesis using decode_loop_empty [OF assms, of False p buf] by (auto simp: decodeName_def)
qed

section \<open>What is encoded is decoded\<close>

lemma enc_loop_label:
  "46 \<notin> set l \<Longrightarrow> enc_loop (l @ cs) lb tg sl m = enc_loop cs lb (tg + length l) (sl + of_nat (length l)) (memcpy m tg l)"
proof (induction l arbitrary: tg sl m)
  case (Cons c l)
  have "memcpy (m(tg := c)) (Suc tg) l = memcpy m tg (c # l)"
    by (auto simp: memcpy_def fun_eq_iff nth_Cons')
  then show ?case using Cons by (simp add: add.assoc)
qed simp

definition enc_end :: "u8 list \<Rightarrow> mem \<times> nat \<times> nat \<times> u8 \<Rightarrow> mem" where
  "enc_end tail r = (case r of (m, lb, tg, sl) \<Rightarrow> memcpy (m(lb := sl)) tg (0 # tail))"

definition good_label :: "cstr \<Rightarrow> bool" where
  "good_label l \<longleftrightarrow> l \<noteq> [] \<and> length l \<le> 63 \<and> 46 \<notin> set l \<and> 0 \<notin> set l"

lemma enc_loop_name:
  assumes "ls \<noteq> []" and "\<forall>l\<in>set ls. good_label l"
  shows "name_at (enc_end tail (enc_loop (name_text ls) lb (Suc lb) 0 m)) lb ls (lb + length (name_text ls) + 2) \<and>
    (\<forall>i<lb. enc_end tail (enc_loop (name_text ls) lb (Suc lb) 0 m) i = m i)"
  using assms
proof (induction ls arbitrary: lb m)
  case (Cons l ls)
  let ?n = "length l"
  have l: "good_label l" using Cons.prems by simp
  show ?case
  proof (cases "ls = []")
    case True
    let ?M = "memcpy ((memcpy m (Suc lb) l)(lb := of_nat ?n)) (Suc lb + ?n) (0 # tail)"
    have e: "enc_end tail (enc_loop l lb (Suc lb) 0 m) = ?M"
      using enc_loop_label [of l "[]" lb "Suc lb" 0 m] l by (simp add: enc_end_def good_label_def)
    have "rdbytes ?M (Suc lb) ?n = l" by (rule nth_equalityI) (auto simp: memcpy_def)
    moreover have "?M lb = of_nat ?n" "?M (Suc lb + ?n) = 0" by (simp_all add: memcpy_def)
    ultimately have "name_at ?M lb [l] (Suc (Suc lb + ?n))"
      using l by (intro name_label name_end) (auto simp: good_label_def)
    moreover have "\<forall>i<lb. ?M i = m i" by (simp add: memcpy_def)
    ultimately show ?thesis using True e by simp
  next
    case False
    define m2 where "m2 = (memcpy m (Suc lb) l)(lb := of_nat ?n)"
    let ?lb = "Suc lb + ?n"
    define M where "M = enc_end tail (enc_loop (name_text ls) ?lb (Suc ?lb) 0 m2)"
    have e: "enc_end tail (enc_loop (name_text (l # ls)) lb (Suc lb) 0 m) = M"
      using enc_loop_label [of l "46 # name_text ls" lb "Suc lb" 0 m] l False by (simp add: good_label_def m2_def M_def)
    note ih = Cons.IH [OF False, of ?lb m2, folded M_def]
    have same: "M i = m2 i" if "i < ?lb" for i using ih Cons.prems that by simp
    have "rdbytes M (Suc lb) ?n = l"
      by (rule nth_equalityI) (auto simp: same m2_def memcpy_def)
    moreover have "M lb = of_nat ?n" by (simp add: same m2_def)
    ultimately have "name_at M lb (l # ls) (?lb + length (name_text ls) + 2)"
      using ih Cons.prems l by (intro name_label) (auto simp: good_label_def)
    moreover have "\<forall>i<lb. M i = m i" using same by (simp add: m2_def memcpy_def)
    ultimately show ?thesis using False e by (simp add: add.assoc)
  qed
qed simp

lemma dns_query_name:
  assumes "ls \<noteq> []" and "\<forall>l\<in>set ls. good_label l"
  shows "name_at (dns_query ident (name_text ls) m) 54 ls (56 + length (name_text ls))"
    and "i < 54 \<Longrightarrow> dns_query ident (name_text ls) m i = memcpy m 42 (dns_header ident) i"
proof -
  have e: "dns_query ident (name_text ls) m = enc_end [0, 1, 0, 1] (enc_loop (name_text ls) 54 55 0 (memcpy m 42 (dns_header ident)))"
    by (simp add: dns_query_def enc_end_def split_beta Let_def)
  show "name_at (dns_query ident (name_text ls) m) 54 ls (56 + length (name_text ls))"
    "i < 54 \<Longrightarrow> dns_query ident (name_text ls) m i = memcpy m 42 (dns_header ident) i"
    using enc_loop_name [OF assms, of "[0, 1, 0, 1]" 54 "memcpy m 42 (dns_header ident)"] by (simp_all add: e add.commute)
qed

lemma name_text_no_nul: "\<forall>l\<in>set ls. good_label l \<Longrightarrow> 0 \<notin> set (name_text ls)"
proof (induction ls)
  case (Cons l ls)
  then show ?case by (cases "ls = []") (auto simp: good_label_def)
qed simp

text \<open>A pointer to itself keeps the loop where it is.\<close>

lemma decode_loop_cycle:
  assumes "191 < m p" and "42 + unat (m (Suc p)) + 256 * unat (m p AND 0x3F) = p"
  shows "decode_loop m p idx hit pre buf = None"
proof -
  have "\<not> (191 < m p \<and> 42 + unat (m (Suc p)) + 256 * unat (m p AND 0x3F) = p)"
    if "decode_loop m p idx hit pre buf = Some r" for r
  proof (rule decode_loop.raw_induct [of "\<lambda>m p idx hit pre buf r.
      \<not> (191 < m p \<and> 42 + unat (m (Suc p)) + 256 * unat (m p AND 0x3F) = p)"], goal_cases)
    case (1 loop m p idx hit pre buf r)
    show ?case
    proof (rule notI)
      assume c: "191 < m p \<and> 42 + unat (m (Suc p)) + 256 * unat (m p AND 0x3F) = p"
      then have "m p \<noteq> 0" by auto
      then have "loop m p idx True (if hit then pre else Suc p) buf = Some r" using 1(2) c by (simp add: Let_def)
      then show False using 1(1) c by blast
    qed
  qed (rule that)
  then show ?thesis using assms by (cases "decode_loop m p idx hit pre buf") auto
qed

section \<open>Properties\<close>

text \<open>
  C25. A name encoded by \<open>sendRequest\<close> is decoded to itself: for a name of at most 127 characters
  whose labels have 1 to 63 characters, \<open>decodeName\<close> at the question of the query stops right
  after the name and leaves exactly the text of the name in the buffer.
\<close>

theorem dns_name_roundtrip:
  assumes "ls \<noteq> []" and "\<forall>l\<in>set ls. good_label l" and "length (name_text ls) < DNS_MAX_NAME_LEN"
  shows "\<exists>buf'. decodeName (dns_query ident (name_text ls) m) 54 buf = Some (56 + length (name_text ls), buf') \<and>
    name_of buf' = name_text ls"
  using decodeName_labels [OF dns_query_name(1) [OF assms(1,2)] assms(1,3)]
    name_of_memcpy [OF name_text_no_nul [OF assms(2)] assms(3)] by blast

theorem dns_name_roundtrip_witness:
  "\<exists>buf'. decodeName (dns_query 7 (name_text [ascii ''irc'', ascii ''tv'']) (\<lambda>_. 0)) 54 (\<lambda>_. 0) = Some (62, buf') \<and>
    name_of buf' = ascii ''irc.tv''"
  using dns_name_roundtrip [of "[ascii ''irc'', ascii ''tv'']" 7 "\<lambda>_. 0" "\<lambda>_. 0"]
  by (simp add: good_label_def ascii_def cfg_defs)

text \<open>
  C26. At a place where a name starts in the format of RFC 1035, labels and pointers mixed,
  \<open>decodeName\<close> returns.  It yields the text of the name and the place after its first pointer or its end, when the name
  has a label and its text at most 127 characters; a longer name, up to the 255 the format allows or beyond, yields the
  result \<open>!TOO_BIG\<close>.  An empty name yields the empty text, but one that is reached by a pointer leaves the buffer as it
  was.  A pointer to itself makes \<open>decodeName\<close> run forever.
\<close>

theorem decodeName_follows_pointers:
  "(name_at m p ls q \<longrightarrow>
      (if ls = [] then decodeName m p buf = Some (q, if m p = 0 then buf(0 := 0) else buf)
       else if length (name_text ls) < DNS_MAX_NAME_LEN then decodeName m p buf = Some (q, memcpy buf 0 (name_text ls @ [0]))
       else \<exists>q' buf'. decodeName m p buf = Some (q', buf') \<and> name_of buf' = ascii ''!TOO_BIG'')) \<and>
   (191 < m p \<and> 42 + unat (m (Suc p)) + 256 * unat (m p AND 0x3F) = p \<longrightarrow> decodeName m p buf = None)"
  using decodeName_labels [of m p ls q buf] decodeName_too_big [of m p ls q buf] decodeName_empty [of m p q buf]
    decode_loop_cycle [of m p] by (auto simp: decodeName_def)

text \<open>The name \<open>tv\<close> at 54 and, at 60, a label \<open>irc\<close> and a pointer to it; a pointer to itself at 70.\<close>

definition demo_names :: mem where
  "demo_names = memcpy (memcpy (memcpy (\<lambda>_. 0) 54 ([2] @ ascii ''tv'' @ [0])) 60 ([3] @ ascii ''irc'' @ [0xC0, 12])) 70 [0xC0, 28]"

theorem decodeName_follows_pointers_witness:
  "decodeName demo_names 60 (\<lambda>_. 0) = Some (66, memcpy (\<lambda>_. 0) 0 (ascii ''irc.tv'' @ [0])) \<and>
   decodeName demo_names 70 (\<lambda>_. 0) = None"
proof -
  have "name_at demo_names 54 [ascii ''tv''] (Suc (Suc 54 + length (ascii ''tv'')))"
    by (intro name_label name_end) (simp_all add: demo_names_def ascii_def memcpy_def rdbytes_def upt_rec)
  then have "name_at demo_names 64 [ascii ''tv''] (Suc (Suc 64))"
    by (intro name_pointer) (simp_all add: demo_names_def ascii_def memcpy_def)
  moreover have "demo_names 60 = 3" "rdbytes demo_names 61 (Suc (Suc (Suc 0))) = [105, 114, 99]"
    by (simp_all add: demo_names_def ascii_def memcpy_def rdbytes_def upt_rec)
  ultimately have n: "name_at demo_names 60 [ascii ''irc'', ascii ''tv''] 66"
    using name_label [of demo_names 60 "ascii ''irc''" "[ascii ''tv'']" 66] by (simp add: ascii_def)
  show ?thesis
    using decodeName_follows_pointers [of demo_names 60 "[ascii ''irc'', ascii ''tv'']" 66 "\<lambda>_. 0"] n
      decodeName_follows_pointers [of demo_names 70 "[]" 0 "\<lambda>_. 0"]
    by (simp add: ascii_def cfg_defs) (simp add: demo_names_def memcpy_def ascii_def)
qed

end
