(* ===== verification/Dns.thy ===== *)
theory Dns
  imports Icmp DnsName
begin

text \<open>
  The resolver's state, \<^verbatim>\<open>code/TCPLIB/DNS.CPP\<close>: its cache, the scan of the hosts file and the
  handler of responses \<^verbatim>\<open>Dns::udpHandler\<close>, in the configuration without \<^verbatim>\<open>DNS_ITERATIVE\<close>.
  A result \<open>None\<close> is a call that does not return (a cycle of compression pointers).
\<close>

unbundle bit_operations_syntax

section \<open>State\<close>

definition DNS_MAX_ENTRIES :: u8 where [cfg_defs]: "DNS_MAX_ENTRIES = 1"
definition DNS_HANDLER_PORT :: u16 where [cfg_defs]: "DNS_HANDLER_PORT = 1057"

record DNS_Rec_t =
  d_name :: cstr
  d_ipAddr :: IpAddr
  d_updated :: u32

record DNS_Pending_Rec_t =
  pq_ident :: u16
  pq_start :: u32
  pq_lastUpdate :: u32
  pq_originalTarget :: cstr
  pq_nsIpAddr :: IpAddr
  pq_targetName :: cstr

definition Good :: int where [cfg_defs]: "Good = 0"
definition Timeout :: int where [cfg_defs]: "Timeout = -1"
definition UnknownError :: int where [cfg_defs]: "UnknownError = -2"

text \<open>
  \<open>hosts_file\<close> is the content of the file \<open>HostsFilename\<close> names, \<open>None\<close> when it cannot be opened;
  \<open>dns_stack\<close> is what an uninitialised local buffer holds.
\<close>

record dns_state = icmp_state +
  dnsTable :: "nat \<Rightarrow> DNS_Rec_t"
  dns_entries :: u8
  queryPending :: bool
  lastQueryRc :: int
  pendingQuery :: DNS_Pending_Rec_t
  NameServer :: IpAddr
  Domain :: cstr
  HostsFilename :: cstr
  hosts_file :: "cstr option"
  dns_stack :: mem

definition zero_pending :: DNS_Pending_Rec_t where
  "zero_pending = \<lparr>pq_ident = 0, pq_start = 0, pq_lastUpdate = 0, pq_originalTarget = [],
     pq_nsIpAddr = IpInvalid, pq_targetName = []\<rparr>"

definition zero_dns_state :: dns_state where
  "zero_dns_state = icmp_state.extend zero_icmp_state (dns_state.fields
     (\<lambda>_. \<lparr>d_name = [], d_ipAddr = IpInvalid, d_updated = 0\<rparr>) 0 False 0 zero_pending
     IpInvalid [] [] None (\<lambda>_. 0))"

lemmas zero_dns = zero_dns_state_def zero_icmp dns_state.defs

section \<open>The cache\<close>

definition flushCache :: "'a dns_state_scheme \<Rightarrow> 'a dns_state_scheme" where
  "flushCache s = s\<lparr>dns_entries := 0\<rparr>"

definition dns_find :: "cstr \<Rightarrow> 'a dns_state_scheme \<Rightarrow> nat option" where
  "dns_find name s = find (\<lambda>i. stricmp_eq (d_name (dnsTable s i)) name) [0..<unat (dns_entries s)]"

definition dns_oldest :: "'a dns_state_scheme \<Rightarrow> nat" where
  "dns_oldest s =
     foldl (\<lambda>index i. if d_updated (dnsTable s i) < d_updated (dnsTable s index) then i else index)
       0 [1..<unat (dns_entries s)]"

definition dns_put :: "nat \<Rightarrow> (DNS_Rec_t \<Rightarrow> DNS_Rec_t) \<Rightarrow> 'a dns_state_scheme \<Rightarrow> 'a dns_state_scheme" where
  "dns_put i f s = s\<lparr>dnsTable := (dnsTable s)(i := (f (dnsTable s i))\<lparr>d_updated := unix_time s\<rparr>)\<rparr>"

definition dns_addOrUpdate :: "cstr \<Rightarrow> IpAddr \<Rightarrow> 'a dns_state_scheme \<Rightarrow> 'a dns_state_scheme" where
  "dns_addOrUpdate targetName addr s =
     (case dns_find targetName s of
        Some i \<Rightarrow> dns_put i (\<lambda>r. r\<lparr>d_ipAddr := addr\<rparr>) s
      | None \<Rightarrow>
          (let (i, s) = (if dns_entries s < DNS_MAX_ENTRIES
                         then (unat (dns_entries s), s\<lparr>dns_entries := dns_entries s + 1\<rparr>)
                         else (dns_oldest s, s))
           in dns_put i (\<lambda>r. r\<lparr>d_name := targetName, d_ipAddr := addr\<rparr>) s))"

definition deleteFromCache :: "cstr \<Rightarrow> 'a dns_state_scheme \<Rightarrow> 'a dns_state_scheme" where
  "deleteFromCache targetName s =
     (case dns_find targetName s of
        None \<Rightarrow> s
      | Some i \<Rightarrow>
          (let last = dns_entries s - 1
           in s\<lparr>dnsTable := (dnsTable s)(i := dnsTable s (unat last)), dns_entries := last\<rparr>))"

section \<open>Starting and stopping\<close>

definition Dns_init :: "'a dns_state_scheme \<Rightarrow> 'a dns_state_scheme \<times> int" where
  "Dns_init s = registerCallback DNS_HANDLER_PORT UdpDns s"

definition Dns_stop :: "'a dns_state_scheme \<Rightarrow> 'a dns_state_scheme" where
  "Dns_stop s = fst (unregisterCallback DNS_HANDLER_PORT s)"

section \<open>The hosts file\<close>

text \<open>A token read from a string leaves a shorter string.\<close>

lemma tok_loop_shorter: "snd (tok_loop n st t xs) = Some r \<Longrightarrow> length r \<le> length xs"
  by (induction n st t xs rule: tok_loop.induct) (auto split: if_splits)

lemma getNextToken_shorter:
  assumes "getNextToken n (Some xs) = (t, Some r)"
  shows "length r < length xs"
proof -
  define ys where "ys = dropWhile isspace xs"
  have ys: "ys \<noteq> []" and r: "snd (tok_loop n Normal [] ys) = Some r"
    using assms by (auto simp: getNextToken_def ys_def Let_def split: if_splits prod.splits)
  obtain c zs where c: "ys = c # zs" using ys by (cases ys) auto
  have "\<not> isspace c" using hd_dropWhile [of isspace xs] ys c by (simp add: ys_def)
  then have "length r \<le> length zs"
    using r c by (auto simp: dest!: tok_loop_shorter split: if_splits)
  moreover have "length ys \<le> length xs" by (simp add: ys_def length_dropWhile_le)
  ultimately show ?thesis using c by simp
qed

text \<open>The names after the address on a line: whether one of them is a target.\<close>

function hosts_match :: "cstr \<Rightarrow> cstr \<Rightarrow> cstr option \<Rightarrow> bool" where
  "hosts_match target1 target2 None = False"
| "hosts_match target1 target2 (Some xs) =
     (let (token, rest) = getNextToken DNS_MAX_NAME_LEN (Some xs)
      in token \<noteq> [] \<and>
         (stricmp_eq token target1 \<or> target2 \<noteq> [] \<and> stricmp_eq token target2 \<or> hosts_match target1 target2 rest))"
  by pat_completeness auto

termination hosts_match
proof (relation "measure (\<lambda>(a, b, r). case r of None \<Rightarrow> 0 | Some xs \<Rightarrow> Suc (length xs))", goal_cases)
  case (2 a b xs r token rest)
  then show ?case by (cases rest) (auto dest: getNextToken_shorter [OF sym])
qed simp

declare hosts_match.simps [simp del]

lemma fgets_shorter:
  assumes "fgets n f = (f', Some xs)" and "2 \<le> n"
  shows "length (f_rest f') < length (f_rest f)"
  using assms by (auto simp: fgets_def Let_def split: if_splits)

text \<open>
  The loop over the lines; the address variables keep their values from line to line, and the
  loop goes on after a match.
\<close>

function hosts_loop :: "cstr \<Rightarrow> cstr \<Rightarrow> cfile \<Rightarrow> u16 list \<Rightarrow> IpAddr \<Rightarrow> IpAddr" where
  "hosts_loop target1 target2 f tmp result =
     (if f_eof f then result
      else (case fgets 80 f of
          (f', None) \<Rightarrow> result
        | (f', Some line) \<Rightarrow>
            if line ! 0 = 35 then hosts_loop target1 target2 f' tmp result
            else (let (token, rest) = getNextToken DNS_MAX_NAME_LEN (Some line)
              in if token = [] then hosts_loop target1 target2 f' tmp result
                 else (let (rc, tmp) = sscanf_ip token tmp
                   in hosts_loop target1 target2 f' tmp
                        (if rc = 4 \<and> hosts_match target1 target2 rest then tmp_ip tmp else result)))))"
  by pat_completeness auto

termination hosts_loop
proof (relation "measure (\<lambda>(a, b, f, t, r). length (f_rest f))", goal_cases)
  case (2 a b f t r f' y line)
  then have "fgets 80 f = (f', Some line)" by simp
  then show ?case using fgets_shorter by force
next
  case (3 a b f t r f' y line)
  then have "fgets 80 f = (f', Some line)" by simp
  then show ?case using fgets_shorter by force
next
  case (4 a b f t r f' y line)
  then have "fgets 80 f = (f', Some line)" by simp
  then show ?case using fgets_shorter by force
qed simp

declare hosts_loop.simps [simp del]

text \<open>\<open>tmp\<close> is what the uninitialised variables hold.\<close>

definition scanHostsFile :: "cstr \<Rightarrow> cstr \<Rightarrow> u16 list \<Rightarrow> 'a dns_state_scheme \<Rightarrow> IpAddr" where
  "scanHostsFile target1 target2 tmp s =
     (if HostsFilename s = [] then IpInvalid
      else (case hosts_file s of
          None \<Rightarrow> IpInvalid
        | Some content \<Rightarrow> hosts_loop target1 target2 (fopen_file content False) tmp IpInvalid))"

section \<open>Responses\<close>

text \<open>
  A resource record of section \<open>j\<close> (1 is the answers).  The state of the scan is the place in the
  packet, the buffer \<^verbatim>\<open>tmpName\<close> and the resolver's state.
\<close>

definition dns_rr :: "nat \<Rightarrow> mem \<Rightarrow> nat \<Rightarrow> mem \<Rightarrow> 'a dns_state_scheme \<Rightarrow>
    (nat \<times> mem \<times> 'a dns_state_scheme) option" where
  "dns_rr j m current tmpName s =
     (case decodeName m current tmpName of
        None \<Rightarrow> None
      | Some (current, tmpName) \<Rightarrow>
          (let type = ntohs (rd16 m current);
               rdl = ntohs (rd16 m (current + 8));
               current = current + 10
           in if type = 1 then
                (let addr = rdip m current;
                     s = (if j = 1 \<and> stricmp_eq (pq_targetName (pendingQuery s)) (name_of tmpName)
                          then (dns_addOrUpdate (pq_originalTarget (pendingQuery s)) addr s)
                                 \<lparr>queryPending := False, lastQueryRc := Good\<rparr>
                          else s)
                 in Some (current + unat rdl, tmpName, s))
              else if type = 2 then
                map_option (\<lambda>(current, tmpName). (current, tmpName, s)) (decodeName m current tmpName)
              else if type = 5 then
                map_option (\<lambda>(current, tmpName). (current, tmpName,
                    s\<lparr>pendingQuery := (pendingQuery s)\<lparr>pq_targetName := name_of tmpName\<rparr>\<rparr>))
                  (decodeName m current tmpName)
              else Some (current + unat rdl, tmpName, s)))"

fun dns_rrs :: "nat \<Rightarrow> nat \<Rightarrow> mem \<Rightarrow> nat \<Rightarrow> mem \<Rightarrow> 'a dns_state_scheme \<Rightarrow>
    (nat \<times> mem \<times> 'a dns_state_scheme) option" where
  "dns_rrs j 0 m current tmpName s = Some (current, tmpName, s)"
| "dns_rrs j (Suc n) m current tmpName s =
     (case dns_rr j m current tmpName s of
        None \<Rightarrow> None
      | Some (current, tmpName, s) \<Rightarrow> dns_rrs j n m current tmpName s)"

text \<open>The questions are skipped.\<close>

fun dns_questions :: "nat \<Rightarrow> mem \<Rightarrow> nat \<Rightarrow> mem \<Rightarrow> nat option" where
  "dns_questions 0 m current buf = Some current"
| "dns_questions (Suc n) m current buf =
     (case decodeName m current buf of
        None \<Rightarrow> None
      | Some (current, buf) \<Rightarrow> dns_questions n m (current + 4) buf)"

text \<open>The counts are cut to eight bits.\<close>

definition dns_count :: "mem \<Rightarrow> nat \<Rightarrow> nat" where
  "dns_count m p = unat (ucast (ntohs (rd16 m p)) :: u8)"

definition dns_sections :: "mem \<Rightarrow> 'a dns_state_scheme \<Rightarrow> 'a dns_state_scheme option" where
  "dns_sections m s =
     (case dns_questions (dns_count m 46) m 54 (dns_stack s) of
        None \<Rightarrow> None
      | Some current \<Rightarrow>
          (case dns_rrs 1 (dns_count m 48) m current (dns_stack s) s of
             None \<Rightarrow> None
           | Some (current, tmpName, s) \<Rightarrow>
               (case dns_rrs 2 (dns_count m 50) m current tmpName s of
                  None \<Rightarrow> None
                | Some (current, tmpName, s) \<Rightarrow>
                    map_option (\<lambda>(_, _, s). s) (dns_rrs 3 (dns_count m 52) m current tmpName s))))"

definition dns_conclude :: "u8 \<Rightarrow> 'a dns_state_scheme \<Rightarrow> 'a dns_state_scheme" where
  "dns_conclude responseCode s =
     (if \<not> queryPending s then s
      else if responseCode \<noteq> 0 then s\<lparr>queryPending := False, lastQueryRc := int (unat responseCode)\<rparr>
      else s\<lparr>queryPending := False, lastQueryRc := UnknownError\<rparr>)"

text \<open>The response code is read from the packet after the packet has been given back.\<close>

definition udpHandler :: "bufref \<Rightarrow> 'a dns_state_scheme \<Rightarrow> 'a dns_state_scheme option" where
  "udpHandler packet s =
     (let m = pkt_mem s packet
      in if ntohs (rd16 m 42) \<noteq> pq_ident (pendingQuery s) then Some (Buffer_free packet s)
         else map_option (\<lambda>s. let s = Buffer_free packet s in dns_conclude (pkt_mem s packet 45 AND 0xF) s)
                (dns_sections m s))"

section \<open>The cache finds what was put into it\<close>

definition dns_lookup :: "cstr \<Rightarrow> 'a dns_state_scheme \<Rightarrow> IpAddr option" where
  "dns_lookup name s = map_option (\<lambda>i. d_ipAddr (dnsTable s i)) (dns_find name s)"

definition dns_wf :: "'a dns_state_scheme \<Rightarrow> bool" where
  "dns_wf s \<longleftrightarrow> dns_entries s \<le> DNS_MAX_ENTRIES"

lemma stricmp_eq_sym: "stricmp_eq a b \<longleftrightarrow> stricmp_eq b a"
  and stricmp_eq_trans: "stricmp_eq a b \<Longrightarrow> stricmp_eq b c \<longleftrightarrow> stricmp_eq a c"
  and stricmp_eq_refl [simp]: "stricmp_eq a a"
  by (auto simp: stricmp_eq_def)

lemma dns_find_Some:
  "dns_find name s = Some i \<longleftrightarrow> i < unat (dns_entries s) \<and> stricmp_eq (d_name (dnsTable s i)) name \<and>
    (\<forall>j<i. \<not> stricmp_eq (d_name (dnsTable s j)) name)"
  by (auto simp: dns_find_def find_Some_iff)

lemma dns_find_None:
  "dns_find name s = None \<longleftrightarrow> (\<forall>i<unat (dns_entries s). \<not> stricmp_eq (d_name (dnsTable s i)) name)"
  by (auto simp: dns_find_def find_None_iff)

lemma dns_oldest_less:
  assumes "dns_entries s \<noteq> 0"
  shows "dns_oldest s < unat (dns_entries s)"
proof -
  have "foldl (\<lambda>index i. if d_updated (dnsTable s i) < d_updated (dnsTable s index) then i else index) k xs < n"
    if "k < n" "\<forall>i\<in>set xs. i < n" for k xs n
    using that by (induction xs arbitrary: k) auto
  moreover have "0 < unat (dns_entries s)" using assms by (simp add: unat_gt_0)
  ultimately show ?thesis by (simp add: dns_oldest_def)
qed

text \<open>
  \<open>dns_addOrUpdate\<close> writes one slot: the one found, the next free one, or the oldest.
\<close>

lemma dns_addOrUpdate_slot:
  assumes "dns_wf s"
  obtains i n where "n = (if dns_find name s = None \<and> dns_entries s < DNS_MAX_ENTRIES then dns_entries s + 1 else dns_entries s)"
    and "i < unat n" and "n \<le> DNS_MAX_ENTRIES" and "unat (dns_entries s) \<le> unat n"
    and "dns_find name s = Some i \<or> dns_find name s = None \<and> (dns_entries s < DNS_MAX_ENTRIES \<longrightarrow> i = unat (dns_entries s))"
    and "dns_entries (dns_addOrUpdate name addr s) = n"
    and "unat n \<le> Suc (unat (dns_entries s))"
    and "dnsTable (dns_addOrUpdate name addr s) = (dnsTable s)(i := dnsTable (dns_addOrUpdate name addr s) i)"
    and "d_ipAddr (dnsTable (dns_addOrUpdate name addr s) i) = addr"
    and "stricmp_eq (d_name (dnsTable (dns_addOrUpdate name addr s) i)) name"
proof (cases "dns_find name s")
  case None
  show thesis
  proof (cases "dns_entries s < DNS_MAX_ENTRIES")
    case True
    then have "unat (dns_entries s + 1) = Suc (unat (dns_entries s))"
      by (intro u8_Suc) (simp add: cfg_defs word_less_nat_alt)
    then show thesis
      using None True by (intro that [of "dns_entries s + 1" "unat (dns_entries s)"])
        (simp_all add: dns_addOrUpdate_def dns_put_def cfg_defs word_le_nat_alt word_less_nat_alt)
  next
    case False
    then have "dns_entries s \<noteq> 0" using assms by (auto simp: dns_wf_def cfg_defs)
    then show thesis
      using None False assms dns_oldest_less [of s] by (intro that [of "dns_entries s" "dns_oldest s"])
        (simp_all add: dns_addOrUpdate_def dns_put_def dns_wf_def)
  qed
next
  case (Some i)
  then have "i < unat (dns_entries s)" "stricmp_eq (d_name (dnsTable s i)) name" by (simp_all add: dns_find_Some)
  then show thesis
    using Some assms by (intro that [of "dns_entries s" i]) (simp_all add: dns_addOrUpdate_def dns_put_def dns_wf_def)
qed

lemma dns_addOrUpdate_lookup:
  assumes "dns_wf s"
  shows "dns_wf (dns_addOrUpdate name addr s)" and "dns_lookup name (dns_addOrUpdate name addr s) = Some addr"
    and "\<not> stricmp_eq other name \<Longrightarrow> dns_lookup other (dns_addOrUpdate name addr s) \<in> {dns_lookup other s, None}"
proof -
  let ?t = "dns_addOrUpdate name addr s"
  obtain i n where i: "i < unat n" and n: "n \<le> DNS_MAX_ENTRIES" "unat (dns_entries s) \<le> unat n"
    and sl: "dns_find name s = Some i \<or> dns_find name s = None \<and> (dns_entries s < DNS_MAX_ENTRIES \<longrightarrow> i = unat (dns_entries s))"
    and nn: "n = (if dns_find name s = None \<and> dns_entries s < DNS_MAX_ENTRIES then dns_entries s + 1 else dns_entries s)"
    and suc: "unat n \<le> Suc (unat (dns_entries s))"
    and t: "dns_entries ?t = n" and t2: "dnsTable ?t = (dnsTable s)(i := dnsTable ?t i)"
    and r': "d_ipAddr (dnsTable ?t i) = addr" "stricmp_eq (d_name (dnsTable ?t i)) name"
    by (rule dns_addOrUpdate_slot [OF assms, of name addr])
  define r where "r = dnsTable ?t i"
  note r = r' [folded r_def] and t = t t2 [folded r_def]
  show "dns_wf ?t" using n by (simp add: dns_wf_def t(1))
  have old: "\<not> stricmp_eq (d_name (dnsTable s j)) name" if "j < i" for j
  proof (cases "dns_find name s")
    case None
    then have "j < unat (dns_entries s)" using that i suc by simp
    then show ?thesis using None by (simp add: dns_find_None)
  next
    case (Some k)
    then have "k = i" using sl by simp
    then show ?thesis using Some [unfolded dns_find_Some] that by blast
  qed
  have "dns_find name ?t = Some i" using i r old by (simp add: dns_find_Some t(1)) (simp add: t(2))
  then show "dns_lookup name ?t = Some addr" using r by (simp add: dns_lookup_def r_def)
  assume o: "\<not> stricmp_eq other name"
  have ro: "\<not> stricmp_eq (d_name r) other" using r(2) o stricmp_eq_sym stricmp_eq_trans by blast
  show "dns_lookup other ?t \<in> {dns_lookup other s, None}"
  proof (cases "dns_find other ?t")
    case (Some k)
    then have k: "k \<noteq> i" "k < unat n" using ro by (auto simp: dns_find_Some t(1) r_def)
    have "k = 0" "unat n = 1" using k(2) n(1) by (auto simp: cfg_defs word_le_nat_alt)
    then have "dns_entries s \<noteq> 0" using sl nn k(1) i by auto
    then have "0 < unat (dns_entries s)" by (simp add: unat_gt_0)
    then have "dns_find other s = Some k" using Some k \<open>k = 0\<close> by (simp add: dns_find_Some t(1)) (simp add: t(2))
    then show ?thesis using Some k by (simp add: dns_lookup_def) (simp add: t(2))
  qed (simp add: dns_lookup_def)
qed

section \<open>What a response does\<close>

text \<open>
  The reference: the records of a packet, read without the resolver.  A record has the name it is about, its type, the
  place of its data and, for a name server or an alias, the name in the data.  The memory \<open>buf\<close> of the names is carried
  along because \<open>decodeName\<close> may leave it as it is.  There is no list of records when a name has no end.
\<close>

record dns_rec =
  r_name :: cstr
  r_type :: u16
  r_data :: nat
  r_alias :: cstr

fun dns_records :: "nat \<Rightarrow> mem \<Rightarrow> nat \<Rightarrow> mem \<Rightarrow> (dns_rec list \<times> nat \<times> mem) option" where
  "dns_records 0 m cur buf = Some ([], cur, buf)"
| "dns_records (Suc n) m cur buf =
     (case decodeName m cur buf of
        None \<Rightarrow> None
      | Some (q, name) \<Rightarrow>
          (let type = ntohs (rd16 m q); data = q + 10
           in case (if type = 2 \<or> type = 5 then decodeName m data name
                    else Some (data + unat (ntohs (rd16 m (q + 8))), name)) of
                None \<Rightarrow> None
              | Some (after, alias) \<Rightarrow>
                  map_option (\<lambda>(rs, x). (\<lparr>r_name = name_of name, r_type = type, r_data = data, r_alias = name_of alias\<rparr> # rs, x))
                    (dns_records n m after alias)))"

text \<open>The answers of a packet; the records of the other sections are read, too.\<close>

definition dns_message :: "mem \<Rightarrow> mem \<Rightarrow> dns_rec list option" where
  "dns_message m buf =
     (case dns_questions (dns_count m 46) m 54 buf of
        None \<Rightarrow> None
      | Some cur \<Rightarrow>
          (case dns_records (dns_count m 48) m cur buf of
             None \<Rightarrow> None
           | Some (answers, cur, buf) \<Rightarrow>
               (case dns_records (dns_count m 50) m cur buf of
                  None \<Rightarrow> None
                | Some (_, cur, buf) \<Rightarrow> map_option (\<lambda>_. answers) (dns_records (dns_count m 52) m cur buf))))"

text \<open>
  The address for a name: that of the last type 1 record about it, where an alias (type 5), whatever name it is about,
  puts another name in its place for the records that follow.
\<close>

fun dns_answer :: "mem \<Rightarrow> cstr \<Rightarrow> dns_rec list \<Rightarrow> IpAddr option" where
  "dns_answer m name [] = None"
| "dns_answer m name (r # rs) =
     (case dns_answer m (if r_type r = 5 then r_alias r else name) rs of
        Some a \<Rightarrow> Some a
      | None \<Rightarrow> if r_type r = 1 \<and> stricmp_eq name (r_name r) then Some (rdip m (r_data r)) else None)"

text \<open>What the resolver does with a record of section \<open>j\<close>.\<close>

definition dns_take :: "nat \<Rightarrow> mem \<Rightarrow> dns_rec \<Rightarrow> 'a dns_state_scheme \<Rightarrow> 'a dns_state_scheme" where
  "dns_take j m r s =
     (if r_type r = 1 then
        (if j = 1 \<and> stricmp_eq (pq_targetName (pendingQuery s)) (r_name r)
         then (dns_addOrUpdate (pq_originalTarget (pendingQuery s)) (rdip m (r_data r)) s)\<lparr>queryPending := False, lastQueryRc := Good\<rparr>
         else s)
      else if r_type r = 5 then s\<lparr>pendingQuery := (pendingQuery s)\<lparr>pq_targetName := r_alias r\<rparr>\<rparr>
      else s)"

lemma dns_rrs_records:
  "dns_rrs j n m cur buf s = map_option (\<lambda>(rs, cur, buf). (cur, buf, fold (dns_take j m) rs s)) (dns_records n m cur buf)"
proof (induction n arbitrary: cur buf s)
  case (Suc n)
  show ?case
  proof (cases "decodeName m cur buf")
    case (Some x)
    obtain q name where q: "decodeName m cur buf = Some (q, name)" using Some by (cases x) auto
    let ?type = "ntohs (rd16 m q)" and ?data = "q + 10"
    define nx where "nx = (if ?type = 2 \<or> ?type = 5 then decodeName m ?data name else Some (?data + unat (ntohs (rd16 m (q + 8))), name))"
    have r: "dns_rr j m cur buf s = map_option (\<lambda>(after, alias). (after, alias,
        dns_take j m \<lparr>r_name = name_of name, r_type = ?type, r_data = ?data, r_alias = name_of alias\<rparr> s)) nx"
      by (auto simp: dns_rr_def q nx_def dns_take_def Let_def map_option_case split: option.split)
    have e: "dns_records (Suc n) m cur buf = (case nx of None \<Rightarrow> None | Some (after, alias) \<Rightarrow>
        map_option (\<lambda>(rs, x). (\<lparr>r_name = name_of name, r_type = ?type, r_data = ?data, r_alias = name_of alias\<rparr> # rs, x))
          (dns_records n m after alias))"
      by (simp add: q nx_def [symmetric] Let_def)
    show ?thesis
    proof (cases nx)
      case None
      then show ?thesis using r e by simp
    next
      case (Some y)
      obtain aft al where y: "nx = Some (aft, al)" using Some by (cases y) auto
      show ?thesis
        using r Suc.IH by (simp add: e y option.map_comp comp_def split_beta del: dns_records.simps)
    qed
  qed (simp add: dns_rr_def)
qed simp

lemma dns_addOrUpdate_frame [simp]:
  "pendingQuery (dns_addOrUpdate n a s) = pendingQuery s" "pkt_mem (dns_addOrUpdate n a s) = pkt_mem s"
  by (simp_all add: dns_addOrUpdate_def dns_put_def Let_def split: option.split)

text \<open>What the resolver has found after the answers, and that it finds nothing in the other sections.\<close>

definition dns_found :: "IpAddr option \<Rightarrow> 'a dns_state_scheme \<Rightarrow> 'a dns_state_scheme \<Rightarrow> bool" where
  "dns_found a s t \<longleftrightarrow> dns_wf t \<and> pq_originalTarget (pendingQuery t) = pq_originalTarget (pendingQuery s) \<and>
     pkt_mem t = pkt_mem s \<and>
     (case a of
        None \<Rightarrow> dnsTable t = dnsTable s \<and> dns_entries t = dns_entries s \<and> queryPending t = queryPending s \<and>
          lastQueryRc t = lastQueryRc s
      | Some a \<Rightarrow> dns_lookup (pq_originalTarget (pendingQuery s)) t = Some a \<and> \<not> queryPending t \<and> lastQueryRc t = Good)"

lemma dns_lookup_cong:
  "dnsTable t = dnsTable s \<Longrightarrow> dns_entries t = dns_entries s \<Longrightarrow> dns_lookup n t = dns_lookup n s"
  by (simp add: dns_lookup_def dns_find_def)

lemma dns_take_answers: "dns_wf s \<Longrightarrow> dns_found (dns_answer m (pq_targetName (pendingQuery s)) rs) s (fold (dns_take 1 m) rs s)"
proof (induction rs arbitrary: s)
  case Nil
  then show ?case by (simp add: dns_found_def)
next
  case (Cons r rs)
  let ?t = "dns_take 1 m r s" and ?o = "pq_originalTarget (pendingQuery s)" and ?n = "pq_targetName (pendingQuery s)"
  have n: "pq_targetName (pendingQuery ?t) = (if r_type r = 5 then r_alias r else ?n)" by (simp add: dns_take_def)
  have "dns_found (if r_type r = 1 \<and> stricmp_eq ?n (r_name r) then Some (rdip m (r_data r)) else None) s ?t"
    using dns_addOrUpdate_lookup(1,2) [OF Cons.prems, of ?o "rdip m (r_data r)"] Cons.prems
    by (auto simp: dns_take_def dns_found_def dns_wf_def dns_lookup_cong [of "_\<lparr>queryPending := _, lastQueryRc := _\<rparr>"])
  moreover have "dns_found (dns_answer m (if r_type r = 5 then r_alias r else ?n) rs) ?t (fold (dns_take 1 m) rs ?t)"
    using Cons.IH [of ?t] calculation n by (simp add: dns_found_def)
  ultimately show ?case
    by (auto simp: dns_found_def split: option.splits intro: trans [OF dns_lookup_cong] if_splits)
qed

lemma dns_take_others: "j \<noteq> 1 \<Longrightarrow> dns_wf s \<Longrightarrow> dns_found None s (fold (dns_take j m) rs s)"
proof (induction rs arbitrary: s)
  case (Cons r rs)
  have "dns_found None s (dns_take j m r s)" using Cons.prems by (simp add: dns_found_def dns_take_def dns_wf_def)
  then show ?case using Cons.IH [of "dns_take j m r s"] Cons.prems by (simp add: dns_found_def)
qed (simp add: dns_found_def)

lemma dns_found_more: "dns_found a s t \<Longrightarrow> dns_found None t u \<Longrightarrow> dns_found a s u"
  using dns_lookup_cong [of u t] by (auto simp: dns_found_def split: option.splits)

lemma dns_sections_message:
  assumes "dns_wf s"
  shows "case dns_message m (dns_stack s) of
    None \<Rightarrow> dns_sections m s = None
  | Some answers \<Rightarrow> \<exists>t. dns_sections m s = Some t \<and> dns_found (dns_answer m (pq_targetName (pendingQuery s)) answers) s t"
proof -
  note e = dns_message_def dns_sections_def dns_rrs_records
  show ?thesis
  proof (cases "dns_questions (dns_count m 46) m 54 (dns_stack s)")
    case (Some c)
    note q = Some
    show ?thesis
    proof (cases "dns_records (dns_count m 48) m c (dns_stack s)")
      case (Some x)
      obtain ans c1 b1 where a: "dns_records (dns_count m 48) m c (dns_stack s) = Some (ans, c1, b1)" using Some by (cases x) auto
      define s1 where "s1 = fold (dns_take 1 m) ans s"
      have f1: "dns_found (dns_answer m (pq_targetName (pendingQuery s)) ans) s s1"
        unfolding s1_def by (rule dns_take_answers [OF assms])
      show ?thesis
      proof (cases "dns_records (dns_count m 50) m c1 b1")
        case (Some y)
        obtain ns c2 b2 where n: "dns_records (dns_count m 50) m c1 b1 = Some (ns, c2, b2)" using Some by (cases y) auto
        define s2 where "s2 = fold (dns_take 2 m) ns s1"
        have f2: "dns_found (dns_answer m (pq_targetName (pendingQuery s)) ans) s s2"
          unfolding s2_def by (rule dns_found_more [OF f1 dns_take_others]) (use f1 in \<open>simp_all add: dns_found_def\<close>)
        have f3: "dns_found (dns_answer m (pq_targetName (pendingQuery s)) ans) s (fold (dns_take 3 m) rs s2)" for rs
          by (rule dns_found_more [OF f2 dns_take_others]) (use f2 in \<open>simp_all add: dns_found_def\<close>)
        show ?thesis
          by (cases "dns_records (dns_count m 52) m c2 b2") (use f3 in \<open>auto simp: e q a n s1_def [symmetric] s2_def [symmetric] simp del: One_nat_def\<close>)
      qed (simp add: e q a)
    qed (simp add: e q)
  qed (simp add: e)
qed

section \<open>Properties\<close>

text \<open>
  The name cache finds what was put into it: after \<open>addOrUpdate\<close> a lookup of the name, in any
  case of letters, gives the address, and every other name is looked up as before unless its entry
  was evicted; names do not change their address by accident.
\<close>

lemma dns_cache_learns:
  assumes "dns_wf s"
  shows "dns_wf (dns_addOrUpdate name addr s) \<and> dns_lookup name (dns_addOrUpdate name addr s) = Some addr \<and>
    (\<forall>other. \<not> stricmp_eq other name \<longrightarrow> dns_lookup other (dns_addOrUpdate name addr s) \<in> {dns_lookup other s, None})"
  using dns_addOrUpdate_lookup [OF assms] by blast

text \<open>
  C27. A response with another ident is dropped without any effect.  A response with the ident of the pending query
  makes the handler run forever when a name in it has no end, which pointers in a circle can do; otherwise
  it ends the query.  If its answer section has an address (type 1) for the name that was asked for, or for the
  last alias (type 5) before it, the result is \<open>Good\<close> and the cache answers the original name with the last such
  address.  If not, the result is the response code of the packet, or \<open>UnknownError\<close> when that is 0, and the cache is as it
  was.  Records of the other sections have no effect on either.
\<close>

theorem dns_response_concludes:
  fixes s :: "'a dns_state_scheme" and b
  defines "m \<equiv> pkt_mem s b"
  assumes "dns_wf s" and "queryPending s"
  shows "if ntohs (rd16 m 42) \<noteq> pq_ident (pendingQuery s) then udpHandler b s = Some (Buffer_free b s)
    else (case dns_message m (dns_stack s) of
        None \<Rightarrow> udpHandler b s = None
      | Some answers \<Rightarrow> \<exists>s'. udpHandler b s = Some s' \<and> \<not> queryPending s' \<and> dns_wf s' \<and>
          (case dns_answer m (pq_targetName (pendingQuery s)) answers of
             Some a \<Rightarrow> lastQueryRc s' = Good \<and> dns_lookup (pq_originalTarget (pendingQuery s)) s' = Some a
           | None \<Rightarrow> lastQueryRc s' = (if m 45 AND 0xF = 0 then UnknownError else int (unat (m 45 AND 0xF))) \<and>
               dnsTable s' = dnsTable s \<and> dns_entries s' = dns_entries s))"
proof (cases "ntohs (rd16 m 42) = pq_ident (pendingQuery s)")
  case ident: True
  note sections = dns_sections_message [OF assms(2), of m]
  show ?thesis
  proof (cases "dns_message m (dns_stack s)")
    case None
    then show ?thesis using ident sections by (simp add: udpHandler_def m_def [symmetric])
  next
    case (Some answers)
    then obtain t where t: "dns_sections m s = Some t" and
      f: "dns_found (dns_answer m (pq_targetName (pendingQuery s)) answers) s t" using sections by auto
    have g: "dns_wf (Buffer_free b t)" "queryPending (Buffer_free b t) = queryPending t"
      "lastQueryRc (Buffer_free b t) = lastQueryRc t" "dnsTable (Buffer_free b t) = dnsTable t"
      "dns_entries (Buffer_free b t) = dns_entries t" "pkt_mem (Buffer_free b t) = pkt_mem t"
      using f by (simp_all add: Buffer_free_def freeBigPacket_def dns_found_def dns_wf_def)
    have lk: "dns_lookup n (Buffer_free b t) = dns_lookup n t" for n by (rule dns_lookup_cong) (simp_all add: g)
    have "udpHandler b s = Some (dns_conclude (m 45 AND 0xF) (Buffer_free b t))"
      using ident t f by (simp add: udpHandler_def m_def [symmetric] Let_def g(6) dns_found_def)
    then show ?thesis
      using ident Some f g lk assms(3)
      by (auto simp: dns_conclude_def dns_found_def dns_wf_def split: option.splits)
  qed
qed (simp add: udpHandler_def m_def)

text \<open>A pending query for the name \<open>a\<close> and a response with one answer, 1.2.3.4.\<close>

definition demo_query :: dns_state where
  "demo_query = zero_dns_state\<lparr>queryPending := True,
     pendingQuery := zero_pending\<lparr>pq_originalTarget := [97], pq_targetName := [65]\<rparr>,
     pkt_mem := (\<lambda>_. memcpy (\<lambda>_. 0) 49 [1, 0, 0, 0, 0, 1, 97, 0, 0, 1, 0, 1, 0, 0, 0, 0, 0, 4, 1, 2, 3, 4])\<rparr>"

theorem dns_response_concludes_witness:
  "\<exists>s'. udpHandler (PoolBuf 0) demo_query = Some s' \<and> \<not> queryPending s' \<and> lastQueryRc s' = Good \<and>
     dns_lookup [97] s' = Some (1, 2, 3, 4)"
proof -
  define m where "m = pkt_mem demo_query (PoolBuf 0)"
  have m: "m = memcpy (\<lambda>_. 0) 49 [1, 0, 0, 0, 0, 1, 97, 0, 0, 1, 0, 1, 0, 0, 0, 0, 0, 4, 1, 2, 3, 4]"
    by (simp add: m_def demo_query_def)
  have r: "rd16 m 42 = 0" "dns_count m 46 = 0" "dns_count m 48 = Suc 0" "dns_count m 50 = 0" "dns_count m 52 = 0"
    "rd16 m 57 = 0x0100" "rdip m 67 = (1, 2, 3, 4)"
    by (simp_all add: m dns_count_def rd16_def memcpy_def le16_def htons_def rdip_def)
  have "name_at m 54 [[97]] (Suc (Suc 54 + length [97 :: u8]))"
    by (intro name_label name_end) (simp_all add: m memcpy_def rdbytes_def upt_rec)
  then have d: "decodeName m 54 buf = Some (57, memcpy buf 0 [97, 0])" for buf
    using decodeName_labels [of m 54 "[[97]]" 57 buf] by (simp add: cfg_defs)
  have n: "name_of (memcpy buf 0 [97, 0]) = [97]" for buf
    using name_of_memcpy [of "[97]" buf] by (simp add: cfg_defs)
  have "\<exists>x. dns_message m buf = Some [\<lparr>r_name = [97], r_type = 1, r_data = 67, r_alias = x\<rparr>]" for buf
    by (simp add: dns_message_def r d n Let_def htons_def)
  then obtain x where x: "dns_message m (dns_stack demo_query) = Some [\<lparr>r_name = [97], r_type = 1, r_data = 67, r_alias = x\<rparr>]"
    by blast
  have q: "dns_wf demo_query" "queryPending demo_query" "pq_ident (pendingQuery demo_query) = 0"
    "pq_targetName (pendingQuery demo_query) = [65]" "pq_originalTarget (pendingQuery demo_query) = [97]"
    by (simp_all add: demo_query_def dns_wf_def zero_dns zero_pending_def)
  have "stricmp_eq [65] [97]" by (simp add: stricmp_eq_def tolower_def)
  then show ?thesis
    using dns_response_concludes [OF q(1,2), of "PoolBuf 0", folded m_def] x r q by (auto simp: htons_def)
qed

end
