(* ===== verification/TcpSegment.thy ===== *)
theory TcpSegment
  imports TcpProc
begin

text \<open>
  The segment \<open>sendPacket\<close> builds: sequence numbers, flags, window and checksum, the state
  change a FIN makes, and what goes to the wire.
\<close>

unbundle bit_operations_syntax

section \<open>The stages of \<open>sendPacket\<close>\<close>

lemma sp_header_effect:
  "socks (sp_header i b s) = (socks s)(i := (socks s i)\<lparr>seqNum := seqNum (socks s i) + ucast (b_dataLen (tbuf s b))\<rparr>)"
  "tbuf (sp_header i b s) = (tbuf s)(b := (tbuf s b)\<lparr>b_packetLen := 54 + b_dataLen (tbuf s b),
     b_tcp := setCodeBits TCP_CODEBITS_ACK (setTcpHlen 20 ((b_tcp (tbuf s b))\<lparr>tcp_src := htons (srcPort (socks s i)),
       tcp_dst := htons (dstPort (socks s i)),
       tcp_seqnum := htonl (if isForceProbe (tbuf s b) then seqNum (socks s i) + ucast (b_dataLen (tbuf s b)) - 1
                            else seqNum (socks s i))\<rparr>))\<rparr>)"
  by (simp_all add: sp_header_def Let_def)

lemma sp_acknum_socks [simp]: "socks (sp_acknum i b s) = socks s"
  by (simp add: sp_acknum_def Let_def)

lemma sp_lower_socks [simp]: "socks (sp_lower i b s) = socks s"
  by (simp add: sp_lower_def Let_def split_beta)

lemma sp_transmit_socks [simp]: "socks (fst (sp_transmit i b s)) = socks s"
  using setDestEth_socks [of "ip_dest (b_ip (tbuf s b))" s]
  by (auto simp: sp_transmit_def Let_def split: prod.split option.split simp del: setDestEth_socks)

lemma sp_window_socks [simp]:
  "socks (sp_window i b s) = (socks s)(i := (socks s i)\<lparr>remoteWindow :=
     (if b_dataLen (tbuf s b) \<le> remoteWindow (socks s i) then remoteWindow (socks s i) - b_dataLen (tbuf s b) else 0)\<rparr>)"
  by (simp add: sp_window_def Let_def)

text \<open>Does the segment carry a SYN, does it carry the FIN, and what state follows.\<close>

definition sends_syn :: "TcpSocket \<Rightarrow> bool" where
  "sends_syn k \<longleftrightarrow> state k = TCP_STATE_SYN_SENT \<or> state k = TCP_STATE_SYN_RECVED"

definition sends_fin :: "TcpSocket \<Rightarrow> TcpBuffer \<Rightarrow> bool" where
  "sends_fin k b \<longleftrightarrow>
     (state k = TCP_STATE_SEND_FIN1 \<or> state k = TCP_STATE_SEND_FIN2 \<or> state k = TCP_STATE_SEND_FIN3) \<and>
     \<not> isForceAckOnly b \<and> rb_entries (outgoing k) = 1"

definition fin_state :: "TcpSocket \<Rightarrow> TcpBuffer \<Rightarrow> TcpState" where
  "fin_state k b =
     (if \<not> sends_fin k b then state k
      else if state k = TCP_STATE_SEND_FIN2 then TCP_STATE_LAST_ACK else TCP_STATE_FIN_WAIT_1)"

definition sent_bits :: "TcpSocket \<Rightarrow> TcpBuffer \<Rightarrow> u8" where
  "sent_bits k b =
     (if state k = TCP_STATE_SYN_SENT then TCP_CODEBITS_SYN
      else if state k = TCP_STATE_SYN_RECVED then TCP_CODEBITS_SYN OR TCP_CODEBITS_ACK
      else if sends_fin k b then TCP_CODEBITS_ACK OR TCP_CODEBITS_FIN
      else if state k = TCP_STATE_ESTABLISHED \<and> b_dataLen b \<noteq> 0 then TCP_CODEBITS_ACK OR TCP_CODEBITS_PSH
      else TCP_CODEBITS_ACK)"

lemma sp_codebits_socks:
  "socks (sp_codebits i b s) = (socks s)(i := (socks s i)\<lparr>
     seqNum := seqNum (socks s i) + (if sends_syn (socks s i) \<or> sends_fin (socks s i) (tbuf s b) then 1 else 0),
     state := fin_state (socks s i) (tbuf s b)\<rparr>)"
  by (cases "state (socks s i)")
    (auto simp: sp_codebits_def sp_syn_def sp_fin_def Let_def sends_syn_def sends_fin_def fin_state_def fun_upd_idem)

text \<open>The stages after the flags: fields of the buffer.\<close>

lemma sp_codebits_buf:
  "b_dataLen (tbuf (sp_codebits i b s) b) = b_dataLen (tbuf s b)"
  "b_pendingArp (tbuf (sp_codebits i b s) b) = b_pendingArp (tbuf s b)"
  "b_flags (tbuf (sp_codebits i b s) b) = b_flags (tbuf s b)"
  by (simp_all add: sp_codebits_def sp_syn_def sp_fin_def Let_def split: TcpState.split)

lemma sendPacket_socks:
  assumes "b_pendingArp (tbuf s b) = 0"
  shows "socks (fst (sendPacket i b s)) i = (socks s i)\<lparr>
     seqNum := seqNum (socks s i) + ucast (b_dataLen (tbuf s b)) +
       (if sends_syn (socks s i) \<or> sends_fin (socks s i) (tbuf s b) then 1 else 0),
     state := fin_state (socks s i) (tbuf s b),
     remoteWindow := (if b_dataLen (tbuf s b) \<le> remoteWindow (socks s i)
       then remoteWindow (socks s i) - b_dataLen (tbuf s b) else 0)\<rparr>"
proof -
  have a: "tbuf (sp_acknum i b t) b = tbuf t b\<lparr>b_seqNum := b_seqNum (tbuf (sp_acknum i b t) b),
      b_tcp := b_tcp (tbuf (sp_acknum i b t) b), b_flags := b_flags (tbuf (sp_acknum i b t) b)\<rparr>" for t :: "'a tcp_state_scheme"
    by (simp add: sp_acknum_def Let_def setWasAckOnly_def)
  have "b_dataLen (tbuf (sp_acknum i b t) b) = b_dataLen (tbuf t b)" for t :: "'a tcp_state_scheme"
    by (subst a) simp
  then show ?thesis
    using assms
    by (simp add: sendPacket_def sp_header_effect sp_codebits_socks sp_codebits_buf)
      (auto simp: sends_syn_def sends_fin_def fin_state_def isForceAckOnly_def)
qed


section \<open>The segment\<close>

text \<open>The header of the segment, but for the checksum, and the data area with the MSS option of a SYN.\<close>

definition sent_header :: "TcpSocket \<Rightarrow> TcpBuffer \<Rightarrow> u16 \<Rightarrow> TcpHeader" where
  "sent_header k b mss =
     \<lparr>tcp_src = htons (srcPort k), tcp_dst = htons (dstPort k),
      tcp_seqnum = htonl (if isForceProbe b then seqNum k + ucast (b_dataLen b) - 1 else seqNum k),
      tcp_acknum = htonl (ackNum k), tcp_hlenBits = (if sends_syn k then 0x60 else 0x50),
      tcp_codeBits = sent_bits k b, tcp_window = htons (adv_window k mss), tcp_checksum = 0,
      tcp_urgent = 0\<rparr>"

definition sent_data :: "TcpSocket \<Rightarrow> TcpBuffer \<Rightarrow> u16 \<Rightarrow> mem" where
  "sent_data k b mss =
     (if sends_syn k
      then memcpy (b_data b) 0 [2, 4, ucast (drop_bit 8 (syn_mss k mss)), ucast (syn_mss k mss AND 0xff)]
      else b_data b)"

definition sent_tcpLen :: "TcpSocket \<Rightarrow> TcpBuffer \<Rightarrow> u16" where
  "sent_tcpLen k b = b_dataLen b + (if sends_syn k then 24 else 20)"

lemma hlen_bits: "setTcpHlen 20 h = h\<lparr>tcp_hlenBits := 0x50\<rparr>" "setTcpHlen 24 h = h\<lparr>tcp_hlenBits := 0x60\<rparr>"
  by (simp_all add: setTcpHlen_def)

lemma sent_bits_ack: "sent_bits k b AND TCP_CODEBITS_MASK = TCP_CODEBITS_ACK \<longleftrightarrow> sent_bits k b = TCP_CODEBITS_ACK"
  by (simp add: sent_bits_def cfg_defs)

lemma sp_codebits_tcp:
  assumes "tcp_codeBits (b_tcp (tbuf s b)) = TCP_CODEBITS_ACK"
  shows "b_tcp (tbuf (sp_codebits i b s) b) = (b_tcp (tbuf s b))
     \<lparr>tcp_codeBits := sent_bits (socks s i) (tbuf s b),
      tcp_hlenBits := (if sends_syn (socks s i) then 0x60 else tcp_hlenBits (b_tcp (tbuf s b))),
      tcp_acknum := (if state (socks s i) = TCP_STATE_SYN_SENT then 0 else tcp_acknum (b_tcp (tbuf s b)))\<rparr>"
    and "b_data (tbuf (sp_codebits i b s) b) = sent_data (socks s i) (tbuf s b) (MSS_to_advertise s)"
    and "b_packetLen (tbuf (sp_codebits i b s) b) =
      b_packetLen (tbuf s b) + (if sends_syn (socks s i) then 4 else 0)"
  by (cases "state (socks s i)"; simp add: assms sp_codebits_def sp_syn_def sp_fin_def Let_def
      sends_syn_def sends_fin_def sent_bits_def sent_data_def hlen_bits setCodeBits_def addCodeBits_def)+

lemma adv_window_upd [simp]:
  "adv_window (k\<lparr>seqNum := x\<rparr>) mss = adv_window k mss" "adv_window (k\<lparr>state := y\<rparr>) mss = adv_window k mss"
  by (simp_all add: adv_window_def Let_def)


text \<open>The buffer when the TCP header is complete but for the checksum.\<close>

definition sp_fill :: "nat \<Rightarrow> bref \<Rightarrow> 'a tcp_state_scheme \<Rightarrow> 'a tcp_state_scheme" where
  "sp_fill i b s = sp_window i b (sp_acknum i b (sp_codebits i b (sp_header i b s)))"

lemma sent_cong:
  "sends_syn (k\<lparr>seqNum := x\<rparr>) = sends_syn k"
  "sends_fin (k\<lparr>seqNum := x\<rparr>) (d\<lparr>b_packetLen := n, b_tcp := h\<rparr>) = sends_fin k d"
  "fin_state (k\<lparr>seqNum := x\<rparr>) (d\<lparr>b_packetLen := n, b_tcp := h\<rparr>) = fin_state k d"
  "sent_bits (k\<lparr>seqNum := x\<rparr>) (d\<lparr>b_packetLen := n, b_tcp := h\<rparr>) = sent_bits k d"
  "sent_data (k\<lparr>seqNum := x\<rparr>) (d\<lparr>b_packetLen := n, b_tcp := h\<rparr>) mss = sent_data k d mss"
  by (simp_all add: sends_syn_def sends_fin_def fin_state_def sent_bits_def sent_data_def syn_mss_def
      isForceAckOnly_def)

lemma mss_frame [simp]:
  "MSS_to_advertise (sp_header i b s) = MSS_to_advertise s"
  "MSS_to_advertise (sp_codebits i b s) = MSS_to_advertise s"
  "MSS_to_advertise (sp_acknum i b s) = MSS_to_advertise s"
  "MSS_to_advertise (sp_window i b s) = MSS_to_advertise s"
  "MyIpAddr (sp_header i b s) = MyIpAddr s" "MyIpAddr (sp_codebits i b s) = MyIpAddr s"
  "MyIpAddr (sp_acknum i b s) = MyIpAddr s" "MyIpAddr (sp_window i b s) = MyIpAddr s"
  by (rule quiet_fields [where s = s], simp)+

lemma sp_acknum_buf:
  "tbuf (sp_acknum i b s) b = (let d = (tbuf s b)\<lparr>b_seqNum := seqNum (socks s i) - 1,
       b_tcp := (b_tcp (tbuf s b))\<lparr>tcp_acknum := htonl (ackNum (socks s i))\<rparr>\<rparr>
     in if b_dataLen d = 0 \<and> getCodeBits (b_tcp d) = TCP_CODEBITS_ACK then setWasAckOnly d else d)"
  by (simp add: sp_acknum_def Let_def)

lemma sp_fill_buf:
  fixes s :: "'a tcp_state_scheme" and i b
  defines "k \<equiv> socks s i" and "d \<equiv> tbuf s b"
  shows "b_tcp (tbuf (sp_fill i b s) b) = sent_header k d (MSS_to_advertise s)"
    and "b_data (tbuf (sp_fill i b s) b) = sent_data k d (MSS_to_advertise s)"
    and "b_seqNum (tbuf (sp_fill i b s) b) =
      seqNum k + ucast (b_dataLen d) + (if sends_syn k \<or> sends_fin k d then 1 else 0) - 1"
    and "b_packetLen (tbuf (sp_fill i b s) b) = 54 + b_dataLen d + (if sends_syn k then 4 else 0)"
    and "b_flags (tbuf (sp_fill i b s) b) =
      (if b_dataLen d = 0 \<and> sent_bits k d = TCP_CODEBITS_ACK then b_flags d OR 1 else b_flags d)"
    and "b_dataLen (tbuf (sp_fill i b s) b) = b_dataLen d"
    and "b_pendingArp (tbuf (sp_fill i b s) b) = b_pendingArp d"
proof -
  let ?h = "sp_header i b s" and ?c = "sp_codebits i b (sp_header i b s)"
  have ack: "tcp_codeBits (b_tcp (tbuf ?h b)) = TCP_CODEBITS_ACK"
    by (simp add: sp_header_effect setCodeBits_def)
  note c = sp_codebits_tcp [OF ack, where i = i] sp_codebits_buf [where i = i and b = b and s = ?h]
  have d: "b_dataLen (tbuf (sp_acknum i b t) b) = b_dataLen (tbuf t b)" for t :: "'a tcp_state_scheme"
    by (simp add: sp_acknum_buf Let_def setWasAckOnly_def)
  have ck: "socks ?c i = k\<lparr>seqNum := seqNum k + ucast (b_dataLen d) +
      (if sends_syn k \<or> sends_fin k d then 1 else 0), state := fin_state k d\<rparr>"
    by (simp add: sp_codebits_socks sp_header_effect sent_cong k_def d_def)
  have w: "tbuf (sp_window i b t) b = (tbuf t b)\<lparr>b_tcp := (b_tcp (tbuf t b))\<lparr>tcp_window :=
      htons (adv_window (socks t i) (MSS_to_advertise t)), tcp_checksum := 0, tcp_urgent := 0\<rparr>\<rparr>"
    for t :: "'a tcp_state_scheme"
    by (simp add: sp_window_def Let_def)
  note all = sp_fill_def w sp_acknum_buf Let_def setWasAckOnly_def c ck sp_header_effect sent_cong
    hlen_bits setCodeBits_def getCodeBits_def sent_bits_ack
  show "b_tcp (tbuf (sp_fill i b s) b) = sent_header k d (MSS_to_advertise s)"
    by (simp add: all) (simp add: sent_header_def k_def d_def)
  show "b_data (tbuf (sp_fill i b s) b) = sent_data k d (MSS_to_advertise s)"
    by (simp add: all) (simp add: sent_data_def k_def d_def)
  show "b_seqNum (tbuf (sp_fill i b s) b) =
      seqNum k + ucast (b_dataLen d) + (if sends_syn k \<or> sends_fin k d then 1 else 0) - 1"
    by (simp add: all)
  show "b_packetLen (tbuf (sp_fill i b s) b) = 54 + b_dataLen d + (if sends_syn k then 4 else 0)"
    by (simp add: all) (simp add: k_def d_def)
  show "b_flags (tbuf (sp_fill i b s) b) =
      (if b_dataLen d = 0 \<and> sent_bits k d = TCP_CODEBITS_ACK then b_flags d OR 1 else b_flags d)"
    by (simp add: all) (auto simp: k_def d_def)
  show "b_dataLen (tbuf (sp_fill i b s) b) = b_dataLen d"
    by (simp add: all) (simp add: d_def)
  show "b_pendingArp (tbuf (sp_fill i b s) b) = b_pendingArp d"
    by (simp add: all) (simp add: d_def)
qed


section \<open>The checksum\<close>

lemma tcp_image_field:
  "tcp_image (h\<lparr>tcp_checksum := c\<rparr>) m = memcpy (tcp_image (h\<lparr>tcp_checksum := 0\<rparr>) m) (0 + 2 * 8) (bytes16 c)"
proof -
  let ?xs = "bytes16 (tcp_src h) @ bytes16 (tcp_dst h) @ bytes32 (tcp_seqnum h) @ bytes32 (tcp_acknum h) @
     [tcp_hlenBits h, tcp_codeBits h] @ bytes16 (tcp_window h)"
  obtain xs ys where n: "length xs = 16" and e: "\<And>x. tcp_bytes (h\<lparr>tcp_checksum := x\<rparr>) = xs @ bytes16 x @ ys"
    by (rule that [of ?xs "bytes16 (tcp_urgent h)"]) (simp_all add: tcp_bytes_def)
  show ?thesis
    unfolding tcp_image_def e memcpy_def using n by (auto simp: nth_append fun_eq_iff)
qed

lemma tcp_image_zero: "rd16 (tcp_image (h\<lparr>tcp_checksum := 0\<rparr>) m) (0 + 2 * 8) = 0"
  by (simp add: rd16_def le16_def tcp_image_def tcp_bytes_def bytes16_def bytes32_def)

lemma tcp_checksum_verifies:
  assumes "tcp_checksum h = 0" and "18 \<le> unat len"
    and "c = ip_p_chksum src dst (tcp_image h m) 0 pr len"
  shows "ip_p_chksum src dst (tcp_image (h\<lparr>tcp_checksum := c\<rparr>) m) 0 pr len = 0"
proof -
  have h: "h\<lparr>tcp_checksum := 0\<rparr> = h" using assms(1) by simp
  show ?thesis
    using ip_p_chksum_store [where k = 8 and p = 0 and m = "tcp_image h m" and len = len]
      tcp_image_zero [of h m] assms(2,3)
    unfolding tcp_image_field [where h = h and c = c] h by simp
qed


section \<open>The whole of \<open>sendPacket\<close>\<close>

lemma sp_lower_buf:
  fixes t :: "'a tcp_state_scheme" and i b
  defines "d \<equiv> tbuf t b" and "L \<equiv> b_dataLen (tbuf t b) + ucast (getTcpHlen (b_tcp (tbuf t b)))"
  shows "tbuf (sp_lower i b t) b = d
     \<lparr>b_tcp := (b_tcp d)\<lparr>tcp_checksum := ip_p_chksum (MyIpAddr t) (dstHost (socks t i))
         (tcp_image (b_tcp d) (b_data d)) 0 IP_PROTOCOL_TCP L\<rparr>,
      b_ip := snd (IpHeader_set IP_PROTOCOL_TCP (dstHost (socks t i)) L 0 0 (b_ip d) t),
      b_eh := eh_setType 0x0800 (eh_setSrc (MyEthAddr t) (b_eh d))\<rparr>"
  by (simp add: sp_lower_def Let_def split_beta d_def L_def)

lemma sp_transmit_buf:
  fixes t :: "'a tcp_state_scheme" and i b
  defines "d' \<equiv> tbuf (fst (sp_transmit i b t)) b"
  shows "d' = (tbuf t b)\<lparr>b_eh := (b_eh (tbuf t b))\<lparr>eh_dest := eh_dest (b_eh d')\<rparr>, b_pendingArp := b_pendingArp d'\<rparr>"
proof -
  obtain u r where u: "setDestEth (ip_dest (b_ip (tbuf t b))) t = (u, r)"
    by (cases "setDestEth (ip_dest (b_ip (tbuf t b))) t")
  have "tbuf u = tbuf t" using setDestEth_socks(2) [of "ip_dest (b_ip (tbuf t b))" t] u by simp
  then show ?thesis
    by (cases r) (simp_all add: d'_def sp_transmit_def Let_def u)
qed

lemma sendPacket_fill:
  "b_pendingArp (tbuf s b) = 0 \<Longrightarrow> sendPacket i b s = sp_transmit i b (sp_lower i b (sp_fill i b s))"
  by (simp add: sendPacket_def sp_fill_def)

lemma sp_fill_dst [simp]: "dstHost (socks (sp_fill i b s) i) = dstHost (socks s i)"
  by (simp add: sp_fill_def sp_codebits_socks sp_header_effect)

lemma sp_fill_MyIpAddr [simp]: "MyIpAddr (sp_fill i b s) = MyIpAddr s"
  by (simp add: sp_fill_def)

lemma sent_header_hlen: "getTcpHlen (sent_header k d mss) = (if sends_syn k then 24 else 20)"
  by (simp add: getTcpHlen_def sent_header_def)

lemma sendPacket_buf:
  fixes s :: "'a tcp_state_scheme" and i b
  defines "k \<equiv> socks s i" and "d \<equiv> tbuf s b" and "d' \<equiv> tbuf (fst (sendPacket i b s)) b"
  assumes "b_pendingArp (tbuf s b) = 0"
  shows "b_tcp d' = (sent_header k d (MSS_to_advertise s))\<lparr>tcp_checksum :=
       ip_p_chksum (MyIpAddr s) (dstHost k) (tcp_image (sent_header k d (MSS_to_advertise s))
         (sent_data k d (MSS_to_advertise s))) 0 IP_PROTOCOL_TCP (sent_tcpLen k d)\<rparr>"
    and "b_data d' = sent_data k d (MSS_to_advertise s)"
    and "\<exists>h t. b_ip d' = snd (IpHeader_set IP_PROTOCOL_TCP (dstHost k) (sent_tcpLen k d) 0 0 h t) \<and>
       MyIpAddr (t :: 'a tcp_state_scheme) = MyIpAddr s"
    and "b_packetLen d' = 34 + sent_tcpLen k d"
    and "b_seqNum d' = seqNum k + ucast (b_dataLen d) + (if sends_syn k \<or> sends_fin k d then 1 else 0) - 1"
    and "b_flags d' = (if b_dataLen d = 0 \<and> sent_bits k d = TCP_CODEBITS_ACK then b_flags d OR 1 else b_flags d)"
    and "eh_src (b_eh d') = MyEthAddr s" and "eh_type (b_eh d') = htons 0x0800"
proof -
  let ?f = "sp_fill i b s" and ?l = "sp_lower i b (sp_fill i b s)"
  obtain e p where t: "d' = (tbuf ?l b)\<lparr>b_eh := (b_eh (tbuf ?l b))\<lparr>eh_dest := e\<rparr>, b_pendingArp := p\<rparr>"
    using sp_transmit_buf [of i b ?l] unfolding d'_def sendPacket_fill [OF assms(4)] by blast
  have L: "b_dataLen (tbuf ?f b) + ucast (getTcpHlen (b_tcp (tbuf ?f b))) = sent_tcpLen k d"
    by (simp add: sp_fill_buf sent_header_hlen sent_tcpLen_def k_def d_def)
  have me: "MyEthAddr ?f = MyEthAddr s" by (rule quiet_fields [where s = s]) (simp add: sp_fill_def)
  note all = t sp_lower_buf L sp_fill_buf
  show "b_tcp d' = (sent_header k d (MSS_to_advertise s))\<lparr>tcp_checksum :=
       ip_p_chksum (MyIpAddr s) (dstHost k) (tcp_image (sent_header k d (MSS_to_advertise s))
         (sent_data k d (MSS_to_advertise s))) 0 IP_PROTOCOL_TCP (sent_tcpLen k d)\<rparr>"
    by (simp only: all sp_fill_dst sp_fill_MyIpAddr) (simp add: k_def d_def sp_fill_buf sent_tcpLen_def sent_header_hlen)
  show "b_data d' = sent_data k d (MSS_to_advertise s)" by (simp add: all) (simp add: k_def d_def)
  show "\<exists>h t. b_ip d' = snd (IpHeader_set IP_PROTOCOL_TCP (dstHost k) (sent_tcpLen k d) 0 0 h t) \<and>
       MyIpAddr (t :: 'a tcp_state_scheme) = MyIpAddr s"
  proof (intro exI conjI)
    show "b_ip d' = snd (IpHeader_set IP_PROTOCOL_TCP (dstHost k) (sent_tcpLen k d) 0 0 (b_ip (tbuf ?f b)) ?f)"
      by (simp only: t sp_lower_buf L sp_fill_dst) (simp add: k_def)
  qed (rule sp_fill_MyIpAddr)
  show "b_packetLen d' = 34 + sent_tcpLen k d"
    by (simp add: all sent_tcpLen_def) (simp add: k_def d_def)
  show "b_seqNum d' = seqNum k + ucast (b_dataLen d) + (if sends_syn k \<or> sends_fin k d then 1 else 0) - 1"
    by (simp add: all) (simp add: k_def d_def)
  show "b_flags d' = (if b_dataLen d = 0 \<and> sent_bits k d = TCP_CODEBITS_ACK then b_flags d OR 1 else b_flags d)"
    by (simp add: all) (auto simp: k_def d_def)
  show "eh_src (b_eh d') = MyEthAddr s" and "eh_type (b_eh d') = htons 0x0800"
    by (simp_all add: all me eh_setType_def eh_setSrc_def)
qed


section \<open>Reaching the wire\<close>

lemma sp_fill_frame [simp]:
  "cachedMacAddr (socks (sp_fill i b s) i) = cachedMacAddr (socks s i)"
  "wire (sp_lower i b (sp_fill i b s)) = wire s"
  "drv_ok (sp_lower i b (sp_fill i b s)) = drv_ok s"
proof -
  have w: "wire (sp_fill i b s) = wire s" "drv_calls (sp_fill i b s) = drv_calls s"
    "drv_carry (sp_fill i b s) = drv_carry s"
    by (simp_all add: sp_fill_def sp_header_def sp_acknum_def sp_window_def sp_codebits_def sp_syn_def
        sp_fin_def Let_def upd_sock_def upd_buf_def split: TcpState.split)
  show "cachedMacAddr (socks (sp_fill i b s) i) = cachedMacAddr (socks s i)"
    by (simp add: sp_fill_def sp_codebits_socks sp_header_effect)
  show "wire (sp_lower i b (sp_fill i b s)) = wire s" "drv_ok (sp_lower i b (sp_fill i b s)) = drv_ok s"
    using w by (simp_all add: sp_lower_def Let_def split_beta upd_buf_def drv_ok_def)
qed

lemma sendPacket_cached:
  assumes "b_pendingArp (tbuf s b) = 0" and "cachedMacAddr (socks s i) \<noteq> Eth_Broadcast"
  shows "snd (sendPacket i b s) = 0" and "b_pendingArp (tbuf (fst (sendPacket i b s)) b) = 0"
    and "wire (fst (sendPacket i b s)) = (if drv_ok s
      then wire s @ [(tcp_frame (tbuf (fst (sendPacket i b s)) b),
        let l = b_packetLen (tbuf (fst (sendPacket i b s)) b) in if l < 60 then 60 else l)]
      else wire s)"
    and "eh_dest (b_eh (tbuf (fst (sendPacket i b s)) b)) = cachedMacAddr (socks s i)"
proof -
  let ?l = "sp_lower i b (sp_fill i b s)"
  let ?t = "upd_buf b (\<lambda>d. d\<lparr>b_eh := (b_eh d)\<lparr>eh_dest := cachedMacAddr (socks s i)\<rparr>\<rparr>) ?l"
  have "b_pendingArp (tbuf ?l b) = 0" using assms(1) by (simp add: sp_lower_buf sp_fill_buf)
  then have e: "sendPacket i b s = (Packet_send_pkt (tcp_frame (tbuf ?t b)) (b_packetLen (tbuf ?t b)) ?t, 0)"
    using assms(2) by (simp add: sendPacket_fill [OF assms(1)] sp_transmit_def Let_def)
  have w: "wire ?t = wire s" "drv_ok ?t = drv_ok s"
    using sp_fill_frame(2,3) [of i b s] by (simp_all add: upd_buf_def drv_ok_def)
  show "snd (sendPacket i b s) = 0" by (simp add: e)
  show "b_pendingArp (tbuf (fst (sendPacket i b s)) b) = 0"
    using \<open>b_pendingArp (tbuf ?l b) = 0\<close> by (simp add: e)
  show "wire (fst (sendPacket i b s)) = (if drv_ok s
      then wire s @ [(tcp_frame (tbuf (fst (sendPacket i b s)) b),
        let l = b_packetLen (tbuf (fst (sendPacket i b s)) b) in if l < 60 then 60 else l)]
      else wire s)"
    by (simp add: e Packet_send_pkt_wire w Let_def)
  show "eh_dest (b_eh (tbuf (fst (sendPacket i b s)) b)) = cachedMacAddr (socks s i)"
    by (simp add: e)
qed

section \<open>Properties\<close>

text \<open>
  C6. A segment of at most 65511 bytes is built as its socket says: the TCP header holds the
  ports, the sequence number, the acknowledgement, the flags and the window, a SYN carries the
  MSS option, and both the TCP checksum over the pseudo header and the IP header checksum
  verify under the routines the receiving side uses.
\<close>

theorem sendPacket_builds_valid_segment:
  assumes "b_pendingArp (tbuf s b) = 0" and "unat (b_dataLen (tbuf s b)) \<le> 65511"
    and "k = socks s i" and "d = tbuf s b" and "d' = tbuf (fst (sendPacket i b s)) b"
  shows "b_tcp d' = (sent_header k d (MSS_to_advertise s))\<lparr>tcp_checksum := tcp_checksum (b_tcp d')\<rparr> \<and>
    b_data d' = sent_data k d (MSS_to_advertise s) \<and>
    ip_p_chksum (MyIpAddr s) (dstHost k) (tcp_image (b_tcp d') (b_data d')) 0 IP_PROTOCOL_TCP (sent_tcpLen k d) = 0 \<and>
    ipchksum (mem_of (ip_bytes (b_ip d'))) 0 20 = 0 \<and> payloadLen (b_ip d') = sent_tcpLen k d \<and>
    ip_src (b_ip d') = MyIpAddr s \<and> ip_dest (b_ip d') = dstHost k \<and> ip_protocol (b_ip d') = IP_PROTOCOL_TCP \<and>
    b_packetLen d' = 34 + sent_tcpLen k d"
proof -
  note sp = sendPacket_buf [OF assms(1), of i, folded assms(3-5)]
  obtain h t where ip: "b_ip d' = snd (IpHeader_set IP_PROTOCOL_TCP (dstHost k) (sent_tcpLen k d) 0 0 h t)"
    and my: "MyIpAddr (t :: 'a tcp_state_scheme) = MyIpAddr s" using sp(3) by blast
  have "18 \<le> unat (sent_tcpLen k d)"
    using assms(2,4) by (simp add: sent_tcpLen_def unat_word_ariths)
  then have "ip_p_chksum (MyIpAddr s) (dstHost k) (tcp_image (b_tcp d') (b_data d')) 0 IP_PROTOCOL_TCP
      (sent_tcpLen k d) = 0"
    unfolding sp(1,2) by (intro tcp_checksum_verifies refl) (simp_all add: sent_header_def)
  then show ?thesis
    using my by (simp add: sp(1,2,4) ip IpHeader_set_fields IpHeader_set_checksum)
qed

text \<open>A connected socket with five bytes to send, for the witnesses.\<close>

definition demo_send :: tcp_state where
  "demo_send = upd_sock 0 (\<lambda>k. k\<lparr>state := TCP_STATE_ESTABLISHED, seqNum := 1000, ackNum := 77,
       srcPort := 1025, dstPort := 6667, dstHost := (10, 0, 0, 2), cachedMacAddr := (1, 2, 3),
       remoteWindow := 512\<rparr>)
     (upd_buf (XmitBuffer 0) (\<lambda>b. b\<lparr>b_dataLen := 5, b_data := (\<lambda>i. of_nat (65 + i))\<rparr>) zero_tcp_state)"

lemma demo_send_buf: "b_pendingArp (tbuf demo_send (XmitBuffer 0)) = 0"
  "b_dataLen (tbuf demo_send (XmitBuffer 0)) = 5" "b_flags (tbuf demo_send (XmitBuffer 0)) = 0"
  by (simp_all add: demo_send_def zero_state zero_buffer_def)

lemma demo_send_sock: "state (socks demo_send 0) = TCP_STATE_ESTABLISHED" "seqNum (socks demo_send 0) = 1000"
  "remoteWindow (socks demo_send 0) = 512" "cachedMacAddr (socks demo_send 0) = (1, 2, 3)"
  "dstHost (socks demo_send 0) = (10, 0, 0, 2)"
  by (simp_all add: demo_send_def zero_state)

theorem sendPacket_builds_valid_segment_witness:
  "tcp_codeBits (b_tcp (tbuf (fst (sendPacket 0 (XmitBuffer 0) demo_send)) (XmitBuffer 0))) = 0x18 \<and>
   ipchksum (mem_of (ip_bytes (b_ip (tbuf (fst (sendPacket 0 (XmitBuffer 0) demo_send)) (XmitBuffer 0))))) 0 20 = 0"
proof -
  have l: "unat (b_dataLen (tbuf demo_send (XmitBuffer 0))) \<le> 65511" by (simp add: demo_send_buf)
  note w = sendPacket_builds_valid_segment [where i = 0, OF demo_send_buf(1) l refl refl refl]
  have "tcp_codeBits (b_tcp (tbuf (fst (sendPacket 0 (XmitBuffer 0) demo_send)) (XmitBuffer 0))) =
      sent_bits (socks demo_send 0) (tbuf demo_send (XmitBuffer 0))"
    by (subst w [THEN conjunct1]) (simp add: sent_header_def)
  then show ?thesis
    using w by (simp add: sent_bits_def sends_fin_def demo_send_sock demo_send_buf cfg_defs)
qed

text \<open>
  C8. A segment moves the send sequence number by its data length, plus one for a SYN and one
  for the FIN, which goes out with the last queued segment of a closing socket and moves it to
  FIN_WAIT_1 or LAST_ACK; the buffer remembers the last sequence number it covers, the peer's
  window shrinks by the data, and an empty segment with only ACK set is marked as such.
\<close>

theorem sendPacket_sequence:
  assumes "b_pendingArp (tbuf s b) = 0" and "k = socks s i" and "d = tbuf s b"
    and "s' = fst (sendPacket i b s)"
    and "n = seqNum k + ucast (b_dataLen d) + (if sends_syn k \<or> sends_fin k d then 1 else 0)"
  shows "socks s' i = k\<lparr>seqNum := n, state := fin_state k d,
      remoteWindow := (if b_dataLen d \<le> remoteWindow k then remoteWindow k - b_dataLen d else 0)\<rparr> \<and>
    b_seqNum (tbuf s' b) = n - 1 \<and>
    (wasAckOnly (tbuf s' b) \<longleftrightarrow> wasAckOnly d \<or> b_dataLen d = 0 \<and> sent_bits k d = TCP_CODEBITS_ACK)"
proof -
  have f: "(x OR 1) AND 1 = 1" for x :: u16 by (rule bit_word_eqI) (auto simp: bit_simps)
  show ?thesis
    using sendPacket_socks [OF assms(1), of i] sendPacket_buf(5,6) [OF assms(1), of i]
    by (auto simp: assms(2-5) wasAckOnly_def f)
qed

theorem sendPacket_sequence_witness:
  "seqNum (socks (fst (sendPacket 0 (XmitBuffer 0) demo_send)) 0) = 1005 \<and>
   remoteWindow (socks (fst (sendPacket 0 (XmitBuffer 0) demo_send)) 0) = 507 \<and>
   b_seqNum (tbuf (fst (sendPacket 0 (XmitBuffer 0) demo_send)) (XmitBuffer 0)) = 1004"
  using sendPacket_sequence [where i = 0, OF demo_send_buf(1) refl refl refl refl]
  by (simp add: sends_syn_def sends_fin_def demo_send_sock demo_send_buf)

text \<open>
  When the peer's hardware address is cached, \<open>sendPacket\<close> needs no resolution: it returns 0
  and hands the finished segment to the driver, addressed to the cached address, once if the
  driver accepts one of its five attempts.
\<close>

lemma sendPacket_reaches_wire:
  assumes "b_pendingArp (tbuf s b) = 0" and "cachedMacAddr (socks s i) \<noteq> (0xFFFF, 0xFFFF, 0xFFFF)"
    and "s' = fst (sendPacket i b s)" and "d' = tbuf s' b"
  shows "snd (sendPacket i b s) = 0 \<and> b_pendingArp d' = 0 \<and>
    eh_dest (b_eh d') = cachedMacAddr (socks s i) \<and> eh_src (b_eh d') = MyEthAddr s \<and>
    wire s' = (if \<exists>n<5. \<not> drv_carry s (drv_calls s + n)
      then wire s @ [(TcpFrame (b_eh d') (b_ip d') (b_tcp d') (rdbytes (b_data d') 0 (unat (b_packetLen d') - 54)),
        if b_packetLen d' < 60 then 60 else b_packetLen d')]
      else wire s)"
proof -
  have "cachedMacAddr (socks s i) \<noteq> Eth_Broadcast" using assms(2) by (simp add: Eth_Broadcast_def)
  note c = sendPacket_cached [OF assms(1) this]
  show ?thesis
    using c sendPacket_buf(7) [OF assms(1), of i]
    by (simp add: assms(3,4) tcp_frame_def drv_ok_def Let_def)
qed

end
