(* ===== verification/TcpRecv.thy ===== *)
theory TcpRecv
  imports TcpSegment
begin

text \<open>
  The receive buffer of a socket is a byte pipe: what \<open>addToRcvBuf\<close> stores is what \<open>recv\<close>
  returns, in order.  The interface is the locale \<open>byte_pipe\<close>, interpreted on the model.
\<close>

unbundle bit_operations_syntax

section \<open>The interface: a byte pipe\<close>

text \<open>The events of a pipe: data offered, and a read of at most so many bytes.\<close>

datatype 'd pipe_op = Offer 'd | Read u16

fun pipe_run ::
    "('d \<Rightarrow> 's \<Rightarrow> 's \<times> int) \<Rightarrow> (u16 \<Rightarrow> 's \<Rightarrow> 's \<times> int \<times> u8 list) \<Rightarrow> ('d \<Rightarrow> u8 list) \<Rightarrow>
     's \<Rightarrow> 'd pipe_op list \<Rightarrow> 's \<times> u8 list \<times> u8 list" where
  "pipe_run put get bytes s [] = (s, [], [])"
| "pipe_run put get bytes s (Offer d # ops) =
     (case put d s of (s', rc) \<Rightarrow>
        case pipe_run put get bytes s' ops of (t, inp, out) \<Rightarrow>
          (t, (if rc = 0 then bytes d else []) @ inp, out))"
| "pipe_run put get bytes s (Read n # ops) =
     (case get n s of (s', rc, xs) \<Rightarrow>
        case pipe_run put get bytes s' ops of (t, inp, out) \<Rightarrow> (t, inp, xs @ out))"

locale byte_pipe =
  fixes put :: "'d \<Rightarrow> 's \<Rightarrow> 's \<times> int"
    and get :: "u16 \<Rightarrow> 's \<Rightarrow> 's \<times> int \<times> u8 list"
    and bytes :: "'d \<Rightarrow> u8 list"
    and contents :: "'s \<Rightarrow> u8 list"
    and room :: "'s \<Rightarrow> nat"
    and wf :: "'s \<Rightarrow> bool"
  assumes put_room: "wf s \<Longrightarrow> length (bytes d) \<le> room s \<Longrightarrow>
        wf (fst (put d s)) \<and> snd (put d s) = 0 \<and> contents (fst (put d s)) = contents s @ bytes d"
    and put_full: "wf s \<Longrightarrow> room s < length (bytes d) \<Longrightarrow> put d s = (s, -1)"
    and get_spec: "wf s \<Longrightarrow> wf (fst (get n s)) \<and> fst (snd (get n s)) = int (min (unat n) (length (contents s))) \<and>
        snd (snd (get n s)) = take (unat n) (contents s) \<and>
        contents (fst (get n s)) = drop (unat n) (contents s)"
begin

lemma put_wf: "wf s \<Longrightarrow> wf (fst (put d s))"
  using put_room [of s d] put_full [of s d] by (cases "length (bytes d) \<le> room s") auto

lemma put_contents:
  "wf s \<Longrightarrow> contents (fst (put d s)) = contents s @ (if snd (put d s) = 0 then bytes d else [])"
  using put_room [of s d] put_full [of s d] by (cases "length (bytes d) \<le> room s") auto

lemma in_order:
  "wf s \<Longrightarrow> pipe_run put get bytes s ops = (t, inp, out) \<Longrightarrow>
     wf t \<and> contents s @ inp = out @ contents t"
proof (induction ops arbitrary: s t inp out)
  case Nil
  then show ?case by simp
next
  case (Cons a ops)
  show ?case
  proof (cases a)
    case (Offer d)
    obtain t' inp' out' where r: "pipe_run put get bytes (fst (put d s)) ops = (t', inp', out')"
      using prod_cases3 by blast
    then show ?thesis
      using Cons.prems Offer r Cons.IH [OF put_wf [OF Cons.prems(1)] r] put_contents [OF Cons.prems(1), of d]
      by (auto simp: split_beta)
  next
    case (Read n)
    note g = get_spec [OF Cons.prems(1), of n]
    obtain t' inp' out' where r: "pipe_run put get bytes (fst (get n s)) ops = (t', inp', out')"
      using prod_cases3 by blast
    have io: "t = t'" "inp = inp'" "out = take (unat n) (contents s) @ out'"
      using Cons.prems(2) Read r g by (auto simp: split_beta)
    have "wf t' \<and> drop (unat n) (contents s) @ inp' = out' @ contents t'"
      using Cons.IH [OF _ r] g by simp
    then show ?thesis unfolding io by (metis append.assoc append_take_drop_id)
  qed
qed

end

section \<open>The receive ring\<close>

definition rcv_size :: "TcpSocket \<Rightarrow> nat" where
  "rcv_size k = unat (rcvBufSize k)"

definition rcv_wf :: "nat \<Rightarrow> 'a tcp_state_scheme \<Rightarrow> bool" where
  "rcv_wf i s \<longleftrightarrow> (let k = socks s i in
     rcvBuffer k \<noteq> None \<and> 0 < unat (rcvBufSize k) \<and> unat (rcvBufSize k) \<le> 16384 \<and>
     unat (rcvBufEntries k) \<le> unat (rcvBufSize k) \<and> unat (rcvBufFirst k) < unat (rcvBufSize k) \<and>
     unat (rcvBufLast k) = (unat (rcvBufFirst k) + unat (rcvBufEntries k)) mod unat (rcvBufSize k) \<and>
     TCP_STATE_ESTABLISHED \<le> state k)"

text \<open>The bytes stored: the ring read from \<open>rcvBufFirst\<close> on.\<close>

definition ring_bytes :: "mem \<Rightarrow> nat \<Rightarrow> nat \<Rightarrow> nat \<Rightarrow> u8 list" where
  "ring_bytes m N first n = map (\<lambda>j. m ((first + j) mod N)) [0..<n]"

definition rcv_contents :: "nat \<Rightarrow> 'a tcp_state_scheme \<Rightarrow> u8 list" where
  "rcv_contents i s =
     ring_bytes (heap_mem s (the (rcvBuffer (socks s i)))) (unat (rcvBufSize (socks s i)))
       (unat (rcvBufFirst (socks s i))) (unat (rcvBufEntries (socks s i)))"

definition rcv_room :: "nat \<Rightarrow> 'a tcp_state_scheme \<Rightarrow> nat" where
  "rcv_room i s = unat (rcvBufSize (socks s i)) - unat (rcvBufEntries (socks s i))"

lemma length_ring_bytes [simp]: "length (ring_bytes m N f n) = n"
  by (simp add: ring_bytes_def)

lemma ring_bytes_linear: "f + n \<le> N \<Longrightarrow> ring_bytes m N f n = rdbytes m f n"
  by (rule nth_equalityI) (auto simp: ring_bytes_def)

lemma ring_bytes_append: "ring_bytes m N f (a + b) = ring_bytes m N f a @ ring_bytes m N (f + a) b"
  by (rule nth_equalityI) (auto simp: ring_bytes_def nth_append add.assoc)

lemma ring_bytes_mod: "ring_bytes m N (f mod N) n = ring_bytes m N f n"
  by (simp add: ring_bytes_def mod_add_left_eq)

text \<open>A copy of at most \<open>N\<close> bytes that wraps at most once.\<close>

lemma ring_bytes_wrap:
  assumes "f < N" and "N \<le> f + n" and "n \<le> N"
  shows "ring_bytes m N f n = rdbytes m f (N - f) @ rdbytes m 0 (n - (N - f))"
proof -
  have "ring_bytes m N f n = ring_bytes m N f (N - f) @ ring_bytes m N N (n - (N - f))"
    using ring_bytes_append [of m N f "N - f" "n - (N - f)"] assms by simp
  also have "ring_bytes m N N (n - (N - f)) = rdbytes m 0 (n - (N - f))"
    using ring_bytes_mod [of m N N] ring_bytes_linear [of 0 "n - (N - f)" N m] assms by simp
  finally show ?thesis using assms(1) by (simp add: ring_bytes_linear)
qed

lemma ring_bytes_cong:
  "(\<And>j. j < n \<Longrightarrow> m ((f + j) mod N) = m' ((f + j) mod N)) \<Longrightarrow> ring_bytes m N f n = ring_bytes m' N f n"
  by (simp add: ring_bytes_def)

lemma ring_bytes_take: "take a (ring_bytes m N f n) = ring_bytes m N f (min a n)"
  by (simp add: ring_bytes_def take_map min_def)

lemma ring_bytes_drop: "drop a (ring_bytes m N f n) = ring_bytes m N (f + a) (n - a)"
  by (rule nth_equalityI) (auto simp: ring_bytes_def add.assoc)


section \<open>Storing\<close>

lemma rdbytes_split: "a \<le> n \<Longrightarrow> rdbytes m p n = rdbytes m p a @ rdbytes m (p + a) (n - a)"
  using rdbytes_append [of m p a "n - a"] by simp

lemma mod_in_ring: "f < N \<Longrightarrow> j < N \<Longrightarrow> (f + j) mod N = (if f + j < N then f + j else f + j - N)"
  for f N :: nat by (auto simp: mod_if)

text \<open>Bytes stored at the end of the ring, in one piece or in two.\<close>

lemma ring_store:
  assumes N: "f < N" "n + length xs \<le> N" and l: "l = (f + n) mod N"
    and m': "m' = (if length xs + l < N then memcpy m l xs
       else memcpy (memcpy m l (take (N - l) xs)) 0 (drop (N - l) xs))"
  shows "ring_bytes m' N f (n + length xs) = ring_bytes m N f n @ xs"
proof (cases "xs = []")
  case True
  then show ?thesis using m' by (auto split: if_splits)
next
  case False
  then have nN: "n < N" using N(2) by (cases xs) auto
  have lN: "l < N" using l N(1) by auto
  have at: "m' ((f + j) mod N) = (if j < n then m ((f + j) mod N) else xs ! (j - n))"
    if j: "j < n + length xs" for j
  proof -
    have jN: "j < N" using j N(2) by simp
    show ?thesis
    proof (cases "f + n < N")
      case True
      then have l': "l = f + n" using l by simp
      show ?thesis
        using j jN N m' True unfolding l' mod_in_ring [OF N(1) jN]
        by (auto simp: memcpy_def nth_append)
    next
      case False
      then have l': "l = f + n - N" using l mod_in_ring [OF N(1) nN] by simp
      have "length xs + l < N" using False N(1,2) l' False by linarith
      then show ?thesis
        using j jN N m' False unfolding l' mod_in_ring [OF N(1) jN]
        by (auto simp: memcpy_def)
    qed
  qed
  show ?thesis
    by (rule nth_equalityI) (auto simp: nth_append ring_bytes_def at)
qed


lemma heap_write_simps [simp]:
  "socks (heap_write p off xs s) = socks s" "heap_mem (heap_write p off xs s) p = memcpy (heap_mem s p) off xs"
  by (simp_all add: heap_write_def)

lemma heap_mem_upd_sock [simp]: "heap_mem (upd_sock i f s) = heap_mem s"
  by (simp add: upd_sock_def)

lemma addToRcvBuf_full:
  assumes "rcv_wf i s" and "rcv_room i s < unat n"
  shows "addToRcvBuf i m p n s = (s, -1)"
proof -
  let ?k = "socks s i"
  have "rcvBufEntries ?k \<le> rcvBufSize ?k" using assms(1) by (simp add: rcv_wf_def Let_def word_le_nat_alt)
  then have "rcvBufSize ?k - rcvBufEntries ?k < n"
    using assms(2) by (simp add: rcv_room_def word_less_nat_alt u16_sub)
  then show ?thesis by (simp add: addToRcvBuf_def Let_def cfg_defs)
qed

lemma addToRcvBuf_room:
  fixes s :: "'a tcp_state_scheme" and i m p n
  defines "s' \<equiv> fst (addToRcvBuf i m p n s)"
  assumes wf: "rcv_wf i s" and room: "unat n \<le> rcv_room i s"
  shows "rcv_wf i s' \<and> snd (addToRcvBuf i m p n s) = 0 \<and>
     rcv_contents i s' = rcv_contents i s @ rdbytes m p (unat n)"
proof -
  let ?k = "socks s i" and ?k' = "socks s' i"
  let ?N = "unat (rcvBufSize ?k)" and ?f = "unat (rcvBufFirst ?k)" and ?e = "unat (rcvBufEntries ?k)"
    and ?l = "unat (rcvBufLast ?k)" and ?n = "unat n" and ?xs = "rdbytes m p (unat n)"
  obtain b where b: "rcvBuffer ?k = Some b" using wf by (auto simp: rcv_wf_def Let_def)
  have N: "0 < ?N" "?N \<le> 16384" "?e \<le> ?N" "?f < ?N" "?l = (?f + ?e) mod ?N" "?e + ?n \<le> ?N"
    and st: "TCP_STATE_ESTABLISHED \<le> state ?k"
    using wf room by (auto simp: rcv_wf_def Let_def rcv_room_def)
  then have lN: "?l < ?N" by simp
  have "?n \<le> unat (rcvBufSize ?k - rcvBufEntries ?k)"
    using N room by (simp add: u16_sub word_le_nat_alt rcv_room_def)
  then have ok: "\<not> rcvBufSize ?k - rcvBufEntries ?k < n" by (simp add: word_less_nat_alt)
  have e': "unat (rcvBufEntries ?k + n) = ?e + ?n" using N by (intro u16_add) simp
  have nl: "unat (n + rcvBufLast ?k) = ?n + ?l" by (intro u16_add) (use N(2,6) lN in linarith)
  have ln: "unat (rcvBufLast ?k + n) = ?l + ?n" by (intro u16_add) (use N(2,6) lN in linarith)
  have c1: "unat (rcvBufSize ?k - rcvBufLast ?k) = ?N - ?l" using lN by (simp add: u16_sub word_le_nat_alt)
  have cond: "n + rcvBufLast ?k < rcvBufSize ?k \<longleftrightarrow> ?n + ?l < ?N" by (simp add: word_less_nat_alt nl)
  have c2: "unat (n - (rcvBufSize ?k - rcvBufLast ?k)) = ?n - (?N - ?l)" if "\<not> ?n + ?l < ?N"
    using that c1 by (simp add: u16_sub word_le_nat_alt)
  have last: "(?f + (?e + ?n)) mod ?N = (if ?n + ?l < ?N then ?l + ?n else ?n - (?N - ?l))"
  proof -
    have "(?f + (?e + ?n)) mod ?N = (?l + ?n) mod ?N" unfolding N(5) by (simp add: mod_add_left_eq add.assoc)
    then show ?thesis using lN N(6) by (auto simp: mod_if)
  qed
  have k': "?k' = ?k\<lparr>rcvBufEntries := rcvBufEntries ?k + n, rcvBufLast := (if n + rcvBufLast ?k < rcvBufSize ?k
       then rcvBufLast ?k + n else n - (rcvBufSize ?k - rcvBufLast ?k))\<rparr>"
    using ok b by (simp add: s'_def addToRcvBuf_def Let_def)
  have "rcv_wf i s'"
    using N st b by (auto simp: rcv_wf_def Let_def k' e' cond ln c2 last)
  moreover have "snd (addToRcvBuf i m p n s) = 0"
    using ok by (simp add: addToRcvBuf_def Let_def cfg_defs)
  moreover have "rcv_contents i s' = rcv_contents i s @ ?xs"
  proof -
    have t: "take (?N - ?l) ?xs = rdbytes m p (?N - ?l)" "drop (?N - ?l) ?xs = rdbytes m (p + (?N - ?l)) (?n - (?N - ?l))"
      if "\<not> ?n + ?l < ?N"
      using rdbytes_split [of "?N - ?l" ?n m p] that by simp_all
    have "heap_mem s' b = (if length ?xs + ?l < ?N then memcpy (heap_mem s b) ?l ?xs
       else memcpy (memcpy (heap_mem s b) ?l (take (?N - ?l) ?xs)) 0 (drop (?N - ?l) ?xs))"
      using ok b t c1 c2 by (simp add: s'_def addToRcvBuf_def Let_def cond)
    from ring_store [OF N(4) _ N(5) this] show ?thesis
      using N(6) by (simp add: rcv_contents_def k' b e')
  qed
  ultimately show ?thesis by simp
qed


section \<open>Reading\<close>

text \<open>A pure ACK, sent when a closed window opens, leaves the receive side alone.\<close>

lemma sendPureAck_sock:
  "sk_rest (socks (sendPureAck i probe s) i) = sk_rest (socks s i)"
  "state (socks (sendPureAck i probe s) i) = state (socks s i)"
  "heap_mem (sendPureAck i probe s) = heap_mem s"
proof -
  let ?t = "upd_buf StackBuffer (\<lambda>b. b\<lparr>b_dataLen := 0\<rparr>)
      (if probe then (upd_buf StackBuffer setForceProbe (upd_buf StackBuffer (\<lambda>b. setForceAckOnly (reset_accounting b)) s))
           \<lparr>SentZeroWindowProbe := SentZeroWindowProbe (upd_buf StackBuffer (\<lambda>b. setForceAckOnly (reset_accounting b)) s) + 1\<rparr>
       else upd_buf StackBuffer (\<lambda>b. setForceAckOnly (reset_accounting b)) s)"
  obtain t where t: "b_pendingArp (tbuf t StackBuffer) = 0" "socks t = socks s"
    and e: "sendPureAck i probe s = (if state (socks s i) \<noteq> TCP_STATE_ESTABLISHED then s
      else fst (sendPacket i StackBuffer t))"
  proof (rule that [of ?t])
    show "b_pendingArp (tbuf ?t StackBuffer) = 0"
      by (simp add: reset_accounting_def setForceAckOnly_def setForceProbe_def)
    show "sendPureAck i probe s = (if state (socks s i) \<noteq> TCP_STATE_ESTABLISHED then s
        else fst (sendPacket i StackBuffer ?t))"
      by (simp add: sendPureAck_def Let_def)
  qed simp
  show "sk_rest (socks (sendPureAck i probe s) i) = sk_rest (socks s i)"
    using sends_frame_fields(3) [OF sf_sendPacket, of i StackBuffer t i] by (simp add: e t)
  show "state (socks (sendPureAck i probe s) i) = state (socks s i)"
    using sendPacket_socks [OF t(1), of i] by (simp add: e t fin_state_def sends_fin_def)
  show "heap_mem (sendPureAck i probe s) = heap_mem s"
    by (rule quiet_fields [where s = s]) simp
qed

lemma rcv_cong:
  assumes "sk_rest (socks s' i) = sk_rest (socks s i)" and "state (socks s' i) = state (socks s i)"
    and "heap_mem s' = heap_mem s"
  shows "rcv_wf i s' = rcv_wf i s" and "rcv_contents i s' = rcv_contents i s"
  using sk_rest_fields [OF assms(1)] assms(2,3) by (simp_all add: rcv_wf_def rcv_contents_def Let_def)

lemma recv_copy_spec:
  fixes s :: "'a tcp_state_scheme" and i c
  defines "s' \<equiv> fst (recv_copy i c s)"
  assumes wf: "rcv_wf i s" and c: "unat c \<le> unat (rcvBufEntries (socks s i))"
  shows "rcv_wf i s' \<and> rcv_contents i s' = drop (unat c) (rcv_contents i s) \<and>
     snd (recv_copy i c s) = take (unat c) (rcv_contents i s)"
proof -
  let ?k = "socks s i" and ?k' = "socks s' i"
  let ?N = "unat (rcvBufSize ?k)" and ?f = "unat (rcvBufFirst ?k)" and ?e = "unat (rcvBufEntries ?k)"
    and ?c = "unat c"
  obtain b where b: "rcvBuffer ?k = Some b" using wf by (auto simp: rcv_wf_def Let_def)
  have N: "0 < ?N" "?N \<le> 16384" "?e \<le> ?N" "?f < ?N" "unat (rcvBufLast ?k) = (?f + ?e) mod ?N" "?c \<le> ?e"
    and st: "TCP_STATE_ESTABLISHED \<le> state ?k"
    using wf c by (auto simp: rcv_wf_def Let_def)
  have e': "unat (rcvBufEntries ?k - c) = ?e - ?c" using N by (simp add: u16_sub word_le_nat_alt)
  have cf: "unat (c + rcvBufFirst ?k) = ?c + ?f" by (intro u16_add) (use N(2,3,4,6) in linarith)
  have fc: "unat (rcvBufFirst ?k + c) = ?f + ?c" by (intro u16_add) (use N(2,3,4,6) in linarith)
  have cond: "c + rcvBufFirst ?k < rcvBufSize ?k \<longleftrightarrow> ?c + ?f < ?N" by (simp add: word_less_nat_alt cf)
  have c1: "unat (rcvBufSize ?k - rcvBufFirst ?k) = ?N - ?f" using N by (simp add: u16_sub word_le_nat_alt)
  have c2: "unat (c - (rcvBufSize ?k - rcvBufFirst ?k)) = ?c - (?N - ?f)" if "\<not> ?c + ?f < ?N"
    using that c1 by (simp add: u16_sub word_le_nat_alt)
  have f': "(if ?c + ?f < ?N then ?f + ?c else ?c - (?N - ?f)) = (?f + ?c) mod ?N"
    using N by (auto simp: mod_if)
  have k': "?k' = ?k\<lparr>rcvBufEntries := rcvBufEntries ?k - c, rcvBufFirst := (if c + rcvBufFirst ?k < rcvBufSize ?k
       then rcvBufFirst ?k + c else c - (rcvBufSize ?k - rcvBufFirst ?k))\<rparr>"
    by (simp add: s'_def recv_copy_def Let_def)
  have first': "unat (rcvBufFirst ?k') = (?f + ?c) mod ?N"
    using f' fc c2 by (auto simp: k' cond)
  have "((?f + ?c) mod ?N + (?e - ?c)) mod ?N = (?f + ?c + (?e - ?c)) mod ?N"
    by (rule mod_add_left_eq)
  then have "((?f + ?c) mod ?N + (?e - ?c)) mod ?N = (?f + ?e) mod ?N"
    using N(6) by simp
  then have "rcv_wf i s'"
    using N st b first' unfolding rcv_wf_def Let_def by (simp add: k' e')
  moreover have "heap_mem s' = heap_mem s" by (simp add: s'_def recv_copy_def Let_def)
  then have "rcv_contents i s' = drop ?c (rcv_contents i s)"
    using first' by (simp add: rcv_contents_def ring_bytes_drop ring_bytes_mod) (simp add: k' e' ring_bytes_mod)
  moreover have "snd (recv_copy i c s) = ring_bytes (heap_mem s b) ?N ?f ?c"
    using ring_bytes_linear [of ?f ?c ?N] ring_bytes_wrap [of ?f ?N ?c "heap_mem s b"] N c1 c2
    by (auto simp: recv_copy_def Let_def cond b)
  ultimately show ?thesis
    using N(6) by (simp add: rcv_contents_def ring_bytes_take b)
qed


lemma recv_spec:
  assumes wf: "rcv_wf i s"
  shows "rcv_wf i (fst (recv i n s)) \<and>
    fst (snd (recv i n s)) = int (min (unat n) (length (rcv_contents i s))) \<and>
    snd (snd (recv i n s)) = take (unat n) (rcv_contents i s) \<and>
    rcv_contents i (fst (recv i n s)) = drop (unat n) (rcv_contents i s)"
proof -
  let ?k = "socks s i"
  have len: "length (rcv_contents i s) = unat (rcvBufEntries ?k)" by (simp add: rcv_contents_def)
  have st: "\<not> state ?k < TCP_STATE_ESTABLISHED" using wf by (simp add: rcv_wf_def Let_def not_less)
  show ?thesis
  proof (cases "rcvBufEntries ?k = 0 \<or> n = 0")
    case True
    then show ?thesis using st wf len by (auto simp: recv_def Let_def)
  next
    case False
    let ?c = "if rcvBufEntries ?k < n then rcvBufEntries ?k else n"
    have c: "unat ?c = min (unat n) (unat (rcvBufEntries ?k))" by (auto simp: word_less_nat_alt)
    obtain t out where t: "recv_copy i ?c s = (t, out)" by (cases "recv_copy i ?c s")
    have sp: "rcv_wf i t" "rcv_contents i t = drop (unat ?c) (rcv_contents i s)" "out = take (unat ?c) (rcv_contents i s)"
      using recv_copy_spec [OF wf, of ?c] c t by simp_all
    have td: "drop (unat ?c) (rcv_contents i s) = drop (unat n) (rcv_contents i s)"
      "take (unat ?c) (rcv_contents i s) = take (unat n) (rcv_contents i s)"
      using c len by (auto simp: min_def)
    obtain u where u: "recv i n s = (u, sint ?c, out)" "u = t \<or>
        (let a = sendPureAck i False t in u = a\<lparr>OurWindowReopened := OurWindowReopened a + 1\<rparr>)"
      using False st t by (auto simp: recv_def Let_def)
    have same: "rcv_wf i u = rcv_wf i t" "rcv_contents i u = rcv_contents i t"
      using u(2) sendPureAck_sock [of i False t] rcv_cong [of u i t] by (auto simp: Let_def)
    have "unat ?c \<le> 16384" using wf c by (auto simp: rcv_wf_def Let_def)
    then have "sint ?c = int (unat ?c)" by (intro sint_u16_small) simp
    then show ?thesis using sp same td u(1) c len by simp
  qed
qed

interpretation rcv: byte_pipe "\<lambda>(m, p, n). addToRcvBuf i m p n" "recv i" "\<lambda>(m, p, n). rdbytes m p (unat n)"
  "rcv_contents i" "rcv_room i" "rcv_wf i" for i :: nat
proof (unfold_locales, goal_cases)
  case (1 s d)
  then show ?case using addToRcvBuf_room [of i s] by (cases d) auto
next
  case (2 s d)
  then show ?case using addToRcvBuf_full [of i s] by (cases d) auto
next
  case (3 s n)
  then show ?case by (rule recv_spec)
qed


section \<open>Properties\<close>

text \<open>A connected socket with an empty 512-byte receive buffer whose ring is about to wrap.\<close>

definition demo_recv :: tcp_state where
  "demo_recv = upd_sock 0 (\<lambda>k. k\<lparr>state := TCP_STATE_ESTABLISHED, rcvBuffer := Some 0, rcvBufSize := 512,
     rcvBufFirst := 510, rcvBufLast := 510\<rparr>) zero_tcp_state"

lemma demo_recv_wf: "rcv_wf 0 demo_recv" and demo_recv_empty: "rcv_contents 0 demo_recv = []"
  by (simp_all add: demo_recv_def rcv_wf_def rcv_contents_def ring_bytes_def zero_socket_def zero_state)

text \<open>
  C5. Whatever is offered to the receive buffer of an open socket and however it is read, the
  bytes read so far followed by the bytes stored are the bytes stored at the start followed by
  the data accepted: nothing is lost, duplicated or reordered, also across the wrap of the ring.
\<close>

theorem receive_stream_in_order:
  assumes "rcv_wf i s"
    and "pipe_run (\<lambda>(m, p, n). addToRcvBuf i m p n) (recv i) (\<lambda>(m, p, n). rdbytes m p (unat n)) s ops =
      (t, accepted, out)"
  shows "rcv_wf i t \<and> rcv_contents i s @ accepted = out @ rcv_contents i t"
  using assms by (rule rcv.in_order)

theorem receive_stream_in_order_witness:
  "let r = pipe_run (\<lambda>(m, p, n). addToRcvBuf 0 m p n) (recv 0) (\<lambda>(m, p, n). rdbytes m p (unat n)) demo_recv
       [Offer (\<lambda>i. of_nat i, 65, 5), Read 3, Offer (\<lambda>i. of_nat i, 80, 500), Read 400]
   in fst (snd r) = snd (snd r) @ rcv_contents 0 (fst r)"
proof -
  let ?r = "pipe_run (\<lambda>(m, p, n). addToRcvBuf 0 m p n) (recv 0) (\<lambda>(m, p, n). rdbytes m p (unat n)) demo_recv
       [Offer (\<lambda>i. of_nat i, 65, 5), Read 3, Offer (\<lambda>i. of_nat i, 80, 500), Read 400]"
  have "?r = (fst ?r, fst (snd ?r), snd (snd ?r))" by simp
  from receive_stream_in_order [OF demo_recv_wf this] show ?thesis by (simp add: demo_recv_empty Let_def)
qed

text \<open>
  \<open>recv\<close> on an open socket returns the oldest bytes, as many as there are and fit, with
  their number as the result, and removes exactly those; before the connection is established
  it returns the bad-state code and changes nothing.  \<open>addToRcvBuf\<close> stores all of the data or,
  when it does not fit, none of it.
\<close>

lemma recv_and_addToRcvBuf_results:
  assumes "rcv_wf i s"
  shows "(case recv i n s of (s', rc, out) \<Rightarrow>
        out = take (unat n) (rcv_contents i s) \<and> rc = int (length out) \<and>
        rcv_contents i s' = drop (unat n) (rcv_contents i s)) \<and>
    (case addToRcvBuf i m p l s of (s', rc) \<Rightarrow>
        if length (rcv_contents i s) + unat l \<le> unat (rcvBufSize (socks s i))
        then rc = 0 \<and> rcv_contents i s' = rcv_contents i s @ rdbytes m p (unat l)
        else rc = -1 \<and> s' = s) \<and>
    recv i n (upd_sock i (\<lambda>k. k\<lparr>state := TCP_STATE_SYN_SENT\<rparr>) s) =
      (upd_sock i (\<lambda>k. k\<lparr>state := TCP_STATE_SYN_SENT\<rparr>) s, -6, [])"
proof (intro conjI)
  let ?u = "upd_sock i (\<lambda>k. k\<lparr>state := TCP_STATE_SYN_SENT\<rparr>) s"
  show "case recv i n s of (s', rc, out) \<Rightarrow>
        out = take (unat n) (rcv_contents i s) \<and> rc = int (length out) \<and>
        rcv_contents i s' = drop (unat n) (rcv_contents i s)"
    using recv_spec [OF assms, of n] by (auto simp: split_beta min.commute)
  have "length (rcv_contents i s) + unat l \<le> unat (rcvBufSize (socks s i)) \<longleftrightarrow> unat l \<le> rcv_room i s"
    using assms by (auto simp: rcv_contents_def rcv_room_def rcv_wf_def Let_def)
  then show "case addToRcvBuf i m p l s of (s', rc) \<Rightarrow>
        if length (rcv_contents i s) + unat l \<le> unat (rcvBufSize (socks s i))
        then rc = 0 \<and> rcv_contents i s' = rcv_contents i s @ rdbytes m p (unat l)
        else rc = -1 \<and> s' = s"
    using addToRcvBuf_room [OF assms, of l m p] addToRcvBuf_full [OF assms, of l m p]
    by (auto simp: split_beta)
  show "recv i n ?u = (?u, -6, [])"
    by (simp add: recv_def Let_def cfg_defs less_TcpState_def)
qed

end
