(* ===== verification/TcpAcks.thy ===== *)
theory TcpAcks
  imports TcpRecv
begin

text \<open>
  Acknowledgements: which acknowledgement numbers \<open>process2\<close> accepts, which segments
  \<open>removeSentPackets\<close> takes as acknowledged, compared with arithmetic modulo \<open>2 ^ 32\<close>, what it
  does to the queue and the buffer pool, and the bounds of the round-trip estimate.
\<close>

unbundle bit_operations_syntax

section \<open>Sequence number arithmetic\<close>

lemma unat_sub_wrap: "unat (a - b :: u32) = (if b \<le> a then unat a - unat b else unat a + 4294967296 - unat b)"
  using unat_sub_if' [of a b] u32_bound [of a] u32_bound [of b] by (auto simp: word_le_nat_alt)

lemma seg_acked_iff:
  "seg_acked p target oldest \<longleftrightarrow> p - oldest < target - oldest \<or> p < oldest \<and> oldest \<le> target"
  using u32_bound [of p] u32_bound [of target] u32_bound [of oldest]
  by (auto simp: seg_acked_def word_less_nat_alt word_le_nat_alt unat_sub_wrap)

lemma ack_proper_iff:
  "ack_proper k g \<longleftrightarrow> isAckSet g \<and>
     (sg_ack g - oldestUnackedSeq k \<le> seqNum k - oldestUnackedSeq k \<or> oldestUnackedSeq k = seqNum k)"
  using u32_bound [of "sg_ack g"] u32_bound [of "seqNum k"] u32_bound [of "oldestUnackedSeq k"]
  by (auto simp: ack_proper_def word_less_nat_alt word_le_nat_alt unat_sub_wrap word_unat_eq_iff)


section \<open>Removing acknowledged segments\<close>

text \<open>The buffers in the transmit pool, oldest first.\<close>

definition xmit_free :: "'a tcp_state_scheme \<Rightarrow> bref list" where
  "xmit_free s = map (xmitBuffers s) [0..<unat (freeXmitBuffers s)]"

definition pooled :: "'a tcp_state_scheme \<Rightarrow> bref \<Rightarrow> bool" where
  "pooled s b \<longleftrightarrow> b_bufferPool (tbuf s b) \<noteq> 0"

lemma returnXmitBuf_frame [simp]:
  "tbuf (returnXmitBuf b s) = tbuf s" "Pending_Sent (returnXmitBuf b s) = Pending_Sent s"
  "Pending_Outgoing (returnXmitBuf b s) = Pending_Outgoing s"
  by (simp_all add: returnXmitBuf_def)

lemma xmit_free_return:
  "unat (freeXmitBuffers s) < 255 \<Longrightarrow>
     xmit_free (returnXmitBuf b s) = xmit_free s @ (if pooled s b then [b] else [])"
  by (simp add: xmit_free_def returnXmitBuf_def pooled_def u8_Suc)

lemma length_xmit_free: "length (xmit_free s) = unat (freeXmitBuffers s)"
  by (simp add: xmit_free_def)

lemma xmit_free_cong:
  "xmitBuffers s' = xmitBuffers s \<Longrightarrow> freeXmitBuffers s' = freeXmitBuffers s \<Longrightarrow> xmit_free s' = xmit_free s"
  by (simp add: xmit_free_def)

definition acked :: "nat \<Rightarrow> u32 \<Rightarrow> 'a tcp_state_scheme \<Rightarrow> bref \<Rightarrow> bool" where
  "acked i target s p = seg_acked (b_seqNum (tbuf s p)) target (oldestUnackedSeq (socks s i))"

lemma srtt_update_frame [simp]:
  "oldestUnackedSeq (srtt_update a b k) = oldestUnackedSeq k" "seqNum (srtt_update a b k) = seqNum k"
  "state (srtt_update a b k) = state k" "ackNum (srtt_update a b k) = ackNum k"
  "outgoing (srtt_update a b k) = outgoing k"
  by (simp_all add: srtt_update_def Let_def)

lemma remove_step_cons:
  assumes "rb_wf (sent (socks s i))" and "rb_list (sent (socks s i)) = p # ps" and "acked i target s p"
    and "unat (freeXmitBuffers s) < 255"
  shows "\<not> snd (remove_step i target s)" and "rb_wf (sent (socks (fst (remove_step i target s)) i))"
    and "rb_list (sent (socks (fst (remove_step i target s)) i)) = ps"
    and "oldestUnackedSeq (socks (fst (remove_step i target s)) i) = oldestUnackedSeq (socks s i)"
    and "seqNum (socks (fst (remove_step i target s)) i) = seqNum (socks s i)"
    and "tbuf (fst (remove_step i target s)) = tbuf s"
    and "Pending_Sent (fst (remove_step i target s)) = Pending_Sent s - 1"
    and "xmit_free (fst (remove_step i target s)) = xmit_free s @ (if pooled s p then [p] else [])"
proof -
  have pk: "rb_peek (sent (socks s i)) = Some p" using rb.peek_some [OF assms(1,2)] .
  have a: "seg_acked (b_seqNum (tbuf s p)) target (oldestUnackedSeq (socks s i))"
    using assms(3) by (simp add: acked_def)
  obtain t where e: "remove_step i target s = (returnXmitBuf p t, False)"
    and t: "socks t i = (if b_attempts (tbuf s p) = 1
          then srtt_update (b_timeSent (tbuf s p)) (Timer_CurrentTicks s) (socks s i) else socks s i)
        \<lparr>sent := fst (rb_dequeue (sent (socks s i)))\<rparr>"
      "tbuf t = tbuf s" "Pending_Sent t = Pending_Sent s - 1"
      "xmitBuffers t = xmitBuffers s" "freeXmitBuffers t = freeXmitBuffers s"
    by (simp add: remove_step_def pk a Let_def) (simp add: upd_sock_def)
  note d = rb.deq_some [OF assms(1,2)]
  show "\<not> snd (remove_step i target s)" "rb_wf (sent (socks (fst (remove_step i target s)) i))"
    "rb_list (sent (socks (fst (remove_step i target s)) i)) = ps"
    "oldestUnackedSeq (socks (fst (remove_step i target s)) i) = oldestUnackedSeq (socks s i)"
    "seqNum (socks (fst (remove_step i target s)) i) = seqNum (socks s i)"
    "tbuf (fst (remove_step i target s)) = tbuf s"
    "Pending_Sent (fst (remove_step i target s)) = Pending_Sent s - 1"
    using d by (simp_all add: e t)
  show "xmit_free (fst (remove_step i target s)) = xmit_free s @ (if pooled s p then [p] else [])"
    using xmit_free_return [of t p] assms(4) xmit_free_cong [OF t(4,5)] by (simp add: e t pooled_def)
qed

lemma remove_step_stop:
  assumes "rb_wf (sent (socks s i))"
    and "rb_list (sent (socks s i)) = [] \<or> \<not> acked i target s (hd (rb_list (sent (socks s i))))"
  shows "remove_step i target s = (upd_sock i (\<lambda>k. k\<lparr>oldestUnackedSeq :=
      (case rb_list (sent (socks s i)) of [] \<Rightarrow> seqNum (socks s i)
       | p # _ \<Rightarrow> ntohl (tcp_seqnum (b_tcp (tbuf s p))))\<rparr>) s, True)"
  using assms rb.peek_result [OF assms(1)]
  by (auto simp: remove_step_def Let_def acked_def upd_sock_def split: list.splits)

text \<open>What \<open>removeSentPackets\<close> leaves, when the queue is \<open>xs\<close>.\<close>

definition removed :: "nat \<Rightarrow> u32 \<Rightarrow> bref list \<Rightarrow> 'a tcp_state_scheme \<Rightarrow> 'a tcp_state_scheme \<Rightarrow> bool" where
  "removed i target xs s s' \<longleftrightarrow>
     rb_wf (sent (socks s' i)) \<and> rb_list (sent (socks s' i)) = dropWhile (acked i target s) xs \<and>
     oldestUnackedSeq (socks s' i) = (case dropWhile (acked i target s) xs of [] \<Rightarrow> seqNum (socks s i)
       | p # _ \<Rightarrow> ntohl (tcp_seqnum (b_tcp (tbuf s p)))) \<and>
     tbuf s' = tbuf s \<and>
     Pending_Sent s' = Pending_Sent s - of_nat (length (takeWhile (acked i target s) xs)) \<and>
     xmit_free s' = xmit_free s @ filter (pooled s) (takeWhile (acked i target s) xs)"

lemma removeSentPackets_removed:
  "rb_wf (sent (socks s i)) \<Longrightarrow> rb_list (sent (socks s i)) = xs \<Longrightarrow> length (xmit_free s) + length xs \<le> 255 \<Longrightarrow>
     removed i target xs s (removeSentPackets i target s)"
proof (induction xs arbitrary: s)
  case Nil
  have "removeSentPackets i target s = upd_sock i (\<lambda>k. k\<lparr>oldestUnackedSeq := seqNum (socks s i)\<rparr>) s"
    using remove_step_stop [of s i target] Nil by (subst removeSentPackets.simps) simp
  then show ?case using Nil by (simp add: removed_def) (simp add: upd_sock_def xmit_free_def)
next
  case (Cons p ps)
  show ?case
  proof (cases "acked i target s p")
    case False
    have "removeSentPackets i target s = upd_sock i (\<lambda>k. k\<lparr>oldestUnackedSeq := ntohl (tcp_seqnum (b_tcp (tbuf s p)))\<rparr>) s"
      using remove_step_stop [of s i target] Cons.prems False by (subst removeSentPackets.simps) simp
    then show ?thesis using Cons.prems False by (simp add: removed_def) (simp add: upd_sock_def xmit_free_def)
  next
    case True
    let ?u = "fst (remove_step i target s)"
    have "unat (freeXmitBuffers s) < 255" using Cons.prems(3) by (simp add: length_xmit_free)
    note c = remove_step_cons [OF Cons.prems(1,2) True this]
    have fn: "acked i target ?u = acked i target s" "pooled ?u = pooled s"
      by (rule ext, simp add: acked_def pooled_def c(4,6))+
    have "length (xmit_free ?u) + length ps \<le> 255" using Cons.prems(3) by (simp add: c(8))
    from Cons.IH [OF c(2,3) this] have IH: "removed i target ps ?u (removeSentPackets i target s)"
      using c(1) by (subst removeSentPackets.simps) simp
    then show ?thesis
      using True by (cases "dropWhile (acked i target s) ps") (simp_all add: removed_def fn c(5-8) del: dropWhile_eq_Nil_conv)
  qed
qed

section \<open>The round-trip estimate\<close>

lemma u16_mult_small: "unat (x :: u16) * 4 < 65536 \<Longrightarrow> unat (push_bit 2 x) = unat x * 4"
  by (simp add: push_bit_eq_mult unat_word_ariths)

lemma srtt_update_bounds:
  fixes k t0 t1
  defines "k' \<equiv> srtt_update t0 t1 k"
  shows "1 \<le> unat (SRTT k') \<and> unat (SRTT k') \<le> 181 \<and> unat (RTT_deviation k') \<le> 6553"
proof -
  have "unat (x div 10) \<le> 6553" for x :: u16
    using u16_bound [of x] by (simp add: unat_div)
  then show ?thesis
    by (auto simp: k'_def srtt_update_def Let_def cfg_defs word_less_nat_alt not_less unat_gt_0
        Suc_le_eq)
qed

lemma retrans_ticks_value:
  assumes "unat (SRTT k) \<le> 181" and "unat (RTT_deviation k) \<le> 6553"
  shows "unat (retrans_ticks k) = unat (SRTT k) + 4 * unat (RTT_deviation k) + 2"
proof -
  have "unat (push_bit 2 (RTT_deviation k)) = unat (RTT_deviation k) * 4"
    by (rule u16_mult_small) (use assms in simp)
  moreover have "unat (SRTT k + push_bit 2 (RTT_deviation k)) = unat (SRTT k) + unat (push_bit 2 (RTT_deviation k))"
    by (rule u16_add) (use assms calculation in simp)
  ultimately show ?thesis
    using assms by (simp add: retrans_ticks_def unat_word_ariths)
qed


definition rtt_ok :: "TcpSocket \<Rightarrow> bool" where
  "rtt_ok k \<longleftrightarrow> 1 \<le> unat (SRTT k) \<and> unat (SRTT k) \<le> 181 \<and> unat (RTT_deviation k) \<le> 6553"

lemma resendPacket_sock [simp]: "socks (resendPacket i b s) = socks s"
  by (simp add: resendPacket_def Let_def split_beta)

lemma drive_retransmit_sock:
  "socks (drive_retransmit i p s) i = (socks s i)\<lparr>SRTT :=
     (if TCP_MAX_SRTT < push_bit 1 (SRTT (socks s i)) then TCP_MAX_SRTT else push_bit 1 (SRTT (socks s i)))\<rparr>"
  by (simp add: drive_retransmit_def Let_def)

lemma drive_retransmit_SRTT:
  assumes "rtt_ok (socks s i)"
  shows "unat (SRTT (socks (drive_retransmit i p s) i)) = min 181 (2 * unat (SRTT (socks s i)))"
proof -
  have "unat (push_bit 1 (SRTT (socks s i))) = 2 * unat (SRTT (socks s i))"
    using assms by (simp add: rtt_ok_def push_bit_eq_mult unat_word_ariths)
  then show ?thesis by (simp add: drive_retransmit_sock cfg_defs word_less_nat_alt min_def)
qed

section \<open>Properties\<close>

text \<open>
  C9. The acknowledgement check of \<open>process2\<close> accepts exactly the numbers from the oldest
  unacknowledged sequence number to the next one to send, modulo \<open>2 ^ 32\<close> - and, when nothing
  is unacknowledged, every number whatever.
\<close>

theorem ack_check_exact:
  "ack_proper k g \<longleftrightarrow> isAckSet g \<and>
     (sg_ack g - oldestUnackedSeq k \<le> seqNum k - oldestUnackedSeq k \<or> oldestUnackedSeq k = seqNum k)"
  by (rule ack_proper_iff)

text \<open>
  C10. \<open>removeSentPackets\<close> takes from the head of the sent queue the longest run of segments it
  counts as acknowledged, returns their pool buffers, lowers the pending count by their number
  and sets the oldest unacknowledged number to the first segment left, or to the next sequence
  number.  A segment counts as acknowledged when its last byte precedes the acknowledgement
  modulo \<open>2 ^ 32\<close> and also, wrongly, when it lies beyond the wrap of the sequence numbers and the
  acknowledgement does not.
\<close>

theorem removeSentPackets_takes_acked:
  assumes "rb_wf (sent (socks s i))" and "length (xmit_free s) + length (rb_list (sent (socks s i))) \<le> 255"
    and "s' = removeSentPackets i target s" and "xs = rb_list (sent (socks s i))"
    and "un = oldestUnackedSeq (socks s i)"
    and "done = (\<lambda>p. let e = b_seqNum (tbuf s p) in e - un < target - un \<or> e < un \<and> un \<le> target)"
  shows "rb_wf (sent (socks s' i)) \<and> rb_list (sent (socks s' i)) = dropWhile done xs \<and>
    xmit_free s' = xmit_free s @ filter (\<lambda>p. b_bufferPool (tbuf s p) \<noteq> 0) (takeWhile done xs) \<and>
    Pending_Sent s' = Pending_Sent s - of_nat (length (takeWhile done xs)) \<and>
    oldestUnackedSeq (socks s' i) = (case dropWhile done xs of [] \<Rightarrow> seqNum (socks s i)
      | p # _ \<Rightarrow> ntohl (tcp_seqnum (b_tcp (tbuf s p))))"
proof -
  have "done = acked i target s"
    by (rule ext) (simp add: assms(5,6) acked_def seg_acked_iff Let_def)
  moreover have "pooled s = (\<lambda>p. b_bufferPool (tbuf s p) \<noteq> 0)" by (rule ext) (simp add: pooled_def)
  ultimately show ?thesis
    using removeSentPackets_removed [OF assms(1) refl assms(2), of target] by (simp add: removed_def assms(3,4))
qed

text \<open>Two segments in flight, the second beyond the wrap; the acknowledgement covers only the first.\<close>

definition demo_wrap :: tcp_state where
  "demo_wrap = upd_sock 0 (\<lambda>k. k\<lparr>state := TCP_STATE_ESTABLISHED, oldestUnackedSeq := 0xFFFFFF00, seqNum := 0x80,
       sent := \<lparr>rb_first = 0, rb_next = 2, rb_entries = 2, rb_ring = (\<lambda>i. Some (XmitBuffer (i + 2)))\<rparr>\<rparr>)
     (upd_buf (XmitBuffer 2) (\<lambda>b. b\<lparr>b_bufferPool := 1, b_seqNum := 0xFFFFFF7F\<rparr>)
       (upd_buf (XmitBuffer 3) (\<lambda>b. b\<lparr>b_bufferPool := 1, b_seqNum := 0x7F\<rparr>) zero_tcp_state))"

lemma demo_wrap_simps:
  "rb_wf (sent (socks demo_wrap 0))" "rb_list (sent (socks demo_wrap 0)) = [XmitBuffer 2, XmitBuffer 3]"
  "xmit_free demo_wrap = []" "oldestUnackedSeq (socks demo_wrap 0) = 0xFFFFFF00"
  "b_seqNum (tbuf demo_wrap (XmitBuffer 2)) = 0xFFFFFF7F" "b_seqNum (tbuf demo_wrap (XmitBuffer 3)) = 0x7F"
  "seqNum (socks demo_wrap 0) = 0x80"
  by (simp_all add: demo_wrap_def rb_wf_def rb_list_def rb_slot_def xmit_free_def upd_sock_def upd_buf_def
      zero_state upt_rec)

theorem removeSentPackets_takes_acked_witness:
  "rb_list (sent (socks (removeSentPackets 0 0xFFFFFF80 demo_wrap) 0)) = [] \<and>
   oldestUnackedSeq (socks (removeSentPackets 0 0xFFFFFF80 demo_wrap) 0) = 0x80"
proof -
  have "length (xmit_free demo_wrap) + length (rb_list (sent (socks demo_wrap 0))) \<le> 255"
    by (simp add: demo_wrap_simps)
  from removeSentPackets_takes_acked [where target = "0xFFFFFF80", OF demo_wrap_simps(1) this refl refl refl refl]
  show ?thesis by (simp add: demo_wrap_simps Let_def)
qed

text \<open>
  C11. The smoothed round-trip time stays between 1 and 181 ticks and its deviation below 6554,
  through every measured round trip and every doubling by a retransmission, so the retransmission
  timeout is their 16-bit sum without wrapping: between 3 and 26395 ticks.
\<close>

theorem retransmission_timeout_bounded:
  assumes "rtt_ok (socks s i)"
  shows "rtt_ok (srtt_update t0 t1 k) \<and> rtt_ok (socks (drive_retransmit i p s) i) \<and>
    unat (SRTT (socks (drive_retransmit i p s) i)) = min 181 (2 * unat (SRTT (socks s i))) \<and>
    unat (retrans_ticks (socks s i)) = unat (SRTT (socks s i)) + 4 * unat (RTT_deviation (socks s i)) + 2 \<and>
    unat (retrans_ticks (socks s i)) \<le> 26395"
proof -
  have "unat (retrans_ticks (socks s i)) = unat (SRTT (socks s i)) + 4 * unat (RTT_deviation (socks s i)) + 2"
    using assms by (intro retrans_ticks_value) (simp_all add: rtt_ok_def)
  moreover have "RTT_deviation (socks (drive_retransmit i p s) i) = RTT_deviation (socks s i)"
    by (simp add: drive_retransmit_sock)
  ultimately show ?thesis
    using assms srtt_update_bounds [of t0 t1 k] drive_retransmit_SRTT [OF assms, of p]
    by (auto simp: rtt_ok_def)
qed

theorem retransmission_timeout_bounded_witness:
  "unat (retrans_ticks (zero_socket\<lparr>SRTT := 181, RTT_deviation := 6553\<rparr>)) = 26395"
proof -
  let ?s = "upd_sock 0 (\<lambda>_. zero_socket\<lparr>SRTT := 181, RTT_deviation := 6553\<rparr>) zero_tcp_state"
  have "rtt_ok (socks ?s 0)" by (simp add: rtt_ok_def)
  from retransmission_timeout_bounded [OF this] show ?thesis by simp
qed

end
