(* ===== verification/TcpStates.thy ===== *)
theory TcpStates
  imports TcpAcks
begin

text \<open>
  The connection state machine: what an incoming segment, a local close and a sent segment do
  to the state and to the acknowledgement number of a socket, on every branch of \<open>process2\<close>.
\<close>

unbundle bit_operations_syntax

section \<open>What the helpers leave alone\<close>

text \<open>The part of a socket that decides about incoming segments.\<close>

definition sk_core :: "TcpSocket \<Rightarrow> TcpState \<times> u32 \<times> bool \<times> nat option \<times> u16 \<times> u16 \<times> bool" where
  "sk_core k = (state k, ackNum k, disableReads k, rcvBuffer k, rcvBufSize k, rcvBufEntries k, pendingAccept k)"

lemma sk_coreD:
  "sk_core k' = sk_core k \<Longrightarrow> state k' = state k \<and> ackNum k' = ackNum k \<and> disableReads k' = disableReads k \<and>
     rcvBuffer k' = rcvBuffer k \<and> rcvBufSize k' = rcvBufSize k \<and> rcvBufEntries k' = rcvBufEntries k \<and>
     pendingAccept k' = pendingAccept k"
  by (simp add: sk_core_def)

lemma Buffer_free_socks [simp]: "socks (Buffer_free b s) = socks s" "tbuf (Buffer_free b s) = tbuf s"
  by (simp_all add: Buffer_free_def freeBigPacket_def)

lemma free_socks [simp]: "socks (free p s) = socks s"
  by (simp add: free_def)

lemma freeSocket_socks [simp]: "socks (fst (freeSocket i s)) = socks s"
  by (simp add: freeSocket_def)

lemma makeInactive_socks [simp]: "socks (makeInactive i s) = socks s"
  by (simp add: makeInactive_def Let_def split: option.split)

lemma sendResetPacket_socks [simp]: "socks (sendResetPacket ip tcp n s) = socks s"
proof -
  have *: "socks t = socks (fst (setDestEth d t))" for d and t :: "'b tcp_state_scheme" by simp
  show ?thesis
    by (auto simp: sendResetPacket_def Let_def split_beta split: option.split)
qed

lemma drain_keeps: "(\<And>b t. f (put b t) = f t) \<Longrightarrow> f (fst (drain put r s)) = f s"
proof (induction put r s rule: drain.induct)
  case (1 put r s)
  then show ?case by (subst drain.simps) (auto split: option.split)
qed

lemma clearQueues_sock:
  "\<exists>out snt inc. socks (clearQueues i s) = (socks s)(i := (socks s i)\<lparr>outgoing := out, sent := snt, incoming := inc\<rparr>)"
proof -
  have d: "socks (fst (drain returnXmitBuf r t)) = socks t" "socks (fst (drain Buffer_free q t)) = socks t"
    for r q and t :: "'a tcp_state_scheme"
    by (rule drain_keeps, simp)+
  show ?thesis by (simp add: clearQueues_def Let_def split_beta d) blast
qed

lemma clearQueues_core [simp]: "sk_core (socks (clearQueues i s) j) = sk_core (socks s j)"
  "seqNum (socks (clearQueues i s) j) = seqNum (socks s j)"
  using clearQueues_sock [of i s] by (auto simp: sk_core_def split: if_splits)

lemma destroy_state [simp]: "state (socks (destroy i s) i) = TCP_STATE_CLOSED"
  "ackNum (socks (destroy i s) i) = ackNum (socks s i)"
  using sk_coreD [OF clearQueues_core(1) [of i s i]]
  by (auto simp: destroy_def Let_def split: option.split)

lemma enqueue_core [simp]: "sk_core (socks (fst (enqueue i b s)) j) = sk_core (socks s j)"
  "seqNum (socks (fst (enqueue i b s)) j) = seqNum (socks s j)"
  by (auto simp: enqueue_def drop_queued_ack_def Let_def split_beta sk_core_def split: option.split)

lemma remove_step_core: "sk_core (socks (fst (remove_step i t s)) j) = sk_core (socks s j)"
  "seqNum (socks (fst (remove_step i t s)) j) = seqNum (socks s j)"
  by (auto simp: remove_step_def Let_def sk_core_def srtt_update_def split: option.split)

lemma removeSentPackets_core [simp]: "sk_core (socks (removeSentPackets i t s) j) = sk_core (socks s j) \<and>
   seqNum (socks (removeSentPackets i t s) j) = seqNum (socks s j)"
proof (induction i t s rule: removeSentPackets.induct)
  case (1 i t s)
  then show ?case by (subst (1 2) removeSentPackets.simps) (auto simp: remove_step_core)
qed

lemma setMaxEnqueueSize_core: "setMaxEnqueueSize i m p s = Some s' \<Longrightarrow> sk_core (socks s' j) = sk_core (socks s j)"
  by (auto simp: setMaxEnqueueSize_def sk_core_def split: option.splits if_splits)

lemma p2_tail_core [simp]: "sk_core (socks (p2_tail i b gen fr s) j) = sk_core (socks s j)"
  by (auto simp: p2_tail_def Let_def)

lemma sendPureAck_core: "sk_core (socks (sendPureAck i p s) i) = sk_core (socks s i)"
  using sk_rest_fields [OF sendPureAck_sock(1) [of i p s]] sendPureAck_sock(2) [of i p s]
  by (simp add: sk_core_def)

section \<open>The next state of a connection\<close>

text \<open>Data that cannot be stored: the segment is dropped although its numbers are right.\<close>

definition undeliverable :: "TcpSocket \<Rightarrow> u16 \<Rightarrow> bool" where
  "undeliverable k n \<longleftrightarrow> n \<noteq> 0 \<and> \<not> disableReads k \<and>
     (if rcvBuffer k = None then \<not> rb_hasRoom (incoming k) else rcvBufSize k - rcvBufEntries k < n)"

definition taken :: "TcpSocket \<Rightarrow> seg \<Rightarrow> bool" where
  "taken k g \<longleftrightarrow> ack_proper k g \<and> seq_proper k g \<and> \<not> undeliverable k (sg_len g)"

definition fin_taken :: "TcpSocket \<Rightarrow> seg \<Rightarrow> bool" where
  "fin_taken k g \<longleftrightarrow> isFinSet g \<and> state k \<in> {TCP_STATE_ESTABLISHED, TCP_STATE_SEND_FIN1,
     TCP_STATE_FIN_WAIT_1, TCP_STATE_FIN_WAIT_2}"

fun switch_state :: "TcpState \<Rightarrow> bool \<Rightarrow> bool \<Rightarrow> TcpState" where
  "switch_state TCP_STATE_ESTABLISHED fin cur = (if fin then TCP_STATE_CLOSE_WAIT else TCP_STATE_ESTABLISHED)"
| "switch_state TCP_STATE_SEND_FIN1 fin cur = (if fin then TCP_STATE_SEND_FIN2 else TCP_STATE_SEND_FIN1)"
| "switch_state TCP_STATE_SYN_RECVED fin cur = (if cur then TCP_STATE_ESTABLISHED else TCP_STATE_SYN_RECVED)"
| "switch_state TCP_STATE_LAST_ACK fin cur = TCP_STATE_CLOSED"
| "switch_state TCP_STATE_FIN_WAIT_1 fin cur =
     (if fin then (if cur then TCP_STATE_TIME_WAIT else TCP_STATE_CLOSING)
      else if cur then TCP_STATE_FIN_WAIT_2 else TCP_STATE_FIN_WAIT_1)"
| "switch_state TCP_STATE_FIN_WAIT_2 fin cur = (if fin then TCP_STATE_TIME_WAIT else TCP_STATE_FIN_WAIT_2)"
| "switch_state TCP_STATE_CLOSING fin cur = (if cur then TCP_STATE_TIME_WAIT else TCP_STATE_CLOSING)"
| "switch_state st fin cur = st"

definition next_state :: "TcpSocket \<Rightarrow> seg \<Rightarrow> TcpState" where
  "next_state k g =
     (if state k = TCP_STATE_SYN_SENT then
        (if isRstSet g then (if sg_ackIsCurrent g then TCP_STATE_CLOSED else TCP_STATE_SYN_SENT)
         else if isSynSet g \<and> \<not> isAckSet g then TCP_STATE_SYN_RECVED
         else if isSynSet g \<and> sg_ackIsCurrent g then TCP_STATE_ESTABLISHED
         else TCP_STATE_SYN_SENT)
      else if isRstSet g then (if seq_proper k g then TCP_STATE_CLOSED else state k)
      else if taken k g then switch_state (state k) (isFinSet g) (sg_ackIsCurrent g)
      else state k)"

definition next_ack :: "TcpSocket \<Rightarrow> seg \<Rightarrow> u32" where
  "next_ack k g =
     (if state k = TCP_STATE_SYN_SENT then
        (if \<not> isRstSet g \<and> isSynSet g \<and> (\<not> isAckSet g \<or> sg_ackIsCurrent g) then sg_seq g + 1 else ackNum k)
      else if \<not> isRstSet g \<and> taken k g
      then ackNum k + ucast (sg_len g) + (if fin_taken k g then 1 else 0)
      else ackNum k)"

lemma removeSentPackets_rest:
  "incoming (socks (removeSentPackets i t s) j) = incoming (socks s j) \<and>
   pkt_mem (removeSentPackets i t s) = pkt_mem s"
proof (induction i t s rule: removeSentPackets.induct)
  case (1 i t s)
  have *: "incoming (socks (fst (remove_step i t s)) j) = incoming (socks s j)"
    "pkt_mem (fst (remove_step i t s)) = pkt_mem s"
    by (auto simp: remove_step_def Let_def srtt_update_def returnXmitBuf_def upd_sock_def split: option.split)
  show ?case
    using 1 * by (subst (1 2) removeSentPackets.simps) auto
qed

lemma upd_sock_pkt_mem [simp]: "pkt_mem (upd_sock i f s) = pkt_mem s"
  by (simp add: upd_sock_def)

lemma p2_accept_keeps:
  "sk_core (socks (p2_accept i g s) i) = sk_core (socks s i)"
  "incoming (socks (p2_accept i g s) i) = incoming (socks s i)"
  "seqNum (socks (p2_accept i g s) i) = seqNum (socks s i)"
  "pkt_mem (p2_accept i g s) = pkt_mem s"
  by (simp_all add: p2_accept_def Let_def removeSentPackets_rest removeSentPackets_core [THEN conjunct2]
        sk_coreD [OF removeSentPackets_core [THEN conjunct1]] sk_core_def)

lemma addToRcvBuf_dead:
  "snd (addToRcvBuf i m d n s) = (if rcvBufSize (socks s i) - rcvBufEntries (socks s i) < n then -1 else 0)"
  "state (socks (fst (addToRcvBuf i m d n s)) j) = state (socks s j)"
  "ackNum (socks (fst (addToRcvBuf i m d n s)) j) = ackNum (socks s j)"
  "seqNum (socks (fst (addToRcvBuf i m d n s)) j) = seqNum (socks s j)"
  by (simp_all add: addToRcvBuf_def Let_def cfg_defs heap_write_def)

lemma processPacketData_result:
  assumes "n \<noteq> 0" and "payloadLen (pk_ip packet s) - ucast (getTcpHlen (pk_tcp packet s)) = n"
    and "processPacketData i n packet s = (s', fr, dead)"
  shows "dead = undeliverable (socks s i) n \<and> state (socks s' i) = state (socks s i) \<and>
     seqNum (socks s' i) = seqNum (socks s i) \<and>
     ackNum (socks s' i) = (if dead then ackNum (socks s i) else ackNum (socks s i) + ucast n)"
proof -
  note a = addToRcvBuf_dead [of i "pkt_mem s packet" "pk_tcp_off packet s + unat (getTcpHlen (pk_tcp packet s))" n s]
  show ?thesis
    using assms(1,3) a
    by (auto simp: processPacketData_def Let_def undeliverable_def assms(2) split_beta split: if_splits)
qed

lemma p2_switch_result:
  assumes "p2_switch i packet g gen s = (s', gen')"
  shows "state (socks s' i) = switch_state (state (socks s i)) (isFinSet g) (sg_ackIsCurrent g)"
    and "ackNum (socks s' i) = ackNum (socks s i) + (if fin_taken (socks s i) g then 1 else 0)"
proof -
  note c = sk_coreD [OF clearQueues_core(1) [of i s i]]
  show "state (socks s' i) = switch_state (state (socks s i)) (isFinSet g) (sg_ackIsCurrent g)"
    using assms c by (cases "state (socks s i)") (auto simp: p2_switch_def Let_def split: if_splits)
  show "ackNum (socks s' i) = ackNum (socks s i) + (if fin_taken (socks s i) g then 1 else 0)"
    using assms c
    by (cases "state (socks s i)") (auto simp: p2_switch_def Let_def fin_taken_def split: if_splits)
qed

lemma p2_good_result:
  assumes "sg_len g = incomingDataLen packet s" and "ack_proper (socks s i) g" and "seq_proper (socks s i) g"
  shows "state (socks (p2_good i packet g s) i) =
      (if taken (socks s i) g then switch_state (state (socks s i)) (isFinSet g) (sg_ackIsCurrent g)
       else state (socks s i))"
    and "ackNum (socks (p2_good i packet g s) i) =
      (if taken (socks s i) g then ackNum (socks s i) + ucast (sg_len g) + (if fin_taken (socks s i) g then 1 else 0)
       else ackNum (socks s i))"
proof -
  define t where "t = p2_accept i g s"
  have k: "sk_core (socks t i) = sk_core (socks s i)" "incoming (socks t i) = incoming (socks s i)"
    "pkt_mem t = pkt_mem s" by (simp_all add: t_def p2_accept_keeps)
  note c = sk_coreD [OF k(1)]
  obtain u fr dead where u: "(if sg_len g \<noteq> 0 then processPacketData i (sg_len g) packet t else (t, True, False)) = (u, fr, dead)"
    by (metis prod_cases3)
  have pl: "payloadLen (pk_ip packet t) - ucast (getTcpHlen (pk_tcp packet t)) = sg_len g"
    using assms(1) by (simp add: incomingDataLen_def pk_ip_def pk_tcp_def pk_tcp_off_def k(3))
  have un: "undeliverable (socks t i) n = undeliverable (socks s i) n" for n
    by (simp add: undeliverable_def c k(2))
  have r: "dead = undeliverable (socks s i) (sg_len g) \<and> state (socks u i) = state (socks s i) \<and>
     ackNum (socks u i) = (if dead then ackNum (socks s i) else ackNum (socks s i) + ucast (sg_len g))"
  proof (cases "sg_len g = 0")
    case True
    then show ?thesis using u c by (simp add: undeliverable_def)
  next
    case False
    then show ?thesis using u processPacketData_result [OF False pl, of i u fr dead] c un by simp
  qed
  have g: "p2_good i packet g s = (if dead then Buffer_free packet u
     else (let (s, gen) = p2_switch i packet g (sg_len g \<noteq> 0 \<and> rb_entries (outgoing (socks u i)) = 0) u
           in p2_tail i packet gen fr s))"
    by (simp only: p2_good_def Let_def t_def [symmetric] u split_conv)
  obtain v gen where v: "p2_switch i packet g (sg_len g \<noteq> 0 \<and> rb_entries (outgoing (socks u i)) = 0) u = (v, gen)"
    by (metis prod.exhaust)
  note sw = p2_switch_result [OF v]
  note tl = sk_coreD [OF p2_tail_core [of i packet gen fr v i]]
  have f: "fin_taken (socks u i) g = fin_taken (socks s i) g" using r by (simp add: fin_taken_def)
  show "state (socks (p2_good i packet g s) i) =
      (if taken (socks s i) g then switch_state (state (socks s i)) (isFinSet g) (sg_ackIsCurrent g)
       else state (socks s i))"
    using r sw tl assms(2,3) by (simp add: g v taken_def)
  show "ackNum (socks (p2_good i packet g s) i) =
      (if taken (socks s i) g then ackNum (socks s i) + ucast (sg_len g) + (if fin_taken (socks s i) g then 1 else 0)
       else ackNum (socks s i))"
    using r sw tl f assms(2,3) by (simp add: g v taken_def)
qed

text \<open>The reading of a segment does not depend on the socket's activity stamp.\<close>

lemma read_seg_touch [simp]: "read_seg packet i (upd_sock i (\<lambda>k. k\<lparr>lastActivity := t\<rparr>) s) = read_seg packet i s"
  by (simp add: read_seg_def Let_def pk_tcp_def pk_tcp_off_def pk_ip_def incomingDataLen_def)

lemma p2_error_state:
  "state (socks (p2_error i s) i) = state (socks s i)" "ackNum (socks (p2_error i s) i) = ackNum (socks s i)"
  using sk_coreD [OF sendPureAck_core [of i False s]] by (simp_all add: p2_error_def Let_def)

lemma p2_synchronized_result:
  assumes "sg_len g = incomingDataLen packet s" and "state (socks s i) \<noteq> TCP_STATE_SYN_SENT"
  shows "state (socks (p2_synchronized i packet g s) i) = next_state (socks s i) g"
    and "ackNum (socks (p2_synchronized i packet g s) i) = next_ack (socks s i) g"
  using p2_good_result [OF assms(1), of i] assms(2) p2_error_state [of i s]
    sk_coreD [OF p2_tail_core [of i packet False True _ i]]
  by (auto simp: p2_synchronized_def Let_def next_state_def next_ack_def taken_def)

lemma p2_synsent_result:
  assumes "p2_synsent i packet g s = Some (s', gen)" and "state (socks s i) = TCP_STATE_SYN_SENT"
    and "sg_ackIsCurrent g \<Longrightarrow> isAckSet g"
  shows "state (socks s' i) = next_state (socks s i) g" and "ackNum (socks s' i) = next_ack (socks s i) g"
  using assms
  by (auto simp: p2_synsent_def p2_synsent_synack_def p2_synsent_syn_def Let_def next_state_def next_ack_def
      sk_coreD [OF enqueue_core(1)] sk_coreD [OF clearQueues_core(1)]
      dest!: setMaxEnqueueSize_core [of i _ _ _ _ i, THEN sk_coreD] split: if_splits)

lemma touch_seg:
  "ack_proper (k\<lparr>lastActivity := t\<rparr>) g = ack_proper k g" "seq_proper (k\<lparr>lastActivity := t\<rparr>) g = seq_proper k g"
  "undeliverable (k\<lparr>lastActivity := t\<rparr>) n = undeliverable k n" "fin_taken (k\<lparr>lastActivity := t\<rparr>) g = fin_taken k g"
  by (simp_all add: ack_proper_def seq_proper_def undeliverable_def fin_taken_def)

lemma next_touch:
  "next_state (k\<lparr>lastActivity := t\<rparr>) g = next_state k g" "next_ack (k\<lparr>lastActivity := t\<rparr>) g = next_ack k g"
  by (simp_all add: next_state_def next_ack_def taken_def touch_seg cong: if_cong)

lemma process2_result:
  assumes "process2 packet i s = Some s'" and "state (socks s i) \<noteq> TCP_STATE_LISTEN"
  shows "state (socks s' i) = next_state (socks s i) (read_seg packet i s)"
    and "ackNum (socks s' i) = next_ack (socks s i) (read_seg packet i s)"
proof -
  define g where "g = read_seg packet i s"
  define t where "t = upd_sock i (\<lambda>k. k\<lparr>lastActivity := Timer_CurrentTicks s\<rparr>) s"
  have g: "sg_len g = incomingDataLen packet t" "sg_ackIsCurrent g \<Longrightarrow> isAckSet g"
    by (simp_all add: g_def t_def read_seg_def Let_def pk_tcp_def pk_tcp_off_def pk_ip_def incomingDataLen_def)
  have k: "socks t i = (socks s i)\<lparr>lastActivity := Timer_CurrentTicks s\<rparr>" by (simp add: t_def)
  have n: "next_state (socks t i) g = next_state (socks s i) g" "next_ack (socks t i) g = next_ack (socks s i) g"
    by (simp_all add: k next_touch)
  have gt: "read_seg packet i t = g" by (simp add: t_def g_def)
  have "state (socks t i) \<noteq> TCP_STATE_LISTEN" using assms(2) k by simp
  then have e: "process2 packet i s = (if state (socks t i) = TCP_STATE_SYN_SENT then
        map_option (\<lambda>(s, gen). p2_tail i packet gen True s) (p2_synsent i packet g t)
      else Some (p2_synchronized i packet g t))"
    by (simp only: process2_def Let_def t_def [symmetric] gt simp_thms if_False)
  have "state (socks s' i) = next_state (socks t i) g \<and> ackNum (socks s' i) = next_ack (socks t i) g"
  proof (cases "state (socks t i) = TCP_STATE_SYN_SENT")
    case True
    then obtain u gen where u: "p2_synsent i packet g t = Some (u, gen)" "s' = p2_tail i packet gen True u"
      using assms(1) e by auto
    then show ?thesis
      using p2_synsent_result [OF u(1) True g(2)] sk_coreD [OF p2_tail_core [of i packet gen True u i]] by simp
  next
    case False
    then show ?thesis using assms(1) e p2_synchronized_result [OF g(1) False] by simp
  qed
  then show "state (socks s' i) = next_state (socks s i) (read_seg packet i s)"
    "ackNum (socks s' i) = next_ack (socks s i) (read_seg packet i s)"
    by (simp_all add: n g_def [symmetric])
qed

section \<open>The life of a connection\<close>

text \<open>
  The edges of the state diagram that do not lead to \<open>TCP_STATE_CLOSED\<close>.  The three
  \<open>SEND_FIN\<close> states are this program's: a FIN is due but has not been sent.
\<close>

inductive tcp_edge :: "TcpState \<Rightarrow> TcpState \<Rightarrow> bool" where
  active_open: "tcp_edge TCP_STATE_CLOSED TCP_STATE_SYN_SENT"
| passive_open: "tcp_edge TCP_STATE_CLOSED TCP_STATE_LISTEN"
| simultaneous_open: "tcp_edge TCP_STATE_SYN_SENT TCP_STATE_SYN_RECVED"
| connected: "tcp_edge TCP_STATE_SYN_SENT TCP_STATE_ESTABLISHED"
| accepted: "tcp_edge TCP_STATE_SYN_RECVED TCP_STATE_ESTABLISHED"
| close_early: "tcp_edge TCP_STATE_SYN_RECVED TCP_STATE_SEND_FIN3"
| close_first: "tcp_edge TCP_STATE_ESTABLISHED TCP_STATE_SEND_FIN1"
| close_second: "tcp_edge TCP_STATE_CLOSE_WAIT TCP_STATE_SEND_FIN2"
| fin_in: "tcp_edge TCP_STATE_ESTABLISHED TCP_STATE_CLOSE_WAIT"
| fin_in_1: "tcp_edge TCP_STATE_SEND_FIN1 TCP_STATE_SEND_FIN2"
| fin_out_1: "tcp_edge TCP_STATE_SEND_FIN1 TCP_STATE_FIN_WAIT_1"
| fin_out_2: "tcp_edge TCP_STATE_SEND_FIN2 TCP_STATE_LAST_ACK"
| fin_out_3: "tcp_edge TCP_STATE_SEND_FIN3 TCP_STATE_FIN_WAIT_1"
| fin_acked: "tcp_edge TCP_STATE_FIN_WAIT_1 TCP_STATE_FIN_WAIT_2"
| fin_crossed: "tcp_edge TCP_STATE_FIN_WAIT_1 TCP_STATE_CLOSING"
| fin_both: "tcp_edge TCP_STATE_FIN_WAIT_1 TCP_STATE_TIME_WAIT"
| fin_last: "tcp_edge TCP_STATE_FIN_WAIT_2 TCP_STATE_TIME_WAIT"
| closing_acked: "tcp_edge TCP_STATE_CLOSING TCP_STATE_TIME_WAIT"

lemma next_state_edge:
  "next_state k g = TCP_STATE_CLOSED \<or> next_state k g = state k \<or> tcp_edge (state k) (next_state k g)"
proof (cases "state k = TCP_STATE_SYN_SENT \<or> isRstSet g \<or> \<not> taken k g")
  case True
  then show ?thesis by (auto simp: next_state_def intro: tcp_edge.intros)
next
  case False
  then show ?thesis by (cases "state k") (auto simp: next_state_def intro: tcp_edge.intros)
qed

lemma sp_retry_arp_state [simp]: "state (socks (fst (sp_retry_arp i b s)) j) = state (socks s j)"
proof -
  obtain t r where t: "setDestEth (ip_dest (b_ip (tbuf s b))) s = (t, r)" by (metis prod.exhaust)
  then have "socks t = socks s" using setDestEth_socks [of "ip_dest (b_ip (tbuf s b))" s] by simp
  then show ?thesis by (cases r) (simp_all add: sp_retry_arp_def t Let_def)
qed

lemma sendPacket_edge:
  "state (socks (fst (sendPacket i b s)) i) = state (socks s i) \<or>
   tcp_edge (state (socks s i)) (state (socks (fst (sendPacket i b s)) i))"
proof (cases "b_pendingArp (tbuf s b) = 0")
  case True
  show ?thesis
    by (auto simp: sendPacket_socks [OF True] fin_state_def sends_fin_def intro: tcp_edge.intros)
next
  case False
  then show ?thesis by (simp add: sendPacket_def)
qed

lemma sendPureAck_state [simp]: "state (socks (sendPureAck i p s) i) = state (socks s i)"
  by (rule sendPureAck_sock(2))

lemma drive_out_step_edge:
  "state (socks (fst (drive_out_step i s)) i) = state (socks s i) \<or>
   tcp_edge (state (socks s i)) (state (socks (fst (drive_out_step i s)) i))"
proof -
  have d: "state (socks (drive_sent i p t) i) = state (socks t i)" for p and t :: "'a tcp_state_scheme"
    by (simp add: drive_sent_def Let_def returnXmitBuf_def)
  have pr: "state (socks (drive_probe i s) i) = state (socks s i)"
    by (simp add: drive_probe_def Let_def)
  show ?thesis
    using sendPacket_edge [of i _ s]
    by (auto simp: drive_out_step_def d pr split: option.split prod.split) (metis fst_conv)+
qed

lemma drive_outgoing_edges: "tcp_edge\<^sup>*\<^sup>* (state (socks s i)) (state (socks (drive_outgoing i s) i))"
proof (induction i s rule: drive_outgoing.induct)
  case (1 i s)
  have "tcp_edge\<^sup>*\<^sup>* (state (socks s i)) (state (socks (fst (drive_out_step i s)) i))"
    using drive_out_step_edge [of i s] by auto
  then show ?case using 1 by (subst drive_outgoing.simps) (auto intro: rtranclp_trans)
qed

lemma drive_socket_edges:
  "state (socks (fst (drive_socket i s)) i) = TCP_STATE_CLOSED \<or>
   tcp_edge\<^sup>*\<^sup>* (state (socks s i)) (state (socks (fst (drive_socket i s)) i))"
  by (auto simp: drive_socket_def drive_retransmit_sock drive_outgoing_edges split: option.split)

lemma closeLocal_state:
  "state (socks (closeLocal i s) i) = fst (close_next (state (socks s i)))"
  by (auto simp: closeLocal_def Let_def split_beta sk_coreD [OF enqueue_core(1)])

lemma close_next_edge:
  "fst (close_next st) = TCP_STATE_CLOSED \<or> fst (close_next st) = st \<or> tcp_edge st (fst (close_next st))"
  by (cases st) (auto intro: tcp_edge.intros)

lemma makeActive_socks [simp]: "socks (makeActive i s) = socks s"
  by (simp add: makeActive_def split: option.split)

text \<open>One operation on socket \<open>i\<close>: an incoming segment, the driver, or a call of the application.\<close>

inductive tcp_step :: "nat \<Rightarrow> 'a tcp_state_scheme \<Rightarrow> 'a tcp_state_scheme \<Rightarrow> bool" for i where
  segment: "process2 packet i s = Some s' \<Longrightarrow> state (socks s i) \<noteq> TCP_STATE_LISTEN \<Longrightarrow> tcp_step i s s'"
| driver: "tcp_step i s (fst (drive_socket i s))"
| connecting: "tcp_step i s (fst (connectNonBlocking i p1 h p2 s))"
| listening: "tcp_step i s (fst (listen i p1 n s))"
| shutting: "tcp_step i s (shutdown i how s)"
| closing: "tcp_step i s (closeNonblocking i s)"
| close_polled: "tcp_step i s (fst (isCloseDone i s))"
| sending: "send i m n s = Some (s', r) \<Longrightarrow> tcp_step i s s'"
| receiving: "tcp_step i s (fst (recv i n s))"

lemma connect_edge:
  "state (socks (fst (connectNonBlocking i p1 h p2 s)) i) = state (socks s i) \<or>
   tcp_edge (state (socks s i)) (state (socks (fst (connectNonBlocking i p1 h p2 s)) i))"
  by (auto simp: connectNonBlocking_def connect2_def Let_def sk_coreD [OF enqueue_core(1)] intro: active_open)

lemma shutdown_state: "state (socks (shutdown i how s) i) = (if how = TCP_SHUT_RD then state (socks s i)
    else fst (close_next (state (socks s i))))"
  by (cases how) (simp_all add: shutdown_def closeLocal_state)

lemma listen_edge:
  "state (socks (fst (listen i p1 n s)) i) = state (socks s i) \<or>
   tcp_edge (state (socks s i)) (state (socks (fst (listen i p1 n s)) i))"
  by (auto simp: listen_def Let_def shutdown_def intro: passive_open)

lemma isCloseDone_state:
  "state (socks (fst (isCloseDone i s)) i) \<in> {TCP_STATE_CLOSED, state (socks s i)}"
  by (simp add: isCloseDone_def Let_def)

lemma closeNonblocking_state: "state (socks (closeNonblocking i s) i) = fst (close_next (state (socks s i)))"
  by (simp add: closeNonblocking_def closeLocal_state start_close_def)

lemma getXmitBuf_socks [simp]: "socks (fst (getXmitBuf s)) = socks s"
  by (simp add: getXmitBuf_def Let_def)

lemma send_step_core: "sk_core (socks (fst (send_step i m l n b s)) j) = sk_core (socks s j)"
  by (simp add: send_step_def Let_def)

lemma send_loop_core:
  assumes "send_loop i m l n s = Some x" shows "sk_core (socks (fst x) j) = sk_core (socks s j)"
proof (rule send_loop.raw_induct [of "\<lambda>i m l n s x. sk_core (socks (fst x) j) = sk_core (socks s j)"], goal_cases)
  case (1 loop i m l n s x)
  have "sk_core (socks (fst x) j) =
      sk_core (socks (fst (send_step i m l n tmp (fst (getXmitBuf s)))) j)"
    if "snd (getXmitBuf s) = Some tmp" "n < l" "rb_hasRoom (outgoing (socks s i))" for tmp
    using 1(2) that by (auto intro!: 1(1))
  then show ?case
    using 1(2) by (auto simp: send_step_core split: if_splits option.splits)
qed (rule assms)

lemma send_state: "send i m n s = Some (s', r) \<Longrightarrow> state (socks s' j) = state (socks s j)"
  by (auto simp: send_def dest!: send_loop_core [of i _ _ _ _ _ j] sk_coreD split: if_splits)

lemma recv_state: "state (socks (fst (recv i n s)) i) = state (socks s i)"
  by (simp add: recv_def recv_copy_def Let_def split_beta)

lemma tcp_step_edges:
  "tcp_step i s s' \<Longrightarrow>
     state (socks s' i) = TCP_STATE_CLOSED \<or> tcp_edge\<^sup>*\<^sup>* (state (socks s i)) (state (socks s' i))"
proof (induction rule: tcp_step.induct)
  case (segment packet s s')
  then show ?case using next_state_edge [of "socks s i"] process2_result(1) by (metis r_into_rtranclp rtranclp.rtrancl_refl)
next
  case (driver s)
  then show ?case by (rule drive_socket_edges)
next
  case (connecting s p1 h p2)
  then show ?case using connect_edge [of i p1 h p2 s] by auto
next
  case (listening s p1 n)
  then show ?case using listen_edge [of i p1 n s] by auto
next
  case (shutting s how)
  then show ?case using close_next_edge [of "state (socks s i)"] by (auto simp: shutdown_state)
next
  case (closing s)
  then show ?case using close_next_edge [of "state (socks s i)"] by (auto simp: closeNonblocking_state)
next
  case (close_polled s)
  then show ?case using isCloseDone_state [of i s] by auto
next
  case (sending m n s s' r)
  then show ?case using send_state [of i m n s s' r i] by simp
next
  case (receiving s n)
  then show ?case by (simp add: recv_state)
qed

section \<open>Properties\<close>

text \<open>How far a connection has come.\<close>

fun progress :: "TcpState \<Rightarrow> nat" where
  "progress TCP_STATE_CLOSED = 0" | "progress TCP_STATE_LISTEN = 1" | "progress TCP_STATE_SYN_SENT = 1"
| "progress TCP_STATE_SYN_RECVED = 2" | "progress TCP_STATE_ESTABLISHED = 3" | "progress TCP_STATE_CLOSE_WAIT = 4"
| "progress TCP_STATE_SEND_FIN1 = 4" | "progress TCP_STATE_SEND_FIN3 = 4" | "progress TCP_STATE_SEND_FIN2 = 5"
| "progress TCP_STATE_FIN_WAIT_1 = 5" | "progress TCP_STATE_LAST_ACK = 6" | "progress TCP_STATE_FIN_WAIT_2 = 6"
| "progress TCP_STATE_CLOSING = 6" | "progress TCP_STATE_TIME_WAIT = 7"

lemma tcp_edge_progress: "tcp_edge st st' \<Longrightarrow> progress st < progress st'"
  by (induction rule: tcp_edge.induct) simp_all

lemma tcp_edges_progress: "tcp_edge\<^sup>*\<^sup>* st st' \<Longrightarrow> st = st' \<or> progress st < progress st'"
  by (induction rule: rtranclp_induct) (auto dest: tcp_edge_progress)

lemma tcp_run_progress:
  assumes "(\<lambda>s s'. tcp_step i s s' \<and> state (socks s' i) \<noteq> TCP_STATE_CLOSED)\<^sup>*\<^sup>* s s'"
  shows "state (socks s i) = state (socks s' i) \<or> progress (state (socks s i)) < progress (state (socks s' i))"
  using assms by (induction rule: rtranclp_induct) (auto dest!: tcp_step_edges tcp_edges_progress)

text \<open>An established connection, and a packet in buffer 0 that holds a segment with the RST flag.\<close>

definition demo_rst :: tcp_state where
  "demo_rst = (upd_sock 0 (\<lambda>k. k\<lparr>state := TCP_STATE_ESTABLISHED\<rparr>) zero_tcp_state)
     \<lparr>pkt_mem := (\<lambda>_. (\<lambda>_. 0)(14 := 0x45, 47 := 4))\<rparr>"

lemma demo_rst_sock: "socks demo_rst 0 = zero_socket\<lparr>state := TCP_STATE_ESTABLISHED\<rparr>"
  by (simp add: demo_rst_def zero_state)

lemma demo_rst_seg: "isRstSet (read_seg (PoolBuf 0) 0 demo_rst)" "sg_seq (read_seg (PoolBuf 0) 0 demo_rst) = 0"
  "isAckSet (read_seg (PoolBuf 0) 0 demo_rst) = False"
  by (simp_all add: demo_rst_def read_seg_def Let_def pk_tcp_def pk_tcp_off_def pk_ip_def read_IpHeader_def
      read_TcpHeader_def payloadOff_def getIpHlen_def getCodeBits_def cfg_defs rd32_def ip_u32_def htonl_def htons_def)

text \<open>
  C2. A segment for a connection that is not listening moves the state and the expected sequence
  number exactly as the table \<open>next_state\<close> / \<open>next_ack\<close> says, on every branch of \<open>process2\<close>: the
  handshake in SYN_SENT, a reset with the right sequence number (a reset with another number
  changes nothing), wrong numbers and data that cannot be stored (nothing changes), and otherwise
  the switch over the state, with the data length and one for a FIN added to the expected number.
\<close>

theorem process2_next_state:
  assumes "process2 packet i s = Some s'" and "state (socks s i) \<noteq> TCP_STATE_LISTEN"
  shows "state (socks s' i) = next_state (socks s i) (read_seg packet i s) \<and>
    ackNum (socks s' i) = next_ack (socks s i) (read_seg packet i s)"
  using process2_result [OF assms] by simp

theorem process2_next_state_witness:
  "\<exists>s'. process2 (PoolBuf 0) 0 demo_rst = Some s' \<and> state (socks s' 0) = TCP_STATE_CLOSED"
proof -
  obtain s' where s': "process2 (PoolBuf 0) 0 demo_rst = Some s'"
    by (simp add: process2_def Let_def demo_rst_sock)
  have "state (socks demo_rst 0) \<noteq> TCP_STATE_LISTEN" by (simp add: demo_rst_sock)
  from process2_next_state [OF s' this] s' show ?thesis
    by (simp add: next_state_def demo_rst_seg demo_rst_sock seq_proper_def zero_socket_def)
qed

text \<open>
  C3. Every operation on a socket follows the TCP state diagram: an incoming segment, one turn of
  the driver of outgoing segments, connect, listen, shutdown, close, polling a close, send and
  recv each either close the socket or take it along edges of the diagram.
\<close>

theorem connection_follows_diagram:
  assumes "tcp_step i s s'"
  shows "state (socks s' i) = TCP_STATE_CLOSED \<or> tcp_edge\<^sup>*\<^sup>* (state (socks s i)) (state (socks s' i))"
  using assms by (rule tcp_step_edges)

theorem connection_follows_diagram_witness:
  "tcp_edge\<^sup>*\<^sup>* TCP_STATE_ESTABLISHED TCP_STATE_SEND_FIN1 \<and>
   state (socks (closeNonblocking 0 demo_rst) 0) = TCP_STATE_SEND_FIN1"
  using connection_follows_diagram [OF tcp_step.closing [of 0 demo_rst]]
  by (simp add: closeNonblocking_state demo_rst_sock)

text \<open>
  C4. A connection never goes back: as long as it is not closed, every sequence of operations on
  the socket leaves it in the same state or strictly further along the diagram.  In particular
  after a FIN was sent or received it is never established again.
\<close>

theorem connection_never_goes_back:
  assumes "(\<lambda>s s'. tcp_step i s s' \<and> state (socks s' i) \<noteq> TCP_STATE_CLOSED)\<^sup>*\<^sup>* s s'"
  shows "state (socks s i) = state (socks s' i) \<or> progress (state (socks s i)) < progress (state (socks s' i))"
  using assms by (rule tcp_run_progress)

theorem connection_never_goes_back_witness:
  "progress (state (socks demo_rst 0)) < progress (state (socks (closeNonblocking 0 demo_rst) 0))"
  using connection_never_goes_back [of 0 demo_rst "closeNonblocking 0 demo_rst"] tcp_step.closing [of 0 demo_rst]
  by (simp add: r_into_rtranclp closeNonblocking_state demo_rst_sock)

end
