(* ===== verification/Stack.thy ===== *)
theory Stack
  imports Dns TcpStates
begin

text \<open>
  The layers put together: interrupts, \<^verbatim>\<open>Ip::process\<close> (\<^verbatim>\<open>IP.CPP\<close>), the packet macros of
  \<^verbatim>\<open>UTILS.H\<close>, and the calls that block while they drive the stack: \<^verbatim>\<open>TcpSocket::connect\<close> and
  \<^verbatim>\<open>close\<close> (\<^verbatim>\<open>TCP.CPP\<close>), \<^verbatim>\<open>Dns::sendRequest\<close>, \<^verbatim>\<open>Dns::resolve\<close> and
  \<^verbatim>\<open>Dns::drivePendingQuery\<close> (\<^verbatim>\<open>DNS.CPP\<close>).

  Interrupts come between the steps of a loop: \<open>ev n\<close> lists those that come before its \<open>n\<close>th turn.
  \<open>user\<close> runs the handlers a program registers itself.  \<open>None\<close> is a call that does not return,
  or one whose effect is undefined because it writes past a buffer.
\<close>

section \<open>Interrupts\<close>

text \<open>
  The timer interrupt, and a frame that the packet driver copies into a buffer of the pool
  between its two upcalls.
\<close>

datatype intr = Tick | Incoming "u8 list"

fun interrupt :: "intr \<Rightarrow> 'a net_scheme \<Rightarrow> 'a net_scheme" where
  "interrupt Tick s = s\<lparr>Timer_CurrentTicks := Timer_CurrentTicks s + 1\<rparr>"
| "interrupt (Incoming xs) s =
     (case receiver 0 (of_nat (length xs)) s of
        (s, None) \<Rightarrow> s
      | (s, Some b) \<Rightarrow> fst (receiver 1 (of_nat (length xs)) (driver_copy b xs s)))"

definition interrupts :: "intr list \<Rightarrow> 'a net_scheme \<Rightarrow> 'a net_scheme" where
  "interrupts is s = fold interrupt is s"

section \<open>Demultiplexing\<close>

type_synonym 'a user = "nat \<Rightarrow> bufref \<Rightarrow> 'a dns_state_scheme \<Rightarrow> 'a dns_state_scheme"

definition udp_call :: "'a user \<Rightarrow> udp_fn \<Rightarrow> bufref \<Rightarrow> 'a dns_state_scheme \<Rightarrow> 'a dns_state_scheme option" where
  "udp_call user f b s = (case f of UdpDns \<Rightarrow> udpHandler b s | UdpUser n \<Rightarrow> Some (user n b s))"

text \<open>The protocol of the packet picks the layer above IP.\<close>

definition ip_route :: "'a user \<Rightarrow> bufref \<Rightarrow> 'a dns_state_scheme \<Rightarrow> 'a dns_state_scheme option" where
  "ip_route user packet s =
     (let protocol = ip_protocol (pk_ip packet s)
      in if protocol = IP_PROTOCOL_TCP then Tcp_process packet s
         else if protocol = IP_PROTOCOL_UDP then Udp_process (udp_call user) packet s
         else if cfg_ICMP s \<and> protocol = IP_PROTOCOL_ICMP
         then Some (Icmp_process user packet (s\<lparr>Ip_icmpRecvPackets := Ip_icmpRecvPackets s + 1\<rparr>))
         else Some (Buffer_free packet s))"

definition Ip_process :: "'a user \<Rightarrow> bufref \<Rightarrow> 'a dns_state_scheme \<Rightarrow> 'a dns_state_scheme option" where
  "Ip_process user packet s =
     (let ip = pk_ip packet s
      in if ipchksum (pkt_mem s packet) 14 (getIpHlen ip) \<noteq> 0
         then Some (Buffer_free packet (s\<lparr>Ip_badChecksum := Ip_badChecksum s + 1\<rparr>))
         else if isFragment ip then
           (case processFragment ip packet (s\<lparr>Ip_fragsReceived := Ip_fragsReceived s + 1\<rparr>) of
              (s, None) \<Rightarrow> Some s
            | (s, Some packet) \<Rightarrow> ip_route user packet s)
         else ip_route user packet s)"

definition handler_call ::
    "'a user \<Rightarrow> handler \<Rightarrow> bufref \<Rightarrow> u16 \<Rightarrow> 'a dns_state_scheme \<Rightarrow> 'a dns_state_scheme option" where
  "handler_call user h packet packetLen s =
     (case h of
        HandlerArp \<Rightarrow> Some (processArp packet packetLen s)
      | HandlerIp \<Rightarrow> Ip_process user packet s
      | HandlerUser n \<Rightarrow> Some (user n packet s))"

definition ip_frags_check_overdue :: "'a ip_state_scheme \<Rightarrow> 'a ip_state_scheme" where
  "ip_frags_check_overdue s = (if fragsInReassembly s \<noteq> 0 then purgeOverdue s else s)"

text \<open>The macros \<^verbatim>\<open>PACKET_PROCESS_SINGLE\<close> and \<^verbatim>\<open>PACKET_PROCESS_MULT( n )\<close>.\<close>

definition packet_process_single :: "'a user \<Rightarrow> 'a dns_state_scheme \<Rightarrow> 'a dns_state_scheme option" where
  "packet_process_single user s =
     map_option ip_frags_check_overdue
       (if Buffer_first s \<noteq> Buffer_next s then Packet_process_internal (handler_call user) s else Some s)"

fun process_up_to :: "'a user \<Rightarrow> nat \<Rightarrow> 'a dns_state_scheme \<Rightarrow> 'a dns_state_scheme option" where
  "process_up_to user 0 s = Some s"
| "process_up_to user (Suc n) s =
     (if Buffer_first s \<noteq> Buffer_next s
      then (case Packet_process_internal (handler_call user) s of
              None \<Rightarrow> None | Some s \<Rightarrow> process_up_to user n s)
      else Some s)"

definition packet_process_mult :: "'a user \<Rightarrow> nat \<Rightarrow> 'a dns_state_scheme \<Rightarrow> 'a dns_state_scheme option" where
  "packet_process_mult user n s = map_option ip_frags_check_overdue (process_up_to user n s)"

section \<open>Blocking connect and close\<close>

text \<open>The spin that waits for the clock to move on from \<open>lastCheck\<close>; \<open>n\<close> counts the turns.\<close>

partial_function (option) wait_tick ::
    "(nat \<Rightarrow> intr list) \<Rightarrow> nat \<Rightarrow> u32 \<Rightarrow> 'a net_scheme \<Rightarrow> (nat \<times> 'a net_scheme) option" where
  [code]: "wait_tick ev n lastCheck s =
     (if lastCheck = Timer_CurrentTicks s then wait_tick ev (Suc n) lastCheck (interrupts (ev n) s)
      else Some (n, s))"

partial_function (option) connect_loop ::
    "'a user \<Rightarrow> (nat \<Rightarrow> intr list) \<Rightarrow> nat \<Rightarrow> nat \<Rightarrow> u32 \<Rightarrow> u32 \<Rightarrow> u32 \<Rightarrow> 'a dns_state_scheme \<Rightarrow>
     (nat \<times> 'a dns_state_scheme \<times> int) option" where
  [code]: "connect_loop user ev n this start lastCheck timeoutMs s =
     (case packet_process_single user (interrupts (ev n) s) of
        None \<Rightarrow> None
      | Some s \<Rightarrow>
          (let s = driveArp (drivePackets s)
           in if isConnectComplete (socks s this) then Some (Suc n, s, TCP_RC_GOOD)
              else if TIMER_MS_TO_TICKS timeoutMs < Timer_diff start (Timer_CurrentTicks s)
              then Some (Suc n, s, TCP_RC_TIMEOUT)
              else (case wait_tick ev (Suc n) lastCheck s of
                      None \<Rightarrow> None
                    | Some (n, s) \<Rightarrow> connect_loop user ev n this start (Timer_CurrentTicks s) timeoutMs s)))"

definition connect ::
    "'a user \<Rightarrow> (nat \<Rightarrow> intr list) \<Rightarrow> nat \<Rightarrow> nat \<Rightarrow> u16 \<Rightarrow> IpAddr \<Rightarrow> u16 \<Rightarrow> u32 \<Rightarrow> 'a dns_state_scheme \<Rightarrow>
     (nat \<times> 'a dns_state_scheme \<times> int) option" where
  "connect user ev n this srcPort_p host_p dstPort_p timeoutMs_p s =
     (let (s, rc) = connect2 this srcPort_p host_p dstPort_p s
      in if rc \<noteq> 0 then Some (n, s, rc)
         else connect_loop user ev n this (Timer_CurrentTicks s) (Timer_CurrentTicks s) timeoutMs_p s)"

partial_function (option) close_loop ::
    "'a user \<Rightarrow> (nat \<Rightarrow> intr list) \<Rightarrow> nat \<Rightarrow> nat \<Rightarrow> 'a dns_state_scheme \<Rightarrow> (nat \<times> 'a dns_state_scheme) option" where
  [code]: "close_loop user ev n this s =
     (let d = isCloseDone this (interrupts (ev n) s); s = fst d
      in if snd d then Some (Suc n, s)
         else (case packet_process_single user s of
             None \<Rightarrow> None
           | Some s \<Rightarrow> close_loop user ev (Suc n) this (drivePackets (driveArp s))))"

definition close ::
    "'a user \<Rightarrow> (nat \<Rightarrow> intr list) \<Rightarrow> nat \<Rightarrow> nat \<Rightarrow> 'a dns_state_scheme \<Rightarrow> (nat \<times> 'a dns_state_scheme) option" where
  "close user ev n this s = close_loop user ev n this (closeLocal this (start_close this s))"

section \<open>Resolving names\<close>

definition DNS_INITIAL_SEND_TIMEOUT :: u32 where [cfg_defs]: "DNS_INITIAL_SEND_TIMEOUT = 500"
definition DNS_RETRY_THRESHOLD :: u32 where [cfg_defs]: "DNS_RETRY_THRESHOLD = 2000"
definition DNS_TIMEOUT :: u32 where [cfg_defs]: "DNS_TIMEOUT = 10000"

definition dns_sendUdp :: "IpAddr \<Rightarrow> u8 \<Rightarrow> mem \<Rightarrow> 'a dns_state_scheme \<Rightarrow> ('a dns_state_scheme \<times> mem \<times> int) option" where
  "dns_sendUdp resolver reqLen query s = sendUdp resolver DNS_HANDLER_PORT 53 (ucast reqLen) query True s"

text \<open>The wait for the Ethernet address of the next hop, with a new attempt in each turn.\<close>

partial_function (option) send_wait ::
    "'a user \<Rightarrow> (nat \<Rightarrow> intr list) \<Rightarrow> nat \<Rightarrow> IpAddr \<Rightarrow> u8 \<Rightarrow> mem \<Rightarrow> u32 \<Rightarrow> 'a dns_state_scheme \<Rightarrow>
     (nat \<times> 'a dns_state_scheme) option" where
  [code]: "send_wait user ev n resolver reqLen query start s =
     (let s = interrupts (ev n) s
      in if TIMER_MS_TO_TICKS DNS_INITIAL_SEND_TIMEOUT < Timer_diff start (Timer_CurrentTicks s) then Some (Suc n, s)
         else (case packet_process_single user s of
             None \<Rightarrow> None
           | Some s \<Rightarrow>
               (case dns_sendUdp resolver reqLen query (drivePackets (driveArp s)) of
                  None \<Rightarrow> None
                | Some (s, query, rc) \<Rightarrow>
                    if rc = 1 then send_wait user ev (Suc n) resolver reqLen query start s else Some (Suc n, s))))"

definition sendRequest ::
    "'a user \<Rightarrow> (nat \<Rightarrow> intr list) \<Rightarrow> nat \<Rightarrow> IpAddr \<Rightarrow> cstr \<Rightarrow> u16 \<Rightarrow> 'a dns_state_scheme \<Rightarrow>
     (nat \<times> 'a dns_state_scheme) option" where
  "sendRequest user ev n resolver targetName ident s =
     (let query = dns_query ident targetName (dns_stack s); reqLen = dns_reqLen targetName; start = Timer_CurrentTicks s
      in case dns_sendUdp resolver reqLen query s of
           None \<Rightarrow> None
         | Some (s, query, rc) \<Rightarrow>
             if rc = 1 then send_wait user ev n resolver reqLen query start s else Some (n, s))"

text \<open>
  The numeric form of an address: \<open>len\<close> is the length cut to eight bits, and only so many characters
  are looked at.
\<close>

definition dns_len :: "cstr \<Rightarrow> u8" where
  "dns_len name = of_nat (length name)"

definition resolve_numeric :: "cstr \<Rightarrow> u16 list \<Rightarrow> IpAddr option" where
  "resolve_numeric name tmp =
     (if \<forall>c\<in>set (take (unat (dns_len name)) name). isdigit c \<or> c = 46
      then (let (rc, tmp) = sscanf_ip name tmp in if rc = 4 then Some (tmp_ip tmp) else None)
      else None)"

text \<open>A name without a dot gets the domain appended.\<close>

definition full_name :: "cstr \<Rightarrow> cstr \<Rightarrow> cstr" where
  "full_name name domain =
     (if 46 \<notin> set (take (unat (dns_len name)) name) \<and> domain \<noteq> [] then name @ 46 # domain else name)"

definition start_query :: "cstr \<Rightarrow> 'a dns_state_scheme \<Rightarrow> 'a dns_state_scheme" where
  "start_query full s =
     (let (s, ident) = c_rand (s\<lparr>queryPending := True, lastQueryRc := Good\<rparr>)
      in s\<lparr>pendingQuery := \<lparr>pq_ident = ident, pq_start = Timer_CurrentTicks s, pq_lastUpdate = Timer_CurrentTicks s,
             pq_originalTarget = full, pq_nsIpAddr = NameServer s, pq_targetName = full\<rparr>\<rparr>)"

text \<open>
  \<^verbatim>\<open>Dns::resolve\<close>: the state, the caller's address variable and the result code.  \<open>tmp\<close> is what
  uninitialised variables hold.  A name that does not fit its buffer is undefined.
\<close>

definition dns_resolve ::
    "'a user \<Rightarrow> (nat \<Rightarrow> intr list) \<Rightarrow> nat \<Rightarrow> cstr \<Rightarrow> IpAddr \<Rightarrow> bool \<Rightarrow> u16 list \<Rightarrow> 'a dns_state_scheme \<Rightarrow>
     (nat \<times> 'a dns_state_scheme \<times> IpAddr \<times> int) option" where
  "dns_resolve user ev n name target sendReq tmp s =
     (let full = full_name name (Domain s)
      in if name = [] then Some (n, s, target, -3)
      else (case resolve_numeric name tmp of
        Some a \<Rightarrow> Some (n, s, a, 0)
      | None \<Rightarrow>
          if ip_isSame (NameServer s) IpInvalid then Some (n, s, target, -2)
          else if DNS_MAX_NAME_LEN - 1 \<le> unat (dns_len name) then Some (n, s, target, -1)
          else (case dns_lookup name s of
            Some a \<Rightarrow> Some (n, s, a, 0)
          | None \<Rightarrow>
              if DNS_MAX_NAME_LEN \<le> length full then None
              else (case if full = name then None else dns_lookup full s of
                Some a \<Rightarrow> Some (n, s, a, 0)
              | None \<Rightarrow>
                  (let target = scanHostsFile name full tmp s
                   in if fst target \<noteq> 0 then Some (n, dns_addOrUpdate name target s, target, 0)
                      else if queryPending s then Some (n, s, target, 2)
                      else if \<not> sendReq then Some (n, s, target, 3)
                      else (let s = start_query full s
                            in map_option (\<lambda>(n, s). (n, s, target, 1))
                                 (sendRequest user ev n (NameServer s) full (pq_ident (pendingQuery s)) s)))))))"

definition drivePendingQuery2 ::
    "'a user \<Rightarrow> (nat \<Rightarrow> intr list) \<Rightarrow> nat \<Rightarrow> 'a dns_state_scheme \<Rightarrow> (nat \<times> 'a dns_state_scheme) option" where
  "drivePendingQuery2 user ev n s =
     (let s = s\<lparr>pendingQuery := (pendingQuery s)\<lparr>pq_lastUpdate := Timer_CurrentTicks s,
                  pq_ident := pq_ident (pendingQuery s) + 1\<rparr>\<rparr>;
          q = pendingQuery s
      in sendRequest user ev n (pq_nsIpAddr q) (pq_targetName q) (pq_ident q) s)"

definition drivePendingQuery1 ::
    "'a user \<Rightarrow> (nat \<Rightarrow> intr list) \<Rightarrow> nat \<Rightarrow> 'a dns_state_scheme \<Rightarrow> (nat \<times> 'a dns_state_scheme) option" where
  "drivePendingQuery1 user ev n s =
     (let q = pendingQuery s; now = Timer_CurrentTicks s
      in if Timer_diff (pq_lastUpdate q) now < TIMER_MS_TO_TICKS DNS_RETRY_THRESHOLD then Some (n, s)
         else if TIMER_MS_TO_TICKS DNS_TIMEOUT < Timer_diff (pq_start q) now
         then Some (n, s\<lparr>queryPending := False, lastQueryRc := Timeout\<rparr>)
         else drivePendingQuery2 user ev n s)"

definition drivePendingQuery ::
    "'a user \<Rightarrow> (nat \<Rightarrow> intr list) \<Rightarrow> nat \<Rightarrow> 'a dns_state_scheme \<Rightarrow> (nat \<times> 'a dns_state_scheme) option" where
  "drivePendingQuery user ev n s = (if queryPending s then drivePendingQuery1 user ev n s else Some (n, s))"

section \<open>What driving the stack leaves alone\<close>

text \<open>What the blocking loops look at: the clock, the receive ring and the start of the close.\<close>

definition blk_view :: "nat \<Rightarrow> 'a tcp_state_scheme \<Rightarrow> u32 \<times> u8 \<times> u8 \<times> u32" where
  "blk_view i s = (Timer_CurrentTicks s, Buffer_first s, Buffer_next s, closeStarted (socks s i))"

lemma blk_view_upd [simp]:
  "(\<And>k. closeStarted (f k) = closeStarted k) \<Longrightarrow> blk_view i (upd_sock j f s) = blk_view i s"
  "blk_view i (upd_buf b g s) = blk_view i s"
  "blk_view i (Buffer_free c s) = blk_view i s" "blk_view i (free p s) = blk_view i s"
  "blk_view i (returnXmitBuf b s) = blk_view i s" "blk_view i (fst (freeSocket j s)) = blk_view i s"
  "blk_view i (makeInactive j s) = blk_view i s"
  "blk_view i (s\<lparr>Pending_Outgoing := x\<rparr>) = blk_view i s" "blk_view i (s\<lparr>Pending_Sent := x\<rparr>) = blk_view i s"
  "blk_view i (s\<lparr>Packets_Retransmitted := y\<rparr>) = blk_view i s" "blk_view i (s\<lparr>SentZeroWindowProbe := y\<rparr>) = blk_view i s"
  "blk_view i (s\<lparr>pending := pd\<rparr>) = blk_view i s" "blk_view i (s\<lparr>pendingEntries := x\<rparr>) = blk_view i s"
  "blk_view i (s\<lparr>fragsInReassembly := z\<rparr>) = blk_view i s" "blk_view i (s\<lparr>Ip_timeoutReassemblies := y\<rparr>) = blk_view i s"
  "blk_view i (upd_fc k h s) = blk_view i s"
  by (simp_all add: upd_fc_def blk_view_def upd_sock_def upd_buf_def Buffer_free_def freeBigPacket_def free_def returnXmitBuf_def
      freeSocket_def makeInactive_def Let_def split: option.split)

lemma blk_view_sent:
  assumes "quiet s' = quiet s" and "sk_rest (socks s' i) = sk_rest (socks s i)"
  shows "blk_view i s' = blk_view i s"
  using quiet_fields [OF assms(1)] sk_rest_fields [OF assms(2)] by (simp add: blk_view_def)

lemma blk_view_sends [simp]:
  "blk_view i (fst (sendPacket j b s)) = blk_view i s" "blk_view i (resendPacket j b s) = blk_view i s"
  "blk_view i (sendPureAck j p s) = blk_view i s"
proof -
  have send: "blk_view i (fst (sendPacket j c t)) = blk_view i t" for c and t :: "'a tcp_state_scheme"
    using sf_sendPacket [of j c t] by (intro blk_view_sent) (auto simp: sends_frame_def)
  then show "blk_view i (fst (sendPacket j b s)) = blk_view i s" .
  show "blk_view i (resendPacket j b s) = blk_view i s" by (intro blk_view_sent) simp_all
  show "blk_view i (sendPureAck j p s) = blk_view i s"
    by (simp add: sendPureAck_def Let_def send)
qed

lemma blk_view_destroy [simp]: "blk_view i (destroy j s) = blk_view i s"
proof -
  have d: "blk_view i (fst (drain returnXmitBuf r t)) = blk_view i t" "blk_view i (fst (drain Buffer_free q t)) = blk_view i t"
    for r q and t :: "'a tcp_state_scheme"
    by (rule drain_keeps, simp)+
  show ?thesis
    by (simp add: destroy_def clearQueues_def Let_def split_beta d split: option.split)
qed

lemma blk_view_drive_out_step [simp]: "blk_view i (fst (drive_out_step j s)) = blk_view i s"
proof (cases "rb_peek (outgoing (socks s j))")
  case (Some p)
  have d: "blk_view i (drive_sent j p t) = blk_view i t" for t :: "'a tcp_state_scheme"
    by (simp add: drive_sent_def Let_def)
  have "blk_view i (drive_probe j s) = blk_view i s" by (simp add: drive_probe_def Let_def)
  then show ?thesis
    using blk_view_sends(1) [of i j p s] by (cases "sendPacket j p s") (simp add: drive_out_step_def Some d)
qed (simp add: drive_out_step_def)

lemma blk_view_drive_outgoing [simp]: "blk_view i (drive_outgoing j s) = blk_view i s"
proof (induction j s rule: drive_outgoing.induct)
  case (1 j s)
  then show ?case by (subst drive_outgoing.simps) simp
qed

lemma blk_view_drivePackets [simp]: "blk_view i (drivePackets s) = blk_view i s"
proof -
  have one: "blk_view i (fst (drive_socket j t)) = blk_view i t" for j and t :: "'a tcp_state_scheme"
    by (auto simp: drive_socket_def drive_retransmit_def Let_def split: option.split)
  have "blk_view i (drive_sockets js t) = blk_view i t" for js and t :: "'a tcp_state_scheme"
  proof (induction js arbitrary: t)
    case (Cons j js)
    then show ?case using one [of "socketTable t j" t] by (cases "drive_socket (socketTable t j) t") simp
  qed simp
  then show ?thesis by (simp add: drivePackets_def drivePackets2_def)
qed

lemma blk_view_drives [simp]:
  "blk_view i (driveArp s) = blk_view i s" "blk_view i (ip_frags_check_overdue s) = blk_view i s"
proof -
  have slot: "blk_view i (driveArp_slot j t) = blk_view i t" for j and t :: "'a tcp_state_scheme"
  proof -
    have "blk_view i (sendArpRequest2 ip u) = blk_view i u" for ip and u :: "'a tcp_state_scheme"
      by (simp add: sendArpRequest2_def Let_def blk_view_def)
    then show ?thesis by (simp add: driveArp_slot_def Let_def)
  qed
  show "blk_view i (driveArp s) = blk_view i s"
    by (simp add: driveArp_def driveArp2_def slot cfg_defs upt_rec)
  have free: "blk_view i (fold (\<lambda>j. Buffer_free (f j)) js t) = blk_view i t" for f js and t :: "'a tcp_state_scheme"
    by (induction js arbitrary: t) simp_all
  have "blk_view i (purge_slot j t) = blk_view i t" for j and t :: "'a tcp_state_scheme"
    by (simp add: purge_slot_def killFragmentControl_def Let_def free)
  then have "blk_view i (fold purge_slot js t) = blk_view i t" for js and t :: "'a tcp_state_scheme"
    by (induction js arbitrary: t) simp_all
  then show "blk_view i (ip_frags_check_overdue s) = blk_view i s"
    by (simp add: ip_frags_check_overdue_def purgeOverdue_def)
qed

lemma idle_socks [simp]:
  "socks (driveArp s) = socks s" "socks (ip_frags_check_overdue s) = socks s"
proof -
  have slot: "socks (driveArp_slot j t) = socks t" for j and t :: "'a tcp_state_scheme"
    by (simp add: driveArp_slot_def sendArpRequest2_def Let_def)
  show "socks (driveArp s) = socks s" by (simp add: driveArp_def driveArp2_def slot cfg_defs upt_rec)
  have free: "socks (fold (\<lambda>j. Buffer_free (f j)) js t) = socks t" for f js and t :: "'a tcp_state_scheme"
    by (induction js arbitrary: t) simp_all
  have "socks (purge_slot j t) = socks t" for j and t :: "'a tcp_state_scheme"
    by (simp add: purge_slot_def killFragmentControl_def upd_fc_def Let_def free)
  then have "socks (fold purge_slot js t) = socks t" for js and t :: "'a tcp_state_scheme"
    by (induction js arbitrary: t) simp_all
  then show "socks (ip_frags_check_overdue s) = socks s"
    by (simp add: ip_frags_check_overdue_def purgeOverdue_def)
qed

text \<open>A socket that has not connected stays so while only the timers drive the stack.\<close>

definition unconnected :: "nat \<Rightarrow> 'a tcp_state_scheme \<Rightarrow> bool" where
  "unconnected i s \<longleftrightarrow> state (socks s i) = TCP_STATE_CLOSED \<or> state (socks s i) = TCP_STATE_SYN_SENT"

lemma unconnected_cong: "state (socks t i) = state (socks s i) \<Longrightarrow> unconnected i t = unconnected i s"
  by (simp add: unconnected_def)

lemma sendPacket_unconnected: "unconnected i s \<Longrightarrow> unconnected i (fst (sendPacket j b s))"
proof (cases "i = j")
  case True
  assume u: "unconnected i s"
  show ?thesis
  proof (cases "b_pendingArp (tbuf s b) = 0")
    case True
    then show ?thesis using u \<open>i = j\<close> by (auto simp: unconnected_def sendPacket_socks [OF True] fin_state_def sends_fin_def)
  next
    case False
    then show ?thesis using u by (simp add: unconnected_def sendPacket_def)
  qed
next
  case False
  assume "unconnected i s"
  then show ?thesis using sf_sendPacket [of j b s] False by (simp add: sends_frame_def unconnected_def)
qed

lemma destroy_unconnected: "unconnected i s \<Longrightarrow> unconnected i (destroy j s)"
  using sk_coreD [OF clearQueues_core(1) [of j s i]]
  by (auto simp: unconnected_def destroy_def Let_def split: option.split)

lemma drive_out_step_unconnected: "unconnected i s \<Longrightarrow> unconnected i (fst (drive_out_step j s))"
proof (cases "rb_peek (outgoing (socks s j))")
  case (Some p)
  assume u: "unconnected i s"
  have d: "state (socks (drive_sent j p t) i) = state (socks t i)" for t :: "'a tcp_state_scheme"
    by (simp add: drive_sent_def Let_def returnXmitBuf_def)
  have "unconnected i (drive_probe j s)"
  proof (cases "i = j")
    case True
    then show ?thesis using u by (simp add: drive_probe_def Let_def unconnected_def sendPureAck_sock)
  next
    case False
    then have "socks (fst (sendPacket j StackBuffer t)) i = socks t i" for t :: "'a tcp_state_scheme"
      using sf_sendPacket [of j StackBuffer t] by (simp add: sends_frame_def)
    then show ?thesis using u False by (simp add: drive_probe_def Let_def unconnected_def sendPureAck_def)
  qed
  then show ?thesis
    using sendPacket_unconnected [OF u, of j p] u
    by (cases "sendPacket j p s") (auto simp: drive_out_step_def Some unconnected_def d)
qed (simp add: drive_out_step_def)

lemma drivePackets_unconnected: "unconnected i s \<Longrightarrow> unconnected i (drivePackets s)"
proof -
  have out: "unconnected i t \<Longrightarrow> unconnected i (drive_outgoing j t)" for j and t :: "'a tcp_state_scheme"
  proof (induction j t rule: drive_outgoing.induct)
    case (1 j t)
    then show ?case using drive_out_step_unconnected by (subst drive_outgoing.simps) auto
  qed
  have one: "unconnected i t \<Longrightarrow> unconnected i (fst (drive_socket j t))" for j and t :: "'a tcp_state_scheme"
  proof -
    assume u: "unconnected i t"
    have "state (socks (drive_retransmit j p t) i) = state (socks t i)" for p by (simp add: drive_retransmit_def Let_def)
    then have "unconnected i (drive_retransmit j p t)" for p using u by (simp add: unconnected_def)
    moreover have "unconnected i (upd_sock j (\<lambda>k. k\<lparr>closeReason := 4\<rparr>) (destroy j t))"
      using destroy_unconnected [OF u, of j] by (auto simp: unconnected_def)
    ultimately show ?thesis using out [OF u, of j] by (simp add: drive_socket_def split: option.split)
  qed
  have "unconnected i t \<Longrightarrow> unconnected i (drive_sockets js t)" for js and t :: "'a tcp_state_scheme"
  proof (induction js arbitrary: t)
    case (Cons j js)
    then show ?case using one [of t "socketTable t j"] by (cases "drive_socket (socketTable t j) t") simp
  qed simp
  then show "unconnected i s \<Longrightarrow> unconnected i (drivePackets s)" by (simp add: drivePackets_def drivePackets2_def)
qed

section \<open>Blocking calls return\<close>

text \<open>Only the clock interrupts, at most once a turn, and it never stops.\<close>

definition clock_only :: "(nat \<Rightarrow> intr list) \<Rightarrow> bool" where
  "clock_only ev \<longleftrightarrow> (\<forall>n. ev n = [] \<or> ev n = [Tick]) \<and> (\<forall>n. \<exists>d. ev (n + d) = [Tick])"

lemma clock_interrupts:
  assumes "clock_only ev"
  shows "interrupts (ev n) s = (if ev n = [Tick] then s\<lparr>Timer_CurrentTicks := Timer_CurrentTicks s + 1\<rparr> else s)"
  using assms by (auto simp: clock_only_def interrupts_def) (metis fold_simps(1) id_apply)

text \<open>Induction over the turns up to the next tick.\<close>

lemma tick_induct [consumes 1, case_names tick quiet]:
  assumes "clock_only ev" and "\<And>n. ev n = [Tick] \<Longrightarrow> P n" and "\<And>n. ev n = [] \<Longrightarrow> P (Suc n) \<Longrightarrow> P n"
  shows "P n"
proof -
  obtain d where "ev (n + d) = [Tick]" using assms(1) by (auto simp: clock_only_def)
  then show ?thesis
  proof (induction d arbitrary: n)
    case (Suc d)
    then have "P (Suc n)" by simp
    then show ?case using assms(1,2,3) by (auto simp: clock_only_def)
  qed (use assms(2) in simp)
qed

lemma interrupts_keep:
  assumes "clock_only ev"
  shows "Buffer_first (interrupts (ev n) s) = Buffer_first s" "Buffer_next (interrupts (ev n) s) = Buffer_next s"
    and "socks (interrupts (ev n) t) = socks t"
    and "Timer_CurrentTicks (interrupts (ev n) s) = (if ev n = [Tick] then Timer_CurrentTicks s + 1 else Timer_CurrentTicks s)"
  by (simp_all add: clock_interrupts [OF assms])

lemma idle_turn: "Buffer_first s = Buffer_next s \<Longrightarrow> packet_process_single user s = Some (ip_frags_check_overdue s)"
  by (simp add: packet_process_single_def)

definition close_diff :: "nat \<Rightarrow> 'a tcp_state_scheme \<Rightarrow> nat" where
  "close_diff this s = unat (Timer_diff (closeStarted (socks s this)) (Timer_CurrentTicks s))"

lemma close_diff_view: "blk_view i t = blk_view i s \<Longrightarrow> close_diff i t = close_diff i s"
  by (simp add: blk_view_def close_diff_def)

lemma close_loop_turn:
  assumes ev: "clock_only ev" and "Buffer_first s = Buffer_next s"
  shows "(\<exists>s'. close_loop user ev n this s = Some (Suc n, s') \<and> state (socks s' this) = TCP_STATE_CLOSED) \<or>
    close_diff this (interrupts (ev n) s) < 272 \<and>
    (\<exists>t. close_loop user ev n this s = close_loop user ev (Suc n) this t \<and>
      blk_view this t = blk_view this (interrupts (ev n) s))"
proof -
  let ?u = "interrupts (ev n) s"
  have T: "TIMER_MS_TO_TICKS TCP_CLOSE_TIMEOUT = 272" by (simp add: TIMER_MS_TO_TICKS_def cfg_defs)
  have r: "Buffer_first ?u = Buffer_next ?u" using assms(2) by (simp add: interrupts_keep [OF ev])
  show ?thesis
  proof (cases "snd (isCloseDone this ?u)")
    case True
    then have "state (socks (fst (isCloseDone this ?u)) this) = TCP_STATE_CLOSED"
      by (auto simp: isCloseDone_def Let_def split: if_splits)
    then show ?thesis using True by (subst close_loop.simps) (simp add: Let_def)
  next
    case False
    then have "fst (isCloseDone this ?u) = ?u" "close_diff this ?u < 272"
      by (auto simp: isCloseDone_def Let_def close_diff_def T word_less_nat_alt split: if_splits)
    then show ?thesis
      using False r by (subst (2) close_loop.simps) (auto simp: Let_def idle_turn)
  qed
qed

lemma blk_viewD:
  assumes "blk_view i t = blk_view i s"
  shows "Timer_CurrentTicks t = Timer_CurrentTicks s" "Buffer_first t = Buffer_first s" "Buffer_next t = Buffer_next s"
    "closeStarted (socks t i) = closeStarted (socks s i)"
  using assms by (simp_all add: blk_view_def)

lemma u32_step:
  assumes "unat (x - c) < 4294967295"
  shows "unat (x + 1 - c :: u32) = Suc (unat (x - c))"
proof -
  have "x + 1 - c = (x - c) + 1" by simp
  moreover have "unat ((x - c) + 1) = Suc (unat (x - c))"
    using assms unat_word_ariths(1) [of "x - c" 1] by simp
  ultimately show ?thesis by (simp only:)
qed

lemma close_diff_tick:
  assumes "clock_only ev" and "close_diff this s < 272"
  shows "close_diff this (interrupts (ev n) s) = (if ev n = [Tick] then Suc (close_diff this s) else close_diff this s)"
  using assms u32_step [of "Timer_CurrentTicks s" "closeStarted (socks s this)"]
  by (simp add: close_diff_def interrupts_keep Timer_diff_def)

definition close_returns_from :: "'a user \<Rightarrow> (nat \<Rightarrow> intr list) \<Rightarrow> nat \<Rightarrow> nat \<Rightarrow> 'a dns_state_scheme \<Rightarrow> bool" where
  "close_returns_from user ev n this s \<longleftrightarrow>
     (\<exists>n' s'. close_loop user ev n this s = Some (n', s') \<and> state (socks s' this) = TCP_STATE_CLOSED)"

text \<open>One turn either closes the socket or leaves a state with the same clock and an empty ring.\<close>

lemma close_loop_cases:
  assumes "clock_only ev" and "Buffer_first s = Buffer_next s"
  obtains "close_returns_from user ev n this s"
    | u where "close_returns_from user ev n this s \<longleftrightarrow> close_returns_from user ev (Suc n) this u"
      and "Buffer_first u = Buffer_next u" and "close_diff this u = close_diff this (interrupts (ev n) s)"
      and "close_diff this u < 272"
proof -
  from close_loop_turn [OF assms, of user n this] consider
      (fin) "close_returns_from user ev n this s"
    | (on) u where "close_loop user ev n this s = close_loop user ev (Suc n) this u"
      "blk_view this u = blk_view this (interrupts (ev n) s)" "close_diff this (interrupts (ev n) s) < 272"
    by (auto simp: close_returns_from_def)
  then show thesis
  proof cases
    case on
    have "Buffer_first u = Buffer_next u"
      using blk_viewD [OF on(2)] assms(2) by (simp add: interrupts_keep [OF assms(1)])
    then show thesis using that(2) [of u] on close_diff_view [OF on(2)] by (simp add: close_returns_from_def)
  qed (rule that(1))
qed

lemma close_loop_counts:
  assumes ev: "clock_only ev"
  shows "close_diff this t < 272 \<Longrightarrow> Buffer_first t = Buffer_next t \<Longrightarrow> 272 \<le> close_diff this t + k \<Longrightarrow>
    close_returns_from user ev n this t"
proof (induction k arbitrary: n t)
  case (Suc k)
  note outer = Suc.IH
  from ev show ?case using Suc.prems
  proof (induction n arbitrary: t rule: tick_induct)
    case (tick n)
    from ev tick(3) show ?case
    proof (cases rule: close_loop_cases [of ev t user n this])
      case (2 u)
      then show ?thesis using outer [of u "Suc n"] tick close_diff_tick [OF ev tick(2), of n] by simp
    qed
  next
    case (quiet n)
    from ev quiet(4) show ?case
    proof (cases rule: close_loop_cases [of ev t user n this])
      case (2 u)
      then show ?thesis using quiet close_diff_tick [OF ev quiet(3), of n] by simp
    qed
  qed
qed simp

lemma close_loop_returns:
  assumes "clock_only ev" and "Buffer_first s = Buffer_next s"
  shows "close_returns_from user ev n this s"
  using assms
proof (cases rule: close_loop_cases [of ev s user n this])
  case (2 u)
  then show ?thesis using close_loop_counts [OF assms(1), of this u 272 user "Suc n"] by simp
qed

lemma wait_tick_returns:
  assumes "clock_only ev"
  shows "\<exists>m. wait_tick ev n lastCheck s =
    Some (m, if Timer_CurrentTicks s = lastCheck then s\<lparr>Timer_CurrentTicks := lastCheck + 1\<rparr> else s)"
proof (cases "Timer_CurrentTicks s = lastCheck")
  case True
  from assms show ?thesis
    using True
  proof (induction n arbitrary: rule: tick_induct)
    case (tick n)
    then show ?case
      by (subst wait_tick.simps, subst wait_tick.simps) (auto simp: interrupts_def)
  next
    case (quiet n)
    then show ?case by (subst wait_tick.simps) (simp add: interrupts_def)
  qed
qed (subst wait_tick.simps, simp)

definition connect_times_out_from ::
    "'a user \<Rightarrow> (nat \<Rightarrow> intr list) \<Rightarrow> nat \<Rightarrow> nat \<Rightarrow> u32 \<Rightarrow> u32 \<Rightarrow> u32 \<Rightarrow> 'a dns_state_scheme \<Rightarrow> bool" where
  "connect_times_out_from user ev n this start lastCheck timeoutMs s \<longleftrightarrow>
     (\<exists>n' s'. connect_loop user ev n this start lastCheck timeoutMs s = Some (n', s', TCP_RC_TIMEOUT) \<and>
        unat (Timer_diff start (Timer_CurrentTicks s')) \<in> {unat (timeoutMs div 55) <.. unat (timeoutMs div 55) + 2})"

lemma connect_loop_turn:
  assumes ev: "clock_only ev" and "Buffer_first s = Buffer_next s" and "unconnected this s"
    and "Timer_CurrentTicks s = lastCheck" and "unat (Timer_diff start lastCheck) = d" and "d \<le> unat (timeoutMs div 55) + 1"
  obtains "connect_times_out_from user ev n this start lastCheck timeoutMs s"
    | t m where "connect_times_out_from user ev n this start lastCheck timeoutMs s \<longleftrightarrow>
        connect_times_out_from user ev m this start (lastCheck + 1) timeoutMs t"
      and "Buffer_first t = Buffer_next t" "unconnected this t" "Timer_CurrentTicks t = lastCheck + 1"
      and "unat (Timer_diff start (lastCheck + 1)) = Suc d" and "Suc d \<le> unat (timeoutMs div 55) + 1"
proof -
  define u where "u = interrupts (ev n) s"
  define v where "v = driveArp (drivePackets (ip_frags_check_overdue u))"
  have T: "unat (timeoutMs div 55) < 4294967290" using u32_bound [of timeoutMs] by (simp add: unat_div)
  have uk: "Buffer_first u = Buffer_next u" "unconnected this u" "Timer_CurrentTicks u = (if ev n = [Tick] then lastCheck + 1 else lastCheck)"
    using assms(2-4) by (simp_all add: u_def interrupts_keep [OF ev] unconnected_def)
  have vk: "Buffer_first v = Buffer_next v" "Timer_CurrentTicks v = Timer_CurrentTicks u"
    using blk_viewD [of this v u] uk(1) by (simp_all add: v_def)
  have uv: "unconnected this v"
    using drivePackets_unconnected [of this "ip_frags_check_overdue u"] uk(2)
    by (simp add: v_def unconnected_def idle_socks)
  have suc: "unat (Timer_diff start (lastCheck + 1)) = Suc d"
    using u32_step [of lastCheck start] assms(5,6) T by (simp add: Timer_diff_def)
  have nc: "\<not> isConnectComplete (socks v this)" using uv by (auto simp: unconnected_def isConnectComplete_def)
  have step: "connect_loop user ev n this start lastCheck timeoutMs s =
      (if timeoutMs div 55 < Timer_diff start (Timer_CurrentTicks v) then Some (Suc n, v, TCP_RC_TIMEOUT)
       else (case wait_tick ev (Suc n) lastCheck v of
               None \<Rightarrow> None | Some (n, s) \<Rightarrow> connect_loop user ev n this start (Timer_CurrentTicks s) timeoutMs s))"
    by (subst connect_loop.simps) (simp add: u_def [symmetric] idle_turn [OF uk(1)] Let_def v_def [symmetric] nc TIMER_MS_TO_TICKS_def)
  show thesis
  proof (cases "timeoutMs div 55 < Timer_diff start (Timer_CurrentTicks v)")
    case True
    then have "unat (timeoutMs div 55) < unat (Timer_diff start (Timer_CurrentTicks v))" by (simp add: word_less_nat_alt)
    moreover have "unat (Timer_diff start (Timer_CurrentTicks v)) \<le> Suc d" using suc assms(5) by (simp add: vk uk)
    ultimately show thesis
      using True step assms(6) by (intro that(1)) (simp add: connect_times_out_from_def)
  next
    case False
    define t where "t = (if Timer_CurrentTicks v = lastCheck then v\<lparr>Timer_CurrentTicks := lastCheck + 1\<rparr> else v)"
    obtain m where m: "wait_tick ev (Suc n) lastCheck v = Some (m, t)"
      using wait_tick_returns [OF ev, of "Suc n" lastCheck v] t_def by blast
    have tk: "Timer_CurrentTicks t = lastCheck + 1" "Buffer_first t = Buffer_next t" "unconnected this t"
      using vk uk uv by (auto simp: t_def unconnected_def)
    have "d \<le> unat (timeoutMs div 55)"
      using False suc assms(5) by (auto simp: vk uk word_less_nat_alt not_less split: if_splits)
    then show thesis
      using step False m tk suc by (intro that(2) [of m t]) (simp_all add: connect_times_out_from_def)
  qed
qed

lemma connect_loop_times_out:
  assumes "clock_only ev"
  shows "Buffer_first s = Buffer_next s \<Longrightarrow> unconnected this s \<Longrightarrow> Timer_CurrentTicks s = lastCheck \<Longrightarrow>
    unat (Timer_diff start lastCheck) + k = unat (timeoutMs div 55) + 1 \<Longrightarrow>
    connect_times_out_from user ev n this start lastCheck timeoutMs s"
proof (induction k arbitrary: n s lastCheck)
  case 0
  show ?case
    by (rule connect_loop_turn [OF assms 0(1,2,3) refl, of start timeoutMs user n]) (use 0 in simp_all)
next
  case (Suc k)
  show ?case
    by (rule connect_loop_turn [OF assms Suc.prems(1,2,3) refl, of start timeoutMs user n])
      (use Suc in simp_all)
qed

lemma enqueue_view: "blk_view i (fst (enqueue j b s)) = blk_view i s"
  by (simp add: enqueue_def drop_queued_ack_def Let_def split_beta split: option.split)

lemma makeActive_view: "blk_view i (makeActive j s) = blk_view i s" "socks (makeActive j s) = socks s"
  by (simp_all add: makeActive_def blk_view_def Let_def split: option.split)

lemma connect2_starts:
  fixes s :: "'a tcp_state_scheme" and p1 p2 :: u16 and h :: IpAddr and this :: nat
  assumes "state (socks s this) = TCP_STATE_CLOSED"
  defines "r \<equiv> connect2 this p1 h p2 s"
  shows "snd r = 0" and "blk_view i (fst r) = blk_view i s" and "unconnected this (fst r)"
proof -
  have e: "state (socks (fst (enqueue this b t)) this) = state (socks t this)" for b and t :: "'a tcp_state_scheme"
    using sk_coreD [OF enqueue_core(1) [of this b t this]] by simp
  show "snd r = 0" "blk_view i (fst r) = blk_view i s"
    using assms(1) by (simp_all add: r_def connect2_def Let_def enqueue_view makeActive_view)
  show "unconnected this (fst r)"
    using assms(1) by (simp add: r_def connect2_def Let_def e makeActive_view unconnected_def upd_sock_def upd_buf_def)
qed

section \<open>Properties\<close>

text \<open>
  C28. A blocking connect to a peer that never answers returns: if only the clock interrupts, the
  receive ring is empty and the socket is closed, \<open>connect\<close> comes back with \<open>TCP_RC_TIMEOUT\<close>, later
  than the timeout it was given and at most two ticks late.
\<close>

theorem connect_returns:
  assumes "clock_only ev" and "Buffer_first s = Buffer_next s" and "state (socks s this) = TCP_STATE_CLOSED"
  shows "\<exists>n' s'. connect user ev n this p1 h p2 timeoutMs s = Some (n', s', TCP_RC_TIMEOUT) \<and>
    unat (Timer_diff (Timer_CurrentTicks s) (Timer_CurrentTicks s')) \<in> {unat (timeoutMs div 55) <.. unat (timeoutMs div 55) + 2}"
proof -
  let ?t = "fst (connect2 this p1 h p2 s)"
  note c = connect2_starts [OF assms(3), where ?p1.0 = p1 and h = h and ?p2.0 = p2]
  have "Buffer_first ?t = Buffer_next ?t" and t: "Timer_CurrentTicks ?t = Timer_CurrentTicks s"
    using blk_viewD [OF c(2) [of this]] assms(2) by simp_all
  then have "connect_times_out_from user ev n this (Timer_CurrentTicks s) (Timer_CurrentTicks s) timeoutMs ?t"
    using connect_loop_times_out [OF assms(1), of ?t this "Timer_CurrentTicks s" "Timer_CurrentTicks s"] c(3)
    by (simp add: Timer_diff_def)
  then show ?thesis
    using c(1) t by (simp add: connect_def split_beta connect_times_out_from_def)
qed

definition demo_clock :: "nat \<Rightarrow> intr list" where
  "demo_clock n = (if even n then [Tick] else [])"

lemma demo_clock: "clock_only demo_clock"
proof -
  have "demo_clock (n + (if even n then 0 else 1)) = [Tick]" for n by (simp add: demo_clock_def)
  then show ?thesis unfolding clock_only_def by (metis demo_clock_def)
qed

theorem connect_returns_witness:
  "\<exists>n' s'. connect (\<lambda>_ _ s. s) demo_clock 0 0 1025 (10, 0, 0, 9) 6667 1000 zero_dns_state = Some (n', s', TCP_RC_TIMEOUT)"
proof -
  have "Buffer_first zero_dns_state = Buffer_next zero_dns_state" "state (socks zero_dns_state 0) = TCP_STATE_CLOSED"
    by (simp_all add: zero_dns zero_socket_def)
  from connect_returns [OF demo_clock this] show ?thesis by blast
qed

text \<open>
  C29. A blocking close returns: if only the clock interrupts and the receive ring is empty, \<open>close\<close>
  comes back with the socket in the state \<open>CLOSED\<close>, whatever state the connection was in.
\<close>

theorem close_returns:
  assumes "clock_only ev" and "Buffer_first s = Buffer_next s"
  shows "\<exists>n' s'. close user ev n this s = Some (n', s') \<and> state (socks s' this) = TCP_STATE_CLOSED"
proof -
  let ?t = "closeLocal this (start_close this s)"
  have "Buffer_first ?t = Buffer_first s \<and> Buffer_next ?t = Buffer_next s"
    using blk_viewD [of this ?t "start_close this s"]
    by (simp add: closeLocal_def Let_def split_beta enqueue_view) (simp add: start_close_def upd_sock_def)
  then show ?thesis
    using close_loop_returns [OF assms(1), of ?t user n this] assms(2) by (simp add: close_def close_returns_from_def)
qed

theorem close_returns_witness:
  "\<exists>n' s'. close (\<lambda>_ _ s. s) demo_clock 0 0 (upd_sock 0 (\<lambda>k. k\<lparr>state := TCP_STATE_ESTABLISHED\<rparr>) zero_dns_state) = Some (n', s') \<and>
     state (socks s' 0) = TCP_STATE_CLOSED"
proof -
  let ?s = "upd_sock 0 (\<lambda>k. k\<lparr>state := TCP_STATE_ESTABLISHED\<rparr>) zero_dns_state"
  have "Buffer_first ?s = Buffer_next ?s" by (simp add: upd_sock_def zero_dns)
  from close_returns [OF demo_clock this] show ?thesis by blast
qed

end
