(* ===== verification/Timer.thy ===== *)
theory Timer
  imports Stack
begin

text \<open>
  The timer interrupt of \<^verbatim>\<open>code/TCPLIB/TIMER.CPP\<close>: hooking the vector, the tick handler and the
  countdown timers it drives.

  A countdown timer is an address; \<open>timer_cells\<close> is the memory these addresses point into, and
  address 0 is the null pointer a static array starts with.  \<open>None\<close> is an access outside
  \<^verbatim>\<open>countdownTimers\<close> or through the null pointer.  Interrupts are off in the functions below, or a
  late tick does no harm there, so each of them is one step.
\<close>

datatype tick_fn = BiosTick | Timer_tick

record timer_state = dns_state +
  vect_1c :: tick_fn
  timer_hooked :: bool
  Timer_old_tick_handler :: tick_fn
  countdownTimers :: "nat \<Rightarrow> nat"
  activeTimers :: u16
  timer_cells :: "nat \<Rightarrow> u16"

definition zero_timer_state :: timer_state where
  "zero_timer_state = dns_state.extend zero_dns_state (timer_state.fields BiosTick False BiosTick (\<lambda>_. 0) 0 (\<lambda>_. 0))"

lemmas zero_timer = zero_timer_state_def zero_dns timer_state.defs

definition Timer_start :: "'a timer_state_scheme \<Rightarrow> 'a timer_state_scheme" where
  "Timer_start s = s\<lparr>Timer_old_tick_handler := vect_1c s, vect_1c := Timer_tick, timer_hooked := True\<rparr>"

definition Timer_stop :: "'a timer_state_scheme \<Rightarrow> 'a timer_state_scheme" where
  "Timer_stop s = (if timer_hooked s then s\<lparr>vect_1c := Timer_old_tick_handler s, timer_hooked := False\<rparr> else s)"

definition Timer_manageTimer :: "nat \<Rightarrow> 'a timer_state_scheme \<Rightarrow> 'a timer_state_scheme" where
  "Timer_manageTimer p s =
     (if activeTimers s < 10
      then s\<lparr>countdownTimers := (countdownTimers s)(unat (activeTimers s) := p), activeTimers := activeTimers s + 1\<rparr>
      else s)"

text \<open>The loop of the tick handler: from slot \<open>i\<close> on, \<open>k\<close> slots.\<close>

fun tick_loop :: "nat \<Rightarrow> nat \<Rightarrow> 'a timer_state_scheme \<Rightarrow> 'a timer_state_scheme option" where
  "tick_loop i 0 s = Some s"
| "tick_loop i (Suc k) s =
     (let p = countdownTimers s i
      in if 10 \<le> i \<or> p = 0 then None
         else tick_loop (Suc i) k
                (if 0 < timer_cells s p then s\<lparr>timer_cells := (timer_cells s)(p := timer_cells s p - 1)\<rparr> else s))"

definition Timer_tick_handler :: "'a timer_state_scheme \<Rightarrow> 'a timer_state_scheme option" where
  "Timer_tick_handler s =
     tick_loop 0 (unat (activeTimers s)) (s\<lparr>Timer_CurrentTicks := Timer_CurrentTicks s + 1\<rparr>)"

text \<open>
  The loop of \<^verbatim>\<open>Timer_stopManagingTimer\<close>, whose condition counts \<^verbatim>\<open>activeTimers\<close> up each time it is
  evaluated.
\<close>

function stop_loop :: "nat \<Rightarrow> nat \<Rightarrow> 'a timer_state_scheme \<Rightarrow> 'a timer_state_scheme option" where
  "stop_loop p i s =
     (let more = i < unat (activeTimers s); s = s\<lparr>activeTimers := activeTimers s + 1\<rparr>
      in if \<not> more then Some s
         else if 10 \<le> i then None
         else if countdownTimers s i \<noteq> p then stop_loop p (Suc i) s
         else if 10 < unat (activeTimers s) \<or> activeTimers s = 0 then None
         else stop_loop p (Suc i)
                (s\<lparr>countdownTimers := (countdownTimers s)(i := countdownTimers s (unat (activeTimers s) - 1)),
                   activeTimers := activeTimers s - 1\<rparr>))"
  by pat_completeness auto

termination stop_loop
  by (relation "measure (\<lambda>(p, i, s). 10 - i)") auto

declare stop_loop.simps [simp del]

definition Timer_stopManagingTimer :: "nat \<Rightarrow> 'a timer_state_scheme \<Rightarrow> 'a timer_state_scheme option" where
  "Timer_stopManagingTimer p s = stop_loop p 0 s"

text \<open>The macros that load a countdown timer from milliseconds, seconds or minutes.\<close>

definition Timer_SetCountdownTimerMs :: "nat \<Rightarrow> u32 \<Rightarrow> 'a timer_state_scheme \<Rightarrow> 'a timer_state_scheme" where
  "Timer_SetCountdownTimerMs a b s = s\<lparr>timer_cells := (timer_cells s)(a := ucast (b div 55))\<rparr>"

definition Timer_SetCountdownTimerSecs :: "nat \<Rightarrow> u32 \<Rightarrow> 'a timer_state_scheme \<Rightarrow> 'a timer_state_scheme" where
  "Timer_SetCountdownTimerSecs a b s = s\<lparr>timer_cells := (timer_cells s)(a := ucast (b * 18))\<rparr>"

definition Timer_SetCountdownTimerMins :: "nat \<Rightarrow> u32 \<Rightarrow> 'a timer_state_scheme \<Rightarrow> 'a timer_state_scheme" where
  "Timer_SetCountdownTimerMins a b s = s\<lparr>timer_cells := (timer_cells s)(a := ucast (b * 1092))\<rparr>"

definition Timer_isExpired :: "nat \<Rightarrow> 'a timer_state_scheme \<Rightarrow> bool" where
  "Timer_isExpired a s \<longleftrightarrow> timer_cells s a = 0"

section \<open>Properties\<close>

text \<open>Without managed timers the handler does what \<open>interrupt\<close> says of a tick.\<close>

lemma tick_no_timers: "activeTimers s = 0 \<Longrightarrow> Timer_tick_handler s = Some (interrupt Tick s)"
  by (simp add: Timer_tick_handler_def)

definition ticks :: "nat \<Rightarrow> 'a timer_state_scheme \<Rightarrow> 'a timer_state_scheme option" where
  "ticks n s = ((\<lambda>r. Option.bind r Timer_tick_handler) ^^ n) (Some s)"

text \<open>The managed timers are different cells.\<close>

definition timers_wf :: "'a timer_state_scheme \<Rightarrow> bool" where
  "timers_wf s \<longleftrightarrow> activeTimers s \<le> 10 \<and> inj_on (countdownTimers s) {..<unat (activeTimers s)} \<and>
     0 \<notin> countdownTimers s ` {..<unat (activeTimers s)}"

definition managed :: "'a timer_state_scheme \<Rightarrow> nat set" where
  "managed s = countdownTimers s ` {..<unat (activeTimers s)}"

lemma tick_loop_counts:
  assumes "i + k \<le> 10" and "inj_on (countdownTimers s) {i..<i + k}" and "0 \<notin> countdownTimers s ` {i..<i + k}"
  shows "tick_loop i k s =
    Some (s\<lparr>timer_cells := \<lambda>p. if p \<in> countdownTimers s ` {i..<i + k} then timer_cells s p - (if timer_cells s p = 0 then 0 else 1)
                              else timer_cells s p\<rparr>)"
  using assms
proof (induction k arbitrary: i s)
  case (Suc k)
  let ?p = "countdownTimers s i"
  let ?t = "if 0 < timer_cells s ?p then s\<lparr>timer_cells := (timer_cells s)(?p := timer_cells s ?p - 1)\<rparr> else s"
  have p0: "?p \<noteq> 0" and i: "i < 10" using Suc.prems by (auto simp: image_iff dest!: bspec)
  have set: "{i..<i + Suc k} = insert i {Suc i..<Suc i + k}" by auto
  have new: "?p \<notin> countdownTimers s ` {Suc i..<Suc i + k}"
    using Suc.prems(2) unfolding set by (auto simp: inj_on_def)
  have ct: "countdownTimers ?t = countdownTimers s" by simp
  have "tick_loop (Suc i) k ?t = Some (?t\<lparr>timer_cells := \<lambda>p. if p \<in> countdownTimers s ` {Suc i..<Suc i + k}
      then timer_cells ?t p - (if timer_cells ?t p = 0 then 0 else 1) else timer_cells ?t p\<rparr>)"
    using Suc.IH [of "Suc i" ?t] Suc.prems unfolding ct set by (auto simp: inj_on_def)
  moreover have "(\<lambda>p. if p \<in> countdownTimers s ` {Suc i..<Suc i + k}
      then timer_cells ?t p - (if timer_cells ?t p = 0 then 0 else 1) else timer_cells ?t p) =
    (\<lambda>p. if p \<in> countdownTimers s ` {i..<i + Suc k} then timer_cells s p - (if timer_cells s p = 0 then 0 else 1)
         else timer_cells s p)"
    unfolding set using new by (auto simp: fun_eq_iff word_gt_0)
  ultimately show ?case using p0 i by (simp add: Let_def)
qed simp

lemma tick_counts:
  assumes "timers_wf s"
  shows "Timer_tick_handler s = Some (s\<lparr>Timer_CurrentTicks := Timer_CurrentTicks s + 1,
    timer_cells := \<lambda>p. if p \<in> managed s then timer_cells s p - (if timer_cells s p = 0 then 0 else 1) else timer_cells s p\<rparr>)"
proof -
  define t where "t = s\<lparr>Timer_CurrentTicks := Timer_CurrentTicks s + 1\<rparr>"
  have t: "timer_cells t = timer_cells s" "countdownTimers t = countdownTimers s" "activeTimers t = activeTimers s"
    by (simp_all add: t_def)
  have "Timer_tick_handler s = Some (t\<lparr>timer_cells := \<lambda>p. if p \<in> managed s
      then timer_cells s p - (if timer_cells s p = 0 then 0 else 1) else timer_cells s p\<rparr>)"
    using tick_loop_counts [of 0 "unat (activeTimers s)" t, unfolded t] assms
    by (simp add: Timer_tick_handler_def t_def [symmetric] timers_wf_def managed_def atLeast0LessThan word_le_nat_alt)
  then show ?thesis by (simp add: t_def)
qed

lemma managed_cong: "countdownTimers t = countdownTimers s \<Longrightarrow> activeTimers t = activeTimers s \<Longrightarrow> managed t = managed s"
  "countdownTimers t = countdownTimers s \<Longrightarrow> activeTimers t = activeTimers s \<Longrightarrow> timers_wf t = timers_wf s"
  by (simp_all add: managed_def timers_wf_def)

lemma ticks_count:
  assumes "timers_wf s"
  shows "\<exists>t. ticks n s = Some t \<and> countdownTimers t = countdownTimers s \<and> activeTimers t = activeTimers s \<and>
    Timer_CurrentTicks t = Timer_CurrentTicks s + of_nat n \<and>
    (\<forall>p. unat (timer_cells t p) = unat (timer_cells s p) - (if p \<in> managed s then n else 0))"
proof (induction n)
  case 0
  show ?case by (simp add: ticks_def)
next
  case (Suc n)
  then obtain t where t: "ticks n s = Some t" "countdownTimers t = countdownTimers s" "activeTimers t = activeTimers s"
      "Timer_CurrentTicks t = Timer_CurrentTicks s + of_nat n"
    and c: "\<And>p. unat (timer_cells t p) = unat (timer_cells s p) - (if p \<in> managed s then n else 0)"
    by blast
  have down: "unat (w - (if w = 0 then 0 else 1)) = unat w - 1" for w :: u16
    by (simp add: unat_minus_one)
  have "ticks (Suc n) s = Timer_tick_handler t" using t(1) by (simp add: ticks_def)
  then show ?case
    using tick_counts [of t] assms managed_cong [OF t(2,3)] t(2-4) c by (simp add: down add.assoc)
qed

lemma manage_adds:
  assumes "timers_wf s" and "activeTimers s < 10" and "p \<noteq> 0" and "p \<notin> managed s"
  shows "timers_wf (Timer_manageTimer p s) \<and> managed (Timer_manageTimer p s) = insert p (managed s)"
proof -
  let ?n = "unat (activeTimers s)"
  have n: "unat (activeTimers s + 1) = Suc ?n" "?n < 10"
    using assms(2) by (simp_all add: word_less_nat_alt unat_word_ariths)
  have m: "?n < 10 \<Longrightarrow> activeTimers s + 1 \<le> 10" using n by (simp add: word_le_nat_alt)
  have set: "{..<Suc ?n} = insert ?n {..<?n}" by auto
  have old: "((countdownTimers s)(?n := p)) ` {..<?n} = managed s" by (auto simp: managed_def)
  have rest: "{..<?n} \<inter> {x. x \<noteq> ?n} = {..<?n}" by auto
  have "inj_on ((countdownTimers s)(?n := p)) {..<Suc ?n}"
    unfolding set using assms(1,4) by (auto simp: inj_on_def timers_wf_def managed_def)
  then show ?thesis
    using assms n m old [unfolded managed_def] unfolding Timer_manageTimer_def timers_wf_def managed_def
    by (simp add: set rest)
qed

text \<open>
  Countdown timers count the clock down to zero and stop there: once a timer is managed, \<open>n\<close>
  interrupts move the clock by \<open>n\<close> ticks and every managed timer towards zero by as many, never past
  it; no other memory changes.
\<close>

lemma countdown_timers_expire:
  assumes "timers_wf s" and "activeTimers s < 10" and "p \<noteq> 0" and "p \<notin> managed s"
  shows "\<exists>t. ticks n (Timer_manageTimer p s) = Some t \<and> Timer_CurrentTicks t = Timer_CurrentTicks s + of_nat n \<and>
    (Timer_isExpired p t \<longleftrightarrow> unat (timer_cells s p) \<le> n) \<and>
    (\<forall>q. unat (timer_cells t q) = unat (timer_cells s q) - (if q = p \<or> q \<in> managed s then n else 0))"
proof -
  let ?m = "Timer_manageTimer p s"
  note m = manage_adds [OF assms]
  have f: "timer_cells ?m = timer_cells s" "Timer_CurrentTicks ?m = Timer_CurrentTicks s"
    by (simp_all add: Timer_manageTimer_def)
  from ticks_count [OF conjunct1 [OF m], of n] obtain t where
    "ticks n ?m = Some t" "Timer_CurrentTicks t = Timer_CurrentTicks s + of_nat n"
    and c: "\<And>q. unat (timer_cells t q) = unat (timer_cells s q) - (if q = p \<or> q \<in> managed s then n else 0)"
    unfolding f m [THEN conjunct2] insert_iff by blast
  moreover have "Timer_isExpired p t \<longleftrightarrow> unat (timer_cells s p) \<le> n"
    using c [of p] by (simp add: Timer_isExpired_def unat_eq_zero [symmetric] del: unat_eq_zero)
  ultimately show ?thesis by blast
qed

lemma stop_single:
  assumes "activeTimers s = 1" and "countdownTimers s 0 = p" and "countdownTimers s 1 = 0"
  shows "Timer_stopManagingTimer p s = Some (s\<lparr>countdownTimers := (countdownTimers s)(0 := 0), activeTimers := 2\<rparr>)"
  using assms by (simp add: Timer_stopManagingTimer_def stop_loop.simps Let_def)

text \<open>
  The loop of \<open>Timer_stopManagingTimer\<close> counts \<open>activeTimers\<close> up in its condition: taking back the
  only managed timer leaves two active timers whose slots are null, and the next tick reads through
  the null pointer.
\<close>

lemma stop_managing_breaks_timers:
  assumes "activeTimers s = 0" and "countdownTimers s 1 = 0"
  shows "Timer_stopManagingTimer p (Timer_manageTimer p s) =
      Some (s\<lparr>countdownTimers := (countdownTimers s)(0 := 0), activeTimers := 2\<rparr>) \<and>
    Timer_tick_handler (the (Timer_stopManagingTimer p (Timer_manageTimer p s))) = None"
proof -
  have "Timer_manageTimer p s = s\<lparr>countdownTimers := (countdownTimers s)(0 := p), activeTimers := 1\<rparr>"
    using assms(1) by (simp add: Timer_manageTimer_def)
  moreover have "Timer_tick_handler (s\<lparr>countdownTimers := (countdownTimers s)(0 := 0), activeTimers := 2\<rparr>) = None"
  proof -
    have "tick_loop 0 (Suc (Suc 0)) t = None" if "countdownTimers t 0 = 0" for t :: "'a timer_state_scheme"
      using that by simp
    then show ?thesis by (simp add: Timer_tick_handler_def numeral_2_eq_2 [symmetric])
  qed
  ultimately show ?thesis
    using stop_single [of "Timer_manageTimer p s" p] assms(2) by simp
qed

end
