(* ===== verification/Config.thy ===== *)
theory Config
  imports Timer
begin

text \<open>
  The configuration of the stack: \<^verbatim>\<open>Utils::parseEnv\<close> and \<^verbatim>\<open>parseOptionalEnvVars\<close> of
  \<^verbatim>\<open>code/TCPLIB/UTILS.CPP\<close>.

  \<open>dos_env\<close> is what the program sees of the system: the environment variables, the configuration
  file \<^verbatim>\<open>MTCPCFG\<close> names and the clock.  \<open>None\<close> is an undefined effect: a keyword that ends its line
  makes \<^verbatim>\<open>sscanf\<close> read through a null pointer, and \<^verbatim>\<open>%s\<close> writes past a string variable that is too
  short.  The \<^verbatim>\<open>%x\<close> of \<^verbatim>\<open>PACKETINT\<close> stores sixteen bits at an eight-bit variable; the byte beside the
  variable is not part of the model.
\<close>

section \<open>State\<close>

definition DHCP_LEASE_THRESHOLD :: u32 where [cfg_defs]: "DHCP_LEASE_THRESHOLD = 3600"
definition ETH_MTU_MIN :: u16 where [cfg_defs]: "ETH_MTU_MIN = 46"
definition ETH_MTU_MAX :: u16 where [cfg_defs]: "ETH_MTU_MAX = 1500"
definition HOSTNAME_LEN :: nat where [cfg_defs]: "HOSTNAME_LEN = 20"
definition DNS_MAX_DOMAIN_LEN :: nat where [cfg_defs]: "DNS_MAX_DOMAIN_LEN = 50"
definition DOS_MAX_PATHFILE_LENGTH :: nat where [cfg_defs]: "DOS_MAX_PATHFILE_LENGTH = 79"

definition Parm_PacketInt :: cstr where "Parm_PacketInt = ascii ''PACKETINT''"
definition Parm_Hostname :: cstr where "Parm_Hostname = ascii ''HOSTNAME''"
definition Parm_Domain :: cstr where "Parm_Domain = ascii ''DOMAIN''"
definition Parm_IpAddr :: cstr where "Parm_IpAddr = ascii ''IPADDR''"
definition Parm_Gateway :: cstr where "Parm_Gateway = ascii ''GATEWAY''"
definition Parm_Netmask :: cstr where "Parm_Netmask = ascii ''NETMASK''"
definition Parm_Nameserver :: cstr where "Parm_Nameserver = ascii ''NAMESERVER''"
definition Parm_Nameserver_preferred :: cstr where "Parm_Nameserver_preferred = ascii ''NAMESERVER_PREFERRED''"
definition Parm_Mtu :: cstr where "Parm_Mtu = ascii ''MTU''"
definition Parm_HostsFilename :: cstr where "Parm_HostsFilename = ascii ''HOSTSFILE''"
definition Parm_Timestamp :: cstr where "Parm_Timestamp = ascii ''TIMESTAMP''"
definition Parm_LeaseTime :: cstr where "Parm_LeaseTime = ascii ''LEASE_TIME''"
definition Parm_LeaseThreshold :: cstr where "Parm_LeaseThreshold = ascii ''DHCP_LEASE_THRESHOLD''"

lemmas parm_defs = Parm_PacketInt_def Parm_Hostname_def Parm_Domain_def Parm_IpAddr_def Parm_Gateway_def
  Parm_Netmask_def Parm_Nameserver_def Parm_Nameserver_preferred_def Parm_Mtu_def Parm_HostsFilename_def
  Parm_Timestamp_def Parm_LeaseTime_def Parm_LeaseThreshold_def

record config_state = timer_state +
  packetInt :: u8
  MyHostname :: cstr
  Preferred_nameserver :: IpAddr
  Preferred_nameserver_set :: bool
  Trace_Debugging :: u16
  Trace_LogFile :: "cstr option"
  mTCP_sleepCallEnabled :: u8
  mTCP_releaseTimesliceEnabled :: u8

record dos_env =
  env_MTCPCFG :: "cstr option"
  env_file :: "cstr option"
  env_file_err :: bool
  env_DEBUGGING :: "cstr option"
  env_LOGFILE :: "cstr option"
  env_MTCPSLEEP :: "cstr option"
  env_time :: u32

text \<open>What \<^verbatim>\<open>parseEnv\<close> reports on \<^verbatim>\<open>stderr\<close> before it returns -1.\<close>

datatype config_error = NoConfigVariable | NoConfigFile | LineError
  | WrongFormat cstr | MustBeSet cstr | LeaseExpired | LeaseExpiring u32

text \<open>The local variables of \<^verbatim>\<open>parseEnv\<close>.\<close>

record parse_vars =
  pv_tmp :: "u16 list"
  pv_dhcpTimestamp :: u32
  pv_dhcpLease :: u32
  pv_dhcpLeaseThreshold :: u32
  pv_errorParm :: "cstr option"

definition zero_config_state :: config_state where
  "zero_config_state = timer_state.extend zero_timer_state (config_state.fields 0 [] IpInvalid False 0 None 1 0)"

lemmas zero_config = zero_config_state_def zero_timer config_state.defs

section \<open>One parameter\<close>

definition parse_addr ::
    "cstr \<Rightarrow> cstr \<Rightarrow> (IpAddr \<Rightarrow> 's \<Rightarrow> 's) \<Rightarrow> parse_vars \<Rightarrow> 's \<Rightarrow> (parse_vars \<times> 's) option" where
  "parse_addr parm text store v s =
     (let (rc, tmp) = sscanf_ip text (pv_tmp v);
          v = v\<lparr>pv_tmp := tmp, pv_errorParm := (if rc \<noteq> 4 then Some parm else pv_errorParm v)\<rparr>
      in Some (v, store (tmp_ip tmp) s))"

definition parse_string ::
    "cstr \<Rightarrow> nat \<Rightarrow> cstr \<Rightarrow> (cstr \<Rightarrow> 's \<Rightarrow> 's) \<Rightarrow> parse_vars \<Rightarrow> 's \<Rightarrow> (parse_vars \<times> 's) option" where
  "parse_string parm len text store v s =
     (case scan_str text of
        None \<Rightarrow> Some (v\<lparr>pv_errorParm := Some parm\<rparr>, s)
      | Some (w, _) \<Rightarrow> if len \<le> length w then None else Some (v, store w s))"

definition parse_packetInt :: "cstr \<Rightarrow> parse_vars \<Rightarrow> 'a config_state_scheme \<Rightarrow> (parse_vars \<times> 'a config_state_scheme) option" where
  "parse_packetInt text v s =
     (case scan_hex text of
        None \<Rightarrow> Some (v\<lparr>pv_errorParm := Some Parm_PacketInt\<rparr>, s)
      | Some (n, _) \<Rightarrow> Some (v, s\<lparr>packetInt := of_int n\<rparr>))"

text \<open>\<open>newMtu\<close> is what the uninitialised variable holds when the conversion fails.\<close>

definition parse_mtu :: "u16 \<Rightarrow> cstr \<Rightarrow> parse_vars \<Rightarrow> 'a config_state_scheme \<Rightarrow> (parse_vars \<times> 'a config_state_scheme) option" where
  "parse_mtu newMtu text v s =
     (let (rc, newMtu) = (case scan_dec text of None \<Rightarrow> (False, newMtu) | Some (n, _) \<Rightarrow> (True, of_int n));
          v = (if \<not> rc \<or> newMtu < ETH_MTU_MIN \<or> ETH_MTU_MAX < newMtu then v\<lparr>pv_errorParm := Some Parm_Mtu\<rparr> else v)
      in Some (v, s\<lparr>MyMTU := newMtu\<rparr>))"

definition scan_ulong :: "u32 \<Rightarrow> cstr \<Rightarrow> u32" where
  "scan_ulong d text = (case scan_dec text of None \<Rightarrow> d | Some (n, _) \<Rightarrow> of_int n)"

text \<open>The format \<^verbatim>\<open>" ( %lu )"\<close>.\<close>

definition scan_paren :: "cstr \<Rightarrow> u32" where
  "scan_paren text =
     (case dropWhile isspace text of [] \<Rightarrow> 0 | c # r \<Rightarrow> if c = 40 then scan_ulong 0 r else 0)"

definition parm_text ::
    "u16 \<Rightarrow> cstr \<Rightarrow> cstr \<Rightarrow> parse_vars \<Rightarrow> 'a config_state_scheme \<Rightarrow> (parse_vars \<times> 'a config_state_scheme) option" where
  "parm_text newMtu parmName text v s =
     (if stricmp_eq parmName Parm_PacketInt then parse_packetInt text v s
      else if stricmp_eq parmName Parm_Hostname
      then parse_string Parm_Hostname HOSTNAME_LEN text (\<lambda>w s. s\<lparr>MyHostname := w\<rparr>) v s
      else if stricmp_eq parmName Parm_IpAddr then parse_addr Parm_IpAddr text setMyIpAddr v s
      else if stricmp_eq parmName Parm_Netmask then parse_addr Parm_Netmask text setMyNetmask v s
      else if stricmp_eq parmName Parm_Gateway then parse_addr Parm_Gateway text (\<lambda>a s. s\<lparr>Gateway := a\<rparr>) v s
      else if stricmp_eq parmName Parm_Nameserver
      then parse_addr Parm_Nameserver text (\<lambda>a s. s\<lparr>NameServer := a\<rparr>) v s
      else if stricmp_eq parmName Parm_Nameserver_preferred
      then parse_addr Parm_Nameserver_preferred text
             (\<lambda>a s. s\<lparr>Preferred_nameserver := a, Preferred_nameserver_set := True\<rparr>) v s
      else if stricmp_eq parmName Parm_Domain
      then parse_string Parm_Domain DNS_MAX_DOMAIN_LEN text (\<lambda>w s. s\<lparr>Domain := w\<rparr>) v s
      else if stricmp_eq parmName Parm_HostsFilename
      then parse_string Parm_HostsFilename DOS_MAX_PATHFILE_LENGTH text (\<lambda>w s. s\<lparr>HostsFilename := w\<rparr>) v s
      else if stricmp_eq parmName Parm_Mtu then parse_mtu newMtu text v s
      else if stricmp_eq parmName Parm_Timestamp then Some (v\<lparr>pv_dhcpTimestamp := scan_paren text\<rparr>, s)
      else if stricmp_eq parmName Parm_LeaseTime then Some (v\<lparr>pv_dhcpLease := scan_ulong 0 text\<rparr>, s)
      else if stricmp_eq parmName Parm_LeaseThreshold
      then Some (v\<lparr>pv_dhcpLeaseThreshold := scan_ulong DHCP_LEASE_THRESHOLD text\<rparr>, s)
      else Some (v, s))"

definition parm_known :: "cstr \<Rightarrow> bool" where
  "parm_known parmName \<longleftrightarrow> (\<exists>p\<in>{Parm_PacketInt, Parm_Hostname, Parm_IpAddr, Parm_Netmask, Parm_Gateway, Parm_Nameserver,
     Parm_Nameserver_preferred, Parm_Domain, Parm_HostsFilename, Parm_Mtu, Parm_Timestamp, Parm_LeaseTime,
     Parm_LeaseThreshold}. stricmp_eq parmName p)"

definition parse_parm ::
    "u16 \<Rightarrow> cstr \<Rightarrow> cstr option \<Rightarrow> parse_vars \<Rightarrow> 'a config_state_scheme \<Rightarrow> (parse_vars \<times> 'a config_state_scheme) option" where
  "parse_parm newMtu parmName nextToken v s =
     (case nextToken of
        None \<Rightarrow> if parm_known parmName then None else Some (v, s)
      | Some text \<Rightarrow> parm_text newMtu parmName text v s)"

section \<open>The file\<close>

text \<open>The loop over the lines: the variables, the state, and whether a line could not be read.\<close>

function parse_loop ::
    "u16 \<Rightarrow> cfile \<Rightarrow> parse_vars \<Rightarrow> 'a config_state_scheme \<Rightarrow> (parse_vars \<times> 'a config_state_scheme \<times> bool) option" where
  "parse_loop newMtu f v s =
     (if f_eof f \<or> pv_errorParm v \<noteq> None then Some (v, s, False)
      else (case getLine True UTILS_LINEBUFFER_LEN f of
          (f', line, rc) \<Rightarrow>
            if rc \<noteq> 0 then Some (v, s, True)
            else (case getNextToken UTILS_PARAMETER_LEN (Some (fst (rtrim line))) of
                (parmName, nextToken) \<Rightarrow>
                  if parmName = [] then parse_loop newMtu f' v s
                  else (case parse_parm newMtu parmName nextToken v s of
                      None \<Rightarrow> None
                    | Some (v, s) \<Rightarrow> parse_loop newMtu f' v s))))"
  by pat_completeness auto

termination parse_loop
proof (relation "measure (\<lambda>(m, f, v, s). if f_eof f then 0 else Suc (length (f_rest f)))", goal_cases)
  case (2 m f v s f' y line rc t r)
  then have "getLine True UTILS_LINEBUFFER_LEN f = (f', line, 0)" by (cases y) auto
  then have "f_eof f' \<or> length (f_rest f') < length (f_rest f)" by (rule getLine_progress) (simp add: cfg_defs)
  then show ?case using 2(1) by auto
next
  case (3 m f v s f' y line rc t r z v' s')
  then have "getLine True UTILS_LINEBUFFER_LEN f = (f', line, 0)" by (cases y) auto
  then have "f_eof f' \<or> length (f_rest f') < length (f_rest f)" by (rule getLine_progress) (simp add: cfg_defs)
  then show ?case using 3(1) by auto
qed simp

declare parse_loop.simps [simp del]

definition lease_error :: "u32 \<Rightarrow> parse_vars \<Rightarrow> config_error option" where
  "lease_error currentTime v =
     (let end = pv_dhcpTimestamp v + pv_dhcpLease v
      in if pv_dhcpTimestamp v \<noteq> 0 \<and> 0 < pv_dhcpLease v \<and> pv_dhcpLease v < 31536000 \<and> 1199145600 < currentTime
         then (if end < currentTime then Some LeaseExpired
               else if end - currentTime < pv_dhcpLeaseThreshold v then Some (LeaseExpiring (pv_dhcpLeaseThreshold v))
               else None)
         else None)"

text \<open>The value of \<^verbatim>\<open>atoi\<close>, and the format \<^verbatim>\<open>"0x%x"\<close>.\<close>

definition atoi :: "cstr \<Rightarrow> int" where
  "atoi text = (case scan_dec text of None \<Rightarrow> 0 | Some (n, _) \<Rightarrow> n)"

definition scan_0x :: "cstr \<Rightarrow> int option" where
  "scan_0x text =
     (case text of
        a # b # r \<Rightarrow> if a = 48 \<and> b = 120 then map_option fst (scan_hex r) else None
      | _ \<Rightarrow> None)"

definition parseOptionalEnvVars :: "dos_env \<Rightarrow> 'a config_state_scheme \<Rightarrow> 'a config_state_scheme" where
  "parseOptionalEnvVars e s =
     (let s = (case env_DEBUGGING e of
                 None \<Rightarrow> s
               | Some debugging \<Rightarrow>
                   (let bits = (case scan_0x debugging of Some n \<Rightarrow> of_int n | None \<Rightarrow> of_int (atoi debugging));
                        d = Trace_Debugging s OR bits
                    in s\<lparr>Trace_Debugging := (if d AND 0xFF = 0 then 0 else d)\<rparr>));
          s = s\<lparr>Trace_LogFile := env_LOGFILE e\<rparr>
      in case env_MTCPSLEEP e of None \<Rightarrow> s | Some x \<Rightarrow> s\<lparr>mTCP_sleepCallEnabled := of_int (atoi x)\<rparr>)"

definition missing_parm :: "'a config_state_scheme \<Rightarrow> cstr option" where
  "missing_parm s =
     (if ip_isSame (MyIpAddr s) IpBroadcastNonRoutable then Some Parm_IpAddr
      else if packetInt s = 0 then Some Parm_PacketInt else None)"

definition use_preferred :: "'a config_state_scheme \<Rightarrow> 'a config_state_scheme" where
  "use_preferred s = (if Preferred_nameserver_set s then s\<lparr>NameServer := Preferred_nameserver s\<rparr> else s)"

definition parse_vars_init :: "u16 list \<Rightarrow> parse_vars" where
  "parse_vars_init tmp = \<lparr>pv_tmp = tmp, pv_dhcpTimestamp = 0, pv_dhcpLease = 0,
     pv_dhcpLeaseThreshold = DHCP_LEASE_THRESHOLD, pv_errorParm = None\<rparr>"

text \<open>
  \<^verbatim>\<open>Utils::parseEnv\<close>: the state and the error it reports; it returns 0 without an error and -1
  with one.  \<open>tmp\<close> and \<open>newMtu\<close> are what the uninitialised variables hold.
\<close>

definition parseEnv ::
    "u16 list \<Rightarrow> u16 \<Rightarrow> dos_env \<Rightarrow> 'a config_state_scheme \<Rightarrow> ('a config_state_scheme \<times> config_error option) option" where
  "parseEnv tmp newMtu e s =
     (if env_MTCPCFG e = None then Some (s, Some NoConfigVariable)
      else (case env_file e of
        None \<Rightarrow> Some (s, Some NoConfigFile)
      | Some content \<Rightarrow>
          (case parse_loop newMtu (fopen_file content (env_file_err e)) (parse_vars_init tmp) s of
             None \<Rightarrow> None
           | Some (v, s, errorWhileReadingLine) \<Rightarrow> Some
               (if errorWhileReadingLine then (s, Some LineError)
                else (case pv_errorParm v of
                  Some parm \<Rightarrow> (s, Some (WrongFormat parm))
                | None \<Rightarrow>
                    (case missing_parm s of
                       Some parm \<Rightarrow> (s, Some (MustBeSet parm))
                     | None \<Rightarrow>
                         (case lease_error (env_time e) v of
                            Some err \<Rightarrow> (s, Some err)
                          | None \<Rightarrow> (parseOptionalEnvVars e (use_preferred s), None))))))))"

lemma parse_loop_stop: "f_eof f \<or> pv_errorParm v \<noteq> None \<Longrightarrow> parse_loop m f v s = Some (v, s, False)"
  by (subst parse_loop.simps) simp

lemma parse_loop_end:
  assumes "f_rest f = []" and "\<not> f_eof f" and "\<not> f_err f" and "pv_errorParm v = None"
  shows "parse_loop m f v s = Some (v, s, False)"
  using assms
  by (subst parse_loop.simps) (simp add: getLine_def fgets_def Let_def rtrim_def getNextToken_def parse_loop_stop cfg_defs)

section \<open>What parsing keeps\<close>

text \<open>The strings fit their arrays, the MTU is one Ethernet can carry, the cached addresses are in step.\<close>

definition config_wf :: "'a config_state_scheme \<Rightarrow> bool" where
  "config_wf s \<longleftrightarrow> length (MyHostname s) < HOSTNAME_LEN \<and> length (Domain s) < DNS_MAX_DOMAIN_LEN \<and>
     length (HostsFilename s) < DOS_MAX_PATHFILE_LENGTH \<and> ETH_MTU_MIN \<le> MyMTU s \<and> MyMTU s \<le> ETH_MTU_MAX \<and> addr_sync s"

lemma config_wf_upd [simp]:
  "config_wf (s\<lparr>packetInt := p\<rparr>) = config_wf s" "config_wf (s\<lparr>Gateway := a\<rparr>) = config_wf s"
  "config_wf (s\<lparr>NameServer := a\<rparr>) = config_wf s" "config_wf (s\<lparr>Preferred_nameserver := a\<rparr>) = config_wf s"
  "config_wf (s\<lparr>Preferred_nameserver_set := b\<rparr>) = config_wf s" "config_wf (s\<lparr>Trace_Debugging := d\<rparr>) = config_wf s"
  "config_wf (s\<lparr>Trace_LogFile := l\<rparr>) = config_wf s" "config_wf (s\<lparr>mTCP_sleepCallEnabled := e\<rparr>) = config_wf s"
  by (simp_all add: config_wf_def addr_sync_def)

lemma config_wf_set:
  "config_wf s \<Longrightarrow> config_wf (setMyIpAddr a s)" "config_wf s \<Longrightarrow> config_wf (setMyNetmask a s)"
  "config_wf s \<Longrightarrow> length w < HOSTNAME_LEN \<Longrightarrow> config_wf (s\<lparr>MyHostname := w\<rparr>)"
  "config_wf s \<Longrightarrow> length w < DNS_MAX_DOMAIN_LEN \<Longrightarrow> config_wf (s\<lparr>Domain := w\<rparr>)"
  "config_wf s \<Longrightarrow> length w < DOS_MAX_PATHFILE_LENGTH \<Longrightarrow> config_wf (s\<lparr>HostsFilename := w\<rparr>)"
  "config_wf s \<Longrightarrow> ETH_MTU_MIN \<le> m \<Longrightarrow> m \<le> ETH_MTU_MAX \<Longrightarrow> config_wf (s\<lparr>MyMTU := m\<rparr>)"
  by (simp_all add: config_wf_def addr_sync_def setMyIpAddr_def setMyNetmask_def)

lemma zero_config_wf: "config_wf zero_config_state"
  by (simp add: config_wf_def cfg_defs zero_config addr_sync_def ip_u32_def IpInvalid_def)

definition parsed_ok :: "parse_vars \<Rightarrow> 'a config_state_scheme \<Rightarrow> bool" where
  "parsed_ok v s \<longleftrightarrow> config_wf s \<or> pv_errorParm v = Some Parm_Mtu"

lemma parse_addr_ok:
  assumes "parse_addr parm text store v s = Some (v', s')" and "\<And>a. config_wf (store a s)"
  shows "parsed_ok v' s'"
proof -
  have "s' = store (tmp_ip (snd (sscanf_ip text (pv_tmp v)))) s"
    using assms(1) by (auto simp: parse_addr_def split_beta Let_def)
  then show ?thesis using assms(2) by (simp add: parsed_ok_def)
qed

lemma parse_string_ok:
  assumes "parse_string parm len text store v s = Some (v', s')" and "config_wf s"
    and "\<And>w. length w < len \<Longrightarrow> config_wf (store w s)"
  shows "parsed_ok v' s'"
  using assms by (auto simp: parse_string_def parsed_ok_def split: option.splits if_splits)

lemma parse_mtu_ok: "parse_mtu m text v s = Some (v', s') \<Longrightarrow> config_wf s \<Longrightarrow> parsed_ok v' s'"
  by (auto simp: parse_mtu_def parsed_ok_def Let_def not_less split: option.splits if_splits intro!: config_wf_set)

lemma parse_packetInt_ok: "parse_packetInt text v s = Some (v', s') \<Longrightarrow> config_wf s \<Longrightarrow> parsed_ok v' s'"
  by (auto simp: parse_packetInt_def parsed_ok_def split: option.splits)

lemma parm_text_ok:
  assumes "parm_text m parmName text v s = Some (v', s')" and "config_wf s"
  shows "parsed_ok v' s'"
  using assms unfolding parm_text_def
  by (auto split: if_splits simp: config_wf_set elim: parse_packetInt_ok parse_mtu_ok parse_string_ok parse_addr_ok)
    (auto simp: parsed_ok_def)

lemma parse_loop_ok:
  "parse_loop m f v s = Some (v', s', bad) \<Longrightarrow> parsed_ok v s \<Longrightarrow> parsed_ok v' s' \<and> (bad \<longrightarrow> config_wf s')"
proof (induction m f v s rule: parse_loop.induct)
  case (1 m f v s)
  show ?case
  proof (cases "f_eof f \<or> pv_errorParm v \<noteq> None")
    case True
    then show ?thesis using 1(3,4) by (subst (asm) parse_loop.simps) auto
  next
    case False
    then have wf: "config_wf s" using 1(4) by (simp add: parsed_ok_def)
    obtain f' line rc where l: "getLine True UTILS_LINEBUFFER_LEN f = (f', line, rc)" by (metis prod_cases3)
    obtain parmName nt where t: "getNextToken UTILS_PARAMETER_LEN (Some (fst (rtrim line))) = (parmName, nt)"
      by (metis surj_pair)
    note ih = 1(1,2) [OF False l [symmetric] refl _ t [symmetric]]
    show ?thesis
    proof (cases "rc = 0 \<and> parmName \<noteq> []")
      case True
      obtain v1 s1 where p: "parse_parm m parmName nt v s = Some (v1, s1)" "parse_loop m f' v1 s1 = Some (v', s', bad)"
        using 1(3) False l t True by (subst (asm) parse_loop.simps) (auto split: option.splits)
      have "parsed_ok v1 s1"
        using p(1) wf by (auto simp: parse_parm_def parsed_ok_def dest: parm_text_ok split: option.splits if_splits)
      then show ?thesis using ih(2) p True by blast
    next
      case stop: False
      then show ?thesis using 1(3,4) False l t wf ih(1) by (subst (asm) parse_loop.simps) (auto split: if_splits)
    qed
  qed
qed

lemma parseOptionalEnvVars_keeps:
  "config_wf (parseOptionalEnvVars e s) = config_wf s" "packetInt (parseOptionalEnvVars e s) = packetInt s"
  "MyIpAddr (parseOptionalEnvVars e s) = MyIpAddr s"
  by (simp_all add: parseOptionalEnvVars_def Let_def split: option.split)

lemma use_preferred_keeps:
  "config_wf (use_preferred s) = config_wf s" "packetInt (use_preferred s) = packetInt s"
  "MyIpAddr (use_preferred s) = MyIpAddr s"
  by (simp_all add: use_preferred_def)

lemma parseEnv_ok:
  assumes "parseEnv tmp newMtu e s = Some (s', err)" and "config_wf s"
  shows "(err \<noteq> Some (WrongFormat Parm_Mtu) \<longrightarrow> config_wf s') \<and>
    (err = None \<longrightarrow> packetInt s' \<noteq> 0 \<and> MyIpAddr s' \<noteq> IpBroadcastNonRoutable)"
proof (cases "env_MTCPCFG e = None \<or> env_file e = None")
  case True
  then show ?thesis using assms by (auto simp: parseEnv_def split: option.splits if_splits)
next
  case False
  then obtain content v t bad where l:
    "parse_loop newMtu (fopen_file content (env_file_err e)) (parse_vars_init tmp) s = Some (v, t, bad)" "env_file e = Some content"
    using assms(1) by (auto simp: parseEnv_def split: option.splits)
  have ok: "parsed_ok v t" "bad \<longrightarrow> config_wf t"
    using parse_loop_ok [OF l(1)] assms(2) by (simp_all add: parsed_ok_def)
  then show ?thesis
    using assms(1) False l
    by (auto simp: parseEnv_def parsed_ok_def parseOptionalEnvVars_keeps use_preferred_keeps missing_parm_def lease_error_def
          ip_isSame_def Let_def split: if_splits option.splits)
qed

section \<open>Files that are safe to read\<close>

text \<open>The keyword of each line with the rest of the line, up to the first line that cannot be read.\<close>

function config_lines :: "cfile \<Rightarrow> (cstr \<times> cstr option) list" where
  "config_lines f =
     (if f_eof f then []
      else (case getLine True UTILS_LINEBUFFER_LEN f of
          (f', line, rc) \<Rightarrow>
            if rc \<noteq> 0 then []
            else getNextToken UTILS_PARAMETER_LEN (Some (fst (rtrim line))) # config_lines f'))"
  by pat_completeness auto

termination config_lines
proof (relation "measure (\<lambda>f. if f_eof f then 0 else Suc (length (f_rest f)))", goal_cases)
  case (2 f f' y line rc)
  then have "getLine True UTILS_LINEBUFFER_LEN f = (f', line, 0)" by (cases y) auto
  then have "f_eof f' \<or> length (f_rest f') < length (f_rest f)" by (rule getLine_progress) (simp add: cfg_defs)
  then show ?case using 2(1) by auto
qed simp

declare config_lines.simps [simp del]

text \<open>A keyword has a value, and the word that is copied to a string variable fits in it.\<close>

definition word_fits :: "nat \<Rightarrow> cstr \<Rightarrow> bool" where
  "word_fits len text \<longleftrightarrow> (case scan_str text of None \<Rightarrow> True | Some (w, _) \<Rightarrow> length w < len)"

definition parm_safe :: "cstr \<times> cstr option \<Rightarrow> bool" where
  "parm_safe x \<longleftrightarrow>
     (case x of
        (parmName, None) \<Rightarrow> \<not> parm_known parmName
      | (parmName, Some text) \<Rightarrow>
          (stricmp_eq parmName Parm_Hostname \<longrightarrow> word_fits HOSTNAME_LEN text) \<and>
          (stricmp_eq parmName Parm_Domain \<longrightarrow> word_fits DNS_MAX_DOMAIN_LEN text) \<and>
          (stricmp_eq parmName Parm_HostsFilename \<longrightarrow> word_fits DOS_MAX_PATHFILE_LENGTH text))"

lemma parse_string_safe: "word_fits len text \<Longrightarrow> parse_string parm len text store v s \<noteq> None"
  by (auto simp: word_fits_def parse_string_def split: option.splits)

lemma parse_parm_safe: "parm_safe (parmName, nt) \<Longrightarrow> parse_parm m parmName nt v s \<noteq> None"
proof (cases nt)
  case (Some val)
  assume "parm_safe (parmName, nt)"
  then have w: "stricmp_eq parmName Parm_Hostname \<longrightarrow> word_fits HOSTNAME_LEN val"
    "stricmp_eq parmName Parm_Domain \<longrightarrow> word_fits DNS_MAX_DOMAIN_LEN val"
    "stricmp_eq parmName Parm_HostsFilename \<longrightarrow> word_fits DOS_MAX_PATHFILE_LENGTH val"
    by (simp_all add: parm_safe_def Some)
  have "parse_packetInt val v s \<noteq> None" "parse_mtu m val v s \<noteq> None" "parse_addr p val f v s \<noteq> None" for p f
    by (auto simp: parse_packetInt_def parse_mtu_def parse_addr_def split_beta Let_def split: option.split)
  then show ?thesis using w by (simp add: parse_parm_def Some parm_text_def parse_string_safe del: not_None_eq)
qed (simp add: parm_safe_def parse_parm_def)

lemma parse_loop_safe:
  "\<forall>x\<in>set (config_lines f). fst x = [] \<or> parm_safe x \<Longrightarrow> parse_loop m f v s \<noteq> None"
proof (induction m f v s rule: parse_loop.induct)
  case (1 m f v s)
  show ?case
  proof (cases "f_eof f \<or> pv_errorParm v \<noteq> None")
    case True
    then show ?thesis by (simp add: parse_loop_stop)
  next
    case False
    obtain f' line rc where l: "getLine True UTILS_LINEBUFFER_LEN f = (f', line, rc)" by (metis prod_cases3)
    obtain parmName nt where t: "getNextToken UTILS_PARAMETER_LEN (Some (fst (rtrim line))) = (parmName, nt)"
      by (metis surj_pair)
    note ih = 1(1,2) [OF False l [symmetric] refl _ t [symmetric]]
    show ?thesis
    proof (cases "rc = 0")
      case True
      have "config_lines f = (parmName, nt) # config_lines f'" using False l t True by (subst config_lines.simps) simp
      then have safe: "parmName = [] \<or> parm_safe (parmName, nt)" and rest: "\<forall>x\<in>set (config_lines f'). fst x = [] \<or> parm_safe x"
        using 1(3) by auto
      show ?thesis
      proof (cases "parmName = []")
        case True
        then show ?thesis using ih(1) rest False l t \<open>rc = 0\<close> by (subst parse_loop.simps) simp
      next
        case ne: False
        then obtain v1 s1 where p: "parse_parm m parmName nt v s = Some (v1, s1)" using safe parse_parm_safe [of parmName nt m v s] by auto
        then show ?thesis using ih(2) [of "(v1, s1)" v1 s1] rest False l t ne \<open>rc = 0\<close> by (subst parse_loop.simps) simp
      qed
    qed (use False l in \<open>subst parse_loop.simps, simp\<close>)
  qed
qed

lemma parseEnv_safe:
  assumes "\<And>content. env_file e = Some content \<Longrightarrow>
    \<forall>x\<in>set (config_lines (fopen_file content (env_file_err e))). fst x = [] \<or> parm_safe x"
  shows "parseEnv tmp newMtu e s \<noteq> None"
proof (cases "env_file e")
  case (Some content)
  have "parse_loop newMtu (fopen_file content (env_file_err e)) (parse_vars_init tmp) s \<noteq> None"
    by (rule parse_loop_safe) (rule assms [OF Some])
  then show ?thesis using Some by (auto simp: parseEnv_def)
qed (simp add: parseEnv_def)

text \<open>
  C31. Parsing the configuration (a text file without NUL bytes) keeps the configuration well-typed.  When every keyword in the file has a value
  and the values of HOSTNAME, DOMAIN and HOSTSFILE are shorter than their arrays of 20, 50 and 79 characters, which
  the code does not check, \<open>parseEnv\<close> returns: the strings it stores fit their arrays, the MTU stays between 46 and 1500
  unless exactly that is reported as the error, the cached addresses stay in step; and without an error a packet
  interrupt and an address have been set.
\<close>

theorem parseEnv_well_typed:
  assumes "config_wf s"
    and "\<forall>content. env_file e = Some content \<longrightarrow>
      (\<forall>x\<in>set (config_lines (fopen_file content (env_file_err e))). fst x = [] \<or> parm_safe x)"
  shows "\<exists>s' err. parseEnv tmp newMtu e s = Some (s', err) \<and>
    (err \<noteq> Some (WrongFormat Parm_Mtu) \<longrightarrow> config_wf s') \<and>
    (err = None \<longrightarrow> packetInt s' \<noteq> 0 \<and> MyIpAddr s' \<noteq> IpBroadcastNonRoutable)"
proof -
  have "parseEnv tmp newMtu e s \<noteq> None" by (rule parseEnv_safe) (use assms(2) in blast)
  then obtain s' err where p: "parseEnv tmp newMtu e s = Some (s', err)" by auto
  from parseEnv_ok [OF p assms(1)] show ?thesis using p by blast
qed

theorem parseEnv_well_typed_witness:
  "\<exists>s' err. parseEnv [] 0 \<lparr>env_MTCPCFG = Some [], env_file = Some (ascii ''HOSTNAME box'' @ [10]), env_file_err = False,
      env_DEBUGGING = None, env_LOGFILE = None, env_MTCPSLEEP = None, env_time = 0\<rparr> zero_config_state = Some (s', err) \<and>
    (err \<noteq> Some (WrongFormat Parm_Mtu) \<longrightarrow> config_wf s')"
proof -
  let ?e = "\<lparr>env_MTCPCFG = Some [], env_file = Some (ascii ''HOSTNAME box'' @ [10]), env_file_err = False, env_DEBUGGING = None,
      env_LOGFILE = None, env_MTCPSLEEP = None, env_time = 0\<rparr>"
  have "list_all (\<lambda>x. fst x = [] \<or> parm_safe x) (config_lines (fopen_file (ascii ''HOSTNAME box'' @ [10]) False))"
    by code_simp
  then have "\<forall>x\<in>set (config_lines (fopen_file (ascii ''HOSTNAME box'' @ [10]) False)). fst x = [] \<or> parm_safe x"
    by (simp add: list_all_iff)
  then show ?thesis using parseEnv_well_typed [of zero_config_state ?e "[]" 0] zero_config_wf by auto
qed

end
