(* ===== verification/ConfigFile.thy ===== *)
theory ConfigFile
  imports Config
begin

text \<open>
  The configuration file and its parser: writing settings in the syntax of the file and running
  \<open>parseEnv\<close> over them sets exactly these values, in the order of the lines.
\<close>

unbundle bit_operations_syntax

section \<open>Writing numbers\<close>

fun dec :: "nat \<Rightarrow> cstr" where
  "dec n = (if n < 10 then [48 + of_nat n] else dec (n div 10) @ [48 + of_nat (n mod 10)])"

declare dec.simps [simp del]

lemma ten_cases: "n < 10 \<Longrightarrow> n = 0 \<or> n = 1 \<or> n = 2 \<or> n = 3 \<or> n = 4 \<or> n = 5 \<or> n = 6 \<or> n = 7 \<or> n = 8 \<or> n = (9 :: nat)"
  by presburger

lemma digit_char:
  assumes "n < 10"
  shows "isdigit (48 + of_nat n)" "dec_digit (48 + of_nat n) = int n"
  using ten_cases [OF assms] by (auto simp: isdigit_def dec_digit_def)

lemma dec_digits: "dec n \<noteq> [] \<and> (\<forall>c\<in>set (dec n). isdigit c) \<and> digits_val 10 dec_digit (dec n) = int n"
proof (induction n rule: dec.induct)
  case (1 n)
  show ?case
  proof (cases "n < 10")
    case True
    then show ?thesis using digit_char [OF True] by (simp add: dec.simps [of n] digits_val_def)
  next
    case False
    have "n mod 10 < 10" by simp
    note d = digit_char [OF this]
    have "10 * int (n div 10) + int (n mod 10) = int n" by presburger
    then show ?thesis
      using 1 [OF False] False d by (auto simp: dec.simps [of n] digits_val_def)
  qed
qed

lemma isdigit_not_space: "isdigit c \<Longrightarrow> \<not> isspace c \<and> c \<noteq> 45 \<and> c \<noteq> 43 \<and> c \<noteq> 46 \<and> c \<noteq> 10 \<and> c \<noteq> 32 \<and> c \<noteq> 9 \<and> 33 \<le> c"
  unfolding isdigit_def isspace_def by (auto simp: word_le_nat_alt)

lemma scan_dec_dec:
  assumes "r = [] \<or> \<not> isdigit (hd r)" and "\<forall>c\<in>set ws. isspace c"
  shows "scan_dec (ws @ dec n @ r) = Some (int n, r)"
proof -
  obtain c cs where d: "dec n = c # cs" using dec_digits [of n] by (cases "dec n") auto
  have c: "isdigit c" "\<forall>x\<in>set (dec n). isdigit x" using dec_digits [of n] d by auto
  have "dropWhile isspace (ws @ dec n @ r) = dec n @ r"
    using assms(2) isdigit_not_space [OF c(1)] by (simp add: d)
  moreover have "scan_sign (dec n @ r) = (1, dec n @ r)"
    using isdigit_not_space [OF c(1)] by (simp add: scan_sign_def d)
  moreover have "takeWhile isdigit (dec n @ r) = dec n" "dropWhile isdigit (dec n @ r) = r"
    using c(2) assms(1) by (cases r; simp)+
  ultimately show ?thesis using dec_digits [of n] by (simp add: scan_dec_def)
qed

definition dotted_dec :: "IpAddr \<Rightarrow> cstr" where
  "dotted_dec a = (case a of (a0, a1, a2, a3) \<Rightarrow>
     dec (unat a0) @ 46 # dec (unat a1) @ 46 # dec (unat a2) @ 46 # dec (unat a3))"

lemma sscanf_dotted:
  assumes "length tmp = 4"
  shows "\<exists>tmp'. sscanf_ip (32 # dotted_dec a) tmp = (4, tmp') \<and> tmp_ip tmp' = a \<and> length tmp' = 4"
proof -
  obtain a0 a1 a2 a3 where a: "a = (a0, a1, a2, a3)" by (metis prod_cases4)
  have dot: "\<not> isdigit 46" by (simp add: isdigit_def)
  have mid: "scan_dec (dec n @ 46 # r) = Some (int n, 46 # r)" for n r
    using scan_dec_dec [of "46 # r" "[]" n] dot by simp
  have end_: "scan_dec (dec n) = Some (int n, [])" for n
    using scan_dec_dec [of "[]" "[]" n] by simp
  have first: "scan_dec (32 # dec n @ 46 # r) = Some (int n, 46 # r)" for n r
    using scan_dec_dec [of "46 # r" "[32]" n] dot by (simp add: isspace_def)
  have vs: "scan_dots 4 (32 # dotted_dec a) = [uint a0, uint a1, uint a2, uint a3]"
    by (simp add: a dotted_dec_def numeral_eq_Suc first mid end_)
  have ne: "(dropWhile isspace (32 # dotted_dec a) = []) = False"
  proof -
    obtain c cs where c: "dec (unat a0) = c # cs" "isdigit c"
      using dec_digits [of "unat a0"] by (cases "dec (unat a0)") auto
    then show ?thesis using isdigit_not_space [of c] by (simp add: a dotted_dec_def isspace_def)
  qed
  have b: "ucast (of_int (uint x) :: u16) = x" for x :: u8
  proof -
    have "of_int (uint x) = (ucast x :: u16)" by (simp only: ucast_eq)
    moreover have "ucast (ucast x :: u16) = x" by (rule word_uint_eqI) (simp add: uint_up_ucast is_up unsigned_ucast_eq take_bit_word_beyond_length_eq)
    ultimately show ?thesis by simp
  qed
  have "sscanf_ip (32 # dotted_dec a) tmp = (4, map of_int [uint a0, uint a1, uint a2, uint a3] @ drop 4 tmp)"
    unfolding sscanf_ip_def vs ne by (simp add: eval_nat_numeral)
  then show ?thesis using assms b by (auto simp: tmp_ip_def a)
qed

definition hex_byte :: "u8 \<Rightarrow> cstr" where
  "hex_byte b = [48, 120, hexDigits (drop_bit 4 b), hexDigits (b AND 0xF)]"

lemma hex_char:
  assumes "(n :: u8) < 16"
  shows "isxdigit (hexDigits n) \<and> hex_digit (hexDigits n) = uint n"
proof -
  have cases: "k < 16 \<Longrightarrow> k = 0 \<or> k = 1 \<or> k = 2 \<or> k = 3 \<or> k = 4 \<or> k = 5 \<or> k = 6 \<or> k = 7 \<or> k = 8 \<or> k = 9 \<or> k = 10 \<or>
      k = 11 \<or> k = 12 \<or> k = 13 \<or> k = 14 \<or> k = (15 :: nat)" for k by presburger
  have "unat n < 16" using assms by (simp add: word_less_nat_alt)
  then obtain k where n: "n = of_nat k" and "k < 16" using that [of "unat n"] by simp
  from cases [OF this(2)] show ?thesis unfolding n
    by (elim disjE; hypsubst) (simp_all add: hexDigits_def isxdigit_def hex_digit_def isdigit_def tolower_def)
qed

lemma nibbles: "drop_bit 4 b < (16 :: u8)" "b AND 0xF < (16 :: u8)"
proof -
  have "unat b < 2 ^ 8" using unsigned_less [of b] by simp
  then have "unat (drop_bit 4 b) < 16" by (simp add: drop_bit_eq_div unat_div)
  then show "drop_bit 4 b < (16 :: u8)" by (simp add: word_less_nat_alt)
  have "b AND 0xF = take_bit 4 b" by (simp add: take_bit_eq_mask mask_eq_exp_minus_1)
  then have "unat (b AND 0xF) = unat b mod 16" by (simp add: take_bit_eq_mod unat_mod)
  then show "b AND 0xF < (16 :: u8)" by (simp add: word_less_nat_alt)
qed

lemma scan_hex_byte: "\<exists>r. scan_hex (32 # hex_byte b) = Some (uint b, r)"
proof -
  note lo = nibbles [of b]
  note d = hex_char [OF lo(1)] hex_char [OF lo(2)]
  have "b AND 0xF = take_bit 4 b" by (simp add: take_bit_eq_mask mask_eq_exp_minus_1)
  then have sum: "16 * uint (drop_bit 4 b) + uint (b AND 0xF) = uint b"
    by (simp add: drop_bit_eq_div take_bit_eq_mod uint_div uint_mod)
  then show ?thesis
    using d sum by (simp add: scan_hex_def hex_byte_def isspace_def scan_sign_def tolower_def digits_val_def isxdigit_def isdigit_def)
qed

section \<open>Settings\<close>

datatype setting = SetPacketInt u8 | SetHostname cstr | SetIpAddr IpAddr | SetNetmask IpAddr | SetGateway IpAddr
  | SetNameserver IpAddr | SetPreferred IpAddr | SetDomain cstr | SetHostsFile cstr | SetMtu u16
  | SetTimestamp u32 | SetLeaseTime u32 | SetLeaseThreshold u32

fun setting_parm :: "setting \<Rightarrow> cstr" where
  "setting_parm (SetPacketInt _) = Parm_PacketInt"
| "setting_parm (SetHostname _) = Parm_Hostname"
| "setting_parm (SetIpAddr _) = Parm_IpAddr"
| "setting_parm (SetNetmask _) = Parm_Netmask"
| "setting_parm (SetGateway _) = Parm_Gateway"
| "setting_parm (SetNameserver _) = Parm_Nameserver"
| "setting_parm (SetPreferred _) = Parm_Nameserver_preferred"
| "setting_parm (SetDomain _) = Parm_Domain"
| "setting_parm (SetHostsFile _) = Parm_HostsFilename"
| "setting_parm (SetMtu _) = Parm_Mtu"
| "setting_parm (SetTimestamp _) = Parm_Timestamp"
| "setting_parm (SetLeaseTime _) = Parm_LeaseTime"
| "setting_parm (SetLeaseThreshold _) = Parm_LeaseThreshold"

fun setting_text :: "setting \<Rightarrow> cstr" where
  "setting_text (SetPacketInt b) = hex_byte b"
| "setting_text (SetHostname w) = w"
| "setting_text (SetIpAddr a) = dotted_dec a"
| "setting_text (SetNetmask a) = dotted_dec a"
| "setting_text (SetGateway a) = dotted_dec a"
| "setting_text (SetNameserver a) = dotted_dec a"
| "setting_text (SetPreferred a) = dotted_dec a"
| "setting_text (SetDomain w) = w"
| "setting_text (SetHostsFile w) = w"
| "setting_text (SetMtu m) = dec (unat m)"
| "setting_text (SetTimestamp n) = 40 # dec (unat n) @ [41]"
| "setting_text (SetLeaseTime n) = dec (unat n)"
| "setting_text (SetLeaseThreshold n) = dec (unat n)"

fun apply_setting :: "setting \<Rightarrow> 'a config_state_scheme \<Rightarrow> 'a config_state_scheme" where
  "apply_setting (SetPacketInt b) s = s\<lparr>packetInt := b\<rparr>"
| "apply_setting (SetHostname w) s = s\<lparr>MyHostname := w\<rparr>"
| "apply_setting (SetIpAddr a) s = setMyIpAddr a s"
| "apply_setting (SetNetmask a) s = setMyNetmask a s"
| "apply_setting (SetGateway a) s = s\<lparr>Gateway := a\<rparr>"
| "apply_setting (SetNameserver a) s = s\<lparr>NameServer := a\<rparr>"
| "apply_setting (SetPreferred a) s = s\<lparr>Preferred_nameserver := a, Preferred_nameserver_set := True\<rparr>"
| "apply_setting (SetDomain w) s = s\<lparr>Domain := w\<rparr>"
| "apply_setting (SetHostsFile w) s = s\<lparr>HostsFilename := w\<rparr>"
| "apply_setting (SetMtu m) s = s\<lparr>MyMTU := m\<rparr>"
| "apply_setting _ s = s"

text \<open>The settings of the DHCP lease are local to \<open>parseEnv\<close>.\<close>

fun apply_lease :: "setting \<Rightarrow> parse_vars \<Rightarrow> parse_vars" where
  "apply_lease (SetTimestamp n) v = v\<lparr>pv_dhcpTimestamp := n\<rparr>"
| "apply_lease (SetLeaseTime n) v = v\<lparr>pv_dhcpLease := n\<rparr>"
| "apply_lease (SetLeaseThreshold n) v = v\<lparr>pv_dhcpLeaseThreshold := n\<rparr>"
| "apply_lease _ v = v"

lemma apply_lease_frame [simp]:
  "pv_tmp (apply_lease x v) = pv_tmp v" "pv_errorParm (apply_lease x v) = pv_errorParm v"
  "apply_lease x (v\<lparr>pv_tmp := tmp\<rparr>) = (apply_lease x v)\<lparr>pv_tmp := tmp\<rparr>"
  by (cases x; simp)+

text \<open>A word of printing characters that fits an array.\<close>

definition good_word :: "nat \<Rightarrow> cstr \<Rightarrow> bool" where
  "good_word n w \<longleftrightarrow> w \<noteq> [] \<and> length w < n \<and> (\<forall>c\<in>set w. 32 < c)"

fun good_setting :: "setting \<Rightarrow> bool" where
  "good_setting (SetHostname w) = good_word HOSTNAME_LEN w"
| "good_setting (SetDomain w) = good_word DNS_MAX_DOMAIN_LEN w"
| "good_setting (SetHostsFile w) = good_word DOS_MAX_PATHFILE_LENGTH w"
| "good_setting (SetMtu m) \<longleftrightarrow> ETH_MTU_MIN \<le> m \<and> m \<le> ETH_MTU_MAX"
| "good_setting _ = True"

definition setting_line :: "setting \<Rightarrow> cstr" where
  "setting_line x = setting_parm x @ 32 # setting_text x @ [10]"

definition write_config :: "setting list \<Rightarrow> cstr" where
  "write_config xs = concat (map setting_line xs)"

section \<open>Reading a line\<close>

lemma getLine_line:
  assumes "f_rest f = l @ 10 # rest" and "10 \<notin> set l" and "length l + 2 \<le> n"
  shows "getLine True n f = (f\<lparr>f_rest := rest, f_eof := False\<rparr>, l, 0)"
proof -
  have k: "line_len (l @ 10 # rest) = length l"
    using assms(2) by (induction l) (auto simp: line_len_def)
  have m: "min (Suc (length l)) (n - 1) = Suc (length l)" using assms(3) by simp
  have x: "take (Suc (length l)) (l @ 10 # rest) = l @ [10]" by simp
  have "fgets n f = (f\<lparr>f_rest := rest, f_eof := False\<rparr>, Some (l @ [10]))"
    unfolding fgets_def assms(1) k m x Let_def by simp
  then show ?thesis by (simp add: getLine_def)
qed

lemma big_not_space: "32 < c \<Longrightarrow> \<not> isspace c \<and> c \<noteq> 10 \<and> c \<noteq> 32 \<and> c \<noteq> 9" for c :: u8
  by (auto simp: isspace_def word_less_nat_alt word_le_nat_alt)

lemma rtrim_none: "l \<noteq> [] \<Longrightarrow> 32 < last l \<Longrightarrow> rtrim l = (l, False)"
  using big_not_space [of "last l"] by (cases l rule: rev_cases) (simp_all add: rtrim_def)

lemma tok_loop_word:
  assumes "\<forall>c\<in>set w. 34 < c" and "length t + length w \<le> n"
  shows "tok_loop n Normal t (w @ 32 # r) = (t @ w, Some (32 # r))"
  using assms
proof (induction w arbitrary: t)
  case (Cons c w)
  have "32 < c" using Cons.prems(1) by (auto simp: word_less_nat_alt)
  with big_not_space [OF this] show ?case using Cons by (auto simp: tput_def)
qed (simp add: isspace_def)

lemma getNextToken_word:
  assumes "w \<noteq> []" and "\<forall>c\<in>set w. 34 < c" and "length w < n"
  shows "getNextToken n (Some (w @ 32 # r)) = (w, Some (32 # r))"
proof -
  obtain c w' where w: "w = c # w'" using assms(1) by (cases w) auto
  have "32 < c" using assms(2) w by (auto simp: word_less_nat_alt)
  then have "dropWhile isspace (w @ 32 # r) = w @ 32 # r" using big_not_space by (simp add: w)
  then show ?thesis using tok_loop_word [OF assms(2), of "[]" n r] assms(3) w by (simp add: getNextToken_def)
qed

section \<open>Reading a setting\<close>

lemma parm_chars: "\<forall>c\<in>set (setting_parm x). 34 < c" "setting_parm x \<noteq> []" "length (setting_parm x) < 21"
  by (cases x; simp add: parm_defs ascii_def)+

lemma dec_printing: "\<forall>c\<in>set (dec n). 32 < c"
  using dec_digits [of n] by (auto simp: isdigit_def word_less_nat_alt word_le_nat_alt)

lemma hex_printing: "n < 16 \<Longrightarrow> 32 < hexDigits n"
  using hex_char [of n] unfolding isxdigit_def isdigit_def tolower_def
  by (auto simp: word_less_nat_alt word_le_nat_alt split: if_splits)

lemma text_printing: "good_setting x \<Longrightarrow> setting_text x \<noteq> [] \<and> (\<forall>c\<in>set (setting_text x). 32 < c)"
  using dec_digits dec_printing hex_printing [OF nibbles(1)] hex_printing [OF nibbles(2)]
  by (cases x) (auto simp: hex_byte_def dotted_dec_def good_word_def split: prod.split)

lemma length_dec: "n < 10 ^ Suc k \<Longrightarrow> length (dec n) \<le> Suc k"
proof (induction k arbitrary: n)
  case 0
  then show ?case by (simp add: dec.simps [of n])
next
  case (Suc k)
  then have "n div 10 < 10 ^ Suc k" by (simp add: less_mult_imp_div_less)
  from Suc.IH [OF this] show ?case by (simp add: dec.simps [of n])
qed

lemma length_dec_u8: "length (dec (unat (a :: u8))) \<le> 3"
proof -
  have "unat a < 2 ^ 8" using unsigned_less [of a] by simp
  then show ?thesis using length_dec [of "unat a" 2] by simp
qed

lemma dotted_short: "length (dotted_dec a) \<le> 15"
proof -
  obtain a0 a1 a2 a3 where "a = (a0, a1, a2, a3)" by (metis prod_cases4)
  then show ?thesis
    using length_dec_u8 [of a0] length_dec_u8 [of a1] length_dec_u8 [of a2] length_dec_u8 [of a3]
    by (simp add: dotted_dec_def)
qed

lemma length_dec_u32: "length (dec (unat (a :: u32))) \<le> 10"
proof -
  have "unat a < 2 ^ 32" using unsigned_less [of a] by simp
  then show ?thesis using length_dec [of "unat a" 9] by simp
qed

lemma text_short: "good_setting x \<Longrightarrow> length (setting_text x) \<le> 80"
proof (cases x)
  case (SetMtu m)
  moreover assume "good_setting x"
  ultimately have "unat m < 10 ^ Suc 3" by (simp add: cfg_defs word_le_nat_alt)
  then show ?thesis using length_dec [of "unat m" 3] SetMtu by simp
qed (auto simp: hex_byte_def good_word_def cfg_defs intro: order_trans [OF dotted_short] order_trans [OF length_dec_u32])

text \<open>A good setting that is read back sets its value and no error.\<close>

lemma scan_good_word: "good_word n w \<Longrightarrow> scan_str (32 # w) = Some (w, [])"
  using big_not_space by (auto simp: scan_str_def good_word_def isspace_def [of 32] Let_def dropWhile_eq_self_iff neq_Nil_conv)

lemma parm_reads:
  assumes "good_setting x" and "length (pv_tmp v) = 4"
  shows "\<exists>tmp. parm_text m (setting_parm x) (32 # setting_text x) v s =
    Some ((apply_lease x v)\<lparr>pv_tmp := tmp\<rparr>, apply_setting x s) \<and> length tmp = 4"
proof -
  have a: "\<exists>tmp. parse_addr p (32 # dotted_dec a) store v s = Some (v\<lparr>pv_tmp := tmp\<rparr>, store a s) \<and> length tmp = 4"
    for p a store
    using sscanf_dotted [OF assms(2), of a] by (auto simp: parse_addr_def)
  have v: "\<exists>tmp. v = v\<lparr>pv_tmp := tmp\<rparr> \<and> length tmp = 4"
    using assms(2) by (intro exI [of _ "pv_tmp v"]) simp
  have w: "\<exists>tmp. apply_lease x v = (apply_lease x v)\<lparr>pv_tmp := tmp\<rparr> \<and> length tmp = 4"
    using assms(2) by (intro exI [of _ "pv_tmp v"]) (simp add: parse_vars.equality)
  have u: "scan_ulong d (ws @ dec (unat n) @ r) = n" if "r = [] \<or> \<not> isdigit (hd r)" "\<forall>c\<in>set ws. isspace c" for d ws r and n :: u32
    using scan_dec_dec [OF that, of "unat n"] by (simp add: scan_ulong_def)
  note keys = parm_text_def stricmp_eq_def tolower_def parm_defs ascii_def
  show ?thesis
  proof (cases x)
    case (SetPacketInt b)
    obtain r where "scan_hex (32 # hex_byte b) = Some (uint b, r)" using scan_hex_byte by blast
    then show ?thesis using SetPacketInt by (simp add: keys parse_packetInt_def v)
  next
    case (SetMtu mt)
    have "scan_dec (32 # dec (unat mt)) = Some (uint mt, [])"
      using scan_dec_dec [of "[]" "[32]" "unat mt"] by (simp add: isspace_def)
    then show ?thesis using SetMtu assms(1) by (simp add: keys parse_mtu_def leD Let_def v)
  next
    case (SetHostname w)
    then have g: "good_word HOSTNAME_LEN w" using assms(1) by simp
    then have "length w < HOSTNAME_LEN" by (simp add: good_word_def)
    then show ?thesis using scan_good_word [OF g] SetHostname by (simp add: keys parse_string_def leD v)
  next
    case (SetDomain w)
    then have g: "good_word DNS_MAX_DOMAIN_LEN w" using assms(1) by simp
    then have "length w < DNS_MAX_DOMAIN_LEN" by (simp add: good_word_def)
    then show ?thesis using scan_good_word [OF g] SetDomain by (simp add: keys parse_string_def leD v)
  next
    case (SetHostsFile w)
    then have g: "good_word DOS_MAX_PATHFILE_LENGTH w" using assms(1) by simp
    then have "length w < DOS_MAX_PATHFILE_LENGTH" by (simp add: good_word_def)
    then show ?thesis using scan_good_word [OF g] SetHostsFile by (simp add: keys parse_string_def leD v)
  next
    case (SetTimestamp n)
    have "scan_paren (32 # 40 # dec (unat n) @ [41]) = n"
      using u [of "[41]" "[]" 0 n] by (simp add: scan_paren_def isspace_def isdigit_def)
    then show ?thesis using SetTimestamp w by (simp add: keys)
  next
    case (SetLeaseTime n)
    then show ?thesis using u [of "[]" "[32]" 0 n] w by (simp add: keys isspace_def)
  next
    case (SetLeaseThreshold n)
    then show ?thesis using u [of "[]" "[32]" DHCP_LEASE_THRESHOLD n] w by (simp add: keys isspace_def)
  qed (use a in \<open>simp add: keys; blast\<close>)+
qed

lemma parse_loop_setting:
  assumes "good_setting x" and "pv_errorParm v = None" and "length (pv_tmp v) = 4"
    and "f_rest f = setting_line x @ rest" and "\<not> f_eof f"
  shows "\<exists>tmp. parse_loop m f v s = parse_loop m (f\<lparr>f_rest := rest, f_eof := False\<rparr>)
      ((apply_lease x v)\<lparr>pv_tmp := tmp\<rparr>) (apply_setting x s) \<and> length tmp = 4"
proof -
  let ?l = "setting_parm x @ 32 # setting_text x"
  note pc = parm_chars [of x] and tp = text_printing [OF assms(1)]
  have "10 \<notin> set ?l"
    using pc tp by (auto simp: word_less_nat_alt dest!: bspec [where x = 10])
  moreover have "length ?l + 2 \<le> UTILS_LINEBUFFER_LEN" using pc(3) text_short [OF assms(1)] by (simp add: cfg_defs)
  ultimately have l: "getLine True UTILS_LINEBUFFER_LEN f = (f\<lparr>f_rest := rest, f_eof := False\<rparr>, ?l, 0)"
    using getLine_line [of f ?l rest] assms(4) by (simp add: setting_line_def)
  have r: "rtrim ?l = (?l, False)" using tp by (intro rtrim_none) auto
  have t: "getNextToken UTILS_PARAMETER_LEN (Some ?l) = (setting_parm x, Some (32 # setting_text x))"
    using pc by (intro getNextToken_word) (simp_all add: cfg_defs)
  obtain tmp where p: "parm_text m (setting_parm x) (32 # setting_text x) v s =
      Some ((apply_lease x v)\<lparr>pv_tmp := tmp\<rparr>, apply_setting x s)" "length tmp = 4" using parm_reads [OF assms(1,3)] by blast
  show ?thesis
    using assms(2,5) l r t p pc(2) by (subst parse_loop.simps) (auto simp: parse_parm_def)
qed

lemma apply_lease_fold: "fold apply_lease xs (v\<lparr>pv_tmp := tmp\<rparr>) = (fold apply_lease xs v)\<lparr>pv_tmp := tmp\<rparr>"
  by (induction xs arbitrary: v) simp_all

lemma parse_loop_settings:
  assumes "\<forall>x\<in>set xs. good_setting x" and "pv_errorParm v = None" and "length (pv_tmp v) = 4"
    and "f_rest f = write_config xs" and "\<not> f_eof f" and "\<not> f_err f"
  shows "\<exists>tmp. parse_loop m f v s = Some ((fold apply_lease xs v)\<lparr>pv_tmp := tmp\<rparr>, fold apply_setting xs s, False)"
  using assms
proof (induction xs arbitrary: f v s)
  case Nil
  then show ?case using parse_loop_end [of f v m s] by (intro exI [of _ "pv_tmp v"]) (simp add: write_config_def)
next
  case (Cons x xs)
  obtain tmp where t: "parse_loop m f v s =
      parse_loop m (f\<lparr>f_rest := write_config xs, f_eof := False\<rparr>) ((apply_lease x v)\<lparr>pv_tmp := tmp\<rparr>) (apply_setting x s)"
      "length tmp = 4"
    using parse_loop_setting [of x v f "write_config xs" m s] Cons.prems by (auto simp: write_config_def)
  show ?case
    using Cons.IH [of "(apply_lease x v)\<lparr>pv_tmp := tmp\<rparr>" "f\<lparr>f_rest := write_config xs, f_eof := False\<rparr>" "apply_setting x s"]
      t Cons.prems by (auto simp: apply_lease_fold)
qed

section \<open>Properties\<close>

text \<open>
  C32. A configuration file is read back.  A list of settings of the thirteen keywords, in any order and with
  repetitions, is written to a file in which each line is a keyword, a space and a value: numbers and addresses of any
  value, an MTU of 46 to 1500, and for HOSTNAME, DOMAIN and HOSTSFILE a nonempty word of printing
  characters without spaces that fits the array.  Then \<open>parseEnv\<close> applies exactly these settings in the order of the lines; after that it
  complains about a missing address or packet interrupt, or about the DHCP lease the lines describe, or it puts the
  preferred name server in force and reads the optional variables.
\<close>

theorem config_file_roundtrip:
  assumes "\<forall>x\<in>set xs. good_setting x" and "length tmp = 4"
    and "env_MTCPCFG e \<noteq> None" and "env_file e = Some (write_config xs)" and "\<not> env_file_err e"
  shows "parseEnv tmp newMtu e s =
    (let t = fold apply_setting xs s
     in Some (case missing_parm t of
                Some p \<Rightarrow> (t, Some (MustBeSet p))
              | None \<Rightarrow>
                  (case lease_error (env_time e) (fold apply_lease xs (parse_vars_init tmp)) of
                     Some err \<Rightarrow> (t, Some err)
                   | None \<Rightarrow> (parseOptionalEnvVars e (use_preferred t), None))))"
proof -
  obtain tmp' where l: "parse_loop newMtu (fopen_file (write_config xs) (env_file_err e)) (parse_vars_init tmp) s =
      Some ((fold apply_lease xs (parse_vars_init tmp))\<lparr>pv_tmp := tmp'\<rparr>, fold apply_setting xs s, False)"
    using parse_loop_settings [of xs "parse_vars_init tmp" "fopen_file (write_config xs) (env_file_err e)" newMtu s] assms
    by (auto simp: fopen_file_def parse_vars_init_def)
  have "pv_errorParm (fold apply_lease xs v) = pv_errorParm v" for v by (induction xs arbitrary: v) simp_all
  moreover have "pv_errorParm (parse_vars_init tmp) = None" by (simp add: parse_vars_init_def)
  moreover have "lease_error n (v\<lparr>pv_tmp := tmp'\<rparr>) = lease_error n v" for n v by (simp add: lease_error_def Let_def)
  moreover obtain path where "env_MTCPCFG e = Some path" using assms(3) by auto
  ultimately show ?thesis
    using assms(4) by (simp add: parseEnv_def l Let_def split: option.split)
qed

definition demo_settings :: "setting list" where
  "demo_settings = [SetPacketInt 0x60, SetHostname (ascii ''BOX''), SetIpAddr (192, 168, 1, 77),
     SetNetmask (255, 255, 255, 0), SetNameserver (10, 0, 0, 1), SetPreferred (9, 9, 9, 9), SetMtu 1400,
     SetTimestamp 1700000000, SetLeaseTime 86400]"

definition demo_env :: dos_env where
  "demo_env = \<lparr>env_MTCPCFG = Some (ascii ''MTCP.CFG''), env_file = Some (write_config demo_settings), env_file_err = False,
     env_DEBUGGING = None, env_LOGFILE = None, env_MTCPSLEEP = None, env_time = 0\<rparr>"

theorem config_file_roundtrip_witness:
  "\<exists>t. parseEnv [0, 0, 0, 0] 0 demo_env zero_config_state = Some (t, None) \<and>
     MyIpAddr t = (192, 168, 1, 77) \<and> NameServer t = (9, 9, 9, 9) \<and> MyMTU t = 1400 \<and> packetInt t = 0x60"
proof -
  have g: "\<forall>x\<in>set demo_settings. good_setting x"
    by (simp add: demo_settings_def good_word_def ascii_def cfg_defs)
  have "env_MTCPCFG demo_env \<noteq> None" "env_file demo_env = Some (write_config demo_settings)" "\<not> env_file_err demo_env"
    by (simp_all add: demo_env_def)
  note r = config_file_roundtrip [OF g _ this, of "[0, 0, 0, 0]" 0 zero_config_state]
  show ?thesis
    using r by (simp add: demo_settings_def missing_parm_def ip_isSame_def IpBroadcastNonRoutable_def Let_def
        setMyIpAddr_def setMyNetmask_def use_preferred_def parseOptionalEnvVars_def demo_env_def lease_error_def parse_vars_init_def)
qed

end
