(* ===== verification/Startup.thy ===== *)
theory Startup
  imports Config
begin

text \<open>
  Starting and stopping the stack: the calls of the packet driver (\<^verbatim>\<open>Packet_init\<close>,
  \<^verbatim>\<open>Packet_release_type\<close> and \<^verbatim>\<open>Packet_get_addr\<close> of \<^verbatim>\<open>code/TCPLIB/PACKET.CPP\<close>) and
  \<^verbatim>\<open>Utils::initStack\<close> and \<^verbatim>\<open>endStack\<close> of \<^verbatim>\<open>code/TCPLIB/UTILS.CPP\<close>.

  \<open>dos_services\<close> is the machine: the eight bytes after the first three of an interrupt handler, the
  packet driver as a function of the interrupt and the registers, and the multiplex interrupt.
  Tracing is left out: it writes to a stream and reads the state only.
\<close>

section \<open>The packet driver\<close>

record pkt_regs =
  r_ah :: u8
  r_al :: u8
  r_bx :: u16
  r_dl :: u8
  r_si :: u16
  r_cx :: u16
  r_ds :: u16

text \<open>\<open>o_addr\<close> is what the driver writes to \<^verbatim>\<open>es:di\<close>.\<close>

record pkt_out =
  o_cflag :: bool
  o_ax :: u16
  o_dh :: u8
  o_addr :: EthAddr

record dos_services =
  dos_eyeCatcher :: "u8 \<Rightarrow> u8 list"
  dos_int86x :: "u8 \<Rightarrow> pkt_regs \<Rightarrow> pkt_out"
  dos_int2f_installed :: bool
  dos_releaseTimeslice :: u8

record startup_state = config_state +
  Packet_int :: u8
  Packet_handle :: u16
  vect_1b :: nat
  vect_23 :: nat
  oldCtrlBreakHandler :: nat

definition zero_startup_state :: startup_state where
  "zero_startup_state = config_state.extend zero_config_state (startup_state.fields 0 0 0 0 0)"

lemmas zero_startup = zero_startup_state_def zero_config startup_state.defs

definition PKT_DRVR_EYE_CATCHER :: cstr where "PKT_DRVR_EYE_CATCHER = ascii ''PKT DRVR''"
definition ARP_TIMEOUT_FAST :: u32 where [cfg_defs]: "ARP_TIMEOUT_FAST = 200"

text \<open>Registers the code does not set are 0 here.\<close>

definition access_type_regs :: pkt_regs where
  "access_type_regs = \<lparr>r_ah = 2, r_al = 1, r_bx = 0xFFFF, r_dl = 0, r_si = 0, r_cx = 0, r_ds = 0\<rparr>"

definition Packet_init :: "dos_services \<Rightarrow> u8 \<Rightarrow> 'a startup_state_scheme \<Rightarrow> 'a startup_state_scheme \<times> int" where
  "Packet_init dos packetInt_p s =
     (if dos_eyeCatcher dos packetInt_p \<noteq> PKT_DRVR_EYE_CATCHER then (s, -1)
      else (let outregs = dos_int86x dos packetInt_p access_type_regs
            in if o_cflag outregs then (s, sint (o_dh outregs))
               else (s\<lparr>Packet_int := packetInt_p, Packet_handle := o_ax outregs\<rparr>, 0)))"

definition Packet_release_type :: "dos_services \<Rightarrow> 'a startup_state_scheme \<Rightarrow> int" where
  "Packet_release_type dos s =
     (if o_cflag (dos_int86x dos (Packet_int s)
           \<lparr>r_ah = 3, r_al = 0, r_bx = Packet_handle s, r_dl = 0, r_si = 0, r_cx = 0, r_ds = 0\<rparr>) then -1 else 0)"

definition Packet_get_addr :: "dos_services \<Rightarrow> 'a startup_state_scheme \<Rightarrow> EthAddr" where
  "Packet_get_addr dos s =
     o_addr (dos_int86x dos (Packet_int s)
       \<lparr>r_ah = 6, r_al = 0, r_bx = Packet_handle s, r_dl = 0, r_si = 0, r_cx = 6, r_ds = 0\<rparr>)"

section \<open>Stopping\<close>

text \<open>The result of \<^verbatim>\<open>Packet_release_type\<close> is not looked at.\<close>

definition endStack :: "dos_services \<Rightarrow> 'a startup_state_scheme \<Rightarrow> 'a startup_state_scheme" where
  "endStack dos s =
     (let s = Buffer_stopReceiving s;
          s = Dns_stop s;
          s = TcpBuffer_stop (TcpSocketMgr_stop s);
          s = reassemblyStop s;
          s = Timer_stop s;
          s = s\<lparr>vect_1b := oldCtrlBreakHandler s\<rparr>
      in Buffer_stop s)"

section \<open>Starting\<close>

definition hook_vectors :: "nat \<Rightarrow> nat \<Rightarrow> 'a startup_state_scheme \<Rightarrow> 'a startup_state_scheme" where
  "hook_vectors newCtrlBreakHandler newCtrlCHandler s =
     s\<lparr>oldCtrlBreakHandler := vect_1b s, vect_1b := newCtrlBreakHandler, vect_23 := newCtrlCHandler\<rparr>"

definition register_types :: "'a net_scheme \<Rightarrow> 'a net_scheme \<times> int" where
  "register_types s =
     (let (s, rc) = Packet_registerEtherType 0x0800 HandlerIp s
      in if rc \<noteq> 0 then (s, rc) else Packet_registerEtherType 0x0806 HandlerArp s)"

text \<open>The layers, in order; the flag tells whether all of them came up.\<close>

definition init_layers :: "u8 \<Rightarrow> u8 \<Rightarrow> 'a startup_state_scheme \<Rightarrow> 'a startup_state_scheme \<times> bool" where
  "init_layers tcpSockets tcpXmitBuffers s =
     (let (s, rc) = register_types s
      in if rc \<noteq> 0 then (s, False)
         else
           (let (s, rc) = initForReassembly (Arp_init (Timer_start s))
            in if rc \<noteq> 0 then (s, False)
               else
                 (let s = (if cfg_ICMP s then Icmp_init s else s);
                      (s, rc) = TcpSocketMgr_init tcpSockets s
                  in if rc \<noteq> 0 then (s, False)
                     else
                       (let (s, rc) = TcpBuffer_init tcpXmitBuffers s
                        in if rc \<noteq> 0 then (s, False)
                           else (let (s, rc) = Dns_init s in (s, rc = 0))))))"

definition test_sleep :: "dos_services \<Rightarrow> 'a startup_state_scheme \<Rightarrow> 'a startup_state_scheme" where
  "test_sleep dos s =
     (if mTCP_sleepCallEnabled s \<noteq> 0 \<and> dos_int2f_installed dos \<and> dos_releaseTimeslice dos = 0
      then s\<lparr>mTCP_releaseTimesliceEnabled := 1\<rparr> else s)"

text \<open>The search for another machine with our address: its Ethernet address when there is one.\<close>

partial_function (option) probe_loop ::
    "'a user \<Rightarrow> (nat \<Rightarrow> intr list) \<Rightarrow> nat \<Rightarrow> u32 \<Rightarrow> u32 \<Rightarrow> 'a dns_state_scheme \<Rightarrow>
     (nat \<times> 'a dns_state_scheme \<times> EthAddr option) option" where
  [code]: "probe_loop user ev n startTime lastCheck s =
     (let s = interrupts (ev n) s
      in if \<not> Timer_diff startTime (Timer_CurrentTicks s) < TIMER_MS_TO_TICKS ARP_TIMEOUT_FAST
         then Some (Suc n, s, None)
         else (let r = resolve (MyIpAddr s) s
               in if snd r \<noteq> None then Some (Suc n, r)
                  else (case packet_process_single user (fst r) of
                      None \<Rightarrow> None
                    | Some s \<Rightarrow>
                        (case wait_tick ev (Suc n) lastCheck (driveArp s) of
                           None \<Rightarrow> None
                         | Some (n, s) \<Rightarrow> probe_loop user ev n startTime (Timer_CurrentTicks s) s))))"

text \<open>
  \<^verbatim>\<open>Utils::initStack\<close>: the number of the turn, the state and the result code.
\<close>

definition initStack ::
    "(nat \<Rightarrow> bufref \<Rightarrow> 'a startup_state_scheme \<Rightarrow> 'a startup_state_scheme) \<Rightarrow> (nat \<Rightarrow> intr list) \<Rightarrow> nat \<Rightarrow>
     dos_services \<Rightarrow> u8 \<Rightarrow> u8 \<Rightarrow> nat \<Rightarrow> nat \<Rightarrow> 'a startup_state_scheme \<Rightarrow> (nat \<times> 'a startup_state_scheme \<times> int) option" where
  "initStack user ev n dos tcpSockets tcpXmitBuffers newCtrlBreakHandler newCtrlCHandler s =
     (let (s, rc) = Buffer_init s
      in if rc \<noteq> 0 then Some (n, s, -1)
         else
           (let (s, rc) = Packet_init dos (packetInt s) s
            in if rc \<noteq> 0 then Some (n, s, -1)
               else
                 (let s = hook_vectors newCtrlBreakHandler newCtrlCHandler s;
                      s = s\<lparr>MyEthAddr := Packet_get_addr dos s\<rparr>;
                      (s, ok) = init_layers tcpSockets tcpXmitBuffers s
                  in if \<not> ok then Some (n, endStack dos s, -1)
                     else
                       (let s = Buffer_startReceiving (test_sleep dos s);
                            startTime = Timer_CurrentTicks s
                        in case probe_loop user ev n startTime startTime s of
                             None \<Rightarrow> None
                           | Some (n, s, Some conflict) \<Rightarrow> Some (n, endStack dos s, -1)
                           | Some (n, s, None) \<Rightarrow> Some (n, clearPendingTable s, 0)))))"

section \<open>The search for a conflict\<close>

text \<open>What a search without incoming packets changes.\<close>

definition probe_upd ::
    "u32 \<Rightarrow> nat \<Rightarrow> (frame \<times> u16) list \<Rightarrow> u32 \<Rightarrow> u32 \<Rightarrow> (nat \<Rightarrow> Pending_t) \<Rightarrow> u16 \<Rightarrow> u32 \<Rightarrow> 'a arp_state_scheme \<Rightarrow> 'a arp_state_scheme" where
  "probe_upd c d w a b p e r s = s\<lparr>Timer_CurrentTicks := c, drv_calls := d, wire := w, Packets_sent := a,
     Packets_send_errs := b, pending := p, pendingEntries := e, Arp_RequestsSent := r\<rparr>"

definition probing :: "'a arp_state_scheme \<Rightarrow> 'a arp_state_scheme \<Rightarrow> bool" where
  "probing s t \<longleftrightarrow> (\<exists>c d w a b p e r. t = probe_upd c d w a b p e r s)"

lemma probe_upd_self:
  "probe_upd (Timer_CurrentTicks s) (drv_calls s) (wire s) (Packets_sent s) (Packets_send_errs s) (pending s)
     (pendingEntries s) (Arp_RequestsSent s) s = s"
  by (simp add: probe_upd_def)

lemma probing_upd: "probing s (probe_upd c d w a b p e r s)"
  unfolding probing_def by blast

lemma probing_refl: "probing s s"
  using probing_upd [of s] probe_upd_self [of s] by metis

lemma probing_trans: "probing s t \<Longrightarrow> probing t u \<Longrightarrow> probing s u"
  by (auto simp: probing_def) (simp add: probe_upd_def, blast)

lemma probing_keeps:
  assumes "probing s t"
  shows "arpTable t = arpTable s" "entries t = entries s" "MyIpAddr t = MyIpAddr s" "Buffer_first t = Buffer_first s"
    "Buffer_next t = Buffer_next s" "findEth ip t = findEth ip s"
  using assms by (auto simp: probing_def probe_upd_def findEth_def)

lemma probing_sent: "probing s (Packet_send_pkt f l s)"
proof -
  obtain d w b where "Packet_send_pkt f l s = s\<lparr>drv_calls := d, wire := w, Packets_sent := Packets_sent s + 1, Packets_send_errs := b\<rparr>"
    using Packet_send_pkt_shape by blast
  then have "Packet_send_pkt f l s = probe_upd (Timer_CurrentTicks s) d w (Packets_sent s + 1) b (pending s)
      (pendingEntries s) (Arp_RequestsSent s) s" by (simp add: probe_upd_def)
  then show ?thesis unfolding probing_def by blast
qed

lemma probing_tick: "probing s (s\<lparr>Timer_CurrentTicks := c\<rparr>)"
proof -
  have "s\<lparr>Timer_CurrentTicks := c\<rparr> = probe_upd c (drv_calls s) (wire s) (Packets_sent s) (Packets_send_errs s) (pending s)
      (pendingEntries s) (Arp_RequestsSent s) s" by (simp add: probe_upd_def)
  then show ?thesis unfolding probing_def by blast
qed

lemma probing_pending: "probing s (s\<lparr>pending := p, pendingEntries := e, Arp_RequestsSent := r\<rparr>)"
proof -
  have "s\<lparr>pending := p, pendingEntries := e, Arp_RequestsSent := r\<rparr> =
      probe_upd (Timer_CurrentTicks s) (drv_calls s) (wire s) (Packets_sent s) (Packets_send_errs s) p e r s"
    by (simp add: probe_upd_def)
  then show ?thesis unfolding probing_def by blast
qed

lemma probing_pending2:
  "probing s (s\<lparr>pending := p\<rparr>)" "probing s (s\<lparr>pending := p, pendingEntries := e\<rparr>)"
  using probing_pending [where s = s and p = p and e = "pendingEntries s" and r = "Arp_RequestsSent s"]
    probing_pending [where s = s and p = p and e = e and r = "Arp_RequestsSent s"]
  by simp_all

lemma probing_resolve: "probing s (fst (resolve ip s))"
  unfolding resolve_def sendArpRequest_def sendArpRequest2_def Let_def
  by (auto intro: probing_refl probing_trans [OF probing_pending probing_sent] split: option.split)

lemma probing_slot: "probing s (driveArp_slot i s)"
  unfolding driveArp_slot_def sendArpRequest2_def Let_def
  by (auto intro: probing_refl probing_pending2 probing_trans [OF probing_pending2(1) probing_sent])

lemma probing_driveArp: "probing s (driveArp s)"
proof -
  have "probing s (fold driveArp_slot is s)" for "is" and s :: "'a arp_state_scheme"
    by (induction "is" arbitrary: s) (auto intro: probing_refl probing_trans [OF probing_slot])
  then show ?thesis by (simp add: driveArp_def driveArp2_def probing_refl)
qed

lemma probing_idle: "fragsInReassembly s = 0 \<Longrightarrow> ip_frags_check_overdue s = s"
  by (simp add: ip_frags_check_overdue_def)

lemma probing_frags: "probing s t \<Longrightarrow> fragsInReassembly t = fragsInReassembly s"
  by (auto simp: probing_def probe_upd_def)

lemma probe_turn:
  assumes ev: "clock_only ev" and "Buffer_first s = Buffer_next s" and "fragsInReassembly s = 0"
    and "findEth (MyIpAddr s) s = None" and "Timer_CurrentTicks s = lastCheck" and "unat (Timer_diff start lastCheck) = d" and "d \<le> 3"
  obtains t n' where "probe_loop user ev n start lastCheck s = Some (n', t, None)" and "probing s t"
      and "3 \<le> unat (Timer_diff start (Timer_CurrentTicks t))"
    | t m where "probe_loop user ev n start lastCheck s = probe_loop user ev m start (lastCheck + 1) t" and "probing s t"
      and "Timer_CurrentTicks t = lastCheck + 1" and "unat (Timer_diff start (lastCheck + 1)) = Suc d" and "Suc d \<le> 3"
proof -
  define u where "u = interrupts (ev n) s"
  define v where "v = driveArp (fst (resolve (MyIpAddr u) u))"
  have T: "TIMER_MS_TO_TICKS ARP_TIMEOUT_FAST = 3" by (simp add: TIMER_MS_TO_TICKS_def cfg_defs)
  have su: "probing s u" by (simp add: u_def clock_interrupts [OF ev] probing_refl probing_tick)
  have sr: "probing s (fst (resolve (MyIpAddr u) u))" using probing_trans [OF su probing_resolve] .
  have sv: "probing s v" unfolding v_def using probing_trans [OF sr probing_driveArp] .
  have uc: "Timer_CurrentTicks u = (if ev n = [Tick] then lastCheck + 1 else lastCheck)"
    using assms(5) by (simp add: u_def interrupts_keep [OF ev])
  have vc: "Timer_CurrentTicks v = Timer_CurrentTicks u"
  proof -
    have "blk_view 0 v = blk_view 0 (fst (resolve (MyIpAddr u) u))" by (simp add: v_def)
    moreover have "Timer_CurrentTicks (fst (resolve (MyIpAddr u) u)) = Timer_CurrentTicks u"
      by (subst resolve_shape) simp
    ultimately show ?thesis by (simp add: blk_view_def)
  qed
  have suc: "unat (Timer_diff start (lastCheck + 1)) = Suc d"
    using u32_step [of lastCheck start] assms(6,7) by (simp add: Timer_diff_def)
  have none: "snd (resolve (MyIpAddr u) u) = None"
    using assms(4) probing_keeps [OF su] by (simp add: resolve_def)
  have idle: "packet_process_single user (fst (resolve (MyIpAddr u) u)) = Some (fst (resolve (MyIpAddr u) u))"
    using assms(2,3) probing_keeps [OF sr] probing_frags [OF sr] by (simp add: idle_turn probing_idle)
  have step: "probe_loop user ev n start lastCheck s =
      (if \<not> Timer_diff start (Timer_CurrentTicks u) < 3 then Some (Suc n, u, None)
       else (case wait_tick ev (Suc n) lastCheck v of
               None \<Rightarrow> None | Some (n, s) \<Rightarrow> probe_loop user ev n start (Timer_CurrentTicks s) s))"
    by (subst probe_loop.simps) (simp add: u_def [symmetric] Let_def T none idle v_def [symmetric])
  show thesis
  proof (cases "Timer_diff start (Timer_CurrentTicks u) < 3")
    case False
    then show thesis using step su by (intro that(1)) (simp_all add: word_less_nat_alt not_less)
  next
    case True
    define t where "t = (if Timer_CurrentTicks v = lastCheck then v\<lparr>Timer_CurrentTicks := lastCheck + 1\<rparr> else v)"
    obtain m where m: "wait_tick ev (Suc n) lastCheck v = Some (m, t)"
      using wait_tick_returns [OF ev, of "Suc n" lastCheck v] t_def by blast
    have tc: "Timer_CurrentTicks t = lastCheck + 1" using vc uc by (auto simp: t_def)
    have st: "probing s t" using sv probing_trans [OF sv probing_tick] by (simp add: t_def)
    have "Suc d \<le> 3" using True suc assms(6) by (auto simp: uc word_less_nat_alt split: if_splits)
    then show thesis using True step m tc st suc by (intro that(2) [of m t]) simp_all
  qed
qed

lemma probe_returns:
  assumes ev: "clock_only ev"
  shows "Buffer_first s = Buffer_next s \<Longrightarrow> fragsInReassembly s = 0 \<Longrightarrow> findEth (MyIpAddr s) s = None \<Longrightarrow>
    Timer_CurrentTicks s = lastCheck \<Longrightarrow> unat (Timer_diff start lastCheck) + k = 3 \<Longrightarrow>
    \<exists>n' t. probe_loop user ev n start lastCheck s = Some (n', t, None) \<and> probing s t \<and>
      3 \<le> unat (Timer_diff start (Timer_CurrentTicks t))"
proof (induction k arbitrary: n s lastCheck)
  case 0
  then have "unat (Timer_diff start lastCheck) = 3" by simp
  with ev 0(1-4) show ?case
    by (cases rule: probe_turn [of ev s lastCheck start 3 user n]) auto
next
  case (Suc k)
  define d where "d = unat (Timer_diff start lastCheck)"
  have "d \<le> 3" using Suc.prems by (simp add: d_def)
  with ev Suc.prems(1-4) d_def [symmetric] show ?case
  proof (cases rule: probe_turn [of ev s lastCheck start d user n])
    case (2 t m)
    note k = probing_keeps [OF 2(2)]
    have "Buffer_first t = Buffer_next t" "fragsInReassembly t = 0" "findEth (MyIpAddr t) t = None"
      "unat (Timer_diff start (lastCheck + 1)) + k = 3"
      using Suc.prems k probing_frags [OF 2(2)] 2(4) by (simp_all add: d_def)
    from Suc.IH [OF this(1,2,3) 2(3) this(4), of m] obtain n' t' where
      "probe_loop user ev m start (lastCheck + 1) t = Some (n', t', None)" "probing t t'"
      "3 \<le> unat (Timer_diff start (Timer_CurrentTicks t'))" by blast
    then show ?thesis using 2(1) probing_trans [OF 2(2)] by (intro exI [of _ n'] exI [of _ t']) simp
  qed blast
qed

section \<open>A fresh start\<close>

text \<open>
  The state of a program that has just been loaded and configured, on a machine with a packet
  driver and enough memory.
\<close>

definition fresh_start :: "dos_services \<Rightarrow> u8 \<Rightarrow> u8 \<Rightarrow> 'a startup_state_scheme \<Rightarrow> bool" where
  "fresh_start dos tcpSockets tcpXmitBuffers s \<longleftrightarrow>
     dos_eyeCatcher dos (packetInt s) = PKT_DRVR_EYE_CATCHER \<and>
     \<not> o_cflag (dos_int86x dos (packetInt s) access_type_regs) \<and> (\<forall>n. malloc_ok s n) \<and>
     Packet_EtherTypeHandlers s = 0 \<and> callbackPorts s = 0 \<and> entries s = 0 \<and>
     (env_MTCPSLIP s \<longrightarrow> Gateway s \<noteq> MyIpAddr s) \<and> fragsInReassembly s = 0 \<and>
     tcpSockets \<noteq> 0 \<and> tcpSockets \<le> TCP_MAX_SOCKETS \<and> tcpXmitBuffers \<le> TCP_MAX_XMIT_BUFS"

definition before_layers :: "dos_services \<Rightarrow> nat \<Rightarrow> nat \<Rightarrow> 'a startup_state_scheme \<Rightarrow> 'a startup_state_scheme" where
  "before_layers dos brk cc s =
     (let s = hook_vectors brk cc (fst (Packet_init dos (packetInt s) (fst (Buffer_init s))))
      in s\<lparr>MyEthAddr := Packet_get_addr dos s\<rparr>)"

lemma malloc_good: "malloc_ok s (heap_next s) \<Longrightarrow>
    malloc s = (s\<lparr>heap_next := Suc (heap_next s), heap_live := insert (heap_next s) (heap_live s)\<rparr>, Some (heap_next s))"
  by (simp add: malloc_def Let_def)

lemma Buffer_init_good:
  assumes "malloc_ok s (heap_next s)"
  shows "snd (Buffer_init s) = 0" "heap_next (fst (Buffer_init s)) = Suc (heap_next s)"
    "heap_live (fst (Buffer_init s)) = insert (heap_next s) (heap_live s)"
  by (simp_all add: Buffer_init_def malloc_good [OF assms])

lemma before_layers_keeps:
  fixes brk cc :: nat and s :: "'a startup_state_scheme"
  assumes "fresh_start dos tcpSockets tcpXmitBuffers s"
  defines "t \<equiv> before_layers dos brk cc s"
  shows "malloc_ok t = malloc_ok s" "Packet_EtherTypeHandlers t = 0" "callbackPorts t = 0" "entries t = 0" "env_MTCPSLIP t = env_MTCPSLIP s"
    "Gateway t = Gateway s" "MyIpAddr t = MyIpAddr s" "fragsInReassembly t = 0" "Buffer_first t = 0" "Buffer_next t = 0"
    "heap_next t = Suc (heap_next s)" "heap_live t = insert (heap_next s) (heap_live s)" "Timer_CurrentTicks t = Timer_CurrentTicks s"
    "vect_1c t = vect_1c s" "vect_1b t = brk" "vect_23 t = cc" "oldCtrlBreakHandler t = vect_1b s" "cfg_ICMP t = cfg_ICMP s"
    "socketsMemPtr t = socketsMemPtr s" "BufferMemPtr t = BufferMemPtr s" "fragControl t = fragControl s"
  using assms(1) malloc_good [of s]
  by (simp_all add: t_def before_layers_def fresh_start_def hook_vectors_def Packet_init_def Buffer_init_def Let_def)

lemma register_types_good:
  assumes "Packet_EtherTypeHandlers s = 0"
  shows "register_types s = (s\<lparr>Packet_EtherTypeVal := (Packet_EtherTypeVal s)(0 := htons 0x0800, 1 := htons 0x0806),
     Packet_EtherTypeHandler := (Packet_EtherTypeHandler s)(0 := HandlerIp, 1 := HandlerArp), Packet_EtherTypeHandlers := 2\<rparr>, 0)"
  using assms by (simp add: register_types_def Packet_registerEtherType_def Let_def cfg_defs)

text \<open>Each layer on a state where it succeeds.\<close>

lemma initForReassembly_good:
  assumes "malloc_ok s (heap_next s)"
  obtains fc bl where "initForReassembly s =
     (s\<lparr>heap_next := Suc (heap_next s), heap_live := insert (heap_next s) (heap_live s), ipReassemblyMemory := Some (heap_next s),
        fragControl := fc, BigPacketFreeList := bl, BigPacketFreeIndex := of_nat IP_MAX_FRAG_PACKETS\<rparr>, 0)"
    and "\<forall>i<IP_MAX_FRAG_PACKETS. \<not> inUse (fc i)"
proof -
  have "fragControl (fst (initForReassembly s)) i = (if i < IP_MAX_FRAG_PACKETS then (fragControl s i)\<lparr>inUse := False\<rparr> else fragControl s i)" for i
    by (simp add: initForReassembly_def malloc_good [OF assms])
  moreover have "\<exists>fc bl. initForReassembly s =
     (s\<lparr>heap_next := Suc (heap_next s), heap_live := insert (heap_next s) (heap_live s), ipReassemblyMemory := Some (heap_next s),
        fragControl := fc, BigPacketFreeList := bl, BigPacketFreeIndex := of_nat IP_MAX_FRAG_PACKETS\<rparr>, 0)"
    unfolding initForReassembly_def malloc_good [OF assms] by simp blast
  ultimately obtain fc bl where i: "initForReassembly s =
     (s\<lparr>heap_next := Suc (heap_next s), heap_live := insert (heap_next s) (heap_live s), ipReassemblyMemory := Some (heap_next s),
        fragControl := fc, BigPacketFreeList := bl, BigPacketFreeIndex := of_nat IP_MAX_FRAG_PACKETS\<rparr>, 0)"
    and "\<And>i. fc i = (if i < IP_MAX_FRAG_PACKETS then (fragControl s i)\<lparr>inUse := False\<rparr> else fragControl s i)"
    by auto
  then show thesis using that [OF i] by simp
qed

lemma TcpSocketMgr_init_good:
  assumes "malloc_ok s (heap_next s)" and "n \<noteq> 0" and "n \<le> TCP_MAX_SOCKETS"
  obtains av where "TcpSocketMgr_init n s =
     (s\<lparr>heap_next := Suc (heap_next s), heap_live := insert (heap_next s) (heap_live s), allocatedSockets := n,
        availSocketTable := av, availSockets := n, activeSockets := 0, pendingAccepts := 0, MSS_to_advertise := MyMTU s - 40\<rparr>, TCP_RC_GOOD)"
  using assms(2,3) unfolding TcpSocketMgr_init_def malloc_good [OF assms(1)] by (simp add: leD)

lemma TcpBuffer_init_good:
  "malloc_ok s (heap_next s) \<Longrightarrow> n \<le> TCP_MAX_XMIT_BUFS \<Longrightarrow> \<exists>t xb tb. TcpBuffer_init n s = (t, TCP_RC_GOOD) \<and> t =
     s\<lparr>heap_next := Suc (heap_next s), heap_live := insert (heap_next s) (heap_live s), xmitBuffersMemPtr := Some (heap_next s),
        freeXmitBuffers := n, allocatedXmitBuffers := n, xmitBuffers := xb, tbuf := tb\<rparr>"
  unfolding TcpBuffer_init_def
  by (simp add: Let_def leD malloc_good) blast

lemma Dns_init_good:
  "callbackPorts s = 0 \<Longrightarrow> Dns_init s = (s\<lparr>callbackList := (callbackList s)(0 := DNS_HANDLER_PORT),
     callbackFunctions := (callbackFunctions s)(0 := UdpDns), callbackPorts := 1\<rparr>, 0)"
  by (simp add: Dns_init_def registerCallback_def callback_index_def cfg_defs Let_def)

lemma clearPendingTable_shape: "\<exists>p. clearPendingTable s = s\<lparr>pending := p, pendingEntries := 0\<rparr>"
  unfolding clearPendingTable_def by blast

lemma Arp_init_shape:
  obtains p t e a b where "Arp_init s = s\<lparr>pending := p, pendingEntries := 0, arpTable := t, entries := e, Arp_prebuiltResponse := a,
     Arp_prebuiltRequest := b\<rparr>"
    and "if env_MTCPSLIP s then e = entries s + 1 \<and> r_ipAddr (t 0) = Gateway s else e = entries s"
proof -
  obtain p where p: "clearPendingTable s = s\<lparr>pending := p, pendingEntries := 0\<rparr>" using clearPendingTable_shape by blast
  have "\<exists>a b. Arp_init s = s\<lparr>pending := p, pendingEntries := 0,
      arpTable := (if env_MTCPSLIP s then (arpTable s)(0 := \<lparr>r_ethAddr = Eth_Broadcast, r_ipAddr = Gateway s, r_updated = unix_time s\<rparr>) else arpTable s),
      entries := (if env_MTCPSLIP s then entries s + 1 else entries s), Arp_prebuiltResponse := a, Arp_prebuiltRequest := b\<rparr>"
    unfolding Arp_init_def p Let_def by (cases "env_MTCPSLIP s"; simp; blast)
  then obtain a b where "Arp_init s = s\<lparr>pending := p, pendingEntries := 0,
      arpTable := (if env_MTCPSLIP s then (arpTable s)(0 := \<lparr>r_ethAddr = Eth_Broadcast, r_ipAddr = Gateway s, r_updated = unix_time s\<rparr>) else arpTable s),
      entries := (if env_MTCPSLIP s then entries s + 1 else entries s), Arp_prebuiltResponse := a, Arp_prebuiltRequest := b\<rparr>" by blast
  from that [OF this] show thesis by simp
qed

lemma Icmp_init_shape:
  obtains m f where "(if cfg_ICMP s then Icmp_init s else s) = s\<lparr>icmpEchoPacket := m, icmpCallback := f\<rparr>"
proof (cases "cfg_ICMP s")
  case False
  have "s = s\<lparr>icmpEchoPacket := icmpEchoPacket s, icmpCallback := icmpCallback s\<rparr>" by simp
  then show thesis using that False by metis
next
  case True
  then show thesis using that by (simp add: Icmp_init_def)
qed

text \<open>All layers come up; what they leave behind.\<close>

lemma init_layers_good:
  fixes s :: "'a startup_state_scheme"
  assumes "Packet_EtherTypeHandlers s = 0" and "callbackPorts s = 0" and "\<forall>n. malloc_ok s n" and "entries s = 0"
    and "env_MTCPSLIP s \<longrightarrow> Gateway s \<noteq> MyIpAddr s"
    and "n \<noteq> 0" and "n \<le> TCP_MAX_SOCKETS" and "m \<le> TCP_MAX_XMIT_BUFS"
  obtains t v h pd tb e a b fc bl em ic av xb bf cl cf where "init_layers n m s = (t, True)"
    and "t = s\<lparr>Packet_EtherTypeVal := v(0 := htons 0x0800, 1 := htons 0x0806), Packet_EtherTypeHandler := h(0 := HandlerIp, 1 := HandlerArp),
        Packet_EtherTypeHandlers := 2, Timer_old_tick_handler := vect_1c s, vect_1c := Timer_tick, timer_hooked := True,
        pending := pd, pendingEntries := 0, arpTable := tb, entries := e, Arp_prebuiltResponse := a, Arp_prebuiltRequest := b,
        fragControl := fc, BigPacketFreeList := bl, BigPacketFreeIndex := of_nat IP_MAX_FRAG_PACKETS,
        icmpEchoPacket := em, icmpCallback := ic,
        allocatedSockets := n, availSocketTable := av, availSockets := n, activeSockets := 0, pendingAccepts := 0,
        MSS_to_advertise := MyMTU s - 40, freeXmitBuffers := m, allocatedXmitBuffers := m, xmitBuffers := xb, tbuf := bf,
        callbackList := cl(0 := DNS_HANDLER_PORT), callbackFunctions := cf(0 := UdpDns), callbackPorts := 1,
        heap_next := heap_next s + 3, heap_live := heap_live s \<union> {heap_next s, heap_next s + 1, heap_next s + 2},
        ipReassemblyMemory := Some (heap_next s), xmitBuffersMemPtr := Some (heap_next s + 2)\<rparr>"
    and "\<forall>i<IP_MAX_FRAG_PACKETS. \<not> inUse (fc i)" and "\<forall>i<unat e. r_ipAddr (tb i) \<noteq> MyIpAddr s"
proof -
  have mk: "malloc_ok s k" for k using assms(3) by blast
  define s1 where "s1 = s\<lparr>Packet_EtherTypeVal := (Packet_EtherTypeVal s)(0 := htons 0x0800, 1 := htons 0x0806),
     Packet_EtherTypeHandler := (Packet_EtherTypeHandler s)(0 := HandlerIp, 1 := HandlerArp), Packet_EtherTypeHandlers := 2,
     Timer_old_tick_handler := vect_1c s, vect_1c := Timer_tick, timer_hooked := True\<rparr>"
  obtain pd tb e a b where A: "Arp_init s1 = s1\<lparr>pending := pd, pendingEntries := 0, arpTable := tb, entries := e,
      Arp_prebuiltResponse := a, Arp_prebuiltRequest := b\<rparr>"
    and e: "if env_MTCPSLIP s1 then e = entries s1 + 1 \<and> r_ipAddr (tb 0) = Gateway s1 else e = entries s1"
    by (rule Arp_init_shape)
  define s2 where "s2 = s1\<lparr>pending := pd, pendingEntries := 0, arpTable := tb, entries := e,
      Arp_prebuiltResponse := a, Arp_prebuiltRequest := b\<rparr>"
  have "malloc_ok s2 (heap_next s2)" using mk by (simp add: s2_def s1_def)
  then obtain fc bl where R: "initForReassembly s2 =
     (s2\<lparr>heap_next := Suc (heap_next s2), heap_live := insert (heap_next s2) (heap_live s2), ipReassemblyMemory := Some (heap_next s2),
        fragControl := fc, BigPacketFreeList := bl, BigPacketFreeIndex := of_nat IP_MAX_FRAG_PACKETS\<rparr>, 0)"
    and fc: "\<forall>i<IP_MAX_FRAG_PACKETS. \<not> inUse (fc i)" by (rule initForReassembly_good)
  define s3 where "s3 = s2\<lparr>heap_next := Suc (heap_next s2), heap_live := insert (heap_next s2) (heap_live s2),
     ipReassemblyMemory := Some (heap_next s2), fragControl := fc, BigPacketFreeList := bl, BigPacketFreeIndex := of_nat IP_MAX_FRAG_PACKETS\<rparr>"
  obtain em ic where I: "(if cfg_ICMP s3 then Icmp_init s3 else s3) = s3\<lparr>icmpEchoPacket := em, icmpCallback := ic\<rparr>"
    by (rule Icmp_init_shape)
  define s4 where "s4 = s3\<lparr>icmpEchoPacket := em, icmpCallback := ic\<rparr>"
  have "malloc_ok s4 (heap_next s4)" using mk by (simp add: s4_def s3_def s2_def s1_def)
  then obtain av where S: "TcpSocketMgr_init n s4 =
     (s4\<lparr>heap_next := Suc (heap_next s4), heap_live := insert (heap_next s4) (heap_live s4), allocatedSockets := n,
        availSocketTable := av, availSockets := n, activeSockets := 0, pendingAccepts := 0, MSS_to_advertise := MyMTU s4 - 40\<rparr>, TCP_RC_GOOD)"
    using assms(6,7) by (rule TcpSocketMgr_init_good)
  define s5 where "s5 = s4\<lparr>heap_next := Suc (heap_next s4), heap_live := insert (heap_next s4) (heap_live s4), allocatedSockets := n,
        availSocketTable := av, availSockets := n, activeSockets := 0, pendingAccepts := 0, MSS_to_advertise := MyMTU s4 - 40\<rparr>"
  have "malloc_ok s5 (heap_next s5)" using mk by (simp add: s5_def s4_def s3_def s2_def s1_def)
  from TcpBuffer_init_good [OF this assms(8)] obtain s6 xb bf where B: "TcpBuffer_init m s5 = (s6, TCP_RC_GOOD)"
    "s6 = s5\<lparr>heap_next := Suc (heap_next s5), heap_live := insert (heap_next s5) (heap_live s5), xmitBuffersMemPtr := Some (heap_next s5),
        freeXmitBuffers := m, allocatedXmitBuffers := m, xmitBuffers := xb, tbuf := bf\<rparr>" by blast
  have "callbackPorts s6 = 0" using assms(2) by (simp add: B(2) s5_def s4_def s3_def s2_def s1_def)
  note D = Dns_init_good [OF this]
  define t where "t = s6\<lparr>callbackList := (callbackList s6)(0 := DNS_HANDLER_PORT),
     callbackFunctions := (callbackFunctions s6)(0 := UdpDns), callbackPorts := 1\<rparr>"
  have T: "Timer_start (s\<lparr>Packet_EtherTypeVal := (Packet_EtherTypeVal s)(0 := htons 0x0800, 1 := htons 0x0806),
     Packet_EtherTypeHandler := (Packet_EtherTypeHandler s)(0 := HandlerIp, 1 := HandlerArp), Packet_EtherTypeHandlers := 2\<rparr>) = s1"
    by (simp add: Timer_start_def s1_def)
  have folded: "Arp_init s1 = s2" "initForReassembly s2 = (s3, 0)" "(if cfg_ICMP s3 then Icmp_init s3 else s3) = s4"
    "TcpSocketMgr_init n s4 = (s5, 0)" "TcpBuffer_init m s5 = (s6, 0)" "Dns_init s6 = (t, 0)"
    using A R I S B(1) D unfolding s2_def [symmetric] s3_def [symmetric] s4_def [symmetric] s5_def [symmetric] t_def [symmetric]
    by (simp_all only:) (simp_all add: cfg_defs)
  have "init_layers n m s = (t, True)"
    unfolding init_layers_def register_types_good [OF assms(1)] Let_def prod.case T folded by simp
  moreover have "\<forall>i<unat e. r_ipAddr (tb i) \<noteq> MyIpAddr s"
    using e assms(4,5) by (cases "env_MTCPSLIP s") (auto simp: s1_def)
  ultimately show thesis
    using fc by (intro that [where t = t and v = "Packet_EtherTypeVal s" and h = "Packet_EtherTypeHandler s" and pd = pd and tb = tb
          and e = e and a = a and b = b and fc = fc and bl = bl and em = em and ic = ic and av = av and xb = xb and bf = bf
          and cl = "callbackList s" and cf = "callbackFunctions s"])
      (simp_all add: t_def B(2) s5_def s4_def s3_def s2_def s1_def insert_commute)
qed

text \<open>The stack is up: the ring is empty and all buffers are free, the layers are registered and the clock ticks.\<close>

definition stack_up :: "u8 \<Rightarrow> u8 \<Rightarrow> 'a startup_state_scheme \<Rightarrow> bool" where
  "stack_up tcpSockets tcpXmitBuffers s \<longleftrightarrow>
     Buffer_fs_index s = PACKET_BUFFERS \<and> Buffer_first s = Buffer_next s \<and>
     Packet_route s (htons 0x0800) = Some HandlerIp \<and> Packet_route s (htons 0x0806) = Some HandlerArp \<and>
     callbacks s DNS_HANDLER_PORT = Some UdpDns \<and> vect_1c s = Timer_tick \<and> timer_hooked s \<and> pendingEntries s = 0 \<and>
     availSockets s = tcpSockets \<and> freeXmitBuffers s = tcpXmitBuffers"

lemma before_layers_view:
  fixes s :: "'a startup_state_scheme"
  assumes "fresh_start dos n m s"
  shows "initStack user ev k dos n m brk cc s =
    (let (s, ok) = init_layers n m (before_layers dos brk cc s)
     in if \<not> ok then Some (k, endStack dos s, -1)
        else (let s = Buffer_startReceiving (test_sleep dos s); startTime = Timer_CurrentTicks s
              in case probe_loop user ev k startTime startTime s of
                   None \<Rightarrow> None
                 | Some (k, s, Some conflict) \<Rightarrow> Some (k, endStack dos s, -1)
                 | Some (k, s, None) \<Rightarrow> Some (k, clearPendingTable s, 0)))"
proof -
  obtain t where t: "Buffer_init s = (t, 0)"
    using Buffer_init_good(1) [of s] assms by (cases "Buffer_init s") (auto simp: fresh_start_def)
  have "packetInt t = packetInt s" using t by (auto simp: Buffer_init_def malloc_def Let_def split: if_splits)
  then obtain v where v: "Packet_init dos (packetInt t) t = (v, 0)"
    using assms by (auto simp: fresh_start_def Packet_init_def Let_def)
  show ?thesis
    using \<open>packetInt t = packetInt s\<close> v unfolding initStack_def before_layers_def Let_def t prod.case by simp
qed

lemma registered_routes:
  assumes "Packet_EtherTypeHandlers s = 2" and "Packet_EtherTypeVal s 0 = htons 0x0800" and "Packet_EtherTypeVal s 1 = htons 0x0806"
    and "Packet_EtherTypeHandler s 0 = HandlerIp" and "Packet_EtherTypeHandler s 1 = HandlerArp"
  shows "Packet_route s (htons 0x0800) = Some HandlerIp" "Packet_route s (htons 0x0806) = Some HandlerArp"
proof -
  have two: "[0..<unat (Packet_EtherTypeHandlers s)] = [0, 1]" using assms(1) by (simp add: upt_rec)
  have "htons 0x0800 \<noteq> htons 0x0806" by (simp add: htons_def)
  then show "Packet_route s (htons 0x0800) = Some HandlerIp" "Packet_route s (htons 0x0806) = Some HandlerArp"
    using assms(2-5) unfolding Packet_route_def two by simp_all
qed

lemma registered_callback:
  "callbackPorts s = 1 \<Longrightarrow> callbackList s 0 = p \<Longrightarrow> callbackFunctions s 0 = f \<Longrightarrow> callbacks s p = Some f"
  by (simp add: callbacks_def callback_index_def)

lemma test_sleep_shape: "\<exists>ts. test_sleep dos s = s\<lparr>mTCP_releaseTimesliceEnabled := ts\<rparr>"
proof -
  have "test_sleep dos s = s\<lparr>mTCP_releaseTimesliceEnabled := (if mTCP_sleepCallEnabled s \<noteq> 0 \<and> dos_int2f_installed dos \<and>
      dos_releaseTimeslice dos = 0 then 1 else mTCP_releaseTimesliceEnabled s)\<rparr>" by (simp add: test_sleep_def)
  then show ?thesis by blast
qed

lemma initStack_good:
  fixes s :: "'a startup_state_scheme"
  assumes ev: "clock_only ev" and fresh: "fresh_start dos n m s"
  obtains k' u where "initStack user ev k dos n m brk cc s = Some (k', u, 0)"
    and "stack_up n m u" and "3 \<le> unat (Timer_diff (Timer_CurrentTicks s) (Timer_CurrentTicks u))"
    and "heap_live u = heap_live s \<union> {heap_next s, heap_next s + 1, heap_next s + 2, heap_next s + 3}"
    and "ipReassemblyMemory u = Some (heap_next s + 1)" "xmitBuffersMemPtr u = Some (heap_next s + 3)"
    and "socketsMemPtr u = socketsMemPtr s" "BufferMemPtr u = BufferMemPtr s" "\<forall>i<IP_MAX_FRAG_PACKETS. \<not> inUse (fragControl u i)"
    and "vect_1b u = brk" "oldCtrlBreakHandler u = vect_1b s" "Timer_old_tick_handler u = vect_1c s"
proof -
  define s0 where "s0 = before_layers dos brk cc s"
  note k0 = before_layers_keeps [OF fresh, of brk cc, folded s0_def]
  have pre: "\<forall>n. malloc_ok s0 n" "env_MTCPSLIP s0 \<longrightarrow> Gateway s0 \<noteq> MyIpAddr s0" "n \<noteq> 0" "n \<le> TCP_MAX_SOCKETS" "m \<le> TCP_MAX_XMIT_BUFS"
    using fresh k0 by (simp_all add: fresh_start_def)
  obtain t v h pd tb e a b fc bl em ic av xb bf cl cf where L: "init_layers n m s0 = (t, True)"
    and t: "t = s0\<lparr>Packet_EtherTypeVal := v(0 := htons 0x0800, 1 := htons 0x0806), Packet_EtherTypeHandler := h(0 := HandlerIp, 1 := HandlerArp),
        Packet_EtherTypeHandlers := 2, Timer_old_tick_handler := vect_1c s0, vect_1c := Timer_tick, timer_hooked := True,
        pending := pd, pendingEntries := 0, arpTable := tb, entries := e, Arp_prebuiltResponse := a, Arp_prebuiltRequest := b,
        fragControl := fc, BigPacketFreeList := bl, BigPacketFreeIndex := of_nat IP_MAX_FRAG_PACKETS,
        icmpEchoPacket := em, icmpCallback := ic,
        allocatedSockets := n, availSocketTable := av, availSockets := n, activeSockets := 0, pendingAccepts := 0,
        MSS_to_advertise := MyMTU s0 - 40, freeXmitBuffers := m, allocatedXmitBuffers := m, xmitBuffers := xb, tbuf := bf,
        callbackList := cl(0 := DNS_HANDLER_PORT), callbackFunctions := cf(0 := UdpDns), callbackPorts := 1,
        heap_next := heap_next s0 + 3, heap_live := heap_live s0 \<union> {heap_next s0, heap_next s0 + 1, heap_next s0 + 2},
        ipReassemblyMemory := Some (heap_next s0), xmitBuffersMemPtr := Some (heap_next s0 + 2)\<rparr>"
    and fc: "\<forall>i<IP_MAX_FRAG_PACKETS. \<not> inUse (fc i)" and tb: "\<forall>i<unat e. r_ipAddr (tb i) \<noteq> MyIpAddr s0"
    by (rule init_layers_good [OF k0(2,3) pre(1) k0(4) pre(2-5)])
  obtain ts where ts: "test_sleep dos t = t\<lparr>mTCP_releaseTimesliceEnabled := ts\<rparr>"
    using test_sleep_shape by blast
  define u where "u = Buffer_startReceiving (test_sleep dos t)"
  have U: "u = t\<lparr>mTCP_releaseTimesliceEnabled := ts, Buffer_fs_index := PACKET_BUFFERS\<rparr>"
    unfolding u_def ts Buffer_startReceiving_def by simp
  have "Buffer_first u = Buffer_next u" "fragsInReassembly u = 0" "findEth (MyIpAddr u) u = None"
    using k0 tb unfolding U t by (simp_all add: findEth_def find_None_iff)
  from probe_returns [OF ev this refl, of "Timer_CurrentTicks u" 3 user k]
  obtain k' w where w: "probe_loop user ev k (Timer_CurrentTicks u) (Timer_CurrentTicks u) u = Some (k', w, None)" "probing u w"
    "3 \<le> unat (Timer_diff (Timer_CurrentTicks u) (Timer_CurrentTicks w))" by (auto simp: Timer_diff_def)
  have i: "initStack user ev k dos n m brk cc s = Some (k', clearPendingTable w, 0)"
    unfolding before_layers_view [OF fresh] Let_def s0_def [symmetric] L prod.case u_def [symmetric] w(1) by simp
  obtain p where p: "clearPendingTable w = w\<lparr>pending := p, pendingEntries := 0\<rparr>" using clearPendingTable_shape by blast
  obtain c d x y z pp ee r where W: "w = probe_upd c d x y z pp ee r u" using w(2) unfolding probing_def by blast
  have F: "clearPendingTable w = probe_upd c d x y z p 0 r u" unfolding p by (simp add: W probe_upd_def)
  show thesis
  proof (rule that [OF i])
    show "3 \<le> unat (Timer_diff (Timer_CurrentTicks s) (Timer_CurrentTicks (clearPendingTable w)))"
      using w(3) k0 by (simp add: p U t)
    show "stack_up n m (clearPendingTable w)"
      unfolding F stack_up_def probe_upd_def U t using k0
      by (intro conjI registered_routes registered_callback) simp_all
  qed (use k0 fc in \<open>simp_all add: F probe_upd_def U t insert_commute eval_nat_numeral\<close>)
qed

lemma no_fragments_to_kill:
  assumes "\<forall>i<IP_MAX_FRAG_PACKETS. \<not> inUse (fragControl s i)"
  shows "reassemblyStop s = (case ipReassemblyMemory s of Some p \<Rightarrow> free p s | None \<Rightarrow> s)"
proof -
  have "fold (\<lambda>i s. if inUse (fragControl s i) then killFragmentControl i s else s) is s = s" if "set is \<subseteq> {..<IP_MAX_FRAG_PACKETS}" for "is"
    using that assms by (induction "is") auto
  from this [of "[0..<IP_MAX_FRAG_PACKETS]"] show ?thesis by (simp add: reassemblyStop_def atLeast_upt)
qed

lemma Dns_stop_shape: "\<exists>cl cf n. Dns_stop s = s\<lparr>callbackPorts := n, callbackList := cl, callbackFunctions := cf\<rparr>"
proof (cases "callback_index DNS_HANDLER_PORT s")
  case None
  have "s = s\<lparr>callbackPorts := callbackPorts s, callbackList := callbackList s, callbackFunctions := callbackFunctions s\<rparr>" by simp
  with None show ?thesis unfolding Dns_stop_def unregisterCallback_def by (metis fst_conv option.case(1))
next
  case (Some i)
  then show ?thesis unfolding Dns_stop_def unregisterCallback_def by (simp add: Let_def) blast
qed

section \<open>Properties\<close>

text \<open>
  C30. Starting the stack works: on a machine with a packet driver and enough memory, when the clock
  runs and no other machine answers for our address, \<open>initStack\<close> returns 0 after at least three
  ticks, with ten free receive buffers, an empty ring, the handlers of IP, ARP and the resolver
  registered, the timer hooked, all sockets and transmit buffers available and no ARP request open.
\<close>

theorem initStack_brings_stack_up:
  fixes s :: "'a startup_state_scheme"
  assumes "clock_only ev" and "fresh_start dos n m s"
  shows "\<exists>k' u. initStack user ev k dos n m brk cc s = Some (k', u, 0) \<and> stack_up n m u \<and>
    3 \<le> unat (Timer_diff (Timer_CurrentTicks s) (Timer_CurrentTicks u))"
  by (rule initStack_good [OF assms, of user k brk cc]) blast

definition demo_dos :: dos_services where
  "demo_dos = \<lparr>dos_eyeCatcher = (\<lambda>_. PKT_DRVR_EYE_CATCHER),
     dos_int86x = (\<lambda>_ _. \<lparr>o_cflag = False, o_ax = 5, o_dh = 0, o_addr = Eth_Broadcast\<rparr>),
     dos_int2f_installed = False, dos_releaseTimeslice = 0\<rparr>"

lemma demo_fresh: "fresh_start demo_dos 2 10 zero_startup_state"
  by (simp add: fresh_start_def demo_dos_def zero_startup cfg_defs)

theorem initStack_brings_stack_up_witness:
  "\<exists>k' u. initStack (\<lambda>_ _ s. s) demo_clock 0 demo_dos 2 10 7 8 zero_startup_state = Some (k', u, 0) \<and> stack_up 2 10 u"
  using initStack_brings_stack_up [OF demo_clock demo_fresh, of "\<lambda>_ _ s. s" 0 7 8] by blast

text \<open>
  Stopping the stack gives the machine back: after a start that worked, \<open>endStack\<close> leaves the
  timer and break vectors as they were, no receive buffer for the packet driver, and of the four
  memory blocks of the start it frees two; the receive buffers and the sockets stay allocated, since
  nothing ever records where they are.
\<close>

lemma endStack_after_initStack:
  fixes s :: "'a startup_state_scheme"
  assumes "clock_only ev" and "fresh_start dos n m s" and "\<forall>p\<ge>heap_next s. p \<notin> heap_live s"
    and "socketsMemPtr s = None" and "BufferMemPtr s = None"
  shows "\<exists>k' u. initStack user ev k dos n m brk cc s = Some (k', u, 0) \<and>
    (let e = endStack dos u
     in vect_1c e = vect_1c s \<and> vect_1b e = vect_1b s \<and> \<not> timer_hooked e \<and> Buffer_fs_index e = 0 \<and>
        heap_live e = heap_live s \<union> {heap_next s, heap_next s + 2})"
proof (rule initStack_good [OF assms(1,2), of user k brk cc])
  fix k' u
  assume i: "initStack user ev k dos n m brk cc s = Some (k', u, 0)" and up: "stack_up n m u"
    and f: "heap_live u = heap_live s \<union> {heap_next s, heap_next s + 1, heap_next s + 2, heap_next s + 3}"
      "ipReassemblyMemory u = Some (heap_next s + 1)" "xmitBuffersMemPtr u = Some (heap_next s + 3)"
      "socketsMemPtr u = socketsMemPtr s" "BufferMemPtr u = BufferMemPtr s" "\<forall>i<IP_MAX_FRAG_PACKETS. \<not> inUse (fragControl u i)"
      "vect_1b u = brk" "oldCtrlBreakHandler u = vect_1b s" "Timer_old_tick_handler u = vect_1c s"
  obtain cl cf c where d: "Dns_stop (Buffer_stopReceiving u) =
      (Buffer_stopReceiving u)\<lparr>callbackPorts := c, callbackList := cl, callbackFunctions := cf\<rparr>"
    using Dns_stop_shape by blast
  define w where "w = TcpBuffer_stop (TcpSocketMgr_stop (Dns_stop (Buffer_stopReceiving u)))"
  have w: "w = u\<lparr>Buffer_fs_index := 0, callbackList := cl, callbackFunctions := cf, callbackPorts := c,
      heap_live := heap_live u - {heap_next s + 3}\<rparr>"
    unfolding w_def d
    unfolding TcpSocketMgr_stop_def TcpBuffer_stop_def free_def Buffer_stopReceiving_def using f(3,4) assms(4) by simp
  have r: "reassemblyStop w = w\<lparr>heap_live := heap_live u - {heap_next s + 3} - {heap_next s + 1}\<rparr>"
    using no_fragments_to_kill [of w] f(2,6) by (simp add: w free_def)
  have e: "endStack dos u = u\<lparr>Buffer_fs_index := 0, callbackList := cl, callbackFunctions := cf, callbackPorts := c,
      heap_live := heap_live u - {heap_next s + 3} - {heap_next s + 1}, vect_1c := vect_1c s, timer_hooked := False,
      vect_1b := vect_1b s\<rparr>"
    using up f(5,8,9) assms(5) unfolding endStack_def Let_def w_def [symmetric] r Timer_stop_def Buffer_stop_def stack_up_def
    by (simp add: w)
  have "heap_live u - {heap_next s + 3} - {heap_next s + 1} = heap_live s \<union> {heap_next s, heap_next s + 2}"
    using assms(3) unfolding f(1) by auto
  then show ?thesis using i by (simp add: e)
qed

end
