(* ===== verification/Bot.thy ===== *)
theory Bot
  imports ConfigFile Startup
begin

text \<open>
  \<^verbatim>\<open>code/BOT/BOT.CPP\<close>: the program around the bot.  It sets up the stack and a socket, hands received
  segments and transmit buffers to the assembler part, and cleans up.

  The assembler part (\<^verbatim>\<open>asmRun\<close>, \<^verbatim>\<open>openLog\<close>) is a parameter; \<open>BotLogic\<close> and \<open>BotText\<close> model it.
  \<open>keys n\<close> is what the keyboard has at turn \<open>n\<close> of a loop, 0 when there is nothing.  \<open>None\<close> is a call that does not return or whose effect is undefined,
  such as a call through a null pointer.  Logging is left out: it writes to a file only.
\<close>

section \<open>State\<close>

record bot_state = startup_state +
  bot_sock :: "nat option"
  recvPacket :: "bufref option"
  sendBuffer :: "bref option"

definition zero_bot_state :: bot_state where
  "zero_bot_state = startup_state.extend zero_startup_state (bot_state.fields None None None)"

lemmas zero_bot = zero_bot_state_def zero_startup bot_state.defs

definition ALT_X :: u16 where "ALT_X = push_bit 8 45"

section \<open>The host to connect to\<close>

text \<open>
  Numbers with the given separators between them: the values of the conversions that succeed, and
  what follows the last number when all of them do.
\<close>

fun scan_seps :: "cstr \<Rightarrow> cstr \<Rightarrow> int list \<times> cstr option" where
  "scan_seps [] xs = (case scan_dec xs of None \<Rightarrow> ([], None) | Some (v, r) \<Rightarrow> ([v], Some r))"
| "scan_seps (c # cs) xs =
     (case scan_dec xs of
        None \<Rightarrow> ([], None)
      | Some (v, r) \<Rightarrow>
          (case r of
             [] \<Rightarrow> ([v], None)
           | d # r' \<Rightarrow>
               if d = c then (let (vs, rest) = scan_seps cs r' in (v # vs, rest)) else ([v], None)))"

text \<open>The octets up to the first one beyond 255, and the index of that one.\<close>

fun take_octets :: "nat \<Rightarrow> u16 list \<Rightarrow> u8 list \<Rightarrow> u8 list \<times> nat option" where
  "take_octets i [] addr = (addr, None)"
| "take_octets i (x # xs) addr =
     (if x \<le> 255 then take_octets (Suc i) xs (addr[i := ucast x]) else (addr, Some i))"

text \<open>
  The format is \<^verbatim>\<open>%u.%u.%u.%u:%u%c\<close>.  The variable for the character that must not be there is passed by value:
  the conversion of a further character writes through an undefined pointer.
\<close>

definition getEnvironmentDetails ::
    "cstr option \<Rightarrow> u8 list \<Rightarrow> u16 \<Rightarrow> (u8 list \<times> u16 \<times> int) option" where
  "getEnvironmentDetails details addr port =
     (case details of
        None \<Rightarrow> Some (addr, port, 1)
      | Some text \<Rightarrow>
          (case scan_seps [46, 46, 46, 58] text of
             (vs, None) \<Rightarrow> Some (addr, port, 2)
           | (vs, Some (_ # _)) \<Rightarrow> None
           | (vs, Some []) \<Rightarrow>
               (let port = of_int (vs ! 4)
                in case take_octets 0 (map of_int (take 4 vs)) addr of
                     (addr, None) \<Rightarrow> Some (addr, port, 0)
                   | (addr, Some i) \<Rightarrow> Some (addr, port, 3 + int i))))"

definition octets_ip :: "u8 list \<Rightarrow> IpAddr" where
  "octets_ip addr = (addr ! 0, addr ! 1, addr ! 2, addr ! 3)"

section \<open>Setting up and cleaning up\<close>

definition irc_host :: cstr where "irc_host = ascii ''irc.twitch.tv''"

text \<open>The wait for the answer of the name server; the flag is Alt-X.\<close>

partial_function (option) dns_wait ::
    "'a user \<Rightarrow> (nat \<Rightarrow> intr list) \<Rightarrow> (nat \<Rightarrow> u16) \<Rightarrow> nat \<Rightarrow> 'a dns_state_scheme \<Rightarrow>
     (nat \<times> 'a dns_state_scheme \<times> bool) option" where
  [code]: "dns_wait user ev keys n s =
     (if \<not> queryPending s then Some (n, s, False)
      else (case packet_process_single user (interrupts (ev n) s) of
          None \<Rightarrow> None
        | Some s \<Rightarrow>
            (case drivePendingQuery user ev (Suc n) (driveArp s) of
               None \<Rightarrow> None
             | Some (n, s) \<Rightarrow>
                 if keys n = ALT_X then Some (n, s, True) else dns_wait user ev keys n s)))"

text \<open>The name is resolved when no host is configured; the result code is 0 when \<open>addr\<close> is set.\<close>

definition resolve_host ::
    "'a user \<Rightarrow> (nat \<Rightarrow> intr list) \<Rightarrow> (nat \<Rightarrow> u16) \<Rightarrow> nat \<Rightarrow> u16 list \<Rightarrow> IpAddr \<Rightarrow> 'a dns_state_scheme \<Rightarrow>
     (nat \<times> 'a dns_state_scheme \<times> IpAddr \<times> int) option" where
  "resolve_host user ev keys n tmp addr s =
     (case dns_resolve user ev n irc_host addr True tmp s of
        None \<Rightarrow> None
      | Some (n, s, addr, rc) \<Rightarrow>
          if rc < 0 then Some (n, s, addr, 3)
          else (case dns_wait user ev keys n s of
              None \<Rightarrow> None
            | Some (n, s, altx) \<Rightarrow>
                if altx then Some (n, s, addr, 4)
                else if lastQueryRc s \<noteq> 0 then Some (n, s, addr, 5)
                else map_option (\<lambda>(n, s, addr, rc). (n, s, addr, 0))
                       (dns_resolve user ev n irc_host addr True tmp s)))"

text \<open>
  \<open>setupSocket\<close> from the point where the socket is there.  \<open>junk\<close> is what the uninitialised
  variables \<^verbatim>\<open>addr\<close> and \<^verbatim>\<open>dstPort\<close> hold, \<open>tmp\<close> those of the callees.
\<close>

definition connect_host ::
    "'a user \<Rightarrow> (nat \<Rightarrow> intr list) \<Rightarrow> (nat \<Rightarrow> u16) \<Rightarrow> nat \<Rightarrow> u16 list \<Rightarrow> u8 list \<times> u16 \<Rightarrow> cstr option \<Rightarrow> nat \<Rightarrow>
     'a dns_state_scheme \<Rightarrow> (nat \<times> 'a dns_state_scheme \<times> int) option" where
  "connect_host user ev keys n tmp junk host this s =
     (let go = (\<lambda>n addr port s.
            let (s, r) = c_rand s in connect user ev n this (r + 1024) addr port 1000 s)
      in case getEnvironmentDetails host (fst junk) (snd junk) of
           None \<Rightarrow> None
         | Some (addr, port, err) \<Rightarrow>
             if err = 0 then go n (octets_ip addr) port s
             else if err \<noteq> 1 then Some (n, s, 2)
             else (case resolve_host user ev keys n tmp (octets_ip addr) s of
                 None \<Rightarrow> None
               | Some (n, s, addr, rc) \<Rightarrow> if rc \<noteq> 0 then Some (n, s, rc) else go n addr 6667 s))"

record bot_env =
  be_dos :: dos_services
  be_env :: dos_env
  be_host :: "cstr option"
  be_ctrlbrk :: nat
  be_ctrlc :: nat

definition TCP_SOCKET_RING_SIZE :: u8 where [cfg_defs]: "TCP_SOCKET_RING_SIZE = 4"

definition setupSocket ::
    "'a bot_state_ext startup_state_ext config_state_ext timer_state_ext user \<Rightarrow> (nat \<Rightarrow> intr list) \<Rightarrow> (nat \<Rightarrow> u16) \<Rightarrow>
     nat \<Rightarrow> u16 list \<Rightarrow> u16 \<Rightarrow> u8 list \<times> u16 \<Rightarrow> bot_env \<Rightarrow> 'a bot_state_scheme \<Rightarrow>
     (nat \<times> 'a bot_state_scheme \<times> int) option" where
  "setupSocket user ev keys n tmp newMtu junk e s =
     (case parseEnv tmp newMtu (be_env e) s of
        None \<Rightarrow> None
      | Some (s, Some err) \<Rightarrow> Some (n, s, -1)
      | Some (s, None) \<Rightarrow>
          (case initStack user ev n (be_dos e) 1 TCP_SOCKET_RING_SIZE (be_ctrlbrk e) (be_ctrlc e) s of
             None \<Rightarrow> None
           | Some (n, s, rc) \<Rightarrow>
               if rc \<noteq> 0 then Some (n, s, rc)
               else (case getSocket s of
                   (s, None) \<Rightarrow> Some (n, s\<lparr>bot_sock := None\<rparr>, 1)
                 | (s, Some this) \<Rightarrow>
                     connect_host user ev keys n tmp junk (be_host e) this (s\<lparr>bot_sock := Some this\<rparr>))))"

definition cleanupSocket ::
    "'a bot_state_ext startup_state_ext config_state_ext timer_state_ext user \<Rightarrow> (nat \<Rightarrow> intr list) \<Rightarrow> nat \<Rightarrow>
     dos_services \<Rightarrow> 'a bot_state_scheme \<Rightarrow> (nat \<times> 'a bot_state_scheme) option" where
  "cleanupSocket user ev n dos s =
     (case bot_sock s of
        None \<Rightarrow> None
      | Some this \<Rightarrow>
          map_option (\<lambda>(n, s). (n, endStack dos (fst (freeSocket this s)))) (close user ev n this s))"

section \<open>Receiving\<close>

text \<open>The user data of the packet, as an offset in it.\<close>

definition currentRecvPacket :: "'a bot_state_scheme \<Rightarrow> (bufref \<times> nat) option" where
  "currentRecvPacket s =
     map_option (\<lambda>p. (p, pk_tcp_off p s + unat (getTcpHlen (pk_tcp p s)))) (recvPacket s)"

definition take_incoming :: "nat \<Rightarrow> 'a bot_state_scheme \<Rightarrow> 'a bot_state_scheme" where
  "take_incoming this s =
     (let (r, p) = rb_dequeue (incoming (socks s this))
      in (upd_sock this (\<lambda>k. k\<lparr>incoming := r\<rparr>) s)\<lparr>recvPacket := p\<rparr>)"

text \<open>One turn of the loop that drives the stack while there is no packet.\<close>

definition recv_turn ::
    "'a bot_state_ext startup_state_ext config_state_ext timer_state_ext user \<Rightarrow> (nat \<Rightarrow> intr list) \<Rightarrow> nat \<Rightarrow>
     'a bot_state_scheme \<Rightarrow> (nat \<times> 'a bot_state_scheme) option" where
  "recv_turn user ev n s =
     (case packet_process_single user (interrupts (ev n) s) of
        None \<Rightarrow> None
      | Some s \<Rightarrow> drivePendingQuery user ev (Suc n) (drivePackets (driveArp s)))"

text \<open>The loop; the last component is the result of an early return.\<close>

partial_function (option) recv_loop ::
    "'a bot_state_ext startup_state_ext config_state_ext timer_state_ext user \<Rightarrow> (nat \<Rightarrow> intr list) \<Rightarrow> (nat \<Rightarrow> u16) \<Rightarrow>
     nat \<Rightarrow> nat \<Rightarrow> 'a bot_state_scheme \<Rightarrow> (nat \<times> 'a bot_state_scheme \<times> int option) option" where
  [code]: "recv_loop user ev keys n this s =
     (if recvPacket (take_incoming this s) \<noteq> None then Some (n, take_incoming this s, None)
      else (case recv_turn user ev n (take_incoming this s) of
          None \<Rightarrow> None
        | Some (n, s) \<Rightarrow>
            if isRemoteClosed (socks s this) then Some (n, s, Some 0)
            else if keys n = ALT_X then Some (n, s, Some (-1))
            else recv_loop user ev keys n this s))"

definition recvNewPacket ::
    "'a bot_state_ext startup_state_ext config_state_ext timer_state_ext user \<Rightarrow> (nat \<Rightarrow> intr list) \<Rightarrow> (nat \<Rightarrow> u16) \<Rightarrow>
     nat \<Rightarrow> 'a bot_state_scheme \<Rightarrow> (nat \<times> 'a bot_state_scheme \<times> int) option" where
  "recvNewPacket user ev keys n s =
     (case bot_sock s of
        None \<Rightarrow> None
      | Some this \<Rightarrow>
          map_option (\<lambda>(n, s, rc).
              (n, s, case rc of
                  Some rc \<Rightarrow> rc
                | None \<Rightarrow> (case recvPacket s of Some p \<Rightarrow> sint (incomingDataLen p s) | None \<Rightarrow> 0)))
            (recv_loop user ev keys n this (case recvPacket s of Some p \<Rightarrow> Buffer_free p s | None \<Rightarrow> s)))"

section \<open>Sending\<close>

text \<open>
  A pointer to user data is the data of a transmit buffer; \<open>UserData None\<close> is the address behind a null
  pointer.
\<close>

datatype user_ptr = Null | UserData "bref option"

definition currentSendBuffer :: "int \<Rightarrow> 'a bot_state_scheme \<Rightarrow> user_ptr" where
  "currentSendBuffer len s = (if sint (MSS_to_advertise s) < len then Null else UserData (sendBuffer s))"

definition sendNewBuffer ::
    "'a bot_state_ext startup_state_ext config_state_ext timer_state_ext user \<Rightarrow> (nat \<Rightarrow> intr list) \<Rightarrow> nat \<Rightarrow>
     user_ptr \<Rightarrow> int \<Rightarrow> 'a bot_state_scheme \<Rightarrow> (nat \<times> 'a bot_state_scheme \<times> int) option" where
  "sendNewBuffer user ev n buffer len s =
     (if sint (MSS_to_advertise s) < len then Some (n, s, 2)
      else (case (buffer, bot_sock s) of
          (UserData (Some buf), Some this) \<Rightarrow>
            (let s = upd_buf buf (\<lambda>b. b\<lparr>b_dataLen := of_int len\<rparr>) s;
                 (s, ret) = enqueue this buf s;
                 (s, new) = getXmitBuf s;
                 s = s\<lparr>sendBuffer := new\<rparr>
             in if ret = TCP_RC_GOOD
                then map_option (\<lambda>s. (Suc n, drivePackets (driveArp s), 0))
                       (packet_process_single user (interrupts (ev n) s))
                else Some (n, s, if ret = TCP_RC_BAD then 1 else if ret = -2 then 2 else 3))
        | _ \<Rightarrow> None))"

section \<open>The program\<close>

definition main ::
    "'a bot_state_ext startup_state_ext config_state_ext timer_state_ext user \<Rightarrow> (nat \<Rightarrow> intr list) \<Rightarrow> (nat \<Rightarrow> u16) \<Rightarrow>
     (nat \<Rightarrow> 'a bot_state_scheme \<Rightarrow> (nat \<times> 'a bot_state_scheme \<times> int) option) \<Rightarrow> int \<Rightarrow>
     u16 list \<Rightarrow> u16 \<Rightarrow> u8 list \<times> u16 \<Rightarrow> bot_env \<Rightarrow> 'a bot_state_scheme \<Rightarrow> ('a bot_state_scheme \<times> int) option" where
  "main user ev keys asmRun openLog tmp newMtu junk e s =
     (if openLog \<noteq> 0 then Some (s, 1)
      else (case setupSocket user ev keys 0 tmp newMtu junk e s of
          None \<Rightarrow> None
        | Some (n, s, rc) \<Rightarrow>
            if rc \<noteq> 0 then map_option (\<lambda>(n, s). (s, 1)) (cleanupSocket user ev n (be_dos e) s)
            else (case getXmitBuf s of
                (s, buf) \<Rightarrow>
                  (case asmRun n (s\<lparr>sendBuffer := buf\<rparr>) of
                     None \<Rightarrow> None
                   | Some (n, s, rc) \<Rightarrow> map_option (\<lambda>(n, s). (s, rc)) (cleanupSocket user ev n (be_dos e) s)))))"

section \<open>The configured host is read back\<close>

lemma scan_dec_sep: "scan_dec (dec n @ c # r) = Some (int n, c # r)" if "\<not> isdigit c"
  using scan_dec_dec [of "c # r" "[]" n] that by simp

lemma scan_dec_end: "scan_dec (dec n) = Some (int n, [])"
  using scan_dec_dec [of "[]" "[]" n] by simp

definition host_text :: "nat \<Rightarrow> nat \<Rightarrow> nat \<Rightarrow> nat \<Rightarrow> nat \<Rightarrow> cstr" where
  "host_text a b c d p = dec a @ 46 # dec b @ 46 # dec c @ 46 # dec d @ 58 # dec p"

lemma scan_host: "scan_seps [46, 46, 46, 58] (host_text a b c d p) = ([int a, int b, int c, int d, int p], Some [])"
proof -
  have "\<not> isdigit 46" "\<not> isdigit 58" by (simp_all add: isdigit_def)
  then show ?thesis by (simp add: host_text_def scan_dec_sep scan_dec_end)
qed

text \<open>What the sixteen-bit variables hold, and which octet is refused.\<close>

definition bad_octet :: "nat \<Rightarrow> bool" where "bad_octet n \<longleftrightarrow> 255 < n mod 65536"

lemma octet_fits: "(of_nat n :: u16) \<le> 255 \<longleftrightarrow> \<not> bad_octet n"
  by (auto simp: bad_octet_def word_le_nat_alt unat_of_nat)

lemma octet_low: "ucast (of_nat n :: u16) = (of_nat n :: u8)"
proof (rule word_unat_eq_iff [THEN iffD2])
  have "unat (ucast (of_nat n :: u16) :: u8) = n mod 65536 mod 256"
    by (simp only: unsigned_ucast_eq unat_of_nat) (simp add: take_bit_eq_mod)
  also have "\<dots> = n mod 256" by (simp add: mod_mod_cancel)
  finally show "unat (ucast (of_nat n :: u16) :: u8) = unat (of_nat n :: u8)" by (simp add: unat_of_nat)
qed

text \<open>
  C35. A host written as four numbers and a port is read back: each number and the port are taken
  modulo 65536, an octet beyond 255 is reported with its index, and the octets before it are stored.
  In particular an address with its port is read back exactly.
\<close>

theorem bot_host_parsed:
  assumes "length addr = 4"
  shows "\<exists>addr'. getEnvironmentDetails (Some (host_text a b c d p)) addr port =
      Some (addr', of_nat p, case find (\<lambda>i. bad_octet ([a, b, c, d] ! i)) [0, 1, 2, 3] of None \<Rightarrow> 0 | Some i \<Rightarrow> 3 + int i) \<and>
    length addr' = 4 \<and> (\<forall>i<4. (\<forall>j\<le>i. \<not> bad_octet ([a, b, c, d] ! j)) \<longrightarrow> addr' ! i = of_nat ([a, b, c, d] ! i))"
proof -
  obtain w x y z where addr: "addr = [w, x, y, z]"
    using assms by (auto simp: length_Suc_conv numeral_eq_Suc)
  have four: "i < 4 \<Longrightarrow> i = 0 \<or> i = 1 \<or> i = 2 \<or> i = (3 :: nat)" for i by arith
  define t where "t = take_octets 0 [of_nat a, of_nat b, of_nat c, of_nat d] addr"
  have "getEnvironmentDetails (Some (host_text a b c d p)) addr port =
      Some (fst t, of_nat p, case snd t of None \<Rightarrow> 0 | Some i \<Rightarrow> 3 + int i)"
    unfolding getEnvironmentDetails_def option.case scan_host prod.case list.case Let_def
    by (simp add: t_def eval_nat_numeral del: scan_seps.simps take_octets.simps split: prod.split option.split)
  moreover have "snd t = find (\<lambda>i. bad_octet ([a, b, c, d] ! i)) [0, 1, 2, 3]" "length (fst t) = 4"
    "\<forall>i<4. (\<forall>j\<le>i. \<not> bad_octet ([a, b, c, d] ! j)) \<longrightarrow> fst t ! i = of_nat ([a, b, c, d] ! i)"
    by (auto simp: t_def addr octet_fits octet_low numeral_2_eq_2 numeral_3_eq_3 All_less_Suc
        simp flip: less_Suc_eq_le dest!: four)
  ultimately show ?thesis by auto
qed

theorem bot_host_parsed_witness:
  "\<exists>addr'. getEnvironmentDetails (Some (host_text 65546 0 0 2 6667)) [1, 2, 3, 4] 5 = Some (addr', 6667, 0) \<and>
     octets_ip addr' = (10, 0, 0, 2)"
proof -
  have nb: "\<not> bad_octet 65546" "\<not> bad_octet 0" "\<not> bad_octet 2" by (simp_all add: bad_octet_def)
  have four: "i < 4 \<Longrightarrow> i = 0 \<or> i = 1 \<or> i = 2 \<or> i = (3 :: nat)" for i by arith
  have "length [1, 2, 3, 4 :: u8] = 4" by simp
  from bot_host_parsed [OF this, of 65546 0 0 2 6667 5] obtain addr' where
    a: "getEnvironmentDetails (Some (host_text 65546 0 0 2 6667)) [1, 2, 3, 4] 5 = Some (addr', 6667, 0)"
    "\<forall>i<4. (\<forall>j\<le>i. \<not> bad_octet ([65546, 0, 0, 2] ! j)) \<longrightarrow> addr' ! i = of_nat ([65546, 0, 0, 2] ! i)"
    by (auto simp: nb)
  have "addr' ! i = of_nat ([65546, 0, 0, 2] ! i)" if "i < 4" for i
    using a(2) that nb by (auto simp: numeral_2_eq_2 numeral_3_eq_3 All_less_Suc simp flip: less_Suc_eq_le dest!: four)
  from this [of 0] this [of 1] this [of 2] this [of 3] have "octets_ip addr' = (10, 0, 0, 2)"
    by (simp add: octets_ip_def)
  then show ?thesis using a(1) by blast
qed

section \<open>Received segments are handed out in order\<close>

lemma take_incoming_some:
  fixes s :: "'a bot_state_scheme"
  assumes "rb_wf (incoming (socks s i))" and "rb_list (incoming (socks s i)) = p # ps"
  shows "recvPacket (take_incoming i s) = Some p" "rb_wf (incoming (socks (take_incoming i s) i))"
    "rb_list (incoming (socks (take_incoming i s) i)) = ps" "bot_sock (take_incoming i s) = bot_sock s"
    "incomingDataLen p (take_incoming i s) = incomingDataLen p s"
  using rb.deq_some [OF assms]
  by (simp_all add: take_incoming_def split_beta upd_sock_def incomingDataLen_def pk_ip_def pk_tcp_def pk_tcp_off_def)

definition release_packet :: "'a bot_state_scheme \<Rightarrow> 'a bot_state_scheme" where
  "release_packet s = (case recvPacket s of Some p \<Rightarrow> Buffer_free p s | None \<Rightarrow> s)"

lemma release_packet_keeps:
  fixes s :: "'a bot_state_scheme"
  shows "socks (release_packet s) = socks s" "bot_sock (release_packet s) = bot_sock s"
    "incomingDataLen p (release_packet s) = incomingDataLen p s"
  by (simp_all add: release_packet_def Buffer_free_def freeBigPacket_def incomingDataLen_def pk_ip_def pk_tcp_def
      pk_tcp_off_def split: option.split)

lemma recvNewPacket_queued:
  fixes s :: "'a bot_state_scheme"
  assumes "bot_sock s = Some i" and "rb_wf (incoming (socks s i))" and "rb_list (incoming (socks s i)) = p # ps"
  shows "recvNewPacket user ev keys n s =
    Some (n, take_incoming i (release_packet s), sint (incomingDataLen p s))"
proof -
  let ?s = "release_packet s"
  have q: "rb_wf (incoming (socks ?s i))" "rb_list (incoming (socks ?s i)) = p # ps"
    using assms(2,3) by (simp_all add: release_packet_keeps)
  note t = take_incoming_some [OF q]
  show ?thesis
    using t(1,5) assms(1)
    by (simp add: recvNewPacket_def release_packet_def [symmetric] recv_loop.simps release_packet_keeps)
qed

text \<open>A run of calls: the packets handed out and the results.\<close>

fun recv_run ::
    "'a bot_state_ext startup_state_ext config_state_ext timer_state_ext user \<Rightarrow> (nat \<Rightarrow> intr list) \<Rightarrow> (nat \<Rightarrow> u16) \<Rightarrow>
     nat \<Rightarrow> nat \<Rightarrow> 'a bot_state_scheme \<Rightarrow> ('a bot_state_scheme \<times> (bufref option \<times> int) list) option" where
  "recv_run user ev keys 0 n s = Some (s, [])"
| "recv_run user ev keys (Suc k) n s =
     (case recvNewPacket user ev keys n s of
        None \<Rightarrow> None
      | Some (n, s, rc) \<Rightarrow>
          map_option (\<lambda>(t, out). (t, (recvPacket s, rc) # out)) (recv_run user ev keys k n s))"

lemma recv_run_queued:
  fixes s :: "'a bot_state_scheme"
  assumes "bot_sock s = Some i" and "rb_wf (incoming (socks s i))" and "rb_list (incoming (socks s i)) = ps @ rest"
  shows "\<exists>t. recv_run user ev keys (length ps) n s = Some (t, map (\<lambda>p. (Some p, sint (incomingDataLen p s))) ps) \<and>
    rb_list (incoming (socks t i)) = rest"
  using assms
proof (induction ps arbitrary: s)
  case (Cons p ps)
  have l: "rb_list (incoming (socks s i)) = p # (ps @ rest)" using Cons.prems(3) by simp
  define u where "u = take_incoming i (release_packet s)"
  have u: "recvNewPacket user ev keys n s = Some (n, u, sint (incomingDataLen p s))"
    using recvNewPacket_queued [OF Cons.prems(1,2) l] by (simp add: u_def)
  have q: "rb_wf (incoming (socks (release_packet s) i))" "rb_list (incoming (socks (release_packet s) i)) = p # (ps @ rest)"
    using Cons.prems(2) l by (simp_all add: release_packet_keeps)
  note t = take_incoming_some [OF q, folded u_def]
  have len: "incomingDataLen x u = incomingDataLen x s" for x
    using release_packet_keeps(3) [of x s]
    by (simp add: u_def take_incoming_def split_beta upd_sock_def incomingDataLen_def pk_ip_def pk_tcp_def pk_tcp_off_def)
  have b: "bot_sock u = Some i" using t(4) Cons.prems(1) by (simp add: release_packet_keeps)
  show ?case using Cons.IH [OF b t(2,3)] by (auto simp: u t(1) len)
qed simp

text \<open>
  The segments in the socket's queue are handed to the bot in their order, one per call, with the
  length of their data as the result, before anything else is done; the packet handed out before
  goes back to its pool.
\<close>

lemma recvNewPacket_in_order:
  fixes s :: "'a bot_state_scheme"
  assumes "bot_sock s = Some i" and "rb_wf (incoming (socks s i))" and "rb_list (incoming (socks s i)) = ps @ rest"
  shows "\<exists>t. recv_run user ev keys (length ps) n s = Some (t, map (\<lambda>p. (Some p, sint (incomingDataLen p s))) ps) \<and>
    rb_list (incoming (socks t i)) = rest"
  using recv_run_queued [OF assms] .

definition demo_bot :: bot_state where
  "demo_bot = (upd_sock 0 (\<lambda>k. k\<lparr>incoming := fst (rb_enqueue (PoolBuf 4) (fst (rb_enqueue (PoolBuf 7) (rb_init empty_ring))))\<rparr>)
     zero_bot_state)\<lparr>bot_sock := Some 0\<rparr>"

section \<open>A refused message loses its buffer\<close>

lemma enqueue_fails:
  fixes s :: "'a tcp_state_scheme"
  assumes "snd (enqueue i b s) \<noteq> 0"
  shows "snd (enqueue i b s) \<in> {TCP_RC_BAD, TCP_RC_TOO_MUCH_DATA}"
    and "outgoing (socks (fst (enqueue i b s)) i) = outgoing (socks s i)"
    and "xmit_free (fst (enqueue i b s)) = xmit_free s" "freeXmitBuffers (fst (enqueue i b s)) = freeXmitBuffers s"
    "xmitBuffers (fst (enqueue i b s)) = xmitBuffers s"
proof -
  have d: "drop_queued_ack i s = s" if "rb_entries (outgoing (socks (drop_queued_ack i s) i)) = RINGBUFFER_SIZE"
  proof (cases "rb_entries (outgoing (socks s i)) = 1")
    case True
    then show ?thesis using that
      by (auto simp: drop_queued_ack_def Let_def rb_dequeue_def cfg_defs split: option.splits if_splits)
  next
    case False
    then show ?thesis by (simp add: drop_queued_ack_def Let_def)
  qed
  let ?r = "outgoing (socks (drop_queued_ack i s) i)"
  consider "enqueue_refused i b (socks s i)" | "\<not> enqueue_refused i b (socks s i)" "maxEnqueueSize (socks s i) < b_dataLen (tbuf s b)"
    | "\<not> enqueue_refused i b (socks s i)" "\<not> maxEnqueueSize (socks s i) < b_dataLen (tbuf s b)" by blast
  then have "snd (enqueue i b s) \<in> {TCP_RC_BAD, TCP_RC_TOO_MUCH_DATA} \<and>
      outgoing (socks (fst (enqueue i b s)) i) = outgoing (socks s i) \<and>
      freeXmitBuffers (fst (enqueue i b s)) = freeXmitBuffers s \<and> xmitBuffers (fst (enqueue i b s)) = xmitBuffers s"
  proof cases
    case 3
    then have full: "rb_entries ?r = RINGBUFFER_SIZE"
      using assms by (auto simp: enqueue_def Let_def split_beta rb_enqueue_def upd_sock_def upd_buf_def split: if_splits)
    then have "rb_entries (outgoing (socks s i)) = RINGBUFFER_SIZE" using d [OF full] by simp
    then show ?thesis using 3 d [OF full]
      by (simp add: enqueue_def Let_def rb_enqueue_def upd_sock_def upd_buf_def cfg_defs)
  qed (simp_all add: enqueue_def)
  then show "snd (enqueue i b s) \<in> {TCP_RC_BAD, TCP_RC_TOO_MUCH_DATA}"
    "outgoing (socks (fst (enqueue i b s)) i) = outgoing (socks s i)"
    "freeXmitBuffers (fst (enqueue i b s)) = freeXmitBuffers s" "xmitBuffers (fst (enqueue i b s)) = xmitBuffers s"
    "xmit_free (fst (enqueue i b s)) = xmit_free s"
    by (auto simp: xmit_free_def)
qed

lemma getXmitBuf_pool:
  "xmit_free (fst (getXmitBuf s)) = butlast (xmit_free s)"
  "snd (getXmitBuf s) = (if xmit_free s = [] then None else Some (last (xmit_free s)))"
proof -
  have u: "unat (freeXmitBuffers s - 1) = unat (freeXmitBuffers s) - 1" if "freeXmitBuffers s \<noteq> 0"
    using that by (simp add: unat_minus_one)
  obtain k where k: "freeXmitBuffers s \<noteq> 0 \<Longrightarrow> unat (freeXmitBuffers s) = Suc k"
    using that by (metis not0_implies_Suc unat_eq_zero)
  show "xmit_free (fst (getXmitBuf s)) = butlast (xmit_free s)"
    "snd (getXmitBuf s) = (if xmit_free s = [] then None else Some (last (xmit_free s)))"
    using u k by (auto simp: xmit_free_def getXmitBuf_def Let_def unat_eq_zero)
qed

text \<open>
  When the socket refuses the message (it is closing, its queue is full, or the message is longer
  than a segment of the peer), the call reports 1 or 3, never the code 2 for a message that is too
  long, and the buffer of the message is lost: it is not queued, it does not go back to the
  pool, and the next buffer of the pool takes its place.
\<close>

lemma sendNewBuffer_loses_buffer:
  fixes s :: "'a bot_state_scheme"
  assumes "bot_sock s = Some i" and "len \<le> sint (MSS_to_advertise s)"
    and "snd (enqueue i b (upd_buf b (\<lambda>b. b\<lparr>b_dataLen := of_int len\<rparr>) s)) \<noteq> 0"
  shows "\<exists>t rc. sendNewBuffer user ev n (UserData (Some b)) len s = Some (n, t, rc) \<and> rc \<in> {1, 3} \<and>
    outgoing (socks t i) = outgoing (socks s i) \<and> xmit_free t = butlast (xmit_free s) \<and>
    sendBuffer t = (if xmit_free s = [] then None else Some (last (xmit_free s)))"
proof -
  define u where "u = upd_buf b (\<lambda>b. b\<lparr>b_dataLen := of_int len\<rparr>) s"
  define v where "v = fst (enqueue i b u)"
  note f = enqueue_fails [OF assms(3), folded u_def v_def]
  have u: "outgoing (socks u i) = outgoing (socks s i)" "xmit_free u = xmit_free s"
    by (simp_all add: u_def upd_buf_def xmit_free_def)
  define t where "t = (fst (getXmitBuf v))\<lparr>sendBuffer := snd (getXmitBuf v)\<rparr>"
  have "sendNewBuffer user ev n (UserData (Some b)) len s =
      Some (n, t, if snd (enqueue i b u) = TCP_RC_BAD then 1 else 3)"
    using assms f(1)
    by (auto simp: sendNewBuffer_def u_def [symmetric] Let_def split_beta v_def [symmetric] t_def cfg_defs)
  moreover have "outgoing (socks t i) = outgoing (socks s i)" "xmit_free t = butlast (xmit_free s)"
    "sendBuffer t = (if xmit_free s = [] then None else Some (last (xmit_free s)))"
    using f u getXmitBuf_pool [of v] by (simp_all add: t_def xmit_free_def)
  ultimately show ?thesis by auto
qed

section \<open>Cleaning up before there is a socket\<close>

text \<open>
  The program cleans up through a null pointer when there is no configuration: without the
  variable MTCPCFG, or without the file it names, \<open>main\<close> calls \<^verbatim>\<open>close\<close> on a socket that is not there.
\<close>

lemma main_cleans_up_without_socket:
  fixes s :: "'a bot_state_scheme"
  assumes "bot_sock s = None" and "env_MTCPCFG (be_env e) = None \<or> env_file (be_env e) = None"
  shows "main user ev keys asmRun 0 tmp newMtu junk e s = None"
  using assms by (auto simp: main_def setupSocket_def cleanupSocket_def parseEnv_def)

end
