(* ===== verification/Reassembly.thy ===== *)
theory Reassembly
  imports IpFrag
begin

text \<open>
  Reassembly is correct: whatever the order in which the fragments of a datagram arrive, the
  fragment list stays sorted and the big packet built from it holds the datagram.
\<close>

section \<open>The fragment list\<close>

type_synonym fragment = "u16 \<times> u16 \<times> bufref"

definition frags :: "IpFragControl_t \<Rightarrow> fragment list" where
  "frags fc = map (\<lambda>j. (fc_offsets fc j, fc_lengths fc j, fc_packets fc j)) [0..<unat (fragsRcvd fc)]"

lemma length_frags [simp]: "length (frags fc) = unat (fragsRcvd fc)"
  by (simp add: frags_def)

lemma frags_nth: "j < unat (fragsRcvd fc) \<Longrightarrow> frags fc ! j = (fc_offsets fc j, fc_lengths fc j, fc_packets fc j)"
  by (simp add: frags_def)

lemma frags_update [simp]: "frags (fc\<lparr>lastFragRcvd := b\<rparr>) = frags fc"
  by (simp add: frags_def)

lemma slide_up_eq: "pos \<le> n \<Longrightarrow> slide_up pos n a = (\<lambda>j. if pos < j \<and> j \<le> n then a (j - 1) else a j)"
proof (induction pos n a rule: slide_up.induct)
  case (2 pos j a)
  show ?case
  proof (cases "pos < Suc j")
    case True
    then have ih: "slide_up pos j (a(Suc j := a j)) =
        (\<lambda>x. if pos < x \<and> x \<le> j then (a(Suc j := a j)) (x - 1) else (a(Suc j := a j)) x)"
      by (intro 2(1)) simp_all
    show ?thesis using True by (auto simp: fun_eq_iff ih le_Suc_eq)
  next
    case False
    then show ?thesis by (auto simp: fun_eq_iff)
  qed
qed auto

lemma u8_unat_Suc: "unat n < 255 \<Longrightarrow> unat (n + 1 :: u8) = Suc (unat n)"
  by (rule u8_Suc)

lemma frags_insert:
  assumes "pos \<le> unat (fragsRcvd fc)" and "unat (fragsRcvd fc) < 255"
  shows "frags (frag_insert pos off len p fc) = take pos (frags fc) @ (off, len, p) # drop pos (frags fc)"
proof (rule nth_equalityI)
  let ?n = "unat (fragsRcvd fc)"
  have n: "unat (fragsRcvd (frag_insert pos off len p fc)) = Suc ?n"
    using assms(2) by (simp add: frag_insert_def Let_def u8_unat_Suc)
  show "length (frags (frag_insert pos off len p fc)) = length (take pos (frags fc) @ (off, len, p) # drop pos (frags fc))"
    using assms n by simp
  fix j
  assume "j < length (frags (frag_insert pos off len p fc))"
  then have j: "j < Suc ?n" using n by simp
  then have e: "frags (frag_insert pos off len p fc) ! j =
      (if j = pos then (off, len, p) else if pos < j then frags fc ! (j - 1) else frags fc ! j)"
    using assms n by (auto simp: frags_nth frag_insert_def Let_def slide_up_eq)
  show "frags (frag_insert pos off len p fc) ! j = (take pos (frags fc) @ (off, len, p) # drop pos (frags fc)) ! j"
  proof (cases "j \<le> pos")
    case True
    then show ?thesis using e assms(1) by (cases "j = pos") (simp_all add: nth_append)
  next
    case False
    then obtain d where d: "j = Suc (pos + d)" by (metis add_Suc_right less_imp_Suc_add not_le)
    then show ?thesis using e assms(1) j by (simp add: nth_append)
  qed
qed

lemma find_upt_takeWhile:
  "m \<le> n \<Longrightarrow> (case find P [m..<n] of Some j \<Rightarrow> j | None \<Rightarrow> n) = m + length (takeWhile (\<lambda>j. \<not> P j) [m..<n])"
proof (induction "n - m" arbitrary: m)
  case (Suc d)
  then show ?case using Suc(1) [of "Suc m"] by (simp add: upt_conv_Cons)
qed simp

lemma frag_insertPos_eq:
  "frag_insertPos fc off = length (takeWhile (\<lambda>(o1, _, _). o1 < off) (frags fc))"
  by (simp add: frag_insertPos_def find_upt_takeWhile [of 0, simplified] frags_def takeWhile_map comp_def not_le)

fun contig :: "fragment list \<Rightarrow> u16 \<Rightarrow> bool" where
  "contig [] st = True"
| "contig ((o1, l, p) # r) st = (st = o1 \<and> contig r (st + l))"

lemma frag_contiguous_contig:
  "frag_contiguous fc js st = contig (map (\<lambda>j. (fc_offsets fc j, fc_lengths fc j, fc_packets fc j)) js) st"
  by (induction fc js st rule: frag_contiguous.induct) auto

lemma frag_contiguous_frags: "frag_contiguous fc [0..<unat (fragsRcvd fc)] 0 = contig (frags fc) 0"
  by (simp add: frag_contiguous_contig frags_def)

section \<open>A datagram cut into fragments\<close>

text \<open>The lengths of the pieces in their order; piece \<open>j\<close> starts at \<open>cut_at ls j\<close>.\<close>

definition cut_at :: "nat list \<Rightarrow> nat \<Rightarrow> nat" where
  "cut_at ls j = sum_list (take j ls)"

definition good_cut :: "nat list \<Rightarrow> bool" where
  "good_cut ls \<longleftrightarrow> (\<forall>l\<in>set ls. 0 < l) \<and> sum_list ls \<le> 2048"

definition piece :: "nat list \<Rightarrow> (nat \<Rightarrow> bufref) \<Rightarrow> nat \<Rightarrow> fragment" where
  "piece ls pk j = (of_nat (cut_at ls j), of_nat (ls ! j), pk j)"

lemma cut_at_0 [simp]: "cut_at ls 0 = 0"
  by (simp add: cut_at_def)

lemma cut_at_Suc: "j < length ls \<Longrightarrow> cut_at ls (Suc j) = cut_at ls j + ls ! j"
  by (simp add: cut_at_def take_Suc_conv_app_nth)

lemma cut_at_length: "length ls \<le> j \<Longrightarrow> cut_at ls j = sum_list ls"
  by (simp add: cut_at_def)

lemma cut_at_add: "cut_at ls (i + d) = cut_at ls i + sum_list (take d (drop i ls))"
  by (simp add: cut_at_def take_add)

lemma cut_at_mono: "i \<le> j \<Longrightarrow> cut_at ls i \<le> cut_at ls j"
  using cut_at_add [of ls i "j - i"] by simp

lemma cut_at_less:
  assumes "good_cut ls" and "i < j" and "j \<le> length ls" shows "cut_at ls i < cut_at ls j"
proof -
  have "cut_at ls i < cut_at ls (Suc i)"
    using assms by (simp add: cut_at_Suc good_cut_def)
  also have "\<dots> \<le> cut_at ls j" using assms(2) by (intro cut_at_mono) simp
  finally show ?thesis .
qed

lemma cut_at_bound: "good_cut ls \<Longrightarrow> cut_at ls j \<le> 2048"
  using cut_at_mono [of j "max j (length ls)" ls] by (simp add: cut_at_length good_cut_def)

lemma piece_len_bound: "good_cut ls \<Longrightarrow> j < length ls \<Longrightarrow> ls ! j \<le> 2048"
  using cut_at_bound [of ls "Suc j"] by (simp add: cut_at_Suc)

lemma u16_of_nat: "n \<le> 2048 \<Longrightarrow> unat (of_nat n :: u16) = n"
  by (simp add: unat_of_nat take_bit_nat_eq_self)

lemma cut_word_less:
  assumes "good_cut ls" and "i \<le> length ls" and "j \<le> length ls"
  shows "(of_nat (cut_at ls i) :: u16) < of_nat (cut_at ls j) \<longleftrightarrow> i < j"
  using assms cut_at_less [OF assms(1), of i j] cut_at_mono [of j i ls] u16_of_nat [OF cut_at_bound [OF assms(1)]]
  by (auto simp: word_less_nat_alt not_less [symmetric])

lemma cut_word_eq:
  assumes "good_cut ls" and "i \<le> length ls" and "j \<le> length ls"
  shows "(of_nat (cut_at ls i) :: u16) = of_nat (cut_at ls j) \<longleftrightarrow> i = j"
  using cut_word_less [OF assms] cut_word_less [OF assms(1,3,2)] by auto

lemma cut_word_Suc:
  "j < length ls \<Longrightarrow> of_nat (cut_at ls j) + of_nat (ls ! j) = (of_nat (cut_at ls (Suc j)) :: u16)"
  by (simp add: cut_at_Suc)

lemma insort_takeWhile: "insort x xs = takeWhile (\<lambda>y. y < x) xs @ x # dropWhile (\<lambda>y. y < (x :: nat)) xs"
  by (induction xs) auto

lemma insertPos_pieces:
  assumes "good_cut ls" and "set xs \<subseteq> {..<length ls}" and "j < length ls" and "frags fc = map (piece ls pk) xs"
  shows "frag_insertPos fc (of_nat (cut_at ls j)) = length (takeWhile (\<lambda>x. x < j) xs)"
proof -
  have "takeWhile ((\<lambda>(o1, _, _). o1 < of_nat (cut_at ls j)) \<circ> piece ls pk) xs = takeWhile (\<lambda>x. x < j) xs"
    by (rule takeWhile_cong [OF refl])
      (use assms(2,3) in \<open>auto simp: piece_def cut_word_less [OF assms(1)] subset_iff\<close>)
  then show ?thesis by (simp add: frag_insertPos_eq assms(4) takeWhile_map)
qed

lemma contig_pieces:
  assumes "good_cut ls"
  shows "sorted xs \<Longrightarrow> distinct xs \<Longrightarrow> \<forall>x\<in>set xs. a \<le> x \<and> x < length ls \<Longrightarrow>
    contig (map (piece ls pk) xs) (of_nat (cut_at ls a)) \<longleftrightarrow> xs = [a..<a + length xs]"
proof (induction xs arbitrary: a)
  case (Cons x xs)
  have x: "x < length ls" "a \<le> x" using Cons.prems(3) by auto
  have "\<forall>y\<in>set xs. Suc x \<le> y \<and> y < length ls"
    using Cons.prems by (auto simp: Suc_le_eq less_le)
  then have ih: "contig (map (piece ls pk) xs) (of_nat (cut_at ls (Suc x))) \<longleftrightarrow> xs = [Suc x..<Suc x + length xs]"
    using Cons by (intro Cons.IH) auto
  have "contig (map (piece ls pk) (x # xs)) (of_nat (cut_at ls a)) \<longleftrightarrow>
      a = x \<and> contig (map (piece ls pk) xs) (of_nat (cut_at ls (Suc x)))"
    using x cut_word_eq [OF assms, of a x] by (auto simp: piece_def cut_word_Suc)
  also have "\<dots> \<longleftrightarrow> x # xs = [a..<a + length (x # xs)]"
  proof -
    have "[a..<a + length (x # xs)] = a # [Suc a..<Suc a + length xs]"
      by (simp add: upt_conv_Cons del: upt_Suc)
    then show ?thesis unfolding ih by (simp only: list.inject) blast
  qed
  finally show ?case .
qed simp

section \<open>The copy into the big packet\<close>

definition frag_bytes :: "(bufref \<Rightarrow> mem) \<Rightarrow> fragment \<Rightarrow> u8 list" where
  "frag_bytes pm = (\<lambda>(o1, l, p). rdbytes (pm p) (14 + payloadOff (read_IpHeader (pm p) 14)) (unat l))"

lemma copy_frags_result:
  assumes "unat st + sum_list (map (\<lambda>j. unat (fc_lengths fc j)) js) \<le> 65535"
    and "copy_frags fc pm js st m = (m', st')"
  shows "unat st' = unat st + sum_list (map (\<lambda>j. unat (fc_lengths fc j)) js) \<and>
    rdbytes m' 34 (unat st + sum_list (map (\<lambda>j. unat (fc_lengths fc j)) js)) = rdbytes m 34 (unat st) @
      concat (map (\<lambda>j. frag_bytes pm (fc_offsets fc j, fc_lengths fc j, fc_packets fc j)) js) \<and>
    (\<forall>x<34. m' x = m x)"
  using assms
proof (induction js arbitrary: st m)
  case (Cons i "is" st m)
  define xs where "xs = frag_bytes pm (fc_offsets fc i, fc_lengths fc i, fc_packets fc i)"
  define m1 where "m1 = memcpy m (34 + unat st) xs"
  have l: "length xs = unat (fc_lengths fc i)" by (simp add: xs_def frag_bytes_def)
  have st: "unat (st + fc_lengths fc i) = unat st + unat (fc_lengths fc i)"
    using Cons.prems(1) by (intro u16_add) simp
  have m1: "rdbytes m1 34 (unat st + unat (fc_lengths fc i)) = rdbytes m 34 (unat st) @ xs"
    using rdbytes_memcpy_same [of m "34 + unat st" xs]
    by (simp add: rdbytes_append m1_def rdbytes_memcpy_disj l [symmetric] del: rdbytes_memcpy_same)
  have c: "copy_frags fc pm is (st + fc_lengths fc i) m1 = (m', st')"
    using Cons.prems(2) by (simp add: Let_def m1_def xs_def frag_bytes_def)
  have low: "\<forall>x<34. m1 x = m x" by (simp add: m1_def memcpy_def)
  have m1': "rdbytes m1 34 (unat st) @ rdbytes m1 (34 + unat st) (unat (fc_lengths fc i)) = rdbytes m 34 (unat st) @ xs"
    using m1 by (simp add: rdbytes_append)
  show ?case
    using Cons.IH [OF _ c] Cons.prems(1) low m1 by (simp add: st xs_def add.assoc)
qed simp

lemma concat_slices:
  "n \<le> length ls \<Longrightarrow> concat (map (\<lambda>j. take (ls ! j) (drop (cut_at ls j) D)) [0..<n]) = take (cut_at ls n) D"
  by (induction n) (simp_all add: cut_at_Suc take_add)

lemma fold_Buffer_free_frame [simp]:
  "pkt_mem (fold (\<lambda>j. Buffer_free (f j)) js s) = pkt_mem s"
  by (induction js arbitrary: s) (simp_all add: Buffer_free_def freeBigPacket_def)

lemma killFragmentControl_pkt_mem [simp]: "pkt_mem (killFragmentControl i s) = pkt_mem s"
  by (simp add: killFragmentControl_def Let_def upd_fc_def)

text \<open>The fragments of the datagram \<open>D\<close> are in the buffers.\<close>

definition holds_pieces :: "nat list \<Rightarrow> (nat \<Rightarrow> bufref) \<Rightarrow> u8 list \<Rightarrow> (bufref \<Rightarrow> mem) \<Rightarrow> bool" where
  "holds_pieces ls pk D pm \<longleftrightarrow> length D = sum_list ls \<and>
     (\<forall>j<length ls. frag_bytes pm (piece ls pk j) = take (ls ! j) (drop (cut_at ls j) D))"

lemma makeBigPacket_pieces:
  assumes cut: "good_cut ls" and fr: "frags (fragControl s i) = map (piece ls pk) [0..<length ls]"
    and ne: "ls \<noteq> []" and big: "BigPacketFreeIndex s \<noteq> 0" and D: "holds_pieces ls pk D (pkt_mem s)"
  shows "\<exists>s' bp. makeBigPacket i s = (s', Some bp) \<and> rdbytes (pkt_mem s' bp) 34 (length D) = D \<and>
    read_IpHeader (pkt_mem s' bp) 14 = (read_IpHeader (pkt_mem s (pk 0)) 14)
      \<lparr>ip_versHlen := 0x45, ip_total_length := htons (of_nat (length D) + 20), ip_flags := 0, ip_chksum := 0\<rparr>"
proof -
  let ?fc = "fragControl s i"
  have n: "unat (fragsRcvd ?fc) = length ls" using arg_cong [OF fr, of length] by simp
  have pc: "(fc_offsets ?fc j, fc_lengths ?fc j, fc_packets ?fc j) = piece ls pk j" if "j < length ls" for j
    using that n arg_cong [OF fr, of "\<lambda>xs. xs ! j"] by (simp add: frags_nth)
  have lens: "map (\<lambda>j. unat (fc_lengths ?fc j)) [0..<length ls] = ls"
    by (rule nth_equalityI) (use pc piece_len_bound [OF cut] in \<open>auto simp: piece_def u16_of_nat\<close>)
  have bytes: "concat (map (\<lambda>j. frag_bytes (pkt_mem s) (fc_offsets ?fc j, fc_lengths ?fc j, fc_packets ?fc j)) [0..<length ls]) = D"
  proof -
    have "map (\<lambda>j. frag_bytes (pkt_mem s) (fc_offsets ?fc j, fc_lengths ?fc j, fc_packets ?fc j)) [0..<length ls]
        = map (\<lambda>j. take (ls ! j) (drop (cut_at ls j) D)) [0..<length ls]"
      using D by (intro map_cong) (simp_all add: pc holds_pieces_def)
    from arg_cong [OF this, of concat] show ?thesis
      using D concat_slices [of "length ls" ls D] by (simp add: holds_pieces_def cut_at_length)
  qed
  define bp where "bp = BigPacketFreeList s (unat (BigPacketFreeIndex s - 1))"
  define t where "t = s\<lparr>BigPacketFreeIndex := BigPacketFreeIndex s - 1\<rparr>"
  have t: "getBigPacket s = (t, Some bp)" "pkt_mem t = pkt_mem s" "fragControl t = fragControl s"
    using big by (simp_all add: getBigPacket_def t_def bp_def)
  define first where "first = pkt_mem s (fc_packets ?fc 0)"
  define h where "h = setIpHlen 20 (read_IpHeader first 14)"
  define m0 where "m0 = memcpy (memcpy (pkt_mem s bp) 0 (rdbytes first 0 14)) 14 (ip_bytes h)"
  obtain m1 so where c: "copy_frags ?fc (pkt_mem s) [0..<length ls] 0 m0 = (m1, so)" by (metis prod.exhaust)
  have r: "unat so = length D" "rdbytes m1 34 (length D) = D"
    using copy_frags_result [OF _ c] D cut by (simp_all add: lens bytes holds_pieces_def good_cut_def)
  define h' where "h' = h\<lparr>ip_total_length := htons (so + 20), ip_flags := 0, ip_chksum := 0\<rparr>"
  define u where "u = t\<lparr>pkt_mem := (pkt_mem t)(bp := memcpy m1 14 (ip_bytes h'))\<rparr>"
  have mk: "makeBigPacket i s = (let s = killFragmentControl i u in (s\<lparr>Ip_goodReassemblies := Ip_goodReassemblies s + 1\<rparr>, Some bp))"
    by (simp add: makeBigPacket_def t n Let_def first_def [symmetric] h_def [symmetric] m0_def [symmetric] c)
       (simp add: u_def t h'_def)
  have p0: "fc_packets ?fc 0 = pk 0" using pc [of 0] ne by (simp add: piece_def)
  have so: "so = of_nat (length D)" by (simp flip: r(1))
  have "read_IpHeader (memcpy m1 14 (ip_bytes h')) 14 = (read_IpHeader (pkt_mem s (pk 0)) 14)
      \<lparr>ip_versHlen := 0x45, ip_total_length := htons (of_nat (length D) + 20), ip_flags := 0, ip_chksum := 0\<rparr>"
    by (simp add: h'_def h_def first_def p0 so setIpHlen_def)
  moreover have "rdbytes (memcpy m1 14 (ip_bytes h')) 34 (length D) = D"
    by (simp add: rdbytes_memcpy_disj r(2))
  ultimately show ?thesis by (simp add: mk Let_def u_def)
qed

section \<open>Fragments arriving\<close>

definition header_of :: "nat list \<Rightarrow> IpAddr \<Rightarrow> u16 \<Rightarrow> nat \<Rightarrow> IpHeader \<Rightarrow> bool" where
  "header_of ls src ident j h \<longleftrightarrow> ip_src h = src \<and> ip_ident h = ident \<and>
     fragmentOffset h = of_nat (cut_at ls j) \<and> fragmentLength h = of_nat (ls ! j) \<and>
     (isLastFragment h \<longleftrightarrow> Suc j = length ls)"

text \<open>The control structure \<open>i\<close> holds the pieces \<open>xs\<close>.\<close>

definition collecting :: "nat \<Rightarrow> nat list \<Rightarrow> (nat \<Rightarrow> bufref) \<Rightarrow> IpAddr \<Rightarrow> u16 \<Rightarrow> nat list \<Rightarrow> 'a ip_state_scheme \<Rightarrow> bool" where
  "collecting i ls pk src ident xs s \<longleftrightarrow>
     findFragControl src ident s = Some i \<and> frags (fragControl s i) = map (piece ls pk) xs \<and>
     (lastFragRcvd (fragControl s i) \<longleftrightarrow> length ls - 1 \<in> set xs)"

lemma upd_fc_frame [simp]:
  "pkt_mem (upd_fc i f s) = pkt_mem s" "BigPacketFreeIndex (upd_fc i f s) = BigPacketFreeIndex s"
  "fragControl (upd_fc i f s) = (fragControl s)(i := f (fragControl s i))"
  by (simp_all add: upd_fc_def)

lemma findFragControl_keep:
  "(\<And>j. inUse (fragControl s' j) = inUse (fragControl s j) \<and> fc_srcAddr (fragControl s' j) = fc_srcAddr (fragControl s j) \<and>
      fc_ident (fragControl s' j) = fc_ident (fragControl s j)) \<Longrightarrow>
   findFragControl src ident s' = findFragControl src ident s"
  by (simp add: findFragControl_def)

lemma frag_insert_frame [simp]:
  "inUse (frag_insert pos off len p fc) = inUse fc" "fc_srcAddr (frag_insert pos off len p fc) = fc_srcAddr fc"
  "fc_ident (frag_insert pos off len p fc) = fc_ident fc" "lastFragRcvd (frag_insert pos off len p fc) = lastFragRcvd fc"
  by (simp_all add: frag_insert_def Let_def)

text \<open>What the insertion of a new piece does, before the completeness check.\<close>

lemma frag_more_inserts:
  assumes cut: "good_cut ls" and xs: "sorted xs" "distinct xs" "set xs \<subseteq> {..<length ls}"
    and j: "j < length ls" "j \<notin> set xs" and k: "length ls \<le> 10"
    and h: "header_of ls src ident j h" and c: "collecting i ls pk src ident xs s"
  shows "\<exists>u. collecting i ls pk src ident (insort j xs) u \<and> pkt_mem u = pkt_mem s \<and>
      BigPacketFreeIndex u = BigPacketFreeIndex s \<and>
      frag_more i h (pk j) s = (let fc = fragControl u i in
        if lastFragRcvd fc \<and> frag_contiguous fc [0..<unat (fragsRcvd fc)] 0 then makeBigPacket i u
        else if fragsRcvd fc = IP_MAX_FRAGS_PER_PACKET
        then (let s = killFragmentControl i u in (s\<lparr>Ip_notEnoughSlots := Ip_notEnoughSlots s + 1\<rparr>, None))
        else (u, None))"
proof -
  define off len where "off = fragmentOffset h" and "len = fragmentLength h"
  have ol: "off = of_nat (cut_at ls j)" "len = of_nat (ls ! j)" using h by (simp_all add: off_def len_def header_of_def)
  define t where "t = (if isLastFragment h then upd_fc i (\<lambda>fc. fc\<lparr>lastFragRcvd := True\<rparr>) s else s)"
  have t: "frags (fragControl t i) = map (piece ls pk) xs" "pkt_mem t = pkt_mem s"
    "BigPacketFreeIndex t = BigPacketFreeIndex s" "findFragControl src ident t = Some i"
    using c findFragControl_keep [of t s src ident] by (auto simp: t_def collecting_def)
  have last: "lastFragRcvd (fragControl t i) \<longleftrightarrow> length ls - 1 \<in> set (insort j xs)"
    using c h j(1) by (auto simp: t_def collecting_def header_of_def set_insort_key)
  let ?fc = "fragControl t i"
  define pos where "pos = frag_insertPos ?fc off"
  have pos: "pos = length (takeWhile (\<lambda>x. x < j) xs)"
    unfolding pos_def ol by (rule insertPos_pieces [OF cut xs(3) j(1) t(1)])
  have n: "unat (fragsRcvd ?fc) = length xs" using arg_cong [OF t(1), of length] by simp
  have len_xs: "length xs \<le> length ls"
    using xs card_mono [OF _ xs(3)] distinct_card [OF xs(2)] by simp
  have sum: "off + len = of_nat (cut_at ls (Suc j))" by (simp add: ol cut_word_Suc [OF j(1)])
  have big: "\<not> IP_BIGPACKET_SIZE < off + len"
    using cut_at_bound [OF cut, of "Suc j"] by (simp add: sum cfg_defs word_less_nat_alt u16_of_nat)
  have after: "fc_offsets ?fc pos = of_nat (cut_at ls (xs ! pos)) \<and> j < xs ! pos \<and> xs ! pos < length ls"
    if "pos < length xs"
  proof -
    have "\<not> xs ! pos < j" using nth_length_takeWhile [of "\<lambda>x. x < j" xs] that pos by simp
    moreover have "xs ! pos \<in> set xs" using that by simp
    ultimately have "j < xs ! pos" "xs ! pos < length ls"
      using j(2) xs(3) by (auto simp: not_less le_less lessThan_def)
    then show ?thesis
      using that n arg_cong [OF t(1), of "\<lambda>xs. xs ! pos"] by (simp add: frags_nth piece_def)
  qed
  have new: "\<not> (pos < unat (fragsRcvd ?fc) \<and> off = fc_offsets ?fc pos \<and> len = fc_lengths ?fc pos)"
    using after j(1) cut_word_eq [OF cut, of j "xs ! pos"] by (auto simp: n ol(1))
  have apart: "\<not> (pos < unat (fragsRcvd ?fc) \<and> fc_offsets ?fc pos < off + len)"
    using after j(1) cut_word_less [OF cut, of "xs ! pos" "Suc j"] by (auto simp: n sum)
  define u where "u = upd_fc i (frag_insert pos off len (pk j)) t"
  have fr: "frags (fragControl u i) = map (piece ls pk) (insort j xs)"
  proof -
    have "take pos xs = takeWhile (\<lambda>x. x < j) xs" "drop pos xs = dropWhile (\<lambda>x. x < j) xs"
      unfolding pos by (rule takeWhile_eq_take [symmetric], rule dropWhile_eq_drop [symmetric])
    moreover have "pos \<le> length xs" by (simp add: pos length_takeWhile_le)
    ultimately show ?thesis
      using frags_insert [of pos ?fc off len "pk j"] len_xs k
      by (simp add: u_def n t(1) take_map drop_map insort_takeWhile piece_def [of _ _ j] ol)
  qed
  have cu: "collecting i ls pk src ident (insort j xs) u"
    using fr last t(4) findFragControl_keep [of u t src ident] by (auto simp: collecting_def u_def)
  have e: "frag_more i h (pk j) s = (let fc = fragControl u i in
        if lastFragRcvd fc \<and> frag_contiguous fc [0..<unat (fragsRcvd fc)] 0 then makeBigPacket i u
        else if fragsRcvd fc = IP_MAX_FRAGS_PER_PACKET
        then (let s = killFragmentControl i u in (s\<lparr>Ip_notEnoughSlots := Ip_notEnoughSlots s + 1\<rparr>, None))
        else (u, None))"
    using big new apart
    by (simp only: frag_more_def Let_def off_def [symmetric] len_def [symmetric] t_def [symmetric] pos_def [symmetric]
        u_def [symmetric] if_False)
  show ?thesis using cu e t by (intro exI [of _ u]) (simp add: u_def)
qed

lemma collecting_done:
  assumes "good_cut ls" and "ls \<noteq> []" and "sorted ys" "distinct ys" "set ys \<subseteq> {..<length ls}"
    and "collecting i ls pk src ident ys u"
  shows "lastFragRcvd (fragControl u i) \<and> frag_contiguous (fragControl u i) [0..<unat (fragsRcvd (fragControl u i))] 0
     \<longleftrightarrow> ys = [0..<length ls]"
proof -
  have "frag_contiguous (fragControl u i) [0..<unat (fragsRcvd (fragControl u i))] 0 \<longleftrightarrow> ys = [0..<length ys]"
    using contig_pieces [OF assms(1,3,4), of 0 pk] assms(5,6)
    by (auto simp: frag_contiguous_frags collecting_def simp del: upt_Suc)
  moreover have "length ls - 1 \<in> set ys \<and> ys = [0..<length ys] \<longleftrightarrow> ys = [0..<length ls]"
  proof
    assume a: "length ls - 1 \<in> set ys \<and> ys = [0..<length ys]"
    then have "length ls - 1 < length ys" by (metis atLeastLessThan_iff set_upt)
    moreover have "length ys \<le> length ls"
      using assms(4,5) card_mono [OF _ assms(5)] distinct_card [OF assms(4)] by simp
    ultimately show "ys = [0..<length ls]" using a by (metis One_nat_def Suc_pred le_antisym length_greater_0_conv assms(2) Suc_leI)
  next
    assume "ys = [0..<length ls]"
    then show "length ls - 1 \<in> set ys \<and> ys = [0..<length ys]" using assms(2) by simp
  qed
  ultimately show ?thesis using assms(6) by (auto simp: collecting_def)
qed

lemma collecting_not_full:
  assumes "collecting i ls pk src ident ys u" and "distinct ys" and "sorted ys" and "set ys \<subseteq> {..<length ls}" and "length ls \<le> 10"
    and "ys \<noteq> [0..<length ls]"
  shows "fragsRcvd (fragControl u i) \<noteq> IP_MAX_FRAGS_PER_PACKET"
proof
  assume "fragsRcvd (fragControl u i) = IP_MAX_FRAGS_PER_PACKET"
  moreover have "frags (fragControl u i) = map (piece ls pk) ys" using assms(1) by (simp add: collecting_def)
  from arg_cong [OF this, of length] have "unat (fragsRcvd (fragControl u i)) = length ys" by simp
  ultimately have "length ys = 10" by (simp add: cfg_defs)
  moreover have "length ys \<le> length ls"
    using card_mono [OF finite_lessThan assms(4)] distinct_card [OF assms(2)] by simp
  ultimately have "card (set ys) = card {..<length ls}" using assms(5) distinct_card [OF assms(2)] by simp
  then have "set ys = {..<length ls}" by (rule card_subset_eq [OF finite_lessThan assms(4)])
  then have "set ys = set [0..<length ls]" by (simp add: atLeast0LessThan)
  then have "ys = [0..<length ls]"
    by (rule sorted_distinct_set_unique [OF assms(3,2) sorted_upt distinct_upt])
  then show False using assms(6) by simp
qed

lemma frag_arrives:
  assumes cut: "good_cut ls" and ne: "ls \<noteq> []" and k: "length ls \<le> 10"
    and xs: "sorted xs" "distinct xs" "set xs \<subseteq> {..<length ls}"
    and j: "j < length ls" "j \<notin> set xs"
    and h: "header_of ls src ident j h" and c: "collecting i ls pk src ident xs s"
  shows "insort j xs \<noteq> [0..<length ls] \<Longrightarrow> \<exists>u. processFragment h (pk j) s = (u, None) \<and>
      collecting i ls pk src ident (insort j xs) u \<and> pkt_mem u = pkt_mem s \<and> BigPacketFreeIndex u = BigPacketFreeIndex s"
    and "insort j xs = [0..<length ls] \<Longrightarrow> \<exists>u. processFragment h (pk j) s = makeBigPacket i u \<and>
      collecting i ls pk src ident (insort j xs) u \<and> pkt_mem u = pkt_mem s \<and> BigPacketFreeIndex u = BigPacketFreeIndex s"
proof -
  have p: "processFragment h (pk j) s = frag_more i h (pk j) s"
    using h c by (simp add: processFragment_def header_of_def collecting_def)
  obtain u where u: "collecting i ls pk src ident (insort j xs) u" "pkt_mem u = pkt_mem s"
      "BigPacketFreeIndex u = BigPacketFreeIndex s"
    and m: "frag_more i h (pk j) s = (let fc = fragControl u i in
        if lastFragRcvd fc \<and> frag_contiguous fc [0..<unat (fragsRcvd fc)] 0 then makeBigPacket i u
        else if fragsRcvd fc = IP_MAX_FRAGS_PER_PACKET
        then (let s = killFragmentControl i u in (s\<lparr>Ip_notEnoughSlots := Ip_notEnoughSlots s + 1\<rparr>, None))
        else (u, None))"
    using frag_more_inserts [OF cut xs j k h c] by blast
  have ys: "sorted (insort j xs)" "distinct (insort j xs)" "set (insort j xs) \<subseteq> {..<length ls}"
    using xs j by (simp_all add: sorted_insort distinct_insort set_insort_key)
  note d = collecting_done [OF cut ne ys u(1)]
  note f = collecting_not_full [OF u(1) ys(2,1,3) k]
  show "\<exists>u. processFragment h (pk j) s = (u, None) \<and>
      collecting i ls pk src ident (insort j xs) u \<and> pkt_mem u = pkt_mem s \<and> BigPacketFreeIndex u = BigPacketFreeIndex s"
    if "insort j xs \<noteq> [0..<length ls]"
    unfolding p m Let_def using d f [OF that] that u by auto
  show "\<exists>u. processFragment h (pk j) s = makeBigPacket i u \<and>
      collecting i ls pk src ident (insort j xs) u \<and> pkt_mem u = pkt_mem s \<and> BigPacketFreeIndex u = BigPacketFreeIndex s"
    if "insort j xs = [0..<length ls]"
    unfolding p m Let_def using d that u by (intro exI [of _ u]) simp
qed

lemma first_arrives:
  assumes "header_of ls src ident j h" and "good_cut ls" and "j < length ls"
    and none: "findFragControl src ident s = None" and op: "findOpenFragControl s = Some i"
  shows "\<exists>u. processFragment h (pk j) s = (u, None) \<and> collecting i ls pk src ident [j] u \<and>
      pkt_mem u = pkt_mem s \<and> BigPacketFreeIndex u = BigPacketFreeIndex s"
proof -
  have i: "i < IP_MAX_FRAG_PACKETS" using op by (auto simp: findOpenFragControl_def find_Some_iff)
  define v where "v = s\<lparr>fragsInReassembly := fragsInReassembly s + 1\<rparr>"
  define u where "u = upd_fc i (\<lambda>fc. fc\<lparr>inUse := True, fragsRcvd := 1, lastFragRcvd := isLastFragment h,
                     fc_srcAddr := ip_src h, fc_ident := ip_ident h,
                     fc_startTime := Timer_CurrentTicks s,
                     fc_offsets := (fc_offsets fc)(0 := fragmentOffset h),
                     fc_lengths := (fc_lengths fc)(0 := fragmentLength h),
                     fc_packets := (fc_packets fc)(0 := pk j)\<rparr>) v"
  have sum: "fragmentOffset h + fragmentLength h = of_nat (cut_at ls (Suc j))"
    using assms(1,3) by (simp add: header_of_def cut_word_Suc)
  have big: "\<not> IP_BIGPACKET_SIZE < fragmentOffset h + fragmentLength h"
    using cut_at_bound [OF assms(2), of "Suc j"] by (simp add: sum cfg_defs word_less_nat_alt u16_of_nat)
  have p: "processFragment h (pk j) s = (u, None)"
    using assms(1) none op big by (simp add: processFragment_def header_of_def frag_first_def u_def v_def)
  have other: "\<not> (inUse (fragControl s x) \<and> ip_isSame (fc_srcAddr (fragControl s x)) src \<and> fc_ident (fragControl s x) = ident)"
    if "x < IP_MAX_FRAG_PACKETS" for x
    using none that by (auto simp: findFragControl_def find_None_iff)
  have "findFragControl src ident u = Some i"
    unfolding findFragControl_def find_Some_iff
    by (rule exI [of _ i]) (use i other assms(1) in \<open>auto simp: u_def v_def header_of_def ip_isSame_def\<close>)
  moreover have "frags (fragControl u i) = [piece ls pk j]"
    using assms(1) by (simp add: u_def v_def frags_def piece_def header_of_def)
  moreover have "lastFragRcvd (fragControl u i) \<longleftrightarrow> length ls - 1 \<in> set [j]"
    using assms(1,3) by (auto simp: u_def header_of_def)
  ultimately have "collecting i ls pk src ident [j] u" by (simp add: collecting_def)
  then show ?thesis by (intro exI [of _ u]) (simp add: p, simp add: u_def v_def)
qed

text \<open>Packets given to reassembly one after the other, with their headers read from the buffers.\<close>

fun frag_run :: "bufref list \<Rightarrow> 'a ip_state_scheme \<Rightarrow> 'a ip_state_scheme \<times> bufref option list" where
  "frag_run [] s = (s, [])"
| "frag_run (p # ps) s =
     (let (s, r) = processFragment (read_IpHeader (pkt_mem s p) 14) p s; (s, rs) = frag_run ps s
      in (s, r # rs))"

text \<open>The datagram in the big packet \<open>bp\<close>: its data, and a header made from the first fragment's.\<close>

definition datagram_in :: "u8 list \<Rightarrow> IpHeader \<Rightarrow> bufref \<Rightarrow> 'a ip_state_scheme \<Rightarrow> bool" where
  "datagram_in D h bp s \<longleftrightarrow> rdbytes (pkt_mem s bp) 34 (length D) = D \<and>
     read_IpHeader (pkt_mem s bp) 14 =
       h\<lparr>ip_versHlen := 0x45, ip_total_length := htons (of_nat (length D) + 20), ip_flags := 0, ip_chksum := 0\<rparr>"

lemma frag_run_collects:
  assumes cut: "good_cut ls" and ne: "ls \<noteq> []" and k: "length ls \<le> 10"
  shows "sorted xs \<Longrightarrow> distinct (xs @ js) \<Longrightarrow> set (xs @ js) = {..<length ls} \<Longrightarrow> js \<noteq> [] \<Longrightarrow>
    collecting i ls pk src ident xs s \<Longrightarrow> holds_pieces ls pk D (pkt_mem s) \<Longrightarrow> BigPacketFreeIndex s \<noteq> 0 \<Longrightarrow>
    (\<And>j. j < length ls \<Longrightarrow> header_of ls src ident j (read_IpHeader (pkt_mem s (pk j)) 14)) \<Longrightarrow>
    \<exists>s' bp. frag_run (map pk js) s = (s', replicate (length js - 1) None @ [Some bp]) \<and>
      datagram_in D (read_IpHeader (pkt_mem s (pk 0)) 14) bp s'"
proof (induction js arbitrary: xs s)
  case (Cons j js)
  have j: "j < length ls" "j \<notin> set xs" and xs: "distinct xs" "set xs \<subseteq> {..<length ls}"
    using Cons.prems(2,3) by auto
  note arr = frag_arrives [OF cut ne k Cons.prems(1) xs j Cons.prems(8) [OF j(1)] Cons.prems(5)]
  show ?case
  proof (cases "js = []")
    case True
    have "set (insort j xs) = {..<length ls}" "distinct (insort j xs)" "sorted (insort j xs)"
      using Cons.prems(1,3) True j(2) xs(1) by (auto simp: set_insort_key distinct_insort sorted_insort)
    then have full: "insort j xs = [0..<length ls]"
      by (intro sorted_distinct_set_unique) (simp_all add: atLeast0LessThan)
    obtain u where u: "processFragment (read_IpHeader (pkt_mem s (pk j)) 14) (pk j) s = makeBigPacket i u"
      "frags (fragControl u i) = map (piece ls pk) [0..<length ls]" "pkt_mem u = pkt_mem s"
      "BigPacketFreeIndex u = BigPacketFreeIndex s"
      using arr(2) [OF full] by (auto simp: full collecting_def)
    then obtain s' bp where "makeBigPacket i u = (s', Some bp)" "datagram_in D (read_IpHeader (pkt_mem s (pk 0)) 14) bp s'"
      using makeBigPacket_pieces [OF cut u(2) ne, of D] Cons.prems(6,7) by (auto simp: datagram_in_def)
    then show ?thesis using u(1) True by simp
  next
    case False
    then obtain y where y: "y \<in> set js" by (cases js) auto
    then have "y \<notin> set (insort j xs)" "y < length ls" using Cons.prems(2,3) by (auto simp: set_insort_key)
    then have "insort j xs \<noteq> [0..<length ls]" by (metis atLeast0LessThan lessThan_iff set_upt)
    then obtain u where u: "processFragment (read_IpHeader (pkt_mem s (pk j)) 14) (pk j) s = (u, None)"
      "collecting i ls pk src ident (insort j xs) u" "pkt_mem u = pkt_mem s"
      "BigPacketFreeIndex u = BigPacketFreeIndex s"
      using arr(1) by blast
    have "\<exists>s' bp. frag_run (map pk js) u = (s', replicate (length js - 1) None @ [Some bp]) \<and>
      datagram_in D (read_IpHeader (pkt_mem u (pk 0)) 14) bp s'"
      using Cons.prems u False
      by (intro Cons.IH [of "insort j xs" u]) (auto simp: u(3,4) sorted_insort distinct_insort set_insort_key)
    then obtain s' bp where r: "frag_run (map pk js) u = (s', replicate (length js - 1) None @ [Some bp])"
      "datagram_in D (read_IpHeader (pkt_mem s (pk 0)) 14) bp s'" by (auto simp: u(3))
    have "replicate (length (j # js) - 1) None = None # replicate (length js - 1) (None :: bufref option)"
      using False by (cases js) simp_all
    then show ?thesis using r u(1) by simp
  qed
qed simp

section \<open>Properties\<close>

text \<open>A 12-byte datagram in two fragments, in receive buffers 0 and 1.\<close>

definition demo_header :: "nat \<Rightarrow> IpHeader" where
  "demo_header j = (read_IpHeader (\<lambda>_. 0) 0)\<lparr>ip_versHlen := 0x45,
     ip_total_length := (if j = 0 then 0x1C00 else 0x1800), ip_flags := (if j = 0 then 0x0020 else 0x0100)\<rparr>"

definition demo_frags :: ip_state where
  "demo_frags = zero_ip_state\<lparr>BigPacketFreeIndex := 1,
     pkt_mem := (\<lambda>p. let j = (if p = PoolBuf 0 then 0 else 1) in
       memcpy (memcpy (\<lambda>_. 0) 14 (ip_bytes (demo_header j))) 34 (if j = 0 then [1, 2, 3, 4, 5, 6, 7, 8] else [9, 10, 11, 12]))\<rparr>"

lemma rdbytes_memcpy_len: "length xs = n \<Longrightarrow> rdbytes (memcpy m p xs) p n = xs"
  using rdbytes_memcpy_same [of m p xs] by simp

lemma demo_header_of: "header_of [8, 4] (0, 0, 0, 0) 0 0 (demo_header 0)"
  "header_of [8, 4] (0, 0, 0, 0) 0 1 (demo_header 1)"
  by (simp_all add: header_of_def demo_header_def read_IpHeader_def rd16_def rdip_def le16_def cut_at_def
      fragmentOffset_def fragmentLength_def getIpHlen_def isLastFragment_def htons_def)

lemma demo_frags_header: "read_IpHeader (pkt_mem demo_frags (PoolBuf j)) 14 = demo_header (if j = 0 then 0 else 1)"
proof -
  have "read_IpHeader (memcpy m 34 xs) 14 = read_IpHeader m 14" for m :: mem and xs
    by (simp add: read_IpHeader_def rd16_def rdip_def memcpy_def)
  then show ?thesis by (simp add: demo_frags_def Let_def)
qed

lemma demo_frags_off: "payloadOff (demo_header j) = 20"
  by (simp add: demo_header_def payloadOff_def getIpHlen_def)

lemma demo_frags_pieces: "holds_pieces [8, 4] PoolBuf [1, 2, 3, 4, 5, 6, 7, 8, 9, 10, 11, 12] (pkt_mem demo_frags)"
proof -
  have "frag_bytes (pkt_mem demo_frags) (piece [8, 4] PoolBuf j) = (if j = 0 then [1, 2, 3, 4, 5, 6, 7, 8] else [9, 10, 11, 12])"
    if "j < 2" for j
  proof -
    have "rdbytes (pkt_mem demo_frags (PoolBuf j)) 34 ([8, 4] ! j) =
        (if j = 0 then [1, 2, 3, 4, 5, 6, 7, 8] else [9, 10, 11, 12])"
      using that by (cases "j = 0") (simp_all add: demo_frags_def Let_def rdbytes_memcpy_len)
    moreover have "unat (of_nat ([8, 4] ! j) :: u16) = [8, 4] ! j" using that by (cases j) auto
    ultimately show ?thesis by (simp add: frag_bytes_def piece_def demo_frags_header demo_frags_off)
  qed
  then show ?thesis by (auto simp: holds_pieces_def cut_at_def less_Suc_eq numeral_2_eq_2)
qed

lemma demo_frags_free: "findFragControl a b demo_frags = None" "findOpenFragControl demo_frags = Some 0"
  "BigPacketFreeIndex demo_frags = 1"
  by (simp_all add: findFragControl_def findOpenFragControl_def demo_frags_def cfg_defs find_None_iff
        zero_ip_state_def zero_ipsend_def zero_arp_def zero_net_def
        net.defs arp_state.defs ipsend_state.defs ip_state.defs upt_rec)

text \<open>
  C20. Reassembly is correct whatever the order of arrival: when the fragments of a datagram of at
  most 2048 bytes, cut into two to ten pieces, arrive in any order (and a control structure and a
  big packet are free), every packet but the last is kept and the last one yields a big packet
  that holds the datagram, under the first fragment's header with the options removed and the
  length corrected.
\<close>

theorem reassembly_any_order:
  assumes "good_cut ls" and "2 \<le> length ls" and "length ls \<le> 10"
    and "distinct js" and "set js = {..<length ls}"
    and "holds_pieces ls pk D (pkt_mem s)"
    and "\<And>j. j < length ls \<Longrightarrow> header_of ls src ident j (read_IpHeader (pkt_mem s (pk j)) 14)"
    and "findFragControl src ident s = None" and "findOpenFragControl s \<noteq> None" and "BigPacketFreeIndex s \<noteq> 0"
  shows "\<exists>s' bp. frag_run (map pk js) s = (s', replicate (length ls - 1) None @ [Some bp]) \<and>
    datagram_in D (read_IpHeader (pkt_mem s (pk 0)) 14) bp s'"
proof -
  have len: "length js = length ls" using distinct_card [OF assms(4)] assms(5) by simp
  then obtain j js' where js: "js = j # js'" "js' \<noteq> []"
    using assms(2) by (cases js; cases "tl js") auto
  have j: "j < length ls" using assms(5) by (auto simp: js)
  obtain i where i: "findOpenFragControl s = Some i" using assms(9) by blast
  obtain u where u: "processFragment (read_IpHeader (pkt_mem s (pk j)) 14) (pk j) s = (u, None)"
    "collecting i ls pk src ident [j] u" "pkt_mem u = pkt_mem s" "BigPacketFreeIndex u = BigPacketFreeIndex s"
    using first_arrives [OF assms(7) [OF j] assms(1) j assms(8) i] by blast
  have "ls \<noteq> []" using assms(2) by auto
  from frag_run_collects [OF assms(1) this assms(3), of "[j]" js' i pk src ident u D]
  obtain s' bp where r: "frag_run (map pk js') u = (s', replicate (length js' - 1) None @ [Some bp])"
    "datagram_in D (read_IpHeader (pkt_mem s (pk 0)) 14) bp s'"
    using assms(4-7,10) u js by (auto simp: js(1))
  have "replicate (length ls - 1) None = None # replicate (length js' - 1) (None :: bufref option)"
    using js by (cases js') (auto simp: len [symmetric])
  then show ?thesis using r u(1) js(1) by simp
qed

theorem reassembly_any_order_witness:
  "\<exists>s' bp. frag_run (map PoolBuf [1, 0]) demo_frags = (s', [None, Some bp]) \<and>
     rdbytes (pkt_mem s' bp) 34 12 = [1, 2, 3, 4, 5, 6, 7, 8, 9, 10, 11, 12]"
proof -
  have cut: "good_cut [8, 4]" by (simp add: good_cut_def)
  have js: "distinct [1, 0 :: nat]" "set [1, 0] = {..<length [8, 4 :: nat]}" by auto
  have h: "header_of [8, 4] (0, 0, 0, 0) 0 j (read_IpHeader (pkt_mem demo_frags (PoolBuf j)) 14)"
    if "j < length [8, 4 :: nat]" for j
    using that demo_header_of by (cases "j = 0") (auto simp: demo_frags_header less_Suc_eq)
  have free: "findOpenFragControl demo_frags \<noteq> None" "BigPacketFreeIndex demo_frags \<noteq> 0"
    by (simp_all add: demo_frags_free)
  have "2 \<le> length [8, 4 :: nat]" "length [8, 4 :: nat] \<le> 10" by simp_all
  from reassembly_any_order [OF cut this js demo_frags_pieces h demo_frags_free(1) free]
  obtain s' bp where r: "frag_run (map PoolBuf [1, 0]) demo_frags = (s', replicate (length [8, 4 :: nat] - 1) None @ [Some bp])"
    "datagram_in [1, 2, 3, 4, 5, 6, 7, 8, 9, 10, 11, 12] (read_IpHeader (pkt_mem demo_frags (PoolBuf 0)) 14) bp s'"
    by blast
  have len: "length [1, 2, 3, 4, 5, 6, 7, 8, 9, 10, 11, 12 :: u8] = 12" "length [8, 4 :: nat] - 1 = 1" by simp_all
  have "frag_run (map PoolBuf [1, 0]) demo_frags = (s', [None, Some bp])" using r(1) unfolding len by simp
  moreover have "rdbytes (pkt_mem s' bp) 34 12 = [1, 2, 3, 4, 5, 6, 7, 8, 9, 10, 11, 12]"
    using r(2) unfolding datagram_in_def len by (rule conjunct1)
  ultimately show ?thesis by blast
qed

text \<open>
  C21. The size check of a first fragment: it is kept exactly when offset plus length, modulo
  65536, is at most the 2048 bytes of a big packet; otherwise it is counted, and its packet goes
  back to the pool.  The sum is a 16-bit one, so a fragment that claims to reach beyond 65536
  passes the check.
\<close>

theorem fragment_size_check_wraps:
  assumes "findFragControl (ip_src h) (ip_ident h) s = None" and "findOpenFragControl s = Some i"
  shows "snd (processFragment h p s) = None \<and>
    (if (unat (fragmentOffset h) + unat (fragmentLength h)) mod 65536 \<le> 2048
     then inUse (fragControl (fst (processFragment h p s)) i) \<and>
       frags (fragControl (fst (processFragment h p s)) i) = [(fragmentOffset h, fragmentLength h, p)]
     else fst (processFragment h p s) = Buffer_free p (s\<lparr>Ip_payloadTooBig := Ip_payloadTooBig s + 1\<rparr>))"
proof -
  have "IP_BIGPACKET_SIZE < fragmentOffset h + fragmentLength h \<longleftrightarrow>
      \<not> (unat (fragmentOffset h) + unat (fragmentLength h)) mod 65536 \<le> 2048"
    by (simp add: cfg_defs word_less_nat_alt unat_word_ariths not_le)
  then show ?thesis using assms
    by (simp add: processFragment_def frag_first_def frags_def upd_fc_def)
qed

theorem fragment_size_check_wraps_witness:
  "inUse (fragControl (fst (processFragment ((demo_header 2)\<lparr>ip_total_length := 0xFFFF, ip_flags := 0x0400\<rparr>)
      (PoolBuf 0) demo_frags)) 0) \<and>
   (65536 :: nat) < 32 + 65515"
proof -
  let ?h = "(demo_header 2)\<lparr>ip_total_length := 0xFFFF, ip_flags := 0x0400\<rparr>"
  have o1: "fragmentOffset ?h = 32" "fragmentLength ?h = 65515"
    by (simp_all add: fragmentOffset_def fragmentLength_def getIpHlen_def demo_header_def htons_def)
  show ?thesis using fragment_size_check_wraps [OF demo_frags_free(1,2), of ?h "PoolBuf 0"] by (simp add: o1)
qed

end
