(* ===== verification/BufferFlow.thy ===== *)
theory BufferFlow
  imports Bot Reassembly
begin

text \<open>
  Where the receive buffers are while the stack runs: in the free stack, in the receive ring, in
  the reassembly table, in the queue of a socket, or in the hands of the application.  Every
  operation of the layers together is shown to move buffers between these places and never to lose
  or double one.  This theory goes up to TCP; the layers above and the stack as a whole are in the
  theory \<open>BufferSystem\<close>.
\<close>

section \<open>Sums over all sockets\<close>

definition msum :: "(nat \<Rightarrow> 'b multiset) \<Rightarrow> 'b multiset" where
  "msum f = (\<Sum>i \<in> {i. f i \<noteq> {#}}. f i)"

lemma msum_on: "finite A \<Longrightarrow> {i. f i \<noteq> {#}} \<subseteq> A \<Longrightarrow> msum f = sum f A"
  unfolding msum_def by (rule sum.mono_neutral_left) auto

lemma msum_upd:
  assumes "finite {i. f i \<noteq> {#}}"
  shows "msum (f(i := x)) + f i = msum f + x"
proof -
  let ?A = "insert i {i. f i \<noteq> {#}}"
  have fin: "finite ?A" using assms by simp
  have "msum (f(i := x)) = sum (f(i := x)) ?A" by (rule msum_on [OF fin]) auto
  also have "\<dots> = x + sum (f(i := x)) (?A - {i})" by (subst sum.remove [OF fin, of i]) simp_all
  also have "sum (f(i := x)) (?A - {i}) = sum f (?A - {i})" by (rule sum.cong) auto
  finally have u: "msum (f(i := x)) = x + sum f (?A - {i})" .
  have "msum f = sum f ?A" by (rule msum_on [OF fin]) auto
  also have "\<dots> = f i + sum f (?A - {i})" by (subst sum.remove [OF fin, of i]) simp_all
  finally show ?thesis using u by (simp add: ac_simps)
qed

lemma mset_shift:
  assumes "a + z = b + (y :: 'b multiset)"
  shows "a + (x + z) = b + (x + y)" and "a + x + z = b + x + y" and "x + a + z = x + b + y"
proof -
  have "a + (x + z) = (a + z) + x" by (simp only: ac_simps)
  also have "\<dots> = b + (x + y)" by (simp only: assms ac_simps)
  finally show *: "a + (x + z) = b + (x + y)" .
  then show "a + x + z = b + x + y" by (simp only: add.assoc)
  then show "x + a + z = x + b + y" by (simp only: add.commute [of x])
qed

lemma mset_swap:
  assumes "a + g = m + x" and "x + z = g + (y :: 'b multiset)"
  shows "a + z = m + y"
proof -
  have "a + z + (g + x) = (a + g) + (x + z)" by (simp only: ac_simps)
  also have "\<dots> = m + y + (g + x)" by (simp only: assms) (simp only: ac_simps)
  finally show ?thesis by (simp only: add_right_cancel)
qed

section \<open>Where the buffers are\<close>

definition inc_sum :: "(nat \<Rightarrow> bufref RingBuffer) \<Rightarrow> bufref multiset" where
  "inc_sum inc = msum (\<lambda>i. mset (rb_list (inc i)))"

definition fc_held :: "IpFragControl_t \<Rightarrow> bufref multiset" where
  "fc_held fc = (if inUse fc then mset (map (fc_packets fc) [0..<unat (fragsRcvd fc)]) else {#})"

definition frag_sum :: "(nat \<Rightarrow> IpFragControl_t) \<Rightarrow> bufref multiset" where
  "frag_sum fcs = (\<Sum>i<4. fc_held (fcs i))"

text \<open>The big packets of the reassembly have a pool of their own.\<close>

definition pool_part :: "bufref multiset \<Rightarrow> bufref multiset" where
  "pool_part M = filter_mset (\<lambda>b. \<not> isIpBigPacket b) M"

lemma pool_part_add [simp]: "pool_part (M + N) = pool_part M + pool_part N" "pool_part {#} = {#}"
  "pool_part (add_mset b M) = (if isIpBigPacket b then pool_part M else add_mset b (pool_part M))"
  by (simp_all add: pool_part_def)

definition own_total :: "'a tcp_state_scheme \<Rightarrow> bufref multiset" where
  "own_total s = inc_sum (\<lambda>i. incoming (socks s i)) + frag_sum (fragControl s)"

definition own_ok :: "'a tcp_state_scheme \<Rightarrow> bool" where
  "own_ok s \<longleftrightarrow>
     (\<forall>i. rb_wf (incoming (socks s i))) \<and> finite {i. rb_list (incoming (socks s i)) \<noteq> []} \<and>
     (\<forall>i. isIpBigPacket (BigPacketFreeList s i))"

text \<open>
  \<open>X\<close> are the buffers of the application, \<open>c\<close> the buffer the packet driver is filling.
\<close>

definition own_inv :: "bufref multiset \<Rightarrow> bufref option \<Rightarrow> 'a tcp_state_scheme \<Rightarrow> bool" where
  "own_inv X c s \<longleftrightarrow> buf_inv (pool_part (own_total s + X)) c s \<and> own_ok s"

text \<open>What the invariant looks at.\<close>

definition pool_view :: "'a net_scheme \<Rightarrow> (nat \<Rightarrow> bufref) \<times> u8 \<times> u8 \<times> (nat \<Rightarrow> bufref) \<times> u8 \<times> bufref" where
  "pool_view s = (Buffer s, Buffer_first s, Buffer_next s, Buffer_fs s, Buffer_fs_index s, Buffer_packetBeingCopied s)"

definition own_view ::
    "'a tcp_state_scheme \<Rightarrow> ((nat \<Rightarrow> bufref) \<times> u8 \<times> u8 \<times> (nat \<Rightarrow> bufref) \<times> u8 \<times> bufref) \<times> (nat \<Rightarrow> bufref) \<times>
       (nat \<Rightarrow> IpFragControl_t) \<times> (nat \<Rightarrow> bufref RingBuffer)" where
  "own_view s = (pool_view s, BigPacketFreeList s, fragControl s, \<lambda>i. incoming (socks s i))"

lemma buf_inv_cong: "pool_view s' = pool_view s \<Longrightarrow> buf_inv h c s' = buf_inv h c s"
  by (simp add: pool_view_def buf_inv_def free_list_def ring_list_def)

lemma own_inv_cong:
  assumes "own_view s' = own_view s"
  shows "own_inv X c s' \<longleftrightarrow> own_inv X c s"
proof -
  have p: "pool_view s' = pool_view s" and f: "BigPacketFreeList s' = BigPacketFreeList s" "fragControl s' = fragControl s"
    and i: "(\<lambda>i. incoming (socks s' i)) = (\<lambda>i. incoming (socks s i))"
    using assms by (simp_all add: own_view_def)
  have "incoming (socks s' j) = incoming (socks s j)" for j using i by (rule fun_cong)
  then show ?thesis
    by (simp add: own_inv_def own_ok_def own_total_def buf_inv_cong [OF p] f)
qed

lemma own_inv_move:
  assumes "own_inv (X + Y) c s" and "pool_view s' = pool_view s" and "own_total s' + Z = own_total s + Y" and "own_ok s'"
  shows "own_inv (X + Z) c s'"
proof -
  have "own_total s' + (X + Z) = own_total s + (X + Y)" by (rule mset_shift(1) [OF assms(3)])
  then show ?thesis using assms(1,4) buf_inv_cong [OF assms(2)] by (simp only: own_inv_def)
qed

lemma Buffer_free_fields:
  "socks (Buffer_free b s) = socks s" "fragControl (Buffer_free b s) = fragControl s"
  "isIpBigPacket b \<Longrightarrow> pool_view (Buffer_free b s) = pool_view s"
  "(\<And>i. isIpBigPacket (BigPacketFreeList s i)) \<Longrightarrow> isIpBigPacket (BigPacketFreeList (Buffer_free b s) i)"
  by (simp_all add: Buffer_free_def freeBigPacket_def pool_view_def)

lemma Buffer_free_total [simp]: "own_total (Buffer_free b s) = own_total s"
  by (simp add: own_total_def Buffer_free_fields)

lemma Buffer_free_ok: "own_ok s \<Longrightarrow> own_ok (Buffer_free b s)"
  by (simp add: own_ok_def Buffer_free_fields)

lemma own_inv_free:
  fixes s :: "'a tcp_state_scheme"
  assumes "own_inv (X + {#b#}) c s"
  shows "own_inv X c (Buffer_free b s)"
proof (cases "isIpBigPacket b")
  case True
  then have "buf_inv h c (Buffer_free b s) = buf_inv h c s" for h
    by (rule buf_inv_cong [OF Buffer_free_fields(3)])
  then show ?thesis using assms True by (simp add: own_inv_def Buffer_free_ok)
next
  case False
  then have "buf_inv (pool_part (own_total s + X) + {#b#}) c s" using assms by (simp add: own_inv_def)
  from buf_inv_free [OF this] show ?thesis
    using assms by (simp add: own_inv_def Buffer_free_ok)
qed

lemma own_inv_big: "isIpBigPacket b \<Longrightarrow> own_inv (X + {#b#}) c s \<longleftrightarrow> own_inv X c s"
  by (simp add: own_inv_def)

text \<open>Buffers move between the application and a socket's queue.\<close>

lemma own_inv_socket:
  fixes s :: "'a tcp_state_scheme"
  assumes inv: "own_inv (X + Y) c s" and wf: "rb_wf (incoming (f (socks s i)))"
    and eq: "mset (rb_list (incoming (f (socks s i)))) + Z = mset (rb_list (incoming (socks s i))) + Y"
  shows "own_inv (X + Z) c (upd_sock i f s)"
proof -
  define g where "g = (\<lambda>i. mset (rb_list (incoming (socks s i))))"
  define x where "x = mset (rb_list (incoming (f (socks s i))))"
  have fin: "finite {i. g i \<noteq> {#}}" using inv by (simp add: own_inv_def own_ok_def g_def)
  have g': "(\<lambda>j. mset (rb_list (incoming (socks (upd_sock i f s) j)))) = g(i := x)"
    by (auto simp: upd_sock_def g_def x_def)
  have m: "msum (g(i := x)) + Z = msum g + Y"
    by (rule mset_swap [OF msum_upd [OF fin]]) (use eq in \<open>simp only: g_def x_def\<close>)
  have "own_total (upd_sock i f s) = msum (g(i := x)) + frag_sum (fragControl s)"
    by (simp only: own_total_def inc_sum_def g') (simp add: upd_sock_def)
  moreover have "own_total s = msum g + frag_sum (fragControl s)"
    by (simp add: own_total_def inc_sum_def g_def)
  ultimately have "own_total (upd_sock i f s) + Z = own_total s + Y"
    using mset_shift(2) [OF m, of "frag_sum (fragControl s)"] by (simp only:)
  moreover have "own_ok (upd_sock i f s)"
  proof -
    have "{j. rb_list (incoming (socks (upd_sock i f s) j)) \<noteq> []} \<subseteq> insert i {j. rb_list (incoming (socks s j)) \<noteq> []}"
      by (auto simp: upd_sock_def split: if_splits)
    then have "finite {j. rb_list (incoming (socks (upd_sock i f s) j)) \<noteq> []}"
      by (rule finite_subset) (use inv in \<open>simp add: own_inv_def own_ok_def\<close>)
    then show ?thesis using inv wf by (auto simp: own_inv_def own_ok_def upd_sock_def)
  qed
  moreover have "pool_view (upd_sock i f s) = pool_view s" by (simp add: pool_view_def upd_sock_def)
  ultimately show ?thesis using own_inv_move [OF inv] by blast
qed

section \<open>The reassembly table\<close>

lemma frag_sum_upd:
  assumes "i < 4"
  shows "frag_sum (fcs(i := fc)) + fc_held (fcs i) = frag_sum fcs + fc_held fc"
proof -
  define S where "S = {..<4 :: nat} - {i}"
  have fin: "finite {..<4 :: nat}" and m: "i \<in> {..<4}" using assms by simp_all
  have "(\<Sum>j\<in>S. fc_held ((fcs(i := fc)) j)) = (\<Sum>j\<in>S. fc_held (fcs j))"
    by (rule sum.cong) (auto simp: S_def)
  then have "frag_sum (fcs(i := fc)) = fc_held fc + (\<Sum>j\<in>S. fc_held (fcs j))"
    unfolding frag_sum_def sum.remove [OF fin m] S_def by (simp only: fun_upd_same)
  moreover have "frag_sum fcs = fc_held (fcs i) + (\<Sum>j\<in>S. fc_held (fcs j))"
    unfolding frag_sum_def S_def by (rule sum.remove [OF fin m])
  ultimately show ?thesis by (simp only: ac_simps)
qed

lemma own_inv_frag:
  fixes s :: "'a tcp_state_scheme"
  assumes inv: "own_inv (X + Y) c s" and i: "i < 4"
    and eq: "fc_held (f (fragControl s i)) + Z = fc_held (fragControl s i) + Y"
  shows "own_inv (X + Z) c (upd_fc i f s)"
proof -
  let ?fcs = "fragControl s"
  have e: "frag_sum (?fcs(i := f (?fcs i))) + fc_held (?fcs i) = frag_sum ?fcs + fc_held (f (?fcs i))"
    by (rule frag_sum_upd [OF i])
  have m: "frag_sum (?fcs(i := f (?fcs i))) + Z = frag_sum ?fcs + Y" by (rule mset_swap [OF e eq])
  have "own_total (upd_fc i f s) + Z = own_total s + Y"
    unfolding own_total_def upd_fc_def using mset_shift(3) [OF m] by simp
  moreover have "own_ok (upd_fc i f s)" using inv by (simp add: own_inv_def own_ok_def upd_fc_def)
  moreover have "pool_view (upd_fc i f s) = pool_view s" by (simp add: pool_view_def upd_fc_def)
  ultimately show ?thesis using own_inv_move [OF inv] by blast
qed

lemma own_inv_upd [simp]:
  fixes s :: "'a tcp_state_scheme"
  shows "own_inv X c (s\<lparr>fragsInReassembly := n\<rparr>) = own_inv X c s" "own_inv X c (s\<lparr>Ip_tooManyInFlight := n32\<rparr>) = own_inv X c s"
    "own_inv X c (s\<lparr>Ip_payloadTooBig := n32\<rparr>) = own_inv X c s" "own_inv X c (s\<lparr>Ip_goodReassemblies := n32\<rparr>) = own_inv X c s"
    "own_inv X c (s\<lparr>Ip_notEnoughSlots := n32\<rparr>) = own_inv X c s" "own_inv X c (s\<lparr>Ip_timeoutReassemblies := n32\<rparr>) = own_inv X c s"
    "own_inv X c (s\<lparr>pkt_mem := pm\<rparr>) = own_inv X c s" "own_inv X c (s\<lparr>BigPacketFreeIndex := n16\<rparr>) = own_inv X c s"
  by (rule own_inv_cong, simp add: own_view_def pool_view_def)+

lemma free_all:
  fixes s :: "'a tcp_state_scheme"
  shows "own_inv (X + mset (map p js)) c s \<Longrightarrow> own_inv X c (fold (\<lambda>j. Buffer_free (p j)) js s)"
proof (induction js arbitrary: s)
  case (Cons j js)
  then have "own_inv ((X + mset (map p js)) + {#p j#}) c s" by simp
  from Cons.IH [OF own_inv_free [OF this]] show ?case by simp
qed simp

lemma Buffer_free_frag [simp]: "fragControl (Buffer_free b s) = fragControl s"
  by (simp add: Buffer_free_def freeBigPacket_def)

lemma Buffer_free_upd_fc: "Buffer_free b (upd_fc i f s) = upd_fc i f (Buffer_free b s)"
  by (simp add: upd_fc_def Buffer_free_def freeBigPacket_def)

lemma free_all_fields:
  "fragControl (fold (\<lambda>j. Buffer_free (p j)) js s) = fragControl s"
  by (induction js arbitrary: s) simp_all

lemma free_all_upd_fc:
  "fold (\<lambda>j. Buffer_free (p j)) js (upd_fc i f s) = upd_fc i f (fold (\<lambda>j. Buffer_free (p j)) js s)"
  by (induction js arbitrary: s) (simp_all add: Buffer_free_upd_fc)

lemma kill_own:
  fixes s :: "'a tcp_state_scheme"
  assumes "own_inv X c s" and "i < 4" and "inUse (fragControl s i)"
  shows "own_inv X c (killFragmentControl i s)"
proof -
  let ?fc = "fragControl s i" and ?f = "\<lambda>fc :: IpFragControl_t. fc\<lparr>fragsRcvd := 0, inUse := False\<rparr>"
  let ?M = "mset (map (fc_packets ?fc) [0..<unat (fragsRcvd ?fc)])"
  have "own_inv (X + {#}) c s" using assms(1) by simp
  then have "own_inv (X + ?M) c (upd_fc i ?f s)"
    by (rule own_inv_frag [OF _ assms(2)]) (simp add: fc_held_def assms(3))
  from free_all [OF this] show ?thesis
    by (simp add: killFragmentControl_def Let_def free_all_upd_fc)
qed

text \<open>No reassembly holds more than nine fragments between two packets.\<close>

definition frag_few :: "'a ip_state_scheme \<Rightarrow> bool" where
  "frag_few s \<longleftrightarrow> (\<forall>i<4. inUse (fragControl s i) \<longrightarrow> unat (fragsRcvd (fragControl s i)) < 10)"

lemma kill_fragControl:
  "fragControl (killFragmentControl i s) = (fragControl s)(i := (fragControl s i)\<lparr>fragsRcvd := 0, inUse := False\<rparr>)"
  by (simp add: killFragmentControl_def Let_def upd_fc_def free_all_fields)

lemma insert_held:
  assumes "inUse fc" and "unat (fragsRcvd fc) < 10" and "pos \<le> unat (fragsRcvd fc)"
  shows "fc_held (frag_insert pos off len p fc) = fc_held fc + {#p#}"
    and "unat (fragsRcvd (frag_insert pos off len p fc)) = Suc (unat (fragsRcvd fc))"
    and "inUse (frag_insert pos off len p fc)"
proof -
  let ?n = "unat (fragsRcvd fc)" and ?a = "fc_packets fc"
  let ?b = "(slide_up pos ?n ?a)(pos := p)"
  have n: "unat (fragsRcvd fc + 1) = Suc ?n" using assms(2) by (simp add: u8_Suc)
  then show "unat (fragsRcvd (frag_insert pos off len p fc)) = Suc ?n" by (simp add: frag_insert_def Let_def)
  show "inUse (frag_insert pos off len p fc)" using assms(1) by (simp add: frag_insert_def Let_def)
  have b: "?b j = (if j < pos then ?a j else if j = pos then p else ?a (j - 1))" if "j \<le> ?n" for j
    using that assms(3) by (auto simp: slide_up_eq)
  have "map ?b [0..<Suc ?n] = map ?b [0..<pos] @ ?b pos # map ?b [Suc pos..<Suc ?n]"
    using assms(3) by (metis append_Cons append_Nil le_imp_less_Suc less_imp_le_nat list.simps(9) map_append upt_add_eq_append upt_conv_Cons zero_le le_add_diff_inverse add_0)
  also have "map ?b [0..<pos] = map ?a [0..<pos]" using assms(3) by (auto simp: slide_up_eq)
  also have "map ?b [Suc pos..<Suc ?n] = map ?a [pos..<?n]"
    unfolding map_Suc_upt [symmetric] map_map by (rule map_cong) (auto simp: b simp del: fun_upd_apply)
  also have "?b pos = p" by simp
  finally have l: "map ?b [0..<Suc ?n] = map ?a [0..<pos] @ p # map ?a [pos..<?n]" .
  have "mset (map ?b [0..<Suc ?n]) = mset (map ?a [0..<pos]) + {#p#} + mset (map ?a [pos..<?n])"
    unfolding l by simp
  moreover have "mset (map ?a [0..<?n]) = mset (map ?a [0..<pos]) + mset (map ?a [pos..<?n])"
    using upt_add_eq_append [of 0 pos "?n - pos" ] assms(3) by simp
  ultimately show "fc_held (frag_insert pos off len p fc) = fc_held fc + {#p#}"
    using assms(1) n by (simp add: fc_held_def frag_insert_def Let_def del: fun_upd_apply upt_Suc)
qed

definition opt_mset :: "bufref option \<Rightarrow> bufref multiset" where
  "opt_mset r = (case r of None \<Rightarrow> {#} | Some b \<Rightarrow> {#b#})"

lemma opt_mset_simps [simp]: "opt_mset None = {#}" "opt_mset (Some b) = {#b#}"
  by (simp_all add: opt_mset_def)

lemma frag_few_upd [simp]:
  "frag_few (Buffer_free b s) = frag_few s" "frag_few (s\<lparr>fragsInReassembly := n\<rparr>) = frag_few s"
  "frag_few (s\<lparr>Ip_tooManyInFlight := n32\<rparr>) = frag_few s" "frag_few (s\<lparr>Ip_payloadTooBig := n32\<rparr>) = frag_few s"
  "frag_few (s\<lparr>Ip_goodReassemblies := n32\<rparr>) = frag_few s" "frag_few (s\<lparr>Ip_notEnoughSlots := n32\<rparr>) = frag_few s"
  "frag_few (s\<lparr>Ip_timeoutReassemblies := n32\<rparr>) = frag_few s"
  by (simp_all add: frag_few_def)

lemma frag_few_kill: "frag_few s \<Longrightarrow> frag_few (killFragmentControl i s)"
  by (simp add: frag_few_def kill_fragControl)

lemma frag_first_own:
  fixes s :: "'a tcp_state_scheme"
  assumes "own_inv (X + {#p#}) c s" and "frag_few s"
  shows "own_inv X c (frag_first ip p s) \<and> frag_few (frag_first ip p s)"
proof (cases "findOpenFragControl s")
  case None
  then show ?thesis using assms own_inv_free [of X p c "s\<lparr>Ip_tooManyInFlight := Ip_tooManyInFlight s + 1\<rparr>"]
    by (simp add: frag_first_def)
next
  case (Some i)
  then have i: "i < 4" "\<not> inUse (fragControl s i)"
    by (auto simp: findOpenFragControl_def cfg_defs find_Some_iff)
  show ?thesis
  proof (cases "IP_BIGPACKET_SIZE < fragmentOffset ip + fragmentLength ip")
    case True
    then show ?thesis using assms Some own_inv_free [of X p c "s\<lparr>Ip_payloadTooBig := Ip_payloadTooBig s + 1\<rparr>"]
      by (simp add: frag_first_def)
  next
    case False
    define f where "f = (\<lambda>fc :: IpFragControl_t. fc\<lparr>inUse := True, fragsRcvd := 1, lastFragRcvd := isLastFragment ip,
                     fc_srcAddr := ip_src ip, fc_ident := ip_ident ip,
                     fc_startTime := Timer_CurrentTicks s,
                     fc_offsets := (fc_offsets fc)(0 := fragmentOffset ip),
                     fc_lengths := (fc_lengths fc)(0 := fragmentLength ip),
                     fc_packets := (fc_packets fc)(0 := p)\<rparr>)"
    have e: "frag_first ip p s = upd_fc i f (s\<lparr>fragsInReassembly := fragsInReassembly s + 1\<rparr>)"
      using False Some by (simp add: frag_first_def f_def)
    have "own_inv (X + {#}) c (upd_fc i f (s\<lparr>fragsInReassembly := fragsInReassembly s + 1\<rparr>))"
      by (rule own_inv_frag [of X "{#p#}"]) (use assms i in \<open>simp_all add: fc_held_def f_def\<close>)
    moreover have "frag_few (upd_fc i f (s\<lparr>fragsInReassembly := fragsInReassembly s + 1\<rparr>))"
      using assms(2) by (simp add: frag_few_def upd_fc_def f_def)
    ultimately show ?thesis using e by simp
  qed
qed

lemma makeBigPacket_own:
  fixes s :: "'a tcp_state_scheme"
  assumes "own_inv X c s" and "i < 4" and "inUse (fragControl s i)" and "makeBigPacket i s = (s', r)"
  shows "own_inv (X + opt_mset r) c s'"
    and "fragControl s' = (fragControl s)(i := (fragControl s i)\<lparr>fragsRcvd := 0, inUse := False\<rparr>)"
proof -
  have "own_inv (X + opt_mset r) c s' \<and>
      fragControl s' = (fragControl s)(i := (fragControl s i)\<lparr>fragsRcvd := 0, inUse := False\<rparr>)"
  proof (cases "BigPacketFreeIndex s = 0")
    case True
    then show ?thesis using assms kill_own [OF assms(1-3)]
      by (auto simp: makeBigPacket_def getBigPacket_def kill_fragControl)
  next
    case False
    define bp where "bp = BigPacketFreeList s (unat (BigPacketFreeIndex s - 1))"
    have big: "isIpBigPacket bp" using assms(1) by (simp add: bp_def own_inv_def own_ok_def)
    obtain m where e: "makeBigPacket i s =
        ((killFragmentControl i (s\<lparr>BigPacketFreeIndex := BigPacketFreeIndex s - 1, pkt_mem := (pkt_mem s)(bp := m)\<rparr>))
           \<lparr>Ip_goodReassemblies := Ip_goodReassemblies (killFragmentControl i
              (s\<lparr>BigPacketFreeIndex := BigPacketFreeIndex s - 1, pkt_mem := (pkt_mem s)(bp := m)\<rparr>)) + 1\<rparr>, Some bp)"
      using False by (auto simp: makeBigPacket_def getBigPacket_def Let_def split_beta bp_def)
    let ?t = "s\<lparr>BigPacketFreeIndex := BigPacketFreeIndex s - 1, pkt_mem := (pkt_mem s)(bp := m)\<rparr>"
    have "own_inv X c (killFragmentControl i ?t)" by (rule kill_own) (use assms in simp_all)
    then have "own_inv (X + {#bp#}) c (killFragmentControl i ?t)" using own_inv_big [OF big] by blast
    then show ?thesis using assms(4) by (auto simp: e kill_fragControl)
  qed
  then show "own_inv (X + opt_mset r) c s'"
    "fragControl s' = (fragControl s)(i := (fragControl s i)\<lparr>fragsRcvd := 0, inUse := False\<rparr>)" by simp_all
qed

lemma frag_more_own:
  fixes s :: "'a tcp_state_scheme"
  assumes inv: "own_inv (X + {#p#}) c s" and few: "frag_few s" and i: "i < 4" "inUse (fragControl s i)"
    and r: "frag_more i ip p s = (s', r)"
  shows "own_inv (X + opt_mset r) c s'" and "frag_few s'"
proof -
  let ?off = "fragmentOffset ip" and ?len = "fragmentLength ip"
  define t where "t = (if isLastFragment ip then upd_fc i (\<lambda>fc. fc\<lparr>lastFragRcvd := True\<rparr>) s else s)"
  define fc where "fc = fragControl t i"
  define pos where "pos = frag_insertPos fc ?off"
  have held: "own_inv Y c (upd_fc i (\<lambda>fc. fc\<lparr>lastFragRcvd := True\<rparr>) s)" if "own_inv Y c s" for Y
    using own_inv_frag [of Y "{#}" c s i "\<lambda>fc. fc\<lparr>lastFragRcvd := True\<rparr>" "{#}"] that i by (simp add: fc_held_def)
  have t: "own_inv (X + {#p#}) c t" "frag_few t" "inUse fc" "unat (fragsRcvd fc) < 10"
    using inv few i held by (auto simp: t_def fc_def frag_few_def upd_fc_def)
  have tf: "fragControl t i = fc" by (simp add: fc_def)
  have pos: "pos \<le> unat (fragsRcvd fc)"
    by (auto simp: pos_def frag_insertPos_def find_Some_iff split: option.split)
  note kill = kill_own [OF own_inv_free [OF t(1)] i(1)]
  have "own_inv (X + opt_mset r) c s' \<and> frag_few s'"
  proof (cases "IP_BIGPACKET_SIZE < ?off + ?len")
    case True
    have "own_inv X c (Buffer_free p (s\<lparr>Ip_payloadTooBig := Ip_payloadTooBig s + 1\<rparr>))"
      by (rule own_inv_free) (use inv in simp)
    then have "own_inv X c (killFragmentControl i (Buffer_free p (s\<lparr>Ip_payloadTooBig := Ip_payloadTooBig s + 1\<rparr>)))"
      by (rule kill_own [OF _ i(1)]) (use i(2) in simp)
    then show ?thesis using True r few by (auto simp: frag_more_def Let_def frag_few_kill)
  next
    case small: False
    define D where "D =
           (let s = upd_fc i (frag_insert pos ?off ?len p) t;
                fc = fragControl s i
            in if lastFragRcvd fc \<and> frag_contiguous fc [0..<unat (fragsRcvd fc)] 0
               then makeBigPacket i s
               else if fragsRcvd fc = IP_MAX_FRAGS_PER_PACKET
               then (let s = killFragmentControl i s
                     in (s\<lparr>Ip_notEnoughSlots := Ip_notEnoughSlots s + 1\<rparr>, None))
               else (s, None))"
    have e: "frag_more i ip p s =
        (if pos < unat (fragsRcvd fc) \<and> ?off = fc_offsets fc pos \<and> ?len = fc_lengths fc pos then (Buffer_free p t, None)
         else if pos < unat (fragsRcvd fc) \<and> fc_offsets fc pos < ?off + ?len
         then (killFragmentControl i (Buffer_free p t), None)
         else D)"
      using small by (simp only: frag_more_def Let_def t_def [symmetric] fc_def [symmetric] pos_def [symmetric] if_False D_def)
    consider "s' = Buffer_free p t" "r = None" | "s' = killFragmentControl i (Buffer_free p t)" "r = None"
      | "D = (s', r)"
      using e [unfolded r] by (simp only: split: if_splits) simp_all
    then show ?thesis
    proof cases
      case 1
      then show ?thesis using own_inv_free [OF t(1)] t(2) by simp
    next
      case 2
      then show ?thesis using kill t by (simp add: fc_def frag_few_kill)
    next
      case 3
      define u where "u = upd_fc i (frag_insert pos ?off ?len p) t"
      note ins = insert_held [OF t(3,4) pos, of ?off ?len p]
      have ui: "fragControl u i = frag_insert pos ?off ?len p fc" by (simp add: u_def upd_fc_def fc_def)
      have "own_inv (X + {#}) c u" unfolding u_def
        by (rule own_inv_frag [OF t(1) i(1)]) (simp add: ins(1) tf)
      then have u: "own_inv X c u" "inUse (fragControl u i)" using ins(3) ui by simp_all
      have others: "fragControl u j = fragControl t j" if "j \<noteq> i" for j using that by (simp add: u_def upd_fc_def)
      have killed: "frag_few v" if "fragControl v = (fragControl u)(i := (fragControl u i)\<lparr>fragsRcvd := 0, inUse := False\<rparr>)" for v
        using t(2) others that by (auto simp: frag_few_def)
      show ?thesis
      proof (cases "lastFragRcvd (fragControl u i) \<and> frag_contiguous (fragControl u i) [0..<unat (fragsRcvd (fragControl u i))] 0")
        case True
        then have "makeBigPacket i u = (s', r)" using 3 by (simp add: D_def u_def [symmetric] Let_def)
        from makeBigPacket_own [OF u(1) i(1) u(2) this] show ?thesis using killed by blast
      next
        case nd: False
        show ?thesis
        proof (cases "fragsRcvd (fragControl u i) = IP_MAX_FRAGS_PER_PACKET")
          case True
          then show ?thesis using 3 nd kill_own [OF u(1) i(1) u(2)] killed [OF kill_fragControl]
            by (auto simp: D_def u_def [symmetric] Let_def)
        next
          case False
          then have s': "s' = u" "r = None" using 3 nd by (auto simp: D_def u_def [symmetric] Let_def)
          have "unat (fragsRcvd (fragControl u i)) \<noteq> 10"
            using False by (auto simp: cfg_defs word_unat_eq_iff)
          then have "unat (fragsRcvd (fragControl u i)) < 10" using ins(2) t(4) ui by simp
          then have "frag_few u" using t(2) others unfolding frag_few_def by (metis)
          then show ?thesis using u s' by simp
        qed
      qed
    qed
  qed
  then show "own_inv (X + opt_mset r) c s'" "frag_few s'" by simp_all
qed

lemma processFragment_own:
  fixes s :: "'a tcp_state_scheme"
  assumes "own_inv (X + {#p#}) c s" and "frag_few s" and "processFragment ip p s = (s', r)"
  shows "own_inv (X + opt_mset r) c s'" and "frag_few s'"
proof -
  have "own_inv (X + opt_mset r) c s' \<and> frag_few s'"
  proof (cases "findFragControl (ip_src ip) (ip_ident ip) s")
    case None
    then show ?thesis using frag_first_own [OF assms(1,2), of ip] assms(3) by (auto simp: processFragment_def)
  next
    case (Some i)
    then have "i < 4" "inUse (fragControl s i)"
      by (auto simp: findFragControl_def cfg_defs find_Some_iff)
    moreover have "frag_more i ip p s = (s', r)" using Some assms(3) by (simp add: processFragment_def)
    ultimately show ?thesis using frag_more_own [OF assms(1,2)] by blast
  qed
  then show "own_inv (X + opt_mset r) c s'" "frag_few s'" by simp_all
qed

lemma purge_own:
  fixes s :: "'a tcp_state_scheme"
  assumes "own_inv X c s" and "frag_few s"
  shows "own_inv X c (ip_frags_check_overdue s) \<and> frag_few (ip_frags_check_overdue s)"
proof -
  have slot: "own_inv X c (purge_slot i t) \<and> frag_few (purge_slot i t)"
    if "own_inv X c t" "frag_few t" "i < 4" for i and t :: "'a tcp_state_scheme"
    using that kill_own [OF that(1,3)] by (auto simp: purge_slot_def Let_def frag_few_kill)
  have "own_inv X c (fold purge_slot is t) \<and> frag_few (fold purge_slot is t)"
    if "own_inv X c t" "frag_few t" "\<forall>i\<in>set is. i < 4" for "is" and t :: "'a tcp_state_scheme"
    using that slot by (induction "is" arbitrary: t) simp_all
  from this [of s "[0..<4]"] show ?thesis
    using assms by (simp add: ip_frags_check_overdue_def purgeOverdue_def cfg_defs)
qed

section \<open>Operations that move no buffer\<close>

text \<open>The tables of handlers and everything above TCP.\<close>

definition rest_view :: "'a tcp_state_scheme \<Rightarrow> (nat \<Rightarrow> handler) \<times> handler option \<times> bool \<times> 'a" where
  "rest_view s = (Packet_EtherTypeHandler s, Packet_typeUnhandled s, cfg_TCP_LISTEN s, tcp_state.more s)"

definition full_view ::
    "'a tcp_state_scheme \<Rightarrow> (((nat \<Rightarrow> bufref) \<times> u8 \<times> u8 \<times> (nat \<Rightarrow> bufref) \<times> u8 \<times> bufref) \<times> (nat \<Rightarrow> bufref) \<times>
       (nat \<Rightarrow> IpFragControl_t) \<times> (nat \<Rightarrow> bufref RingBuffer)) \<times> (nat \<Rightarrow> handler) \<times> handler option \<times> bool \<times> 'a" where
  "full_view s = (own_view s, rest_view s)"

lemmas view_defs = full_view_def own_view_def rest_view_def pool_view_def

definition flow :: "bufref multiset \<Rightarrow> bufref option \<Rightarrow> (nat \<Rightarrow> handler) \<times> handler option \<times> bool \<times> 'a \<Rightarrow>
    'a tcp_state_scheme \<Rightarrow> bool" where
  "flow X c r s \<longleftrightarrow> own_inv X c s \<and> frag_few s \<and> rest_view s = r"

lemma flow_cong: "full_view s' = full_view s \<Longrightarrow> flow X c r s' = flow X c r s"
proof -
  assume v: "full_view s' = full_view s"
  then have o: "own_view s' = own_view s" and r: "rest_view s' = rest_view s" by (simp_all add: full_view_def)
  have f: "fragControl s' = fragControl s" using v by (simp add: view_defs)
  show ?thesis using own_inv_cong [OF o, of X c] r f by (simp add: flow_def frag_few_def)
qed

lemma full_view_upd [simp]:
  fixes s :: "'a tcp_state_scheme"
  shows "full_view (s\<lparr>Pending_Outgoing := n16\<rparr>) = full_view s" "full_view (s\<lparr>Pending_Sent := n16\<rparr>) = full_view s"
    "full_view (s\<lparr>Packets_Retransmitted := n32\<rparr>) = full_view s" "full_view (s\<lparr>SentZeroWindowProbe := n32\<rparr>) = full_view s"
    "full_view (s\<lparr>Packets_SeqOrAckError := n32\<rparr>) = full_view s" "full_view (s\<lparr>Packets_DroppedNoSpace := n32\<rparr>) = full_view s"
    "full_view (s\<lparr>Tcp_ChecksumErrors := n32\<rparr>) = full_view s" "full_view (s\<lparr>Tcp_Packets_Received := n32\<rparr>) = full_view s"
    "full_view (s\<lparr>pendingAccepts := n8\<rparr>) = full_view s" "full_view (s\<lparr>pkt_mem := pm\<rparr>) = full_view s"
  by (simp_all add: view_defs)

lemma full_view_upd2 [simp]:
  fixes s :: "'a tcp_state_scheme"
  shows "full_view (s\<lparr>fragsInReassembly := n8\<rparr>) = full_view s" "full_view (s\<lparr>Ip_timeoutReassemblies := n32\<rparr>) = full_view s"
    "full_view (s\<lparr>Ip_badChecksum := n32\<rparr>) = full_view s" "full_view (s\<lparr>Ip_fragsReceived := n32\<rparr>) = full_view s"
    "full_view (s\<lparr>Timer_CurrentTicks := n32\<rparr>) = full_view s" "full_view (s\<lparr>pending := pd\<rparr>) = full_view s"
    "full_view (s\<lparr>pendingEntries := n16\<rparr>) = full_view s" "full_view (s\<lparr>Arp_RequestsReceived := n32\<rparr>) = full_view s"
    "full_view (s\<lparr>Arp_RepliesReceived := n32\<rparr>) = full_view s" "full_view (s\<lparr>Arp_CacheModifiedCount := n32\<rparr>) = full_view s"
    "full_view (s\<lparr>arpTable := at\<rparr>) = full_view s"  "full_view (s\<lparr>entries := e16\<rparr>) = full_view s"
    "full_view (s\<lparr>Arp_CacheEvictions := n32\<rparr>) = full_view s"
  by (simp_all add: view_defs)

lemma full_view_upd3 [simp]:
  fixes s :: "'a tcp_state_scheme"
  shows "(\<And>k. incoming (f k) = incoming k) \<Longrightarrow> full_view (upd_sock j f s) = full_view s"
    "full_view (upd_buf b g s) = full_view s" "full_view (free p s) = full_view s"
    "full_view (returnXmitBuf b s) = full_view s" "full_view (fst (freeSocket j s)) = full_view s"
    "full_view (heap_write h o' xs s) = full_view s"
  by (simp_all add: view_defs upd_sock_def upd_buf_def free_def returnXmitBuf_def freeSocket_def heap_write_def fun_eq_iff)

lemma full_view_active [simp]:
  fixes s :: "'a tcp_state_scheme"
  shows "full_view (makeInactive j s) = full_view s" "full_view (makeActive j s) = full_view s"
  by (simp_all add: view_defs makeInactive_def makeActive_def Let_def split: option.split)

lemma full_view_sent:
  fixes s :: "'a tcp_state_scheme"
  assumes "quiet s' = quiet s" and "\<And>j. sk_rest (socks s' j) = sk_rest (socks s j)"
  shows "full_view s' = full_view s"
proof -
  have "incoming (socks s' j) = incoming (socks s j)" for j using sk_rest_fields [OF assms(2)] by blast
  then have "(\<lambda>i. incoming (socks s' i)) = (\<lambda>i. incoming (socks s i))" by (intro ext)
  moreover have "pool_view s' = pool_view s"
    using arg_cong [OF assms(1), of pool_view] by (simp add: pool_view_def quiet_def)
  moreover have "BigPacketFreeList s' = BigPacketFreeList s" "fragControl s' = fragControl s"
    "Packet_EtherTypeHandler s' = Packet_EtherTypeHandler s" "Packet_typeUnhandled s' = Packet_typeUnhandled s"
    "cfg_TCP_LISTEN s' = cfg_TCP_LISTEN s" "tcp_state.more s' = tcp_state.more s"
    using arg_cong [OF assms(1), of BigPacketFreeList] arg_cong [OF assms(1), of fragControl]
      arg_cong [OF assms(1), of Packet_EtherTypeHandler] arg_cong [OF assms(1), of Packet_typeUnhandled]
      arg_cong [OF assms(1), of cfg_TCP_LISTEN] arg_cong [OF assms(1), of tcp_state.more]
    by (simp_all add: quiet_def)
  ultimately show ?thesis by (simp add: full_view_def own_view_def rest_view_def)
qed

lemma full_view_sends [simp]:
  "full_view (fst (sendPacket j b s)) = full_view s" "full_view (resendPacket j b s) = full_view s"
  "full_view (sendPureAck j p s) = full_view s" "full_view (sendResetPacket ip tcp n s) = full_view s"
  "full_view (fst (setDestEth d s)) = full_view s"
proof -
  have send: "full_view (fst (sendPacket j c t)) = full_view t" for c and t :: "'a tcp_state_scheme"
    using sf_sendPacket [of j c t] by (intro full_view_sent) (auto simp: sends_frame_def)
  then show "full_view (fst (sendPacket j b s)) = full_view s" .
  show "full_view (resendPacket j b s) = full_view s" by (intro full_view_sent) simp_all
  show "full_view (sendPureAck j p s) = full_view s" by (simp add: sendPureAck_def Let_def send)
  show "full_view (fst (setDestEth d s)) = full_view s" by (intro full_view_sent) simp_all
  have q: "quiet (sendResetPacket ip tcp n s) = quiet s"
    by (auto simp: sendResetPacket_def Let_def split_beta split: option.split)
  then show "full_view (sendResetPacket ip tcp n s) = full_view s" by (intro full_view_sent) simp_all
qed

lemma full_view_enqueue [simp]: "full_view (fst (enqueue j b s)) = full_view s"
  by (auto simp: enqueue_def drop_queued_ack_def Let_def split_beta split: option.split)

lemma full_view_removeSent [simp]: "full_view (removeSentPackets j t s) = full_view s"
proof (induction j t s rule: removeSentPackets.induct)
  case (1 i t s)
  have "full_view (fst (remove_step i t s)) = full_view s"
    by (auto simp: remove_step_def Let_def srtt_update_def split: option.split)
  then show ?case using 1 by (subst removeSentPackets.simps) simp
qed

lemma full_view_accept [simp]: "full_view (p2_accept j g s) = full_view s" "full_view (p2_error j s) = full_view s"
  by (simp_all add: p2_accept_def p2_error_def Let_def)

lemma full_view_MSS: "setMaxEnqueueSize j m tcp s = Some s' \<Longrightarrow> full_view s' = full_view s"
  by (auto simp: setMaxEnqueueSize_def split: option.splits)

lemma full_view_addToRcvBuf [simp]: "full_view (fst (addToRcvBuf j m d n s)) = full_view s"
  by (simp add: addToRcvBuf_def Let_def)

lemma full_view_drive_out_step [simp]: "full_view (fst (drive_out_step j s)) = full_view s"
proof (cases "rb_peek (outgoing (socks s j))")
  case (Some p)
  have d: "full_view (drive_sent j p t) = full_view t" for t :: "'a tcp_state_scheme"
    by (simp add: drive_sent_def Let_def)
  have "full_view (drive_probe j s) = full_view s" by (simp add: drive_probe_def Let_def)
  then show ?thesis
    using full_view_sends(1) [of j p s] by (cases "sendPacket j p s") (simp add: drive_out_step_def Some d)
qed (simp add: drive_out_step_def)

lemma full_view_drive_outgoing [simp]: "full_view (drive_outgoing j s) = full_view s"
proof (induction j s rule: drive_outgoing.induct)
  case (1 j s)
  then show ?case by (subst drive_outgoing.simps) simp
qed

section \<open>TCP\<close>

lemma flow_free: "flow (X + {#b#}) c r s \<Longrightarrow> flow X c r (Buffer_free b s)"
  using own_inv_free [of X b c s]
  by (simp add: flow_def) (simp add: rest_view_def Buffer_free_def freeBigPacket_def)

lemma flow_socket:
  assumes "flow (X + Y) c r s" and "rb_wf (incoming (f (socks s i)))"
    and "mset (rb_list (incoming (f (socks s i)))) + Z = mset (rb_list (incoming (socks s i))) + Y"
  shows "flow (X + Z) c r (upd_sock i f s)"
  using assms own_inv_socket [of X Y c s f i Z]
  by (simp add: flow_def) (simp add: rest_view_def upd_sock_def frag_few_def)

lemma flow_wf: "flow X c r s \<Longrightarrow> rb_wf (incoming (socks s i))"
  by (simp add: flow_def own_inv_def own_ok_def)

text \<open>Emptying the queue of received packets: the packets go to the caller, then to the pool.\<close>

lemma drain_flow:
  fixes s :: "'a tcp_state_scheme"
  shows "rb_wf q \<Longrightarrow> flow (X + mset (rb_list q)) c r s \<Longrightarrow> flow X c r (fst (drain Buffer_free q s))"
proof (induction "Buffer_free :: bufref \<Rightarrow> 'a tcp_state_scheme \<Rightarrow> 'a tcp_state_scheme" q s rule: drain.induct)
  case (1 q s)
  show ?case
  proof (cases "rb_list q")
    case Nil
    then have "rb_entries q = 0" using rb.size_eq [OF 1(2)] by (simp add: unat_eq_zero)
    then show ?thesis using 1 Nil by (subst drain.simps) simp
  next
    case (Cons p ps)
    note d = rb.deq_some [OF 1(2) Cons]
    have n: "rb_entries q \<noteq> 0" using rb.size_eq [OF 1(2)] Cons by auto
    have "flow (X + mset ps) c r (Buffer_free p s)"
      using 1(3) Cons by (intro flow_free) simp
    then show ?thesis using 1(1) [OF n] d n by (subst drain.simps) simp
  qed
qed

lemma drain_empties: "rb_wf q \<Longrightarrow> rb_wf (snd (drain put q s)) \<and> rb_list (snd (drain put q s)) = []"
proof (induction put q s rule: drain.induct)
  case (1 put q s)
  show ?case
  proof (cases "rb_entries q = 0")
    case True
    then have "rb_list q = []" by (simp add: rb_list_def)
    then show ?thesis using 1 True by (subst (1 2) drain.simps) simp
  next
    case False
    then show ?thesis using 1(1) [OF False rb.deq_wf [OF 1(2)]] by (subst (1 2) drain.simps) simp
  qed
qed

lemma drain_commutes:
  "(\<And>b t. put b (g t) = g (put b t)) \<Longrightarrow> drain put q (g s) = (g (fst (drain put q s)), snd (drain put q s))"
proof (induction put q s rule: drain.induct)
  case (1 put q s)
  show ?case
  proof (cases "rb_entries q = 0")
    case True
    then show ?thesis by (subst (1 2 3) drain.simps) simp
  next
    case False
    have "(case snd (rb_dequeue q) of None \<Rightarrow> g s | Some b \<Rightarrow> put b (g s)) =
        g (case snd (rb_dequeue q) of None \<Rightarrow> s | Some b \<Rightarrow> put b s)"
      by (simp add: 1(2) split: option.split)
    then show ?thesis using 1(1) [OF False 1(2)] False by (subst (1 2 3) drain.simps) simp
  qed
qed

lemma flow_drained:
  fixes s :: "'a tcp_state_scheme" and i :: nat
  assumes "flow X c r s"
  defines "d \<equiv> drain Buffer_free (incoming (socks s i)) s"
  shows "flow X c r (upd_sock i (\<lambda>k. k\<lparr>incoming := snd d\<rparr>) (fst d))"
proof -
  let ?q = "incoming (socks s i)" and ?g = "upd_sock i (\<lambda>k. k\<lparr>incoming := snd d\<rparr>) :: 'a tcp_state_scheme \<Rightarrow> _"
  have wf: "rb_wf ?q" using assms(1) by (rule flow_wf)
  have e: "rb_wf (snd d)" "rb_list (snd d) = []" using drain_empties [OF wf, of Buffer_free s] by (simp_all add: d_def)
  have "flow (X + mset (rb_list ?q)) c r (?g s)"
    by (rule flow_socket [where Y = "{#}"]) (use assms(1) e in simp_all)
  from drain_flow [OF wf this] have "flow X c r (fst (drain Buffer_free ?q (?g s)))" .
  moreover have "Buffer_free b (?g t) = ?g (Buffer_free b t)" for b t
    by (simp add: upd_sock_def Buffer_free_def freeBigPacket_def)
  ultimately show ?thesis by (subst (asm) drain_commutes) (simp_all add: d_def)
qed

lemma clearQueues_flow:
  fixes s :: "'a tcp_state_scheme"
  assumes "flow X c r s"
  shows "flow X c r (clearQueues i s)"
proof -
  have d: "full_view (fst (drain returnXmitBuf q t)) = full_view t" for q and t :: "'a tcp_state_scheme"
    by (rule drain_keeps) simp
  define t where "t = (let tmp = rb_entries (outgoing (socks s i));
          (s, r) = drain returnXmitBuf (outgoing (socks s i)) s;
          s = upd_sock i (\<lambda>k. k\<lparr>outgoing := r\<rparr>) s;
          s = s\<lparr>Pending_Outgoing := Pending_Outgoing s - tmp\<rparr>;
          tmp = rb_entries (sent (socks s i));
          (s, r) = drain returnXmitBuf (sent (socks s i)) s;
          s = upd_sock i (\<lambda>k. k\<lparr>sent := r\<rparr>) s
      in s\<lparr>Pending_Sent := Pending_Sent s - tmp\<rparr>)"
  have "full_view t = full_view s" by (simp add: t_def Let_def split_beta d)
  then have "flow X c r t" using assms flow_cong by blast
  from flow_drained [OF this, of i] show ?thesis
    by (simp add: clearQueues_def t_def Let_def split_beta)
qed

lemma destroy_flow:
  fixes s :: "'a tcp_state_scheme"
  assumes "flow X c r s"
  shows "flow X c r (destroy i s)"
proof -
  have "full_view (destroy i s) = full_view (clearQueues i s)"
    by (simp add: destroy_def Let_def split: option.split)
  then show ?thesis using clearQueues_flow [OF assms, of i] flow_cong by blast
qed

lemma processPacketData_flow:
  fixes s :: "'a tcp_state_scheme"
  assumes "flow (X + {#p#}) c r s" and "processPacketData i n p s = (s', fr, dead)"
  shows "flow (X + (if fr then {#p#} else {#})) c r s'" and "dead \<Longrightarrow> fr"
proof -
  let ?k = "socks s i"
  have "flow (X + (if fr then {#p#} else {#})) c r s' \<and> (dead \<longrightarrow> fr)"
  proof (cases "\<not> disableReads ?k \<and> rcvBuffer ?k = None \<and> rb_hasRoom (incoming ?k)")
    case True
    let ?f = "\<lambda>k :: TcpSocket. k\<lparr>ackNum := ackNum k + ucast n, incoming := fst (rb_enqueue p (incoming k))\<rparr>"
    have wf: "rb_wf (incoming ?k)" using assms(1) by (rule flow_wf)
    have "length (rb_list (incoming ?k)) < 4" using True rb.room_iff [OF wf] by simp
    note q = rb.enq_room [OF wf this, of p]
    have "flow (X + {#}) c r (upd_sock i ?f s)"
      by (rule flow_socket [OF assms(1)]) (use q in simp_all)
    then show ?thesis using True assms(2) by (auto simp: processPacketData_def Let_def)
  next
    case False
    then have "full_view s' = full_view s \<and> fr"
      using assms(2) full_view_addToRcvBuf
      by (auto simp: processPacketData_def Let_def split_beta split: if_splits)
    then show ?thesis using assms(1) flow_cong by (metis (full_types))
  qed
  then show "flow (X + (if fr then {#p#} else {#})) c r s'" "dead \<Longrightarrow> fr" by simp_all
qed

lemma p2_switch_flow:
  fixes s :: "'a tcp_state_scheme"
  assumes "flow X c r s"
  shows "flow X c r (fst (p2_switch i p g gen s))"
proof (cases "state (socks s i) = TCP_STATE_SYN_RECVED \<and> \<not> sg_ackIsCurrent g")
  case True
  then have "full_view (fst (p2_switch i p g gen s)) = full_view (clearQueues i s)"
    by (simp add: p2_switch_def Let_def)
  then show ?thesis using clearQueues_flow [OF assms, of i] flow_cong by blast
next
  case False
  then have "full_view (fst (p2_switch i p g gen s)) = full_view s"
    by (cases "state (socks s i)") (auto simp: p2_switch_def Let_def)
  then show ?thesis using assms flow_cong by blast
qed

lemma p2_tail_flow:
  fixes s :: "'a tcp_state_scheme"
  assumes "flow (X + (if fr then {#p#} else {#})) c r s"
  shows "flow X c r (p2_tail i p gen fr s)"
proof -
  define t where "t = (if gen then
                 fst (enqueue i (ConnectPacket i) (upd_buf (ConnectPacket i) (\<lambda>b. b\<lparr>b_dataLen := 0\<rparr>) s)) else s)"
  have "full_view t = full_view s" by (simp add: t_def)
  then have "flow (X + (if fr then {#p#} else {#})) c r t" using assms flow_cong by blast
  then show ?thesis using flow_free [of X p c r t]
    by (cases fr) (simp_all only: p2_tail_def Let_def t_def [symmetric] if_True if_False simp_thms add_0_right)
qed

lemma p2_good_flow:
  fixes s :: "'a tcp_state_scheme"
  assumes "flow (X + {#p#}) c r s"
  shows "flow X c r (p2_good i p g s)"
proof -
  define t where "t = p2_accept i g s"
  have t: "flow (X + {#p#}) c r t" using assms full_view_accept(1) flow_cong unfolding t_def by blast
  obtain u fr dead where u: "(if sg_len g \<noteq> 0 then processPacketData i (sg_len g) p t else (t, True, False)) = (u, fr, dead)"
    by (metis prod_cases3)
  have f: "flow (X + (if fr then {#p#} else {#})) c r u \<and> (dead \<longrightarrow> fr)"
  proof (cases "sg_len g = 0")
    case True
    then show ?thesis using u t by simp
  next
    case False
    then show ?thesis using u processPacketData_flow [OF t, of i "sg_len g" u fr dead] by simp
  qed
  define v where "v = p2_switch i p g (sg_len g \<noteq> 0 \<and> rb_entries (outgoing (socks u i)) = 0) u"
  have "flow (X + (if fr then {#p#} else {#})) c r (fst v)" unfolding v_def using f by (intro p2_switch_flow) simp
  from p2_tail_flow [OF this, of i "snd v"] have tail: "flow X c r (p2_tail i p (snd v) fr (fst v))" .
  have "p2_good i p g s = (if dead then Buffer_free p u else p2_tail i p (snd v) fr (fst v))"
    by (simp only: p2_good_def Let_def t_def [symmetric] u split_beta fst_conv snd_conv v_def [symmetric])
  then show ?thesis using tail f flow_free [of X p c r u] by auto
qed

lemma p2_synchronized_flow:
  fixes s :: "'a tcp_state_scheme"
  assumes "flow (X + {#p#}) c r s"
  shows "flow X c r (p2_synchronized i p g s)"
proof -
  have tail: "flow X c r (p2_tail i p False True t)" if "flow (X + {#p#}) c r t" for t :: "'a tcp_state_scheme"
    using p2_tail_flow [of X True p c r t i False] that by simp
  define t where "t = (if seq_proper (socks s i) g then upd_sock i (\<lambda>k. k\<lparr>closeReason := 1\<rparr>) (destroy i s) else s)"
  have "full_view t = (if seq_proper (socks s i) g then full_view (destroy i s) else full_view s)" by (simp add: t_def)
  then have t: "flow (X + {#p#}) c r t" using assms destroy_flow [OF assms, of i] flow_cong by (metis (full_types))
  have e: "flow (X + {#p#}) c r (p2_error i s)" using assms full_view_accept(2) flow_cong by blast
  show ?thesis using tail [OF t] tail [OF e] p2_good_flow [OF assms]
    by (simp add: p2_synchronized_def Let_def t_def [symmetric])
qed

lemma p2_synsent_flow:
  fixes s :: "'a tcp_state_scheme"
  assumes "flow X c r s" and "p2_synsent i p g s = Some (s', gen)"
  shows "flow X c r s'"
proof -
  consider (syn) z where "full_view z = full_view s" "full_view s' = full_view (clearQueues i z)"
    | (rst) "full_view s' = full_view (destroy i s)" | (other) "full_view s' = full_view s"
  proof (cases "\<not> isRstSet g \<and> isSynSet g \<and> \<not> isAckSet g")
    case True
    then obtain z where z: "full_view z = full_view s"
      "full_view s' = full_view (clearQueues i (upd_sock i (\<lambda>k. k\<lparr>seqNum := seqNum k - 1\<rparr>) z))"
      using assms(2) by (auto simp: p2_synsent_def p2_synsent_syn_def Let_def dest!: full_view_MSS)
    show ?thesis by (rule that(1) [OF _ z(2)]) (simp add: z(1))
  next
    case False
    then have "full_view s' = full_view (destroy i s) \<or> full_view s' = full_view s"
      using assms(2)
      by (auto simp: p2_synsent_def p2_synsent_synack_def Let_def dest!: full_view_MSS split: if_splits)
    then show ?thesis using that(2,3) by blast
  qed
  then show ?thesis
  proof cases
    case (syn z)
    then have "flow X c r z" using assms(1) flow_cong by blast
    from clearQueues_flow [OF this, of i] show ?thesis using syn(2) flow_cong by blast
  next
    case rst
    then show ?thesis using destroy_flow [OF assms(1), of i] flow_cong by blast
  next
    case other
    then show ?thesis using assms(1) flow_cong by blast
  qed
qed

lemma process2_flow:
  fixes s :: "'a tcp_state_scheme"
  assumes "flow (X + {#p#}) c r s" and "\<not> cfg_TCP_LISTEN s" and "process2 p i s = Some s'"
  shows "flow X c r s'"
proof -
  define t where "t = upd_sock i (\<lambda>k. k\<lparr>lastActivity := Timer_CurrentTicks s\<rparr>) s"
  have "full_view t = full_view s" by (simp add: t_def)
  then have t: "flow (X + {#p#}) c r t" using assms(1) flow_cong by blast
  have cfg: "\<not> cfg_TCP_LISTEN t" using assms(2) by (simp add: t_def upd_sock_def)
  define g where "g = read_seg p i t"
  have e: "process2 p i s = (if state (socks t i) = TCP_STATE_SYN_SENT then
        map_option (\<lambda>(s, gen). p2_tail i p gen True s) (p2_synsent i p g t)
      else Some (p2_synchronized i p g t))"
    using cfg by (simp only: process2_def Let_def t_def [symmetric] g_def simp_thms if_False)
  show ?thesis
  proof (cases "state (socks t i) = TCP_STATE_SYN_SENT")
    case True
    then obtain u gen where u: "p2_synsent i p g t = Some (u, gen)" "s' = p2_tail i p gen True u"
      using assms(3) e by auto
    have "flow (X + (if True then {#p#} else {#})) c r u" using p2_synsent_flow [OF t u(1)] by simp
    then show ?thesis unfolding u(2) by (rule p2_tail_flow)
  next
    case False
    then show ?thesis using assms(3) e p2_synchronized_flow [OF t, of i g] by simp
  qed
qed

lemma Tcp_process_flow:
  fixes s :: "'a tcp_state_scheme"
  assumes "flow (X + {#p#}) c r s" and "\<not> cfg_TCP_LISTEN s" and "Tcp_process p s = Some s'"
  shows "flow X c r s'"
proof -
  have keep: "flow X c r (Buffer_free p t)" if "full_view t = full_view s" for t :: "'a tcp_state_scheme"
    using that assms(1) flow_cong by (intro flow_free) blast
  have u: "flow (X + {#p#}) c r (s\<lparr>Tcp_Packets_Received := n\<rparr>)" for n
    using assms(1) flow_cong [of "s\<lparr>Tcp_Packets_Received := n\<rparr>" s] by simp
  show ?thesis using assms(2,3) keep process2_flow [OF u]
    by (auto simp: Tcp_process_def Let_def split: if_splits option.splits)
qed

section \<open>The drivers\<close>

lemma drive_socket_flow:
  fixes s :: "'a tcp_state_scheme"
  assumes "flow X c r s"
  shows "flow X c r (fst (drive_socket i s))"
proof -
  have "full_view (fst (drive_socket i s)) = full_view s \<or> full_view (fst (drive_socket i s)) = full_view (destroy i s)"
    by (auto simp: drive_socket_def drive_retransmit_def Let_def split: option.split)
  then show ?thesis using assms destroy_flow [OF assms, of i] flow_cong by blast
qed

lemma drivePackets_flow:
  fixes s :: "'a tcp_state_scheme"
  assumes "flow X c r s"
  shows "flow X c r (drivePackets s)"
proof -
  have "flow X c r (drive_sockets js t)" if "flow X c r t" for js and t :: "'a tcp_state_scheme"
    using that
  proof (induction js arbitrary: t)
    case (Cons j js)
    then show ?case using drive_socket_flow [OF Cons.prems, of "socketTable t j"]
      by (cases "drive_socket (socketTable t j) t") simp
  qed simp
  then show ?thesis using assms by (simp add: drivePackets_def drivePackets2_def)
qed

end
