(* ===== verification/BufferSystem.thy ===== *)
theory BufferSystem
  imports BufferFlow
begin

text \<open>
  Every operation of the stack, up to the calls of the bot, moves the receive buffers between the
  places of the theory \<open>BufferFlow\<close>.  The contract of a handler, to dispose of the packet it is given, is the
  locale \<open>packet_consumer\<close>; the handlers of the layers are interpretations of it.
\<close>

section \<open>Below TCP\<close>

lemma full_view_net [simp]:
  "full_view (updateOrAddCache a ip s) = full_view s" "full_view (sendArpRequest2 ip s) = full_view s"
  "full_view (updateEntry i a s) = full_view s" "full_view (Packet_send_pkt f l s) = full_view s"
proof -
  show send: "full_view (Packet_send_pkt f l s) = full_view s" for f l and s :: "'a tcp_state_scheme"
    by (subst Packet_send_pkt_shape) (simp add: view_defs)
  show "full_view (sendArpRequest2 ip s) = full_view s" by (simp add: sendArpRequest2_def Let_def send)
  show "full_view (updateEntry i a s) = full_view s" by (simp add: updateEntry_def view_defs)
  show "full_view (updateOrAddCache a ip s) = full_view s"
    by (simp add: updateOrAddCache_def updateEntry_def Let_def view_defs split: option.split)
qed

lemma full_view_arp [simp]:
  "full_view (arp_request_in ah s) = full_view s" "full_view (arp_reply_in ah s) = full_view s"
  "full_view (driveArp s) = full_view s"
proof -
  have "full_view (t\<lparr>Arp_RepliesSent := n\<rparr>) = full_view t" for n and t :: "'a tcp_state_scheme" by (simp add: view_defs)
  then have "full_view (sendArpResponse ah t) = full_view t" for t :: "'a tcp_state_scheme"
    by (simp add: sendArpResponse_def Let_def)
  then show "full_view (arp_request_in ah s) = full_view s" by (simp add: arp_request_in_def Let_def)
  have known: "full_view (arp_update_known ip a t) = full_view t" for ip a and t :: "'a tcp_state_scheme"
    by (simp add: arp_update_known_def split: option.split)
  show "full_view (arp_reply_in ah s) = full_view s"
    by (simp add: arp_reply_in_def Let_def known split: option.split)
  have slot: "full_view (driveArp_slot j t) = full_view t" for j and t :: "'a tcp_state_scheme"
    by (simp add: driveArp_slot_def Let_def)
  show "full_view (driveArp s) = full_view s" by (simp add: driveArp_def driveArp2_def slot cfg_defs upt_rec)
qed

lemma processArp_flow:
  fixes s :: "'a tcp_state_scheme"
  assumes "flow (X + {#p#}) c r s"
  shows "flow X c r (processArp p n s)"
proof -
  define t where "t = (let ah = read_ArpHeader (pkt_mem s p) 14; op = ntohs (ah_operation ah)
    in if op = 1 then arp_request_in ah s else if op = 2 then arp_reply_in ah s else s)"
  have "full_view t = full_view s" by (simp add: t_def Let_def)
  then have "flow (X + {#p#}) c r t" using assms flow_cong by blast
  moreover have "processArp p n s = Buffer_free p t" by (simp add: processArp_def t_def Let_def)
  ultimately show ?thesis using flow_free by metis
qed

text \<open>The packet interrupt takes a buffer of the free stack and leaves it in the ring.\<close>

lemma interrupt_flow:
  fixes s :: "'a tcp_state_scheme"
  assumes "flow X None r s"
  shows "flow X None r (interrupt i s)"
proof -
  have inv: "buf_inv (pool_part (own_total s + X)) None s" and ok: "own_ok s" and few: "frag_few s" and r: "rest_view s = r"
    using assms by (simp_all add: flow_def own_inv_def)
  have keep: "flow X None r t" if "buf_inv (pool_part (own_total s + X)) None t" "socks t = socks s" "fragControl t = fragControl s"
      "BigPacketFreeList t = BigPacketFreeList s" "rest_view t = rest_view s" for t :: "'a tcp_state_scheme"
    using that ok few r by (simp add: flow_def own_inv_def own_total_def own_ok_def frag_few_def)
  show ?thesis
  proof (cases i)
    case Tick
    then show ?thesis using assms flow_cong [of "interrupt i s" s] by simp
  next
    case (Incoming xs)
    let ?n = "of_nat (length xs) :: u16"
    have rec: "socks (fst (receiver ax cx t)) = socks t \<and> fragControl (fst (receiver ax cx t)) = fragControl t \<and>
        BigPacketFreeList (fst (receiver ax cx t)) = BigPacketFreeList t \<and> rest_view (fst (receiver ax cx t)) = rest_view t"
      for ax cx and t :: "'a tcp_state_scheme" by (simp add: receiver_def Let_def rest_view_def)
    have cp: "socks (driver_copy b xs t) = socks t" "fragControl (driver_copy b xs t) = fragControl t"
        "BigPacketFreeList (driver_copy b xs t) = BigPacketFreeList t" "rest_view (driver_copy b xs t) = rest_view t"
        "buf_inv h c (driver_copy b xs t) = buf_inv h c t"
      for b h c and t :: "'a tcp_state_scheme"
      by (simp_all add: driver_copy_def rest_view_def buf_inv_def free_list_def ring_list_def)
    obtain t b where t: "receiver 0 ?n s = (t, b)" by force
    have "buf_inv (pool_part (own_total s + X)) b t" using buf_inv_receive [OF inv refl, of ?n] t by simp
    moreover have "socks t = socks s" "fragControl t = fragControl s" "BigPacketFreeList t = BigPacketFreeList s"
      "rest_view t = rest_view s" using rec [of 0 ?n s] t by simp_all
    moreover have "buf_inv h None (fst (receiver 1 ?n (driver_copy b xs t)))" if "buf_inv h (Some b) t" for h b
      using buf_inv_received [of h b "driver_copy b xs t" 1 ?n] that by (simp add: cp)
    ultimately show ?thesis
      using t Incoming by (cases b) (auto intro!: keep simp: cp rec)
  qed
qed

lemma interrupts_flow:
  fixes s :: "'a tcp_state_scheme"
  shows "flow X None r s \<Longrightarrow> flow X None r (interrupts is s)"
  unfolding interrupts_def by (induction "is" arbitrary: s) (simp_all add: interrupt_flow)

lemma dequeue_flow:
  fixes s :: "'a tcp_state_scheme"
  assumes "flow X c r s" and "Buffer_first s \<noteq> Buffer_next s"
  shows "flow (X + {#fst (snd (Packet_dequeue s))#}) c r (fst (Packet_dequeue s))"
proof -
  let ?t = "fst (Packet_dequeue s)" and ?b = "fst (snd (Packet_dequeue s))"
  have ok: "own_ok s" "frag_few s" "rest_view s = r" and inv: "buf_inv (pool_part (own_total s + X)) c s"
    using assms by (simp_all add: flow_def own_inv_def)
  note d = buf_inv_dequeue [OF inv assms(2)]
  then have "?b \<in># pool_all"
    by (metis (no_types, lifting) buf_inv_def add_mset_add_single union_iff union_single_eq_member)
  then have nb: "\<not> isIpBigPacket ?b" by (auto simp: pool_all_def isIpBigPacket_def)
  have t: "own_total ?t = own_total s" "own_ok ?t" "frag_few ?t" "rest_view ?t = r"
    using ok by (simp_all add: Packet_dequeue_def Let_def own_total_def own_ok_def frag_few_def rest_view_def)
  show ?thesis using d nb t by (simp add: flow_def own_inv_def)
qed

text \<open>Reassembly touches nothing else.\<close>

lemma rest_view_upd [simp]:
  "rest_view (Buffer_free b s) = rest_view s" "rest_view (upd_fc i f s) = rest_view s"
  "rest_view (s\<lparr>fragsInReassembly := n8\<rparr>) = rest_view s" "rest_view (s\<lparr>Ip_tooManyInFlight := n32\<rparr>) = rest_view s"
  "rest_view (s\<lparr>Ip_payloadTooBig := n32\<rparr>) = rest_view s" "rest_view (s\<lparr>Ip_goodReassemblies := n32\<rparr>) = rest_view s"
  "rest_view (s\<lparr>Ip_notEnoughSlots := n32\<rparr>) = rest_view s" "rest_view (s\<lparr>Ip_timeoutReassemblies := n32\<rparr>) = rest_view s"
  "rest_view (s\<lparr>BigPacketFreeIndex := n16\<rparr>) = rest_view s" "rest_view (s\<lparr>pkt_mem := pm\<rparr>) = rest_view s"
  by (simp_all add: rest_view_def Buffer_free_def freeBigPacket_def upd_fc_def)

lemma rest_view_kill [simp]: "rest_view (killFragmentControl i s) = rest_view s"
proof -
  have "rest_view (fold (\<lambda>j. Buffer_free (p j)) js t) = rest_view t" for p js and t :: "'a tcp_state_scheme"
    by (induction js arbitrary: t) simp_all
  then show ?thesis by (simp add: killFragmentControl_def Let_def)
qed

lemma rest_view_big: "rest_view (fst (makeBigPacket i s)) = rest_view s"
  by (simp add: makeBigPacket_def getBigPacket_def Let_def split_beta)

lemma rest_view_more: "rest_view (fst (frag_more i ip p s)) = rest_view s"
  by (simp add: frag_more_def Let_def rest_view_big)

lemma processFragment_flow:
  fixes s :: "'a tcp_state_scheme"
  assumes "flow (X + {#p#}) c r s" and "processFragment ip p s = (s', q)"
  shows "flow (X + opt_mset q) c r s'"
proof -
  have "rest_view (fst (processFragment ip p s)) = rest_view s"
    by (simp add: processFragment_def frag_first_def rest_view_more split: option.split)
  then show ?thesis using assms processFragment_own [of X p c s ip s' q] by (simp add: flow_def)
qed

lemma purge_flow:
  fixes s :: "'a tcp_state_scheme"
  assumes "flow X c r s"
  shows "flow X c r (ip_frags_check_overdue s)"
proof -
  have "rest_view (purge_slot j t) = rest_view t" for j and t :: "'a tcp_state_scheme"
    by (simp add: purge_slot_def Let_def)
  then have "rest_view (fold purge_slot js t) = rest_view t" for js and t :: "'a tcp_state_scheme"
    by (induction js arbitrary: t) simp_all
  then have "rest_view (ip_frags_check_overdue s) = rest_view s"
    by (simp add: ip_frags_check_overdue_def purgeOverdue_def)
  then show ?thesis using assms purge_own [of X c s] by (simp add: flow_def)
qed

section \<open>The layers above TCP\<close>

text \<open>
  The buffers are where they should be, no listening socket was compiled in, no echo callback is
  registered (it would share its packet with the reply), \<open>k\<close> UDP ports have a callback, and the values of
  the application's own variables are in \<open>A\<close>.
\<close>

definition sys_flow ::
    "bufref multiset \<Rightarrow> bufref option \<Rightarrow> u8 \<Rightarrow> 'a set \<Rightarrow> 'a dns_state_scheme \<Rightarrow> bool" where
  "sys_flow X c k A s \<longleftrightarrow> own_inv X c s \<and> frag_few s \<and> \<not> cfg_TCP_LISTEN s \<and> icmpCallback s = None \<and>
     callbackPorts s = k \<and> dns_state.more s \<in> A"

definition udp_part :: "'a dns_state_scheme \<Rightarrow> bool \<times> nat option \<times> u8 \<times> 'a" where
  "udp_part s = (cfg_TCP_LISTEN s, icmpCallback s, callbackPorts s, dns_state.more s)"

definition sys_view ::
    "'a dns_state_scheme \<Rightarrow> (((nat \<Rightarrow> bufref) \<times> u8 \<times> u8 \<times> (nat \<Rightarrow> bufref) \<times> u8 \<times> bufref) \<times> (nat \<Rightarrow> bufref) \<times>
       (nat \<Rightarrow> IpFragControl_t) \<times> (nat \<Rightarrow> bufref RingBuffer)) \<times> bool \<times> nat option \<times> u8 \<times> 'a" where
  "sys_view s = (own_view s, udp_part s)"

lemmas sys_view_defs = sys_view_def udp_part_def own_view_def pool_view_def

lemma sys_flow_cong: "sys_view s' = sys_view s \<Longrightarrow> sys_flow X c k A s' = sys_flow X c k A s"
proof -
  assume v: "sys_view s' = sys_view s"
  then have o: "own_view s' = own_view s" and u: "udp_part s' = udp_part s" by (simp_all add: sys_view_def)
  have f: "fragControl s' = fragControl s" using v by (simp add: sys_view_defs)
  show ?thesis using own_inv_cong [OF o, of X c] u f by (simp add: sys_flow_def frag_few_def udp_part_def)
qed

lemma more_fields:
  fixes s s' :: "'a dns_state_scheme"
  assumes "tcp_state.more s' = tcp_state.more s"
  shows "icmpCallback s' = icmpCallback s" and "callbackPorts s' = callbackPorts s" and "dns_state.more s' = dns_state.more s"
  using assms by (cases s, cases s', simp)+

lemma udp_part_rest: "rest_view s' = rest_view s \<Longrightarrow> udp_part s' = udp_part s"
  for s s' :: "'a dns_state_scheme"
  using more_fields [of s' s] by (simp add: rest_view_def udp_part_def)

lemma sys_view_full: "full_view s' = full_view s \<Longrightarrow> sys_view s' = sys_view s"
  for s s' :: "'a dns_state_scheme"
  using udp_part_rest [of s' s] by (simp add: full_view_def sys_view_def)

lemma sys_of_flow:
  fixes s s' :: "'a dns_state_scheme"
  assumes "sys_flow X c k A s" and "flow X c (rest_view s) s \<Longrightarrow> flow Y c' (rest_view s) s'"
  shows "sys_flow Y c' k A s'"
proof -
  have "flow X c (rest_view s) s" using assms(1) by (simp add: sys_flow_def flow_def)
  then have "own_inv Y c' s'" "frag_few s'" "rest_view s' = rest_view s" using assms(2) by (simp_all add: flow_def)
  then show ?thesis using assms(1) udp_part_rest [of s' s] by (simp add: sys_flow_def udp_part_def)
qed

text \<open>A handler disposes of the packet it is given.\<close>

locale packet_consumer =
  fixes A :: "'a set" and handle :: "bufref \<Rightarrow> 'a dns_state_scheme \<Rightarrow> 'a dns_state_scheme option"
  assumes consumes: "sys_flow (X + {#p#}) c k A s \<Longrightarrow> handle p s = Some s' \<Longrightarrow> sys_flow X c k A s'"
begin

lemma from_ring:
  assumes "sys_flow X c k A s" and "Buffer_first s \<noteq> Buffer_next s"
    and "handle (fst (snd (Packet_dequeue s))) (fst (Packet_dequeue s)) = Some s'"
  shows "sys_flow X c k A s'"
proof -
  have "sys_flow (X + {#fst (snd (Packet_dequeue s))#}) c k A (fst (Packet_dequeue s))"
    by (rule sys_of_flow [OF assms(1)]) (rule dequeue_flow [OF _ assms(2)])
  then show ?thesis using consumes assms(3) by blast
qed

lemma after_view:
  assumes "sys_flow (X + {#p#}) c k A s" and "sys_view t = sys_view s" and "handle p t = Some s'"
  shows "sys_flow X c k A s'"
  using assms sys_flow_cong consumes by metis

end

interpretation drop: packet_consumer A "\<lambda>p s. Some (Buffer_free p s)" for A
  by unfold_locales (auto elim!: sys_of_flow intro: flow_free)

lemma drop_view: "sys_flow (X + {#p#}) c k A s \<Longrightarrow> sys_view t = sys_view s \<Longrightarrow> sys_flow X c k A (Buffer_free p t)"
  by (rule drop.after_view [OF _ _ refl])

interpretation arp: packet_consumer A "\<lambda>p s. Some (processArp p n s)" for A n
  by unfold_locales (auto elim!: sys_of_flow intro: processArp_flow)

interpretation tcp: packet_consumer A Tcp_process for A
proof unfold_locales
  fix X p c k and s s' :: "'a dns_state_scheme"
  assume s: "sys_flow (X + {#p#}) c k A s" and t: "Tcp_process p s = Some s'"
  have l: "\<not> cfg_TCP_LISTEN s" using s by (simp add: sys_flow_def)
  show "sys_flow X c k A s'" by (rule sys_of_flow [OF s]) (rule Tcp_process_flow [OF _ l t])
qed

text \<open>The resolver.\<close>

lemma sys_view_upd [simp]:
  fixes s :: "'a dns_state_scheme"
  shows "sys_view (s\<lparr>queryPending := b\<rparr>) = sys_view s" "sys_view (s\<lparr>lastQueryRc := n\<rparr>) = sys_view s"
    "sys_view (s\<lparr>pendingQuery := q\<rparr>) = sys_view s" "sys_view (dns_put i f s) = sys_view s"
    "sys_view (s\<lparr>dns_entries := n8\<rparr>) = sys_view s" "sys_view (s\<lparr>Udp_Packets_Received := n32\<rparr>) = sys_view s"
    "sys_view (s\<lparr>Udp_ChecksumErrors := n32\<rparr>) = sys_view s" "sys_view (s\<lparr>Udp_NoHandler := n32\<rparr>) = sys_view s"
    "sys_view (s\<lparr>icmpEchoPacket := m\<rparr>) = sys_view s" "sys_view (s\<lparr>Ip_icmpRecvPackets := n32\<rparr>) = sys_view s"
    "sys_view (s\<lparr>Ip_badChecksum := n32\<rparr>) = sys_view s" "sys_view (s\<lparr>Ip_fragsReceived := n32\<rparr>) = sys_view s"
    "sys_view (s\<lparr>Udp_Packets_Sent := n32\<rparr>) = sys_view s" "sys_view (s\<lparr>Udp_Fragments_Sent := n32\<rparr>) = sys_view s"
    "sys_view (s\<lparr>IpIdent := n16\<rparr>) = sys_view s"
  by (simp_all add: sys_view_defs dns_put_def)

lemma sys_view_addOrUpdate [simp]: "sys_view (dns_addOrUpdate name a s) = sys_view s"
  by (auto simp: dns_addOrUpdate_def Let_def split: option.split)

lemma sys_view_rr: "dns_rr j m cur t s = Some (cur', t', s') \<Longrightarrow> sys_view s' = sys_view s"
  by (auto simp: dns_rr_def Let_def split: option.splits if_splits)

lemma sys_view_rrs: "dns_rrs j n m cur t s = Some (cur', t', s') \<Longrightarrow> sys_view s' = sys_view s"
proof (induction n arbitrary: cur t s)
  case (Suc n)
  then show ?case by (auto dest!: sys_view_rr split: option.splits)
qed simp

lemma sys_view_sections: "dns_sections m s = Some s' \<Longrightarrow> sys_view s' = sys_view s"
  by (auto simp: dns_sections_def dest!: sys_view_rrs split: option.splits)

interpretation dns: packet_consumer A udpHandler for A
proof unfold_locales
  fix X p c k and s s' :: "'a dns_state_scheme"
  assume s: "sys_flow (X + {#p#}) c k A s" and t: "udpHandler p s = Some s'"
  have concl: "sys_view (dns_conclude n u) = sys_view u" for n and u :: "'a dns_state_scheme"
    by (simp add: dns_conclude_def)
  consider "s' = Buffer_free p s" | u where "dns_sections (pkt_mem s p) s = Some u" "sys_view s' = sys_view (Buffer_free p u)"
    using t by (auto simp: udpHandler_def Let_def concl split: if_splits)
  then show "sys_flow X c k A s'"
  proof cases
    case 1
    then show ?thesis using drop.consumes [OF s] by simp
  next
    case (2 u)
    have "sys_flow X c k A (Buffer_free p u)" using drop_view [OF s sys_view_sections [OF 2(1)]] .
    then show ?thesis using sys_flow_cong [OF 2(2)] by simp
  qed
qed

section \<open>UDP, ICMP and IP\<close>

text \<open>What is asked of the handlers a program registers itself.\<close>

definition user_consumes :: "'a set \<Rightarrow> 'a user \<Rightarrow> bool" where
  "user_consumes A user \<longleftrightarrow> (\<forall>n X p c k s. sys_flow (X + {#p#}) c k A s \<longrightarrow> sys_flow X c k A (user n p s))"

lemma udp_call_consumer: "user_consumes A user \<Longrightarrow> packet_consumer A (udp_call user f)"
  by unfold_locales (auto simp: udp_call_def user_consumes_def intro: dns.consumes split: udp_fn.splits)

text \<open>The count of ports is looked at again after the callback; it has not changed.\<close>

lemma Udp_consumer:
  assumes "user_consumes A user"
  shows "packet_consumer A (Udp_process (udp_call user))"
proof unfold_locales
  fix X p c k and s s' :: "'a dns_state_scheme"
  assume s: "sys_flow (X + {#p#}) c k A s" and t: "Udp_process (udp_call user) p s = Some s'"
  define u where "u = s\<lparr>Udp_Packets_Received := Udp_Packets_Received s + 1\<rparr>"
  have u: "sys_flow (X + {#p#}) c k A u" using s by (simp add: u_def sys_flow_cong [OF sys_view_upd(6)])
  have e: "Udp_process (udp_call user) p s =
      (if \<not> udp_checksum_ok p u then Some (Buffer_free p (u\<lparr>Udp_ChecksumErrors := Udp_ChecksumErrors u + 1\<rparr>))
       else (case callback_index (ntohs (udp_dst (pk_udp p u))) u of
               Some i \<Rightarrow> map_option (udp_unhandled p i) (udp_call user (callbackFunctions u i) p u)
             | None \<Rightarrow> Some (udp_unhandled p (unat (callbackPorts u)) u)))"
    by (simp only: Udp_process_def Let_def u_def [symmetric])
  consider "s' = Buffer_free p (u\<lparr>Udp_ChecksumErrors := Udp_ChecksumErrors u + 1\<rparr>)"
    | i v where "i < unat (callbackPorts u)" "udp_call user (callbackFunctions u i) p u = Some v" "s' = udp_unhandled p i v"
    | "s' = Buffer_free p (u\<lparr>Udp_NoHandler := Udp_NoHandler u + 1\<rparr>)"
  proof (cases "udp_checksum_ok p u")
    case True
    show ?thesis
    proof (cases "callback_index (ntohs (udp_dst (pk_udp p u))) u")
      case None
      then show ?thesis using that(3) e t True by (simp add: udp_unhandled_def)
    next
      case (Some i)
      then have "i < unat (callbackPorts u)" by (auto simp: callback_index_def find_Some_iff)
      then show ?thesis
        using that(2) e t True Some by (cases "udp_call user (callbackFunctions u i) p u") auto
    qed
  qed (use that(1) e t in simp)
  then show "sys_flow X c k A s'"
  proof cases
    case (2 i v)
    have v: "sys_flow X c k A v" by (rule packet_consumer.consumes [OF udp_call_consumer [OF assms] u 2(2)])
    then have "callbackPorts v = callbackPorts u" using u by (simp add: sys_flow_def)
    then show ?thesis using v 2 by (simp add: udp_unhandled_def)
  qed (use drop_view [OF u sys_view_upd(7)] drop_view [OF u sys_view_upd(8)] in auto)
qed

lemma sys_view_send [simp]:
  fixes s :: "'a dns_state_scheme"
  shows "sys_view (Packet_send_pkt f l s) = sys_view s" "sys_view (fst (put_ip pr host n mf off m s)) = sys_view s"
    "sys_view (fst (setDestEth d s)) = sys_view s" "sys_view (free q s) = sys_view s" "sys_view (fst (malloc s)) = sys_view s"
  by (rule sys_view_full, simp)
    (simp add: put_ip_def IpHeader_set_def Let_def split_beta, (rule sys_view_full, simp)+,
     simp add: malloc_def Let_def sys_view_defs)

lemma sys_view_reply [simp]: "sys_view (icmp_reply p n s) = sys_view s"
  by (simp add: icmp_reply_def Let_def split_beta)

lemma Icmp_consumer: "packet_consumer A (\<lambda>p s. Some (Icmp_process call p s))"
proof unfold_locales
  fix X p c k and s s' :: "'a dns_state_scheme"
  assume s: "sys_flow (X + {#p#}) c k A s" and t: "Some (Icmp_process call p s) = Some s'"
  define u where "u = (let len = payloadLen (pk_ip p s) in
    if ipchksum (pkt_mem s p) (pk_tcp_off p s) len = 0 \<and> pkt_mem s p (pk_tcp_off p s) = ICMP_ECHO_REQUEST \<and>
      len - 8 \<le> ICMP_ECHO_OPT_DATA then icmp_reply p len s else s)"
  have "icmpCallback s = None" using s by (simp add: sys_flow_def)
  then have "s' = Buffer_free p u" using t by (auto simp: Icmp_process_def u_def Let_def)
  moreover have "sys_view u = sys_view s" by (simp add: u_def Let_def)
  ultimately show "sys_flow X c k A s'" using drop_view [OF s] by simp
qed

lemma ip_route_consumer:
  assumes "user_consumes A user"
  shows "packet_consumer A (ip_route user)"
proof unfold_locales
  fix X p c k and s s' :: "'a dns_state_scheme"
  assume s: "sys_flow (X + {#p#}) c k A s" and t: "ip_route user p s = Some s'"
  note icmp = packet_consumer.after_view [OF Icmp_consumer s sys_view_upd(10)]
  show "sys_flow X c k A s'"
    using t drop.consumes [OF s] tcp.consumes [OF s] packet_consumer.consumes [OF Udp_consumer [OF assms] s] icmp
    by (auto simp: ip_route_def Let_def split: if_splits)
qed

lemma Ip_consumer:
  assumes "user_consumes A user"
  shows "packet_consumer A (Ip_process user)"
proof unfold_locales
  fix X p c k and s s' :: "'a dns_state_scheme"
  assume s: "sys_flow (X + {#p#}) c k A s" and t: "Ip_process user p s = Some s'"
  note route = packet_consumer.consumes [OF ip_route_consumer [OF assms]]
  define u where "u = s\<lparr>Ip_fragsReceived := Ip_fragsReceived s + 1\<rparr>"
  have u: "sys_flow (X + {#p#}) c k A u" using s by (simp add: u_def sys_flow_cong [OF sys_view_upd(12)])
  obtain v q where v: "processFragment (pk_ip p s) p u = (v, q)" by force
  have frag: "sys_flow (X + opt_mset q) c k A v"
    by (rule sys_of_flow [OF u]) (rule processFragment_flow [OF _ v])
  show "sys_flow X c k A s'"
  proof (cases "ipchksum (pkt_mem s p) 14 (getIpHlen (pk_ip p s)) \<noteq> 0")
    case True
    then show ?thesis using t drop.after_view [OF s sys_view_upd(11)] by (auto simp: Ip_process_def Let_def)
  next
    case False
    then show ?thesis
      using t route [OF s] frag route [of X _ c k v s'] v
      by (cases q) (auto simp: Ip_process_def Let_def u_def split: if_splits)
  qed
qed

lemma handler_consumer:
  assumes "user_consumes A user"
  shows "packet_consumer A (\<lambda>p s. handler_call user h p n s)"
proof unfold_locales
  fix X p c k and s s' :: "'a dns_state_scheme"
  assume s: "sys_flow (X + {#p#}) c k A s" and t: "handler_call user h p n s = Some s'"
  show "sys_flow X c k A s'"
  proof (cases h)
    case HandlerArp
    then show ?thesis using t arp.consumes [OF s, of n s'] by (simp add: handler_call_def)
  next
    case HandlerIp
    then show ?thesis using t packet_consumer.consumes [OF Ip_consumer [OF assms] s] by (simp add: handler_call_def)
  next
    case (HandlerUser i)
    then show ?thesis using t assms s by (auto simp: handler_call_def user_consumes_def)
  qed
qed

lemma process_internal_flow:
  assumes "user_consumes A user" and "sys_flow X c k A s" and "Buffer_first s \<noteq> Buffer_next s"
    and "Packet_process_internal (handler_call user) s = Some s'"
  shows "sys_flow X c k A s'"
proof -
  obtain t p n where d: "Packet_dequeue s = (t, p, n)" by (cases "Packet_dequeue s") auto
  show ?thesis
  proof (cases "Packet_route t (rd16 (pkt_mem t p) 12)")
    case None
    then have "Some (Buffer_free p t) = Some s'" using assms(4) d by (simp add: Packet_process_internal_def)
    then show ?thesis using drop.from_ring [OF assms(2,3)] d by simp
  next
    case (Some h)
    then have "handler_call user h p n t = Some s'" using assms(4) d by (simp add: Packet_process_internal_def)
    then show ?thesis using packet_consumer.from_ring [OF handler_consumer [OF assms(1)] assms(2,3)] d by simp
  qed
qed

lemma purge_sys: "sys_flow X c k A s \<Longrightarrow> sys_flow X c k A (ip_frags_check_overdue s)"
  by (erule sys_of_flow) (rule purge_flow)

lemma process_single_sys:
  assumes "user_consumes A user" and "sys_flow X c k A s" and "packet_process_single user s = Some s'"
  shows "sys_flow X c k A s'"
  using assms(3) process_internal_flow [OF assms(1,2)] assms(2) purge_sys
  by (auto simp: packet_process_single_def split: if_splits)

lemma process_up_to_sys:
  "user_consumes A user \<Longrightarrow> sys_flow X c k A s \<Longrightarrow> process_up_to user n s = Some s' \<Longrightarrow> sys_flow X c k A s'"
proof (induction n arbitrary: s)
  case (Suc n)
  then show ?case using process_internal_flow [OF Suc.prems(1,2)] by (auto split: if_splits option.splits)
qed simp

section \<open>Driving and sending\<close>

lemma drives_sys:
  "sys_flow X c k A s \<Longrightarrow> sys_flow X c k A (drivePackets s)" "sys_flow X c k A s \<Longrightarrow> sys_flow X c k A (driveArp s)"
  "sys_flow X None k A s \<Longrightarrow> sys_flow X None k A (interrupts is s)"
  using sys_flow_cong [OF sys_view_full [OF full_view_arp(3)], of X c k A s]
  by (auto elim!: sys_of_flow intro: drivePackets_flow interrupts_flow)

lemma sys_view_udp [simp]:
  "sys_view (fst (udp_fill h sp dp n m s)) = sys_view s" "sys_view (fst (udp_transmit n m s)) = sys_view s"
  "sys_view (fst (udp_frag_step h pl off n o' m s)) = sys_view s"
proof -
  show "sys_view (fst (udp_fill h sp dp n m s)) = sys_view s" by (simp add: udp_fill_def Let_def split_beta)
  show "sys_view (fst (udp_frag_step h pl off n o' m s)) = sys_view s"
    by (simp add: udp_frag_step_def Let_def split_beta)
  obtain t a where t: "setDestEth (ip_dest (read_IpHeader m 14)) s = (t, a)" by force
  then have "sys_view t = sys_view s" using sys_view_send(3) [of "ip_dest (read_IpHeader m 14)" s] by simp
  then show "sys_view (fst (udp_transmit n m s)) = sys_view s"
    by (simp add: udp_transmit_def t Let_def split: option.split)
qed

lemma sys_view_frag_loop: "udp_frag_loop h pl off n o' m s = Some s' \<Longrightarrow> sys_view s' = sys_view s"
  for s s' :: "'a dns_state_scheme"
proof (induction rule: udp_frag_loop.raw_induct [rotated, consumes 1, case_names 1])
  case (1 loop h pl off n o' m s s')
  then show ?case by (auto simp: Let_def split: if_splits)
qed

lemma sys_view_sendUdp: "sendUdp h sp dp n d pre s = Some (s', d', rc) \<Longrightarrow> sys_view s' = sys_view s"
  for s s' :: "'a dns_state_scheme"
proof -
  have malloc: "malloc t = (u, q) \<Longrightarrow> sys_view u = sys_view t" for t u :: "'a dns_state_scheme" and q
    using sys_view_send(5) [of t] by simp
  have dest: "setDestEth x t = (u, q) \<Longrightarrow> sys_view u = sys_view t" for x q and t u :: "'a dns_state_scheme"
    using sys_view_send(3) [of x t] by simp
  have send: "udp_transmit n m (fst (udp_fill h sp dp n' m' t)) = (u, q, z) \<Longrightarrow> sys_view u = sys_view t"
    for n n' m m' q z and t u :: "'a dns_state_scheme"
    using sys_view_udp(2) [of n m "fst (udp_fill h sp dp n' m' t)"] by simp
  have frags: "sendUdpFragments h sp dp n d pre s = Some (s', rc) \<Longrightarrow> sys_view s' = sys_view s" for d rc
    by (auto simp: sendUdpFragments_def Let_def split_beta dest!: sys_view_frag_loop dest malloc split: option.splits prod.splits)
  assume "sendUdp h sp dp n d pre s = Some (s', d', rc)"
  then show ?thesis
    by (auto simp: sendUdp_def Let_def split_beta dest!: frags dest: malloc send split: if_splits option.splits prod.splits)
qed


text \<open>A blocking call keeps the buffers: every way it returns.\<close>

lemma turn_sys:
  assumes "user_consumes A user" and "sys_flow X None k A s" and "packet_process_single user (interrupts is s) = Some s'"
  shows "sys_flow X None k A s'"
  by (rule process_single_sys [OF assms(1) drives_sys(3) assms(3)]) (rule assms(2))

lemma dns_sendUdp_sys:
  assumes "sys_flow X c k A s" and "dns_sendUdp h n q s = Some (s', q', rc)"
  shows "sys_flow X c k A s'"
  using assms sys_view_sendUdp sys_flow_cong unfolding dns_sendUdp_def by blast

lemma send_wait_sys:
  "send_wait user ev n h len q start s = Some r \<Longrightarrow> user_consumes A user \<Longrightarrow> sys_flow X None k A s \<Longrightarrow>
    sys_flow X None k A (snd r)"
proof (induction arbitrary: X k A rule: send_wait.raw_induct [rotated, consumes 1, case_names 1])
  case (1 wait user ev n h len q start s r)
  define u where "u = interrupts (ev n) s"
  have u: "sys_flow X None k A u" unfolding u_def by (rule drives_sys(3) [OF 1(4)])
  show ?case
  proof (cases "TIMER_MS_TO_TICKS DNS_INITIAL_SEND_TIMEOUT < Timer_diff start (Timer_CurrentTicks u)")
    case True
    then show ?thesis using 1(2) u by (auto simp: Let_def u_def)
  next
    case False
    then obtain v w q' rc where v: "packet_process_single user u = Some v"
      and w: "dns_sendUdp h len q (drivePackets (driveArp v)) = Some (w, q', rc)"
      and r: "(if rc = 1 then wait user ev (Suc n) h len q' start w else Some (Suc n, w)) = Some r"
      using 1(2) by (auto simp: Let_def u_def split: option.splits prod.splits)
    have "sys_flow X None k A v" by (rule process_single_sys [OF 1(3) u v])
    then have "sys_flow X None k A w" using dns_sendUdp_sys [OF _ w] drives_sys by blast
    then show ?thesis using 1(1) [OF _ 1(3)] r by (auto split: if_splits)
  qed
qed

lemma sendRequest_sys:
  assumes "user_consumes A user" and "sys_flow X None k A s" and "sendRequest user ev n h name ident s = Some (n', s')"
  shows "sys_flow X None k A s'"
proof -
  obtain t q rc where t: "dns_sendUdp h (dns_reqLen name) (dns_query ident name (dns_stack s)) s = Some (t, q, rc)"
    "(if rc = 1 then send_wait user ev n h (dns_reqLen name) q (Timer_CurrentTicks s) t else Some (n, t)) = Some (n', s')"
    using assms(3) by (auto simp: sendRequest_def Let_def split: option.splits)
  have "sys_flow X None k A t" by (rule dns_sendUdp_sys [OF assms(2) t(1)])
  then show ?thesis using t(2) send_wait_sys [OF _ assms(1)] by (fastforce split: if_splits)
qed

lemma drivePendingQuery_sys:
  assumes "user_consumes A user" and "sys_flow X None k A s" and "drivePendingQuery user ev n s = Some (n', s')"
  shows "sys_flow X None k A s'"
proof -
  have two: "sys_flow X None k A t" if "drivePendingQuery2 user ev n s = Some (n', t)" for n' t
    using that assms(2) sendRequest_sys [OF assms(1), of X k "s\<lparr>pendingQuery := q\<rparr>" for q]
    by (simp add: drivePendingQuery2_def Let_def sys_flow_cong [OF sys_view_upd(3)])
  have "sys_flow X None k A (s\<lparr>queryPending := b, lastQueryRc := rc\<rparr>)" for b rc
    using assms(2) by (subst sys_flow_cong [where s = s]) simp_all
  then show ?thesis using assms(2,3) two
    by (auto simp: drivePendingQuery_def drivePendingQuery1_def Let_def split: if_splits)
qed

lemma dns_resolve_sys:
  assumes "user_consumes A user" and "sys_flow X None k A s" and "dns_resolve user ev n name target sr tmp s = Some (n', s', a, rc)"
  shows "sys_flow X None k A s'"
proof -
  define u where "u = start_query (full_name name (Domain s)) s"
  have "sys_view u = sys_view s" by (simp add: u_def start_query_def c_rand_def Let_def sys_view_defs)
  then have u: "sys_flow X None k A u" using assms(2) sys_flow_cong by blast
  have add: "sys_flow X None k A (dns_addOrUpdate name x s)" for x
    using assms(2) sys_flow_cong [OF sys_view_addOrUpdate] by blast
  show ?thesis
    using assms(2,3)
    by (auto simp: dns_resolve_def Let_def split: if_splits option.splits
        intro: add sendRequest_sys [OF assms(1) u, unfolded u_def])
qed


section \<open>The calls of the application\<close>

lemma isCloseDone_sys: "sys_flow X c k A s \<Longrightarrow> sys_flow X c k A (fst (isCloseDone this s))"
  for s :: "'a dns_state_scheme"
proof -
  assume s: "sys_flow X c k A s"
  have d: "sys_flow X c k A (destroy this s)" by (rule sys_of_flow [OF s]) (rule destroy_flow)
  have "sys_view (upd_sock this (\<lambda>k. k\<lparr>closeReason := n\<rparr>) t) = sys_view t" for n and t :: "'a dns_state_scheme"
    by (rule sys_view_full) simp
  then have "sys_view (fst (isCloseDone this s)) = sys_view s \<or> sys_view (fst (isCloseDone this s)) = sys_view (destroy this s)"
    by (simp add: isCloseDone_def Let_def)
  then show ?thesis using s d sys_flow_cong by blast
qed

lemma sys_view_calls [simp]:
  fixes s :: "'a dns_state_scheme"
  shows "sys_view (start_close this s) = sys_view s" "sys_view (closeLocal this s) = sys_view s"
    "sys_view (fst (connect2 this sp h dp s)) = sys_view s" "sys_view (shutdown this how s) = sys_view s"
    "sys_view (fst (enqueue this b s)) = sys_view s" "sys_view (fst (freeSocket this s)) = sys_view s"
    "sys_view (fst (getXmitBuf s)) = sys_view s"
proof -
  have sock: "sys_view (upd_sock this f t) = sys_view t" if "\<And>k. incoming (f k) = incoming k" for f and t :: "'a dns_state_scheme"
    by (rule sys_view_full) (simp add: that)
  have enq: "sys_view (fst (enqueue this b t)) = sys_view t" for b and t :: "'a dns_state_scheme"
    by (rule sys_view_full) simp
  have buf: "sys_view (upd_buf b f t) = sys_view t" for b f and t :: "'a dns_state_scheme"
    by (rule sys_view_full) simp
  have act: "sys_view (makeActive this t) = sys_view t" for t :: "'a dns_state_scheme"
    by (rule sys_view_full) simp
  show "sys_view (start_close this s) = sys_view s" by (simp add: start_close_def sock)
  show cl: "sys_view (closeLocal this t) = sys_view t" for t :: "'a dns_state_scheme"
    by (simp add: closeLocal_def Let_def split_beta sock enq buf)
  show "sys_view (fst (connect2 this sp h dp s)) = sys_view s"
    by (simp add: connect2_def Let_def sock enq buf act)
  show "sys_view (shutdown this how s) = sys_view s" by (simp add: shutdown_def cl sock split: shut_how.split)
  show "sys_view (fst (enqueue this b s)) = sys_view s" by (rule enq)
  show "sys_view (fst (freeSocket this s)) = sys_view s" by (rule sys_view_full) simp
  show "sys_view (fst (getXmitBuf s)) = sys_view s" by (simp add: getXmitBuf_def Let_def sys_view_defs)
qed

lemma wait_tick_sys:
  fixes s :: "'a dns_state_scheme"
  shows "wait_tick ev n l s = Some r \<Longrightarrow> sys_flow X None k A s \<Longrightarrow> sys_flow X None k A (snd r)"
proof (induction rule: wait_tick.raw_induct [rotated, consumes 1, case_names 1])
  case (1 wait ev n l s r)
  then show ?case using drives_sys(3) [OF 1(3)] by (auto split: if_splits)
qed

lemma connect_loop_sys:
  "connect_loop user ev n this start l ms s = Some r \<Longrightarrow> user_consumes A user \<Longrightarrow> sys_flow X None k A s \<Longrightarrow>
    sys_flow X None k A (fst (snd r))"
proof (induction arbitrary: X k A rule: connect_loop.raw_induct [rotated, consumes 1, case_names 1])
  case (1 loop user ev n this start l ms s r)
  obtain v where v: "packet_process_single user (interrupts (ev n) s) = Some v"
    using 1(2) by (auto split: option.splits)
  define w where "w = driveArp (drivePackets v)"
  have w: "sys_flow X None k A w" unfolding w_def by (intro drives_sys turn_sys [OF 1(3,4) v])
  consider "fst (snd r) = w"
    | m t where "wait_tick ev (Suc n) l w = Some (m, t)" "loop user ev m this start (Timer_CurrentTicks t) ms t = Some r"
    using 1(2) v by (auto simp: Let_def w_def [symmetric] split: if_splits option.splits)
  then show ?case
  proof cases
    case 1
    then show ?thesis using w by simp
  next
    case (2 m t)
    have "sys_flow X None k A t" using wait_tick_sys [OF 2(1) w] by simp
    then show ?thesis by (rule 1(1) [OF 2(2) 1(3)])
  qed
qed

lemma close_loop_sys:
  "close_loop user ev n this s = Some r \<Longrightarrow> user_consumes A user \<Longrightarrow> sys_flow X None k A s \<Longrightarrow>
    sys_flow X None k A (snd r)"
proof (induction arbitrary: X k A rule: close_loop.raw_induct [rotated, consumes 1, case_names 1])
  case (1 loop user ev n this s r)
  define d where "d = isCloseDone this (interrupts (ev n) s)"
  have d: "sys_flow X None k A (fst d)" unfolding d_def by (intro isCloseDone_sys drives_sys(3) 1(4))
  show ?case
  proof (cases "snd d")
    case True
    then show ?thesis using 1(2) d by (auto simp: Let_def d_def)
  next
    case False
    then obtain v where v: "packet_process_single user (fst d) = Some v"
      and r: "loop user ev (Suc n) this (drivePackets (driveArp v)) = Some r"
      using 1(2) by (auto simp: Let_def d_def split: option.splits)
    have "sys_flow X None k A (drivePackets (driveArp v))" by (intro drives_sys process_single_sys [OF 1(3) d v])
    then show ?thesis by (rule 1(1) [OF r 1(3)])
  qed
qed


lemma connect_sys:
  assumes "user_consumes A user" and "sys_flow X None k A s" and "connect user ev n this sp h dp ms s = Some (n', s', rc)"
  shows "sys_flow X None k A s'"
proof -
  define t where "t = fst (connect2 this sp h dp s)"
  have "sys_view t = sys_view s" by (simp add: t_def)
  then have t: "sys_flow X None k A t" using assms(2) sys_flow_cong by blast
  consider "s' = t" | "connect_loop user ev n this (Timer_CurrentTicks t) (Timer_CurrentTicks t) ms t = Some (n', s', rc)"
    using assms(3) by (auto simp: connect_def split_beta t_def split: if_splits)
  then show ?thesis using t connect_loop_sys [OF _ assms(1) t] by cases fastforce+
qed

lemma close_sys:
  assumes "user_consumes A user" and "sys_flow X None k A s" and "close user ev n this s = Some (n', s')"
  shows "sys_flow X None k A s'"
proof -
  have "sys_view (closeLocal this (start_close this s)) = sys_view s" by simp
  then have "sys_flow X None k A (closeLocal this (start_close this s))" using assms(2) sys_flow_cong by blast
  from close_loop_sys [OF assms(3) [unfolded close_def] assms(1) this] show ?thesis by simp
qed

text \<open>A received packet goes from the queue of a socket to the application.\<close>

lemma rb_dequeue_mset:
  assumes "rb_wf r"
  shows "rb_wf (fst (rb_dequeue r))" and "mset (rb_list (fst (rb_dequeue r))) + opt_mset (snd (rb_dequeue r)) = mset (rb_list r)"
proof -
  have "rb_wf (fst (rb_dequeue r)) \<and> mset (rb_list (fst (rb_dequeue r))) + opt_mset (snd (rb_dequeue r)) = mset (rb_list r)"
  proof (cases "rb_list r")
    case Nil
    then have "rb_entries r = 0" by (metis length_rb_list list.size(3) unat_eq_zero)
    then have "rb_dequeue r = (r, None)" by (simp add: rb_dequeue_def)
    then show ?thesis using assms by simp
  next
    case (Cons x xs)
    then show ?thesis using rb.deq_some [OF assms Cons] by (cases "rb_dequeue r") simp
  qed
  then show "rb_wf (fst (rb_dequeue r))" and "mset (rb_list (fst (rb_dequeue r))) + opt_mset (snd (rb_dequeue r)) = mset (rb_list r)"
    by blast+
qed

lemma take_sys:
  fixes s :: "'a dns_state_scheme" and this :: nat
  assumes "sys_flow X c k A s"
  defines "d \<equiv> rb_dequeue (incoming (socks s this))"
  shows "sys_flow (X + opt_mset (snd d)) c k A (upd_sock this (\<lambda>x. x\<lparr>incoming := fst d\<rparr>) s)"
proof (rule sys_of_flow [OF assms(1)])
  assume f: "flow X c (rest_view s) s"
  have f': "flow (X + {#}) c (rest_view s) s" using f by simp
  note q = rb_dequeue_mset [OF flow_wf [OF f, of this], folded d_def]
  show "flow (X + opt_mset (snd d)) c (rest_view s) (upd_sock this (\<lambda>x. x\<lparr>incoming := fst d\<rparr>) s)"
    by (rule flow_socket [OF f']) (simp_all add: q)
qed

lemma give_sys: "sys_flow X c k A s \<Longrightarrow> b \<in># X \<Longrightarrow> sys_flow (X - {#b#}) c k A (Buffer_free b s)"
  by (rule drop_view) simp_all

text \<open>A socket that is handed out is initialised again: what is still in its queue is lost.\<close>

definition forgotten :: "'a tcp_state_scheme \<Rightarrow> bufref multiset" where
  "forgotten s = (if availSockets s = 0 then {#}
     else mset (rb_list (incoming (socks s (availSocketTable s (unat (availSockets s - 1)))))))"

lemma getSocket_sys:
  fixes s :: "'a dns_state_scheme"
  assumes "sys_flow X c k A s"
  shows "sys_flow (forgotten s + X) c k A (fst (getSocket s))"
proof (rule sys_of_flow [OF assms(1)])
  assume f: "flow X c (rest_view s) s"
  let ?i = "availSocketTable s (unat (availSockets s - 1))"
  show "flow (forgotten s + X) c (rest_view s) (fst (getSocket s))"
  proof (cases "availSockets s = 0")
    case True
    then show ?thesis using f by (simp add: getSocket_def forgotten_def)
  next
    case False
    have "\<exists>t K. reinit ?i u = upd_sock ?i (\<lambda>_. K) t \<and> full_view t = full_view u \<and> incoming K = empty_ring"
      for u :: "'a dns_state_scheme"
      unfolding reinit_def c_rand_def Let_def prod.case
      by (intro exI conjI, rule refl) (simp_all add: view_defs upd_buf_def zero_socket_def)
    from this [of "s\<lparr>availSockets := availSockets s - 1\<rparr>"] obtain t K where
      t: "fst (getSocket s) = upd_sock ?i (\<lambda>_. K) t" "full_view t = full_view s" "incoming K = empty_ring"
      using False by (auto simp: getSocket_def Let_def view_defs)
    have q: "rb_wf (empty_ring :: bufref RingBuffer)" "rb_list (empty_ring :: bufref RingBuffer) = []"
      by (simp_all add: empty_ring_def rb_wf_def rb_list_def)
    have "flow (X + {#}) c (rest_view s) t" using f t(2) flow_cong by fastforce
    moreover have "mset (rb_list (incoming (socks t ?i))) = forgotten s" using t(2) False by (simp add: view_defs fun_eq_iff forgotten_def)
    ultimately have "flow (X + forgotten s) c (rest_view s) (upd_sock ?i (\<lambda>_. K) t)"
      by (intro flow_socket) (simp_all add: t(3) q)
    then show ?thesis by (simp add: t(1) add.commute)
  qed
qed

lemma sys_view_recv [simp]: "sys_view (fst (recv this n s)) = sys_view s"
  for s :: "'a dns_state_scheme"
proof (rule sys_view_full)
  have "full_view (fst (recv_copy this m s)) = full_view s" for m
    by (simp add: recv_copy_def Let_def)
  moreover have "full_view (t\<lparr>OurWindowReopened := i\<rparr>) = full_view t" for i and t :: "'a dns_state_scheme"
    by (simp add: view_defs)
  ultimately show "full_view (fst (recv this n s)) = full_view s" by (simp add: recv_def Let_def split_beta)
qed

lemma sys_view_send_loop: "send_loop this m n sn s = Some r \<Longrightarrow> sys_view (fst r) = sys_view s"
  for s :: "'a dns_state_scheme"
proof (induction rule: send_loop.raw_induct [rotated, consumes 1, case_names 1])
  case (1 loop this m n sn s r)
  have step: "sys_view (fst (send_step this m n sn b t)) = sys_view t" for b and t :: "'a dns_state_scheme"
    by (rule sys_view_full) (simp add: send_step_def Let_def)
  show ?case
  proof (cases "sn < n \<and> rb_hasRoom (outgoing (socks s this)) \<and> snd (getXmitBuf s) \<noteq> None")
    case True
    then obtain b where b: "snd (getXmitBuf s) = Some b" by auto
    let ?u = "send_step this m n sn b (fst (getXmitBuf s))"
    have "loop this m n (snd ?u) (fst ?u) = Some r" using 1(2) True b by simp
    then have "sys_view (fst r) = sys_view (fst ?u)" by (rule 1(1))
    then show ?thesis by (simp only: step sys_view_calls)
  next
    case False
    then have "r = (s, sn)" using 1(2) by (auto split: if_splits)
    then show ?thesis by simp
  qed
qed

lemma sys_view_tcp_send: "send this m n s = Some (s', rc) \<Longrightarrow> sys_view s' = sys_view s"
  for s s' :: "'a dns_state_scheme"
  by (auto simp: send_def dest!: sys_view_send_loop split: if_splits)

section \<open>The stack as a transition system\<close>

text \<open>
  What a program does with the stack: the interrupts come, the macros of \<^verbatim>\<open>UTILS.H\<close> take packets off the
  ring, the drivers run, the resolver works, the program registers and unregisters handlers of UDP ports, and opens,
  uses and closes sockets.  \<open>X\<close> are the packets it has taken out of the queues of its sockets and not given back.
  \<open>L\<close> are those that were in the queue of a socket when it was handed out again by \<^verbatim>\<open>getSocket\<close>: nobody has them any
  more.
\<close>

inductive stack_step ::
    "'a user \<Rightarrow> bufref multiset \<times> bufref multiset \<times> 'a dns_state_scheme \<Rightarrow>
     bufref multiset \<times> bufref multiset \<times> 'a dns_state_scheme \<Rightarrow> bool"
  for user :: "'a user"
  where
  Interrupt: "stack_step user (L, X, s) (L, X, interrupt i s)"
| Process: "packet_process_single user s = Some s' \<Longrightarrow> stack_step user (L, X, s) (L, X, s')"
| ProcessMult: "packet_process_mult user n s = Some s' \<Longrightarrow> stack_step user (L, X, s) (L, X, s')"
| DriveArp: "stack_step user (L, X, s) (L, X, driveArp s)"
| DrivePackets: "stack_step user (L, X, s) (L, X, drivePackets s)"
| Query: "drivePendingQuery user ev n s = Some (n', s') \<Longrightarrow> stack_step user (L, X, s) (L, X, s')"
| Resolve: "dns_resolve user ev n name target sr tmp s = Some (n', s', a, rc) \<Longrightarrow> stack_step user (L, X, s) (L, X, s')"
| SendUdp: "sendUdp host sp dp len d pre s = Some (s', d', rc) \<Longrightarrow> stack_step user (L, X, s) (L, X, s')"
| Register: "stack_step user (L, X, s) (L, X, fst (registerCallback port f s))"
| Unregister: "stack_step user (L, X, s) (L, X, fst (unregisterCallback port s))"
| GetSocket: "stack_step user (L, X, s) (L + forgotten s, X, fst (getSocket s))"
| SetRecvBuffer: "stack_step user (L, X, s) (L, X, fst (setRecvBuffer this sz s))"
| ConnectNonBlocking: "stack_step user (L, X, s) (L, X, fst (connectNonBlocking this sp host dp s))"
| Connect: "connect user ev n this sp host dp ms s = Some (n', s', rc) \<Longrightarrow> stack_step user (L, X, s) (L, X, s')"
| Send: "send this m len s = Some (s', rc) \<Longrightarrow> stack_step user (L, X, s) (L, X, s')"
| GetXmitBuf: "stack_step user (L, X, s) (L, X, fst (getXmitBuf s))"
| Enqueue: "stack_step user (L, X, s) (L, X, fst (enqueue this b s))"
| Recv: "stack_step user (L, X, s) (L, X, fst (recv this len s))"
| TakePacket: "rb_dequeue (incoming (socks s this)) = (q, Some p) \<Longrightarrow>
    stack_step user (L, X, s) (L, X + {#p#}, upd_sock this (\<lambda>k. k\<lparr>incoming := q\<rparr>) s)"
| GivePacket: "b \<in># X \<Longrightarrow> stack_step user (L, X, s) (L, X - {#b#}, Buffer_free b s)"
| FlushRecv: "stack_step user (L, X, s) (L, X, flushRecv this s)"
| Shutdown: "stack_step user (L, X, s) (L, X, shutdown this how s)"
| CloseNonblocking: "stack_step user (L, X, s) (L, X, closeNonblocking this s)"
| CloseDone: "stack_step user (L, X, s) (L, X, fst (isCloseDone this s))"
| Close: "close user ev n this s = Some (n', s') \<Longrightarrow> stack_step user (L, X, s) (L, X, s')"
| FreeSocket: "stack_step user (L, X, s) (L, X, fst (freeSocket this s))"

inductive_cases stack_stepE: "stack_step user (L, X, s) (M, Y, t)"

lemma sys_keep:
  assumes "sys_flow X c k A s"
  shows "sys_flow X c k A (fst (getXmitBuf s))" "sys_flow X c k A (fst (enqueue this b s))"
    "sys_flow X c k A (fst (recv this n s))" "sys_flow X c k A (shutdown this how s)" "sys_flow X c k A (fst (freeSocket this s))"
  using assms
  by (simp_all add: sys_flow_cong [OF sys_view_calls(4)] sys_flow_cong [OF sys_view_calls(5)]
      sys_flow_cong [OF sys_view_calls(6)] sys_flow_cong [OF sys_view_calls(7)] sys_flow_cong [OF sys_view_recv])

text \<open>Opening without waiting, closing without waiting, the receive buffer, the ports.\<close>

lemma sys_keep_socket:
  fixes s :: "'a dns_state_scheme"
  assumes "sys_flow X c k A s"
  shows "sys_flow X c k A (fst (setRecvBuffer this n s))" "sys_flow X c k A (fst (connectNonBlocking this sp h dp s))"
    "sys_flow X c k A (flushRecv this s)" "sys_flow X c k A (closeNonblocking this s)"
proof -
  have sock: "sys_view (upd_sock this f t) = sys_view t" if "\<And>k. incoming (f k) = incoming k" for f and t :: "'a dns_state_scheme"
    by (rule sys_view_full) (simp add: that)
  have "sys_view (fst (setRecvBuffer this n s)) = sys_view s"
    using sys_view_send(5) [of "upd_sock this (\<lambda>k. k\<lparr>rcvBufSize := n\<rparr>) s"]
    by (cases "malloc (upd_sock this (\<lambda>k. k\<lparr>rcvBufSize := n\<rparr>) s)")
      (auto simp: setRecvBuffer_def sock split: option.split)
  moreover have "sys_view (fst (connectNonBlocking this sp h dp s)) = sys_view s" by (simp add: connectNonBlocking_def)
  moreover have "sys_view (flushRecv this s) = sys_view s" by (simp add: flushRecv_def sock)
  moreover have "sys_view (closeNonblocking this s) = sys_view s" by (simp add: closeNonblocking_def)
  ultimately show "sys_flow X c k A (fst (setRecvBuffer this n s))" "sys_flow X c k A (fst (connectNonBlocking this sp h dp s))"
    "sys_flow X c k A (flushRecv this s)" "sys_flow X c k A (closeNonblocking this s)"
    using assms sys_flow_cong by blast+
qed

lemma register_sys:
  fixes s :: "'a dns_state_scheme"
  assumes "sys_flow X c k A s"
  shows "\<exists>k'. sys_flow X c k' A (fst (registerCallback port f s))" "\<exists>k'. sys_flow X c k' A (fst (unregisterCallback port s))"
proof -
  have "sys_flow X c n A (s\<lparr>callbackList := l, callbackFunctions := g, callbackPorts := n\<rparr>)" for l g n
  proof -
    let ?t = "s\<lparr>callbackList := l, callbackFunctions := g, callbackPorts := n\<rparr>"
    have "own_view ?t = own_view s" by (simp add: own_view_def pool_view_def)
    from own_inv_cong [OF this, of X c] show ?thesis using assms by (simp add: sys_flow_def frag_few_def)
  qed
  note u = this
  have o: "s\<lparr>callbackPorts := n, callbackList := l, callbackFunctions := g\<rparr> =
      s\<lparr>callbackList := l, callbackFunctions := g, callbackPorts := n\<rparr>" for l g n by simp
  show "\<exists>k'. sys_flow X c k' A (fst (registerCallback port f s))"
    using assms u by (auto simp: registerCallback_def Let_def)
  show "\<exists>k'. sys_flow X c k' A (fst (unregisterCallback port s))"
    using assms u by (auto simp: unregisterCallback_def Let_def o split: option.split)
qed

text \<open>What is held by the program or by nobody.\<close>

definition step_flow :: "'a set \<Rightarrow> bufref multiset \<times> bufref multiset \<times> 'a dns_state_scheme \<Rightarrow> bool" where
  "step_flow A x \<longleftrightarrow> (case x of (L, X, s) \<Rightarrow> \<exists>k. sys_flow (L + X) None k A s)"

lemma stack_step_sys:
  assumes "stack_step user x y" and "user_consumes A user" and "step_flow A x"
  shows "step_flow A y"
  using assms(1,3)
proof (induction rule: stack_step.induct)
  case (Interrupt L X s i)
  then show ?case using drives_sys(3) [of "L + X" _ A s "[i]"] by (auto simp: step_flow_def interrupts_def)
next
  case (Process s s' L X)
  then show ?case using process_single_sys [OF assms(2)] unfolding step_flow_def prod.case by blast
next
  case (ProcessMult n s s' L X)
  then show ?case
    by (auto simp: step_flow_def packet_process_mult_def intro!: purge_sys elim: process_up_to_sys [OF assms(2), rotated])
next
  case (TakePacket s this q p L X)
  then show ?case using take_sys [of "L + X" None _ A s this] by (auto simp: step_flow_def add.assoc)
next
  case (GetSocket L X s)
  then show ?case using getSocket_sys by (fastforce simp: step_flow_def add_ac)
next
  case (SendUdp host sp dp len d pre s s' d' rc L X)
  then show ?case using sys_view_sendUdp sys_flow_cong unfolding step_flow_def prod.case by metis
next
  case (Send this m len s s' rc L X)
  then show ?case using sys_view_tcp_send sys_flow_cong unfolding step_flow_def prod.case by metis
next
  case (Query ev n s n' s' L X)
  then show ?case using drivePendingQuery_sys [OF assms(2)] unfolding step_flow_def prod.case by blast
next
  case (Resolve ev n name target sr tmp s n' s' a rc L X)
  then show ?case using dns_resolve_sys [OF assms(2), of "L + X" _ s ev n name target sr tmp n' s' a rc] by (auto simp: step_flow_def)
next
  case (Connect ev n this sp host dp ms s n' s' rc L X)
  then show ?case using connect_sys [OF assms(2), of "L + X" _ s ev n this sp host dp ms n' s' rc] by (auto simp: step_flow_def)
next
  case (Close ev n this s n' s' L X)
  then show ?case using close_sys [OF assms(2), of "L + X" _ s ev n this n' s'] by (auto simp: step_flow_def)
next
  case (GivePacket b X L s)
  then have "L + X - {#b#} = L + (X - {#b#})" by (simp add: multiset_eq_iff)
  then show ?case using GivePacket give_sys [of "L + X" None _ A s b] by (fastforce simp: step_flow_def)
qed (auto simp: step_flow_def register_sys intro: drives_sys isCloseDone_sys sys_keep sys_keep_socket)

lemma stack_run_sys:
  assumes "(stack_step user)\<^sup>*\<^sup>* x y" and "user_consumes A user" and "step_flow A x"
  shows "step_flow A y"
  using assms(1,3) by (induction rule: rtranclp_induct) (auto intro: stack_step_sys [OF _ assms(2)])

text \<open>The state the program starts from: the pool is filled and nobody has a packet yet.\<close>

definition no_packets :: "'a dns_state_scheme \<Rightarrow> bool" where
  "no_packets s \<longleftrightarrow> (\<forall>i. incoming (socks s i) = empty_ring) \<and> (\<forall>i<4. \<not> inUse (fragControl s i)) \<and>
     (\<forall>i. isIpBigPacket (BigPacketFreeList s i)) \<and> \<not> cfg_TCP_LISTEN s \<and> icmpCallback s = None"

definition receiving :: "'a net_scheme \<Rightarrow> 'a net_scheme" where
  "receiving s = Buffer_startReceiving (fst (Buffer_init s))"

lemma receiving_sys:
  assumes "no_packets s" and "malloc_ok s (heap_next s)"
  shows "sys_flow {#} None (callbackPorts s) UNIV (receiving s)"
proof -
  have f: "socks (receiving s) = socks s" "fragControl (receiving s) = fragControl s" "icmpCallback (receiving s) = icmpCallback s"
    "BigPacketFreeList (receiving s) = BigPacketFreeList s" "cfg_TCP_LISTEN (receiving s) = cfg_TCP_LISTEN s"
    "callbackPorts (receiving s) = callbackPorts s"
    using assms(2) by (simp_all add: receiving_def Buffer_init_def Buffer_startReceiving_def malloc_def Let_def)
  have e: "rb_wf (empty_ring :: bufref RingBuffer)" "rb_list (empty_ring :: bufref RingBuffer) = []"
    by (simp_all add: empty_ring_def rb_wf_def rb_list_def)
  have "own_total (receiving s) = {#}"
    using assms(1) by (simp add: own_total_def f no_packets_def inc_sum_def msum_def e frag_sum_def fc_held_def)
  moreover have "own_ok (receiving s)" using assms(1) by (simp add: own_ok_def f no_packets_def e)
  moreover have "frag_few (receiving s)" using assms(1) by (simp add: frag_few_def f no_packets_def)
  ultimately show ?thesis
    using assms buf_inv_init [OF assms(2)] by (simp add: sys_flow_def own_inv_def f no_packets_def) (simp add: receiving_def)
qed

lemma user_drops: "user_consumes A (\<lambda>_. Buffer_free)"
  unfolding user_consumes_def by (blast intro: drop.consumes refl)

text \<open>
  C13. The stack never doubles a receive buffer and loses one in a single way.  Whatever packets arrive (malformed,
  duplicated, fragmented, in any order) and whatever calls of \<open>stack_step\<close> the program makes, each of the ten
  buffers is always in exactly one place: the free stack, the receive ring, the queue of a socket, the
  reassembly table, with the program (\<open>X\<close>), or in \<open>L\<close>, the packets that were in the queue of a socket that
  \<^verbatim>\<open>getSocket\<close> initialised again, which happens to a socket that was given back while it held packets.  Each call
  of the handlers that the program registers for UDP ports or other packet types must dispose of its packet and leave
  the number of registered ports alone; no callback for echo requests is set, and listening sockets are not
  compiled in, as in the configuration of the bot.
\<close>

theorem stack_conserves_buffers:
  assumes "no_packets s0" and "malloc_ok s0 (heap_next s0)" and "user_consumes UNIV user"
    and "(stack_step user)\<^sup>*\<^sup>* ({#}, {#}, receiving s0) (L, X, s)"
  shows "mset (free_list s) + mset (ring_list s) +
      pool_part (inc_sum (\<lambda>i. incoming (socks s i)) + frag_sum (fragControl s) + X + L) =
    mset (map PoolBuf [0..<10])"
proof -
  have "step_flow UNIV ({#}, {#}, receiving s0)" using receiving_sys [OF assms(1,2)] by (auto simp: step_flow_def)
  from stack_run_sys [OF assms(4,3) this] show ?thesis
    by (auto simp: step_flow_def sys_flow_def own_inv_def buf_inv_def own_total_def pool_all_def add_ac)
qed

lemma zero_no_packets: "no_packets zero_dns_state" "malloc_ok zero_dns_state (heap_next zero_dns_state)"
  by (simp_all add: no_packets_def zero_dns zero_state zero_socket_def isIpBigPacket_def)

theorem stack_conserves_buffers_witness:
  "let s = interrupt (Incoming (replicate 60 7)) (receiving zero_dns_state) in
     mset (free_list s) + mset (ring_list s) + pool_part (inc_sum (\<lambda>i. incoming (socks s i)) + frag_sum (fragControl s) + {#} + {#}) =
       mset (map PoolBuf [0..<10])"
  unfolding Let_def
  by (rule stack_conserves_buffers [OF zero_no_packets user_drops r_into_rtranclp], rule Interrupt)

section \<open>The bot\<close>

lemma bot_more:
  fixes s s' :: "'a bot_state_scheme"
  assumes "dns_state.more s' = dns_state.more s"
  shows "recvPacket s' = recvPacket s" and "bot_sock s' = bot_sock s" and "sendBuffer s' = sendBuffer s"
  using assms by (cases s, cases s', simp)+

lemma bot_upd:
  fixes s :: "'a bot_state_scheme"
  shows "sys_flow X c k UNIV (s\<lparr>recvPacket := p\<rparr>) = sys_flow X c k UNIV s"
    and "sys_flow X c k UNIV (s\<lparr>sendBuffer := b\<rparr>) = sys_flow X c k UNIV s"
proof -
  have "own_view (s\<lparr>recvPacket := p\<rparr>) = own_view s" "own_view (s\<lparr>sendBuffer := b\<rparr>) = own_view s"
    by (simp_all add: own_view_def pool_view_def)
  note o = own_inv_cong [OF this(1)] own_inv_cong [OF this(2)]
  show "sys_flow X c k UNIV (s\<lparr>recvPacket := p\<rparr>) = sys_flow X c k UNIV s"
    "sys_flow X c k UNIV (s\<lparr>sendBuffer := b\<rparr>) = sys_flow X c k UNIV s"
    by (simp_all add: sys_flow_def o frag_few_def)
qed

lemma sys_flow_weaken: "sys_flow X c k A s \<Longrightarrow> sys_flow X c k UNIV s"
  and sys_flow_exact: "sys_flow X c k A s \<Longrightarrow> sys_flow X c k {dns_state.more s} s"
  and sys_flow_more: "sys_flow X c k {m} s \<Longrightarrow> dns_state.more s = m"
  by (simp_all add: sys_flow_def)

lemma dns_wait_sys:
  "dns_wait user ev keys n s = Some r \<Longrightarrow> user_consumes A user \<Longrightarrow> sys_flow X None k A s \<Longrightarrow>
    sys_flow X None k A (fst (snd r))"
proof (induction arbitrary: X k A rule: dns_wait.raw_induct [rotated, consumes 1, case_names 1])
  case (1 loop user ev keys n s r)
  show ?case
  proof (cases "queryPending s")
    case True
    then obtain t m u where t: "packet_process_single user (interrupts (ev n) s) = Some t"
      and u: "drivePendingQuery user ev (Suc n) (driveArp t) = Some (m, u)"
      and r: "(if keys m = ALT_X then Some (m, u, True) else loop user ev keys m u) = Some r"
      using 1(2) by (auto split: option.splits)
    have "sys_flow X None k A u"
      by (rule drivePendingQuery_sys [OF 1(3) drives_sys(2) [OF turn_sys [OF 1(3,4) t]] u])
    then show ?thesis using 1(1) [OF _ 1(3)] r by (auto split: if_splits)
  next
    case False
    then show ?thesis using 1(2,4) by auto
  qed
qed

lemma resolve_host_sys:
  assumes "user_consumes A user" and "sys_flow X None k A s"
    and "resolve_host user ev keys n tmp a s = Some (n', s', a', rc)"
  shows "sys_flow X None k A s'"
proof -
  obtain m t b c where t: "dns_resolve user ev n irc_host a True tmp s = Some (m, t, b, c)"
    using assms(3) by (auto simp: resolve_host_def split: option.splits)
  note ts = dns_resolve_sys [OF assms(1,2) t]
  show ?thesis
  proof (cases "c < 0")
    case True
    then show ?thesis using assms(3) ts by (auto simp: resolve_host_def t)
  next
    case False
    then obtain m' u x where u: "dns_wait user ev keys m t = Some (m', u, x)"
      using assms(3) by (auto simp: resolve_host_def t split: option.splits)
    have us: "sys_flow X None k A u" using dns_wait_sys [OF u assms(1) ts] by simp
    have last: "s' = u \<or> (\<exists>m'' b' c'. dns_resolve user ev m' irc_host b True tmp u = Some (m'', s', b', c'))"
      using assms(3) False by (auto simp: resolve_host_def t u split: if_splits)
    then show ?thesis using us dns_resolve_sys [OF assms(1) us] by blast
  qed
qed

lemma connect_host_sys:
  assumes "user_consumes A user" and "sys_flow X None k A s"
    and "connect_host user ev keys n tmp junk host this s = Some (n', s', rc)"
  shows "sys_flow X None k A s'"
proof -
  have rand: "sys_flow X None k A (fst (c_rand t))" if "sys_flow X None k A t" for t
  proof -
    have "sys_view (fst (c_rand t)) = sys_view t" by (simp add: c_rand_def sys_view_defs)
    then show ?thesis using that sys_flow_cong by blast
  qed
  obtain a p e where e: "getEnvironmentDetails host (fst junk) (snd junk) = Some (a, p, e)"
    using assms(3) by (auto simp: connect_host_def split: option.splits)
  have go: "sys_flow X None k A s'" if "sys_flow X None k A t"
      "connect user ev m this (snd (c_rand t) + 1024) b q 1000 (fst (c_rand t)) = Some (n', s', rc)" for m t b q
    using connect_sys [OF assms(1) rand [OF that(1)] that(2)] .
  show ?thesis
  proof (cases "e = 1")
    case True
    then obtain m t b c where t: "resolve_host user ev keys n tmp (octets_ip a) s = Some (m, t, b, c)"
      using assms(3) by (auto simp: connect_host_def e split: option.splits)
    note ts = resolve_host_sys [OF assms(1,2) t]
    show ?thesis
    proof (cases "c = 0")
      case True
      then show ?thesis using assms(3) \<open>e = 1\<close> go [OF ts] by (simp add: connect_host_def e t split_beta Let_def)
    next
      case False
      then show ?thesis using assms(3) \<open>e = 1\<close> ts by (simp add: connect_host_def e t)
    qed
  next
    case False
    then show ?thesis
      using assms(3) go [OF assms(2)] assms(2) by (auto simp: connect_host_def e split_beta Let_def split: if_splits)
  qed
qed

text \<open>The packet the bot works on is the one its variable points to.\<close>

definition bot_flow :: "'a bot_state_scheme \<Rightarrow> bool" where
  "bot_flow s \<longleftrightarrow> sys_flow (opt_mset (recvPacket s)) None (callbackPorts s) UNIV s"

lemma bot_flowI: "sys_flow (opt_mset (recvPacket s)) None k UNIV s \<Longrightarrow> bot_flow s"
  by (simp add: bot_flow_def sys_flow_def)

lemma bot_flow_exact:
  assumes "sys_flow X None k {m} s" and "dns_state.more t = m" and "X = opt_mset (recvPacket t)"
  shows "bot_flow s"
  using bot_more(1) [of s t] sys_flow_more [OF assms(1)] assms(2,3) sys_flow_weaken [OF assms(1)]
  by (intro bot_flowI) simp

lemma release_sys:
  assumes "bot_flow s"
  shows "sys_flow {#} None (callbackPorts s) UNIV (case recvPacket s of Some p \<Rightarrow> Buffer_free p s | None \<Rightarrow> s)"
  using assms give_sys [of "{#p#}" None "callbackPorts s" UNIV s p for p]
  by (auto simp: bot_flow_def split: option.split)

lemma take_incoming_sys:
  assumes "sys_flow {#} None k UNIV s"
  shows "sys_flow (opt_mset (recvPacket (take_incoming this s))) None k UNIV (take_incoming this s)"
  using take_sys [OF assms, of this] by (simp add: take_incoming_def split_beta bot_upd)

definition bot_handlers ::
    "'a bot_state_ext startup_state_ext config_state_ext timer_state_ext user \<Rightarrow> bool" where
  "bot_handlers user \<longleftrightarrow> (\<forall>A. user_consumes A user)"

lemma recv_loop_sys:
  "recv_loop user ev keys n this s = Some r \<Longrightarrow> bot_handlers user \<Longrightarrow> sys_flow {#} None k UNIV s \<Longrightarrow>
    bot_flow (fst (snd r))"
proof (induction rule: recv_loop.raw_induct [rotated, consumes 1, case_names 1])
  case (1 loop user ev keys n this s r)
  define t where "t = take_incoming this s"
  have t: "sys_flow (opt_mset (recvPacket t)) None k UNIV t" unfolding t_def by (rule take_incoming_sys [OF 1(4)])
  show ?case
  proof (cases "recvPacket t")
    case (Some p)
    then show ?thesis using 1(2) bot_flowI [OF t] by (auto simp: t_def)
  next
    case None
    then have e: "sys_flow {#} None k {dns_state.more t} t" using sys_flow_exact [OF t] by simp
    have h: "user_consumes {dns_state.more t} user" using 1(3) by (simp add: bot_handlers_def)
    obtain v m u where v: "packet_process_single user (interrupts (ev n) t) = Some v"
      and u: "drivePendingQuery user ev (Suc n) (drivePackets (driveArp v)) = Some (m, u)"
      and r: "(if isRemoteClosed (socks u this) then Some (m, u, Some 0) else if keys m = ALT_X then Some (m, u, Some (- 1))
        else loop user ev keys m this u) = Some r"
      using 1(2) None by (auto simp: t_def [symmetric] recv_turn_def split: option.splits)
    have us: "sys_flow {#} None k {dns_state.more t} u"
      by (rule drivePendingQuery_sys [OF h drives_sys(1) [OF drives_sys(2) [OF turn_sys [OF h e v]]] u])
    have "bot_flow u" by (rule bot_flow_exact [OF us refl]) (simp add: None)
    then show ?thesis using r 1(1) [OF _ 1(3) sys_flow_weaken [OF us]] by (auto split: if_splits)
  qed
qed

lemma recvNewPacket_bot:
  assumes "bot_flow s" and "bot_handlers user" and "recvNewPacket user ev keys n s = Some (n', s', rc)"
  shows "bot_flow s'"
proof -
  obtain this r where r: "recv_loop user ev keys n this (case recvPacket s of Some p \<Rightarrow> Buffer_free p s | None \<Rightarrow> s) = Some r"
    "s' = fst (snd r)"
    using assms(3) by (auto simp: recvNewPacket_def split: option.splits)
  show ?thesis unfolding r(2) by (rule recv_loop_sys [OF r(1) assms(2) release_sys [OF assms(1)]])
qed

lemma sendNewBuffer_bot:
  assumes "bot_flow s" and "bot_handlers user" and "sendNewBuffer user ev n p len s = Some (n', s', rc)"
  shows "bot_flow s'"
proof (cases "sint (MSS_to_advertise s) < len")
  case True
  then show ?thesis using assms(1,3) by (simp add: sendNewBuffer_def)
next
  case False
  then obtain b this where p: "p = UserData (Some b)" "bot_sock s = Some this"
    using assms(3) by (auto simp: sendNewBuffer_def split: user_ptr.splits option.splits)
  define u where "u = fst (getXmitBuf (fst (enqueue this b (upd_buf b (\<lambda>b. b\<lparr>b_dataLen := of_int len\<rparr>) s))))"
  define t where "t = u\<lparr>sendBuffer := snd (getXmitBuf (fst (enqueue this b (upd_buf b (\<lambda>b. b\<lparr>b_dataLen := of_int len\<rparr>) s))))\<rparr>"
  have buf: "sys_view (upd_buf b (\<lambda>b. b\<lparr>b_dataLen := of_int len\<rparr>) s) = sys_view s" by (rule sys_view_full) simp
  have us: "sys_view u = sys_view s" unfolding u_def sys_view_calls buf ..
  then have "sys_flow (opt_mset (recvPacket s)) None (callbackPorts s) UNIV u"
    using assms(1) sys_flow_cong unfolding bot_flow_def by blast
  then have t: "sys_flow (opt_mset (recvPacket s)) None (callbackPorts s) UNIV t" by (simp add: t_def bot_upd)
  have "dns_state.more u = dns_state.more s" using us by (simp add: sys_view_def udp_part_def)
  then have rp: "recvPacket t = recvPacket s" using bot_more(1) [of u s] by (simp add: t_def)
  have h: "user_consumes {dns_state.more t} user" using assms(2) by (simp add: bot_handlers_def)
  consider "s' = t" | v where "packet_process_single user (interrupts (ev n) t) = Some v" "s' = drivePackets (driveArp v)"
    using assms(3) False
    by (auto simp: sendNewBuffer_def p Let_def split_beta t_def u_def split: if_splits)
  then show ?thesis
  proof cases
    case 1
    then show ?thesis using bot_flowI [of t] t rp by simp
  next
    case (2 v)
    have "sys_flow (opt_mset (recvPacket s)) None (callbackPorts s) {dns_state.more t} s'"
      unfolding 2(2) by (rule drives_sys(1) [OF drives_sys(2) [OF turn_sys [OF h sys_flow_exact [OF t] 2(1)]]])
    then show ?thesis by (rule bot_flow_exact [OF _ refl]) (simp add: rp)
  qed
qed

end
