(* ===== verification/BotText.thy ===== *)
theory BotText
  imports ConfigFile
begin

text \<open>
  The text routines of the bot, in assembler: \<^verbatim>\<open>code/BOT/string.nas\<close> writes characters, strings and numbers into a
  buffer that never overflows, \<^verbatim>\<open>code/BOT/log.nas\<close> builds a line of the log from them.
\<close>

section \<open>Writing\<close>

text \<open>The write buffer with the registers \<^verbatim>\<open>di\<close> and \<^verbatim>\<open>cx\<close>: the position and the room that is left.\<close>

record text_out =
  o_mem :: mem
  o_di :: nat
  o_cx :: u16

definition writeChar :: "u8 \<Rightarrow> text_out \<Rightarrow> text_out" where
  "writeChar al w =
     (if o_cx w = 0 then w
      else w\<lparr>o_mem := (o_mem w)(o_di w := al), o_di := o_di w + 1, o_cx := o_cx w - 1\<rparr>)"

definition writeStr :: "mem \<Rightarrow> nat \<Rightarrow> u16 \<Rightarrow> text_out \<Rightarrow> text_out" where
  "writeStr m si bx w =
     (let bx = (if o_cx w < bx then o_cx w else bx)
      in w\<lparr>o_mem := memcpy (o_mem w) (o_di w) (rdbytes m si (unat bx)),
           o_di := o_di w + unat bx, o_cx := o_cx w - bx\<rparr>)"

text \<open>
  The loop of \<^verbatim>\<open>writeNum\<close> over the table of divisors, with the place of each: \<open>ax\<close> is what remains of the number, \<open>bx\<close>
  the padding less one.
\<close>

definition divTable :: "(u16 \<times> u16) list" where
  "divTable = [(4, 10000), (3, 1000), (2, 100), (1, 10)]"

fun writeNum_loop :: "u16 \<Rightarrow> (u16 \<times> u16) list \<Rightarrow> u16 \<Rightarrow> text_out \<Rightarrow> u16 \<times> text_out" where
  "writeNum_loop bx [] ax w = (ax, w)"
| "writeNum_loop bx ((si, d) # table) ax w =
     writeNum_loop bx table (ax mod d)
       (if ax div d = 0 \<and> sint bx < sint si then w else writeChar (ucast (ax div d + 0x30)) w)"

definition writeNum :: "u16 \<Rightarrow> u16 \<Rightarrow> text_out \<Rightarrow> text_out" where
  "writeNum ax bx w =
     (case writeNum_loop (bx - 1) divTable ax w of (ax, w) \<Rightarrow> writeChar (ucast (ax + 0x30)) w)"

definition writeNumSigned :: "u16 \<Rightarrow> u16 \<Rightarrow> text_out \<Rightarrow> text_out" where
  "writeNumSigned ax bx w =
     (if 0 \<le> sint ax then writeNum ax bx w else writeNum (- ax) bx (writeChar 0x2D w))"

section \<open>The log\<close>

record dos_clock =
  ck_year :: u16
  ck_month :: u8
  ck_day :: u8
  ck_hour :: u8
  ck_minute :: u8
  ck_second :: u8

definition createTimestamp :: "dos_clock \<Rightarrow> text_out \<Rightarrow> text_out" where
  "createTimestamp t w =
     (let w = writeNum (ck_year t) 4 w; w = writeChar 45 w;
          w = writeNum (ucast (ck_month t)) 2 w; w = writeChar 45 w;
          w = writeNum (ucast (ck_day t)) 2 w; w = writeChar 84 w;
          w = writeNum (ucast (ck_hour t)) 2 w; w = writeChar 58 w;
          w = writeNum (ucast (ck_minute t)) 2 w; w = writeChar 58 w
      in writeNum (ucast (ck_second t)) 2 w)"

definition logBufferLen :: u16 where "logBufferLen = 512"

text \<open>The bytes that \<^verbatim>\<open>writeLog\<close> writes to the file and to the screen.\<close>

definition logGeneral :: "dos_clock \<Rightarrow> mem \<Rightarrow> mem \<Rightarrow> nat \<Rightarrow> u16 \<Rightarrow> mem \<Rightarrow> nat \<Rightarrow> u16 \<Rightarrow> u8 list" where
  "logGeneral t logBuffer tag ax bx line si cx =
     (let w = createTimestamp t \<lparr>o_mem = logBuffer, o_di = 0, o_cx = logBufferLen\<rparr>;
          w = writeChar 0x20 w; w = writeStr tag ax bx w;
          w = writeChar 0x20 w; w = writeStr line si cx w;
          w = writeChar 0x0D w; w = writeChar 0x0A w
      in rdbytes (o_mem w) 0 (unat (logBufferLen - o_cx w)))"

text \<open>
  Opening the log: the file that the environment names is created, or opened when it is there.  The two DOS
  calls return a handle or an error code; the result is the handle that is stored and the return value.
\<close>

definition openLog :: "cstr option \<Rightarrow> (cstr \<Rightarrow> u16 + u16) \<Rightarrow> (cstr \<Rightarrow> u16 + u16) \<Rightarrow> u16 option \<times> u16" where
  "openLog env create_new open_file =
     (case env of
        None \<Rightarrow> (None, 5)
      | Some name \<Rightarrow>
          (case create_new name of
             Inr handle \<Rightarrow> (Some handle, 0)
           | Inl err \<Rightarrow>
               if err \<noteq> 0x50 then (None, err)
               else (case open_file name of Inr handle \<Rightarrow> (Some handle, 0) | Inl err \<Rightarrow> (None, err))))"

section \<open>What is written\<close>

text \<open>The reference: the text as far as there is room for it.\<close>

definition puts :: "u8 list \<Rightarrow> text_out \<Rightarrow> text_out" where
  "puts xs w = (let ys = take (unat (o_cx w)) xs
     in w\<lparr>o_mem := memcpy (o_mem w) (o_di w) ys, o_di := o_di w + length ys, o_cx := o_cx w - of_nat (length ys)\<rparr>)"

lemma puts_Nil [simp]: "puts [] w = w"
  by (simp add: puts_def)

lemma memcpy_single: "memcpy m p [x] = m(p := x)"
  by (auto simp: memcpy_def fun_eq_iff)

lemma writeChar_puts: "writeChar c w = puts [c] w"
proof (cases "o_cx w = 0")
  case False
  then have "take (unat (o_cx w)) [c] = [c]" by (cases "unat (o_cx w)") (simp_all add: unat_eq_zero)
  then show ?thesis using False by (simp add: writeChar_def puts_def memcpy_single)
qed (simp add: writeChar_def puts_def)

lemma writeStr_puts: "writeStr m si bx w = puts (rdbytes m si (unat bx)) w"
proof -
  have t: "take n (rdbytes m si k) = rdbytes m si (min n k)" for n k
    by (rule nth_equalityI) auto
  have "min (unat (o_cx w)) (unat bx) = unat (if o_cx w < bx then o_cx w else bx)"
    by (auto simp: word_less_nat_alt min_def)
  then show ?thesis by (simp add: writeStr_def puts_def t Let_def)
qed

lemma puts_cx: "unat (o_cx (puts xs w)) = unat (o_cx w) - length xs" "o_di (puts xs w) = o_di w + min (unat (o_cx w)) (length xs)"
proof -
  let ?k = "min (unat (o_cx w)) (length xs)"
  have k: "?k \<le> unat (o_cx w)" by simp
  then have "unat (of_nat ?k :: u16) = ?k" using u16_bound [of "o_cx w"] by (simp add: unsigned_of_nat take_bit_nat_less)
  then have "unat (o_cx w - of_nat ?k) = unat (o_cx w) - ?k" using k by (simp add: unat_sub word_le_nat_alt)
  then show "unat (o_cx (puts xs w)) = unat (o_cx w) - length xs" "o_di (puts xs w) = o_di w + min (unat (o_cx w)) (length xs)"
    by (simp_all add: puts_def min.commute)
qed

lemma puts_puts: "puts ys (puts xs w) = puts (xs @ ys) w"
proof -
  have "o_cx (puts ys (puts xs w)) = o_cx (puts (xs @ ys) w)"
    by (simp add: word_unat_eq_iff puts_cx)
  moreover have "o_di (puts ys (puts xs w)) = o_di (puts (xs @ ys) w)" by (simp add: puts_cx)
  moreover have "o_mem (puts ys (puts xs w)) = o_mem (puts (xs @ ys) w)"
    using memcpy_append [of "o_mem w" "o_di w" "take (unat (o_cx w)) xs"] puts_cx [of xs w]
    by (simp add: puts_def Let_def)
  ultimately show ?thesis by simp
qed

text \<open>The digits of \<^verbatim>\<open>writeNum\<close>, and the reference: the last \<open>k\<close> decimal digits of a number.\<close>

fun num_digits :: "u16 \<Rightarrow> (u16 \<times> u16) list \<Rightarrow> u16 \<Rightarrow> u8 list" where
  "num_digits bx [] ax = [ucast (ax + 0x30)]"
| "num_digits bx ((si, d) # table) ax =
     (if ax div d = 0 \<and> sint bx < sint si then [] else [ucast (ax div d + 0x30)]) @ num_digits bx table (ax mod d)"

lemma writeNum_puts: "writeNum ax bx w = puts (num_digits (bx - 1) divTable ax) w"
proof -
  have "(case writeNum_loop b t ax w of (ax, w) \<Rightarrow> writeChar (ucast (ax + 0x30)) w) = puts (num_digits b t ax) w" for b t
    by (induction b t ax w rule: writeNum_loop.induct) (simp_all add: writeChar_puts puts_puts)
  then show ?thesis by (simp add: writeNum_def)
qed

fun fixed :: "nat \<Rightarrow> nat \<Rightarrow> cstr" where
  "fixed 0 n = []"
| "fixed (Suc k) n = fixed k (n div 10) @ [48 + of_nat (n mod 10)]"

lemma fixed_dec:
  assumes "n < 10 ^ k" and "0 < k"
  shows "fixed k n = replicate (k - length (dec n)) 48 @ dec n"
  using assms
proof (induction k arbitrary: n)
  case (Suc k)
  show ?case
  proof (cases "n < 10")
    case True
    have "fixed j 0 = replicate j 48" for j
      by (induction j) (simp_all flip: replicate_append_same)
    then show ?thesis using True by (subst (1 2) dec.simps) simp
  next
    case False
    then have "n div 10 < 10 ^ k" "0 < k" using Suc.prems by (auto simp: div_less_iff_less_mult intro: gr0I)
    then show ?thesis using Suc.IH [of "n div 10"] False by (subst (1 2) dec.simps) simp
  qed
qed simp

lemma digit_u16: "unat x < 10 \<Longrightarrow> ucast (x + 0x30 :: u16) = (48 + of_nat (unat x) :: u8)"
proof -
  assume "unat x < 10"
  then have "unat (x + 0x30) = unat x + 48" by (intro unat_add_lem [THEN iffD1, of x "0x30", simplified]) simp
  then have "ucast (x + 0x30 :: u16) = (of_nat (unat x + 48) :: u8)" by (metis of_nat_unat)
  then show ?thesis by simp
qed

lemma u16_div_mod: "unat (x div y) = unat x div unat (y :: u16)" "unat (x mod y) = unat x mod unat (y :: u16)"
  by (simp_all add: unat_div_distrib unat_mod_distrib)

text \<open>The places of a number of up to five digits.\<close>

lemma mod_mult_div: "0 < b \<Longrightarrow> n mod (b * c) div b = n div b mod (c :: nat)"
  by (simp add: mod_mult2_eq)

lemma places:
  fixes n :: nat
  shows "n mod 10000 div 1000 = n div 1000 mod 10" "n mod 10000 mod 1000 = n mod 1000"
    "n mod 1000 div 100 = n div 100 mod 10" "n mod 1000 mod 100 = n mod 100"
    "n mod 100 div 10 = n div 10 mod 10" "n mod 100 mod 10 = n mod 10"
  using mod_mult_div [of 1000 n 10] mod_mult_div [of 100 n 10] mod_mult_div [of 10 n 10]
  by (simp_all add: mod_mod_cancel)

definition place :: "u16 \<Rightarrow> int \<Rightarrow> nat \<Rightarrow> u8 list" where
  "place bx si q = (if q = 0 \<and> sint bx < si then [] else [48 + of_nat q])"

lemma num_digits_places:
  fixes bx ax :: u16
  defines "n \<equiv> unat ax"
  shows "num_digits bx divTable ax = place bx 4 (n div 10000) @ place bx 3 (n div 1000 mod 10) @ place bx 2 (n div 100 mod 10) @
    place bx 1 (n div 10 mod 10) @ [48 + of_nat (n mod 10)]"
proof -
  have p: "(if x = 0 \<and> sint bx < i then [] else [ucast (x + 0x30)]) = place bx i (unat x)" if "unat x < 10" for x :: u16 and i
    using that by (simp add: place_def digit_u16 unat_eq_0)
  have n: "n < 65536" unfolding n_def by (rule u16_bound)
  have u: "unat (ax div 10000) = n div 10000" "unat (ax mod 10000 div 1000) = n div 1000 mod 10"
    "unat (ax mod 10000 mod 1000 div 100) = n div 100 mod 10" "unat (ax mod 10000 mod 1000 mod 100 div 10) = n div 10 mod 10"
    "unat (ax mod 10000 mod 1000 mod 100 mod 10) = n mod 10"
    by (simp_all add: u16_div_mod places n_def)
  have "unat (ax div 10000) < 10" unfolding u using n by (simp add: div_less_iff_less_mult)
  then show ?thesis
    using p [of "ax div 10000" 4] p [of "ax mod 10000 div 1000" 3] p [of "ax mod 10000 mod 1000 div 100" 2]
      p [of "ax mod 10000 mod 1000 mod 100 div 10" 1] digit_u16 [of "ax mod 10000 mod 1000 mod 100 mod 10"]
    unfolding u by (simp add: divTable_def)
qed

lemma fixed_Cons: "fixed (Suc k) n = (48 + of_nat (n div 10 ^ k mod 10)) # fixed k n"
  by (induction k arbitrary: n) (simp_all add: div_mult2_eq)

lemma fixed_places:
  "fixed (Suc 0) n = [48 + of_nat (n mod 10)]"
  "fixed 2 n = (48 + of_nat (n div 10 mod 10)) # fixed (Suc 0) n"
  "fixed 3 n = (48 + of_nat (n div 100 mod 10)) # fixed 2 n"
  "fixed 4 n = (48 + of_nat (n div 1000 mod 10)) # fixed 3 n"
  "fixed 5 n = (48 + of_nat (n div 10000 mod 10)) # fixed 4 n"
proof -
  have s: "(2 :: nat) = Suc 1" "(3 :: nat) = Suc 2" "(4 :: nat) = Suc 3" "(5 :: nat) = Suc 4" by simp_all
  show "fixed (Suc 0) n = [48 + of_nat (n mod 10)]" by simp
  show "fixed 2 n = (48 + of_nat (n div 10 mod 10)) # fixed (Suc 0) n" by (subst s(1), subst fixed_Cons) simp
  show "fixed 3 n = (48 + of_nat (n div 100 mod 10)) # fixed 2 n" by (subst s(2), subst fixed_Cons) simp
  show "fixed 4 n = (48 + of_nat (n div 1000 mod 10)) # fixed 3 n" by (subst s(3), subst fixed_Cons) simp
  show "fixed 5 n = (48 + of_nat (n div 10000 mod 10)) # fixed 4 n" by (subst s(4), subst fixed_Cons) simp
qed

lemma num_digits_fixed:
  assumes "unat ax < 10 ^ k" and "k = 1 \<or> k = 2 \<or> k = 3 \<or> k = 4 \<or> k = 5"
  shows "num_digits (of_nat k - 1) divTable ax = fixed k (unat ax)"
proof -
  let ?n = "unat ax"
  have n: "?n div 10000 mod 10 = ?n div 10000" using u16_bound [of ax] by (simp add: div_less_iff_less_mult)
  have z: "?n < 10 \<Longrightarrow> ?n div 10 = 0" "?n < 100 \<Longrightarrow> ?n div 100 = 0" "?n < 1000 \<Longrightarrow> ?n div 1000 = 0"
    "?n < 10000 \<Longrightarrow> ?n div 10000 = 0" by simp_all
  show ?thesis using assms n
    by (elim disjE) (simp_all add: num_digits_places place_def fixed_places z del: fixed.simps)
qed

section \<open>Numbers and log lines\<close>

lemma writeNum_fixed:
  assumes "unat ax < 10 ^ unat bx" and "1 \<le> unat bx" and "unat bx \<le> 5"
  shows "writeNum ax bx w = puts (fixed (unat bx) (unat ax)) w"
proof -
  have "unat bx = 1 \<or> unat bx = 2 \<or> unat bx = 3 \<or> unat bx = 4 \<or> unat bx = 5" using assms(2,3) by arith
  from num_digits_fixed [OF assms(1) this] show ?thesis by (simp add: writeNum_puts)
qed

text \<open>
  A number that is not padded to its length loses the zeros inside it, since a place is written only when its digit is
  not zero or it is below the padding.
\<close>

lemma writeNum_drops_zeros: "writeNum 100 0 w = puts (ascii ''10'') w" "writeNum 2005 0 w = puts (ascii ''25'') w"
  by (simp_all add: writeNum_puts num_digits_places place_def ascii_def of_char_def)

definition time_text :: "dos_clock \<Rightarrow> cstr" where
  "time_text t = fixed 4 (unat (ck_year t)) @ 45 # fixed 2 (unat (ck_month t)) @ 45 # fixed 2 (unat (ck_day t)) @
     84 # fixed 2 (unat (ck_hour t)) @ 58 # fixed 2 (unat (ck_minute t)) @ 58 # fixed 2 (unat (ck_second t))"

definition clock_ok :: "dos_clock \<Rightarrow> bool" where
  "clock_ok t \<longleftrightarrow> ck_year t < 10000 \<and> ck_month t < 100 \<and> ck_day t < 100 \<and> ck_hour t < 100 \<and> ck_minute t < 100 \<and> ck_second t < 100"

lemma createTimestamp_text:
  assumes "clock_ok t"
  shows "createTimestamp t w = puts (time_text t) w"
proof -
  have y: "writeNum (ck_year t) 4 w = puts (fixed 4 (unat (ck_year t))) w" for w
    using writeNum_fixed [of "ck_year t" 4] assms by (simp add: clock_ok_def word_less_nat_alt)
  have two: "writeNum (ucast x) 2 w = puts (fixed 2 (unat x)) w" if "x < 100" for x :: u8 and w
    using writeNum_fixed [of "ucast x" 2 w] that by (simp add: word_less_nat_alt)
  show ?thesis
    using assms by (simp add: createTimestamp_def Let_def y two clock_ok_def writeChar_puts puts_puts time_text_def)
qed

lemma puts_written:
  assumes "o_di w = 0"
  shows "rdbytes (o_mem (puts xs w)) 0 (unat (o_cx w) - unat (o_cx (puts xs w))) = take (unat (o_cx w)) xs"
proof -
  have n: "unat (o_cx w) - unat (o_cx (puts xs w)) = length (take (unat (o_cx w)) xs)" by (simp add: puts_cx)
  have "o_mem (puts xs w) = memcpy (o_mem w) 0 (take (unat (o_cx w)) xs)" by (simp add: puts_def assms)
  then show ?thesis unfolding n by (simp only: rdbytes_memcpy_same)
qed

text \<open>A line of the log is the time, the tag and the text, cut off at 512 bytes.\<close>

lemma logGeneral_text:
  assumes "clock_ok t"
  shows "logGeneral t logBuffer tag ax bx line si cx =
    take 512 (time_text t @ 32 # rdbytes tag ax (unat bx) @ 32 # rdbytes line si (unat cx) @ [13, 10])"
proof -
  let ?w = "\<lparr>o_mem = logBuffer, o_di = 0, o_cx = logBufferLen\<rparr>"
  let ?xs = "time_text t @ 32 # rdbytes tag ax (unat bx) @ 32 # rdbytes line si (unat cx) @ [13, 10]"
  have "unat (logBufferLen - o_cx (puts ?xs ?w)) = unat logBufferLen - unat (o_cx (puts ?xs ?w))"
    by (rule unat_sub) (simp add: word_le_nat_alt puts_cx)
  then have "logGeneral t logBuffer tag ax bx line si cx =
      rdbytes (o_mem (puts ?xs ?w)) 0 (unat (o_cx ?w) - unat (o_cx (puts ?xs ?w)))"
    by (simp add: logGeneral_def Let_def createTimestamp_text [OF assms] writeChar_puts writeStr_puts puts_puts)
  also have "\<dots> = take (unat (o_cx ?w)) ?xs" by (rule puts_written) simp
  finally show ?thesis by (simp add: logBufferLen_def)
qed

end
