(* ===== verification/BotParse.thy ===== *)
theory BotParse
  imports BotText "HOL-Library.Monad_Syntax"
begin

text \<open>
  The parser of IRC lines, in assembler: \<^verbatim>\<open>code/BOT/parse.nas\<close>.  It copies the parts of a line behind each other into a
  buffer of 512 bytes and leaves pointers to them; it refines a parser of byte lists.
\<close>

section \<open>State\<close>

text \<open>
  The registers \<^verbatim>\<open>bx\<close> and \<^verbatim>\<open>si\<close> of the read buffer, \<^verbatim>\<open>cx\<close> and \<^verbatim>\<open>di\<close> of the write buffer, and \<^verbatim>\<open>bp\<close>, the entry of \<^verbatim>\<open>paramsList\<close> that
  is filled.  A pointer into \<^verbatim>\<open>parseBuffer\<close> is the offset in it.  A routine returns its carry flag: whether it failed; what
  it leaves in \<^verbatim>\<open>al\<close> is its result.
\<close>

record parser =
  p_in :: mem
  p_si :: nat
  p_bx :: u16
  p_di :: nat
  p_cx :: u16
  p_bp :: nat
  parseBuffer :: mem
  tagsBuffer :: nat
  tagsBufferLen :: u16
  prefixBuffer :: nat
  prefixBufferLen :: u16
  cmdBuffer :: nat
  cmdBufferLen :: u16
  paramsList :: "nat \<Rightarrow> nat \<times> u16"
  paramsListLen :: u16

definition parseBufferLenMax :: u16 where "parseBufferLenMax = 512"
definition paramsListMax :: u16 where "paramsListMax = 4"

section \<open>Single characters\<close>

definition peek :: "parser \<Rightarrow> u8 option" where
  "peek s = (if p_bx s = 0 then None else Some (p_in s (p_si s)))"

definition read :: "parser \<Rightarrow> (u8 \<times> parser) option" where
  "read s = (if p_bx s = 0 then None else Some (p_in s (p_si s), s\<lparr>p_si := p_si s + 1, p_bx := p_bx s - 1\<rparr>))"

definition copy :: "parser \<Rightarrow> parser option" where
  "copy s =
     (if p_bx s = 0 \<or> p_cx s = 0 then None
      else Some (s\<lparr>parseBuffer := (parseBuffer s)(p_di s := p_in s (p_si s)), p_si := p_si s + 1, p_di := p_di s + 1,
             p_bx := p_bx s - 1, p_cx := p_cx s - 1\<rparr>))"

lemma unat_dec_less: "(x :: u16) \<noteq> 0 \<Longrightarrow> unat (x - 1) < unat x"
  by (metis diff_less unat_gt_0 unat_minus_one zero_less_one)

lemma read_less: "read s = Some (c, t) \<Longrightarrow> unat (p_bx t) < unat (p_bx s)"
  and copy_less: "copy s = Some t \<Longrightarrow> unat (p_bx t) < unat (p_bx s)"
  by (auto simp: read_def copy_def unat_dec_less split: if_splits)

section \<open>Words\<close>

function copyWord :: "parser \<Rightarrow> parser \<times> bool" where
  "copyWord s =
     (case peek s of
        None \<Rightarrow> (s, True)
      | Some al \<Rightarrow>
          (if al = 32 \<or> al = 13 then (s, False)
           else (case copy s of None \<Rightarrow> (s, True) | Some s \<Rightarrow> copyWord s)))"
  by pat_completeness auto

termination copyWord
  by (relation "measure (\<lambda>s. unat (p_bx s))") (auto dest: copy_less)

function skipSpace :: "parser \<Rightarrow> parser \<times> bool" where
  "skipSpace s =
     (case peek s of
        None \<Rightarrow> (s, True)
      | Some al \<Rightarrow>
          (if al \<noteq> 32 then (s, False)
           else (case read s of None \<Rightarrow> (s, True) | Some (al, s) \<Rightarrow> skipSpace s)))"
  by pat_completeness auto

termination skipSpace
  by (relation "measure (\<lambda>s. unat (p_bx s))") (auto dest: read_less)

function copyToCR :: "parser \<Rightarrow> parser \<times> bool" where
  "copyToCR s =
     (case peek s of
        None \<Rightarrow> (s, True)
      | Some al \<Rightarrow>
          (if al = 13 then (s, False)
           else (case copy s of None \<Rightarrow> (s, True) | Some s \<Rightarrow> copyToCR s)))"
  by pat_completeness auto

termination copyToCR
  by (relation "measure (\<lambda>s. unat (p_bx s))") (auto dest: copy_less)

declare copyWord.simps [simp del] skipSpace.simps [simp del] copyToCR.simps [simp del]

text \<open>The macro \<^verbatim>\<open>do_parse\<close>.\<close>

definition do_parse :: "('s \<Rightarrow> 's \<times> bool) \<Rightarrow> ('s \<Rightarrow> 's \<times> bool) \<Rightarrow> 's \<Rightarrow> 's \<times> bool" where
  "do_parse f g s = (case f s of (s, cf) \<Rightarrow> if cf then (s, True) else g s)"

definition parseWordIf :: "u8 \<Rightarrow> parser \<Rightarrow> parser \<times> bool" where
  "parseWordIf ah s =
     (case peek s of
        None \<Rightarrow> (s, True)
      | Some al \<Rightarrow>
          (if al \<noteq> ah then (s, False)
           else (case read s of None \<Rightarrow> (s, True) | Some (al, s) \<Rightarrow> do_parse copyWord skipSpace s)))"

section \<open>The parts of a line\<close>

definition parseCRLF :: "parser \<Rightarrow> parser \<times> bool" where
  "parseCRLF s =
     (case read s of
        None \<Rightarrow> (s, True)
      | Some (al, s) \<Rightarrow>
          (if al \<noteq> 13 then (s, True)
           else (case read s of None \<Rightarrow> (s, True) | Some (al, s) \<Rightarrow> (s, al \<noteq> 10))))"

definition parseTags :: "parser \<Rightarrow> parser \<times> bool" where
  "parseTags s =
     do_parse (parseWordIf 64) (\<lambda>s. (s\<lparr>tagsBufferLen := tagsBufferLen s - p_cx s\<rparr>, False))
       (s\<lparr>tagsBuffer := p_di s, tagsBufferLen := p_cx s\<rparr>)"

definition parsePrefix :: "parser \<Rightarrow> parser \<times> bool" where
  "parsePrefix s =
     do_parse (parseWordIf 58) (\<lambda>s. (s\<lparr>prefixBufferLen := prefixBufferLen s - p_cx s\<rparr>, False))
       (s\<lparr>prefixBuffer := p_di s, prefixBufferLen := p_cx s\<rparr>)"

definition parseCmd :: "parser \<Rightarrow> parser \<times> bool" where
  "parseCmd s =
     do_parse copyWord (\<lambda>s. (s\<lparr>cmdBufferLen := cmdBufferLen s - p_cx s\<rparr>, False))
       (s\<lparr>cmdBuffer := p_di s, cmdBufferLen := p_cx s\<rparr>)"

text \<open>One parameter: the text after a colon up to the end of the line, or a word.\<close>

definition parseParam :: "parser \<Rightarrow> parser \<times> bool" where
  "parseParam s =
     (let s = s\<lparr>paramsList := (paramsList s)(p_bp s := (p_di s, p_cx s))\<rparr>
      in do_parse
           (do_parse skipSpace (\<lambda>s.
              (case peek s of
                 None \<Rightarrow> (s, True)
               | Some al \<Rightarrow>
                   (if al = 58 then (case read s of None \<Rightarrow> (s, True) | Some (al, s) \<Rightarrow> copyToCR s)
                    else copyWord s))))
           (\<lambda>s. (s\<lparr>paramsList := (paramsList s)(p_bp s := (fst (paramsList s (p_bp s)), snd (paramsList s (p_bp s)) - p_cx s)),
                   p_bp := p_bp s + 1\<rparr>, False)) s)"

lemma frame_word: "paramsListLen (fst (copyWord s)) = paramsListLen s" "paramsListLen (fst (skipSpace s)) = paramsListLen s"
  "paramsListLen (fst (copyToCR s)) = paramsListLen s"
proof -
  show "paramsListLen (fst (copyWord s)) = paramsListLen s"
    by (induction s rule: copyWord.induct) (subst copyWord.simps, auto simp: copy_def split: option.split if_splits)
  show "paramsListLen (fst (skipSpace s)) = paramsListLen s"
    by (induction s rule: skipSpace.induct) (subst skipSpace.simps, auto simp: read_def split: option.split if_splits)
  show "paramsListLen (fst (copyToCR s)) = paramsListLen s"
    by (induction s rule: copyToCR.induct) (subst copyToCR.simps, auto simp: copy_def split: option.split if_splits)
qed

lemma do_parse_keeps:
  assumes "\<And>s. P (fst (f s)) = P s" and "\<And>s. P (fst (g s)) = P s"
  shows "P (fst (do_parse f g s)) = P s"
  using assms(1) [of s] assms(2) by (auto simp: do_parse_def split: prod.split)

lemma frame_param: "paramsListLen (fst (parseParam s)) = paramsListLen s"
proof -
  have r: "read u = Some (c, v) \<Longrightarrow> paramsListLen v = paramsListLen u" for u c v by (auto simp: read_def split: if_splits)
  show ?thesis unfolding parseParam_def Let_def
    by (subst do_parse_keeps [where P = paramsListLen], rule do_parse_keeps [where P = paramsListLen])
      (auto simp: frame_word split: option.split dest: r)
qed

text \<open>\<^verbatim>\<open>jl\<close> compares signed numbers.\<close>

function parseParams :: "parser \<Rightarrow> parser \<times> bool" where
  "parseParams s =
     (let s = s\<lparr>paramsListLen := paramsListLen s + 1\<rparr>
      in if \<not> sint (paramsListLen s) < sint paramsListMax then (s, True)
         else (case parseParam s of
             (s', True) \<Rightarrow> (s', True)
           | (s', False) \<Rightarrow>
               (case peek s' of None \<Rightarrow> (s', True) | Some al \<Rightarrow> if al \<noteq> 13 then parseParams s' else (s', False))))"
  by pat_completeness auto

termination parseParams
proof (relation "measure (\<lambda>s. unat (3 - paramsListLen s))", goal_cases)
  case (2 s u t cf al)
  then have "fst (parseParam u) = t" by (metis fst_conv)
  then have t: "paramsListLen t = paramsListLen s + 1" using frame_param [of u] 2(1) by simp
  have "3 - paramsListLen s \<noteq> 0"
  proof
    assume "3 - paramsListLen s = 0"
    then have "paramsListLen s = 3" by simp
    then show False using 2(1,2) by (simp add: paramsListMax_def)
  qed
  then show ?case using unat_dec_less [of "3 - paramsListLen s"] by (simp add: t diff_diff_eq [symmetric])
qed simp

declare parseParams.simps [simp del]

definition parseMessage :: "parser \<Rightarrow> parser \<times> bool" where
  "parseMessage =
     do_parse parseTags (do_parse parsePrefix (do_parse parseCmd (\<lambda>s.
       do_parse parseParams parseCRLF (s\<lparr>p_bp := 0, paramsListLen := 0\<rparr>))))"

definition doParse :: "mem \<Rightarrow> nat \<Rightarrow> u16 \<Rightarrow> parser \<Rightarrow> parser \<times> bool" where
  "doParse line si cx s =
     (case parseMessage (s\<lparr>p_in := line, p_si := si, p_bx := cx, p_di := 0, p_cx := parseBufferLenMax\<rparr>) of
        (s, cf) \<Rightarrow> (s, cf \<or> p_bx s \<noteq> 0))"

text \<open>A parameter, \<^verbatim>\<open>NULL\<close> when there are not as many.\<close>

function paramAt_loop :: "u16 \<Rightarrow> nat \<Rightarrow> nat" where
  "paramAt_loop ax si = (let ax = ax - 1; si = si + 1 in if ax \<noteq> 0 then paramAt_loop ax si else si)"
  by pat_completeness auto

termination paramAt_loop
proof (relation "measure (\<lambda>(ax, si). unat (ax - 1))", goal_cases)
  case (2 ax si x y)
  then show ?case using unat_dec_less [of "ax - 1"] by simp
qed simp

declare paramAt_loop.simps [simp del]

definition paramAt :: "u16 \<Rightarrow> parser \<Rightarrow> (nat \<times> u16) option" where
  "paramAt ax s =
     (if sint ax < sint (paramsListLen s) then Some (paramsList s (if ax = 0 then 0 else paramAt_loop ax 0)) else None)"

section \<open>The routines on the bytes that are left\<close>

definition inp :: "parser \<Rightarrow> cstr" where
  "inp s = rdbytes (p_in s) (p_si s) (unat (p_bx s))"

text \<open>\<open>k\<close> bytes read and \<open>ws\<close> written.\<close>

definition consumed :: "nat \<Rightarrow> u8 list \<Rightarrow> parser \<Rightarrow> parser" where
  "consumed k ws s = s\<lparr>p_si := p_si s + k, p_bx := p_bx s - of_nat k, parseBuffer := memcpy (parseBuffer s) (p_di s) ws,
     p_di := p_di s + length ws, p_cx := p_cx s - of_nat (length ws)\<rparr>"

lemma length_inp: "length (inp s) = unat (p_bx s)"
  by (simp add: inp_def)

lemma consumed_0 [simp]: "consumed 0 [] s = s"
  by (simp add: consumed_def)

lemma consumed_consumed: "consumed k ws (consumed j vs s) = consumed (j + k) (vs @ ws) s"
  using memcpy_append [of "parseBuffer s" "p_di s" vs ws] by (simp add: consumed_def)

lemma unat_minus_of_nat: "k \<le> unat (x :: u16) \<Longrightarrow> unat (x - of_nat k) = unat x - k"
proof -
  assume k: "k \<le> unat x"
  then have "unat (of_nat k :: u16) = k" using u16_bound [of x] by (simp add: unsigned_of_nat take_bit_nat_less)
  then show ?thesis using k by (simp add: unat_sub word_le_nat_alt)
qed

lemma inp_consumed: "k \<le> length (inp s) \<Longrightarrow> inp (consumed k ws s) = drop k (inp s)"
  by (rule nth_equalityI) (simp_all add: inp_def consumed_def unat_minus_of_nat add.assoc)

lemma room_consumed: "length ws \<le> unat (p_cx s) \<Longrightarrow> unat (p_cx (consumed k ws s)) = unat (p_cx s) - length ws"
  by (simp add: consumed_def unat_minus_of_nat)

lemma inp_cases: "p_bx s = 0 \<Longrightarrow> inp s = []" "p_bx s \<noteq> 0 \<Longrightarrow> \<exists>cs. inp s = p_in s (p_si s) # cs"
proof -
  assume "p_bx s \<noteq> 0"
  then obtain n where "unat (p_bx s) = Suc n" by (metis not0_implies_Suc unat_eq_zero)
  then show "\<exists>cs. inp s = p_in s (p_si s) # cs" by (simp add: inp_def rdbytes_def upt_conv_Cons del: upt_Suc)
qed (simp add: inp_def)

lemma chars_inp:
  "peek s = (case inp s of [] \<Rightarrow> None | c # cs \<Rightarrow> Some c)"
  "read s = (case inp s of [] \<Rightarrow> None | c # cs \<Rightarrow> Some (c, consumed 1 [] s))"
  "copy s = (case inp s of [] \<Rightarrow> None | c # cs \<Rightarrow> if p_cx s = 0 then None else Some (consumed 1 [c] s))"
  by (cases "p_bx s = 0"; use inp_cases [of s] in \<open>auto simp: peek_def read_def copy_def consumed_def memcpy_single\<close>)+

lemma copier:
  fixes f :: "parser \<Rightarrow> parser \<times> bool" and stop :: "u8 \<Rightarrow> bool"
  defines "w \<equiv> \<lambda>s. takeWhile (\<lambda>c. \<not> stop c) (inp s)"
  assumes "\<And>s. f s = (case peek s of None \<Rightarrow> (s, True) | Some al \<Rightarrow> if stop al then (s, False)
      else case copy s of None \<Rightarrow> (s, True) | Some s \<Rightarrow> f s)"
  shows "if length (w s) < length (inp s) \<and> length (w s) \<le> unat (p_cx s) then f s = (consumed (length (w s)) (w s) s, False)
    else snd (f s)"
proof (induction "inp s" arbitrary: s)
  case Nil
  then show ?case by (subst assms(2)) (simp add: chars_inp w_def flip: Nil)
next
  case (Cons c cs)
  note c = Cons(2) [symmetric]
  show ?case
  proof (cases "stop c \<or> p_cx s = 0")
    case True
    then show ?thesis by (subst (1 2) assms(2)) (auto simp: chars_inp w_def c)
  next
    case False
    define t where "t = consumed 1 [c] s"
    have t: "f s = f t" using False by (subst assms(2)) (simp add: chars_inp c t_def)
    have i: "inp t = cs" using inp_consumed [of 1 s "[c]"] by (simp add: c t_def)
    have cx: "unat (p_cx s) = Suc (unat (p_cx t))"
      using room_consumed [of "[c]" s 1] False unat_gt_0 [of "p_cx s"] by (simp add: t_def)
    have w: "w s = c # w t" using False by (simp add: w_def c i)
    have "consumed k ws t = consumed (Suc k) (c # ws) s" for k ws
      using consumed_consumed [of k ws 1 "[c]" s] by (simp add: t_def)
    then show ?thesis using Cons(1) [of t] by (simp add: t w i c cx)
  qed
qed

definition sep :: "u8 \<Rightarrow> bool" where "sep c \<longleftrightarrow> c = 32 \<or> c = 13"

text \<open>The outcome of a routine that fails when the condition does not hold.\<close>

definition parses :: "bool \<Rightarrow> 's \<Rightarrow> 's \<times> bool \<Rightarrow> bool" where
  "parses ok t r \<longleftrightarrow> (if ok then r = (t, False) else snd r)"

lemma copyWord_parses:
  fixes s :: parser
  defines "w \<equiv> takeWhile (\<lambda>c. \<not> sep c) (inp s)"
  shows "parses (length w < length (inp s) \<and> length w \<le> unat (p_cx s)) (consumed (length w) w s) (copyWord s)"
  unfolding parses_def w_def by (rule copier) (unfold sep_def, rule copyWord.simps)

lemma copyToCR_parses:
  fixes s :: parser
  defines "w \<equiv> takeWhile (\<lambda>c. \<not> c = 13) (inp s)"
  shows "parses (length w < length (inp s) \<and> length w \<le> unat (p_cx s)) (consumed (length w) w s) (copyToCR s)"
  unfolding parses_def w_def by (rule copier) (rule copyToCR.simps)

lemma skipSpace_parses:
  "parses (length (takeWhile (\<lambda>c. c = 32) (inp s)) < length (inp s)) (consumed (length (takeWhile (\<lambda>c. c = 32) (inp s))) [] s) (skipSpace s)"
proof (induction "inp s" arbitrary: s)
  case Nil
  then show ?case by (subst skipSpace.simps) (simp add: chars_inp parses_def flip: Nil)
next
  case (Cons c cs)
  note c = Cons(2) [symmetric]
  show ?case
  proof (cases "c = 32")
    case True
    define t where "t = consumed 1 [] s"
    have t: "skipSpace s = skipSpace t" using True by (subst skipSpace.simps) (simp add: chars_inp c t_def)
    have i: "inp t = cs" using inp_consumed [of 1 s "[]"] by (simp add: c t_def)
    have "consumed k [] t = consumed (Suc k) [] s" for k using consumed_consumed [of k "[]" 1 "[]" s] by (simp add: t_def)
    then show ?thesis using Cons(1) [of t] True by (simp add: t i c parses_def)
  next
    case False
    then show ?thesis by (subst skipSpace.simps) (simp add: chars_inp c parses_def)
  qed
qed

section \<open>The reference: a parser of byte lists\<close>

text \<open>Each part takes the room that is left in the buffer, and returns what it copies and what it leaves to read.\<close>

definition p_until :: "(u8 \<Rightarrow> bool) \<Rightarrow> nat \<Rightarrow> cstr \<Rightarrow> (cstr \<times> cstr) option" where
  "p_until stop room xs =
     (let w = takeWhile (\<lambda>c. \<not> stop c) xs; r = dropWhile (\<lambda>c. \<not> stop c) xs
      in if r = [] \<or> room < length w then None else Some (w, r))"

definition p_spaces :: "cstr \<Rightarrow> cstr option" where
  "p_spaces xs = (let r = dropWhile (\<lambda>c. c = 32) xs in if r = [] then None else Some r)"

definition p_word_if :: "u8 \<Rightarrow> nat \<Rightarrow> cstr \<Rightarrow> (cstr \<times> cstr) option" where
  "p_word_if c room xs =
     (case xs of
        [] \<Rightarrow> None
      | x # ys \<Rightarrow> if x \<noteq> c then Some ([], xs)
          else do { (w, r) \<leftarrow> p_until sep room ys; r \<leftarrow> p_spaces r; Some (w, r) })"

definition p_param :: "nat \<Rightarrow> cstr \<Rightarrow> (cstr \<times> cstr) option" where
  "p_param room xs =
     do { r \<leftarrow> p_spaces xs; if hd r = 58 then p_until (\<lambda>c. c = 13) room (tl r) else p_until sep room r }"

fun p_params :: "nat \<Rightarrow> nat \<Rightarrow> cstr \<Rightarrow> (cstr list \<times> cstr) option" where
  "p_params 0 room xs = None"
| "p_params (Suc k) room xs =
     do { (w, r) \<leftarrow> p_param room xs;
          if hd r = 13 then Some ([w], r)
          else do { (ws, r) \<leftarrow> p_params k (room - length w) r; Some (w # ws, r) } }"

record irc_msg =
  m_tags :: cstr
  m_prefix :: cstr
  m_cmd :: cstr
  m_params :: "cstr list"

definition parse_line :: "cstr \<Rightarrow> irc_msg option" where
  "parse_line xs =
     do { (t, r) \<leftarrow> p_word_if 64 512 xs;
          (p, r) \<leftarrow> p_word_if 58 (512 - length t) r;
          (c, r) \<leftarrow> p_until sep (512 - length t - length p) r;
          (ps, r) \<leftarrow> p_params 3 (512 - length t - length p - length c) r;
          if r = [13, 10] then Some \<lparr>m_tags = t, m_prefix = p, m_cmd = c, m_params = ps\<rparr> else None }"

section \<open>The routines refine the reference\<close>

definition moved :: "cstr \<Rightarrow> parser \<Rightarrow> parser \<Rightarrow> bool" where
  "moved w s t \<longleftrightarrow> unat (p_cx t) + length w = unat (p_cx s) \<and> parseBuffer t = memcpy (parseBuffer s) (p_di s) w \<and>
     p_di t = p_di s + length w"

definition vars where
  "vars s = (tagsBuffer s, tagsBufferLen s, prefixBuffer s, prefixBufferLen s, cmdBuffer s, cmdBufferLen s,
     paramsList s, paramsListLen s, p_bp s)"

lemma moved_trans: "moved v s t \<Longrightarrow> moved w t u \<Longrightarrow> moved (v @ w) s u"
  using memcpy_append [of "parseBuffer s" "p_di s" v w] by (simp add: moved_def)

lemma moved_room: "moved w s t \<Longrightarrow> unat (p_cx t) = unat (p_cx s) - length w"
  unfolding moved_def by linarith

lemma moved_Nil: "moved [] s s"
  by (simp add: moved_def)

lemma moved_consumed: "length w \<le> unat (p_cx s) \<Longrightarrow> moved w s (consumed k w s)" and vars_consumed [simp]: "vars (consumed k w s) = vars s"
  by (simp_all add: moved_def room_consumed) (simp_all add: consumed_def vars_def)

text \<open>What is behind a pointer stays there.\<close>

definition holds :: "parser \<Rightarrow> nat \<times> u16 \<Rightarrow> cstr \<Rightarrow> bool" where
  "holds s x w \<longleftrightarrow> fst x + unat (snd x) \<le> p_di s \<and> rdbytes (parseBuffer s) (fst x) (unat (snd x)) = w"

lemma holds_moved: "holds s x w \<Longrightarrow> moved v s t \<Longrightarrow> holds t x w"
  by (auto simp: holds_def moved_def rdbytes_memcpy_disj)

lemma moved_holds: "moved w s t \<Longrightarrow> holds t (p_di s, p_cx s - p_cx t) w"
proof -
  assume m: "moved w s t"
  then have "unat (p_cx s - p_cx t) = length w" by (subst unat_sub) (auto simp: moved_def word_le_nat_alt)
  then show ?thesis using m by (simp add: holds_def moved_def)
qed

definition refines :: "(cstr \<times> cstr) option \<Rightarrow> parser \<Rightarrow> parser \<times> bool \<Rightarrow> bool" where
  "refines x s r \<longleftrightarrow> (case x of None \<Rightarrow> snd r
     | Some (w, xs) \<Rightarrow> \<exists>t. r = (t, False) \<and> inp t = xs \<and> moved w s t \<and> vars t = vars s)"

lemma length_dropWhile_less: "length (takeWhile P xs) < length xs \<longleftrightarrow> dropWhile P xs \<noteq> []"
  by (metis append_Nil2 length_append length_greater_0_conv less_add_same_cancel1 order_less_irrefl takeWhile_dropWhile_id)

lemma copier_refines:
  assumes "parses (length (takeWhile (\<lambda>c. \<not> stop c) (inp s)) < length (inp s) \<and> length (takeWhile (\<lambda>c. \<not> stop c) (inp s)) \<le> unat (p_cx s))
    (consumed (length (takeWhile (\<lambda>c. \<not> stop c) (inp s))) (takeWhile (\<lambda>c. \<not> stop c) (inp s)) s) r"
  shows "refines (p_until stop (unat (p_cx s)) (inp s)) s r"
proof -
  let ?w = "takeWhile (\<lambda>c. \<not> stop c) (inp s)"
  have "inp (consumed (length ?w) ?w s) = dropWhile (\<lambda>c. \<not> stop c) (inp s)"
    by (subst inp_consumed) (simp_all add: length_takeWhile_le dropWhile_eq_drop)
  then show ?thesis
    using assms moved_consumed [of ?w s "length ?w"]
    by (auto simp: refines_def p_until_def parses_def length_dropWhile_less Let_def split: if_splits)
qed

lemmas copyWord_refines = copier_refines [OF copyWord_parses]
lemmas copyToCR_refines = copier_refines [OF copyToCR_parses]

lemma skipSpace_refines: "refines (map_option (\<lambda>r. ([], r)) (p_spaces (inp s))) s (skipSpace s)"
proof -
  let ?w = "takeWhile (\<lambda>c. c = 32) (inp s)"
  have "inp (consumed (length ?w) [] s) = dropWhile (\<lambda>c. c = 32) (inp s)"
    by (subst inp_consumed) (simp_all add: length_takeWhile_le dropWhile_eq_drop)
  then show ?thesis
    using skipSpace_parses [of s] moved_consumed [of "[]" s "length ?w"]
    by (auto simp: refines_def p_spaces_def parses_def length_dropWhile_less Let_def split: if_splits)
qed

lemma refinesE:
  assumes "refines x s r"
  obtains (fails) "x = None" "snd r" | (succeeds) w xs t where "x = Some (w, xs)" "r = (t, False)" "inp t = xs" "moved w s t" "vars t = vars s"
  using assms unfolding refines_def by (cases x) auto

lemma refines_do_parse:
  assumes "refines x s (f s)" and "\<And>w r t. x = Some (w, r) \<Longrightarrow> inp t = r \<Longrightarrow> moved w s t \<Longrightarrow> vars t = vars s \<Longrightarrow> refines (y w r) t (g t)"
  shows "refines (do { (w, r) \<leftarrow> x; (v, r) \<leftarrow> y w r; Some (w @ v, r) }) s (do_parse f g s)"
proof (cases rule: refinesE [OF assms(1)])
  case 1
  then show ?thesis by (simp add: refines_def do_parse_def split_beta)
next
  case (2 w xs t)
  note g = assms(2) [OF 2(1,3,4,5)]
  show ?thesis
    by (cases rule: refinesE [OF g])
      (use 2 moved_trans [OF 2(4)] in \<open>auto simp: refines_def do_parse_def\<close>)
qed

lemma read_char: "inp s = c # cs \<Longrightarrow> read s = Some (c, consumed 1 [] s)" "inp s = c # cs \<Longrightarrow> inp (consumed 1 [] s) = cs"
  "moved [] s (consumed 1 [] s)" "p_cx (consumed 1 [] s) = p_cx s"
  using inp_consumed [of 1 s "[]"] moved_consumed [of "[]" s 1] by (simp_all add: chars_inp) (simp add: consumed_def)

lemma refines_after_read:
  assumes "refines x (consumed 1 [] s) r"
  shows "refines x s r"
  using assms moved_trans [OF read_char(3)] by (fastforce simp: refines_def split: option.splits)

lemma parseWordIf_refines: "refines (p_word_if c (unat (p_cx s)) (inp s)) s (parseWordIf c s)"
proof (cases "inp s")
  case Nil
  then show ?thesis by (simp add: refines_def p_word_if_def parseWordIf_def chars_inp)
next
  case (Cons x ys)
  define t where "t = consumed 1 [] s"
  note t = read_char(1,2) [OF Cons, folded t_def] read_char(4) [of s, folded t_def]
  show ?thesis
  proof (cases "x = c")
    case True
    have "refines (do { (w, r) \<leftarrow> p_until sep (unat (p_cx t)) (inp t);
        (v, r) \<leftarrow> map_option (\<lambda>r. ([], r)) (p_spaces r); Some (w @ v, r) }) t (do_parse copyWord skipSpace t)"
      by (rule refines_do_parse [OF copyWord_refines]) (use skipSpace_refines in auto)
    also have "do { (w, r) \<leftarrow> p_until sep (unat (p_cx t)) (inp t);
        (v, r) \<leftarrow> map_option (\<lambda>r. ([], r)) (p_spaces r); Some (w @ v, r) } = p_word_if c (unat (p_cx s)) (inp s)"
      using True by (auto simp: p_word_if_def Cons t bind_map_option comp_def split: Option.bind_split)
    finally show ?thesis
      using True refines_after_read by (simp add: parseWordIf_def t(1) t_def) (simp add: chars_inp Cons)
  next
    case False
    then show ?thesis using moved_Nil by (auto simp: refines_def p_word_if_def parseWordIf_def chars_inp Cons)
  qed
qed

text \<open>The parts with their pointers: the remaining bytes, what was written, and the variables.\<close>

lemma vars_eqD:
  assumes "vars t = vars s"
  shows "tagsBuffer t = tagsBuffer s" "tagsBufferLen t = tagsBufferLen s" "prefixBuffer t = prefixBuffer s"
    "prefixBufferLen t = prefixBufferLen s" "cmdBuffer t = cmdBuffer s" "cmdBufferLen t = cmdBufferLen s"
    "paramsList t = paramsList s" "paramsListLen t = paramsListLen s" "p_bp t = p_bp s"
  using assms by (simp_all add: vars_def)

lemma parseTags_spec:
  "case p_word_if 64 (unat (p_cx s)) (inp s) of None \<Rightarrow> snd (parseTags s)
   | Some (w, xs) \<Rightarrow> \<exists>t. parseTags s = (t, False) \<and> inp t = xs \<and> moved w s t \<and>
       vars t = vars (s\<lparr>tagsBuffer := p_di s, tagsBufferLen := p_cx s - p_cx t\<rparr>)"
proof -
  let ?s = "s\<lparr>tagsBuffer := p_di s, tagsBufferLen := p_cx s\<rparr>"
  have i: "inp ?s = inp s" by (simp add: inp_def)
  have "refines (p_word_if 64 (unat (p_cx s)) (inp s)) ?s (parseWordIf 64 ?s)"
    using parseWordIf_refines [of 64 ?s] by (simp add: i)
  then show ?thesis
    by (cases rule: refinesE)
      (auto simp: parseTags_def do_parse_def split_beta inp_def moved_def vars_def)
qed

lemma parsePrefix_spec:
  "case p_word_if 58 (unat (p_cx s)) (inp s) of None \<Rightarrow> snd (parsePrefix s)
   | Some (w, xs) \<Rightarrow> \<exists>t. parsePrefix s = (t, False) \<and> inp t = xs \<and> moved w s t \<and>
       vars t = vars (s\<lparr>prefixBuffer := p_di s, prefixBufferLen := p_cx s - p_cx t\<rparr>)"
proof -
  let ?s = "s\<lparr>prefixBuffer := p_di s, prefixBufferLen := p_cx s\<rparr>"
  have i: "inp ?s = inp s" by (simp add: inp_def)
  have "refines (p_word_if 58 (unat (p_cx s)) (inp s)) ?s (parseWordIf 58 ?s)"
    using parseWordIf_refines [of 58 ?s] by (simp add: i)
  then show ?thesis
    by (cases rule: refinesE)
      (auto simp: parsePrefix_def do_parse_def split_beta inp_def moved_def vars_def)
qed

lemma parseCmd_spec:
  "case p_until sep (unat (p_cx s)) (inp s) of None \<Rightarrow> snd (parseCmd s)
   | Some (w, xs) \<Rightarrow> \<exists>t. parseCmd s = (t, False) \<and> inp t = xs \<and> moved w s t \<and>
       vars t = vars (s\<lparr>cmdBuffer := p_di s, cmdBufferLen := p_cx s - p_cx t\<rparr>)"
proof -
  let ?s = "s\<lparr>cmdBuffer := p_di s, cmdBufferLen := p_cx s\<rparr>"
  have i: "inp ?s = inp s" by (simp add: inp_def)
  have "refines (p_until sep (unat (p_cx s)) (inp s)) ?s (copyWord ?s)"
    using copyWord_refines [of ?s] by (simp add: i)
  then show ?thesis
    by (cases rule: refinesE)
      (auto simp: parseCmd_def do_parse_def split_beta inp_def moved_def vars_def)
qed

definition param_body :: "parser \<Rightarrow> parser \<times> bool" where
  "param_body s =
     (case peek s of
        None \<Rightarrow> (s, True)
      | Some al \<Rightarrow> if al = 58 then (case read s of None \<Rightarrow> (s, True) | Some (al, s) \<Rightarrow> copyToCR s) else copyWord s)"

lemma param_body_refines:
  assumes "inp s \<noteq> []"
  shows "refines (if hd (inp s) = 58 then p_until (\<lambda>c. c = 13) (unat (p_cx s)) (tl (inp s))
     else p_until sep (unat (p_cx s)) (inp s)) s (param_body s)"
proof -
  obtain x ys where x: "inp s = x # ys" using assms by (cases "inp s") auto
  define t where "t = consumed 1 [] s"
  note t = read_char(1,2) [OF x, folded t_def] read_char(4) [of s, folded t_def]
  have "refines (p_until (\<lambda>c. c = 13) (unat (p_cx s)) ys) s (copyToCR t)"
    using refines_after_read [of _ s "copyToCR t", folded t_def, OF copyToCR_refines [of t]] by (simp add: t)
  then show ?thesis
    using copyWord_refines [of s] by (simp add: param_body_def chars_inp(1) t(1) x)
qed

lemma p_param_bind:
  "p_param room xs = do { (w, r) \<leftarrow> map_option (\<lambda>r. ([], r)) (p_spaces xs);
     (v, r) \<leftarrow> (if hd r = 58 then p_until (\<lambda>c. c = 13) room (tl r) else p_until sep room r); Some (w @ v, r) }"
  by (auto simp: p_param_def bind_map_option comp_def split: Option.bind_split)

lemma p_spaces_nonempty: "p_spaces xs = Some r \<Longrightarrow> r \<noteq> []"
  by (auto simp: p_spaces_def Let_def split: if_splits)

lemma parseParam_spec:
  "case p_param (unat (p_cx s)) (inp s) of None \<Rightarrow> snd (parseParam s)
   | Some (w, xs) \<Rightarrow> \<exists>t. parseParam s = (t, False) \<and> inp t = xs \<and> moved w s t \<and>
       vars t = vars (s\<lparr>paramsList := (paramsList s)(p_bp s := (p_di s, p_cx s - p_cx t)), p_bp := p_bp s + 1\<rparr>)"
proof -
  let ?s = "s\<lparr>paramsList := (paramsList s)(p_bp s := (p_di s, p_cx s))\<rparr>"
  have i: "inp ?s = inp s" by (simp add: inp_def)
  have "refines (p_param (unat (p_cx ?s)) (inp ?s)) ?s (do_parse skipSpace param_body ?s)"
    unfolding p_param_bind
  proof (rule refines_do_parse [OF skipSpace_refines])
    fix w r t
    assume "map_option (\<lambda>r. ([], r)) (p_spaces (inp ?s)) = Some (w, r)" "inp t = r" "moved w ?s t"
    then show "refines (if hd r = 58 then p_until (\<lambda>c. c = 13) (unat (p_cx ?s)) (tl r) else p_until sep (unat (p_cx ?s)) r) t (param_body t)"
      using param_body_refines [of t] p_spaces_nonempty by (auto simp: moved_def)
  qed
  then show ?thesis unfolding i
    by (cases rule: refinesE)
      (auto simp: parseParam_def param_body_def [abs_def, symmetric] do_parse_def [of "do_parse f g" for f g] split_beta inp_def moved_def vars_def)
qed

lemma p_until_nonempty: "p_until stop room xs = Some (w, r) \<Longrightarrow> r \<noteq> []"
  by (auto simp: p_until_def Let_def split: if_splits)

lemma p_param_nonempty: "p_param room xs = Some (w, r) \<Longrightarrow> r \<noteq> []"
  by (auto simp: p_param_def p_until_nonempty split: Option.bind_splits if_splits)

definition outer where
  "outer s = (tagsBuffer s, tagsBufferLen s, prefixBuffer s, prefixBufferLen s, cmdBuffer s, cmdBufferLen s)"

lemma outer_vars: "vars t = vars s \<Longrightarrow> outer t = outer s"
  by (simp add: vars_def outer_def)

definition parsed_params :: "cstr list \<Rightarrow> parser \<Rightarrow> parser \<Rightarrow> bool" where
  "parsed_params ws s t \<longleftrightarrow> moved (concat ws) s t \<and> outer t = outer s \<and>
     paramsListLen t = paramsListLen s + of_nat (length ws) \<and> (\<forall>i<p_bp s. paramsList t i = paramsList s i) \<and>
     (\<forall>i<length ws. holds t (paramsList t (p_bp s + i)) (ws ! i))"

lemma parsed_params_Cons:
  assumes "moved w s t" and "outer t = outer s" and "p_bp t = p_bp s + 1" and "paramsListLen t = paramsListLen s + 1"
    and "paramsList t = (paramsList s)(p_bp s := (p_di s, p_cx s - p_cx t))" and "parsed_params ws t u"
  shows "parsed_params (w # ws) s u"
proof -
  have m: "moved (concat ws) t u" using assms(6) by (simp add: parsed_params_def)
  have "paramsList u (p_bp s) = (p_di s, p_cx s - p_cx t)" using assms(3,5,6) by (simp add: parsed_params_def)
  then have "holds u (paramsList u (p_bp s)) w" using holds_moved [OF moved_holds [OF assms(1)] m] by simp
  moreover have "holds u (paramsList u (p_bp s + Suc i)) (ws ! i)" if "i < length ws" for i
    using assms(3,6) that by (auto simp: parsed_params_def)
  ultimately have "\<forall>i<length (w # ws). holds u (paramsList u (p_bp s + i)) ((w # ws) ! i)"
    by (auto simp: less_Suc_eq_0_disj)
  then show ?thesis using assms moved_trans [OF assms(1) m] by (auto simp: parsed_params_def)
qed

lemma parseParams_spec:
  assumes "paramsListLen s = of_nat (3 - k)" and "k \<le> 3"
  shows "case p_params k (unat (p_cx s)) (inp s) of None \<Rightarrow> snd (parseParams s)
    | Some (ws, xs) \<Rightarrow> \<exists>t. parseParams s = (t, False) \<and> inp t = xs \<and> parsed_params ws s t \<and> ws \<noteq> [] \<and> length ws \<le> k"
  using assms
proof (induction k arbitrary: s)
  case 0
  then show ?case by (subst parseParams.simps) (simp add: Let_def paramsListMax_def)
next
  case (Suc k)
  let ?s = "s\<lparr>paramsListLen := paramsListLen s + 1\<rparr>"
  have n: "paramsListLen s + 1 = of_nat (3 - k)" using Suc.prems by (cases "k = 0"; cases "k = 1"; cases "k = 2") simp_all
  have "k = 0 \<or> k = 1 \<or> k = 2" using Suc.prems(2) by arith
  then have lt: "sint (paramsListLen s + 1) < sint paramsListMax" unfolding n paramsListMax_def by (elim disjE) simp_all
  have i: "inp ?s = inp s" by (simp add: inp_def)
  note pp = parseParam_spec [of ?s, unfolded i]
  show ?case
  proof (cases "p_param (unat (p_cx s)) (inp s)")
    case None
    then show ?thesis using pp lt by (subst parseParams.simps) (auto simp: Let_def split: prod.split bool.split)
  next
    case (Some wr)
    obtain w r where wr: "p_param (unat (p_cx s)) (inp s) = Some (w, r)" using Some by (cases wr) simp
    obtain t where t: "parseParam ?s = (t, False)" "inp t = r" "moved w s t"
      "vars t = vars (?s\<lparr>paramsList := (paramsList ?s)(p_bp ?s := (p_di ?s, p_cx ?s - p_cx t)), p_bp := p_bp ?s + 1\<rparr>)"
      using pp wr by (auto simp: moved_def)
    obtain c cs where r: "r = c # cs" using p_param_nonempty [OF wr] by (cases r) auto
    have f: "outer t = outer s" "p_bp t = p_bp s + 1" "paramsListLen t = paramsListLen s + 1"
      "paramsList t = (paramsList s)(p_bp s := (p_di s, p_cx s - p_cx t))"
      using t(4) by (simp_all add: vars_def outer_def)
    note cons = parsed_params_Cons [OF t(3) f(1,2,3,4)]
    have room: "unat (p_cx t) = unat (p_cx s) - length w" using t(3) by (rule moved_room)
    have step: "parseParams s = (if c \<noteq> 13 then parseParams t else (t, False))"
      using lt t(1) by (subst parseParams.simps) (simp add: Let_def chars_inp t(2) r)
    show ?thesis
    proof (cases "c = 13")
      case True
      have "parsed_params [] t t" by (simp add: parsed_params_def moved_Nil)
      then show ?thesis using True cons by (auto simp: step wr r t(2))
    next
      case False
      have "paramsListLen t = of_nat (3 - k)" using f(3) n by simp
      from Suc.IH [OF this] have "case p_params k (unat (p_cx s) - length w) r of None \<Rightarrow> snd (parseParams t)
        | Some (ws, xs) \<Rightarrow> \<exists>u. parseParams t = (u, False) \<and> inp u = xs \<and> parsed_params ws t u \<and> ws \<noteq> [] \<and> length ws \<le> k"
        using Suc.prems(2) by (simp add: room t(2))
      then show ?thesis using False cons by (cases "p_params k (unat (p_cx s) - length w) r") (auto simp: step wr r)
    qed
  qed
qed

text \<open>The message behind the pointers.\<close>

definition ptr_text :: "parser \<Rightarrow> nat \<times> u16 \<Rightarrow> cstr" where
  "ptr_text s x = rdbytes (parseBuffer s) (fst x) (unat (snd x))"

definition parsed :: "parser \<Rightarrow> irc_msg" where
  "parsed s = \<lparr>m_tags = ptr_text s (tagsBuffer s, tagsBufferLen s), m_prefix = ptr_text s (prefixBuffer s, prefixBufferLen s),
     m_cmd = ptr_text s (cmdBuffer s, cmdBufferLen s), m_params = map (\<lambda>i. ptr_text s (paramsList s i)) [0..<unat (paramsListLen s)]\<rparr>"

lemma holds_text: "holds s x w \<Longrightarrow> ptr_text s x = w"
  by (simp add: holds_def ptr_text_def)

text \<open>A stage of the parser: it fails when its reference does, and otherwise leaves a state with the postcondition.\<close>

definition stage :: "('a \<times> cstr) option \<Rightarrow> parser \<times> bool \<Rightarrow> ('a \<Rightarrow> parser \<Rightarrow> bool) \<Rightarrow> bool" where
  "stage x r Q \<longleftrightarrow> (case x of None \<Rightarrow> snd r | Some (v, xs) \<Rightarrow> \<exists>t. r = (t, False) \<and> inp t = xs \<and> Q v t)"

lemma stage_seq:
  assumes "stage x (f s) Q" and "\<And>v t. Q v t \<Longrightarrow> stage (y v (inp t)) (g t) R"
  shows "stage (do { (v, xs) \<leftarrow> x; y v xs }) (do_parse f g s) R"
proof (cases x)
  case None
  then show ?thesis using assms(1) by (simp add: stage_def do_parse_def split_beta)
next
  case (Some vx)
  obtain v xs where v: "x = Some (v, xs)" using Some by (cases vx) simp
  obtain t where t: "f s = (t, False)" "inp t = xs" "Q v t" using assms(1) v by (auto simp: stage_def)
  then show ?thesis using assms(2) [OF t(3)] by (simp add: v do_parse_def)
qed

definition finish :: "parser \<times> bool \<Rightarrow> parser \<times> bool" where
  "finish r = (fst r, snd r \<or> p_bx (fst r) \<noteq> 0)"

lemma finish_do_parse: "finish (do_parse f g s) = do_parse f (\<lambda>s. finish (g s)) s"
  by (simp add: finish_def do_parse_def split_beta)

lemma doParse_finish:
  "doParse line si cx s = do_parse parseTags (do_parse parsePrefix (do_parse parseCmd (\<lambda>s.
     do_parse parseParams (\<lambda>s. finish (parseCRLF s)) (s\<lparr>p_bp := 0, paramsListLen := 0\<rparr>))))
     (s\<lparr>p_in := line, p_si := si, p_bx := cx, p_di := 0, p_cx := parseBufferLenMax\<rparr>)"
proof -
  have "doParse line si cx s = finish (parseMessage (s\<lparr>p_in := line, p_si := si, p_bx := cx, p_di := 0, p_cx := parseBufferLenMax\<rparr>))"
    by (simp add: doParse_def finish_def split_beta)
  then show ?thesis by (simp add: parseMessage_def finish_do_parse)
qed

lemma parseCRLF_stage:
  "stage (if inp s = [13, 10] then Some ((), []) else None) (finish (parseCRLF s)) (\<lambda>_ t. vars t = vars s \<and> moved [] s t)"
proof -
  have e: "p_bx u = 0 \<longleftrightarrow> inp u = []" for u using inp_cases [of u] by (cases "p_bx u = 0") auto
  consider "inp s = []" | c where "inp s = [c]" | c d cs where "inp s = c # d # cs" by (metis neq_Nil_conv)
  then show ?thesis
  proof cases
    case 1
    then show ?thesis by (simp add: parseCRLF_def chars_inp stage_def finish_def)
  next
    case (2 c)
    define t where "t = consumed 1 [] s"
    note t = read_char(1,2) [OF 2, folded t_def]
    show ?thesis by (simp add: parseCRLF_def t(1) chars_inp(2) [of t] t(2) 2 stage_def finish_def)
  next
    case (3 c d cs)
    define t where "t = consumed 1 [] s"
    define u where "u = consumed 1 [] t"
    note t = read_char(1,2) [OF 3, folded t_def]
    note u = read_char(1,2) [OF t(2), folded u_def]
    have "moved [] s u" "vars u = vars s"
      using moved_trans [OF read_char(3) read_char(3), of s] by (simp_all add: u_def t_def)
    then show ?thesis by (auto simp: parseCRLF_def t(1) u(1) e u(2) 3 stage_def finish_def)
  qed
qed

definition at_tags where "at_tags a t \<longleftrightarrow> holds t (tagsBuffer t, tagsBufferLen t) a \<and> unat (p_cx t) + p_di t = 512"
definition at_prefix where "at_prefix b t \<longleftrightarrow> holds t (prefixBuffer t, prefixBufferLen t) b"
definition at_cmd where "at_cmd c t \<longleftrightarrow> holds t (cmdBuffer t, cmdBufferLen t) c"

lemma at_moved:
  assumes "moved w s t" and "outer t = outer s"
  shows "at_tags a s \<Longrightarrow> at_tags a t" "at_prefix b s \<Longrightarrow> at_prefix b t" "at_cmd c s \<Longrightarrow> at_cmd c t"
  using holds_moved [OF _ assms(1)] assms by (auto simp: at_tags_def at_prefix_def at_cmd_def outer_def moved_def)

lemma parseTags_stage:
  assumes "p_di s = 0" and "unat (p_cx s) = 512"
  shows "stage (p_word_if 64 512 (inp s)) (parseTags s) (\<lambda>a t. at_tags a t \<and> p_di t = length a)"
proof (cases "p_word_if 64 512 (inp s)")
  case (Some x)
  obtain a xs where a: "p_word_if 64 512 (inp s) = Some (a, xs)" using Some by (cases x) simp
  then obtain t where t: "parseTags s = (t, False)" "inp t = xs" "moved a s t"
    "vars t = vars (s\<lparr>tagsBuffer := p_di s, tagsBufferLen := p_cx s - p_cx t\<rparr>)"
    using parseTags_spec [of s] assms by auto
  have "at_tags a t" "p_di t = length a"
    using moved_holds [OF t(3)] t(3,4) assms by (simp_all add: at_tags_def vars_def moved_def)
  then show ?thesis using a t(1,2) by (simp add: stage_def)
qed (use parseTags_spec [of s] assms in \<open>simp add: stage_def\<close>)

lemma parsePrefix_stage:
  assumes "at_tags a s"
  shows "stage (p_word_if 58 (512 - p_di s) (inp s)) (parsePrefix s)
    (\<lambda>b t. at_tags a t \<and> at_prefix b t \<and> p_di t = p_di s + length b)"
proof -
  have c: "unat (p_cx s) = 512 - p_di s" using assms unfolding at_tags_def by linarith
  show ?thesis
  proof (cases "p_word_if 58 (512 - p_di s) (inp s)")
    case (Some x)
    obtain b xs where b: "p_word_if 58 (512 - p_di s) (inp s) = Some (b, xs)" using Some by (cases x) simp
    then obtain t where t: "parsePrefix s = (t, False)" "inp t = xs" "moved b s t"
      "vars t = vars (s\<lparr>prefixBuffer := p_di s, prefixBufferLen := p_cx s - p_cx t\<rparr>)"
      using parsePrefix_spec [of s] c by auto
    have "at_prefix b t" "p_di t = p_di s + length b" using moved_holds [OF t(3)] t(3,4) by (simp_all add: at_prefix_def vars_def moved_def)
    moreover have "at_tags a t" using assms holds_moved [OF _ t(3)] t(3,4) by (auto simp: at_tags_def vars_def moved_def)
    ultimately show ?thesis using b t(1,2) by (simp add: stage_def)
  qed (use parsePrefix_spec [of s] c in \<open>simp add: stage_def\<close>)
qed

lemma parseCmd_stage:
  assumes "at_tags a s" and "at_prefix b s"
  shows "stage (p_until sep (512 - p_di s) (inp s)) (parseCmd s)
    (\<lambda>c t. at_tags a t \<and> at_prefix b t \<and> at_cmd c t \<and> p_di t = p_di s + length c)"
proof -
  have c: "unat (p_cx s) = 512 - p_di s" using assms unfolding at_tags_def by linarith
  show ?thesis
  proof (cases "p_until sep (512 - p_di s) (inp s)")
    case (Some x)
    obtain w xs where w: "p_until sep (512 - p_di s) (inp s) = Some (w, xs)" using Some by (cases x) simp
    then obtain t where t: "parseCmd s = (t, False)" "inp t = xs" "moved w s t"
      "vars t = vars (s\<lparr>cmdBuffer := p_di s, cmdBufferLen := p_cx s - p_cx t\<rparr>)"
      using parseCmd_spec [of s] c by auto
    have "at_cmd w t" "p_di t = p_di s + length w" using moved_holds [OF t(3)] t(3,4) by (simp_all add: at_cmd_def vars_def moved_def)
    moreover have "at_tags a t" "at_prefix b t"
      using assms holds_moved [OF _ t(3)] t(3,4) by (auto simp: at_tags_def at_prefix_def vars_def moved_def)
    ultimately show ?thesis using w t(1,2) by (simp add: stage_def)
  qed (use parseCmd_spec [of s] c in \<open>simp add: stage_def\<close>)
qed

definition at_params where
  "at_params ps t \<longleftrightarrow> paramsListLen t = of_nat (length ps) \<and> ps \<noteq> [] \<and> length ps \<le> 3 \<and>
     (\<forall>i<length ps. holds t (paramsList t i) (ps ! i))"

lemma parseParams_stage:
  fixes s :: parser
  defines "u \<equiv> s\<lparr>p_bp := 0, paramsListLen := 0\<rparr>"
  assumes "at_tags a s" and "at_prefix b s" and "at_cmd c s"
  shows "stage (p_params 3 (512 - p_di s) (inp s)) (parseParams u)
    (\<lambda>ps t. at_tags a t \<and> at_prefix b t \<and> at_cmd c t \<and> at_params ps t)"
proof -
  have cx: "unat (p_cx s) = 512 - p_di s" using assms(2) unfolding at_tags_def by linarith
  have u: "p_cx u = p_cx s" "inp u = inp s" "outer u = outer s" "moved w u t = moved w s t" "p_bp u = 0" "paramsListLen u = 0" for w t
    by (simp_all add: u_def inp_def outer_def moved_def)
  have pp: "case p_params 3 (unat (p_cx u)) (inp u) of None \<Rightarrow> snd (parseParams u)
    | Some (ws, xs) \<Rightarrow> \<exists>t. parseParams u = (t, False) \<and> inp t = xs \<and> parsed_params ws u t \<and> ws \<noteq> [] \<and> length ws \<le> 3"
    by (rule parseParams_spec) (simp_all add: u_def)
  show ?thesis
  proof (cases "p_params 3 (512 - p_di s) (inp s)")
    case (Some x)
    obtain ps xs where ps: "p_params 3 (512 - p_di s) (inp s) = Some (ps, xs)" using Some by (cases x) simp
    then obtain t where t: "parseParams u = (t, False)" "inp t = xs" "parsed_params ps u t" "ps \<noteq> []" "length ps \<le> 3"
      using pp by (auto simp: u(1,2) cx)
    have m: "moved (concat ps) s t" "outer t = outer s" using t(3) by (simp_all add: parsed_params_def u)
    have "at_params ps t" using t(3-5) by (simp add: parsed_params_def at_params_def u)
    then show ?thesis using ps t(1,2) at_moved [OF m] assms by (simp add: stage_def)
  qed (use pp in \<open>simp add: stage_def u(1,2) cx\<close>)
qed

lemma parsed_eq:
  assumes "at_tags a t" and "at_prefix b t" and "at_cmd c t" and "at_params ps t"
  shows "parsed t = \<lparr>m_tags = a, m_prefix = b, m_cmd = c, m_params = ps\<rparr>"
proof -
  have n: "unat (paramsListLen t) = length ps"
    using assms(4) by (simp add: at_params_def unsigned_of_nat take_bit_nat_less)
  have "map (\<lambda>i. ptr_text t (paramsList t i)) [0..<length ps] = ps"
    using assms(4) by (auto simp: at_params_def holds_text intro: nth_equalityI [where xs = "map f xs" for f xs])
  then show ?thesis
    using assms(1-3) by (simp add: parsed_def n at_tags_def at_prefix_def at_cmd_def holds_text)
qed

definition parse_done :: "irc_msg \<Rightarrow> parser \<Rightarrow> bool" where
  "parse_done m t \<longleftrightarrow> parsed t = m \<and> p_di t \<le> 512 \<and> m_params m \<noteq> [] \<and> length (m_params m) \<le> 3 \<and>
     at_cmd (m_cmd m) t \<and> at_params (m_params m) t"

lemma finish_stage:
  assumes "at_tags a s" and "at_prefix b s" and "at_cmd c s" and "at_params ps s"
  shows "stage (if inp s = [13, 10] then Some (\<lparr>m_tags = a, m_prefix = b, m_cmd = c, m_params = ps\<rparr>, []) else None)
    (finish (parseCRLF s)) parse_done"
proof (cases "inp s = [13, 10]")
  case True
  obtain t where t: "finish (parseCRLF s) = (t, False)" "inp t = []" "vars t = vars s" "moved [] s t"
    using parseCRLF_stage [of s] True by (auto simp: stage_def)
  note at = at_moved [OF t(4) outer_vars [OF t(3)]]
  have "at_params ps t"
    using assms(4) holds_moved [OF _ t(4)] vars_eqD(7,8) [OF t(3)] by (simp add: at_params_def)
  moreover have "p_di t \<le> 512" using at(1) [OF assms(1)] unfolding at_tags_def by linarith
  ultimately have "parse_done \<lparr>m_tags = a, m_prefix = b, m_cmd = c, m_params = ps\<rparr> t"
    using at assms parsed_eq [of a t b c ps] by (simp add: parse_done_def at_params_def)
  then show ?thesis using True t(1,2) by (simp add: stage_def)
qed (use parseCRLF_stage [of s] in \<open>simp add: stage_def\<close>)

lemma params_stage:
  assumes "at_tags a s" and "at_prefix b s" and "at_cmd c s" and "n = p_di s"
  shows "stage (do { (ps, r) \<leftarrow> p_params 3 (512 - n) (inp s);
      if r = [13, 10] then Some (\<lparr>m_tags = a, m_prefix = b, m_cmd = c, m_params = ps\<rparr>, []) else None })
    (do_parse parseParams (\<lambda>s. finish (parseCRLF s)) (s\<lparr>p_bp := 0, paramsListLen := 0\<rparr>)) parse_done"
  unfolding assms(4) by (rule stage_seq, rule parseParams_stage [OF assms(1-3)]) (simp add: finish_stage)

lemma cmd_stage:
  assumes "at_tags a s" and "at_prefix b s" and "n = p_di s"
  shows "stage (do { (c, r) \<leftarrow> p_until sep (512 - n) (inp s); (ps, r) \<leftarrow> p_params 3 (512 - (n + length c)) r;
      if r = [13, 10] then Some (\<lparr>m_tags = a, m_prefix = b, m_cmd = c, m_params = ps\<rparr>, []) else None })
    (do_parse parseCmd (\<lambda>s. do_parse parseParams (\<lambda>s. finish (parseCRLF s)) (s\<lparr>p_bp := 0, paramsListLen := 0\<rparr>)) s) parse_done"
  unfolding assms(3) by (rule stage_seq, rule parseCmd_stage [OF assms(1,2)]) (simp add: params_stage)

lemma prefix_stage:
  assumes "at_tags a s" and "n = p_di s"
  shows "stage (do { (b, r) \<leftarrow> p_word_if 58 (512 - n) (inp s); (c, r) \<leftarrow> p_until sep (512 - (n + length b)) r;
      (ps, r) \<leftarrow> p_params 3 (512 - (n + length b + length c)) r;
      if r = [13, 10] then Some (\<lparr>m_tags = a, m_prefix = b, m_cmd = c, m_params = ps\<rparr>, []) else None })
    (do_parse parsePrefix (do_parse parseCmd (\<lambda>s. do_parse parseParams (\<lambda>s. finish (parseCRLF s)) (s\<lparr>p_bp := 0, paramsListLen := 0\<rparr>))) s) parse_done"
  unfolding assms(2) by (rule stage_seq, rule parsePrefix_stage [OF assms(1)]) (simp add: cmd_stage)

lemma doParse_stage:
  "stage (map_option (\<lambda>m. (m, [])) (parse_line (rdbytes line si (unat cx)))) (doParse line si cx s) parse_done"
proof -
  let ?s = "s\<lparr>p_in := line, p_si := si, p_bx := cx, p_di := 0, p_cx := parseBufferLenMax\<rparr>"
  have i: "inp ?s = rdbytes line si (unat cx)" by (simp add: inp_def)
  have "stage (do { (a, r) \<leftarrow> p_word_if 64 512 (inp ?s); (b, r) \<leftarrow> p_word_if 58 (512 - length a) r;
      (c, r) \<leftarrow> p_until sep (512 - (length a + length b)) r; (ps, r) \<leftarrow> p_params 3 (512 - (length a + length b + length c)) r;
      if r = [13, 10] then Some (\<lparr>m_tags = a, m_prefix = b, m_cmd = c, m_params = ps\<rparr>, []) else None })
    (doParse line si cx s) parse_done"
    unfolding doParse_finish
    by (rule stage_seq [OF parseTags_stage]) (simp_all add: parseBufferLenMax_def prefix_stage)
  also have "do { (a, r) \<leftarrow> p_word_if 64 512 (inp ?s); (b, r) \<leftarrow> p_word_if 58 (512 - length a) r;
      (c, r) \<leftarrow> p_until sep (512 - (length a + length b)) r; (ps, r) \<leftarrow> p_params 3 (512 - (length a + length b + length c)) r;
      if r = [13, 10] then Some (\<lparr>m_tags = a, m_prefix = b, m_cmd = c, m_params = ps\<rparr>, []) else None } =
    map_option (\<lambda>m. (m, [])) (parse_line (rdbytes line si (unat cx)))"
    by (simp add: parse_line_def i map_option_bind case_prod_unfold comp_def if_distrib cong: if_cong)
  finally show ?thesis .
qed

lemma doParse_parses:
  "case parse_line (rdbytes line si (unat cx)) of None \<Rightarrow> snd (doParse line si cx s)
   | Some m \<Rightarrow> \<exists>t. doParse line si cx s = (t, False) \<and> parse_done m t"
  using doParse_stage [of line si cx s] by (auto simp: stage_def split: option.splits)

section \<open>Written messages are read back\<close>

definition part :: "u8 \<Rightarrow> cstr \<Rightarrow> cstr" where
  "part c w = (if w = [] then [] else c # w @ [32])"

definition colon :: "cstr \<Rightarrow> bool" where
  "colon p \<longleftrightarrow> p = [] \<or> hd p = 58 \<or> 32 \<in> set p"

definition param_text :: "cstr \<Rightarrow> cstr" where
  "param_text p = (if colon p then 32 # 58 # p else 32 # p)"

definition irc_line :: "irc_msg \<Rightarrow> cstr" where
  "irc_line m = part 64 (m_tags m) @ part 58 (m_prefix m) @ m_cmd m @ concat (map param_text (m_params m)) @ [13, 10]"

definition no_sep :: "cstr \<Rightarrow> bool" where
  "no_sep w \<longleftrightarrow> (\<forall>c\<in>set w. \<not> sep c)"

definition sendable :: "irc_msg \<Rightarrow> bool" where
  "sendable m \<longleftrightarrow> no_sep (m_tags m) \<and> no_sep (m_prefix m) \<and> no_sep (m_cmd m) \<and> m_cmd m \<noteq> [] \<and> hd (m_cmd m) \<noteq> 64 \<and>
     hd (m_cmd m) \<noteq> 58 \<and> length (m_params m) \<le> 3 \<and> 13 \<notin> set (concat (m_params m)) \<and>
     list_all (\<lambda>p. \<not> colon p) (butlast (m_params m)) \<and>
     length (m_tags m) + length (m_prefix m) + length (m_cmd m) + length (concat (m_params m)) \<le> 512"

definition good_msg :: "irc_msg \<Rightarrow> bool" where
  "good_msg m \<longleftrightarrow> sendable m \<and> m_params m \<noteq> []"

text \<open>What is read back: a line with no parameter has an empty one.\<close>

definition read_back :: "irc_msg \<Rightarrow> irc_msg" where
  "read_back m = (if m_params m = [] then m\<lparr>m_params := [[]]\<rparr> else m)"

lemma p_until_append:
  assumes "\<forall>c\<in>set w. \<not> stop c" and "stop c"
  shows "p_until stop room (w @ c # cs) = (if length w \<le> room then Some (w, c # cs) else None)"
proof -
  have "takeWhile (\<lambda>c. \<not> stop c) (w @ c # cs) = w" "dropWhile (\<lambda>c. \<not> stop c) (w @ c # cs) = c # cs"
    using assms by (simp_all add: takeWhile_append dropWhile_append)
  then show ?thesis by (simp add: p_until_def)
qed

lemma p_spaces_char: "c \<noteq> 32 \<Longrightarrow> p_spaces (c # cs) = Some (c # cs)" "p_spaces (32 # cs) = p_spaces cs"
  by (simp_all add: p_spaces_def)

lemma p_word_if_part:
  assumes "no_sep w" and "length w \<le> room" and "c' \<noteq> 32" and "c' \<noteq> c"
  shows "p_word_if c room (part c w @ c' # cs) = Some (w, c' # cs)"
proof (cases "w = []")
  case False
  have "p_until sep room (w @ 32 # c' # cs) = Some (w, 32 # c' # cs)"
    using assms(1,2) by (subst p_until_append) (auto simp: no_sep_def sep_def)
  then show ?thesis using False assms(3) by (simp add: part_def p_word_if_def p_spaces_char)
qed (use assms in \<open>simp add: part_def p_word_if_def\<close>)

lemma p_param_text:
  assumes "13 \<notin> set p" and "length p \<le> room" and "c = 13 \<or> c = 32 \<and> \<not> colon p"
  shows "p_param room (param_text p @ c # cs) = Some (p, c # cs)"
proof (cases "colon p")
  case True
  then show ?thesis using assms
    by (simp add: param_text_def p_param_def p_spaces_char) (subst p_until_append; auto)
next
  case False
  then obtain x xs where p: "p = x # xs" "x \<noteq> 58" "32 \<notin> set p" by (cases p) (auto simp: colon_def)
  then have "p_until sep room (p @ c # cs) = Some (p, c # cs)"
    using assms by (subst p_until_append) (auto simp: sep_def)
  then show ?thesis using False p by (simp add: param_text_def p_param_def p_spaces_char)
qed

lemma params_start:
  assumes "ps \<noteq> []"
  shows "\<exists>r. concat (map param_text ps) @ xs = 32 # r"
  using assms by (cases ps; cases "colon (hd ps)") (auto simp: param_text_def)

lemma p_params_text:
  assumes "ps \<noteq> []" and "length ps \<le> k" and "13 \<notin> set (concat ps)" and "list_all (\<lambda>p. \<not> colon p) (butlast ps)"
    and "length (concat ps) \<le> room"
  shows "p_params k room (concat (map param_text ps) @ [13, 10]) = Some (ps, [13, 10])"
  using assms
proof (induction ps arbitrary: k room)
  case (Cons p ps)
  obtain j where k: "k = Suc j" using Cons.prems(2) by (cases k) auto
  show ?case
  proof (cases ps)
    case Nil
    then show ?thesis using Cons.prems p_param_text [of p room 13 "[10]"] by (simp add: k)
  next
    case (Cons q qs)
    obtain r where r: "concat (map param_text ps) @ [13, 10] = 32 # r" using params_start [of ps] Cons by blast
    have "p_params j (room - length p) (32 # r) = Some (ps, [13, 10])"
      using Cons.IH [of j "room - length p"] Cons.prems Cons by (simp add: r k flip: r)
    moreover have "p_param room (param_text p @ 32 # r) = Some (p, 32 # r)"
      using Cons.prems Cons by (intro p_param_text) auto
    ultimately show ?thesis by (simp add: k flip: r) (simp add: r)
  qed
qed simp

lemma p_params_read_back:
  assumes "sendable m" and "length (concat (m_params m)) \<le> room"
  shows "p_params 3 room (concat (map param_text (m_params m)) @ [13, 10]) = Some (m_params (read_back m), [13, 10])"
proof (cases "m_params m = []")
  case True
  then show ?thesis by (simp add: read_back_def p_param_def p_spaces_def p_until_def sep_def numeral_3_eq_3)
next
  case False
  then show ?thesis using assms by (subst p_params_text) (auto simp: sendable_def read_back_def)
qed

lemma parse_read_back:
  assumes "sendable m"
  shows "parse_line (irc_line m) = Some (read_back m)"
proof -
  obtain c cs where cmd: "m_cmd m = c # cs" using assms by (cases "m_cmd m") (auto simp: sendable_def)
  have c: "c \<noteq> 32" "c \<noteq> 64" "c \<noteq> 58" using assms by (auto simp: sendable_def cmd no_sep_def sep_def)
  define r where "r = concat (map param_text (m_params m)) @ [13, 10]"
  obtain y r' where r': "r = y # r'" "sep y"
    using params_start [of "m_params m" "[13, 10]"] unfolding r_def by (cases "m_params m = []") (auto simp: sep_def)
  obtain x xs where x: "part 58 (m_prefix m) @ m_cmd m @ r = x # xs" "x \<noteq> 32" "x \<noteq> 64"
    using c by (cases "m_prefix m") (auto simp: part_def cmd)
  have "p_word_if 64 512 (irc_line m) = Some (m_tags m, part 58 (m_prefix m) @ m_cmd m @ r)"
    using assms x p_word_if_part [of "m_tags m" 512 x 64 xs] by (simp add: sendable_def irc_line_def r_def)
  moreover have "p_word_if 58 (512 - length (m_tags m)) (part 58 (m_prefix m) @ m_cmd m @ r) = Some (m_prefix m, m_cmd m @ r)"
    using assms c p_word_if_part [of "m_prefix m" _ c 58 "cs @ r"] by (auto simp: sendable_def cmd)
  moreover have "p_until sep (512 - length (m_tags m) - length (m_prefix m)) (m_cmd m @ r) = Some (m_cmd m, r)"
    using assms r'(2) unfolding r'(1) by (subst p_until_append) (auto simp: sendable_def no_sep_def)
  moreover have "p_params 3 (512 - length (m_tags m) - length (m_prefix m) - length (m_cmd m)) r =
      Some (m_params (read_back m), [13, 10])"
    using assms unfolding r_def by (intro p_params_read_back) (auto simp: sendable_def)
  ultimately show ?thesis by (simp add: parse_line_def read_back_def)
qed

lemma parse_irc_line: "good_msg m \<Longrightarrow> parse_line (irc_line m) = Some m"
  using parse_read_back [of m] by (simp add: good_msg_def read_back_def)

section \<open>Properties\<close>

text \<open>
  C36. The parser of IRC lines decides exactly what its reference on byte lists decides, and the pointers and lengths it
  leaves are the tags, the prefix, the command and the parameters, whatever was in its buffer and
  variables before.
\<close>

theorem doParse_refines:
  "case doParse line si cx s of (t, failed) \<Rightarrow>
     parse_line (rdbytes line si (unat cx)) = (if failed then None else Some (parsed t))"
  using doParse_parses [of line si cx s] by (auto simp: parse_done_def split: option.splits)

text \<open>
  C40. A message is read back from its line: tags, prefix, command and parameters, where a line without parameters is
  read as one with one empty parameter.  The conditions: tags, prefix and command contain no space and no
  CR; the command is not empty and does not start with \<^verbatim>\<open>@\<close> or a colon; there are at most three parameters, without CR,
  and only the last one may be empty, start with a colon or contain spaces; and the bytes of all parts together are
  at most 512.
\<close>

theorem irc_line_roundtrip:
  assumes "sendable m" and "rdbytes line si (unat cx) = irc_line m"
  shows "\<exists>t. doParse line si cx s = (t, False) \<and> parsed t = (if m_params m = [] then m\<lparr>m_params := [[]]\<rparr> else m)"
  using doParse_parses [of line si cx s]
  by (auto simp: assms(2) parse_read_back [OF assms(1)] parse_done_def read_back_def)

definition demo_msg :: irc_msg where
  "demo_msg = \<lparr>m_tags = ascii ''id=7'', m_prefix = ascii ''a!b'', m_cmd = ascii ''PRIVMSG'', m_params = [ascii ''#c'', ascii ''hi you'']\<rparr>"

definition demo_parser :: parser where
  "demo_parser = \<lparr>p_in = \<lambda>_. 0, p_si = 0, p_bx = 0, p_di = 0, p_cx = 0, p_bp = 0, parseBuffer = \<lambda>_. 0, tagsBuffer = 0,
     tagsBufferLen = 0, prefixBuffer = 0, prefixBufferLen = 0, cmdBuffer = 0, cmdBufferLen = 0, paramsList = \<lambda>_. (0, 0),
     paramsListLen = 0\<rparr>"

theorem irc_line_roundtrip_witness:
  "\<exists>t. doParse (mem_of (irc_line demo_msg)) 0 (of_nat (length (irc_line demo_msg))) demo_parser = (t, False) \<and>
     m_params (parsed t) = [ascii ''#c'', ascii ''hi you'']"
proof -
  have g: "sendable demo_msg"
    by (simp add: demo_msg_def sendable_def no_sep_def sep_def colon_def ascii_def of_char_def)
  have "length (irc_line demo_msg) < 65536"
    by (simp add: demo_msg_def irc_line_def part_def param_text_def colon_def ascii_def of_char_def)
  then have "unat (of_nat (length (irc_line demo_msg)) :: u16) = length (irc_line demo_msg)"
    by (simp add: unsigned_of_nat take_bit_nat_less)
  then have "rdbytes (mem_of (irc_line demo_msg)) 0 (unat (of_nat (length (irc_line demo_msg)) :: u16)) = irc_line demo_msg"
    by (intro nth_equalityI) (simp_all add: mem_of_def)
  from irc_line_roundtrip [OF g this, of demo_parser] show ?thesis by (auto simp: demo_msg_def)
qed

end
