(* ===== verification/BotLogic.thy ===== *)
theory BotLogic
  imports Bot BotParse
begin

text \<open>
  The logic of the bot, in assembler: \<^verbatim>\<open>code/BOT/state.nas\<close> puts lines together from the received segments,
  \<^verbatim>\<open>code/BOT/logic.nas\<close> answers them.  Logging is left out, as in \<open>Bot\<close>.
\<close>

section \<open>State\<close>

text \<open>
  \<open>bss\<close> is the memory of \<^verbatim>\<open>logic.nas\<close>: \<^verbatim>\<open>outBuffer\<close> with 512 bytes, then \<^verbatim>\<open>outBufferLen\<close> and \<^verbatim>\<open>botState\<close>, the address of
  the routine that handles the next message.
\<close>

record bot_logic =
  bl_parser :: parser
  bss :: mem

definition outBufferMax :: u16 where "outBufferMax = 512"
definition outBufferLen :: nat where "outBufferLen = 512"
definition botState :: nat where "botState = 514"

text \<open>What the linker decides: the addresses of a variable and of two routines, and the memory behind a null pointer.\<close>

record bot_link =
  at_outBufferLen :: u16
  at_startState :: u16
  at_idleState :: u16
  at_null :: mem

section \<open>Answers\<close>

definition pongCmd :: cstr where "pongCmd = ascii ''PONG''"
definition privmsgCmd :: cstr where "privmsgCmd = ascii ''PRIVMSG''"
definition helloText :: cstr where "helloText = ascii ''HELLO THERE''"
definition quitMessage :: cstr where "quitMessage = ascii ''QUIT pdtb https://twitch.tv/jookia2'' @ [13, 10]"

definition startCmd :: cstr where
  "startCmd = ascii ''CAP REQ :twitch.tv/membership twitch.tv/tags twitch.tv/commands'' @ [13, 10] @
     ascii ''JOIN #jookia2'' @ [13, 10]"

definition writeText :: "cstr \<Rightarrow> text_out \<Rightarrow> text_out" where
  "writeText xs = writeStr (mem_of xs) 0 (of_nat (length xs))"

text \<open>\<^verbatim>\<open>paramAt\<close> with \<^verbatim>\<open>writeStr\<close>: a parameter that is not there is a null pointer with length 0.\<close>

definition writeParam :: "bot_link \<Rightarrow> u16 \<Rightarrow> parser \<Rightarrow> text_out \<Rightarrow> text_out" where
  "writeParam k i p w =
     (case paramAt i p of
        None \<Rightarrow> writeStr (at_null k) 0 0 w
      | Some (si, bx) \<Rightarrow> writeStr (parseBuffer p) si bx w)"

definition writePong :: "bot_link \<Rightarrow> parser \<Rightarrow> text_out \<Rightarrow> text_out" where
  "writePong k p w =
     (let w = writeText pongCmd w; w = writeChar 0x20 w; w = writeChar 0x3A w;
          w = writeParam k 0 p w; w = writeChar 0x0D w
      in writeChar 0x0A w)"

definition writeHello :: "bot_link \<Rightarrow> parser \<Rightarrow> text_out \<Rightarrow> text_out" where
  "writeHello k p w =
     (let w = writeText privmsgCmd w; w = writeChar 0x20 w; w = writeParam k 0 p w;
          w = writeChar 0x20 w; w = writeChar 0x3A w; w = writeText helloText w; w = writeChar 0x0D w
      in writeChar 0x0A w)"

section \<open>The states of the bot\<close>

text \<open>A command is compared by the bytes at its pointer; its length is not looked at.\<close>

definition startState :: "bot_link \<Rightarrow> parser \<Rightarrow> text_out \<Rightarrow> text_out" where
  "startState k p w =
     (let m = parseBuffer p; si = cmdBuffer p
      in if rd16 m si \<noteq> le16 48 48 then w
         else if m (si + 2) \<noteq> 52 then w
         else (let w = writeText startCmd w
               in w\<lparr>o_mem := memcpy (o_mem w) botState (bytes16 (at_idleState k))\<rparr>))"

definition idleState :: "bot_link \<Rightarrow> parser \<Rightarrow> text_out \<Rightarrow> text_out" where
  "idleState k p w =
     (if rd16 (parseBuffer p) (cmdBuffer p) = le16 80 73 then writePong k p w
      else (let (m, si) = (case paramAt 1 p of None \<Rightarrow> (at_null k, 0) | Some (si, cx) \<Rightarrow> (parseBuffer p, si))
            in if rd16 m si \<noteq> le16 62 72 then w
               else if rd16 m (si + 2) \<noteq> le16 69 76 then w
               else if rd16 m (si + 4) \<noteq> le16 76 79 then w
               else writeHello k p w))"

text \<open>
  The room for the answer is taken to be \<^verbatim>\<open>outBufferLen\<close>, which is the address of the variable.  A call to an address
  that is not one of the two routines has no defined effect.
\<close>

definition buildBuffer :: "bot_link \<Rightarrow> bot_logic \<Rightarrow> (bot_logic \<times> u16) option" where
  "buildBuffer k s =
     (let w = \<lparr>o_mem = bss s, o_di = 0, o_cx = at_outBufferLen k\<rparr>;
          call = rd16 (bss s) botState;
          done = (\<lambda>w. Some (s\<lparr>bss := o_mem w\<rparr>, at_outBufferLen k - o_cx w))
      in if call = at_startState k then done (startState k (bl_parser s) w)
         else if call = at_idleState k then done (idleState k (bl_parser s) w)
         else None)"

text \<open>The length of the answer, which is in \<^verbatim>\<open>outBuffer\<close>; 0 when there is none.\<close>

definition dispatchLine :: "bot_link \<Rightarrow> mem \<Rightarrow> nat \<Rightarrow> u16 \<Rightarrow> bot_logic \<Rightarrow> (bot_logic \<times> u16) option" where
  "dispatchLine k line si cx s =
     (case doParse line si cx (bl_parser s) of
        (p, True) \<Rightarrow> Some (s\<lparr>bl_parser := p\<rparr>, 0)
      | (p, False) \<Rightarrow> buildBuffer k (s\<lparr>bl_parser := p\<rparr>))"

text \<open>
  The login: the file that the environment names is read into \<^verbatim>\<open>outBuffer\<close>.  \<open>open_file\<close> and \<open>read_file\<close> are the DOS calls;
  a read returns the bytes, or an error code.
\<close>

definition readAuth ::
    "cstr option \<Rightarrow> (cstr \<Rightarrow> u16 option) \<Rightarrow> (u16 \<Rightarrow> u16 \<Rightarrow> u16 + cstr) \<Rightarrow> bot_logic \<Rightarrow> bot_logic \<times> int" where
  "readAuth env open_file read_file s =
     (case env of
        None \<Rightarrow> (s, -1)
      | Some name \<Rightarrow>
          (case open_file name of
             None \<Rightarrow> (s, -2)
           | Some handle \<Rightarrow>
               (case read_file handle outBufferMax of
                  Inr xs \<Rightarrow> (s\<lparr>bss := memcpy (memcpy (bss s) 0 xs) outBufferLen (bytes16 (of_nat (length xs)))\<rparr>, 0)
                | Inl err \<Rightarrow> (s\<lparr>bss := memcpy (bss s) outBufferLen (bytes16 err)\<rparr>, -3))))"

definition dispatchInit ::
    "bot_link \<Rightarrow> cstr option \<Rightarrow> (cstr \<Rightarrow> u16 option) \<Rightarrow> (u16 \<Rightarrow> u16 \<Rightarrow> u16 + cstr) \<Rightarrow> bot_logic \<Rightarrow> bot_logic \<times> int" where
  "dispatchInit k env open_file read_file s =
     readAuth env open_file read_file (s\<lparr>bss := memcpy (bss s) botState (bytes16 (at_startState k))\<rparr>)"

section \<open>Lines\<close>

text \<open>\<^verbatim>\<open>lineBuffer\<close> with the registers \<^verbatim>\<open>di\<close> and \<^verbatim>\<open>dx\<close>.\<close>

record line_state =
  lineBuffer :: mem
  ln_di :: nat
  ln_dx :: u16

definition lineBufferLen :: u16 where "lineBufferLen = 512"

definition new_line :: "line_state \<Rightarrow> line_state" where
  "new_line l = l\<lparr>ln_di := 0, ln_dx := lineBufferLen\<rparr>"

text \<open>\<^verbatim>\<open>repne scasb\<close> for a line feed: it stops behind it, or when \<^verbatim>\<open>cx\<close> is 0.\<close>

function scan_lf :: "mem \<Rightarrow> nat \<Rightarrow> u16 \<Rightarrow> nat \<times> u16" where
  "scan_lf m di cx = (if cx = 0 then (di, cx) else if m di = 10 then (di + 1, cx - 1) else scan_lf m (di + 1) (cx - 1))"
  by pat_completeness auto

termination scan_lf
  by (relation "measure (\<lambda>(m, di, cx). unat cx)") (auto simp: unat_dec_less)

text \<open>
  \<^verbatim>\<open>stateAppendLine\<close>: the packet from \<^verbatim>\<open>si\<close> on, of which \<^verbatim>\<open>bx\<close> bytes are left.  The flag tells that there is a line to
  dispatch; otherwise the packet is used up.
\<close>

function append_line :: "mem \<Rightarrow> nat \<Rightarrow> u16 \<Rightarrow> line_state \<Rightarrow> nat \<times> u16 \<times> line_state \<times> bool" where
  "append_line m si bx l =
     (if bx = 0 then (si, bx, l, False)
      else if ln_dx l = 0 then (let (si, bx) = scan_lf m si bx in (si, bx, l, True))
      else (let al = m si;
                l = l\<lparr>lineBuffer := (lineBuffer l)(ln_di l := al), ln_di := ln_di l + 1, ln_dx := ln_dx l - 1\<rparr>
            in if al = 10 then (si + 1, bx - 1, l, True) else append_line m (si + 1) (bx - 1) l))"
  by pat_completeness auto

termination append_line
  by (relation "measure (\<lambda>(m, si, bx, l). unat bx)") (auto simp: unat_dec_less)

declare scan_lf.simps [simp del] append_line.simps [simp del]

section \<open>The main loop\<close>

definition sendPacket_asm ::
    "'a bot_state_ext startup_state_ext config_state_ext timer_state_ext user \<Rightarrow> (nat \<Rightarrow> intr list) \<Rightarrow> nat \<Rightarrow>
     mem \<Rightarrow> u16 \<Rightarrow> 'a bot_state_scheme \<Rightarrow> (nat \<times> 'a bot_state_scheme \<times> int) option" where
  "sendPacket_asm user ev n si cx s =
     (case currentSendBuffer (sint cx) s of
        Null \<Rightarrow> Some (n, s, 10)
      | UserData None \<Rightarrow> None
      | UserData (Some b) \<Rightarrow>
          sendNewBuffer user ev n (UserData (Some b)) (sint cx)
            (upd_buf b (\<lambda>d. d\<lparr>b_data := memcpy (b_data d) 0 (rdbytes si 0 (unat cx))\<rparr>) s))"

text \<open>
  One pass from \<^verbatim>\<open>stateAppendLine\<close> to where it is entered again, or to the end with a return value.  \<open>p\<close>, \<open>si\<close> and \<open>bx\<close> are
  the packet, the position in it and the bytes left in it.
\<close>

type_synonym 's asm_point = "nat \<times> bufref \<times> nat \<times> u16 \<times> line_state \<times> bot_logic \<times> 's"

definition asm_receive ::
    "'a bot_state_ext startup_state_ext config_state_ext timer_state_ext user \<Rightarrow> (nat \<Rightarrow> intr list) \<Rightarrow> (nat \<Rightarrow> u16) \<Rightarrow>
     nat \<Rightarrow> line_state \<Rightarrow> bot_logic \<Rightarrow> 'a bot_state_scheme \<Rightarrow>
     ((nat \<times> 'a bot_state_scheme \<times> int) + 'a bot_state_scheme asm_point) option" where
  "asm_receive user ev keys n l t s =
     (case recvNewPacket user ev keys n s of
        None \<Rightarrow> None
      | Some (n, s, rc) \<Rightarrow>
          if rc = 0 then Some (Inl (n, s, 5))
          else if rc = -1 then
            map_option (\<lambda>(n, s, rc). Inl (n, s, 5)) (sendPacket_asm user ev n (mem_of quitMessage) (of_nat (length quitMessage)) s)
          else map_option (\<lambda>(p, off). Inr (n, p, off, of_int rc, l, t, s)) (currentRecvPacket s))"

definition asm_dispatch ::
    "'a bot_state_ext startup_state_ext config_state_ext timer_state_ext user \<Rightarrow> (nat \<Rightarrow> intr list) \<Rightarrow> bot_link \<Rightarrow>
     'a bot_state_scheme asm_point \<Rightarrow> ((nat \<times> 'a bot_state_scheme \<times> int) + 'a bot_state_scheme asm_point) option" where
  "asm_dispatch user ev k c =
     (case c of (n, p, si, bx, l, t, s) \<Rightarrow>
        (case dispatchLine k (lineBuffer l) 0 (lineBufferLen - ln_dx l) t of
           None \<Rightarrow> None
         | Some (t, cx) \<Rightarrow>
             if cx = 0 then Some (Inr (n, p, si, bx, new_line l, t, s))
             else map_option (\<lambda>(n, s, rc). if rc \<noteq> 0 then Inl (n, s, rc) else Inr (n, p, si, bx, new_line l, t, s))
               (sendPacket_asm user ev n (bss t) cx s)))"

definition asm_turn ::
    "'a bot_state_ext startup_state_ext config_state_ext timer_state_ext user \<Rightarrow> (nat \<Rightarrow> intr list) \<Rightarrow> (nat \<Rightarrow> u16) \<Rightarrow>
     bot_link \<Rightarrow> 'a bot_state_scheme asm_point \<Rightarrow>
     ((nat \<times> 'a bot_state_scheme \<times> int) + 'a bot_state_scheme asm_point) option" where
  "asm_turn user ev keys k c =
     (case c of (n, p, si, bx, l, t, s) \<Rightarrow>
        (case append_line (pkt_mem s p) si bx l of
           (si, bx, l, False) \<Rightarrow> asm_receive user ev keys n l t s
         | (si, bx, l, True) \<Rightarrow> asm_dispatch user ev k (n, p, si, bx, l, t, s)))"

partial_function (option) asm_loop ::
    "'a bot_state_ext startup_state_ext config_state_ext timer_state_ext user \<Rightarrow> (nat \<Rightarrow> intr list) \<Rightarrow> (nat \<Rightarrow> u16) \<Rightarrow>
     bot_link \<Rightarrow> 'a bot_state_scheme asm_point \<Rightarrow> (nat \<times> 'a bot_state_scheme \<times> int) option" where
  [code]: "asm_loop user ev keys k c =
     (case asm_turn user ev keys k c of
        None \<Rightarrow> None
      | Some x \<Rightarrow> (case x of Inl r \<Rightarrow> Some r | Inr c \<Rightarrow> asm_loop user ev keys k c))"

definition asmRun ::
    "'a bot_state_ext startup_state_ext config_state_ext timer_state_ext user \<Rightarrow> (nat \<Rightarrow> intr list) \<Rightarrow> (nat \<Rightarrow> u16) \<Rightarrow>
     bot_link \<Rightarrow> cstr option \<Rightarrow> (cstr \<Rightarrow> u16 option) \<Rightarrow> (u16 \<Rightarrow> u16 \<Rightarrow> u16 + cstr) \<Rightarrow> line_state \<Rightarrow> bot_logic \<Rightarrow>
     nat \<Rightarrow> 'a bot_state_scheme \<Rightarrow> (nat \<times> 'a bot_state_scheme \<times> int) option" where
  "asmRun user ev keys k env open_file read_file l t n s =
     (case dispatchInit k env open_file read_file t of
        (t, ax) \<Rightarrow>
          if ax \<noteq> 0 then Some (n, s, ax)
          else (case sendPacket_asm user ev n (bss t) (rd16 (bss t) outBufferLen) s of
              None \<Rightarrow> None
            | Some (n, s, rc) \<Rightarrow>
                if rc \<noteq> 0 then Some (n, s, rc)
                else asm_loop user ev keys k (n, PoolBuf 0, 0, 0, new_line l, t, s)))"

section \<open>Lines do not depend on the packets\<close>

text \<open>The lines that are dispatched from a packet, and from a sequence of packets.\<close>

definition line_text :: "line_state \<Rightarrow> cstr" where
  "line_text l = rdbytes (lineBuffer l) 0 (unat (lineBufferLen - ln_dx l))"

lemma scan_lf_le: "unat (snd (scan_lf m di cx)) \<le> unat cx - 1"
proof (induction m di cx rule: scan_lf.induct)
  case (1 m di cx)
  have "unat (cx - 1) = unat cx - 1" if "cx \<noteq> 0" using that by (simp add: unat_minus_one)
  then show ?case using 1 by (subst scan_lf.simps) auto
qed

lemma append_line_less: "append_line m si bx l = (si', bx', l', True) \<Longrightarrow> unat bx' < unat bx"
proof (induction m si bx l rule: append_line.induct)
  case (1 m si bx l)
  note e = 1(2) [unfolded append_line.simps [of m si bx l]]
  have bx: "bx \<noteq> 0" using e by (auto split: if_splits)
  show ?case
  proof (cases "ln_dx l = 0")
    case True
    then have "bx' = snd (scan_lf m si bx)" using e bx by (auto split: prod.splits)
    then show ?thesis using scan_lf_le [of m si bx] bx by (simp add: unat_gt_0 [symmetric] del: unat_gt_0)
  next
    case False
    show ?thesis
    proof (cases "m si = 10")
      case True
      then show ?thesis using e bx False unat_dec_less by auto
    next
      case ne: False
      then have "unat bx' < unat (bx - 1)" using 1(1) [OF bx False refl refl] e bx False by simp
      then show ?thesis using unat_dec_less [OF bx] by simp
    qed
  qed
qed

function packet_lines :: "mem \<Rightarrow> nat \<Rightarrow> u16 \<Rightarrow> line_state \<Rightarrow> cstr list \<times> line_state" where
  "packet_lines m si bx l =
     (case append_line m si bx l of
        (si, bx, l, False) \<Rightarrow> ([], l)
      | (si, bx, l, True) \<Rightarrow> (let (ls, r) = packet_lines m si bx (new_line l) in (line_text l # ls, r)))"
  by pat_completeness auto

termination packet_lines
  by (relation "measure (\<lambda>(m, si, bx, l). unat bx)") (auto dest: append_line_less [OF sym])

declare packet_lines.simps [simp del]

fun packets_lines :: "(mem \<times> nat \<times> u16) list \<Rightarrow> line_state \<Rightarrow> cstr list \<times> line_state" where
  "packets_lines [] l = ([], l)"
| "packets_lines ((m, si, bx) # ps) l =
     (let (ls, l) = packet_lines m si bx l; (ls', l) = packets_lines ps l in (ls @ ls', l))"

text \<open>The reference: a stream of bytes cut behind its line feeds, when \<open>cur\<close> is the start of the first line.\<close>

fun cut :: "cstr \<Rightarrow> cstr \<Rightarrow> cstr list \<times> cstr" where
  "cut cur [] = ([], cur)"
| "cut cur (c # cs) =
     (if c = 10 then (let (ls, r) = cut [] cs in ((cur @ [10]) # ls, r)) else cut (cur @ [c]) cs)"

definition fit :: "cstr list \<times> cstr \<Rightarrow> bool" where
  "fit x \<longleftrightarrow> (\<forall>y\<in>set (fst x). length y \<le> 512) \<and> length (snd x) \<le> 512"

lemma cut_append: "cut cur (xs @ ys) = (fst (cut cur xs) @ fst (cut (snd (cut cur xs)) ys), snd (cut (snd (cut cur xs)) ys))"
  by (induction cur xs rule: cut.induct) (auto simp: split_beta)

lemma cut_room: "fit (cut cur xs) \<Longrightarrow> length cur \<le> 512"
  by (induction cur xs rule: cut.induct) (auto simp: fit_def split_beta split: if_splits)

definition line_ok :: "line_state \<Rightarrow> bool" where
  "line_ok l \<longleftrightarrow> ln_di l + unat (ln_dx l) = 512"

lemma line_ok_len: "line_ok l \<Longrightarrow> unat (lineBufferLen - ln_dx l) = ln_di l"
proof -
  assume l: "line_ok l"
  then have "ln_dx l \<le> lineBufferLen" unfolding line_ok_def lineBufferLen_def by (simp add: word_le_nat_alt)
  then have "unat (lineBufferLen - ln_dx l) = unat lineBufferLen - unat (ln_dx l)" by (rule unat_sub)
  then show ?thesis using l unfolding line_ok_def lineBufferLen_def by simp
qed

lemma new_line_ok [simp]: "line_ok (new_line l)" "line_text (new_line l) = []"
  by (simp_all add: line_ok_def new_line_def lineBufferLen_def line_text_def)

definition put_char :: "u8 \<Rightarrow> line_state \<Rightarrow> line_state" where
  "put_char c l = l\<lparr>lineBuffer := (lineBuffer l)(ln_di l := c), ln_di := ln_di l + 1, ln_dx := ln_dx l - 1\<rparr>"

lemma put_char_ok:
  assumes "line_ok l" and "ln_dx l \<noteq> 0"
  shows "line_ok (put_char c l)" and "line_text (put_char c l) = line_text l @ [c]"
proof -
  have "unat (ln_dx l - 1) = unat (ln_dx l) - 1" "0 < unat (ln_dx l)" using assms(2) by (simp_all add: unat_minus_one unat_gt_0)
  then show ok: "line_ok (put_char c l)" using assms(1) by (simp add: line_ok_def put_char_def)
  show "line_text (put_char c l) = line_text l @ [c]"
    unfolding line_text_def line_ok_len [OF ok] line_ok_len [OF assms(1)]
    by (simp add: put_char_def rdbytes_def)
qed

lemma packet_lines_cut:
  assumes "fit (cut (line_text l) (rdbytes m si (unat bx)))" and "line_ok l"
  shows "\<exists>l'. packet_lines m si bx l = (fst (cut (line_text l) (rdbytes m si (unat bx))), l') \<and>
    line_text l' = snd (cut (line_text l) (rdbytes m si (unat bx))) \<and> line_ok l'"
  using assms
proof (induction "unat bx" arbitrary: si bx l)
  case 0
  then have "bx = 0" by (simp add: unat_eq_zero)
  then show ?case using 0 by (subst packet_lines.simps, subst append_line.simps) simp
next
  case (Suc n)
  define xs where "xs = rdbytes m (si + 1) (unat (bx - 1))"
  have bx: "bx \<noteq> 0" using Suc(2) by auto
  then have n: "unat (bx - 1) = n" using Suc(2) by (simp add: unat_minus_one)
  have b: "rdbytes m si (unat bx) = m si # xs"
    unfolding xs_def n Suc(2) [symmetric] by (simp add: rdbytes_def upt_conv_Cons del: upt_Suc)
  have "ln_dx l \<noteq> 0"
  proof
    assume "ln_dx l = 0"
    then have "length (line_text l) = 512" using Suc(4) by (simp add: line_text_def line_ok_def lineBufferLen_def)
    moreover have "length (line_text l) < 512"
      using Suc(3) cut_room [of "line_text l @ [m si]" xs] unfolding b
      by (cases "m si = 10") (auto simp: fit_def split_beta)
    ultimately show False by simp
  qed
  note p = put_char_ok [OF Suc(4) this, of "m si"]
  have a: "append_line m si bx l = (if m si = 10 then (si + 1, bx - 1, put_char (m si) l, True)
      else append_line m (si + 1) (bx - 1) (put_char (m si) l))"
    using bx \<open>ln_dx l \<noteq> 0\<close> by (subst append_line.simps) (simp add: put_char_def Let_def)
  show ?case
  proof (cases "m si = 10")
    case True
    have "fit (cut (line_text (new_line (put_char 10 l))) xs)" using Suc(3) unfolding b by (auto simp: fit_def True split_beta)
    from Suc(1) [OF n [symmetric] this [unfolded xs_def] new_line_ok(1)] show ?thesis
      using p(2) True unfolding b xs_def [symmetric]
      by (subst packet_lines.simps) (auto simp: a split_beta)
  next
    case False
    then have e: "packet_lines m si bx l = packet_lines m (si + 1) (bx - 1) (put_char (m si) l)"
      by (subst (1 2) packet_lines.simps) (simp add: a)
    have "cut (line_text l) (m si # xs) = cut (line_text (put_char (m si) l)) xs" using False p(2) by simp
    then show ?thesis using Suc(1) [OF n [symmetric] _ p(1)] Suc(3) unfolding b e xs_def by simp
  qed
qed

definition packet_bytes :: "mem \<times> nat \<times> u16 \<Rightarrow> cstr" where
  "packet_bytes x = (case x of (m, si, bx) \<Rightarrow> rdbytes m si (unat bx))"

lemma packets_lines_cut:
  assumes "fit (cut (line_text l) (concat (map packet_bytes ps)))" and "line_ok l"
  shows "\<exists>l'. packets_lines ps l = (fst (cut (line_text l) (concat (map packet_bytes ps))), l') \<and>
    line_text l' = snd (cut (line_text l) (concat (map packet_bytes ps)))"
  using assms
proof (induction ps arbitrary: l)
  case (Cons x ps)
  obtain m si bx where x: "x = (m, si, bx)" by (cases x) auto
  let ?c = "cut (line_text l) (rdbytes m si (unat bx))"
  have c: "cut (line_text l) (concat (map packet_bytes (x # ps))) =
      (fst ?c @ fst (cut (snd ?c) (concat (map packet_bytes ps))), snd (cut (snd ?c) (concat (map packet_bytes ps))))"
    by (simp add: x packet_bytes_def cut_append)
  have f: "fit (cut (snd ?c) (concat (map packet_bytes ps)))" using Cons.prems(1) unfolding c by (auto simp: fit_def)
  then have "fit ?c" using Cons.prems(1) cut_room [OF f] unfolding c by (auto simp: fit_def)
  from packet_lines_cut [OF this Cons.prems(2)] obtain l' where l': "packet_lines m si bx l = (fst ?c, l')"
    "line_text l' = snd ?c" "line_ok l'" by blast
  then show ?case using Cons.IH [of l'] f unfolding c by (auto simp: x l'(2))
qed simp

text \<open>
  A line that is longer than the buffer is not skipped to its end when the line feed is in a later packet: what follows
  in that packet is taken as a line of its own.
\<close>

lemma scan_lf_none: "10 \<notin> set (rdbytes m si (unat bx)) \<Longrightarrow> snd (scan_lf m si bx) = 0"
proof (induction m si bx rule: scan_lf.induct)
  case (1 m si bx)
  show ?case
  proof (cases "bx = 0")
    case True
    then show ?thesis by (subst scan_lf.simps) simp
  next
    case False
    then have "rdbytes m si (unat bx) = m si # rdbytes m (si + 1) (unat (bx - 1))"
      by (cases "unat bx") (simp_all add: unat_minus_one unat_eq_zero rdbytes_def upt_conv_Cons del: upt_Suc)
    then show ?thesis using 1 False by (subst scan_lf.simps) auto
  qed
qed

section \<open>Answers to messages\<close>

lemma writeText_puts: "length xs < 65536 \<Longrightarrow> writeText xs w = puts xs w"
proof -
  assume n: "length xs < 65536"
  then have "unat (of_nat (length xs) :: u16) = length xs" by (simp add: unsigned_of_nat take_bit_nat_less)
  moreover have "rdbytes (mem_of xs) 0 (length xs) = xs" by (intro nth_equalityI) (simp_all add: mem_of_def)
  ultimately show ?thesis by (simp add: writeText_def writeStr_puts)
qed

lemma paramAt_loop_count: "ax \<noteq> 0 \<Longrightarrow> paramAt_loop ax i = i + unat ax"
proof (induction ax i rule: paramAt_loop.induct)
  case (1 ax i)
  have "unat ax = Suc (unat (ax - 1))" using 1(2) unat_gt_0 [of ax] by (simp add: unat_minus_one)
  then show ?case using 1 by (subst paramAt_loop.simps) (auto simp: Let_def unat_eq_zero)
qed

lemma paramAt_parsed:
  assumes "at_params ps p" and "i < length ps"
  shows "\<exists>si n. paramAt (of_nat i) p = Some (si, n) \<and> rdbytes (parseBuffer p) si (unat n) = ps ! i"
proof -
  have l: "paramsListLen p = of_nat (length ps)" "length ps \<le> 3" and h: "holds p (paramsList p i) (ps ! i)"
    using assms by (simp_all add: at_params_def)
  have u: "unat (of_nat i :: u16) = i" using assms(2) l(2) by (simp add: unsigned_of_nat take_bit_nat_less)
  have s: "sint (of_nat k :: u16) = int k" if "k \<le> 3" for k
    using that by (simp add: signed_of_nat signed_take_bit_int_eq_self)
  have "paramAt (of_nat i) p = Some (paramsList p i)"
    using assms(2) l u s [of i] s [of "length ps"] paramAt_loop_count [of "of_nat i" 0]
    by (auto simp: paramAt_def)
  then show ?thesis using h by (cases "paramsList p i") (simp add: holds_def)
qed

lemma writeParam_puts:
  assumes "at_params ps p" and "ps \<noteq> []"
  shows "writeParam k 0 p w = puts (hd ps) w"
proof -
  obtain si n where "paramAt 0 p = Some (si, n)" "rdbytes (parseBuffer p) si (unat n) = ps ! 0"
    using paramAt_parsed [OF assms(1), of 0] assms(2) by auto
  then show ?thesis using assms(2) by (simp add: writeParam_def writeStr_puts hd_conv_nth)
qed

definition pong_text :: "cstr \<Rightarrow> cstr" where "pong_text p = ascii ''PONG :'' @ p @ [13, 10]"
definition hello_end :: cstr where "hello_end = ascii '' :HELLO THERE'' @ [13, 10]"
definition hello_text :: "cstr \<Rightarrow> cstr" where "hello_text p = ascii ''PRIVMSG '' @ p @ hello_end"

lemma answers:
  assumes "at_params ps p" and "ps \<noteq> []"
  shows "writePong k p w = puts (pong_text (hd ps)) w" and "writeHello k p w = puts (hello_text (hd ps)) w"
  by (simp_all add: writePong_def writeHello_def Let_def writeChar_puts puts_puts writeParam_puts [OF assms]
      writeText_puts pongCmd_def privmsgCmd_def helloText_def pong_text_def hello_text_def hello_end_def ascii_def of_char_def)

lemma le16_eq: "le16 a b = le16 c d \<longleftrightarrow> a = c \<and> b = d"
  by (metis le16_low le16_high)

lemma rd16_text: "rdbytes m si n = xs \<Longrightarrow> i + 1 < length xs \<Longrightarrow> rd16 m (si + i) = le16 (xs ! i) (xs ! (i + 1))"
  by (auto simp: rd16_def)

lemma build_text:
  assumes "w = \<lparr>o_mem = bss s, o_di = 0, o_cx = a\<rparr>" and "length r \<le> unat a"
  shows "o_mem (puts r w) = memcpy (bss s) 0 r" and "a - o_cx (puts r w) = of_nat (length r)"
  using assms by (simp_all add: puts_def)

text \<open>In the idle state: an answer to a ping, an answer to a greeting.\<close>

lemma idle_ping:
  assumes "parse_done m p" and "take 2 (m_cmd m) = ascii ''PI''"
  shows "idleState k p w = puts (pong_text (hd (m_params m))) w"
proof -
  have c: "rdbytes (parseBuffer p) (cmdBuffer p) (unat (cmdBufferLen p)) = m_cmd m" and ps: "at_params (m_params m) p" "m_params m \<noteq> []"
    using assms(1) by (simp_all add: parse_done_def at_cmd_def holds_def)
  obtain x y r where cmd: "m_cmd m = x # y # r" "x = 80" "y = 73"
    using assms(2) by (cases "m_cmd m" rule: remdups_adj.cases) (auto simp: ascii_def of_char_def)
  have "rd16 (parseBuffer p) (cmdBuffer p) = le16 80 73" using rd16_text [OF c, of 0] by (simp add: cmd)
  then show ?thesis by (simp add: idleState_def answers [OF ps])
qed

lemma idle_hello:
  assumes "parse_done m p" and "2 \<le> length (m_cmd m)" and "take 2 (m_cmd m) \<noteq> ascii ''PI''"
    and "2 \<le> length (m_params m)" and "take 6 (m_params m ! 1) = ascii ''>HELLO''"
  shows "idleState k p w = puts (hello_text (hd (m_params m))) w"
proof -
  have c: "rdbytes (parseBuffer p) (cmdBuffer p) (unat (cmdBufferLen p)) = m_cmd m" and ps: "at_params (m_params m) p" "m_params m \<noteq> []"
    using assms(1) by (simp_all add: parse_done_def at_cmd_def holds_def)
  obtain x y r where cmd: "m_cmd m = x # y # r" using assms(2) by (cases "m_cmd m" rule: remdups_adj.cases) auto
  have "rd16 (parseBuffer p) (cmdBuffer p) \<noteq> le16 80 73"
    using rd16_text [OF c, of 0] assms(3) by (auto simp: cmd le16_eq ascii_def of_char_def)
  moreover obtain si n where "paramAt 1 p = Some (si, n)" and r: "rdbytes (parseBuffer p) si (unat n) = m_params m ! 1"
    using paramAt_parsed [OF ps(1), of 1] assms(4) by auto
  moreover have len: "6 \<le> length (m_params m ! 1)" using arg_cong [OF assms(5), of length] by (simp add: ascii_def)
  then have i: "m_params m ! 1 ! i = ascii ''>HELLO'' ! i" if "i < 6" for i
    using that by (subst assms(5) [symmetric]) simp
  have "rd16 (parseBuffer p) si = le16 62 72" "rd16 (parseBuffer p) (si + 2) = le16 69 76" "rd16 (parseBuffer p) (si + 4) = le16 76 79"
    using rd16_text [OF r, of 0] rd16_text [OF r, of 2] rd16_text [OF r, of 4] len i [of 0] i [of 1] i [of 2] i [of 3] i [of 4] i [of 5]
    by (simp_all add: ascii_def of_char_def)
  ultimately show ?thesis by (simp add: idleState_def answers [OF ps])
qed

lemma dispatch_idle:
  assumes "parse_line (rdbytes line si (unat cx)) = Some m" and "rd16 (bss s) botState = at_idleState k"
    and "at_idleState k \<noteq> at_startState k" and "\<And>p w. parse_done m p \<Longrightarrow> idleState k p w = puts r w"
    and "length r \<le> unat (at_outBufferLen k)"
  shows "\<exists>p. parse_done m p \<and>
    dispatchLine k line si cx s = Some (\<lparr>bl_parser = p, bss = memcpy (bss s) 0 r\<rparr>, of_nat (length r))"
proof -
  obtain p where p: "doParse line si cx (bl_parser s) = (p, False)" "parse_done m p"
    using doParse_parses [of line si cx "bl_parser s"] assms(1) by auto
  note b = build_text [OF refl assms(5), of s]
  have "dispatchLine k line si cx s = Some (s\<lparr>bl_parser := p, bss := memcpy (bss s) 0 r\<rparr>, of_nat (length r))"
    using p(1) assms(2,3) assms(4) [OF p(2)] b by (simp add: dispatchLine_def buildBuffer_def Let_def)
  then show ?thesis using p(2) by (intro exI [of _ p]) simp
qed

text \<open>A routine that the state does not name is called: the effect is not defined.\<close>

lemma dispatch_lost:
  assumes "parse_line (rdbytes line si (unat cx)) = Some m"
    and "rd16 (bss s) botState \<noteq> at_startState k" and "rd16 (bss s) botState \<noteq> at_idleState k"
  shows "dispatchLine k line si cx s = None"
proof -
  obtain p where p: "doParse line si cx (bl_parser s) = (p, False)" "parse_done m p"
    using doParse_parses [of line si cx "bl_parser s"] assms(1) by auto
  then show ?thesis using assms(2,3) by (simp add: dispatchLine_def buildBuffer_def Let_def)
qed

lemma rd16_memcpy0: "Suc i < length xs \<Longrightarrow> rd16 (memcpy m 0 xs) i = le16 (xs ! i) (xs ! Suc i)"
  "length xs \<le> i \<Longrightarrow> rd16 (memcpy m 0 xs) i = rd16 m i"
  by (simp_all add: rd16_def memcpy_def)

text \<open>Where the end of the answer to a greeting lies on the address of the routine.\<close>

definition overwritten :: "nat \<Rightarrow> u16" where
  "overwritten n = le16 (hello_end ! (506 - n)) (hello_end ! (507 - n))"

lemma hello_text_length: "length (hello_text p) = length p + 23"
  by (simp add: hello_text_def hello_end_def ascii_def)

lemma hello_text_end:
  assumes "i < 15"
  shows "hello_text p ! (length p + 8 + i) = hello_end ! i"
proof -
  have "hello_text p = (ascii ''PRIVMSG '' @ p) @ hello_end" "length (ascii ''PRIVMSG '' @ p) = length p + 8"
    by (simp_all add: hello_text_def ascii_def)
  then show ?thesis by (metis nth_append_length_plus)
qed

lemma hello_text_overwrites:
  assumes "493 \<le> length p" and "length p \<le> 504"
  shows "rd16 (memcpy m 0 (hello_text p)) botState = overwritten (length p)"
proof -
  have "length p + 8 + (506 - length p) = 514" "length p + 8 + (507 - length p) = 515" using assms by simp_all
  then have "hello_text p ! 514 = hello_end ! (506 - length p)" "hello_text p ! 515 = hello_end ! (507 - length p)"
    using hello_text_end [of "506 - length p" p] hello_text_end [of "507 - length p" p] assms by simp_all
  then show ?thesis
    using rd16_memcpy0(1) [of 514 "hello_text p" m] assms by (simp add: botState_def overwritten_def hello_text_length)
qed

lemma rdbytes_mem_of: "length xs < 65536 \<Longrightarrow> rdbytes (mem_of xs) 0 (unat (of_nat (length xs) :: u16)) = xs"
proof -
  assume "length xs < 65536"
  then have "unat (of_nat (length xs) :: u16) = length xs" by (simp add: unsigned_of_nat take_bit_nat_less)
  then show ?thesis by (intro nth_equalityI) (simp_all add: mem_of_def)
qed

text \<open>Concrete values for the properties: a program with made-up addresses that waits in the idle state, two messages.\<close>

definition demo_link :: bot_link where
  "demo_link = \<lparr>at_outBufferLen = 1000, at_startState = 400, at_idleState = 420, at_null = \<lambda>_. 0\<rparr>"

definition demo_logic :: bot_logic where
  "demo_logic = \<lparr>bl_parser = demo_parser, bss = memcpy (\<lambda>_. 0) botState (bytes16 420)\<rparr>"

definition ping_msg :: irc_msg where
  "ping_msg = \<lparr>m_tags = [], m_prefix = [], m_cmd = ascii ''PING'', m_params = [ascii ''tmi.x'']\<rparr>"

definition long_msg :: irc_msg where
  "long_msg = \<lparr>m_tags = [], m_prefix = [], m_cmd = ascii ''PRIVMSG'', m_params = [replicate 493 65, ascii ''>HELLO'']\<rparr>"

lemma demo_logic_idle: "rd16 (bss demo_logic) botState = at_idleState demo_link"
  by (simp add: demo_logic_def demo_link_def rd16_def memcpy_def bytes16_def le16_def)

lemma good_demos: "good_msg ping_msg" "good_msg long_msg"
  by (simp_all add: ping_msg_def long_msg_def good_msg_def sendable_def no_sep_def sep_def colon_def ascii_def of_char_def list_all_length)

lemma length_demos: "length (irc_line ping_msg) < 65536" "length (irc_line long_msg) < 512"
  by (simp_all add: ping_msg_def long_msg_def irc_line_def part_def param_text_def colon_def ascii_def of_char_def)

section \<open>Properties\<close>

text \<open>
  C37. The lines that the bot dispatches are those of the byte stream, however it is cut into packets, and what follows
  the last line feed waits in the line buffer, when no line is longer than the buffer of 512 bytes.
\<close>

theorem lines_of_stream:
  assumes "cut [] (concat (map packet_bytes ps)) = (ls, rest)" and "\<forall>x\<in>set ls. length x \<le> 512" and "length rest \<le> 512"
  shows "\<exists>l'. packets_lines ps (new_line l) = (ls, l') \<and> line_text l' = rest"
  using packets_lines_cut [of "new_line l" ps] assms by (simp add: fit_def)

definition demo_line :: line_state where "demo_line = \<lparr>lineBuffer = \<lambda>_. 0, ln_di = 7, ln_dx = 3\<rparr>"

theorem lines_of_stream_witness:
  "\<exists>l'. packets_lines [(mem_of [65], 0, 1), (mem_of [9, 66, 10, 67, 10, 68], 1, 5)] (new_line demo_line) = ([[65, 66, 10], [67, 10]], l') \<and>
     line_text l' = [68]"
proof -
  have "cut [] (concat (map packet_bytes [(mem_of [65], 0, 1), (mem_of [9, 66, 10, 67, 10, 68], 1, 5)])) = ([[65, 66, 10], [67, 10]], [68])"
    by (simp add: packet_bytes_def rdbytes_def mem_of_def upt_rec)
  from lines_of_stream [OF this, of demo_line] show ?thesis by simp
qed

text \<open>
  C38. A bot that has logged in answers a \<^verbatim>\<open>PING\<close> with the parameter of the message behind \<^verbatim>\<open>PONG :\<close>, and waits for the
  next message, when the answer fits in the buffer.
\<close>

theorem ping_answered:
  assumes "good_msg m" and "m_cmd m = ascii ''PING''" and "rdbytes line si (unat cx) = irc_line m"
    and "rd16 (bss s) botState = at_idleState k" and "at_idleState k \<noteq> at_startState k"
    and "length (hd (m_params m)) \<le> 504" and "512 \<le> unat (at_outBufferLen k)"
  shows "\<exists>t n. dispatchLine k line si cx s = Some (t, n) \<and>
    rdbytes (bss t) 0 (unat n) = ascii ''PONG :'' @ hd (m_params m) @ [13, 10] \<and> rd16 (bss t) botState = at_idleState k"
proof -
  let ?r = "pong_text (hd (m_params m))"
  have n: "length ?r \<le> 512" using assms(6) by (simp add: pong_text_def ascii_def)
  have "parse_line (rdbytes line si (unat cx)) = Some m" using parse_irc_line [OF assms(1)] assms(3) by simp
  moreover have "idleState k p w = puts ?r w" if "parse_done m p" for p w
    using that by (rule idle_ping) (simp add: assms(2) ascii_def)
  moreover have "length ?r \<le> unat (at_outBufferLen k)" using n assms(7) by linarith
  ultimately obtain p where d: "dispatchLine k line si cx s = Some (\<lparr>bl_parser = p, bss = memcpy (bss s) 0 ?r\<rparr>, of_nat (length ?r))"
    using dispatch_idle [of line si cx m s k ?r] assms(4,5) by auto
  have "unat (of_nat (length ?r) :: u16) = length ?r" using n by (simp add: unsigned_of_nat take_bit_nat_less)
  moreover have "rdbytes (memcpy (bss s) 0 ?r) 0 (length ?r) = ?r" by simp
  ultimately show ?thesis using d n assms(4) rd16_memcpy0(2) [of ?r botState "bss s"] by (simp add: pong_text_def botState_def)
qed

theorem ping_answered_witness:
  "\<exists>t n. dispatchLine demo_link (mem_of (irc_line ping_msg)) 0 (of_nat (length (irc_line ping_msg))) demo_logic = Some (t, n) \<and>
     rdbytes (bss t) 0 (unat n) = ascii ''PONG :tmi.x'' @ [13, 10] \<and> rd16 (bss t) botState = at_idleState demo_link"
  using ping_answered [OF good_demos(1) _ rdbytes_mem_of [OF length_demos(1)] demo_logic_idle]
  by (simp add: ping_msg_def demo_link_def ascii_def)

text \<open>
  C39. An answer is not cut off at the end of its buffer.  An idle bot that parses a message whose command has at least two bytes and
  does not start with \<^verbatim>\<open>PI\<close>, with a first parameter of 493 to 504 bytes and a second one that starts with \<^verbatim>\<open>>HELLO\<close>, builds an answer of
  more than 512 bytes, and the address of the routine for the next message becomes two bytes of the constant
  end of that answer, which the length of the first parameter selects (for 493 bytes its CR LF, 0x0A0D).  Unless that is the address of
  one of the two routines, the next message that can be parsed makes the bot call an address where no routine of the bot is.
\<close>

theorem long_target_overwrites_state:
  assumes "parse_line (rdbytes line si (unat cx)) = Some m"
    and "2 \<le> length (m_cmd m)" and "take 2 (m_cmd m) \<noteq> ascii ''PI''"
    and "2 \<le> length (m_params m)" and "take 6 (m_params m ! 1) = ascii ''>HELLO''"
    and "493 \<le> length (hd (m_params m))" and "length (hd (m_params m)) \<le> 504"
    and "rd16 (bss s) botState = at_idleState k" and "at_idleState k \<noteq> at_startState k"
    and "length (hd (m_params m)) + 23 \<le> unat (at_outBufferLen k)"
  shows "\<exists>t n. dispatchLine k line si cx s = Some (t, n) \<and> unat n = length (hd (m_params m)) + 23 \<and>
    rd16 (bss t) botState = overwritten (length (hd (m_params m))) \<and>
    (overwritten (length (hd (m_params m))) \<notin> {at_startState k, at_idleState k} \<longrightarrow>
      (\<forall>line si cx. parse_line (rdbytes line si (unat cx)) \<noteq> None \<longrightarrow> dispatchLine k line si cx t = None))"
proof -
  let ?p = "hd (m_params m)" and ?r = "hello_text (hd (m_params m))"
  have "length ?r \<le> unat (at_outBufferLen k)" using assms(10) by (simp add: hello_text_length)
  then obtain p where d: "dispatchLine k line si cx s = Some (\<lparr>bl_parser = p, bss = memcpy (bss s) 0 ?r\<rparr>, of_nat (length ?r))"
    using dispatch_idle [of line si cx m s k ?r] idle_hello [OF _ assms(2-5)] assms(1,8,9) by auto
  let ?t = "\<lparr>bl_parser = p, bss = memcpy (bss s) 0 ?r\<rparr>"
  have b: "rd16 (bss ?t) botState = overwritten (length ?p)" using hello_text_overwrites [OF assms(6,7)] by simp
  have "unat (of_nat j :: u16) = j" if "j < 65536" for j using that by (simp add: unsigned_of_nat take_bit_nat_less)
  then have "unat (of_nat (length ?r) :: u16) = length ?p + 23"
    using assms(7) by (simp only: hello_text_length)
  moreover have "dispatchLine k line' si' cx' ?t = None"
    if "overwritten (length ?p) \<notin> {at_startState k, at_idleState k}" "parse_line (rdbytes line' si' (unat cx')) \<noteq> None"
    for line' si' cx'
    using that b by (auto intro: dispatch_lost)
  ultimately show ?thesis using d b by blast
qed

theorem long_target_overwrites_state_witness:
  "\<exists>t n. dispatchLine demo_link (mem_of (irc_line long_msg)) 0 (of_nat (length (irc_line long_msg))) demo_logic = Some (t, n) \<and>
     unat n = 516 \<and> rd16 (bss t) botState = 0x0A0D \<and>
     dispatchLine demo_link (mem_of (irc_line ping_msg)) 0 (of_nat (length (irc_line ping_msg))) t = None"
proof -
  have l: "length (irc_line long_msg) < 65536" using length_demos(2) by simp
  have q: "parse_line (rdbytes (mem_of (irc_line ping_msg)) 0 (unat (of_nat (length (irc_line ping_msg)) :: u16))) \<noteq> None"
    by (simp add: rdbytes_mem_of [OF length_demos(1)] parse_irc_line [OF good_demos(1)])
  have p: "parse_line (rdbytes (mem_of (irc_line long_msg)) 0 (unat (of_nat (length (irc_line long_msg)) :: u16))) = Some long_msg"
    by (simp add: rdbytes_mem_of [OF l] parse_irc_line [OF good_demos(2)])
  have c: "2 \<le> length (m_cmd long_msg)" "take 2 (m_cmd long_msg) \<noteq> ascii ''PI''" "2 \<le> length (m_params long_msg)"
    "take 6 (m_params long_msg ! 1) = ascii ''>HELLO''" "length (hd (m_params long_msg)) = 493"
    by (simp_all add: long_msg_def ascii_def of_char_def)
  have k: "at_idleState demo_link \<noteq> at_startState demo_link" "516 \<le> unat (at_outBufferLen demo_link)" by (simp_all add: demo_link_def)
  have o: "overwritten 493 = 0x0A0D" by (simp add: overwritten_def hello_end_def ascii_def nth_append le16_def)
  have z: "overwritten 493 \<notin> {at_startState demo_link, at_idleState demo_link}" by (simp add: o demo_link_def)
  show ?thesis
    using long_target_overwrites_state [OF p c(1-4) _ _ demo_logic_idle k(1)] c(5) k(2) q z o by auto
qed

end
