(* ===== verification/BotSystem.thy ===== *)
theory BotSystem
  imports BufferSystem BotLogic
begin

text \<open>
  The receive buffers while the bot runs, its assembler part included.
\<close>

section \<open>The assembler part\<close>

definition point_state :: "'s asm_point \<Rightarrow> 's" where
  "point_state c = (case c of (n, p, si, bx, l, t, s) \<Rightarrow> s)"

definition turn_state :: "(nat \<times> 's \<times> int) + 's asm_point \<Rightarrow> 's" where
  "turn_state r = (case r of Inl (n, s, rc) \<Rightarrow> s | Inr c \<Rightarrow> point_state c)"

lemma upd_buf_bot: "bot_flow s \<Longrightarrow> bot_flow (upd_buf b f s)"
proof -
  assume s: "bot_flow s"
  have "sys_view (upd_buf b f s) = sys_view s" by (rule sys_view_full) simp
  then have "sys_flow (opt_mset (recvPacket s)) None (callbackPorts s) UNIV (upd_buf b f s)"
    using s sys_flow_cong unfolding bot_flow_def by blast
  then show ?thesis using bot_flowI [of "upd_buf b f s"] by (simp add: upd_buf_def)
qed

lemma sendPacket_asm_bot:
  assumes "bot_flow s" and "bot_handlers user" and "sendPacket_asm user ev n si cx s = Some (n', s', rc)"
  shows "bot_flow s'"
  using assms sendNewBuffer_bot [OF upd_buf_bot [OF assms(1)] assms(2)]
  by (auto simp: sendPacket_asm_def split: user_ptr.splits option.splits)

lemma asm_receive_bot:
  assumes "bot_flow s" and "bot_handlers user" and "asm_receive user ev keys n l t s = Some r"
  shows "bot_flow (turn_state r)"
proof -
  obtain n1 s1 rc where r: "recvNewPacket user ev keys n s = Some (n1, s1, rc)"
    using assms(3) by (auto simp: asm_receive_def split: option.splits)
  have "bot_flow s1" by (rule recvNewPacket_bot [OF assms(1,2) r])
  then show ?thesis using assms(3) r sendPacket_asm_bot [OF _ assms(2)]
    by (auto simp: asm_receive_def turn_state_def point_state_def split: if_splits)
qed

lemma asm_dispatch_bot:
  assumes "bot_flow (point_state c)" and "bot_handlers user" and "asm_dispatch user ev k c = Some r"
  shows "bot_flow (turn_state r)"
proof -
  obtain n p si bx l t s where c: "c = (n, p, si, bx, l, t, s)" by (cases c) auto
  have s: "bot_flow s" using assms(1) by (simp add: c point_state_def)
  show ?thesis using assms(3) s sendPacket_asm_bot [OF s assms(2)]
    by (auto simp: c asm_dispatch_def turn_state_def point_state_def split: option.splits if_splits)
qed

lemma asm_turn_bot:
  assumes "bot_flow (point_state c)" and "bot_handlers user" and "asm_turn user ev keys k c = Some r"
  shows "bot_flow (turn_state r)"
proof -
  obtain n p si bx l t s where c: "c = (n, p, si, bx, l, t, s)" by (cases c) auto
  obtain si' bx' l' b where a: "append_line (pkt_mem s p) si bx l = (si', bx', l', b)" by (cases "append_line (pkt_mem s p) si bx l") auto
  have s: "bot_flow s" using assms(1) by (simp add: c point_state_def)
  show ?thesis
  proof (cases b)
    case True
    then show ?thesis using assms(3) asm_dispatch_bot [OF _ assms(2), of "(n, p, si', bx', l', t, s)"] s
      by (simp add: asm_turn_def c a point_state_def)
  next
    case False
    then show ?thesis using assms(3) asm_receive_bot [OF s assms(2)] by (simp add: asm_turn_def c a)
  qed
qed

lemma asm_loop_bot:
  "asm_loop user ev keys k c = Some r \<Longrightarrow> bot_handlers user \<Longrightarrow> bot_flow (point_state c) \<Longrightarrow> bot_flow (fst (snd r))"
proof (induction rule: asm_loop.raw_induct [rotated, consumes 1, case_names 1])
  case (1 loop user ev keys k c r)
  obtain x where x: "asm_turn user ev keys k c = Some x" using 1(2) by (auto split: option.splits)
  then have "bot_flow (turn_state x)" using asm_turn_bot [OF 1(4,3)] by simp
  then show ?case using 1(1) [OF _ 1(3)] 1(2) x by (auto simp: turn_state_def split: sum.splits)
qed

lemma asmRun_bot:
  assumes "bot_flow s" and "bot_handlers user"
    and "asmRun user ev keys k env open_file read_file l t n s = Some (n', s', rc)"
  shows "bot_flow s'"
proof -
  obtain t' ax where d: "dispatchInit k env open_file read_file t = (t', ax)" by (cases "dispatchInit k env open_file read_file t") auto
  show ?thesis
  proof (cases "ax = 0")
    case True
    then obtain n1 s1 rc1 where p: "sendPacket_asm user ev n (bss t') (rd16 (bss t') outBufferLen) s = Some (n1, s1, rc1)"
      using assms(3) d by (auto simp: asmRun_def split: option.splits)
    have "bot_flow s1" by (rule sendPacket_asm_bot [OF assms(1,2) p])
    then show ?thesis
      using assms(3) d True p asm_loop_bot [OF _ assms(2), of ev keys k _ "(n', s', rc)"]
      by (auto simp: asmRun_def point_state_def split: if_splits)
  qed (use assms(1,3) d in \<open>simp add: asmRun_def\<close>)
qed

section \<open>The whole bot\<close>

text \<open>
  The calls of the bot: its connection is set up, it receives and it sends, as a pass of the assembler's loop or the
  whole of it; between the calls the stack may take any step that leaves the bot's packet alone.
\<close>

inductive bot_step ::
    "'a bot_state_ext startup_state_ext config_state_ext timer_state_ext user \<Rightarrow> 'a bot_state_scheme \<Rightarrow> 'a bot_state_scheme \<Rightarrow> bool"
  for user :: "'a bot_state_ext startup_state_ext config_state_ext timer_state_ext user"
  where
  ConnectHost: "connect_host user ev keys n tmp junk host this s = Some (n', s', rc) \<Longrightarrow> bot_step user s s'"
| RecvPacket: "recvNewPacket user ev keys n s = Some (n', s', rc) \<Longrightarrow> bot_step user s s'"
| SendBuffer: "sendNewBuffer user ev n p len s = Some (n', s', rc) \<Longrightarrow> bot_step user s s'"
| AsmTurn: "asm_turn user ev keys k c = Some r \<Longrightarrow> bot_step user (point_state c) (turn_state r)"
| AsmRun: "asmRun user ev keys k env open_file read_file l t n s = Some (n', s', rc) \<Longrightarrow> bot_step user s s'"
| Stack: "stack_step user ({#}, opt_mset (recvPacket s), s) ({#}, opt_mset (recvPacket s), s') \<Longrightarrow> bot_step user s s'"

inductive_cases bot_stepE: "bot_step user s t"

lemma bot_step_flow:
  assumes "bot_step user s t" and "bot_handlers user" and "bot_flow s"
  shows "bot_flow t"
  using assms(1,3)
proof (induction rule: bot_step.induct)
  case (ConnectHost ev keys n tmp junk host this s n' s' rc)
  have h: "user_consumes {dns_state.more s} user" using assms(2) by (simp add: bot_handlers_def)
  have s: "sys_flow (opt_mset (recvPacket s)) None (callbackPorts s) {dns_state.more s} s"
    using sys_flow_exact ConnectHost(2) unfolding bot_flow_def by blast
  from connect_host_sys [OF h s ConnectHost(1)] show ?case by (rule bot_flow_exact [OF _ refl]) simp
next
  case (Stack s s')
  have h: "user_consumes {dns_state.more s} user" using assms(2) by (simp add: bot_handlers_def)
  have s: "sys_flow (opt_mset (recvPacket s)) None (callbackPorts s) {dns_state.more s} s"
    using sys_flow_exact Stack(2) unfolding bot_flow_def by blast
  have "step_flow {dns_state.more s} ({#}, opt_mset (recvPacket s), s)" using s by (auto simp: step_flow_def)
  from stack_step_sys [OF Stack(1) h this] obtain k where
    "sys_flow (opt_mset (recvPacket s)) None k {dns_state.more s} s'" by (auto simp: step_flow_def)
  then show ?case by (rule bot_flow_exact [OF _ refl]) simp
qed (blast intro: recvNewPacket_bot sendNewBuffer_bot asm_turn_bot asmRun_bot assms(2))+

lemma bot_run_flow: "(bot_step user)\<^sup>*\<^sup>* s t \<Longrightarrow> bot_handlers user \<Longrightarrow> bot_flow s \<Longrightarrow> bot_flow t"
  by (induction rule: rtranclp_induct) (auto intro: bot_step_flow)

text \<open>
  C14. The bot never loses a receive buffer either: through any run of connecting, receiving and
  sending, whatever the peer sends and however its calls end (a packet, a closed connection, the
  key that stops it, an error), each of the ten buffers is in the free stack, the receive
  ring, a socket's queue, the reassembly table, or is the one packet the bot works on.
\<close>

theorem bot_conserves_buffers:
  fixes s0 :: "'a bot_state_scheme"
  assumes "no_packets s0" and "malloc_ok s0 (heap_next s0)" and "recvPacket s0 = None" and "bot_handlers user"
    and "(bot_step user)\<^sup>*\<^sup>* (receiving s0) s"
  shows "mset (free_list s) + mset (ring_list s) +
      pool_part (inc_sum (\<lambda>i. incoming (socks s i)) + frag_sum (fragControl s) + opt_mset (recvPacket s)) =
    mset (map PoolBuf [0..<10])"
proof -
  have "recvPacket (receiving s0) = None"
    using assms(2,3) by (simp add: receiving_def Buffer_init_def Buffer_startReceiving_def malloc_def Let_def)
  then have "bot_flow (receiving s0)" using receiving_sys [OF assms(1,2)] by (intro bot_flowI) simp
  from bot_run_flow [OF assms(5,4) this] show ?thesis
    by (simp add: bot_flow_def sys_flow_def own_inv_def buf_inv_def own_total_def pool_all_def)
qed

definition demo_idle :: bot_state where
  "demo_idle = receiving (zero_bot_state\<lparr>bot_sock := Some 0, socks := (\<lambda>_. zero_socket\<lparr>state := TCP_STATE_ESTABLISHED\<rparr>)\<rparr>)"

lemma demo_idle:
  "bot_sock demo_idle = Some 0" "recvPacket demo_idle = None" "Buffer_first demo_idle = Buffer_next demo_idle"
  "state (socks demo_idle 0) = TCP_STATE_ESTABLISHED" "incoming (socks demo_idle 0) = empty_ring"
  "pendingEntries demo_idle = 0" "fragsInReassembly demo_idle = 0" "queryPending demo_idle = False"
  "Pending_Outgoing demo_idle = 0" "Pending_Sent demo_idle = 0" "activeSockets demo_idle = 0"
  by (simp_all add: demo_idle_def receiving_def Buffer_init_def Buffer_startReceiving_def malloc_def Let_def
      zero_bot zero_state zero_socket_def)

theorem bot_conserves_buffers_witness:
  "\<exists>s. recvNewPacket (\<lambda>_. Buffer_free) (\<lambda>_. []) (\<lambda>_. ALT_X) 0 demo_idle = Some (1, s, -1) \<and>
    mset (free_list s) + mset (ring_list s) +
      pool_part (inc_sum (\<lambda>i. incoming (socks s i)) + frag_sum (fragControl s) + opt_mset (recvPacket s)) =
    mset (map PoolBuf [0..<10])"
proof -
  let ?z = "zero_bot_state\<lparr>bot_sock := Some 0, socks := (\<lambda>_. zero_socket\<lparr>state := TCP_STATE_ESTABLISHED\<rparr>)\<rparr>"
  let ?s = "take_incoming 0 demo_idle"
  have "?s = demo_idle\<lparr>socks := (socks demo_idle)(0 := (socks demo_idle 0)\<lparr>incoming := empty_ring\<rparr>), recvPacket := None\<rparr>"
    by (simp add: take_incoming_def demo_idle upd_sock_def rb_dequeue_def empty_ring_def)
  then have t: "recvPacket ?s = None" "Buffer_first ?s = Buffer_next ?s" "state (socks ?s 0) = TCP_STATE_ESTABLISHED"
      "pendingEntries ?s = 0" "fragsInReassembly ?s = 0" "queryPending ?s = False" "Pending_Outgoing ?s = 0" "Pending_Sent ?s = 0"
    by (simp_all add: demo_idle)
  have turn: "recv_turn (\<lambda>_. Buffer_free) (\<lambda>_. []) 0 ?s = Some (1, ?s)"
    using t by (simp add: recv_turn_def interrupts_def idle_turn ip_frags_check_overdue_def driveArp_def drivePackets_def
        drivePendingQuery_def)
  have r: "recvNewPacket (\<lambda>_. Buffer_free) (\<lambda>_. []) (\<lambda>_. ALT_X) 0 demo_idle = Some (1, ?s, -1)"
    using t turn by (simp add: recvNewPacket_def demo_idle recv_loop.simps isRemoteClosed_def)
  have z: "no_packets ?z" "malloc_ok ?z (heap_next ?z)" "recvPacket ?z = None"
    by (simp_all add: no_packets_def zero_bot zero_state zero_socket_def isIpBigPacket_def)
  have h: "bot_handlers (\<lambda>_. Buffer_free)" by (simp add: bot_handlers_def user_drops)
  have "bot_step (\<lambda>_. Buffer_free) (receiving ?z) ?s"
    by (rule RecvPacket) (use r in \<open>simp add: demo_idle_def\<close>)
  from bot_conserves_buffers [OF z h r_into_rtranclp, OF this] show ?thesis using r by blast
qed

end
