(* ===== verification/BotTests.thy ===== *)
theory BotTests
  imports BotLogic
begin

text \<open>
  The cases of \<^verbatim>\<open>code/TEST/teststr.cpp\<close> and \<^verbatim>\<open>code/TEST/testpars.cpp\<close>, run on the model of the assembler.
\<close>

section \<open>Text\<close>

text \<open>The test buffer of 16 bytes, and what a test looks at: the bytes written, the position and the room left.\<close>

definition out16 :: text_out where "out16 = \<lparr>o_mem = \<lambda>_. 0, o_di = 0, o_cx = 16\<rparr>"
definition full16 :: text_out where "full16 = \<lparr>o_mem = \<lambda>_. 0, o_di = 0, o_cx = 0\<rparr>"

definition wrote :: "cstr \<Rightarrow> text_out \<Rightarrow> bool" where
  "wrote xs w \<longleftrightarrow> rdbytes (o_mem w) 0 (length xs) = xs \<and> o_di w = length xs \<and> unat (o_cx w) = 16 - length xs"

lemma wrote_puts: "length xs \<le> 16 \<Longrightarrow> wrote xs (puts xs out16)"
  by (simp add: wrote_def puts_def out16_def unat_sub word_le_nat_alt unsigned_of_nat take_bit_nat_less)

lemma testWriteChar: "wrote (ascii ''H'') (writeChar 72 out16)" "writeChar 72 full16 = full16"
  using wrote_puts [of "ascii ''H''"] by (simp_all add: writeChar_puts ascii_def of_char_def full16_def puts_def)

lemma testWriteStr:
  "wrote (ascii ''Hello'') (writeText (ascii ''Hello'') out16)"
  "writeText [] out16 = out16"
  "writeText (ascii ''Hello'') full16 = full16"
  "wrote (ascii ''Hello world this'') (writeText (ascii ''Hello world this is a very long string'') out16)"
proof -
  show "wrote (ascii ''Hello'') (writeText (ascii ''Hello'') out16)"
    using wrote_puts [of "ascii ''Hello''"] by (simp add: writeText_puts ascii_def)
  show "writeText [] out16 = out16" "writeText (ascii ''Hello'') full16 = full16"
    by (simp_all add: writeText_puts ascii_def full16_def puts_def)
  have "puts (ascii ''Hello world this is a very long string'') out16 = puts (ascii ''Hello world this'') out16"
    by (simp add: puts_def out16_def ascii_def)
  then show "wrote (ascii ''Hello world this'') (writeText (ascii ''Hello world this is a very long string'') out16)"
    using wrote_puts [of "ascii ''Hello world this''"] by (simp add: writeText_puts ascii_def)
qed

lemma testWriteNum:
  "wrote (ascii ''0'') (writeNum 0 0 out16)" "wrote (ascii ''1'') (writeNum 1 0 out16)"
  "wrote (ascii ''12345'') (writeNum 12345 0 out16)" "wrote (ascii ''00345'') (writeNum 345 5 out16)"
  "wrote (ascii ''0345'') (writeNum 345 4 out16)" "wrote (ascii ''345'') (writeNum 345 2 out16)"
  "wrote (ascii ''012'') (writeNumSigned 12 3 out16)" "wrote (ascii ''-012'') (writeNumSigned (- 12) 3 out16)"
  by (simp_all add: wrote_def out16_def writeNum_def writeNumSigned_def divTable_def writeChar_def ascii_def of_char_def
      rdbytes_def upt_rec)

text \<open>A case the tests do not have: without padding a zero inside of the number is left out.\<close>

lemma testWriteNum_1005: "wrote (ascii ''15'') (writeNum 1005 0 out16)"
  by (simp add: wrote_def out16_def writeNum_def divTable_def writeChar_def ascii_def of_char_def rdbytes_def upt_rec)

section \<open>Lines\<close>

text \<open>The result of \<open>doParse\<close> on a text.\<close>

definition parse_text :: "cstr \<Rightarrow> parser \<times> bool" where
  "parse_text xs = doParse (mem_of xs) 0 (of_nat (length xs)) demo_parser"

lemma parse_text_some:
  assumes "parse_line xs = Some m" and "length xs < 65536"
  shows "\<exists>p. parse_text xs = (p, False) \<and> parsed p = m"
  using doParse_parses [of "mem_of xs" 0 "of_nat (length xs)" demo_parser] assms
  by (auto simp: rdbytes_mem_of [OF assms(2)] parse_text_def parse_done_def)

lemma parse_text_none:
  assumes "parse_line xs = None" and "length xs < 65536"
  shows "snd (parse_text xs)"
  using doParse_parses [of "mem_of xs" 0 "of_nat (length xs)" demo_parser] assms
  by (auto simp: rdbytes_mem_of [OF assms(2)] parse_text_def)

text \<open>\<^verbatim>\<open>testParse_normals\<close>\<close>

definition msg_of :: "string \<Rightarrow> string \<Rightarrow> string \<Rightarrow> string list \<Rightarrow> irc_msg" where
  "msg_of t p c ps = \<lparr>m_tags = ascii t, m_prefix = ascii p, m_cmd = ascii c, m_params = map ascii ps\<rparr>"

lemma testParse_normals:
  "list_all (\<lambda>m. \<exists>p. parse_text (irc_line m) = (p, False) \<and> parsed p = m)
     [msg_of '''' '''' ''COMAND'' [''Hello''], msg_of ''TAGS'' '''' ''COMAND'' [''Hello'', ''world!''],
      msg_of '''' ''PREFIX'' ''COMAND'' [''Hello world!''], msg_of ''TAGS'' ''PREFIX'' ''COMAND'' [''Hello'', '' world!'']]"
  (is "list_all ?P ?ms")
proof (rule list.pred_mono_strong)
  show "list_all (\<lambda>m. good_msg m \<and> length (irc_line m) < 65536) ?ms"
    by (simp add: msg_of_def good_msg_def sendable_def irc_line_def part_def param_text_def no_sep_def sep_def colon_def ascii_def of_char_def)
qed (blast intro: parse_text_some parse_irc_line)

text \<open>\<^verbatim>\<open>testParse_noCR\<close>, \<^verbatim>\<open>testParse_leftoverInput\<close>, \<^verbatim>\<open>testParse_tooManyParameters\<close>, \<^verbatim>\<open>testParse_bufferOverflow\<close>\<close>

lemmas parse_line_eval = parse_line_def p_word_if_def p_until_def p_spaces_def p_param_def sep_def ascii_def of_char_def
  numeral_3_eq_3

lemma testParse_errors:
  "snd (parse_text (ascii ''COMMAND '' @ [13]))"
  "snd (parse_text (ascii ''COMMAND '' @ [13, 10] @ ascii ''GARBAGE''))"
  "snd (parse_text (ascii ''COMMAND G A R B A G E H E'' @ [13, 10]))"
  by (rule parse_text_none; simp add: parse_line_eval)+

lemma testParse_CRLF: "\<exists>p. parse_text (ascii ''COMMAND '' @ [13, 10]) = (p, False)"
proof -
  have "parse_line (ascii ''COMMAND '' @ [13, 10]) = Some (msg_of '''' '''' ''COMMAND'' [''''])"
    by (simp add: parse_line_eval msg_of_def)
  then show ?thesis using parse_text_some by (fastforce simp: ascii_def)
qed

lemma testParse_bufferOverflow: "snd (parse_text (64 # replicate 519 65))"
  by (rule parse_text_none) (simp_all add: parse_line_def p_word_if_def p_until_def sep_def)

end
