(* ===== verification/Unicode.thy ===== *)
theory Unicode
  imports Utils
begin

text \<open>
  \<^verbatim>\<open>code/TCPLIB/UNICODE.CPP\<close>: UTF-8 encoding and decoding, and the hash table from code points to
  characters of the display, with its inverse for the upper half of the character set.

  The header \<^verbatim>\<open>unicode.h\<close> is not part of the sources.  What the code uses of it is a parameter,
  \<open>unicode_h\<close>: the length of the table, the character for code points without a glyph and the hash
  function; \<open>unicode_h_ok\<close> says what the code relies on.
\<close>

unbundle bit_operations_syntax

section \<open>UTF-8\<close>

text \<open>
  The encoding: the bytes stored at \<^verbatim>\<open>buffer\<close>, as many as the result says.  \<open>s0\<close> and \<open>s1\<close> are the
  halves of the union.
\<close>

definition encodeUTF8 :: "u32 \<Rightarrow> u8 list" where
  "encodeUTF8 cp =
     (let s0 = (ucast cp :: u16); s1 = (ucast (drop_bit 16 cp) :: u16)
      in if s1 = 0 then
           (if s0 < 0x80 then [ucast s0]
            else if s0 < 0x800 then
              [0xC0 OR ucast (drop_bit 6 (s0 AND 0x7C0)), 0x80 OR ucast (s0 AND 0x3F)]
            else
              [0xE0 OR ucast (drop_bit 12 (s0 AND 0xF000)), 0x80 OR ucast (drop_bit 6 (s0 AND 0x0FC0)),
               0x80 OR ucast (s0 AND 0x3F)])
         else
           [0xF0 OR ucast (drop_bit 2 (s1 AND 0x7C)),
            0x80 OR ucast (push_bit 4 (s1 AND 0x03)) OR ucast (drop_bit 12 (s0 AND 0xF000)),
            0x80 OR ucast (drop_bit 6 (s0 AND 0x0FC0)), 0x80 OR ucast (s0 AND 0x3F)])"

text \<open>The decoding: the code point and the number of bytes taken; \<open>s\<close> is the memory from the pointer on.\<close>

definition join16 :: "u16 \<Rightarrow> u16 \<Rightarrow> u32" where
  "join16 s0 s1 = ucast s0 OR push_bit 16 (ucast s1)"

definition decodeUTF8 :: "mem \<Rightarrow> u32 \<times> nat" where
  "decodeUTF8 s =
     (let c0 = (ucast (s 0) :: u16); b1 = (ucast (s 1) :: u16); b2 = (ucast (s 2) :: u16); b3 = (ucast (s 3) :: u16)
      in if c0 AND 0xE0 = 0xC0 then (join16 ((b1 AND 0x3F) OR push_bit 6 (c0 AND 0x1F)) 0, 2)
         else if c0 AND 0xF0 = 0xE0
         then (join16 ((b2 AND 0x3F) OR push_bit 6 (b1 AND 0x3F) OR push_bit 12 c0) 0, 3)
         else if c0 AND 0xF8 = 0xF0
         then (join16 ((b3 AND 0x3F) OR push_bit 6 (b2 AND 0x3F) OR push_bit 12 b1)
                 (drop_bit 4 (b1 AND 0x3F) OR push_bit 2 (c0 AND 0x07)), 4)
         else (0xFFFFFFFF, 1))"

section \<open>The table\<close>

record unicode_h =
  XlateTableLen :: nat
  Tofu :: u8
  getStartBucket :: "u16 \<Rightarrow> nat"

definition unicode_h_ok :: "unicode_h \<Rightarrow> bool" where
  "unicode_h_ok H \<longleftrightarrow> 0 < XlateTableLen H \<and> XlateTableLen H < 65536 \<and> (\<forall>u. getStartBucket H u < XlateTableLen H)"

record unicode_state =
  xt_codepoint :: "nat \<Rightarrow> u16"
  xt_display :: "nat \<Rightarrow> u8"
  XlateTableItems :: u16
  UpperAsciiCodepoints :: "nat \<Rightarrow> u16"

definition zero_unicode :: unicode_state where
  "zero_unicode = \<lparr>xt_codepoint = (\<lambda>_. 0), xt_display = (\<lambda>_. 0), XlateTableItems = 0, UpperAsciiCodepoints = (\<lambda>_. 0)\<rparr>"

definition next_bucket :: "unicode_h \<Rightarrow> nat \<Rightarrow> nat" where
  "next_bucket H b = (if Suc b = XlateTableLen H then 0 else Suc b)"

text \<open>The search of both operations: the first bucket from \<open>b\<close> on that is empty or holds \<open>u\<close>.\<close>

partial_function (option) find_bucket :: "unicode_h \<Rightarrow> u16 \<Rightarrow> nat \<Rightarrow> unicode_state \<Rightarrow> nat option" where
  [code]: "find_bucket H u b t =
     (if xt_codepoint t b = 0 \<or> xt_codepoint t b = u then Some b else find_bucket H u (next_bucket H b) t)"

definition addToXlateTable :: "unicode_h \<Rightarrow> u16 \<Rightarrow> u8 \<Rightarrow> unicode_state \<Rightarrow> unicode_state option" where
  "addToXlateTable H u c t =
     (if unat (XlateTableItems t) = XlateTableLen H - 1 then Some t
      else (case find_bucket H u (getStartBucket H u) t of
          None \<Rightarrow> None
        | Some b \<Rightarrow>
            if xt_codepoint t b \<noteq> 0 then Some t
            else Some (t\<lparr>xt_codepoint := (xt_codepoint t)(b := u), xt_display := (xt_display t)(b := c),
                         XlateTableItems := XlateTableItems t + 1\<rparr>)))"

definition findDisplayChar :: "unicode_h \<Rightarrow> u16 \<Rightarrow> unicode_state \<Rightarrow> u8 option" where
  "findDisplayChar H u t =
     map_option (\<lambda>b. if xt_codepoint t b \<noteq> 0 then xt_display t b else Tofu H)
       (find_bucket H u (getStartBucket H u) t)"

text \<open>
  The file of mappings.  The variables are 16-bit signed integers; \<open>None\<close> is a character beyond the
  end of \<^verbatim>\<open>UpperAsciiCodepoints\<close>, or a search that does not end.
\<close>

definition load_line :: "unicode_h \<Rightarrow> cstr \<Rightarrow> unicode_state \<Rightarrow> unicode_state option" where
  "load_line H line t =
     (if line ! 0 = 10 \<or> line ! 0 = 35 then Some t
      else (case scan_hex line of
          None \<Rightarrow> Some t
        | Some (u, r) \<Rightarrow>
            (case scan_hex r of
               None \<Rightarrow> Some t
             | Some (c, _) \<Rightarrow>
                 (let u = (of_int u :: u16); c = (of_int c :: u16)
                  in case addToXlateTable H u (ucast c) t of
                       None \<Rightarrow> None
                     | Some t \<Rightarrow>
                         if sint c \<le> 127 then Some t
                         else if 255 < sint c then None
                         else if UpperAsciiCodepoints t (unat c - 128) \<noteq> 0 then Some t
                         else Some (t\<lparr>UpperAsciiCodepoints := (UpperAsciiCodepoints t)(unat c - 128 := u)\<rparr>)))))"

function load_loop :: "unicode_h \<Rightarrow> cfile \<Rightarrow> unicode_state \<Rightarrow> unicode_state option" where
  "load_loop H f t =
     (if f_eof f then Some t
      else (case fgets 100 f of
          (f', None) \<Rightarrow> Some t
        | (f', Some line) \<Rightarrow> (case load_line H line t of None \<Rightarrow> None | Some t \<Rightarrow> load_loop H f' t)))"
  by pat_completeness auto

termination load_loop
proof (relation "measure (\<lambda>(H, f, t). length (f_rest f))", goal_cases)
  case (2 H f t f' y line t')
  then have "fgets 100 f = (f', Some line)" by simp
  then show ?case by (auto simp: fgets_def Let_def split: if_splits)
qed simp

definition loadXlateTable :: "unicode_h \<Rightarrow> cstr option \<Rightarrow> bool \<Rightarrow> unicode_state option" where
  "loadXlateTable H file err =
     (case file of None \<Rightarrow> Some zero_unicode | Some content \<Rightarrow> load_loop H (fopen_file content err) zero_unicode)"

section \<open>Round trip of the encoding\<close>

lemma word16_eq:
  assumes "list_all (\<lambda>n. bit a n = bit b n) [0, 1, 2, 3, 4, 5, 6, 7, 8, 9, 10, 11, 12, 13, 14, 15]"
  shows "a = (b :: u16)"
proof -
  have "[0, 1, 2, 3, 4, 5, 6, 7, 8, 9, 10, 11, 12, 13, 14, 15] = [0..<16]" by code_simp
  then have "list_all (\<lambda>n. bit a n = bit b n) [0..<16]" using assms by (simp only:)
  then show ?thesis by (intro bit_word_eqI) (simp add: list_all_iff)
qed

lemma utf8_cont: "(ucast (0x80 OR ucast (s AND 0x3F) :: u8) :: u16) AND 0x3F = s AND 0x3F"
  by (rule word16_eq) (simp add: bit_simps)

lemma utf8_mid: "push_bit 6 ((ucast (0x80 OR ucast (drop_bit 6 (s AND 0x0FC0)) :: u8) :: u16) AND 0x3F) = s AND 0x0FC0"
  by (rule word16_eq) (simp add: bit_simps)

lemma utf8_lead2:
  "(ucast (0xC0 OR ucast (drop_bit 6 (s AND 0x7C0)) :: u8) :: u16) AND 0xE0 = 0xC0"
  "push_bit 6 ((ucast (0xC0 OR ucast (drop_bit 6 (s AND 0x7C0)) :: u8) :: u16) AND 0x1F) = s AND 0x7C0"
  by (rule word16_eq, simp add: bit_simps)+

lemma utf8_lead3:
  "(ucast (0xE0 OR ucast (drop_bit 12 (s AND 0xF000)) :: u8) :: u16) AND 0xE0 = 0xE0"
  "(ucast (0xE0 OR ucast (drop_bit 12 (s AND 0xF000)) :: u8) :: u16) AND 0xF0 = 0xE0"
  "push_bit 12 (ucast (0xE0 OR ucast (drop_bit 12 (s AND 0xF000)) :: u8) :: u16) = s AND 0xF000"
  by (rule word16_eq, simp add: bit_simps)+

lemma utf8_lead4:
  "(ucast (0xF0 OR ucast (drop_bit 2 (s AND 0x7C)) :: u8) :: u16) AND 0xE0 = 0xE0"
  "(ucast (0xF0 OR ucast (drop_bit 2 (s AND 0x7C)) :: u8) :: u16) AND 0xF0 = 0xF0"
  "push_bit 2 ((ucast (0xF0 OR ucast (drop_bit 2 (s AND 0x7C)) :: u8) :: u16) AND 7) = s AND 0x1C"
  by (rule word16_eq, simp add: bit_simps numeral_2_eq_2 [symmetric] numeral_3_eq_3 [symmetric])+

lemma utf8_lead4_high:
  "s AND 0x60 = (0 :: u16) \<Longrightarrow> (ucast (0xF0 OR ucast (drop_bit 2 (s AND 0x7C)) :: u8) :: u16) AND 0xF8 = 0xF0"
proof -
  assume "s AND 0x60 = (0 :: u16)"
  then have "\<not> bit (s AND 0x60) 5" "\<not> bit (s AND 0x60) 6" by simp_all
  then have "\<not> bit s 5" "\<not> bit s 6" by (simp_all add: bit_simps)
  then show ?thesis by - (rule word16_eq, simp add: bit_simps)
qed

lemma utf8_second4:
  "push_bit 12 (ucast (0x80 OR ucast (push_bit 4 (t AND 3)) OR ucast (drop_bit 12 (s AND 0xF000)) :: u8) :: u16) =
    s AND 0xF000"
  "drop_bit 4 ((ucast (0x80 OR ucast (push_bit 4 (t AND 3)) OR ucast (drop_bit 12 (s AND 0xF000)) :: u8) :: u16) AND 0x3F) =
    t AND (3 :: u16)"
  by (rule word16_eq, simp add: bit_simps)+

lemma utf8_halves:
  "(s AND 0x3F) OR (s AND 0x0FC0) OR (s AND 0xF000) = (s :: u16)"
  by (rule word16_eq, simp add: bit_simps)

lemma high_bits_clear:
  assumes "unat (s :: u16) < 2 ^ k" and "k \<le> n"
  shows "\<not> bit s n"
proof -
  have "unat s < 2 ^ n" using assms less_le_trans [OF assms(1), of "2 ^ n"] by simp
  then have "unat (drop_bit n s) = 0" by (simp only: unat_drop_bit_eq) (simp add: drop_bit_eq_div)
  then have "drop_bit n s = 0" by (simp only: unat_eq_zero)
  then show ?thesis by (simp add: bit_iff_odd_drop_bit)
qed

lemma utf8_halves2: "s < 0x800 \<Longrightarrow> (s AND 0x3F) OR (s AND 0x7C0) = (s :: u16)"
  using high_bits_clear [of s 11] by - (simp add: word_less_nat_alt, rule word16_eq, simp add: bit_simps)

lemma utf8_halves4: "s < 0x20 \<Longrightarrow> (s AND 3) OR (s AND 0x1C) = (s :: u16)" "s < 0x20 \<Longrightarrow> s AND 0x60 = (0 :: u16)"
  using high_bits_clear [of s 5] by - (simp add: word_less_nat_alt, rule word16_eq, simp add: bit_simps)+

lemma join16_split: "join16 (ucast cp) (ucast (drop_bit 16 cp)) = cp"
  by (rule bit_word_eqI) (auto simp: join16_def bit_simps)

text \<open>
  C34. Every code point from 0x80 to 0x1FFFFF is encoded so that decoding the bytes, whatever
  follows them, returns it and their number.
\<close>

theorem utf8_roundtrip:
  assumes "0x80 \<le> cp" and "cp < 0x200000"
  shows "decodeUTF8 (mem_of (encodeUTF8 cp @ rest)) = (cp, length (encodeUTF8 cp))"
proof -
  define s0 where "s0 = (ucast cp :: u16)"
  define s1 where "s1 = (ucast (drop_bit 16 cp) :: u16)"
  have cp: "join16 s0 s1 = cp" by (simp add: s0_def s1_def join16_split)
  have u1: "unat s1 = unat cp div 65536"
  proof -
    have "unat (drop_bit 16 cp) = unat cp div 65536" by (simp only: unat_drop_bit_eq) (simp add: drop_bit_eq_div)
    moreover have "unat cp < 2097152" using assms(2) by (simp add: word_less_nat_alt)
    ultimately show ?thesis by (simp only: s1_def unsigned_ucast_eq) (simp add: take_bit_eq_mod)
  qed
  have s1: "s1 < 0x20"
    using u1 assms(2) by (simp add: word_less_nat_alt)
  have low: "\<not> s0 < 0x80" if "s1 = 0"
  proof -
    have "unat cp < 65536" using u1 that by simp
    then have "unat s0 = unat cp" by (simp add: s0_def unsigned_ucast_eq take_bit_eq_mod)
    then show ?thesis using assms(1) by (simp add: word_less_nat_alt word_le_nat_alt)
  qed
  show ?thesis
  proof (cases "s1 = 0")
    case True
    show ?thesis
    proof (cases "s0 < 0x800")
      case lt: True
      define b0 :: u8 where "b0 = 0xC0 OR ucast (drop_bit 6 (s0 AND 0x7C0))"
      define b1 :: u8 where "b1 = 0x80 OR ucast (s0 AND 0x3F)"
      have e: "encodeUTF8 cp = [b0, b1]"
        using True lt low by (simp add: encodeUTF8_def Let_def s0_def s1_def b0_def b1_def)
      note f = utf8_lead2 [of s0, folded b0_def] utf8_cont [of s0, folded b1_def]
      show ?thesis using cp True utf8_halves2 [OF lt] f
        by (simp add: e decodeUTF8_def mem_of_def Let_def)
    next
      case False
      define b0 :: u8 where "b0 = 0xE0 OR ucast (drop_bit 12 (s0 AND 0xF000))"
      define b1 :: u8 where "b1 = 0x80 OR ucast (drop_bit 6 (s0 AND 0x0FC0))"
      define b2 :: u8 where "b2 = 0x80 OR ucast (s0 AND 0x3F)"
      have e: "encodeUTF8 cp = [b0, b1, b2]"
        using True False low by (simp add: encodeUTF8_def Let_def s0_def s1_def b0_def b1_def b2_def)
      note f = utf8_lead3 [of s0, folded b0_def] utf8_mid [of s0, folded b1_def] utf8_cont [of s0, folded b2_def]
      show ?thesis using cp True utf8_halves [of s0] f
        by (simp add: e decodeUTF8_def mem_of_def Let_def nth_append)
    qed
  next
    case False
    define b0 :: u8 where "b0 = 0xF0 OR ucast (drop_bit 2 (s1 AND 0x7C))"
    define b1 :: u8 where "b1 = 0x80 OR ucast (push_bit 4 (s1 AND 0x03)) OR ucast (drop_bit 12 (s0 AND 0xF000))"
    define b2 :: u8 where "b2 = 0x80 OR ucast (drop_bit 6 (s0 AND 0x0FC0))"
    define b3 :: u8 where "b3 = 0x80 OR ucast (s0 AND 0x3F)"
    have e: "encodeUTF8 cp = [b0, b1, b2, b3]"
      using False by (simp add: encodeUTF8_def Let_def s0_def s1_def b0_def b1_def b2_def b3_def)
    note f = utf8_lead4 [of s1, folded b0_def] utf8_lead4_high [OF utf8_halves4(2) [OF s1], folded b0_def]
      utf8_second4 [of s1 s0, folded b1_def] utf8_mid [of s0, folded b2_def] utf8_cont [of s0, folded b3_def]
    show ?thesis using cp utf8_halves [of s0] utf8_halves4 [OF s1] f
      by (simp add: e decodeUTF8_def mem_of_def Let_def nth_append)
  qed
qed

theorem utf8_roundtrip_witness:
  "decodeUTF8 (mem_of (encodeUTF8 0x1F600 @ [65])) = (0x1F600, length (encodeUTF8 0x1F600))"
  by (rule utf8_roundtrip) simp_all

section \<open>The hash table is a map\<close>

text \<open>
  \<open>bkt H u k\<close> is the bucket \<open>k\<close> steps after the start bucket of \<open>u\<close>; a search for \<open>u\<close> stops at a
  bucket that is empty or holds \<open>u\<close>.
\<close>

definition bkt :: "unicode_h \<Rightarrow> u16 \<Rightarrow> nat \<Rightarrow> nat" where
  "bkt H u k = (getStartBucket H u + k) mod XlateTableLen H"

definition stops :: "unicode_state \<Rightarrow> u16 \<Rightarrow> nat \<Rightarrow> bool" where
  "stops t u b \<longleftrightarrow> xt_codepoint t b = 0 \<or> xt_codepoint t b = u"

definition used_buckets :: "unicode_h \<Rightarrow> unicode_state \<Rightarrow> nat set" where
  "used_buckets H t = {b. b < XlateTableLen H \<and> xt_codepoint t b \<noteq> 0}"

definition table_wf :: "unicode_h \<Rightarrow> unicode_state \<Rightarrow> bool" where
  "table_wf H t \<longleftrightarrow>
     (\<forall>b \<in> used_buckets H t. \<exists>k. b = bkt H (xt_codepoint t b) k \<and>
        (\<forall>j<k. \<not> stops t (xt_codepoint t b) (bkt H (xt_codepoint t b) j))) \<and>
     unat (XlateTableItems t) = card (used_buckets H t) \<and> card (used_buckets H t) < XlateTableLen H"

lemma find_bucket_at:
  assumes "unicode_h_ok H" and "stops t u (bkt H u k)" and "\<forall>j<k. \<not> stops t u (bkt H u j)"
  shows "find_bucket H u (getStartBucket H u) t = Some (bkt H u k)"
proof -
  have pos: "0 < XlateTableLen H" and st: "getStartBucket H u < XlateTableLen H"
    using assms(1) by (auto simp: unicode_h_ok_def)
  have step: "next_bucket H (bkt H u j) = bkt H u (Suc j)" for j
    using pos by (auto simp: next_bucket_def bkt_def mod_Suc)
  have "find_bucket H u (bkt H u (k - n)) t = Some (bkt H u k)" if "n \<le> k" for n
    using that
  proof (induction n)
    case 0
    then show ?case using assms(2) by (simp add: find_bucket.simps stops_def)
  next
    case (Suc n)
    then have "\<not> stops t u (bkt H u (k - Suc n))" using assms(3) by simp
    moreover have "Suc (k - Suc n) = k - n" using Suc.prems by simp
    ultimately show ?case using Suc step [of "k - Suc n"]
      by (subst find_bucket.simps) (simp add: stops_def)
  qed
  from this [of k] st show ?thesis by (simp add: bkt_def)
qed

lemma bkt_onto:
  assumes "unicode_h_ok H" and "b < XlateTableLen H"
  shows "\<exists>k. b = bkt H u k"
proof -
  have "getStartBucket H u < XlateTableLen H" using assms(1) by (simp add: unicode_h_ok_def)
  then have "b = bkt H u (b + XlateTableLen H - getStartBucket H u)"
    using assms(2) by (simp add: bkt_def)
  then show ?thesis ..
qed

lemma free_bucket:
  assumes "unicode_h_ok H" and "table_wf H t"
  obtains b where "b < XlateTableLen H" and "xt_codepoint t b = 0"
proof -
  have "used_buckets H t \<noteq> {..<XlateTableLen H}" using assms(2) by (auto simp: table_wf_def)
  then show ?thesis using that by (auto simp: used_buckets_def)
qed

text \<open>A search ends: at the bucket of the key, or at an empty one when the key is not stored.\<close>

lemma search_ends:
  assumes "unicode_h_ok H" and "table_wf H t"
  obtains k where "stops t u (bkt H u k)" and "\<forall>j<k. \<not> stops t u (bkt H u j)"
    and "find_bucket H u (getStartBucket H u) t = Some (bkt H u k)"
proof -
  obtain b where "b < XlateTableLen H" "xt_codepoint t b = 0" using free_bucket [OF assms] .
  then obtain k' where "stops t u (bkt H u k')" using bkt_onto [OF assms(1)] by (metis stops_def)
  then have "stops t u (bkt H u (LEAST k. stops t u (bkt H u k)))" by (rule LeastI)
  moreover have "\<forall>j<(LEAST k. stops t u (bkt H u k)). \<not> stops t u (bkt H u j)"
    using not_less_Least by blast
  ultimately show ?thesis using that find_bucket_at [OF assms(1)] by blast
qed

lemma search_finds:
  assumes "unicode_h_ok H" and "table_wf H t" and "b \<in> used_buckets H t"
  shows "find_bucket H (xt_codepoint t b) (getStartBucket H (xt_codepoint t b)) t = Some b"
proof -
  obtain k where "b = bkt H (xt_codepoint t b) k"
    "\<forall>j<k. \<not> stops t (xt_codepoint t b) (bkt H (xt_codepoint t b) j)"
    using assms(2,3) by (auto simp: table_wf_def)
  then show ?thesis using find_bucket_at [OF assms(1), of t "xt_codepoint t b" k] by (simp add: stops_def)
qed

lemma used_inj:
  assumes "unicode_h_ok H" and "table_wf H t"
  shows "inj_on (xt_codepoint t) (used_buckets H t)"
  by (rule inj_onI) (metis search_finds [OF assms] option.inject)

definition table_map :: "unicode_h \<Rightarrow> unicode_state \<Rightarrow> u16 \<rightharpoonup> u8" where
  "table_map H t u = (case find_bucket H u (getStartBucket H u) t of
     None \<Rightarrow> None | Some b \<Rightarrow> if xt_codepoint t b = 0 then None else Some (xt_display t b))"

lemma bkt_less: "unicode_h_ok H \<Longrightarrow> bkt H u k < XlateTableLen H"
  by (simp add: bkt_def unicode_h_ok_def)

lemma table_map_stored:
  assumes "unicode_h_ok H" and "table_wf H t"
  shows "table_map H t u = Some c \<longleftrightarrow>
    (\<exists>b \<in> used_buckets H t. xt_codepoint t b = u \<and> xt_display t b = c)"
proof
  assume a: "table_map H t u = Some c"
  obtain k where k: "stops t u (bkt H u k)" "find_bucket H u (getStartBucket H u) t = Some (bkt H u k)"
    using search_ends [OF assms] .
  then show "\<exists>b \<in> used_buckets H t. xt_codepoint t b = u \<and> xt_display t b = c"
    using a bkt_less [OF assms(1)]
    by (intro bexI [of _ "bkt H u k"]) (auto simp: table_map_def stops_def used_buckets_def split: if_splits)
next
  assume "\<exists>b \<in> used_buckets H t. xt_codepoint t b = u \<and> xt_display t b = c"
  then obtain b where b: "b \<in> used_buckets H t" "xt_codepoint t b = u" "xt_display t b = c" by blast
  then show "table_map H t u = Some c"
    using search_finds [OF assms b(1)] by (simp add: table_map_def used_buckets_def)
qed

lemma dom_table_map:
  assumes "unicode_h_ok H" and "table_wf H t"
  shows "dom (table_map H t) = xt_codepoint t ` used_buckets H t"
  using table_map_stored [OF assms] by (auto simp: dom_def)

lemma table_items:
  assumes "unicode_h_ok H" and "table_wf H t"
  shows "unat (XlateTableItems t) = card (dom (table_map H t))"
  using assms(2) by (simp add: dom_table_map [OF assms] card_image [OF used_inj [OF assms]] table_wf_def)

lemma findDisplayChar_map:
  assumes "unicode_h_ok H" and "table_wf H t"
  shows "findDisplayChar H u t = Some (case table_map H t u of None \<Rightarrow> Tofu H | Some c \<Rightarrow> c)"
proof -
  obtain b where "find_bucket H u (getStartBucket H u) t = Some b" using search_ends [OF assms] .
  then show ?thesis by (simp add: findDisplayChar_def table_map_def)
qed

text \<open>Storing in the empty bucket where the search for \<open>u\<close> ended.\<close>

definition put_bucket :: "nat \<Rightarrow> u16 \<Rightarrow> u8 \<Rightarrow> unicode_state \<Rightarrow> unicode_state" where
  "put_bucket b u c t = t\<lparr>xt_codepoint := (xt_codepoint t)(b := u), xt_display := (xt_display t)(b := c),
     XlateTableItems := XlateTableItems t + 1\<rparr>"

lemma put_bucket_wf:
  assumes ok: "unicode_h_ok H" and wf: "table_wf H t" and u: "u \<noteq> 0"
    and k: "xt_codepoint t (bkt H u k) = 0" "\<forall>j<k. \<not> stops t u (bkt H u j)"
    and room: "card (used_buckets H t) \<noteq> XlateTableLen H - 1"
  shows "table_wf H (put_bucket (bkt H u k) u c t)"
proof -
  let ?b = "bkt H u k" and ?t = "put_bucket (bkt H u k) u c t"
  have cp: "xt_codepoint ?t = (xt_codepoint t)(?b := u)" by (simp add: put_bucket_def)
  have used: "used_buckets H ?t = insert ?b (used_buckets H t)" "?b \<notin> used_buckets H t"
    using bkt_less [OF ok] u k(1) by (auto simp: used_buckets_def cp)
  have fin: "finite (used_buckets H t)" by (simp add: used_buckets_def)
  have items: "unat (XlateTableItems t) = card (used_buckets H t)"
    and less: "card (used_buckets H t) < XlateTableLen H - 1"
    using wf room by (auto simp: table_wf_def)
  have len: "XlateTableLen H < 65536" using ok by (simp add: unicode_h_ok_def)
  have "\<exists>k'. b = bkt H (xt_codepoint ?t b) k' \<and>
      (\<forall>j<k'. \<not> stops ?t (xt_codepoint ?t b) (bkt H (xt_codepoint ?t b) j))" if "b \<in> used_buckets H ?t" for b
  proof (cases "b = ?b")
    case True
    then show ?thesis using k by (intro exI [of _ k]) (auto simp: cp stops_def)
  next
    case False
    then have b: "b \<in> used_buckets H t" and w: "xt_codepoint ?t b = xt_codepoint t b" using that used by (auto simp: cp)
    obtain k' where k': "b = bkt H (xt_codepoint t b) k'"
      "\<forall>j<k'. \<not> stops t (xt_codepoint t b) (bkt H (xt_codepoint t b) j)"
      using wf b by (auto simp: table_wf_def)
    have "bkt H (xt_codepoint t b) j \<noteq> ?b" if "j < k'" for j
      using k' that k(1) by (metis stops_def)
    then show ?thesis using k' by (intro exI [of _ k']) (auto simp: w, auto simp: stops_def cp)
  qed
  moreover have "unat (XlateTableItems ?t) = Suc (card (used_buckets H t))"
    using items less len by (simp add: put_bucket_def unat_word_ariths)
  ultimately show ?thesis using used fin less by (simp add: table_wf_def)
qed

lemma put_bucket_map:
  assumes ok: "unicode_h_ok H" and wf: "table_wf H t" and wf': "table_wf H (put_bucket b u c t)"
    and b: "xt_codepoint t b = 0" "b < XlateTableLen H" and u: "u \<noteq> 0" "table_map H t u = None"
  shows "table_map H (put_bucket b u c t) = (table_map H t)(u \<mapsto> c)"
proof (rule ext)
  fix v
  have cp: "xt_codepoint (put_bucket b u c t) = (xt_codepoint t)(b := u)"
    "xt_display (put_bucket b u c t) = (xt_display t)(b := c)" by (simp_all add: put_bucket_def)
  have used: "used_buckets H (put_bucket b u c t) = insert b (used_buckets H t)"
    using b u by (auto simp: used_buckets_def cp)
  have no: "xt_codepoint t b' \<noteq> u" if "b' \<in> used_buckets H t" for b'
    using u(2) table_map_stored [OF ok wf, of u] that by auto
  have nb: "b \<notin> used_buckets H t" using b by (simp add: used_buckets_def)
  have "(\<exists>x \<in> used_buckets H t. ((xt_codepoint t)(b := u)) x = v \<and> ((xt_display t)(b := c)) x = d) \<longleftrightarrow>
      (\<exists>x \<in> used_buckets H t. xt_codepoint t x = v \<and> xt_display t x = d)" for d
    using nb by (intro bex_cong) auto
  then have "table_map H (put_bucket b u c t) v = Some d \<longleftrightarrow> ((table_map H t)(u \<mapsto> c)) v = Some d" for d
    using no table_map_stored [OF ok wf, of v d] by (auto simp: table_map_stored [OF ok wf'] used cp)
  then show "table_map H (put_bucket b u c t) v = ((table_map H t)(u \<mapsto> c)) v"
    by (metis not_None_eq)
qed

text \<open>What adding a mapping promises: the first mapping of a code point stays, and a full table stays.\<close>

definition add_mapping :: "nat \<Rightarrow> u16 \<times> u8 \<Rightarrow> (u16 \<rightharpoonup> u8) \<Rightarrow> (u16 \<rightharpoonup> u8)" where
  "add_mapping n p m =
     (if fst p \<in> dom m \<or> card (dom m) = n - 1 then m else m(fst p \<mapsto> snd p))"

lemma add_refines:
  assumes ok: "unicode_h_ok H" and wf: "table_wf H t" and u: "u \<noteq> 0"
  shows "\<exists>t'. addToXlateTable H u c t = Some t' \<and> table_wf H t' \<and>
    table_map H t' = add_mapping (XlateTableLen H) (u, c) (table_map H t)"
proof (cases "card (dom (table_map H t)) = XlateTableLen H - 1")
  case True
  then show ?thesis using wf table_items [OF ok wf] by (simp add: addToXlateTable_def add_mapping_def)
next
  case False
  obtain k where k: "stops t u (bkt H u k)" "\<forall>j<k. \<not> stops t u (bkt H u j)"
    "find_bucket H u (getStartBucket H u) t = Some (bkt H u k)" using search_ends [OF ok wf] .
  show ?thesis
  proof (cases "xt_codepoint t (bkt H u k) = 0")
    case True
    have none: "table_map H t u = None" using k True by (simp add: table_map_def)
    have room: "card (used_buckets H t) \<noteq> XlateTableLen H - 1"
      using False table_items [OF ok wf] wf by (simp add: table_wf_def)
    have wf': "table_wf H (put_bucket (bkt H u k) u c t)"
      by (rule put_bucket_wf [OF ok wf u True k(2) room])
    have "addToXlateTable H u c t = Some (put_bucket (bkt H u k) u c t)"
      using False k True table_items [OF ok wf] by (simp add: addToXlateTable_def put_bucket_def)
    moreover have "table_map H (put_bucket (bkt H u k) u c t) = add_mapping (XlateTableLen H) (u, c) (table_map H t)"
      using put_bucket_map [OF ok wf wf' True bkt_less [OF ok] u none] none False
      by (simp add: add_mapping_def domIff)
    ultimately show ?thesis using wf' by blast
  next
    case nz: False
    have "u \<in> dom (table_map H t)" using k nz by (simp add: table_map_def domIff)
    then show ?thesis using False k nz wf table_items [OF ok wf]
      by (simp add: addToXlateTable_def add_mapping_def)
  qed
qed

lemma zero_unicode_wf: "unicode_h_ok H \<Longrightarrow> table_wf H zero_unicode"
  by (simp add: table_wf_def used_buckets_def zero_unicode_def unicode_h_ok_def)

lemma zero_unicode_map: "unicode_h_ok H \<Longrightarrow> table_map H zero_unicode = Map.empty"
proof
  fix u assume "unicode_h_ok H"
  then show "table_map H zero_unicode u = None"
    by (simp add: table_map_def zero_unicode_def find_bucket.simps)
qed

fun add_mappings :: "unicode_h \<Rightarrow> (u16 \<times> u8) list \<Rightarrow> unicode_state \<Rightarrow> unicode_state option" where
  "add_mappings H [] t = Some t"
| "add_mappings H (p # ps) t =
     (case addToXlateTable H (fst p) (snd p) t of None \<Rightarrow> None | Some t \<Rightarrow> add_mappings H ps t)"

lemma add_mappings_refines:
  assumes "unicode_h_ok H" and "table_wf H t" and "\<forall>p \<in> set ps. fst p \<noteq> 0"
  shows "\<exists>t'. add_mappings H ps t = Some t' \<and> table_wf H t' \<and>
    table_map H t' = fold (add_mapping (XlateTableLen H)) ps (table_map H t)"
  using assms(2,3)
proof (induction ps arbitrary: t)
  case (Cons p ps)
  then have p: "fst p \<noteq> 0" by simp
  obtain t' where t': "addToXlateTable H (fst p) (snd p) t = Some t'" "table_wf H t'"
    "table_map H t' = add_mapping (XlateTableLen H) (fst p, snd p) (table_map H t)"
    using add_refines [OF assms(1) Cons.prems(1) p] by blast
  show ?case using Cons.IH [OF t'(2)] Cons.prems(2) t' by simp
qed simp

text \<open>
  The hash table is a map: after any mappings of code points other than 0 have been added, in
  any order and with any hash function, the search for every code point ends and returns the first
  character added for it, as long as the table had room, else the tofu character.
\<close>

lemma display_table_is_a_map:
  assumes "unicode_h_ok H" and "\<forall>p \<in> set ps. fst p \<noteq> 0"
  shows "\<exists>t. add_mappings H ps zero_unicode = Some t \<and>
    (\<forall>u. findDisplayChar H u t =
       Some (case fold (add_mapping (XlateTableLen H)) ps Map.empty u of None \<Rightarrow> Tofu H | Some c \<Rightarrow> c))"
  using add_mappings_refines [OF assms(1) zero_unicode_wf [OF assms(1)] assms(2)]
    findDisplayChar_map [OF assms(1)] zero_unicode_map [OF assms(1)] by auto

definition demo_unicode_h :: unicode_h where
  "demo_unicode_h = \<lparr>XlateTableLen = 4, Tofu = 254, getStartBucket = (\<lambda>u. unat (u AND 3))\<rparr>"

end
