(* ===== verification/Descriptions.thy ===== *)
theory Descriptions
  imports Prelude
begin

text \<open>
  The descriptions of EtherTypes and IP protocols, \<^verbatim>\<open>code/TCPLIB/ETHTYPE.CPP\<close> and
  \<^verbatim>\<open>code/TCPLIB/IPTYPE.CPP\<close>: the two tables, and the binary search in the first on 16-bit indices.  Reading past
  the end of a table and a search that does not end are the result \<open>None\<close>.
\<close>

section \<open>IP protocols\<close>

definition IP_Protocol_Strings :: "string list" where
  "IP_Protocol_Strings = [
     ''HOPOPT'', ''ICMP'', ''IGMP'', ''GGP'', ''IPv4 enc'', ''ST'',
     ''TCP'', ''CBT'', ''EGP'', ''IGP'', ''BBN-RCC-MON'', ''NVP-II'',
     ''PUP'', ''ARGUS'', ''EMCON'', ''XNET'', ''CHAOS'', ''UDP'',
     ''MUX'', ''DCN-MEAS'', ''HMP'', ''PRM'', ''XNS-IDP'', ''TRUNK-1'',
     ''TRUNK-2'', ''LEAF-1'', ''LEAF-2'', ''RDP'', ''IRTP'', ''ISO-TP4'',
     ''NETBLT'', ''MSE-NSP'', ''MERIT-INP'', ''DCCP'', ''3PC'', ''IDPR'',
     ''XTP'', ''DDP'', ''IDPR-CMTP'', ''TP++'', ''IL'', ''IPv6 enc'',
     ''SDRP'', ''IPv6-Route'', ''IPv6-Frag'', ''IDRP'', ''RSVP'', ''GRE'',
     ''DSR'', ''BNA'', ''ESP'', ''AH'', ''I-NLSP'', ''SWIPE'',
     ''NARP'', ''MOBILE'', ''TLSP'', ''SKIP'', ''IPv6 ICMP'', ''IPv6-NoNxt'',
     ''IPv6-Opts'', ''(host internal)'', ''CFTP'', ''(local network)'']"

definition UnknownIpType :: string where "UnknownIpType = ''(no description)''"

definition IpType_findDescription :: "u8 \<Rightarrow> string option" where
  "IpType_findDescription target =
     (if target < 64
      then (if unat target < length IP_Protocol_Strings then Some (IP_Protocol_Strings ! unat target) else None)
      else Some UnknownIpType)"

section \<open>EtherTypes\<close>

definition Str_3Com :: string where "Str_3Com = ''3Com Corporation''"
definition Str_Wellfleet :: string where "Str_Wellfleet = ''Wellfleet Communications''"
definition Str_Xyplex :: string where "Str_Xyplex = ''Xyplex''"
definition Str_Symbolics :: string where "Str_Symbolics = ''Symbolics private''"

type_synonym ether_table = "(u16 \<times> string option) list"

definition EtherTypeTable :: ether_table where
  "EtherTypeTable = [
     (0x0000, Some ''(IEEE 802.3 packet)''), (0x0600, Some ''XEROX NS IDP''), (0x0660, Some ''DLOG''),
     (0x0661, Some ''DLOG''), (0x0800, Some ''IPv4''), (0x0801, Some ''X.75 Internet''),
     (0x0802, Some ''NBS Internet''), (0x0803, Some ''ECMA Internet''), (0x0804, Some ''Chaosnet''),
     (0x0805, Some ''X.25 Level 3''), (0x0806, Some ''ARP''), (0x0807, Some ''XNS compatibility''),
     (0x0808, Some ''Frame Relay ARP''), (0x081C, Some Str_Symbolics), (0x0842, Some ''Wake-on-LAN''),
     (0x0888, Some Str_Xyplex), (0x0889, Some Str_Xyplex), (0x088A, Some Str_Xyplex),
     (0x0900, Some ''Ungermann-Bass debugger''), (0x0A00, Some ''Xerox IEEE802.3 PUP''), (0x0A01, Some ''PUP address trans''),
     (0x0BAD, Some ''Banyan VINES''), (0x0BAE, Some ''VINES loopback''), (0x0BAF, Some ''VINES echo''),
     (0x22F0, Some ''IEEE 1722-2011''), (0x6000, Some ''DEC (unassigned)''), (0x6001, Some ''DEC MOP Dump/Load''),
     (0x6002, Some ''DEC MOP Remote Console''), (0x6003, Some ''DECnet Phase IV''), (0x6004, Some ''DEC LAT''),
     (0x6005, Some ''DEC Diag Protocol''), (0x6006, Some ''DEC Customer Protocol''), (0x6007, Some ''DEC LAVC, SCA''),
     (0x6008, Some ''DEC (unassigned)''), (0x6009, Some ''DEC (unassigned)''), (0x6010, Some Str_3Com),
     (0x6011, Some Str_3Com), (0x6012, Some Str_3Com), (0x6013, Some Str_3Com),
     (0x6014, Some Str_3Com), (0x8035, Some ''RARP''), (0x809B, Some ''AppleTalk/EtherTalk''),
     (0x80C4, Some ''Banyan Systems''), (0x80C5, Some ''Banyan Systems''), (0x80D5, Some ''IBM SNA''),
     (0x80F3, Some ''AppleTalk AARP''), (0x80F7, Some ''Apollo Computer''), (0x80FF, Some Str_Wellfleet),
     (0x8100, Some ''VLAN tagged''), (0x8101, Some Str_Wellfleet), (0x8102, Some Str_Wellfleet),
     (0x8103, Some Str_Wellfleet), (0x8107, Some Str_Symbolics), (0x8108, Some Str_Symbolics),
     (0x8109, Some Str_Symbolics), (0x8130, Some ''Hayes Microcomputers''), (0x8137, Some ''Novell IPX''),
     (0x8138, Some ''Novell IPX''), (0x814C, Some ''SNMP over Ethernet''), (0x8191, Some ''PowerLAN''),
     (0x81B7, Some Str_Xyplex), (0x81B8, Some Str_Xyplex), (0x81B9, Some Str_Xyplex),
     (0x81D6, Some ''Artisoft Lantastic''), (0x81D7, Some ''Artisoft Lantastic''), (0x8204, Some ''QNX Qnet''),
     (0x86DD, Some ''IPv6''), (0x880B, Some ''Point-To-Point protocol''), (0x880C, Some ''GSMP''),
     (0x8847, Some ''MPLS''), (0x8848, Some ''MPLS with upstream label''), (0x8861, Some ''MCAP''),
     (0x8863, Some ''PPPoE Discovery Stage''), (0x8864, Some ''PPPoE Session Stage''), (0x8870, Some ''Jumbo Frames''),
     (0x888E, Some ''EAP over LAN''), (0x889A, Some ''HyperSCSI''), (0x88A2, Some ''ATA over Ethernet''),
     (0x88CC, Some ''Link Layer Discover Protocol''), (0x88E3, Some ''Media Redundancy Protocol''), (0x88E5, Some ''MAC security (802.1AE)''),
     (0x88F7, Some ''Precision Time Protocol''), (0x0000, None)]"

definition UnknownEtherType :: string where "UnknownEtherType = ''(no description)''"

text \<open>The index of the entry whose description is the null pointer, found on the first call.\<close>

partial_function (option) last_index :: "ether_table \<Rightarrow> u16 \<Rightarrow> u16 option" where
  [code]: "last_index tab i =
     (if length tab \<le> unat i then None
      else if snd (tab ! unat i) \<noteq> None then last_index tab (i + 1) else Some i)"

text \<open>The pointer that is returned may be null.\<close>

partial_function (option) ether_search :: "ether_table \<Rightarrow> u16 \<Rightarrow> u16 \<Rightarrow> u16 \<Rightarrow> string option option" where
  [code]: "ether_search tab target a b =
     (if a \<le> b
      then (let mid = (b - a) div 2 + a
            in if length tab \<le> unat mid then None
               else if fst (tab ! unat mid) = target then Some (snd (tab ! unat mid))
               else if fst (tab ! unat mid) < target then ether_search tab target (mid + 1) b
               else ether_search tab target a (mid - 1))
      else Some (Some UnknownEtherType))"

text \<open>The variable \<open>lastIndex\<close> keeps its value from call to call; the result is the description and its new value.\<close>

definition EtherType_findDescription :: "u16 \<Rightarrow> u16 \<Rightarrow> (string option \<times> u16) option" where
  "EtherType_findDescription lastIndex target =
     (case if lastIndex = 0 then last_index EtherTypeTable 0 else Some lastIndex of
        None \<Rightarrow> None
      | Some lastIndex \<Rightarrow>
          map_option (\<lambda>d. (d, lastIndex)) (ether_search EtherTypeTable target 0 lastIndex))"

section \<open>The search finds the entry\<close>

text \<open>A table of \<open>n\<close> entries in strict order, the first of them for 0, and the null entry after them.\<close>

definition table_ok :: "ether_table \<Rightarrow> nat \<Rightarrow> bool" where
  "table_ok tab n \<longleftrightarrow> length tab = Suc n \<and> 0 < n \<and> n < 32768 \<and> fst (tab ! 0) = 0 \<and> tab ! n = (0, None) \<and>
     (\<forall>i<n. snd (tab ! i) \<noteq> None) \<and> sorted_wrt (<) (map fst (butlast tab))"

definition described :: "ether_table \<Rightarrow> nat \<Rightarrow> u16 \<Rightarrow> string option" where
  "described tab n target = (case find (\<lambda>i. fst (tab ! i) = target) [0..<n] of Some i \<Rightarrow> snd (tab ! i) | None \<Rightarrow> Some UnknownEtherType)"

lemma table_less: "table_ok tab n \<Longrightarrow> i < j \<Longrightarrow> j < n \<Longrightarrow> fst (tab ! i) < fst (tab ! j)"
  using sorted_wrt_nth_less [of "(<)" "map fst (butlast tab)" i j] by (simp add: table_ok_def nth_butlast)

lemma described_hit:
  assumes "table_ok tab n" and "i < n" and "fst (tab ! i) = target"
  shows "described tab n target = snd (tab ! i)"
proof -
  have "fst (tab ! j) \<noteq> target" if "j < i" for j using table_less [OF assms(1) that assms(2)] assms(3) by auto
  then have "find (\<lambda>i. fst (tab ! i) = target) [0..<n] = Some i"
    using assms(2,3) by (auto simp: find_Some_iff)
  then show ?thesis by (simp add: described_def)
qed

lemma described_miss: "(\<And>i. i < n \<Longrightarrow> fst (tab ! i) \<noteq> target) \<Longrightarrow> described tab n target = Some UnknownEtherType"
proof -
  assume "\<And>i. i < n \<Longrightarrow> fst (tab ! i) \<noteq> target"
  then have "find (\<lambda>i. fst (tab ! i) = target) [0..<n] = None" by (auto simp: find_None_iff)
  then show ?thesis by (simp add: described_def)
qed

lemma u16_mid:
  assumes "a \<le> (b :: u16)"
  shows "unat ((b - a) div 2 + a) = (unat b - unat a) div 2 + unat a"
proof -
  have ab: "unat a \<le> unat b" using assms by (simp add: word_le_nat_alt)
  have "unat (b - a) = unat b - unat a" using assms by (rule u16_sub)
  then have d: "unat ((b - a) div 2) = (unat b - unat a) div 2" by (simp add: unat_div)
  have "(unat b - unat a) div 2 + unat a < 65536" using ab u16_bound [of b] by linarith
  then show ?thesis using d by (simp add: u16_add)
qed

lemma ether_search_spec:
  assumes "table_ok tab n" and "unat b \<le> n" and "unat a \<le> Suc n" and "target = 0 \<longrightarrow> a = 0"
    and "\<And>i. i < unat a \<Longrightarrow> i < n \<Longrightarrow> fst (tab ! i) < target" and "\<And>i. unat b < i \<Longrightarrow> i < n \<Longrightarrow> target < fst (tab ! i)"
  shows "ether_search tab target a b = Some (described tab n target)"
  using assms(2-)
proof (induction "Suc (unat b) - unat a" arbitrary: a b rule: less_induct)
  case less
  note ok = assms(1) [unfolded table_ok_def]
  show ?case
  proof (cases "a \<le> b")
    case False
    then have ba: "unat b < unat a" by (simp add: word_le_nat_alt)
    have "fst (tab ! i) \<noteq> target" if i: "i < n" for i
    proof (cases "i < unat a")
      case True
      then show ?thesis using less.prems(4) i by force
    next
      case False
      then have "unat b < i" using ba by simp
      then show ?thesis using less.prems(5) i by force
    qed
    then show ?thesis using False described_miss [of n tab target] by (subst ether_search.simps) simp
  next
    case True
    define mid where "mid = (b - a) div 2 + a"
    have m: "unat mid = (unat b - unat a) div 2 + unat a" using True by (simp add: mid_def u16_mid)
    have ab: "unat a \<le> unat b" using True by (simp add: word_le_nat_alt)
    have mb: "unat a \<le> unat mid" "unat mid \<le> unat b" using m ab by linarith+
    have step: "ether_search tab target a b =
        (if fst (tab ! unat mid) = target then Some (snd (tab ! unat mid))
         else if fst (tab ! unat mid) < target then ether_search tab target (mid + 1) b
         else ether_search tab target a (mid - 1))"
      using True mb(2) less.prems(1) ok by (subst ether_search.simps) (simp add: Let_def mid_def [symmetric])
    consider "fst (tab ! unat mid) = target" | "fst (tab ! unat mid) < target" | "target < fst (tab ! unat mid)"
      by (meson linorder_less_linear)
    then show ?thesis
    proof cases
      case 1
      have "unat mid \<noteq> n"
      proof
        assume e: "unat mid = n"
        then have "target = 0" using 1 ok by simp
        then have "unat a = 0" using less.prems(3) by simp
        then show False using m e less.prems(1) ok by linarith
      qed
      then have "unat mid < n" using mb less.prems(1) by simp
      then show ?thesis using described_hit [OF assms(1) _ 1] step 1 by simp
    next
      case 2
      have s: "unat (mid + 1) = Suc (unat mid)"
        using u16_add [of mid 1] mb(2) less.prems(1) ok by simp
      have low: "fst (tab ! i) < target" if "i < unat (mid + 1)" "i < n" for i
      proof (cases "unat mid < n")
        case True
        then have "i = unat mid \<or> fst (tab ! i) < fst (tab ! unat mid)"
          using that s True table_less [OF assms(1), of i "unat mid"] by (cases "i < unat mid") auto
        then show ?thesis using 2 by auto
      next
        case False
        then have "unat mid = unat b" "unat b = n" using mb less.prems(1) by simp_all
        then have "unat a = n" using m ab by linarith
        then show ?thesis using less.prems(4) that by simp
      qed
      have "ether_search tab target (mid + 1) b = Some (described tab n target)"
        by (rule less.hyps) (use s mb less.prems low 2 in auto)
      then show ?thesis using step 2 by auto
    next
      case 3
      have mn: "unat mid \<noteq> n" using 3 ok by auto
      have "mid \<noteq> 0" using 3 ok by auto
      then have s: "unat (mid - 1) = unat mid - 1" "0 < unat mid" by (simp_all add: unat_minus_one unat_gt_0)
      have high: "target < fst (tab ! i)" if "unat (mid - 1) < i" "i < n" for i
      proof -
        have "i = unat mid \<or> fst (tab ! unat mid) < fst (tab ! i)"
          using that s table_less [OF assms(1), of "unat mid" i] by (cases "unat mid < i") auto
        then show ?thesis using 3 by auto
      qed
      have "ether_search tab target a (mid - 1) = Some (described tab n target)"
        by (rule less.hyps) (use s mb less.prems high in auto)
      then show ?thesis using step 3 by auto
    qed
  qed
qed

lemma last_index_spec:
  assumes "table_ok tab n" and "unat i \<le> n"
  shows "last_index tab i = Some (of_nat n)"
  using assms(2)
proof (induction "n - unat i" arbitrary: i)
  case 0
  then have "unat i = n" by simp
  moreover have "of_nat (unat i) = i" by simp
  ultimately show ?case using assms(1) by (subst last_index.simps) (simp add: table_ok_def)
next
  case (Suc k)
  have i: "unat i < n" and n: "n < 32768" "length tab = Suc n" "snd (tab ! unat i) \<noteq> None"
    using Suc.hyps(2) assms(1) by (auto simp: table_ok_def)
  have "unat (i + 1) = Suc (unat i)" using u16_add [of i 1] i n(1) by simp
  then have "last_index tab (i + 1) = Some (of_nat n)" using Suc by simp
  then show ?case using i n by (subst last_index.simps) simp
qed

lemma described_map_of:
  assumes "table_ok tab n"
  shows "described tab n target = (case map_of (butlast tab) target of Some d \<Rightarrow> d | None \<Rightarrow> Some UnknownEtherType)"
proof (cases "map_of (butlast tab) target")
  case None
  have "fst (tab ! i) \<noteq> target" if "i < n" for i
  proof -
    have "butlast tab ! i \<in> set (butlast tab)" using that assms by (intro nth_mem) (simp add: table_ok_def)
    then show ?thesis using None that assms by (auto simp: map_of_eq_None_iff nth_butlast table_ok_def)
  qed
  then show ?thesis using None described_miss by simp
next
  case (Some d)
  then have "(target, d) \<in> set (butlast tab)" by (rule map_of_SomeD)
  then obtain i where "i < length (butlast tab)" "butlast tab ! i = (target, d)" by (auto simp: in_set_conv_nth)
  then have "i < n" "tab ! i = (target, d)" using assms by (auto simp: table_ok_def nth_butlast)
  then show ?thesis using described_hit [OF assms, of i target] Some by simp
qed

lemma EtherTypeTable_ok: "table_ok EtherTypeTable 82"
proof -
  have "list_all (\<lambda>i. snd (EtherTypeTable ! i) \<noteq> None) [0..<82]" by code_simp
  moreover have "sorted_wrt (<) (map fst (butlast EtherTypeTable))" by code_simp
  moreover have "length EtherTypeTable = 83 \<and> fst (EtherTypeTable ! 0) = 0 \<and> EtherTypeTable ! 82 = (0, None)" by code_simp
  ultimately show ?thesis by (simp add: table_ok_def list_all_iff)
qed

section \<open>The lookups\<close>

text \<open>
  Both lookups are total and agree with their tables: for every EtherType the binary search ends, reads
  only entries of the table (never the null entry's description, and without an underflow of its
  16-bit bounds) and returns the description the table associates with it, or the text for an unknown
  type, on the first call and on every later one; every protocol number below 64 has a
  description.
\<close>

lemma descriptions_found:
  "EtherType_findDescription 0 target =
     Some (case map_of (butlast EtherTypeTable) target of Some d \<Rightarrow> d | None \<Rightarrow> Some UnknownEtherType, 82) \<and>
   EtherType_findDescription 82 target = EtherType_findDescription 0 target \<and>
   IpType_findDescription protocol =
     Some (if unat protocol < 64 then IP_Protocol_Strings ! unat protocol else UnknownIpType)"
proof -
  have s: "ether_search EtherTypeTable target 0 82 = Some (described EtherTypeTable 82 target)"
    by (rule ether_search_spec [OF EtherTypeTable_ok]) simp_all
  have l: "last_index EtherTypeTable 0 = Some 82" using last_index_spec [OF EtherTypeTable_ok, of 0] by simp
  have "length IP_Protocol_Strings = 64" by code_simp
  then show ?thesis
    using s l by (simp add: EtherType_findDescription_def described_map_of [OF EtherTypeTable_ok] IpType_findDescription_def
        word_less_nat_alt)
qed

end
