(* ===== verification/Sntp.thy ===== *)
theory Sntp
  imports BufferSystem
begin

text \<open>
  The SNTP client, \<^verbatim>\<open>code/TCPLIB/SNTPLIB.CPP\<close>.  The layout of an NTP message and the distance between the
  two epochs come from \<^verbatim>\<open>sntp.h\<close>, which is not in the sources: they are the parameter \<open>d\<close>.  The clock of DOS, the
  conversion to local time and the calls that set date and time are parameters or part of the state.
\<close>

unbundle bit_operations_syntax

section \<open>State\<close>

text \<open>
  The fields of a message as they are in memory; \<open>ntp_request\<close> is the message of zeros with leap indicator,
  version and mode 3 and the transmit time given.
\<close>

record ntp_defs =
  ntp_mode :: "mem \<Rightarrow> u8"
  ntp_transTimeSecs :: "mem \<Rightarrow> u32"
  ntp_transTimeFrac :: "mem \<Rightarrow> u32"
  ntp_request :: "u32 \<Rightarrow> u32 \<Rightarrow> mem"
  ntp_size :: u16
  NTP_OFFSET :: u32

record Callback_data_t =
  cd_ntp :: mem
  cd_currentTime :: u32
  cd_currentTimeFrac :: u32
  cd_targetTime :: u32
  cd_targetTimeFrac :: u32
  cd_diffSecs :: u32
  cd_diffMs :: u16

text \<open>\<open>dos_hsecond\<close> are the hundredths of a second that \<^verbatim>\<open>_dos_gettime\<close> reports.\<close>

record sntp_state = dns_state +
  SNTPServerAddr :: IpAddr
  SNTPServerPort :: u16
  UdpCallbackPort :: u16
  CallbackFunc :: "nat option"
  TargetTimeSecs :: u32
  TargetTimeFrac :: u32
  OutgoingRequest :: mem
  dos_hsecond :: u8

definition zero_sntp_state :: sntp_state where
  "zero_sntp_state = dns_state.extend zero_dns_state (sntp_state.fields IpInvalid 0 0 None 0 0 (\<lambda>_. 0) 0)"

lemmas zero_sntp = zero_sntp_state_def zero_dns sntp_state.defs

text \<open>The handler is registered under this function.\<close>

definition ntp_fn :: udp_fn where "ntp_fn = UdpUser 0"

definition SntpLib_init ::
    "(nat \<Rightarrow> u16) \<Rightarrow> IpAddr \<Rightarrow> u16 \<Rightarrow> nat option \<Rightarrow> 'a sntp_state_scheme \<Rightarrow> ('a sntp_state_scheme \<times> int) option" where
  "SntpLib_init clock sntpServerAddr sntpServerPort f s =
     map_option (\<lambda>port.
         (let s = s\<lparr>SNTPServerAddr := sntpServerAddr, SNTPServerPort := sntpServerPort, UdpCallbackPort := port\<rparr>;
              s = fst (registerCallback port ntp_fn s)
          in (s\<lparr>CallbackFunc := f\<rparr>, 0)))
       (getUnusedCallbackPort clock 0 s)"

definition replyReceived :: "'a sntp_state_scheme \<Rightarrow> bool" where
  "replyReceived s \<longleftrightarrow> TargetTimeSecs s \<noteq> 0"

section \<open>Fractions of a second\<close>

text \<open>NTP counts in units of 2 to the power of -32 seconds.\<close>

definition frac_to_ms :: "u32 \<Rightarrow> u16" where "frac_to_ms f = ucast (drop_bit 12 (f div 1048))"
definition ms_to_frac :: "u16 \<Rightarrow> u32" where "ms_to_frac ms = push_bit 12 (ucast ms * 1048)"
definition frac_to_hsec :: "u32 \<Rightarrow> u8" where "frac_to_hsec f = ucast (drop_bit 12 (f div 10480))"
definition hsec_to_frac :: "u8 \<Rightarrow> u32" where "hsec_to_frac h = push_bit 12 (ucast h * 10480)"

section \<open>Responses\<close>

definition sntp_diff :: "u32 \<Rightarrow> u16 \<Rightarrow> u32 \<Rightarrow> u16 \<Rightarrow> u32 \<times> u16" where
  "sntp_diff currentTime currentFrac targetTime targetFrac =
     (if targetTime < currentTime then
        (let diffSecs = currentTime - targetTime
         in if targetFrac < currentFrac then (diffSecs, currentFrac - targetFrac)
            else (diffSecs - 1, (1000 + currentFrac) - targetFrac))
      else if currentTime < targetTime then
        (let diffSecs = targetTime - currentTime
         in if currentFrac < targetFrac then (diffSecs, targetFrac - currentFrac)
            else (diffSecs - 1, (1000 + targetFrac) - currentFrac))
      else (0, if targetFrac < currentFrac then currentFrac - targetFrac else targetFrac - currentFrac))"

definition ntp_of :: "bufref \<Rightarrow> 'a net_scheme \<Rightarrow> mem" where
  "ntp_of packet s = (\<lambda>i. pkt_mem s packet (42 + i))"

definition ntp_accepts :: "ntp_defs \<Rightarrow> bufref \<Rightarrow> 'a sntp_state_scheme \<Rightarrow> bool" where
  "ntp_accepts d packet s \<longleftrightarrow>
     ntohs (udp_src (pk_udp packet s)) = SNTPServerPort s \<and> ntohs (udp_dst (pk_udp packet s)) = UdpCallbackPort s \<and>
     ntp_mode d (ntp_of packet s) AND 7 = 4"

text \<open>\<open>call\<close> runs the callback of the program.\<close>

definition ntpUdpHandler ::
    "ntp_defs \<Rightarrow> (nat \<Rightarrow> Callback_data_t \<Rightarrow> 'a sntp_state_scheme \<Rightarrow> 'a sntp_state_scheme) \<Rightarrow> bufref \<Rightarrow>
     'a sntp_state_scheme \<Rightarrow> 'a sntp_state_scheme" where
  "ntpUdpHandler d call packet s =
     Buffer_free packet
       (if ntp_accepts d packet s then
          (let ntp = ntp_of packet s;
               s = s\<lparr>TargetTimeSecs := ntohl (ntp_transTimeSecs d ntp) - NTP_OFFSET d,
                     TargetTimeFrac := ntohl (ntp_transTimeFrac d ntp)\<rparr>;
               targetFrac = frac_to_ms (TargetTimeFrac s);
               currentTime = unix_time s;
               currentFrac = ucast (dos_hsecond s) * 10;
               (diffSecs, diffFrac) = sntp_diff currentTime currentFrac (TargetTimeSecs s) targetFrac
           in case CallbackFunc s of
                None \<Rightarrow> s
              | Some f \<Rightarrow>
                  call f \<lparr>cd_ntp = ntp, cd_currentTime = currentTime, cd_currentTimeFrac = ms_to_frac currentFrac,
                    cd_targetTime = TargetTimeSecs s, cd_targetTimeFrac = TargetTimeFrac s,
                    cd_diffSecs = diffSecs, cd_diffMs = diffFrac\<rparr> s)
        else s)"

section \<open>Setting the clock\<close>

record tm =
  tm_year :: int
  tm_mon :: int
  tm_mday :: int
  tm_hour :: int
  tm_min :: int
  tm_sec :: int

record dosdate_t =
  dd_year :: u16
  dd_month :: u8
  dd_day :: u8

text \<open>\<open>setdate\<close> and \<open>settime\<close> are the answers of DOS.\<close>

definition dos_date_of :: "tm \<Rightarrow> dosdate_t" where
  "dos_date_of t = \<lparr>dd_year = of_int (tm_year t + 1900), dd_month = of_int (tm_mon t + 1), dd_day = of_int (tm_mday t)\<rparr>"

definition dos_time_of :: "tm \<Rightarrow> u32 \<Rightarrow> DosTime" where
  "dos_time_of t frac = \<lparr>dt_hour = of_int (tm_hour t), dt_minute = of_int (tm_min t), dt_second = of_int (tm_sec t),
     dt_hsecond = frac_to_hsec frac\<rparr>"

definition setDosDateTime ::
    "(u32 \<Rightarrow> tm) \<Rightarrow> (dosdate_t \<Rightarrow> int) \<Rightarrow> (DosTime \<Rightarrow> int) \<Rightarrow> 'a sntp_state_scheme \<Rightarrow> int" where
  "setDosDateTime localtime setdate settime s =
     (let t = localtime (TargetTimeSecs s);
          rc1 = setdate (dos_date_of t);
          rc2 = settime (dos_time_of t (TargetTimeFrac s))
      in if rc1 \<noteq> 0 \<or> rc2 \<noteq> 0 then 1 else 0)"

section \<open>Requests\<close>

definition sntp_sendUdp :: "ntp_defs \<Rightarrow> 'a sntp_state_scheme \<Rightarrow> ('a sntp_state_scheme \<times> int) option" where
  "sntp_sendUdp d s =
     map_option (\<lambda>(s, m, rc). (s\<lparr>OutgoingRequest := m\<rparr>, rc))
       (sendUdp (SNTPServerAddr s) (UdpCallbackPort s) (SNTPServerPort s) (ntp_size d) (OutgoingRequest s) True s)"

text \<open>The wait for the address of the server.\<close>

partial_function (option) sntp_wait ::
    "ntp_defs \<Rightarrow> 'a sntp_state_ext user \<Rightarrow> (nat \<Rightarrow> intr list) \<Rightarrow> nat \<Rightarrow> u32 \<Rightarrow> 'a sntp_state_scheme \<Rightarrow>
     (nat \<times> 'a sntp_state_scheme \<times> int) option" where
  [code]: "sntp_wait d user ev n startTime s =
     (let s = interrupts (ev n) s
      in if TIMER_MS_TO_TICKS 2000 < Timer_diff startTime (Timer_CurrentTicks s) then Some (Suc n, s, -2)
         else (case packet_process_single user s of
             None \<Rightarrow> None
           | Some s \<Rightarrow>
               (case sntp_sendUdp d (driveArp s) of
                  None \<Rightarrow> None
                | Some (s, rc) \<Rightarrow>
                    if rc = -1 then Some (Suc n, s, -1)
                    else if rc = 1 then sntp_wait d user ev (Suc n) startTime s
                    else Some (Suc n, s, 0))))"

definition sntp_request_mem :: "ntp_defs \<Rightarrow> u32 \<Rightarrow> u32 \<Rightarrow> mem" where
  "sntp_request_mem d secs frac =
     (\<lambda>i. if i < 42 then 0 else ntp_request d (htonl (secs + NTP_OFFSET d)) (htonl frac) (i - 42))"

text \<open>The results are the state, \<open>outTime\<close>, \<open>outTimeFrac\<close> and the return code.\<close>

definition sendSNTPRequest ::
    "ntp_defs \<Rightarrow> 'a sntp_state_ext user \<Rightarrow> (nat \<Rightarrow> intr list) \<Rightarrow> nat \<Rightarrow> bool \<Rightarrow> 'a sntp_state_scheme \<Rightarrow>
     (nat \<times> 'a sntp_state_scheme \<times> u32 \<times> u32 \<times> int) option" where
  "sendSNTPRequest d user ev n blocking s =
     (let outTime = unix_time s; outTimeFrac = hsec_to_frac (dos_hsecond s);
          s = s\<lparr>TargetTimeSecs := 0, TargetTimeFrac := 0, OutgoingRequest := sntp_request_mem d outTime outTimeFrac\<rparr>
      in case sntp_sendUdp d s of
           None \<Rightarrow> None
         | Some (s, rc) \<Rightarrow>
             if rc = -1 then Some (n, s, outTime, outTimeFrac, -1)
             else if \<not> blocking then Some (n, s, outTime, outTimeFrac, 0)
             else if rc = 1 then
               map_option (\<lambda>(n, s, rc). (n, s, outTime, outTimeFrac, rc))
                 (sntp_wait d user ev n (Timer_CurrentTicks s) s)
             else Some (n, s, outTime, outTimeFrac, 0))"

section \<open>The conversions\<close>

lemma unat_drop_bit_32: "unat (drop_bit k (x :: u32)) = unat x div 2 ^ k"
  unfolding unat_drop_bit_eq by (simp add: drop_bit_eq_div)

lemma frac_to_ms_value: "unat (frac_to_ms f) = unat f div 1048 div 4096" "unat (frac_to_ms f) \<le> 1000"
proof -
  have "unat f div 1048 div 4096 \<le> 4294967295 div 1048 div 4096"
    using u32_bound [of f] by (intro div_le_mono) simp
  then have b: "unat f div 1048 div 4096 \<le> 1000" by simp
  have "unat (frac_to_ms f) = (unat f div 1048 div 4096) mod 65536"
    by (simp add: frac_to_ms_def unat_drop_bit_32 unat_div unsigned_ucast_eq take_bit_eq_mod)
  then show "unat (frac_to_ms f) = unat f div 1048 div 4096" "unat (frac_to_ms f) \<le> 1000" using b by simp_all
qed

text \<open>
  The hundredths that \<open>setDosDateTime\<close> hands to DOS reach 100, which DOS refuses, in the last fraction
  of each second.
\<close>

lemma frac_to_hsec_value:
  "unat (frac_to_hsec f) = unat f div 10480 div 4096" "unat (frac_to_hsec f) \<le> 100"
  "unat (frac_to_hsec f) = 100 \<longleftrightarrow> 4292608000 \<le> unat f"
proof -
  have "unat f div 10480 div 4096 \<le> 4294967295 div 10480 div 4096"
    using u32_bound [of f] by (intro div_le_mono) simp
  then have b: "unat f div 10480 div 4096 \<le> 100" by simp
  have "unat (frac_to_hsec f) = (unat f div 10480 div 4096) mod 256"
    by (simp add: frac_to_hsec_def unat_drop_bit_32 unat_div unsigned_ucast_eq take_bit_eq_mod)
  then show v: "unat (frac_to_hsec f) = unat f div 10480 div 4096" "unat (frac_to_hsec f) \<le> 100" using b by simp_all
  show "unat (frac_to_hsec f) = 100 \<longleftrightarrow> 4292608000 \<le> unat f"
    using b by (simp add: v(1) div_mult2_eq [symmetric]) linarith
qed

lemma hsec_roundtrip: "h \<le> 99 \<Longrightarrow> frac_to_hsec (hsec_to_frac h) = h"
proof -
  assume "h \<le> 99"
  then have h: "unat h \<le> 99" by (simp add: word_le_nat_alt)
  have "unat (ucast h * 10480 :: u32) = unat h * 10480"
    using h by (simp add: unat_word_ariths unat_ucast_8_32)
  then have "unat (hsec_to_frac h) = unat h * 42926080"
    using h by (simp add: hsec_to_frac_def push_bit_eq_mult unat_word_ariths)
  then have "unat (frac_to_hsec (hsec_to_frac h)) = unat h" by (simp add: frac_to_hsec_value(1))
  then show ?thesis by (simp add: word_unat_eq_iff)
qed

section \<open>The difference of two times\<close>

lemma diff_later:
  assumes "tt < (ct :: u32)" and "unat (cf :: u16) \<le> 1000" and "unat (tf :: u16) \<le> 1000"
  defines "d \<equiv> (if tf < cf then (ct - tt, cf - tf) else (ct - tt - 1, (1000 + cf) - tf))"
  shows "int (unat (fst d)) * 1000 + int (unat (snd d)) =
      (int (unat ct) * 1000 + int (unat cf)) - (int (unat tt) * 1000 + int (unat tf))"
    and "unat (snd d) \<le> 1000" and "unat (snd d) = 1000 \<longleftrightarrow> cf = tf \<or> unat cf = 1000 \<and> tf = 0"
proof -
  have lt: "unat tt < unat ct" using assms(1) by (simp add: word_less_nat_alt)
  then have s: "unat (ct - tt) = unat ct - unat tt" using assms(1) by (simp add: unat_sub word_le_nat_alt)
  then have "ct - tt \<noteq> 0" using lt by auto
  then have s1: "unat (ct - tt - 1) = unat ct - unat tt - 1" using s by (simp add: unat_minus_one)
  have a: "unat (1000 + cf) = 1000 + unat cf" using u16_add [of 1000 cf] assms(2) by simp
  then have b: "unat (1000 + cf - tf) = 1000 + unat cf - unat tf"
    using assms(3) by (subst u16_sub) (simp_all add: word_le_nat_alt)
  have c: "tf < cf \<Longrightarrow> unat (cf - tf) = unat cf - unat tf" by (simp add: u16_sub)
  show "int (unat (fst d)) * 1000 + int (unat (snd d)) =
      (int (unat ct) * 1000 + int (unat cf)) - (int (unat tt) * 1000 + int (unat tf))"
  proof -
    have "unat (fst d) * 1000 + unat (snd d) + (unat tt * 1000 + unat tf) = unat ct * 1000 + unat cf"
      using s s1 b c lt assms(3) by (auto simp: d_def word_less_nat_alt)
    then show ?thesis by linarith
  qed
  show "unat (snd d) \<le> 1000"
    using b c assms(2) by (auto simp: d_def word_less_nat_alt)
  show "unat (snd d) = 1000 \<longleftrightarrow> cf = tf \<or> unat cf = 1000 \<and> tf = 0"
    using b c assms(2,3) by (auto simp: d_def word_less_nat_alt word_unat_eq_iff)
qed

lemma sntp_diff_exact:
  assumes "unat cf \<le> 990" and "unat tf \<le> 1000"
  shows "int (unat (fst (sntp_diff ct cf tt tf))) * 1000 + int (unat (snd (sntp_diff ct cf tt tf))) =
      \<bar>(int (unat ct) * 1000 + int (unat cf)) - (int (unat tt) * 1000 + int (unat tf))\<bar>"
    and "unat (snd (sntp_diff ct cf tt tf)) \<le> 1000"
    and "ct \<noteq> tt \<Longrightarrow> cf = tf \<Longrightarrow> unat (snd (sntp_diff ct cf tt tf)) = 1000"
proof -
  have f: "unat cf \<le> 1000" "unat tf \<le> 1000" using assms by simp_all
  consider "tt < ct" | "ct < tt" | "ct = tt" by (meson linorder_less_linear)
  then have "int (unat (fst (sntp_diff ct cf tt tf))) * 1000 + int (unat (snd (sntp_diff ct cf tt tf))) =
      \<bar>(int (unat ct) * 1000 + int (unat cf)) - (int (unat tt) * 1000 + int (unat tf))\<bar> \<and>
      unat (snd (sntp_diff ct cf tt tf)) \<le> 1000 \<and> (ct \<noteq> tt \<and> cf = tf \<longrightarrow> unat (snd (sntp_diff ct cf tt tf)) = 1000)"
  proof cases
    case 1
    note d = diff_later [OF 1 f(1,2)]
    have "sntp_diff ct cf tt tf = (if tf < cf then (ct - tt, cf - tf) else (ct - tt - 1, (1000 + cf) - tf))"
      using 1 by (simp add: sntp_diff_def)
    then show ?thesis using d by (smt (verit) of_nat_0_le_iff)
  next
    case 2
    note d = diff_later [OF 2 f(2,1)]
    have "sntp_diff ct cf tt tf = (if cf < tf then (tt - ct, tf - cf) else (tt - ct - 1, (1000 + tf) - cf))"
      using 2 less_not_sym [OF 2] by (simp add: sntp_diff_def)
    then show ?thesis using d by (smt (verit) of_nat_0_le_iff)
  next
    case 3
    then have "sntp_diff ct cf tt tf = (0, if tf < cf then cf - tf else tf - cf)" by (simp add: sntp_diff_def)
    moreover have "unat (if tf < cf then cf - tf else tf - cf) = (if unat tf < unat cf then unat cf - unat tf else unat tf - unat cf)"
      by (simp add: u16_sub word_less_nat_alt word_le_nat_alt)
    ultimately show ?thesis using 3 f by (cases "unat tf < unat cf") (auto simp: of_nat_diff simp del: of_nat_unat)
  qed
  then show "int (unat (fst (sntp_diff ct cf tt tf))) * 1000 + int (unat (snd (sntp_diff ct cf tt tf))) =
      \<bar>(int (unat ct) * 1000 + int (unat cf)) - (int (unat tt) * 1000 + int (unat tf))\<bar>"
    "unat (snd (sntp_diff ct cf tt tf)) \<le> 1000"
    "ct \<noteq> tt \<Longrightarrow> cf = tf \<Longrightarrow> unat (snd (sntp_diff ct cf tt tf)) = 1000" by blast+
qed

section \<open>The handler disposes of its packet\<close>

lemma sntp_upd:
  fixes s :: "'a sntp_state_scheme"
  shows "sys_flow X c k UNIV (s\<lparr>TargetTimeSecs := t\<rparr>) = sys_flow X c k UNIV s"
    and "sys_flow X c k UNIV (s\<lparr>TargetTimeFrac := t\<rparr>) = sys_flow X c k UNIV s"
proof -
  have "own_view (s\<lparr>TargetTimeSecs := t\<rparr>) = own_view s" "own_view (s\<lparr>TargetTimeFrac := t\<rparr>) = own_view s"
    by (simp_all add: own_view_def pool_view_def)
  note o = own_inv_cong [OF this(1)] own_inv_cong [OF this(2)]
  show "sys_flow X c k UNIV (s\<lparr>TargetTimeSecs := t\<rparr>) = sys_flow X c k UNIV s"
    "sys_flow X c k UNIV (s\<lparr>TargetTimeFrac := t\<rparr>) = sys_flow X c k UNIV s"
    by (simp_all add: sys_flow_def o frag_few_def)
qed

text \<open>A program whose only handler is this one conserves the receive buffers.\<close>

lemma ntp_user_consumes:
  assumes "\<And>f d X c k s. sys_flow X c k UNIV s \<Longrightarrow> sys_flow X c k UNIV (call f d s)"
  shows "user_consumes UNIV (\<lambda>_. ntpUdpHandler d call)"
proof -
  have "sys_flow X c k UNIV (ntpUdpHandler d call p s)" if s: "sys_flow (X + {#p#}) c k UNIV s" for X p c k s
    unfolding ntpUdpHandler_def Let_def split_beta
    by (rule drop.consumes [OF _ refl]) (use s in \<open>auto simp: sntp_upd intro!: assms split: option.split\<close>)
  then show ?thesis by (simp add: user_consumes_def)
qed

interpretation ntp: packet_consumer UNIV "\<lambda>p s. Some (ntpUdpHandler d (\<lambda>_ _ s. s) p s)" for d
proof unfold_locales
  fix X p c k and s s' :: "'a sntp_state_scheme"
  assume s: "sys_flow (X + {#p#}) c k UNIV s" and e: "Some (ntpUdpHandler d (\<lambda>_ _ s. s) p s) = Some s'"
  have "user_consumes UNIV (\<lambda>_. ntpUdpHandler d (\<lambda>_ _ s :: 'a sntp_state_scheme. s))" by (rule ntp_user_consumes)
  then show "sys_flow X c k UNIV s'" using s e unfolding user_consumes_def by blast
qed

section \<open>Properties\<close>

text \<open>
  C33. The client tells its program how far the clock is off: for a response of the server, the
  seconds and milliseconds that the callback gets are together exactly the distance between
  the two times it also gets (in whichever direction), with the clock of DOS read in hundredths.  The
  milliseconds are at most 1000; they are 1000, not 0, when the fractions of two different seconds agree.
\<close>

theorem sntp_reports_difference:
  fixes s :: "'a sntp_state_scheme" and d :: ntp_defs and packet :: bufref
  defines "t \<equiv> ntohl (ntp_transTimeSecs d (ntp_of packet s)) - NTP_OFFSET d"
    and "f \<equiv> ntohl (ntp_transTimeFrac d (ntp_of packet s))"
  assumes "ntp_accepts d packet s" and "CallbackFunc s = Some g" and "dos_hsecond s \<le> 99"
  shows "\<exists>r. ntpUdpHandler d call packet s = Buffer_free packet (call g r (s\<lparr>TargetTimeSecs := t, TargetTimeFrac := f\<rparr>)) \<and>
    cd_currentTime r = unix_time s \<and> cd_targetTime r = t \<and> cd_targetTimeFrac r = f \<and>
    int (unat (cd_diffSecs r)) * 1000 + int (unat (cd_diffMs r)) =
      \<bar>(int (unat (unix_time s)) * 1000 + int (unat (dos_hsecond s)) * 10) -
        (int (unat t) * 1000 + int (unat f div 4292608))\<bar> \<and>
    unat (cd_diffMs r) \<le> 1000 \<and>
    (unix_time s \<noteq> t \<and> unat (dos_hsecond s) * 10 = unat f div 4292608 \<longrightarrow> unat (cd_diffMs r) = 1000)"
proof -
  let ?cf = "ucast (dos_hsecond s) * 10 :: u16"
  define x where "x = sntp_diff (unix_time s) ?cf t (frac_to_ms f)"
  have h: "unat (dos_hsecond s) \<le> 99" using assms(5) by (simp add: word_le_nat_alt)
  then have cf: "unat ?cf = unat (dos_hsecond s) * 10" by (simp add: unat_word_ariths unat_ucast_8_16)
  have tf: "unat (frac_to_ms f) = unat f div 4292608" "unat (frac_to_ms f) \<le> 1000"
    using frac_to_ms_value(1) [of f] by (simp add: div_mult2_eq [symmetric]) (rule frac_to_ms_value(2))
  have "unat ?cf \<le> 990" using h cf by simp
  note e = sntp_diff_exact [OF this tf(2), of "unix_time s" t, folded x_def]
  have eq: "?cf = frac_to_ms f \<longleftrightarrow> unat (dos_hsecond s) * 10 = unat f div 4292608"
    by (simp only: word_unat_eq_iff cf tf(1))
  let ?r = "\<lparr>cd_ntp = ntp_of packet s, cd_currentTime = unix_time s, cd_currentTimeFrac = ms_to_frac ?cf,
    cd_targetTime = t, cd_targetTimeFrac = f, cd_diffSecs = fst x, cd_diffMs = snd x\<rparr>"
  have "ntpUdpHandler d call packet s = Buffer_free packet (call g ?r (s\<lparr>TargetTimeSecs := t, TargetTimeFrac := f\<rparr>))"
    using assms(3,4) by (simp add: ntpUdpHandler_def Let_def split_beta t_def [symmetric] f_def [symmetric] x_def)
  moreover have "int (unat (fst x)) * 1000 + int (unat (snd x)) =
      \<bar>(int (unat (unix_time s)) * 1000 + int (unat (dos_hsecond s)) * 10) - (int (unat t) * 1000 + int (unat f div 4292608))\<bar>"
    using e(1) unfolding cf tf(1) by (simp only: of_nat_mult of_nat_numeral)
  ultimately show ?thesis using e(2,3) eq by (intro exI [of _ ?r]) simp
qed

text \<open>A message in the layout of RFC 4330, and a response four seconds behind the local clock.\<close>

definition demo_ntp :: ntp_defs where
  "demo_ntp = \<lparr>ntp_mode = (\<lambda>m. m 0), ntp_transTimeSecs = (\<lambda>m. rd32 m 40), ntp_transTimeFrac = (\<lambda>m. rd32 m 44),
     ntp_request = (\<lambda>secs frac. memcpy (memcpy (memcpy (\<lambda>_. 0) 0 [0xDB]) 40 (bytes32 secs)) 44 (bytes32 frac)),
     ntp_size = 48, NTP_OFFSET = 2208988800\<rparr>"

definition demo_response :: sntp_state where
  "demo_response = zero_sntp_state\<lparr>SNTPServerPort := 123, UdpCallbackPort := 1024, CallbackFunc := Some 0, unix_time := 132,
     pkt_mem := (\<lambda>_. memcpy (memcpy (memcpy (memcpy (\<lambda>_. 0) 14 [0x45]) 34 [0, 123, 4, 0]) 42 [0x1C]) 82 [0x83, 0xAA, 0x7F, 0])\<rparr>"

theorem sntp_reports_difference_witness:
  "ntpUdpHandler demo_ntp (\<lambda>_ r s. if cd_diffSecs r = 3 \<and> cd_diffMs r = 1000 then s else zero_sntp_state) (PoolBuf 0) demo_response =
    Buffer_free (PoolBuf 0) (demo_response\<lparr>TargetTimeSecs := 128, TargetTimeFrac := 0\<rparr>)"
proof -
  have mem: "pkt_mem demo_response p = memcpy (memcpy (memcpy (memcpy (\<lambda>_. 0) 14 [0x45]) 34 [0, 123, 4, 0]) 42 [0x1C]) 82 [0x83, 0xAA, 0x7F, 0]" for p
    by (simp add: demo_response_def zero_sntp)
  have flds: "SNTPServerPort demo_response = 123" "UdpCallbackPort demo_response = 1024" "CallbackFunc demo_response = Some 0"
    "dos_hsecond demo_response = 0" "unix_time demo_response = 132"
    by (simp_all add: demo_response_def zero_sntp)
  have a: "ntp_accepts demo_ntp (PoolBuf 0) demo_response"
    by (simp add: ntp_accepts_def flds ntp_of_def mem demo_ntp_def pk_udp_def read_UdpHeader_def memcpy_def pk_tcp_off_def
      pk_ip_def payloadOff_def getIpHlen_def read_IpHeader_def rd16_def le16_def htons_def)
  have t: "ntohl (ntp_transTimeSecs demo_ntp (ntp_of (PoolBuf 0) demo_response)) - NTP_OFFSET demo_ntp = 128"
    by (simp add: demo_ntp_def ntp_of_def mem memcpy_def rd32_def ip_u32_def htonl_def htons_def Let_def)
  have f: "ntohl (ntp_transTimeFrac demo_ntp (ntp_of (PoolBuf 0) demo_response)) = 0"
    by (simp add: demo_ntp_def ntp_of_def mem memcpy_def rd32_def ip_u32_def htonl_def htons_def Let_def)
  have w: "cd_diffSecs r = 3 \<and> cd_diffMs r = 1000"
    if "int (unat (cd_diffSecs r)) * 1000 + int (unat (cd_diffMs r)) = 4000" "unat (cd_diffMs r) = 1000" for r :: Callback_data_t
  proof -
    have "unat (cd_diffSecs r) = 3" using that by (simp del: of_nat_unat)
    then show ?thesis using that(2) by (simp add: word_unat_eq_iff)
  qed
  note ex = sntp_reports_difference [of demo_ntp "PoolBuf 0" demo_response 0
      "\<lambda>_ r s. if cd_diffSecs r = 3 \<and> cd_diffMs r = 1000 then s else zero_sntp_state", OF a flds(3)]
  show ?thesis
    using ex unfolding t f flds by (auto dest!: w simp del: of_nat_unat)
qed

end
