(* ===== verification/EndToEnd.thy ===== *)
theory EndToEnd
  imports TcpStates "HOL-Library.Sublist"
begin

text \<open>
  Two hosts and a network between them that loses, duplicates and reorders: the frames \<^verbatim>\<open>sendPacket\<close> builds on
  one host, processed by \<^verbatim>\<open>Tcp::process\<close> on the other, leave the bytes in the receive buffer in the order in which
  they were sent.
\<close>

unbundle bit_operations_syntax

section \<open>A segment in a receive buffer\<close>

text \<open>The frame is at the start of the buffer; behind it the buffer holds anything.\<close>

definition holds_frame :: "frame \<Rightarrow> bufref \<Rightarrow> 'a net_scheme \<Rightarrow> bool" where
  "holds_frame f p t \<longleftrightarrow> (\<forall>i<length (frame_bytes f). pkt_mem t p i = frame_bytes f ! i)"

lemma holds_frame_memcpy: "holds_frame f p t \<longleftrightarrow> (\<exists>m. pkt_mem t p = memcpy m 0 (frame_bytes f))"
proof
  assume "holds_frame f p t"
  then have "pkt_mem t p = memcpy (pkt_mem t p) 0 (frame_bytes f)" by (auto simp: holds_frame_def memcpy_def fun_eq_iff)
  then show "\<exists>m. pkt_mem t p = memcpy m 0 (frame_bytes f)" by blast
qed (auto simp: holds_frame_def memcpy_def)

lemma tcp_frame_read:
  assumes "holds_frame (TcpFrame eh ip tcp xs) p t" and "getIpHlen ip = 20"
  shows "pk_ip p t = ip" and "pk_tcp_off p t = 34" and "pk_tcp p t = tcp"
    and "rdbytes (pkt_mem t p) 54 (length xs) = xs"
    and "i < 20 + length xs \<Longrightarrow> pkt_mem t p (34 + i) = tcp_image tcp (mem_of xs) i"
proof -
  obtain m where m: "pkt_mem t p = memcpy m 0 (eth_bytes eh @ ip_bytes ip @ tcp_bytes tcp @ xs)"
    using assms(1) by (auto simp: holds_frame_memcpy frame_bytes_def)
  have l: "length (eth_bytes eh) = 14" "length (ip_bytes ip) = 20" by simp_all
  have e: "pkt_mem t p = memcpy (memcpy (memcpy m 0 (eth_bytes eh)) 14 (ip_bytes ip)) 34 (tcp_bytes tcp @ xs)"
    using memcpy_append [of m 0 "eth_bytes eh" "ip_bytes ip @ tcp_bytes tcp @ xs"]
      memcpy_append [of "memcpy m 0 (eth_bytes eh)" 14 "ip_bytes ip" "tcp_bytes tcp @ xs"] by (simp add: m)
  have c: "\<And>m m'. (\<And>i. 14 \<le> i \<Longrightarrow> i < 34 \<Longrightarrow> m i = m' i) \<Longrightarrow> read_IpHeader m 14 = read_IpHeader m' 14"
    by (simp add: read_IpHeader_def rd16_def rdip_def)
  show ip: "pk_ip p t = ip"
    unfolding pk_ip_def e by (subst c [where m' = "memcpy (memcpy m 0 (eth_bytes eh)) 14 (ip_bytes ip)"]) (auto simp: memcpy_def [of _ 34])
  show off: "pk_tcp_off p t = 34" using assms(2) by (simp add: pk_tcp_off_def ip payloadOff_def)
  show "pk_tcp p t = tcp" unfolding pk_tcp_def off e by simp
  show "rdbytes (pkt_mem t p) 54 (length xs) = xs"
    by (rule nth_equalityI) (auto simp: e memcpy_def nth_append)
  show "pkt_mem t p (34 + i) = tcp_image tcp (mem_of xs) i" if "i < 20 + length xs"
    using that by (auto simp: e memcpy_def nth_append tcp_image_def mem_of_def)
qed

section \<open>Data segments\<close>

text \<open>The frames of data segments: addresses and ports, sequence number and data, with valid checksums.\<close>

definition data_frame :: "IpAddr \<Rightarrow> u16 \<Rightarrow> IpAddr \<Rightarrow> u16 \<Rightarrow> u32 \<Rightarrow> u8 list \<Rightarrow> frame \<Rightarrow> bool" where
  "data_frame src sp dst dp q xs f \<longleftrightarrow>
     (case f of
        TcpFrame eh ip tcp ys \<Rightarrow>
          ys = xs \<and> xs \<noteq> [] \<and> length xs \<le> 65481 \<and>
          getIpHlen ip = 20 \<and> payloadLen ip = of_nat (20 + length xs) \<and> ip_src ip = src \<and> ip_dest ip = dst \<and>
          getTcpHlen tcp = 20 \<and> tcp_src tcp = htons sp \<and> tcp_dst tcp = htons dp \<and> tcp_seqnum tcp = htonl q \<and>
          (getCodeBits tcp = TCP_CODEBITS_ACK \<or> getCodeBits tcp = TCP_CODEBITS_ACK OR TCP_CODEBITS_PSH) \<and>
          ip_p_chksum src dst (tcp_image tcp (mem_of xs)) 0 IP_PROTOCOL_TCP (of_nat (20 + length xs)) = 0
      | _ \<Rightarrow> False)"

text \<open>The segment that is sent now carries new data.\<close>

definition sends_data :: "nat \<Rightarrow> bref \<Rightarrow> 'a tcp_state_scheme \<Rightarrow> bool" where
  "sends_data i b s \<longleftrightarrow> state (socks s i) = TCP_STATE_ESTABLISHED \<and> b_pendingArp (tbuf s b) = 0 \<and>
     b_dataLen (tbuf s b) \<noteq> 0 \<and> unat (b_dataLen (tbuf s b)) \<le> 65481 \<and> \<not> isForceProbe (tbuf s b)"

definition seg_data :: "bref \<Rightarrow> 'a tcp_state_scheme \<Rightarrow> u8 list" where
  "seg_data b s = rdbytes (b_data (tbuf s b)) 0 (unat (b_dataLen (tbuf s b)))"

lemma of_nat_sum: "unat (n :: u16) \<le> 65481 \<Longrightarrow> (of_nat (20 + unat n) :: u16) = n + 20"
  by simp

lemma sendPacket_data_frame:
  fixes s :: "'a tcp_state_scheme" and i b
  defines "k \<equiv> socks s i"
  assumes "sends_data i b s"
  shows "data_frame (MyIpAddr s) (srcPort k) (dstHost k) (dstPort k) (seqNum k) (seg_data b s)
    (tcp_frame (tbuf (fst (sendPacket i b s)) b))"
proof -
  define d d' n where "d = tbuf s b" and "d' = tbuf (fst (sendPacket i b s)) b" and "n = b_dataLen d"
  have a: "state k = TCP_STATE_ESTABLISHED" "b_pendingArp (tbuf s b) = 0" "n \<noteq> 0" "unat n \<le> 65481" "\<not> isForceProbe d"
    using assms(2) by (simp_all add: sends_data_def k_def d_def n_def)
  note sp = sendPacket_buf [OF a(2), of i, folded k_def d_def d'_def]
  have nosyn: "\<not> sends_syn k" "\<not> sends_fin k d" using a(1) by (simp_all add: sends_syn_def sends_fin_def)
  then have len: "sent_tcpLen k d = n + 20" "sent_data k d (MSS_to_advertise s) = b_data d"
    by (simp_all add: sent_tcpLen_def n_def sent_data_def)
  obtain h t where ip: "b_ip d' = snd (IpHeader_set IP_PROTOCOL_TCP (dstHost k) (n + 20) 0 0 h t)"
    and my: "MyIpAddr (t :: 'a tcp_state_scheme) = MyIpAddr s" using sp(3) len(1) by auto
  have un: "unat (n + 20) = unat n + 20" using a(4) by (simp add: unat_word_ariths)
  have pl: "unat (b_packetLen d') - 54 = unat n" using sp(4) len(1) a(4) by (simp add: unat_word_ariths)
  have ys: "rdbytes (b_data d') 0 (unat n) = seg_data b s" using sp(2) len(2) by (simp add: seg_data_def d_def n_def)
  have l: "length (seg_data b s) = unat n" by (simp add: seg_data_def n_def d_def)
  have nn: "(of_nat (20 + length (seg_data b s)) :: u16) = n + 20" unfolding l by (rule of_nat_sum [OF a(4)])
  have cs: "ip_p_chksum (MyIpAddr s) (dstHost k) (tcp_image (b_tcp d') (b_data d)) 0 IP_PROTOCOL_TCP (n + 20) = 0"
    unfolding sp(1) len by (rule tcp_checksum_verifies) (use un in \<open>simp_all add: sent_header_def\<close>)
  have "ip_p_chksum (MyIpAddr s) (dstHost k) (tcp_image (b_tcp d') (mem_of (seg_data b s))) 0 IP_PROTOCOL_TCP (n + 20) =
      ip_p_chksum (MyIpAddr s) (dstHost k) (tcp_image (b_tcp d') (b_data d)) 0 IP_PROTOCOL_TCP (n + 20)"
  proof (rule ip_p_chksum_cong)
    fix j assume "j < unat (n + 20)"
    then show "tcp_image (b_tcp d') (mem_of (seg_data b s)) (0 + j) = tcp_image (b_tcp d') (b_data d) (0 + j)"
      using un l by (auto simp: tcp_image_def mem_of_def seg_data_def d_def)
  qed (simp add: un)
  then have cs': "ip_p_chksum (MyIpAddr s) (dstHost k) (tcp_image (b_tcp d') (mem_of (seg_data b s))) 0 IP_PROTOCOL_TCP (n + 20) = 0"
    using cs by simp
  have tcp: "tcp_src (b_tcp d') = htons (srcPort k)" "tcp_dst (b_tcp d') = htons (dstPort k)"
    "tcp_seqnum (b_tcp d') = htonl (seqNum k)" "getTcpHlen (b_tcp d') = 20"
    "getCodeBits (b_tcp d') = TCP_CODEBITS_ACK OR TCP_CODEBITS_PSH"
    using nosyn a by (simp_all add: sp(1) sent_header_def getTcpHlen_def getCodeBits_def sent_bits_def n_def cfg_defs)
  have ne: "seg_data b s \<noteq> []" using l a(3) by (auto simp: unat_eq_0)
  show ?thesis
    using a(4) l cs' [unfolded add.commute [of n 20]] tcp my ne nn
    by (simp add: data_frame_def tcp_frame_def d'_def [symmetric] pl ys ip IpHeader_set_fields)
qed

text \<open>A retransmission is a segment with the same data.\<close>

lemma resendPacket_data_frame:
  assumes "data_frame (MyIpAddr s) sp dst dp q xs (tcp_frame (tbuf s b))"
    and "b_packetLen (tbuf s b) = 54 + b_dataLen (tbuf s b)"
  shows "data_frame (MyIpAddr s) sp dst dp q xs (tcp_frame (tbuf (resendPacket i b s) b))"
proof -
  let ?d = "tbuf s b"
  let ?n = "b_dataLen ?d"
  have f: "xs = rdbytes (b_data ?d) 0 (unat (b_packetLen ?d) - 54)" "getTcpHlen (b_tcp ?d) = 20" "ip_dest (b_ip ?d) = dst"
    "length xs \<le> 65481" "xs \<noteq> []"
    using assms(1) by (auto simp: data_frame_def tcp_frame_def)
  have "length xs = unat (b_packetLen ?d) - 54" using f(1) by simp
  moreover have "0 < length xs" using f(5) by simp
  ultimately have p: "unat (b_packetLen ?d) = 54 + length xs" by linarith
  have "unat ?n = length xs"
  proof -
    have "?n = b_packetLen ?d - 54" using assms(2) by simp
    moreover have "(54 :: u16) \<le> b_packetLen ?d" using p by (simp add: word_le_nat_alt)
    ultimately show ?thesis using p u16_sub [of 54 "b_packetLen ?d"] by simp
  qed
  then have "?n = of_nat (length xs)" by (rule word_eq_of_nat)
  then have n: "?n + 20 = of_nat (20 + length xs)" by simp
  define ip where "ip = snd (IpHeader_set IP_PROTOCOL_TCP dst (?n + 20) 0 0 (b_ip ?d) s)"
  have t: "tbuf (resendPacket i b s) b = ?d\<lparr>b_ip := ip, b_attempts := b_attempts ?d + 1\<rparr>"
    by (simp add: resendPacket_def Let_def split_beta f(2,3) ip_def)
  have "getIpHlen ip = 20" "payloadLen ip = of_nat (20 + length xs)" "ip_src ip = MyIpAddr s" "ip_dest ip = dst"
    using n by (simp_all add: ip_def IpHeader_set_fields)
  then show ?thesis
    using assms(1) by (simp add: data_frame_def tcp_frame_def t)
qed

lemma data_frameE:
  assumes "data_frame src sp dst dp q xs f"
  obtains eh ip tcp where "f = TcpFrame eh ip tcp xs" "xs \<noteq> []" "length xs \<le> 65481"
    "getIpHlen ip = 20" "payloadLen ip = of_nat (20 + length xs)" "ip_src ip = src" "ip_dest ip = dst"
    "getTcpHlen tcp = 20" "tcp_src tcp = htons sp" "tcp_dst tcp = htons dp" "tcp_seqnum tcp = htonl q"
    "getCodeBits tcp = TCP_CODEBITS_ACK \<or> getCodeBits tcp = TCP_CODEBITS_ACK OR TCP_CODEBITS_PSH"
    "ip_p_chksum src dst (tcp_image tcp (mem_of xs)) 0 IP_PROTOCOL_TCP (of_nat (20 + length xs)) = 0"
  using assms by (cases f) (auto simp: data_frame_def)

section \<open>What the receiver sees of a segment\<close>

lemma of_nat_u16: "n < 65536 \<Longrightarrow> unat (of_nat n :: u16) = n"
  by (simp add: unat_of_nat)

lemma data_frame_received:
  fixes t :: "'a tcp_state_scheme"
  assumes "data_frame src sp (MyIpAddr t) dp q xs f" and "holds_frame f p t"
  shows "tcp_checksum_ok p t" and "ip_src (pk_ip p t) = src" and "ntohs (tcp_src (pk_tcp p t)) = sp"
    and "ntohs (tcp_dst (pk_tcp p t)) = dp" and "incomingDataLen p t = of_nat (length xs)"
    and "payloadLen (pk_ip p t) - ucast (getTcpHlen (pk_tcp p t)) = of_nat (length xs)"
    and "unat (of_nat (length xs) :: u16) = length xs" and "(of_nat (length xs) :: u16) \<noteq> 0"
    and "rdbytes (pkt_mem t p) (pk_tcp_off p t + unat (getTcpHlen (pk_tcp p t))) (length xs) = xs"
    and "isAckSet (read_seg p j t)" and "\<not> isRstSet (read_seg p j t)" and "\<not> isFinSet (read_seg p j t)"
    and "sg_seq (read_seg p j t) = q" and "sg_len (read_seg p j t) = of_nat (length xs)"
proof -
  obtain eh ip tcp where f: "f = TcpFrame eh ip tcp xs" "xs \<noteq> []" "length xs \<le> 65481"
    and ip: "getIpHlen ip = 20" "payloadLen ip = of_nat (20 + length xs)" "ip_src ip = src" "ip_dest ip = MyIpAddr t"
    and tcp: "getTcpHlen tcp = 20" "tcp_src tcp = htons sp" "tcp_dst tcp = htons dp" "tcp_seqnum tcp = htonl q"
      "getCodeBits tcp = TCP_CODEBITS_ACK \<or> getCodeBits tcp = TCP_CODEBITS_ACK OR TCP_CODEBITS_PSH"
    and ck: "ip_p_chksum src (MyIpAddr t) (tcp_image tcp (mem_of xs)) 0 IP_PROTOCOL_TCP (of_nat (20 + length xs)) = 0"
    using assms(1) by (rule data_frameE)
  note r = tcp_frame_read [OF assms(2) [unfolded f(1)] ip(1)]
  show pl: "payloadLen (pk_ip p t) - ucast (getTcpHlen (pk_tcp p t)) = of_nat (length xs)"
    by (simp add: r(1,3) ip(2) tcp(1))
  then show dl: "incomingDataLen p t = of_nat (length xs)" by (simp add: incomingDataLen_def)
  show u: "unat (of_nat (length xs) :: u16) = length xs" using f(3) by (intro of_nat_u16) simp
  show "(of_nat (length xs) :: u16) \<noteq> 0" using u f(2) by (metis length_0_conv unat_0)
  have ul: "unat (of_nat (20 + length xs) :: u16) = 20 + length xs" using f(3) by (intro of_nat_u16) simp
  have "ip_p_chksum src (MyIpAddr t) (pkt_mem t p) 34 IP_PROTOCOL_TCP (of_nat (20 + length xs)) =
      ip_p_chksum src (MyIpAddr t) (tcp_image tcp (mem_of xs)) 0 IP_PROTOCOL_TCP (of_nat (20 + length xs))"
    by (rule ip_p_chksum_cong, unfold ul) (use r(5) in auto)
  moreover have "incomingDataLen p t + ucast (getTcpHlen (pk_tcp p t)) = of_nat (20 + length xs)"
    by (simp add: dl r(3) tcp(1))
  ultimately show "tcp_checksum_ok p t" by (simp only: tcp_checksum_ok_def r(1,2) ip(3) ck)
  show "ip_src (pk_ip p t) = src" "ntohs (tcp_src (pk_tcp p t)) = sp" "ntohs (tcp_dst (pk_tcp p t)) = dp"
    by (simp_all add: r ip tcp)
  show "rdbytes (pkt_mem t p) (pk_tcp_off p t + unat (getTcpHlen (pk_tcp p t))) (length xs) = xs"
    by (simp add: r tcp)
  show "isAckSet (read_seg p j t)" "\<not> isRstSet (read_seg p j t)" "\<not> isFinSet (read_seg p j t)"
    "sg_seq (read_seg p j t) = q" "sg_len (read_seg p j t) = of_nat (length xs)"
    using tcp(5) by (auto simp: read_seg_def Let_def r tcp dl cfg_defs)
qed

section \<open>The receive side of a host\<close>

text \<open>What decides where a segment goes, and what an arriving segment is stored in.\<close>

definition conn_sock :: "TcpSocket \<Rightarrow> TcpState \<times> bool \<times> IpAddr \<times> u16 \<times> u16" where
  "conn_sock k = (state k, disableReads k, dstHost k, dstPort k, srcPort k)"

definition rcv_sock :: "TcpSocket \<Rightarrow> nat option \<times> u16 \<times> u16 \<times> u16 \<times> u16 \<times> u32" where
  "rcv_sock k = (rcvBuffer k, rcvBufSize k, rcvBufEntries k, rcvBufFirst k, rcvBufLast k, ackNum k)"

definition conn_view ::
    "'a tcp_state_scheme \<Rightarrow> IpAddr \<times> (nat \<Rightarrow> nat) \<times> u8 \<times> (nat \<Rightarrow> TcpState \<times> bool \<times> IpAddr \<times> u16 \<times> u16)" where
  "conn_view t = (MyIpAddr t, socketTable t, activeSockets t, \<lambda>i. conn_sock (socks t i))"

definition rx_view where
  "rx_view t = (conn_view t, heap_mem t, \<lambda>i. rcv_sock (socks t i))"

lemma rx_viewD:
  assumes "rx_view t' = rx_view t"
  shows "conn_view t' = conn_view t" and "heap_mem t' = heap_mem t" and "MyIpAddr t' = MyIpAddr t"
    and "state (socks t' i) = state (socks t i)" and "disableReads (socks t' i) = disableReads (socks t i)"
    and "rcvBuffer (socks t' i) = rcvBuffer (socks t i)" and "rcvBufSize (socks t' i) = rcvBufSize (socks t i)"
    and "rcvBufEntries (socks t' i) = rcvBufEntries (socks t i)" and "rcvBufFirst (socks t' i) = rcvBufFirst (socks t i)"
    and "rcvBufLast (socks t' i) = rcvBufLast (socks t i)" and "ackNum (socks t' i) = ackNum (socks t i)"
proof -
  have c: "conn_sock (socks t' i) = conn_sock (socks t i)" and r: "rcv_sock (socks t' i) = rcv_sock (socks t i)"
    and "conn_view t' = conn_view t" and "heap_mem t' = heap_mem t" and "MyIpAddr t' = MyIpAddr t"
    using assms by (simp_all add: rx_view_def conn_view_def fun_eq_iff)
  then show "conn_view t' = conn_view t" "heap_mem t' = heap_mem t" "MyIpAddr t' = MyIpAddr t" by simp_all
  show "state (socks t' i) = state (socks t i)" "disableReads (socks t' i) = disableReads (socks t i)"
    using c by (simp_all add: conn_sock_def)
  show "rcvBuffer (socks t' i) = rcvBuffer (socks t i)" "rcvBufSize (socks t' i) = rcvBufSize (socks t i)"
    "rcvBufEntries (socks t' i) = rcvBufEntries (socks t i)" "rcvBufFirst (socks t' i) = rcvBufFirst (socks t i)"
    "rcvBufLast (socks t' i) = rcvBufLast (socks t i)" "ackNum (socks t' i) = ackNum (socks t i)"
    using r by (simp_all add: rcv_sock_def)
qed

lemma rx_rcv_cong:
  assumes "rx_view t' = rx_view t"
  shows "rcv_wf i t' = rcv_wf i t" and "rcv_contents i t' = rcv_contents i t" and "rcv_room i t' = rcv_room i t"
  by (simp_all add: rcv_wf_def rcv_contents_def rcv_room_def Let_def rx_viewD [OF assms])

lemma rx_view_upd_sock:
  "(\<And>k. conn_sock (g k) = conn_sock k) \<Longrightarrow> (\<And>k. rcv_sock (g k) = rcv_sock k) \<Longrightarrow> rx_view (upd_sock i g t) = rx_view t"
  by (simp add: rx_view_def conn_view_def upd_sock_def fun_eq_iff)

lemma rx_view_quiet:
  assumes "quiet t' = quiet t" and "\<And>i. sk_rest (socks t' i) = sk_rest (socks t i)"
    and "\<And>i. state (socks t' i) = state (socks t i)"
  shows "rx_view t' = rx_view t"
proof -
  have "conn_sock (socks t' i) = conn_sock (socks t i)" "rcv_sock (socks t' i) = rcv_sock (socks t i)" for i
    using sk_rest_fields [OF assms(2) [of i]] assms(3) [of i] by (simp_all add: conn_sock_def rcv_sock_def)
  then show ?thesis
    using quiet_fields [OF assms(1)] by (simp add: rx_view_def conn_view_def)
qed

lemma rx_view_upd_buf [simp]: "rx_view (upd_buf b h t) = rx_view t"
  by (simp add: rx_view_def conn_view_def upd_buf_def)

lemma rx_view_counters [simp]:
  "rx_view (t\<lparr>Pending_Sent := a\<rparr>) = rx_view t" "rx_view (t\<lparr>Pending_Outgoing := b\<rparr>) = rx_view t"
  "rx_view (t\<lparr>Packets_SeqOrAckError := c\<rparr>) = rx_view t" "rx_view (t\<lparr>Packets_DroppedNoSpace := d\<rparr>) = rx_view t"
  "rx_view (t\<lparr>Tcp_Packets_Received := e\<rparr>) = rx_view t" "rx_view (t\<lparr>Tcp_ChecksumErrors := f\<rparr>) = rx_view t"
  "rx_view (t\<lparr>SentZeroWindowProbe := g\<rparr>) = rx_view t" "rx_view (t\<lparr>pkt_mem := h\<rparr>) = rx_view t"
  by (simp_all add: rx_view_def conn_view_def)

lemma rx_view_Buffer_free [simp]: "rx_view (Buffer_free p t) = rx_view t"
  by (simp add: rx_view_def conn_view_def Buffer_free_def freeBigPacket_def)

lemma rx_view_returnXmitBuf [simp]: "rx_view (returnXmitBuf b t) = rx_view t"
  by (simp add: rx_view_def conn_view_def returnXmitBuf_def)

lemma rx_view_remove_step: "rx_view (fst (remove_step i a t)) = rx_view t"
  by (auto simp: remove_step_def Let_def split: option.split
      intro!: rx_view_upd_sock simp: rx_view_upd_sock conn_sock_def rcv_sock_def srtt_update_def)

lemma rx_view_removeSentPackets [simp]: "rx_view (removeSentPackets i a t) = rx_view t"
proof (induction i a t rule: removeSentPackets.induct)
  case (1 i a t)
  then show ?case by (subst removeSentPackets.simps) (auto simp: rx_view_remove_step)
qed

lemma rx_view_enqueue [simp]: "rx_view (fst (enqueue i b t)) = rx_view t"
  by (auto simp: enqueue_def drop_queued_ack_def Let_def split_beta rx_view_upd_sock conn_sock_def rcv_sock_def split: option.split)

lemma rx_view_sendPacket:
  assumes "b_pendingArp (tbuf t b) = 0" and "\<not> sends_fin (socks t i) (tbuf t b)"
  shows "rx_view (fst (sendPacket i b t)) = rx_view t"
proof (rule rx_view_quiet)
  show "state (socks (fst (sendPacket i b t)) j) = state (socks t j)" for j
  proof (cases "j = i")
    case True
    then show ?thesis using sendPacket_socks [OF assms(1), of i] assms(2) by (simp add: fin_state_def)
  next
    case False
    then show ?thesis using sends_frame_fields(1) [OF sf_sendPacket False, of b t] by simp
  qed
qed (simp_all add: sends_frame_fields(3) [OF sf_sendPacket])

lemma rx_view_sendPureAck [simp]: "rx_view (sendPureAck i probe t) = rx_view t"
proof (cases "state (socks t i) = TCP_STATE_ESTABLISHED")
  case True
  have "\<not> sends_fin (socks t i) d" for d using True by (simp add: sends_fin_def)
  then show ?thesis
    using True by (auto simp: sendPureAck_def Let_def reset_accounting_def setForceAckOnly_def setForceProbe_def rx_view_sendPacket)
qed (simp add: sendPureAck_def)

lemma rx_view_p2 [simp]:
  "rx_view (p2_accept i g t) = rx_view t" "rx_view (p2_tail i p gen fr t) = rx_view t" "rx_view (p2_error i t) = rx_view t"
  by (auto simp: p2_accept_def p2_tail_def p2_error_def Let_def rx_view_upd_sock conn_sock_def rcv_sock_def)

section \<open>An arriving segment\<close>

text \<open>
  Socket \<open>j\<close> is the end of the connection from port \<open>sp\<close> of \<open>src\<close> to port \<open>dp\<close>: it is established, reads are
  not shut down, it has a receive buffer, and it is the first active socket that matches.
\<close>

definition conn_matches :: "IpAddr \<Rightarrow> u16 \<Rightarrow> u16 \<Rightarrow> TcpSocket \<Rightarrow> bool" where
  "conn_matches src sp dp k \<longleftrightarrow> state k \<noteq> TCP_STATE_CLOSED \<and> state k \<noteq> TCP_STATE_TIME_WAIT \<and>
     src = dstHost k \<and> sp = dstPort k \<and> dp = srcPort k"

definition conn_ends :: "nat \<Rightarrow> IpAddr \<Rightarrow> u16 \<Rightarrow> u16 \<Rightarrow> 'a tcp_state_scheme \<Rightarrow> bool" where
  "conn_ends j src sp dp t \<longleftrightarrow> state (socks t j) = TCP_STATE_ESTABLISHED \<and> \<not> disableReads (socks t j) \<and>
     find (\<lambda>i. conn_matches src sp dp (socks t i)) (map (socketTable t) [0..<unat (activeSockets t)]) = Some j"

definition rx_ok :: "nat \<Rightarrow> IpAddr \<Rightarrow> u16 \<Rightarrow> u16 \<Rightarrow> 'a tcp_state_scheme \<Rightarrow> bool" where
  "rx_ok j src sp dp t \<longleftrightarrow> rcv_wf j t \<and> conn_ends j src sp dp t"

lemma conn_ends_cong:
  assumes "conn_view t' = conn_view t"
  shows "conn_ends j src sp dp t' = conn_ends j src sp dp t"
proof -
  have c: "conn_sock (socks t' i) = conn_sock (socks t i)" for i using assms by (simp add: conn_view_def fun_eq_iff)
  have "conn_matches src sp dp (socks t' i) = conn_matches src sp dp (socks t i)" for i
    using c [of i] by (simp add: conn_sock_def conn_matches_def)
  then show ?thesis
    using assms c [of j] by (simp add: conn_ends_def conn_view_def) (simp add: conn_sock_def)
qed

lemma rx_ok_cong:
  assumes "rx_view t' = rx_view t"
  shows "rx_ok j src sp dp t' = rx_ok j src sp dp t"
  unfolding rx_ok_def rx_rcv_cong(1) [OF assms] conn_ends_cong [OF rx_viewD(1) [OF assms]] by (rule refl)

lemma owner_found:
  assumes "data_frame src sp (MyIpAddr t) dp q xs f" and "holds_frame f p t" and "conn_ends j src sp dp t"
  shows "owningSocket p t = Some j"
proof -
  note r = data_frame_received [OF assms(1,2)]
  have "sock_matches p t = conn_matches src sp dp"
    by (simp add: fun_eq_iff sock_matches_def conn_matches_def r(2-4))
  then show ?thesis using assms(3) by (simp add: owningSocket_def Let_def conn_ends_def)
qed

lemma addToRcvBuf_conn: "conn_view (fst (addToRcvBuf j m d n t)) = conn_view t"
  by (simp add: addToRcvBuf_def Let_def conn_view_def fun_eq_iff conn_sock_def)
    (simp add: heap_write_def upd_sock_def)

text \<open>Storing the data of a segment in its turn.\<close>

lemma p2_good_stores:
  fixes t :: "'a tcp_state_scheme"
  assumes "rx_ok j src sp dp t" and "data_frame src sp (MyIpAddr t) dp q xs f" and "holds_frame f p t"
    and "g = read_seg p j t"
  defines "t' \<equiv> p2_good j p g t"
  shows "rx_ok j src sp dp t' \<and> MyIpAddr t' = MyIpAddr t \<and>
    (if length xs \<le> rcv_room j t
     then rcv_contents j t' = rcv_contents j t @ xs \<and> ackNum (socks t' j) = ackNum (socks t j) + of_nat (length xs)
     else rcv_contents j t' = rcv_contents j t \<and> ackNum (socks t' j) = ackNum (socks t j))"
proof -
  define u n where "u = p2_accept j g t" and "n = (of_nat (length xs) :: u16)"
  have v: "rx_view u = rx_view t" by (simp add: u_def)
  have m: "pkt_mem u = pkt_mem t" by (simp add: u_def p2_accept_keeps)
  have h: "holds_frame f p u" using assms(3) m by (simp add: holds_frame_def)
  have fr: "data_frame src sp (MyIpAddr u) dp q xs f" using assms(2) rx_viewD(3) [OF v] by simp
  note r = data_frame_received [OF fr h, folded n_def]
  have g: "\<not> isFinSet g" "sg_len g = n"
    using data_frame_received(12,14) [OF assms(2,3)] by (simp_all add: assms(4) n_def)
  have ok: "rx_ok j src sp dp u" using assms(1) unfolding rx_ok_cong [OF v] .
  then have ku: "state (socks u j) = TCP_STATE_ESTABLISHED" "\<not> disableReads (socks u j)" "rcvBuffer (socks u j) \<noteq> None" "rcv_wf j u"
    by (auto simp: rx_ok_def conn_ends_def rcv_wf_def Let_def)
  define a where "a = addToRcvBuf j (pkt_mem u p) (pk_tcp_off p u + unat (getTcpHlen (pk_tcp p u))) n u"
  have pd: "processPacketData j n p u = (if snd a = 0
      then (upd_sock j (\<lambda>k. k\<lparr>ackNum := ackNum k + ucast n\<rparr>) (fst a), True, False)
      else ((fst a)\<lparr>Packets_DroppedNoSpace := Packets_DroppedNoSpace (fst a) + 1\<rparr>, True, True))"
    using ku by (auto simp: processPacketData_def Let_def r(6) a_def split_beta)
  have len: "unat n = length xs" "n \<noteq> 0" using r(7,8) by simp_all
  have un: "(ucast n :: u32) = of_nat (length xs)" by (rule word_eq_of_nat) (simp add: len(1))
  have roomu: "rcv_room j u = rcv_room j t" using rx_rcv_cong(3) [OF v] .
  note vt = rx_rcv_cong [OF v] rx_viewD [OF v]
  show ?thesis
  proof (cases "length xs \<le> rcv_room j t")
    case False
    then have full: "a = (u, -1)" using addToRcvBuf_full [OF ku(4)] roomu len by (simp add: a_def)
    then have "t' = Buffer_free p (u\<lparr>Packets_DroppedNoSpace := Packets_DroppedNoSpace u + 1\<rparr>)"
      using len(2) g(2) pd by (simp add: t'_def p2_good_def u_def [symmetric] Let_def)
    then have w: "rx_view t' = rx_view t" using v by simp
    show ?thesis using False rx_ok_cong [OF w] assms(1) rx_rcv_cong [OF w] rx_viewD [OF w] by simp
  next
    case True
    have st: "rcv_wf j (fst a) \<and> snd a = 0 \<and> rcv_contents j (fst a) = rcv_contents j u @ xs"
      using addToRcvBuf_room [OF ku(4)] True roomu len r(9) by (simp add: a_def)
    define w where "w = upd_sock j (\<lambda>k. k\<lparr>ackNum := ackNum k + ucast n\<rparr>) (fst a)"
    have cw: "conn_view w = conn_view (fst a)"
      by (simp add: w_def conn_view_def fun_eq_iff conn_sock_def) (simp add: upd_sock_def)
    have cv: "conn_view w = conn_view u" using cw by (simp add: a_def addToRcvBuf_conn)
    have rw: "rcv_wf j w" "rcv_contents j w = rcv_contents j u @ xs"
      using st by (simp_all add: w_def rcv_wf_def rcv_contents_def Let_def)
    have aw: "ackNum (socks w j) = ackNum (socks u j) + of_nat (length xs)"
      using addToRcvBuf_dead(3) [of j "pkt_mem u p" "pk_tcp_off p u + unat (getTcpHlen (pk_tcp p u))" n u j]
      by (simp add: w_def a_def un)
    have okw: "rx_ok j src sp dp w" using rw(1) conn_ends_cong [OF cv] ok by (simp add: rx_ok_def)
    then have "state (socks w j) = TCP_STATE_ESTABLISHED" by (simp add: rx_ok_def conn_ends_def)
    then have sw: "p2_switch j p g gen w = (w, gen)" for gen using g(1) by (simp add: p2_switch_def Let_def)
    have "t' = p2_tail j p (rb_entries (outgoing (socks w j)) = 0) True w"
      using len(2) g(2) pd st by (simp add: t'_def p2_good_def u_def [symmetric] Let_def w_def [symmetric] sw)
    then have x: "rx_view t' = rx_view w" by simp
    have "MyIpAddr w = MyIpAddr u" using cv by (simp add: conn_view_def)
    then show ?thesis
      using True rx_ok_cong [OF x] okw rx_rcv_cong [OF x] rx_viewD [OF x] rw aw vt by simp
  qed
qed

text \<open>The segment is taken when it is the next one, acknowledges properly and fits.\<close>

definition in_turn :: "nat \<Rightarrow> u32 \<Rightarrow> nat \<Rightarrow> bufref \<Rightarrow> 'a tcp_state_scheme \<Rightarrow> bool" where
  "in_turn j q n p t \<longleftrightarrow> q = ackNum (socks t j) \<and> ack_proper (socks t j) (read_seg p j t) \<and> n \<le> rcv_room j t"

lemma Tcp_process_data:
  fixes t :: "'a tcp_state_scheme"
  assumes "rx_ok j src sp dp t" and "data_frame src sp (MyIpAddr t) dp q xs f" and "holds_frame f p t"
  obtains t' where "Tcp_process p t = Some t'" and "rx_ok j src sp dp t'" and "MyIpAddr t' = MyIpAddr t"
    and "rcv_contents j t' = (if in_turn j q (length xs) p t then rcv_contents j t @ xs else rcv_contents j t)"
    and "ackNum (socks t' j) = (if in_turn j q (length xs) p t then ackNum (socks t j) + of_nat (length xs)
      else ackNum (socks t j))"
proof -
  define t1 where "t1 = t\<lparr>Tcp_Packets_Received := Tcp_Packets_Received t + 1\<rparr>"
  define t2 where "t2 = upd_sock j (\<lambda>k. k\<lparr>lastActivity := Timer_CurrentTicks t1\<rparr>) t1"
  define g where "g = read_seg p j t"
  have v: "rx_view t1 = rx_view t" "rx_view t2 = rx_view t"
    by (simp_all add: t1_def t2_def rx_view_upd_sock conn_sock_def rcv_sock_def)
  have m: "pkt_mem t1 = pkt_mem t" "pkt_mem t2 = pkt_mem t" by (simp_all add: t1_def t2_def)
  have h: "holds_frame f p t1" "holds_frame f p t2" using assms(3) m by (simp_all add: holds_frame_def)
  have d: "data_frame src sp (MyIpAddr t1) dp q xs f" "data_frame src sp (MyIpAddr t2) dp q xs f"
    using assms(2) rx_viewD(3) [OF v(1)] rx_viewD(3) [OF v(2)] by simp_all
  have ok: "rx_ok j src sp dp t1" "rx_ok j src sp dp t2"
    using assms(1) unfolding rx_ok_cong [OF v(1)] rx_ok_cong [OF v(2)] by blast+
  have st: "state (socks t2 j) = TCP_STATE_ESTABLISHED" "state (socks t j) = TCP_STATE_ESTABLISHED"
    using ok(2) assms(1) by (simp_all add: rx_ok_def conn_ends_def)
  have g2: "g = read_seg p j t2" "read_seg p j t1 = g"
    by (simp_all add: g_def t2_def) (simp_all add: t1_def read_seg_def Let_def pk_tcp_def pk_tcp_off_def pk_ip_def incomingDataLen_def)
  have k2: "socks t2 j = (socks t j)\<lparr>lastActivity := Timer_CurrentTicks t1\<rparr>" by (simp add: t2_def t1_def)
  have gr: "\<not> isRstSet g" "sg_seq g = q" using data_frame_received(11,13) [OF assms(2,3)] by (simp_all add: g_def)
  have sq: "seq_proper (socks t2 j) g \<longleftrightarrow> q = ackNum (socks t j)" "ack_proper (socks t2 j) g = ack_proper (socks t j) g"
    using st gr(2) by (simp_all add: seq_proper_def k2 touch_seg)
  have "owningSocket p t1 = Some j" by (rule owner_found [OF d(1) h(1)]) (use ok(1) in \<open>simp add: rx_ok_def\<close>)
  then have "Tcp_process p t = process2 p j t1"
    using data_frame_received(1) [OF assms(2,3)] by (simp add: Tcp_process_def Let_def t1_def)
  also have "process2 p j t1 = Some (p2_synchronized j p g t2)"
    using st(1) by (simp add: process2_def Let_def t2_def [symmetric] g2(1) [symmetric])
  finally have pr: "Tcp_process p t = Some (p2_synchronized j p g t2)" .
  note r2 = rx_rcv_cong [OF v(2), where i = j] and a2 = rx_viewD(3,11) [OF v(2)]
  show thesis
  proof (cases "q = ackNum (socks t j) \<and> ack_proper (socks t j) g")
    case True
    then have e: "p2_synchronized j p g t2 = p2_good j p g t2" using gr(1) sq by (simp add: p2_synchronized_def Let_def)
    have "in_turn j q (length xs) p t \<longleftrightarrow> length xs \<le> rcv_room j t2" using True r2(3) by (simp add: in_turn_def g_def)
    then show thesis
      using p2_good_stores [OF ok(2) d(2) h(2) g2(1)] that [OF pr] r2 a2 unfolding e by simp
  next
    case False
    then have "p2_synchronized j p g t2 = p2_tail j p False True (p2_error j t2)"
      using gr(1) sq by (auto simp: p2_synchronized_def Let_def)
    then have w: "rx_view (p2_synchronized j p g t2) = rx_view t" using v(2) by simp
    have "\<not> in_turn j q (length xs) p t" using False by (auto simp: in_turn_def g_def)
    then show thesis
      using that [OF pr] assms(1) rx_ok_cong [OF w] rx_rcv_cong [OF w] rx_viewD(3,11) [OF w] by simp
  qed
qed

lemma recv_keeps:
  assumes "rx_ok j src sp dp t"
  shows "rx_ok j src sp dp (fst (recv j n t))" and "MyIpAddr (fst (recv j n t)) = MyIpAddr t"
    and "ackNum (socks (fst (recv j n t)) j) = ackNum (socks t j)"
    and "snd (snd (recv j n t)) @ rcv_contents j (fst (recv j n t)) = rcv_contents j t"
proof -
  note r = recv_spec [OF conjunct1 [OF assms [unfolded rx_ok_def]], of n]
  have c: "conn_view (fst (recv_copy j c t)) = conn_view t" "ackNum (socks (fst (recv_copy j c t)) j) = ackNum (socks t j)" for c
    by (simp_all add: recv_copy_def Let_def conn_view_def fun_eq_iff conn_sock_def) (simp add: upd_sock_def)
  have p: "conn_view (sendPureAck j False u) = conn_view u" "ackNum (socks (sendPureAck j False u) j) = ackNum (socks u j)"
    for u :: "'a tcp_state_scheme"
    using rx_viewD(1,11) [OF rx_view_sendPureAck [of j False u]] by simp_all
  have w: "conn_view (u\<lparr>OurWindowReopened := x\<rparr>) = conn_view u" for u :: "'a tcp_state_scheme" and x
    by (simp add: conn_view_def)
  have e: "conn_view (fst (recv j n t)) = conn_view t \<and> ackNum (socks (fst (recv j n t)) j) = ackNum (socks t j)"
    by (auto simp: recv_def Let_def split_beta c p w)
  then show "rx_ok j src sp dp (fst (recv j n t))"
    using r assms conn_ends_cong [of "fst (recv j n t)" t] by (simp add: rx_ok_def)
  show "MyIpAddr (fst (recv j n t)) = MyIpAddr t" "ackNum (socks (fst (recv j n t)) j) = ackNum (socks t j)"
    using e by (simp_all add: conn_view_def)
  show "snd (snd (recv j n t)) @ rcv_contents j (fst (recv j n t)) = rcv_contents j t" using r by simp
qed

section \<open>Two hosts and a network\<close>

text \<open>
  \<open>sent_bytes\<close> are the bytes handed to \<^verbatim>\<open>sendPacket\<close> so far, \<open>read_bytes\<close> those \<^verbatim>\<open>recv\<close> returned on the other side;
  the network may deliver any frame of \<open>net_frames\<close>, at any time, any number of times or never.
\<close>

record ('s, 't) link =
  tx :: 's
  rx :: 't
  sent_bytes :: "u8 list"
  net_frames :: "frame set"
  read_bytes :: "u8 list"

definition tx_view :: "nat \<Rightarrow> 'a tcp_state_scheme \<Rightarrow> IpAddr \<times> u16 \<times> IpAddr \<times> u16 \<times> u32" where
  "tx_view i s = (let k = socks s i in (MyIpAddr s, srcPort k, dstHost k, dstPort k, seqNum k))"

text \<open>
  The sender sends new data, retransmits a segment or sends one whose address has been resolved; anything
  else it does keeps its end of the connection (\<open>tx_view\<close>).  On the other side a frame is in a buffer that is
  processed, damaged frames come in, the application reads, and anything else keeps the receive side (\<open>rx_view\<close>).
\<close>

inductive link_step ::
    "nat \<Rightarrow> nat \<Rightarrow> ('a tcp_state_scheme, 'b tcp_state_scheme) link \<Rightarrow> ('a tcp_state_scheme, 'b tcp_state_scheme) link \<Rightarrow> bool"
  for i j where
  new_data: "sends_data i b (tx l) \<Longrightarrow> s' = fst (sendPacket i b (tx l)) \<Longrightarrow>
    link_step i j l (l\<lparr>tx := s', sent_bytes := sent_bytes l @ seg_data b (tx l),
      net_frames := insert (tcp_frame (tbuf s' b)) (net_frames l)\<rparr>)"
| again: "tcp_frame (tbuf (tx l) b) \<in> net_frames l \<Longrightarrow> b_packetLen (tbuf (tx l) b) = 54 + b_dataLen (tbuf (tx l) b) \<Longrightarrow>
    s' = resendPacket i b (tx l) \<Longrightarrow> link_step i j l (l\<lparr>tx := s', net_frames := insert (tcp_frame (tbuf s' b)) (net_frames l)\<rparr>)"
| resolved: "tcp_frame (tbuf (tx l) b) \<in> net_frames l \<Longrightarrow> s' = fst (sp_retry_arp i b (tx l)) \<Longrightarrow>
    link_step i j l (l\<lparr>tx := s', net_frames := insert (tcp_frame (tbuf s' b)) (net_frames l)\<rparr>)"
| tx_other: "tx_view i s' = tx_view i (tx l) \<Longrightarrow> link_step i j l (l\<lparr>tx := s'\<rparr>)"
| arrives: "f \<in> net_frames l \<Longrightarrow> holds_frame f p (rx l) \<Longrightarrow> Tcp_process p (rx l) = Some t' \<Longrightarrow> link_step i j l (l\<lparr>rx := t'\<rparr>)"
| damaged: "\<not> tcp_checksum_ok p (rx l) \<Longrightarrow> Tcp_process p (rx l) = Some t' \<Longrightarrow> link_step i j l (l\<lparr>rx := t'\<rparr>)"
| reads: "recv j n (rx l) = (t', rc, xs) \<Longrightarrow> link_step i j l (l\<lparr>rx := t', read_bytes := read_bytes l @ xs\<rparr>)"
| rx_other: "rx_view t' = rx_view (rx l) \<Longrightarrow> link_step i j l (l\<lparr>rx := t'\<rparr>)"

text \<open>The two ends of a connection before any data.\<close>

definition paired :: "nat \<Rightarrow> nat \<Rightarrow> 'a tcp_state_scheme \<Rightarrow> 'b tcp_state_scheme \<Rightarrow> bool" where
  "paired i j s t \<longleftrightarrow> (let k = socks s i in
     rx_ok j (MyIpAddr s) (srcPort k) (dstPort k) t \<and> dstHost k = MyIpAddr t \<and> seqNum k = ackNum (socks t j))"

definition new_link :: "'s \<Rightarrow> 't \<Rightarrow> ('s, 't) link" where
  "new_link s t = \<lparr>tx = s, rx = t, sent_bytes = [], net_frames = {}, read_bytes = []\<rparr>"

definition delivered :: "nat \<Rightarrow> ('s, 'b tcp_state_scheme) link \<Rightarrow> u8 list" where
  "delivered j l = read_bytes l @ rcv_contents j (rx l)"

definition part_of :: "u32 \<Rightarrow> IpAddr \<Rightarrow> u16 \<Rightarrow> IpAddr \<Rightarrow> u16 \<Rightarrow> u8 list \<Rightarrow> frame \<Rightarrow> bool" where
  "part_of a src sp dst dp str f \<longleftrightarrow> (\<exists>off xs. data_frame src sp dst dp (a + of_nat off) xs f \<and>
     off + length xs \<le> length str \<and> xs = take (length xs) (drop off str))"

definition tx_inv :: "u32 \<Rightarrow> IpAddr \<Rightarrow> u16 \<Rightarrow> IpAddr \<Rightarrow> u16 \<Rightarrow> nat \<Rightarrow> ('a tcp_state_scheme, 't) link \<Rightarrow> bool" where
  "tx_inv a src sp dst dp i l \<longleftrightarrow> tx_view i (tx l) = (src, sp, dst, dp, a + of_nat (length (sent_bytes l))) \<and>
     (\<forall>f\<in>net_frames l. part_of a src sp dst dp (sent_bytes l) f)"

definition rx_inv :: "u32 \<Rightarrow> IpAddr \<Rightarrow> u16 \<Rightarrow> IpAddr \<Rightarrow> u16 \<Rightarrow> nat \<Rightarrow> ('s, 'b tcp_state_scheme) link \<Rightarrow> bool" where
  "rx_inv a src sp dst dp j l \<longleftrightarrow> rx_ok j src sp dp (rx l) \<and> MyIpAddr (rx l) = dst \<and>
     ackNum (socks (rx l) j) = a + of_nat (length (delivered j l)) \<and> prefix (delivered j l) (sent_bytes l)"

lemma part_of_more: "part_of a src sp dst dp str f \<Longrightarrow> part_of a src sp dst dp (str @ zs) f"
  unfolding part_of_def by (elim exE conjE, intro exI conjI, assumption) auto

lemma sendPacket_tx:
  assumes "sends_data i b s"
  shows "tx_view i (fst (sendPacket i b s)) = (let k = socks s i in
    (MyIpAddr s, srcPort k, dstHost k, dstPort k, seqNum k + of_nat (length (seg_data b s))))"
proof -
  have a: "b_pendingArp (tbuf s b) = 0" "state (socks s i) = TCP_STATE_ESTABLISHED" using assms by (simp_all add: sends_data_def)
  have "(ucast (b_dataLen (tbuf s b)) :: u32) = of_nat (length (seg_data b s))"
    by (rule word_eq_of_nat) (simp add: seg_data_def)
  then show ?thesis
    using a by (simp add: tx_view_def Let_def sendPacket_fields sendPacket_socks sends_syn_def sends_fin_def)
qed

lemma tx_step:
  assumes "link_step i j l l'" and "tx_inv a src sp dst dp i l"
  shows "tx_inv a src sp dst dp i l'"
  using assms
proof (cases rule: link_step.cases)
  case (new_data b s')
  let ?k = "socks (tx l) i" and ?n = "length (sent_bytes l)" and ?xs = "seg_data b (tx l)"
  have k: "MyIpAddr (tx l) = src" "srcPort ?k = sp" "dstHost ?k = dst" "dstPort ?k = dp" "seqNum ?k = a + of_nat ?n"
    using assms(2) by (simp_all add: tx_inv_def tx_view_def Let_def)
  have "part_of a src sp dst dp (sent_bytes l @ ?xs) (tcp_frame (tbuf s' b))"
    unfolding part_of_def
    by (rule exI [of _ ?n], rule exI [of _ ?xs]) (use sendPacket_data_frame [OF new_data(2)] in \<open>simp add: k new_data(3)\<close>)
  then show ?thesis
    using assms(2) sendPacket_tx [OF new_data(2)] part_of_more
    by (auto simp: tx_inv_def new_data(1,3) k Let_def add.assoc)
next
  case (again b s')
  have "part_of a src sp dst dp (sent_bytes l) (tcp_frame (tbuf (tx l) b))" using assms(2) again(2) by (simp add: tx_inv_def)
  moreover have "MyIpAddr (tx l) = src" using assms(2) by (simp add: tx_inv_def tx_view_def Let_def)
  ultimately have "part_of a src sp dst dp (sent_bytes l) (tcp_frame (tbuf s' b))"
    unfolding part_of_def again(4) using resendPacket_data_frame [OF _ again(3), of sp dst dp _ _ i] by blast
  moreover have "tx_view i s' = tx_view i (tx l)"
    using quiet_fields(12) [OF quiet_resendPacket [of i b "tx l"]] by (simp add: tx_view_def again(4))
  ultimately show ?thesis using assms(2) by (simp add: tx_inv_def again(1))
next
  case (resolved b s')
  obtain u r where u: "setDestEth (ip_dest (b_ip (tbuf (tx l) b))) (tx l) = (u, r)" by force
  have su: "socks u = socks (tx l)" "tbuf u = tbuf (tx l)" using setDestEth_socks [of "ip_dest (b_ip (tbuf (tx l) b))" "tx l"] u by simp_all
  have "\<exists>e. tcp_frame (tbuf s' b) = (case tcp_frame (tbuf (tx l) b) of TcpFrame eh ip tcp xs \<Rightarrow> TcpFrame e ip tcp xs)"
    by (cases r) (simp_all add: resolved(3) sp_retry_arp_def u su Let_def tcp_frame_def)
  then have "data_frame src sp dst dp q xs (tcp_frame (tbuf s' b)) = data_frame src sp dst dp q xs (tcp_frame (tbuf (tx l) b))" for q xs
    by (auto simp: data_frame_def tcp_frame_def)
  then have "part_of a src sp dst dp (sent_bytes l) (tcp_frame (tbuf s' b))"
    using assms(2) resolved(2) by (simp add: tx_inv_def part_of_def)
  moreover have "tx_view i s' = tx_view i (tx l)"
    using quiet_fields(12) [OF quiet_sp_retry_arp [of i b "tx l"]]
    by (cases r) (simp_all add: tx_view_def resolved(3) sp_retry_arp_def u su Let_def)
  ultimately show ?thesis using assms(2) by (simp add: tx_inv_def resolved(1))
qed (use assms(2) in \<open>auto simp: tx_inv_def\<close>)

lemma sent_grows: "link_step i j l l' \<Longrightarrow> length (sent_bytes l) \<le> length (sent_bytes l')"
  by (auto elim: link_step.cases)

lemma of_nat_u32: "n < 2 ^ 32 \<Longrightarrow> unat (of_nat n :: u32) = n"
  by (simp add: unat_of_nat)

text \<open>Sequence numbers tell apart the positions of a stream of less than \<open>2 ^ 32\<close> bytes.\<close>

lemma next_part:
  assumes "prefix del str" and "length str < 2 ^ 32" and "a + of_nat off = a + (of_nat (length del) :: u32)"
    and "off + length xs \<le> length str" and "xs = take (length xs) (drop off str)"
  shows "prefix (del @ xs) str"
proof -
  have "length del \<le> length str" using assms(1) by (rule prefix_length_le)
  then have "unat (of_nat off :: u32) = off" "unat (of_nat (length del) :: u32) = length del"
    using assms(2,4) by (auto intro!: of_nat_u32)
  then have off: "off = length del" using assms(3) by (metis add_left_cancel)
  have "del = take (length del) str" using assms(1) by (auto simp: prefix_def)
  then have "del @ xs = take (length del + length xs) str" using assms(5) unfolding off take_add by metis
  then show ?thesis by (metis take_is_prefix)
qed

lemma rx_unchanged:
  assumes "rx_inv a src sp dst dp j l" and "rx_view (rx l') = rx_view (rx l)" and "read_bytes l' = read_bytes l"
    and "prefix (sent_bytes l) (sent_bytes l')"
  shows "rx_inv a src sp dst dp j l'"
proof -
  have d: "delivered j l' = delivered j l" by (simp add: delivered_def assms(3) rx_rcv_cong(2) [OF assms(2)])
  show ?thesis
    using assms(1) rx_ok_cong [OF assms(2), of j src sp dp] rx_viewD(3,11) [OF assms(2)] assms(4)
    unfolding rx_inv_def d by (auto intro: prefix_order.trans)
qed

lemma rx_step:
  assumes "link_step i j l l'" and "tx_inv a src sp dst dp i l" and "rx_inv a src sp dst dp j l"
    and "length (sent_bytes l') < 2 ^ 32"
  shows "rx_inv a src sp dst dp j l'"
  using assms(1)
proof (cases rule: link_step.cases)
  case (arrives f p t')
  have ok: "rx_ok j src sp dp (rx l)" and dst: "MyIpAddr (rx l) = dst" using assms(3) by (simp_all add: rx_inv_def)
  obtain off xs where f: "data_frame src sp dst dp (a + of_nat off) xs f" "off + length xs \<le> length (sent_bytes l)"
    "xs = take (length xs) (drop off (sent_bytes l))"
    using assms(2) arrives(2) by (auto simp: tx_inv_def part_of_def)
  obtain t where t: "Tcp_process p (rx l) = Some t" "rx_ok j src sp dp t" "MyIpAddr t = MyIpAddr (rx l)"
    "rcv_contents j t = (if in_turn j (a + of_nat off) (length xs) p (rx l) then rcv_contents j (rx l) @ xs else rcv_contents j (rx l))"
    "ackNum (socks t j) = (if in_turn j (a + of_nat off) (length xs) p (rx l) then ackNum (socks (rx l) j) + of_nat (length xs)
      else ackNum (socks (rx l) j))"
    by (rule Tcp_process_data [OF ok f(1) [folded dst] arrives(3)])
  have l': "l' = l\<lparr>rx := t\<rparr>" using arrives(1,4) t(1) by simp
  have inv: "ackNum (socks (rx l) j) = a + of_nat (length (delivered j l))" "prefix (delivered j l) (sent_bytes l)"
    using assms(3) by (simp_all add: rx_inv_def)
  show ?thesis
  proof (cases "in_turn j (a + of_nat off) (length xs) p (rx l)")
    case True
    then have d: "delivered j l' = delivered j l @ xs" using t(4) by (simp add: delivered_def l')
    have "a + of_nat off = a + (of_nat (length (delivered j l)) :: u32)" using True inv(1) by (simp add: in_turn_def)
    then have "prefix (delivered j l @ xs) (sent_bytes l)"
      using next_part [OF inv(2) _ _ f(2,3), of a] assms(4) by (simp add: l')
    then show ?thesis using True t dst inv(1) unfolding rx_inv_def d by (simp add: l' add.assoc)
  next
    case False
    then have "delivered j l' = delivered j l" using t(4) by (simp add: delivered_def l')
    then show ?thesis using False t dst inv unfolding rx_inv_def by (simp add: l')
  qed
next
  case (damaged p t')
  have "rx_view t' = rx_view (rx l)" using damaged(2,3) by (auto simp: Tcp_process_def)
  then show ?thesis by (intro rx_unchanged [OF assms(3)]) (simp_all add: damaged(1))
next
  case (reads n t' rc xs)
  have ok: "rx_ok j src sp dp (rx l)" using assms(3) by (simp add: rx_inv_def)
  note r = recv_keeps [OF ok, of n, unfolded reads(2) fst_conv snd_conv]
  have "delivered j l' = delivered j l" using r(4) by (simp add: delivered_def reads(1))
  then show ?thesis using assms(3) r unfolding rx_inv_def by (simp add: reads(1))
next
  case (rx_other t')
  then show ?thesis by (intro rx_unchanged [OF assms(3)]) simp_all
qed (rule rx_unchanged [OF assms(3)]; simp)+

lemma link_inv:
  assumes "(link_step i j)\<^sup>*\<^sup>* (new_link s t) l" and "paired i j s t" and "rcv_contents j t = []" and "length (sent_bytes l) < 2 ^ 32"
  defines "k \<equiv> socks s i"
  shows "tx_inv (seqNum k) (MyIpAddr s) (srcPort k) (dstHost k) (dstPort k) i l \<and>
    rx_inv (seqNum k) (MyIpAddr s) (srcPort k) (dstHost k) (dstPort k) j l"
  using assms(1,4)
proof (induction rule: rtranclp_induct)
  case base
  then show ?case
    using assms(2,3) by (simp add: paired_def Let_def k_def tx_inv_def rx_inv_def new_link_def tx_view_def delivered_def)
next
  case (step l l')
  then have "length (sent_bytes l) < 2 ^ 32" using sent_grows [OF step(2)] by linarith
  then show ?case using step tx_step rx_step by blast
qed

lemma segment_taken:
  assumes "paired i j s t" and "sends_data i b s" and "s' = fst (sendPacket i b s)"
    and "holds_frame (tcp_frame (tbuf s' b)) p t"
    and "unat (b_dataLen (tbuf s b)) \<le> rcv_room j t" and "oldestUnackedSeq (socks t j) = seqNum (socks t j)"
  shows "\<exists>t'. Tcp_process p t = Some t' \<and> rcv_contents j t' = rcv_contents j t @ seg_data b s \<and>
    ackNum (socks t' j) = seqNum (socks s' i) \<and> paired i j s' t'"
proof -
  let ?k = "socks s i" and ?xs = "seg_data b s"
  have k: "rx_ok j (MyIpAddr s) (srcPort ?k) (dstPort ?k) t" "dstHost ?k = MyIpAddr t" "seqNum ?k = ackNum (socks t j)"
    using assms(1) by (simp_all add: paired_def Let_def)
  note f = sendPacket_data_frame [OF assms(2), folded assms(3), unfolded k(2)]
  have ack: "ack_proper (socks t j) (read_seg p j t)"
    using data_frame_received(10) [OF f assms(4)] assms(6) by (simp add: ack_proper_def) (metis linear)
  have "in_turn j (seqNum ?k) (length ?xs) p t" using ack k(3) assms(5) by (simp add: in_turn_def seg_data_def)
  then obtain t' where t': "Tcp_process p t = Some t'" "rx_ok j (MyIpAddr s) (srcPort ?k) (dstPort ?k) t'"
    "MyIpAddr t' = MyIpAddr t" "rcv_contents j t' = rcv_contents j t @ ?xs"
    "ackNum (socks t' j) = ackNum (socks t j) + of_nat (length ?xs)"
    using Tcp_process_data [OF k(1) f assms(4)] by metis
  have "tx_view i s' = (MyIpAddr s, srcPort ?k, dstHost ?k, dstPort ?k, seqNum ?k + of_nat (length ?xs))"
    using sendPacket_tx [OF assms(2)] by (simp add: assms(3) Let_def)
  then have "paired i j s' t'" "ackNum (socks t' j) = seqNum (socks s' i)"
    using t'(2,3,5) k(2,3) by (simp_all add: paired_def tx_view_def Let_def)
  then show ?thesis using t'(1,4) by blast
qed

text \<open>
  TCP delivers the bytes of a connection in order and once: from two connected hosts on, however segments are
  lost, duplicated, delayed, reordered or damaged, retransmitted and acknowledged, and however the application
  reads, the bytes read followed by the bytes in the receive buffer are a prefix of the bytes sent, and
  the acknowledgement number is the sequence number behind them.  The stream has less than \<open>2 ^ 32\<close> bytes.
\<close>

lemma tcp_stream_delivered_in_order:
  assumes "paired i j s t" and "rcv_contents j t = []"
    and "(link_step i j)\<^sup>*\<^sup>* (new_link s t) l" and "length (sent_bytes l) < 2 ^ 32"
  shows "prefix (read_bytes l @ rcv_contents j (rx l)) (sent_bytes l) \<and> rcv_wf j (rx l) \<and>
    ackNum (socks (rx l) j) = seqNum (socks s i) + of_nat (length (read_bytes l @ rcv_contents j (rx l)))"
  using link_inv [OF assms(3,1,2,4)] unfolding rx_inv_def delivered_def rx_ok_def by blast

section \<open>Properties\<close>

text \<open>
  The host of \<open>demo_send\<close> and its peer, with an empty receive buffer whose ring is about to wrap.
\<close>

definition demo_host :: tcp_state where
  "demo_host = demo_send\<lparr>MyIpAddr := (10, 0, 0, 1)\<rparr>"

definition demo_peer :: tcp_state where
  "demo_peer = (upd_sock 0 (\<lambda>k. k\<lparr>state := TCP_STATE_ESTABLISHED, ackNum := 1000, seqNum := 77, oldestUnackedSeq := 77,
     srcPort := 6667, dstPort := 1025, dstHost := (10, 0, 0, 1), rcvBuffer := Some 0, rcvBufSize := 512,
     rcvBufFirst := 510, rcvBufLast := 510\<rparr>) zero_tcp_state)\<lparr>MyIpAddr := (10, 0, 0, 2), activeSockets := 1\<rparr>"

lemma demo_host_ports: "srcPort (socks demo_host 0) = 1025" "dstPort (socks demo_host 0) = 6667"
  "dstHost (socks demo_host 0) = (10, 0, 0, 2)" "seqNum (socks demo_host 0) = 1000" "MyIpAddr demo_host = (10, 0, 0, 1)"
  by (simp_all add: demo_host_def demo_send_def)

lemma demo_peer_fields:
  "socks demo_peer 0 = zero_socket\<lparr>state := TCP_STATE_ESTABLISHED, ackNum := 1000, seqNum := 77, oldestUnackedSeq := 77,
     srcPort := 6667, dstPort := 1025, dstHost := (10, 0, 0, 1), rcvBuffer := Some 0, rcvBufSize := 512,
     rcvBufFirst := 510, rcvBufLast := 510\<rparr>"
  "MyIpAddr demo_peer = (10, 0, 0, 2)" "activeSockets demo_peer = 1" "socketTable demo_peer 0 = 0"
  by (simp_all add: demo_peer_def) (simp_all add: upd_sock_def zero_state)

lemma demo_paired: "paired 0 0 demo_host demo_peer" "rcv_contents 0 demo_peer = []" "rcv_room 0 demo_peer = 512"
  "oldestUnackedSeq (socks demo_peer 0) = seqNum (socks demo_peer 0)"
  by (simp_all add: paired_def Let_def demo_peer_fields demo_host_ports rx_ok_def rcv_wf_def conn_ends_def conn_matches_def
      rcv_contents_def ring_bytes_def rcv_room_def zero_socket_def)

lemma demo_sends: "sends_data 0 (XmitBuffer 0) demo_host" "seg_data (XmitBuffer 0) demo_host = [65, 66, 67, 68, 69]"
  by (simp_all add: sends_data_def demo_host_def demo_send_buf demo_send_sock isForceProbe_def seg_data_def rdbytes_def upt_rec)
    (simp_all add: demo_send_def)

lemma demo_host_len: "b_dataLen (tbuf demo_host (XmitBuffer 0)) = 5"
  by (simp add: demo_host_def demo_send_buf)

definition demo_arrived :: tcp_state where
  "demo_arrived = demo_peer\<lparr>pkt_mem := (\<lambda>_. mem_of (frame_bytes (tcp_frame
     (tbuf (fst (sendPacket 0 (XmitBuffer 0) demo_host)) (XmitBuffer 0)))))\<rparr>"

lemma demo_arrived_paired:
  "holds_frame (tcp_frame (tbuf (fst (sendPacket 0 (XmitBuffer 0) demo_host)) (XmitBuffer 0))) (PoolBuf 0) demo_arrived"
  "paired 0 0 demo_host demo_arrived" "rcv_contents 0 demo_arrived = []" "rcv_room 0 demo_arrived = 512"
  "oldestUnackedSeq (socks demo_arrived 0) = seqNum (socks demo_arrived 0)"
proof -
  have v: "rx_view demo_arrived = rx_view demo_peer" by (simp add: demo_arrived_def)
  show "holds_frame (tcp_frame (tbuf (fst (sendPacket 0 (XmitBuffer 0) demo_host)) (XmitBuffer 0))) (PoolBuf 0) demo_arrived"
    by (simp add: holds_frame_def demo_arrived_def mem_of_def)
  show "paired 0 0 demo_host demo_arrived" "rcv_contents 0 demo_arrived = []" "rcv_room 0 demo_arrived = 512"
    using demo_paired rx_ok_cong [OF v] rx_viewD(3,11) [OF v] rx_rcv_cong [OF v] by (simp_all add: paired_def Let_def)
  show "oldestUnackedSeq (socks demo_arrived 0) = seqNum (socks demo_arrived 0)"
    using demo_paired(4) by (simp add: demo_arrived_def)
qed



end
