(* ===== verification/TcpTransfer.thy ===== *)
theory TcpTransfer
  imports EndToEnd "HOL-Library.Multiset"
begin

text \<open>
  The sender of \<open>EndToEnd\<close> run by its code: \<^verbatim>\<open>send\<close> queues the bytes of the application, \<^verbatim>\<open>drivePackets2\<close> transmits and
  retransmits, \<^verbatim>\<open>removeSentPackets\<close> takes what is acknowledged.  What \<^verbatim>\<open>recv\<close> returns on the other host is a
  prefix of what \<^verbatim>\<open>send\<close> accepted.
\<close>

unbundle bit_operations_syntax

section \<open>The queues of a sender\<close>

text \<open>The bytes of a queued buffer that have not been handed to the network: none once it waits for ARP.\<close>

definition queued :: "'a tcp_state_scheme \<Rightarrow> bref \<Rightarrow> u8 list" where
  "queued s p = (if b_pendingArp (tbuf s p) = 0 then seg_data p s else [])"

definition waiting :: "nat \<Rightarrow> 'a tcp_state_scheme \<Rightarrow> u8 list" where
  "waiting i s = concat (map (queued s) (rb_list (outgoing (socks s i))))"

text \<open>A buffer that holds a segment of the network.\<close>

definition sent_seg :: "frame set \<Rightarrow> 'a tcp_state_scheme \<Rightarrow> bref \<Rightarrow> bool" where
  "sent_seg N s p \<longleftrightarrow> tcp_frame (tbuf s p) \<in> N \<and> b_packetLen (tbuf s p) = 54 + b_dataLen (tbuf s p)"

definition out_seg :: "frame set \<Rightarrow> 'a tcp_state_scheme \<Rightarrow> bref \<Rightarrow> bool" where
  "out_seg N s p \<longleftrightarrow> \<not> isForceProbe (tbuf s p) \<and> unat (b_dataLen (tbuf s p)) \<le> 65481 \<and>
     (b_pendingArp (tbuf s p) \<noteq> 0 \<longrightarrow> b_packetLen (tbuf s p) = 54 + b_dataLen (tbuf s p) \<and>
        (if b_dataLen (tbuf s p) = 0 then wasAckOnly (tbuf s p) else sent_seg N s p))"

definition buffers :: "nat \<Rightarrow> 'a tcp_state_scheme \<Rightarrow> bref list" where
  "buffers i s = xmit_free s @ rb_list (outgoing (socks s i)) @ rb_list (sent (socks s i))"

definition sender_ok :: "nat \<Rightarrow> frame set \<Rightarrow> 'a tcp_state_scheme \<Rightarrow> bool" where
  "sender_ok i N s \<longleftrightarrow>
     state (socks s i) = TCP_STATE_ESTABLISHED \<and> unat (maxEnqueueSize (socks s i)) \<le> 65481 \<and>
     rb_wf (outgoing (socks s i)) \<and> rb_wf (sent (socks s i)) \<and>
     distinct (buffers i s) \<and> StackBuffer \<notin> set (buffers i s) \<and> length (buffers i s) \<le> 254 \<and>
     (\<forall>p\<in>set (rb_list (outgoing (socks s i))). out_seg N s p) \<and>
     (\<forall>p\<in>set (tl (rb_list (outgoing (socks s i)))). b_pendingArp (tbuf s p) = 0) \<and>
     (\<forall>p\<in>set (rb_list (sent (socks s i))). sent_seg N s p)"

text \<open>The fields of a buffer that matter here.\<close>

definition buf_key :: "TcpBuffer \<Rightarrow> EthHeader \<times> IpHeader \<times> TcpHeader \<times> mem \<times> u16 \<times> u16 \<times> u8 \<times> u16" where
  "buf_key d = (b_eh d, b_ip d, b_tcp d, b_data d, b_packetLen d, b_dataLen d, b_pendingArp d, b_flags d)"

lemma key_cong:
  assumes "buf_key (tbuf s' p) = buf_key (tbuf s p)"
  shows "out_seg N s' p = out_seg N s p" and "sent_seg N s' p = sent_seg N s p" and "queued s' p = queued s p"
    and "b_pendingArp (tbuf s' p) = b_pendingArp (tbuf s p)"
  using assms by (simp_all add: buf_key_def out_seg_def sent_seg_def queued_def seg_data_def tcp_frame_def
      isForceProbe_def wasAckOnly_def)

text \<open>Both depend on the queues, the pool and the buffers other than the one of the stack.\<close>

definition queue_view where
  "queue_view i s = (state (socks s i), maxEnqueueSize (socks s i), outgoing (socks s i), sent (socks s i), xmit_free s,
     (\<lambda>p. buf_key (tbuf s p))(StackBuffer := buf_key zero_buffer))"

lemma queue_view_cong:
  assumes "queue_view i s' = queue_view i s"
  shows "sender_ok i N s' = sender_ok i N s" and "sender_ok i N s \<Longrightarrow> waiting i s' = waiting i s"
proof -
  have f: "state (socks s' i) = state (socks s i)" "maxEnqueueSize (socks s' i) = maxEnqueueSize (socks s i)"
    "outgoing (socks s' i) = outgoing (socks s i)" "sent (socks s' i) = sent (socks s i)" "xmit_free s' = xmit_free s"
    using assms by (simp_all add: queue_view_def)
  have t: "buf_key (tbuf s' p) = buf_key (tbuf s p)" if "p \<noteq> StackBuffer" for p
  proof -
    have "(\<lambda>p. buf_key (tbuf s' p))(StackBuffer := buf_key zero_buffer) = (\<lambda>p. buf_key (tbuf s p))(StackBuffer := buf_key zero_buffer)"
      using assms by (simp add: queue_view_def)
    from fun_cong [OF this, of p] show ?thesis using that by simp
  qed
  note o = key_cong [OF t]
  have b: "buffers i s' = buffers i s" by (simp add: buffers_def f)
  show "sender_ok i N s' = sender_ok i N s"
  proof (cases "StackBuffer \<in> set (buffers i s)")
    case True
    then show ?thesis by (simp add: sender_ok_def b)
  next
    case False
    then have n: "p \<noteq> StackBuffer" if "p \<in> set (rb_list (outgoing (socks s i))) \<union> set (rb_list (sent (socks s i)))" for p
      using that by (auto simp: buffers_def)
    have "(\<forall>p\<in>set (rb_list (outgoing (socks s i))). out_seg N s' p) = (\<forall>p\<in>set (rb_list (outgoing (socks s i))). out_seg N s p)"
      by (rule ball_cong [OF refl]) (use n o(1) in blast)
    moreover have "(\<forall>p\<in>set (rb_list (sent (socks s i))). sent_seg N s' p) = (\<forall>p\<in>set (rb_list (sent (socks s i))). sent_seg N s p)"
      by (rule ball_cong [OF refl]) (use n o(2) in blast)
    moreover have "(\<forall>p\<in>set (tl (rb_list (outgoing (socks s i)))). b_pendingArp (tbuf s' p) = 0) =
        (\<forall>p\<in>set (tl (rb_list (outgoing (socks s i)))). b_pendingArp (tbuf s p) = 0)"
    proof (rule ball_cong [OF refl])
      fix p assume "p \<in> set (tl (rb_list (outgoing (socks s i))))"
      then have "p \<in> set (rb_list (outgoing (socks s i)))" by (cases "rb_list (outgoing (socks s i))") simp_all
      then have "p \<noteq> StackBuffer" using n by blast
      from o(4) [OF this] show "(b_pendingArp (tbuf s' p) = 0) = (b_pendingArp (tbuf s p) = 0)" by simp
    qed
    ultimately show ?thesis by (simp only: sender_ok_def b f)
  qed
  show "waiting i s' = waiting i s" if "sender_ok i N s"
  proof -
    have "p \<noteq> StackBuffer" if "p \<in> set (rb_list (outgoing (socks s i)))" for p
      using \<open>sender_ok i N s\<close> that by (auto simp: sender_ok_def buffers_def)
    then show ?thesis by (simp add: waiting_def f o cong: map_cong)
  qed
qed

lemma sender_ok_mono:
  assumes "sender_ok i N s" and "N \<subseteq> N'" shows "sender_ok i N' s"
  using assms by (auto simp: sender_ok_def out_seg_def sent_seg_def split: if_splits)

section \<open>Data on the wire\<close>

definition carries_data :: "frame \<Rightarrow> bool" where
  "carries_data f \<longleftrightarrow> (case f of TcpFrame eh ip tcp xs \<Rightarrow> xs \<noteq> [] | _ \<Rightarrow> False)"

definition data_wire :: "'a net_scheme \<Rightarrow> frame set" where
  "data_wire s = {f \<in> fst ` set (wire s). carries_data f}"

lemma data_wire_send_pkt:
  "data_wire (Packet_send_pkt f n s) \<subseteq> data_wire s \<union> {f}" "\<not> carries_data f \<Longrightarrow> data_wire (Packet_send_pkt f n s) = data_wire s"
  by (auto simp: data_wire_def Packet_send_pkt_wire)

lemma data_wire_cong: "wire s' = wire s \<Longrightarrow> data_wire s' = data_wire s"
  by (simp add: data_wire_def)

lemmas data_wireD = subsetD [OF data_wire_send_pkt(1)]

lemma data_wire_upd [simp]:
  "data_wire (upd_sock i g s) = data_wire s" "data_wire (upd_buf b h s) = data_wire s"
  "data_wire (t\<lparr>pending := x, pendingEntries := y, Arp_RequestsSent := z\<rparr>) = data_wire t"
  "data_wire (u\<lparr>IpIdent := v\<rparr>) = data_wire u"
  by (simp_all add: data_wire_def upd_sock_def upd_buf_def)

lemma data_wire_sendArpRequest [simp]: "data_wire (sendArpRequest2 a t) = data_wire t" "data_wire (sendArpRequest a t) = data_wire t"
proof -
  show e: "data_wire (sendArpRequest2 a t) = data_wire t" for t :: "'a arp_state_scheme"
    by (simp add: sendArpRequest2_def Let_def data_wire_send_pkt(2) carries_data_def)
  show "data_wire (sendArpRequest a t) = data_wire t" by (simp add: sendArpRequest_def Let_def e)
qed

lemma data_wire_resolve [simp]: "data_wire (fst (resolve a t)) = data_wire t"
  by (simp add: resolve_def split: option.split)

lemma data_wire_setDestEth [simp]: "data_wire (fst (setDestEth ip s)) = data_wire s"
  by (simp add: setDestEth_def Let_def)

lemma data_wire_sp_transmit:
  fixes s :: "'a tcp_state_scheme" and i b
  defines "s' \<equiv> fst (sp_transmit i b s)"
  shows "data_wire s' \<subseteq> data_wire s \<union> {tcp_frame (tbuf s' b)}"
proof -
  obtain u r where u: "setDestEth (ip_dest (b_ip (tbuf s b))) s = (u, r)" by force
  have w: "data_wire u = data_wire s" using data_wire_setDestEth [of "ip_dest (b_ip (tbuf s b))" s] u by simp
  show ?thesis by (cases r) (auto simp: s'_def sp_transmit_def Let_def u w dest!: data_wireD)
qed

lemma data_wire_sp_retry_arp:
  fixes s :: "'a tcp_state_scheme" and i b
  defines "s' \<equiv> fst (sp_retry_arp i b s)"
  shows "data_wire s' \<subseteq> data_wire s \<union> {tcp_frame (tbuf s' b)}"
proof -
  obtain u r where u: "setDestEth (ip_dest (b_ip (tbuf s b))) s = (u, r)" by force
  have w: "data_wire u = data_wire s" using data_wire_setDestEth [of "ip_dest (b_ip (tbuf s b))" s] u by simp
  show ?thesis by (cases r) (auto simp: s'_def sp_retry_arp_def Let_def u w dest!: data_wireD)
qed

lemma data_wire_sendPacket:
  fixes s :: "'a tcp_state_scheme" and i b
  defines "s' \<equiv> fst (sendPacket i b s)"
  shows "data_wire s' \<subseteq> data_wire s \<union> {tcp_frame (tbuf s' b)}"
proof (cases "b_pendingArp (tbuf s b) = 0")
  case True
  have "data_wire (sp_lower i b (sp_fill i b s)) = data_wire s" by (rule data_wire_cong) simp
  then show ?thesis using data_wire_sp_transmit [of i b "sp_lower i b (sp_fill i b s)"] by (simp add: s'_def sendPacket_fill [OF True])
next
  case False
  then show ?thesis using data_wire_sp_retry_arp [of i b s] by (simp add: s'_def sendPacket_def)
qed

lemma data_wire_resendPacket:
  "data_wire (resendPacket i b s) \<subseteq> data_wire s \<union> {tcp_frame (tbuf (resendPacket i b s) b)}"
proof -
  define h where "h = snd (IpHeader_set IP_PROTOCOL_TCP (ip_dest (b_ip (tbuf s b)))
    (b_dataLen (tbuf s b) + ucast (getTcpHlen (b_tcp (tbuf s b)))) 0 0 (b_ip (tbuf s b)) s)"
  define u where "u = upd_buf b (\<lambda>b. b\<lparr>b_ip := h\<rparr>) (s\<lparr>IpIdent := IpIdent s + 1\<rparr>)"
  have e: "resendPacket i b s = upd_buf b (\<lambda>b. b\<lparr>b_attempts := b_attempts b + 1\<rparr>)
      (Packet_send_pkt (tcp_frame (tbuf u b)) (b_packetLen (tbuf s b)) u)"
    by (simp add: resendPacket_def Let_def split_beta h_def u_def)
  have "tcp_frame (tbuf (resendPacket i b s) b) = tcp_frame (tbuf u b)" unfolding e by (simp add: tcp_frame_def)
  moreover have "data_wire u = data_wire s" by (simp add: u_def)
  ultimately show ?thesis unfolding e by (auto dest!: data_wireD)
qed

lemma carries_data_tcp_frame: "carries_data (tcp_frame d) \<longleftrightarrow> 54 < unat (b_packetLen d)"
proof -
  have "rdbytes m p n = [] \<longleftrightarrow> n = 0" for m p n by (metis length_rdbytes length_0_conv)
  then show ?thesis by (simp add: carries_data_def tcp_frame_def not_le)
qed

section \<open>One transmission\<close>

lemma sp_retry_arp_buf:
  fixes s :: "'a tcp_state_scheme" and i b
  defines "s' \<equiv> fst (sp_retry_arp i b s)" and "rc \<equiv> snd (sp_retry_arp i b s)"
  shows "tx_view i s' = tx_view i s" and "state (socks s' i) = state (socks s i)"
    and "b_packetLen (tbuf s' b) = b_packetLen (tbuf s b)" and "b_flags (tbuf s' b) = b_flags (tbuf s b)"
    and "rc \<noteq> 0 \<Longrightarrow> b_pendingArp (tbuf s' b) \<noteq> 0"
proof -
  obtain u r where u: "setDestEth (ip_dest (b_ip (tbuf s b))) s = (u, r)" by force
  have su: "socks u = socks s" "tbuf u = tbuf s" using setDestEth_socks [of "ip_dest (b_ip (tbuf s b))" s] u by simp_all
  show "tx_view i s' = tx_view i s" "state (socks s' i) = state (socks s i)"
    "b_packetLen (tbuf s' b) = b_packetLen (tbuf s b)" "b_flags (tbuf s' b) = b_flags (tbuf s b)"
    "rc \<noteq> 0 \<Longrightarrow> b_pendingArp (tbuf s' b) \<noteq> 0"
    using quiet_fields(12) [OF quiet_sp_retry_arp [of i b s]]
    by (cases r; simp add: s'_def rc_def tx_view_def sp_retry_arp_def u su Let_def)+
qed

lemma sendPacket_rc:
  assumes "b_pendingArp (tbuf s b) = 0" and "snd (sendPacket i b s) \<noteq> 0"
  shows "b_pendingArp (tbuf (fst (sendPacket i b s)) b) \<noteq> 0"
proof -
  have "snd (sp_transmit i b t) \<noteq> 0 \<Longrightarrow> b_pendingArp (tbuf (fst (sp_transmit i b t)) b) \<noteq> 0" for t :: "'a tcp_state_scheme"
    by (auto simp: sp_transmit_def Let_def split: if_splits)
  then show ?thesis using assms by (simp add: sendPacket_fill)
qed

lemma flags_or_1: "isForceProbe d' = isForceProbe d" if "b_flags d' = (if c then b_flags d OR 1 else b_flags d)"
proof -
  have "(x OR 1) AND 0x40 = x AND (0x40 :: u16)" for x by (rule bit_word_eqI) (auto simp: bit_simps)
  then show ?thesis using that by (simp add: isForceProbe_def)
qed

text \<open>The transmission of the first buffer of the queue is a step of the link, or only an acknowledgement.\<close>

lemma transmit:
  fixes l :: "('a tcp_state_scheme, 'b tcp_state_scheme) link" and i j p
  defines "s \<equiv> tx l" and "s' \<equiv> fst (sendPacket i p (tx l))"
  assumes "state (socks s i) = TCP_STATE_ESTABLISHED" and "out_seg (net_frames l) s p"
  obtains l' where "(link_step i j)\<^sup>*\<^sup>* l l'" and "tx l' = s'" and "rx l' = rx l" and "read_bytes l' = read_bytes l"
    and "sent_bytes l' = sent_bytes l @ queued s p" and "net_frames l \<subseteq> net_frames l'"
    and "if b_dataLen (tbuf s' p) = 0 then wasAckOnly (tbuf s' p) else sent_seg (net_frames l') s' p"
    and "out_seg (net_frames l') s' p" and "data_wire s' \<subseteq> data_wire s \<union> net_frames l'"
proof -
  let ?d = "tbuf s p" and ?d' = "tbuf s' p"
  have o: "\<not> isForceProbe ?d" "unat (b_dataLen ?d) \<le> 65481"
    "b_pendingArp ?d \<noteq> 0 \<Longrightarrow> (if b_dataLen ?d = 0 then wasAckOnly ?d else sent_seg (net_frames l) s p)"
    "b_pendingArp ?d \<noteq> 0 \<Longrightarrow> b_packetLen ?d = 54 + b_dataLen ?d"
    using assms(4) by (simp_all add: out_seg_def)
  have dw: "data_wire s' \<subseteq> data_wire s \<union> {tcp_frame ?d'}"
    using data_wire_sendPacket [of i p "tx l"] by (simp add: s'_def s_def)
  have dwe: "data_wire s' \<subseteq> data_wire s" if "b_packetLen ?d' = 54 + b_dataLen ?d'" "b_dataLen ?d' = 0"
  proof -
    have "\<not> carries_data (tcp_frame ?d')" using that by (simp add: carries_data_tcp_frame)
    then show ?thesis using dw by (auto simp: data_wire_def)
  qed
  have len: "b_dataLen ?d' = b_dataLen ?d" by (simp add: s'_def s_def sendPacket_fields)
  consider (data) "b_pendingArp ?d = 0" "b_dataLen ?d \<noteq> 0" | (ack) "b_pendingArp ?d = 0" "b_dataLen ?d = 0"
    | (retry) "b_pendingArp ?d \<noteq> 0" "b_dataLen ?d \<noteq> 0" | (retry_ack) "b_pendingArp ?d \<noteq> 0" "b_dataLen ?d = 0" by blast
  then show thesis
  proof cases
    case data
    then have sd: "sends_data i p (tx l)" using o assms(3) by (simp add: sends_data_def s_def)
    let ?l = "l\<lparr>tx := s', sent_bytes := sent_bytes l @ seg_data p (tx l), net_frames := insert (tcp_frame ?d') (net_frames l)\<rparr>"
    have st: "link_step i j l ?l" by (rule link_step.new_data [OF sd]) (simp add: s'_def)
    note b = sendPacket_buf [OF data(1) [unfolded s_def], of i, folded s'_def s_def]
    have sg: "sent_seg (net_frames ?l) s' p"
      using b(4) assms(3) by (simp add: sent_seg_def sent_tcpLen_def sends_syn_def len)
    have "\<not> isForceProbe ?d'" using flags_or_1 [OF b(6)] o(1) by simp
    then show thesis using that [of ?l] st sg data o(2) dw by (auto simp: queued_def out_seg_def sent_seg_def len s_def)
  next
    case ack
    note b = sendPacket_buf [OF ack(1) [unfolded s_def], of i, folded s'_def s_def]
    have "sent_bits (socks s i) ?d = TCP_CODEBITS_ACK" using ack assms(3) by (simp add: sent_bits_def sends_fin_def)
    moreover have "(x OR 1) AND 1 = 1" for x :: u16 by (rule bit_word_eqI) (auto simp: bit_simps)
    ultimately have w: "wasAckOnly ?d'" using b(6) ack(2) by (simp add: wasAckOnly_def)
    have "tx_view i s' = tx_view i s"
      using ack assms(3) by (simp add: s'_def s_def tx_view_def Let_def sendPacket_fields sendPacket_socks sends_syn_def sends_fin_def)
    then have st: "link_step i j l (l\<lparr>tx := s'\<rparr>)" by (intro link_step.tx_other) (simp add: s_def)
    have pl: "b_packetLen ?d' = 54 + b_dataLen ?d'"
      using b(4) assms(3) by (simp add: sent_tcpLen_def sends_syn_def len)
    have "\<not> isForceProbe ?d'" using flags_or_1 [OF b(6)] o(1) by simp
    then show thesis using that [of "l\<lparr>tx := s'\<rparr>"] st w ack o(2) pl dwe by (auto simp: queued_def seg_data_def out_seg_def len)
  next
    case retry
    have e: "s' = fst (sp_retry_arp i p (tx l))" using retry(1) by (simp add: s'_def s_def sendPacket_def)
    note r = sp_retry_arp_buf [of i p "tx l", folded e s_def]
    have sg: "sent_seg (net_frames l) s p" using o(3) retry by simp
    let ?l = "l\<lparr>tx := s', net_frames := insert (tcp_frame ?d') (net_frames l)\<rparr>"
    have st: "link_step i j l ?l" by (rule link_step.resolved) (use sg e in \<open>simp_all add: sent_seg_def s_def\<close>)
    have "sent_seg (net_frames ?l) s' p" using sg r(3) by (simp add: sent_seg_def len)
    moreover have "\<not> isForceProbe ?d'" using o(1) r(4) by (simp add: isForceProbe_def)
    ultimately show thesis using that [of ?l] st retry o(2) dw by (auto simp: queued_def out_seg_def sent_seg_def len)
  next
    case retry_ack
    have e: "s' = fst (sp_retry_arp i p (tx l))" using retry_ack(1) by (simp add: s'_def s_def sendPacket_def)
    note r = sp_retry_arp_buf [of i p "tx l", folded e s_def]
    have st: "link_step i j l (l\<lparr>tx := s'\<rparr>)" using r(1) by (intro link_step.tx_other) (simp add: s_def)
    have "wasAckOnly ?d'" "\<not> isForceProbe ?d'" using o retry_ack r(4) by (simp_all add: wasAckOnly_def isForceProbe_def)
    moreover have "b_packetLen ?d' = 54 + b_dataLen ?d'" using o(4) retry_ack(1) r(3) by (simp add: len)
    ultimately show thesis using that [of "l\<lparr>tx := s'\<rparr>"] st retry_ack o(2) dwe by (auto simp: queued_def out_seg_def len)
  qed
qed

section \<open>Moving buffers\<close>

lemma mset_sub_distinct:
  assumes "mset ys \<subseteq># mset xs" and "distinct xs"
  shows "distinct ys" and "set ys \<subseteq> set xs" and "length ys \<le> length xs"
proof -
  have "count (mset ys) a \<le> count (mset xs) a" for a using assms(1) by (rule mset_subset_eq_count)
  moreover have "count (mset xs) a \<le> 1" for a using assms(2) by (simp add: distinct_count_atmost_1)
  ultimately have "count (mset ys) a \<le> 1" for a using le_trans by blast
  then have "count (mset ys) a = (if a \<in> set ys then 1 else 0)" for a
    by (metis One_nat_def Suc_leI count_greater_zero_iff count_eq_zero_iff le_antisym set_mset_mset)
  then show "distinct ys" by (simp add: distinct_count_atmost_1)
  show "set ys \<subseteq> set xs" using set_mset_mono [OF assms(1)] by simp
  show "length ys \<le> length xs" using size_mset_mono [OF assms(1)] by simp
qed

text \<open>Queues and pool after an operation hold at most the buffers they held before.\<close>

lemma sender_okI:
  assumes "sender_ok i N s" and "state (socks s' i) = state (socks s i)"
    and "maxEnqueueSize (socks s' i) = maxEnqueueSize (socks s i)"
    and "rb_wf (outgoing (socks s' i))" and "rb_wf (sent (socks s' i))" and "mset (buffers i s') \<subseteq># mset (buffers i s)"
    and "\<And>p. p \<in> set (rb_list (outgoing (socks s' i))) \<Longrightarrow> out_seg N' s' p"
    and "\<And>p. p \<in> set (tl (rb_list (outgoing (socks s' i)))) \<Longrightarrow> b_pendingArp (tbuf s' p) = 0"
    and "\<And>p. p \<in> set (rb_list (sent (socks s' i))) \<Longrightarrow> sent_seg N' s' p"
  shows "sender_ok i N' s'"
proof -
  have d: "distinct (buffers i s)" "StackBuffer \<notin> set (buffers i s)" "length (buffers i s) \<le> 254"
    using assms(1) by (simp_all add: sender_ok_def)
  note m = mset_sub_distinct [OF assms(6) d(1)]
  show ?thesis using assms d m by (auto simp: sender_ok_def)
qed

lemma sendPacket_established:
  assumes "state (socks s i) = TCP_STATE_ESTABLISHED"
  shows "state (socks (fst (sendPacket i p s)) i) = TCP_STATE_ESTABLISHED"
proof (cases "b_pendingArp (tbuf s p) = 0")
  case True
  then show ?thesis using assms by (simp add: sendPacket_socks fin_state_def sends_fin_def)
next
  case False
  then show ?thesis using assms sp_retry_arp_buf(2) [of i p s] by (simp add: sendPacket_def)
qed

lemma transmitted_ok:
  fixes s :: "'a tcp_state_scheme" and i p
  defines "s' \<equiv> fst (sendPacket i p s)"
  assumes "sender_ok i N s" and "N \<subseteq> N'" and "rb_list (outgoing (socks s i)) = p # ps" and "out_seg N' s' p"
  shows "sender_ok i N' s'" and "rb_list (outgoing (socks s' i)) = p # ps" and "map (queued s') ps = map (queued s) ps"
proof -
  note f = sendPacket_fields [where i = i and b = p and s = s, folded s'_def]
  have ok: "sender_ok i N' s" using assms(2,3) by (rule sender_ok_mono)
  then have d: "distinct (p # ps @ rb_list (sent (socks s i)))" "state (socks s i) = TCP_STATE_ESTABLISHED"
    using assms(4) by (auto simp: sender_ok_def buffers_def)
  have q: "outgoing (socks s' i) = outgoing (socks s i)" "sent (socks s' i) = sent (socks s i)"
    "maxEnqueueSize (socks s' i) = maxEnqueueSize (socks s i)" "xmit_free s' = xmit_free s"
    by (simp_all add: f xmit_free_def)
  have t: "buf_key (tbuf s' c) = buf_key (tbuf s c)" if "c \<noteq> p" for c using that by (simp add: f)
  show l: "rb_list (outgoing (socks s' i)) = p # ps" using assms(4) by (simp add: q)
  show "map (queued s') ps = map (queued s) ps"
  proof (rule map_cong [OF refl])
    fix c assume "c \<in> set ps"
    then have "c \<noteq> p" using d(1) by auto
    then show "queued s' c = queued s c" by (intro key_cong(3) t)
  qed
  show "sender_ok i N' s'"
  proof (rule sender_okI [OF ok])
    show "state (socks s' i) = state (socks s i)" using sendPacket_established [OF d(2), of p] d(2) by (simp add: s'_def)
    show "mset (buffers i s') \<subseteq># mset (buffers i s)" by (simp add: buffers_def q)
    show "out_seg N' s' c" if "c \<in> set (rb_list (outgoing (socks s' i)))" for c
    proof (cases "c = p")
      case True
      then show ?thesis using assms(5) by simp
    next
      case False
      then show ?thesis using that ok l assms(4) key_cong(1) [OF t] by (auto simp: sender_ok_def q)
    qed
    show "b_pendingArp (tbuf s' c) = 0" if "c \<in> set (tl (rb_list (outgoing (socks s' i))))" for c
    proof -
      have "c \<in> set ps" using that l by simp
      then show ?thesis using ok d(1) assms(4) key_cong(4) [OF t, of c] by (auto simp: sender_ok_def)
    qed
    show "sent_seg N' s' c" if "c \<in> set (rb_list (sent (socks s' i)))" for c
    proof -
      have "c \<in> set (rb_list (sent (socks s i)))" using that by (simp add: q)
      moreover from this have "c \<noteq> p" using d(1) by auto
      ultimately show ?thesis using ok key_cong(2) [OF t [OF \<open>c \<noteq> p\<close>]] by (simp add: sender_ok_def)
    qed
  qed (use ok in \<open>simp_all add: sender_ok_def q\<close>)
qed

text \<open>The buffer sent leaves the queue: to the sent queue with data, to the pool as an acknowledgement.\<close>

lemma data_wire_drive_sent: "data_wire (drive_sent i p s) = data_wire s"
  by (rule data_wire_cong) (simp add: drive_sent_def Let_def returnXmitBuf_def upd_sock_def upd_buf_def)

lemma drive_sent_ok:
  fixes s :: "'a tcp_state_scheme" and i p
  defines "s' \<equiv> drive_sent i p s"
  assumes "sender_ok i N s" and "rb_list (outgoing (socks s i)) = p # ps" and "rb_hasRoom (sent (socks s i))"
    and "if b_dataLen (tbuf s p) = 0 then wasAckOnly (tbuf s p) else sent_seg N s p"
  shows "sender_ok i N s'" and "waiting i s' = concat (map (queued s) ps)" and "tx_view i s' = tx_view i s"
proof -
  let ?k = "socks s i"
  have wf: "rb_wf (outgoing ?k)" "rb_wf (sent ?k)" using assms(2) by (simp_all add: sender_ok_def)
  note dq = rb.deq_some [OF wf(1) assms(3)]
  have room: "length (rb_list (sent ?k)) < 4" using rb.room_iff [OF wf(2)] assms(4) by simp
  note eq = rb.enq_room [OF wf(2) room, of p]
  have k: "buf_key (tbuf s' c) = buf_key (tbuf s c)" for c
    by (auto simp: s'_def drive_sent_def Let_def buf_key_def)
  have w: "wasAckOnly (d\<lparr>b_attempts := x, b_timeSent := y, b_overdueAt := z\<rparr>) = wasAckOnly d" for d x y z
    by (simp add: wasAckOnly_def)
  define m where "m \<equiv> wasAckOnly (tbuf s p)"
  have q: "outgoing (socks s' i) = fst (rb_dequeue (outgoing ?k))" "state (socks s' i) = state ?k"
    "maxEnqueueSize (socks s' i) = maxEnqueueSize ?k"
    "sent (socks s' i) = (if m then sent ?k else fst (rb_enqueue p (sent ?k)))"
    by (simp_all add: s'_def drive_sent_def Let_def m_def w)
  show "tx_view i s' = tx_view i s"
    by (simp add: s'_def drive_sent_def Let_def tx_view_def returnXmitBuf_def upd_sock_def upd_buf_def)
  have fl: "xmit_free s' = (if m then xmit_free s @ (if pooled s p then [p] else []) else xmit_free s)"
  proof -
    have "unat (freeXmitBuffers s) < 255"
      using assms(2) by (simp add: sender_ok_def buffers_def length_xmit_free)
    then show ?thesis
      by (simp add: s'_def drive_sent_def Let_def m_def w)
        (simp add: upd_sock_def upd_buf_def xmit_free_def pooled_def returnXmitBuf_def u8_Suc)
  qed
  show "waiting i s' = concat (map (queued s) ps)" using dq by (simp add: waiting_def q key_cong(3) [OF k] cong: map_cong)
  show "sender_ok i N s'"
  proof (rule sender_okI [OF assms(2) q(2,3)])
    show "rb_wf (outgoing (socks s' i))" "rb_wf (sent (socks s' i))" using dq eq wf by (simp_all add: q)
    show "mset (buffers i s') \<subseteq># mset (buffers i s)" using dq eq assms(3) by (simp add: buffers_def fl q)
    have o: "\<forall>c\<in>set (p # ps). out_seg N s c" "\<forall>c\<in>set ps. b_pendingArp (tbuf s c) = 0" "\<forall>c\<in>set (rb_list (sent ?k)). sent_seg N s c"
      using assms(2,3) by (simp_all add: sender_ok_def)
    show "out_seg N s' c" if "c \<in> set (rb_list (outgoing (socks s' i)))" for c
      using that o dq by (simp add: q key_cong(1) [OF k])
    show "b_pendingArp (tbuf s' c) = 0" if "c \<in> set (tl (rb_list (outgoing (socks s' i))))" for c
    proof -
      have "c \<in> set ps" using that dq by (cases ps) (simp_all add: q)
      then show ?thesis using o by (simp add: key_cong(4) [OF k])
    qed
    show "sent_seg N s' c" if "c \<in> set (rb_list (sent (socks s' i)))" for c
      using that o eq assms(5) by (auto simp: q key_cong(2) [OF k] m_def split: if_splits)
  qed
qed

section \<open>The driver\<close>

text \<open>
  Steps of the link that only the sender makes; they keep its queues in order, and no byte that was
  accepted is lost between the queue and the network.
\<close>

definition feeds ::
    "nat \<Rightarrow> nat \<Rightarrow> ('a tcp_state_scheme, 'b tcp_state_scheme) link \<Rightarrow> ('a tcp_state_scheme, 'b tcp_state_scheme) link \<Rightarrow> bool" where
  "feeds i j l l' \<longleftrightarrow> (link_step i j)\<^sup>*\<^sup>* l l' \<and> rx l' = rx l \<and> read_bytes l' = read_bytes l \<and>
     sender_ok i (net_frames l') (tx l') \<and> sent_bytes l' @ waiting i (tx l') = sent_bytes l @ waiting i (tx l) \<and>
     net_frames l \<subseteq> net_frames l' \<and> data_wire (tx l') \<subseteq> data_wire (tx l) \<union> net_frames l'"

lemma feeds_refl: "sender_ok i (net_frames l) (tx l) \<Longrightarrow> feeds i j l l"
  by (simp add: feeds_def)

lemma feeds_trans: "feeds i j l l' \<Longrightarrow> feeds i j l' l'' \<Longrightarrow> feeds i j l l''"
  unfolding feeds_def by (elim conjE, intro conjI) (auto intro: rtranclp_trans)

lemma feeds_sender_ok: "feeds i j l l' \<Longrightarrow> sender_ok i (net_frames l') (tx l')"
  by (simp add: feeds_def)

text \<open>What changes neither the end of the connection nor the queues.\<close>

lemma feeds_other:
  assumes "sender_ok i (net_frames l) (tx l)" and "tx_view i s' = tx_view i (tx l)" and "queue_view i s' = queue_view i (tx l)"
    and "data_wire s' \<subseteq> data_wire (tx l)"
  shows "feeds i j l (l\<lparr>tx := s'\<rparr>)"
  using assms(1,4) link_step.tx_other [OF assms(2), of j] queue_view_cong [OF assms(3)] by (auto simp: feeds_def)

lemma sendPureAck_queue:
  "queue_view i (sendPureAck i probe s) = queue_view i s \<and> tx_view i (sendPureAck i probe s) = tx_view i s \<and>
   data_wire (sendPureAck i probe s) \<subseteq> data_wire s"
proof (cases "state (socks s i) = TCP_STATE_ESTABLISHED")
  case False
  then show ?thesis by (simp add: sendPureAck_def)
next
  case True
  define t where "t = upd_buf StackBuffer (\<lambda>b. b\<lparr>b_dataLen := 0\<rparr>)
      (if probe then (upd_buf StackBuffer setForceProbe (upd_buf StackBuffer (\<lambda>b. setForceAckOnly (reset_accounting b)) s))
           \<lparr>SentZeroWindowProbe := SentZeroWindowProbe (upd_buf StackBuffer (\<lambda>b. setForceAckOnly (reset_accounting b)) s) + 1\<rparr>
       else upd_buf StackBuffer (\<lambda>b. setForceAckOnly (reset_accounting b)) s)"
  have e: "sendPureAck i probe s = fst (sendPacket i StackBuffer t)"
    using True by (simp add: sendPureAck_def Let_def t_def)
  have t: "socks t = socks s" "xmit_free t = xmit_free s" "MyIpAddr t = MyIpAddr s"
    by (simp_all add: t_def upd_buf_def xmit_free_def)
  have tb: "tbuf t c = tbuf s c" if "c \<noteq> StackBuffer" for c using that by (simp add: t_def)
  have b: "b_pendingArp (tbuf t StackBuffer) = 0" "b_dataLen (tbuf t StackBuffer) = 0"
    by (simp_all add: t_def reset_accounting_def setForceAckOnly_def setForceProbe_def)
  note f = sendPacket_fields [where i = i and b = StackBuffer and s = t]
  have "state (socks (fst (sendPacket i StackBuffer t)) i) = TCP_STATE_ESTABLISHED"
    using sendPacket_established [of t i] True t(1) by simp
  moreover have "tbuf (fst (sendPacket i StackBuffer t)) c = tbuf s c" if "c \<noteq> StackBuffer" for c
    using tb [OF that] sends_frame_fields(2) [OF sf_sendPacket that, of i t] by simp
  moreover have "xmit_free (fst (sendPacket i StackBuffer t)) = xmit_free s" using t(2) by (simp add: xmit_free_def f)
  moreover have "seqNum (socks (fst (sendPacket i StackBuffer t)) i) = seqNum (socks s i)"
    using b True t(1) by (simp add: sendPacket_socks sends_syn_def sends_fin_def)
  moreover have "data_wire (fst (sendPacket i StackBuffer t)) \<subseteq> data_wire s"
  proof -
    have "b_packetLen (tbuf (fst (sendPacket i StackBuffer t)) StackBuffer) = 54"
      using sendPacket_buf(4) [OF b(1), of i] b(2) True t(1) by (simp add: sent_tcpLen_def sends_syn_def)
    then have "\<not> carries_data (tcp_frame (tbuf (fst (sendPacket i StackBuffer t)) StackBuffer))" by (simp add: carries_data_tcp_frame)
    moreover have "data_wire t = data_wire s" by (rule data_wire_cong) (simp add: t_def upd_buf_def)
    ultimately show ?thesis using data_wire_sendPacket [of i StackBuffer t] by (auto simp: data_wire_def)
  qed
  ultimately show ?thesis using True t by (simp add: e queue_view_def tx_view_def Let_def f fun_eq_iff)
qed

lemma drive_probe_queue:
  "queue_view i (drive_probe i s) = queue_view i s \<and> tx_view i (drive_probe i s) = tx_view i s \<and>
   data_wire (drive_probe i s) \<subseteq> data_wire s"
proof -
  have "queue_view i (upd_sock i (\<lambda>k. k\<lparr>lastAckRcvd := x\<rparr>) s) = queue_view i s"
    "tx_view i (upd_sock i (\<lambda>k. k\<lparr>lastAckRcvd := x\<rparr>) s) = tx_view i s" for x
    by (simp_all add: queue_view_def tx_view_def Let_def) (simp_all add: upd_sock_def xmit_free_def)
  moreover have "data_wire (sendPureAck i True (upd_sock i (\<lambda>k. k\<lparr>lastAckRcvd := x\<rparr>) s)) \<subseteq> data_wire s" for x
    using sendPureAck_queue [of i True "upd_sock i (\<lambda>k. k\<lparr>lastAckRcvd := x\<rparr>) s"] by simp
  ultimately show ?thesis by (simp add: drive_probe_def Let_def sendPureAck_queue)
qed

lemma drive_out_step_feeds:
  assumes "sender_ok i (net_frames l) (tx l)"
  shows "\<exists>l'. feeds i j l l' \<and> tx l' = fst (drive_out_step i (tx l))"
proof (cases "rb_list (outgoing (socks (tx l) i))")
  case Nil
  have "rb_peek (outgoing (socks (tx l) i)) = None"
    using rb.peek_none [OF _ Nil] assms by (simp add: sender_ok_def)
  then have "fst (drive_out_step i (tx l)) = tx l" by (simp add: drive_out_step_def)
  then show ?thesis using feeds_refl [OF assms] by metis
next
  case (Cons p ps)
  let ?s = "tx l" and ?s' = "fst (sendPacket i p (tx l))"
  have wf: "rb_wf (outgoing (socks ?s i))" "state (socks ?s i) = TCP_STATE_ESTABLISHED" "out_seg (net_frames l) ?s p"
    using assms Cons by (simp_all add: sender_ok_def)
  have pk: "rb_peek (outgoing (socks ?s i)) = Some p" using rb.peek_some [OF wf(1) Cons] .
  show ?thesis
  proof (cases "rb_hasRoom (sent (socks ?s i)) \<and> \<not> remoteWindow (socks ?s i) < b_dataLen (tbuf ?s p)")
    case False
    then have "fst (drive_out_step i ?s) = ?s \<or> fst (drive_out_step i ?s) = drive_probe i ?s"
      by (simp add: drive_out_step_def pk)
    then show ?thesis
      using feeds_refl [OF assms] feeds_other [OF assms, of "drive_probe i ?s"] drive_probe_queue [of i ?s] by fastforce
  next
    case True
    obtain l1 where l1: "(link_step i j)\<^sup>*\<^sup>* l l1" "tx l1 = ?s'" "rx l1 = rx l" "read_bytes l1 = read_bytes l"
      "sent_bytes l1 = sent_bytes l @ queued ?s p" "net_frames l \<subseteq> net_frames l1"
      "if b_dataLen (tbuf ?s' p) = 0 then wasAckOnly (tbuf ?s' p) else sent_seg (net_frames l1) ?s' p"
      "out_seg (net_frames l1) ?s' p" "data_wire ?s' \<subseteq> data_wire ?s \<union> net_frames l1"
      by (rule transmit [OF wf(2,3)])
    note t = transmitted_ok [OF assms l1(6) Cons l1(8)]
    have room: "rb_hasRoom (sent (socks ?s' i))" using True by (simp add: sendPacket_fields)
    have w: "waiting i ?s = queued ?s p @ concat (map (queued ?s) ps)" by (simp add: waiting_def Cons)
    show ?thesis
    proof (cases "snd (sendPacket i p ?s) = 0")
      case sent: True
      then have e: "fst (drive_out_step i ?s) = drive_sent i p ?s'" using True by (simp add: drive_out_step_def pk split_beta)
      note d = drive_sent_ok [OF t(1,2) room l1(7)]
      have "link_step i j l1 (l1\<lparr>tx := drive_sent i p ?s'\<rparr>)" by (rule link_step.tx_other) (simp add: l1(2) d(3))
      moreover have "data_wire (drive_sent i p ?s') = data_wire ?s'" by (rule data_wire_drive_sent)
      ultimately have "feeds i j l (l1\<lparr>tx := drive_sent i p ?s'\<rparr>)"
        using l1 d(1,2) t(3) w by (auto simp: feeds_def)
      then show ?thesis using e by (intro exI [of _ "l1\<lparr>tx := drive_sent i p ?s'\<rparr>"]) simp
    next
      case False
      then have e: "fst (drive_out_step i ?s) = ?s'" using True by (simp add: drive_out_step_def pk split_beta)
      have "b_pendingArp (tbuf ?s' p) \<noteq> 0"
        using False sendPacket_rc [of ?s p i] sp_retry_arp_buf(5) [of i p ?s]
        by (cases "b_pendingArp (tbuf ?s p) = 0") (simp_all add: sendPacket_def)
      then have "waiting i ?s' = concat (map (queued ?s) ps)" using t(2) by (simp add: waiting_def queued_def [of ?s' p] t(3))
      then have "feeds i j l l1" using l1 t(1) w by (simp add: feeds_def)
      then show ?thesis using e l1(2) by metis
    qed
  qed
qed

lemma drive_outgoing_feeds:
  "sender_ok i (net_frames l) (tx l) \<Longrightarrow> s = tx l \<Longrightarrow> \<exists>l'. feeds i j l l' \<and> tx l' = drive_outgoing i s"
proof (induction i s arbitrary: l rule: drive_outgoing.induct)
  case (1 i s)
  obtain l1 where l1: "feeds i j l l1" "tx l1 = fst (drive_out_step i s)"
    using drive_out_step_feeds [OF 1(2), of j] 1(3) by auto
  show ?case
  proof (cases "snd (drive_out_step i s)")
    case True
    obtain l2 where "feeds i j l1 l2" "tx l2 = drive_outgoing i (fst (drive_out_step i s))"
      using 1(1) [OF True feeds_sender_ok [OF l1(1)]] l1(2) by auto
    then show ?thesis using feeds_trans [OF l1(1)] True by (subst drive_outgoing.simps) auto
  next
    case False
    then show ?thesis using l1 by (subst drive_outgoing.simps) auto
  qed
qed

text \<open>A retransmission from the queue of sent buffers.\<close>

lemma drive_retransmit_feeds:
  fixes l :: "('a tcp_state_scheme, 'b tcp_state_scheme) link"
  assumes "sender_ok i (net_frames l) (tx l)" and "p \<in> set (rb_list (sent (socks (tx l) i)))"
  shows "\<exists>l'. feeds i j l l' \<and> tx l' = drive_retransmit i p (tx l)"
proof -
  define t where "t = (let s1 = upd_sock i (\<lambda>k. k\<lparr>SRTT :=
        (if TCP_MAX_SRTT < push_bit 1 (SRTT k) then TCP_MAX_SRTT else push_bit 1 (SRTT k))\<rparr>) (tx l);
      s2 = upd_buf p (\<lambda>b. b\<lparr>b_timeSent := Timer_CurrentTicks (tx l),
        b_overdueAt := Timer_CurrentTicks (tx l) + retrans_ticks (socks s1 i)\<rparr>) s1
    in s2\<lparr>Packets_Retransmitted := Packets_Retransmitted s2 + 1\<rparr>)"
  have t: "drive_retransmit i p (tx l) = resendPacket i p t" "queue_view i t = queue_view i (tx l)" "tx_view i t = tx_view i (tx l)"
    by (simp_all add: drive_retransmit_def Let_def t_def queue_view_def tx_view_def buf_key_def fun_eq_iff)
      (simp_all add: upd_sock_def upd_buf_def xmit_free_def)
  have "data_wire t = data_wire (tx l)" by (rule data_wire_cong) (simp add: t_def upd_sock_def upd_buf_def)
  then have o: "feeds i j l (l\<lparr>tx := t\<rparr>)" by (intro feeds_other [OF assms(1) t(3,2)]) simp
  let ?N = "net_frames l" and ?u = "resendPacket i p t"
  have ok: "sender_ok i ?N t" using feeds_sender_ok [OF o] by simp
  have "sent (socks t i) = sent (socks (tx l) i)" using t(2) by (simp add: queue_view_def)
  then have p: "p \<in> set (rb_list (sent (socks t i)))" using assms(2) by simp
  then have sg: "sent_seg ?N t p" using ok by (simp add: sender_ok_def)
  let ?l = "l\<lparr>tx := ?u, net_frames := insert (tcp_frame (tbuf ?u p)) ?N\<rparr>"
  have st: "link_step i j (l\<lparr>tx := t\<rparr>) ?l"
    using link_step.again [of "l\<lparr>tx := t\<rparr>" p ?u i j] sg by (simp add: sent_seg_def)
  have q: "socks ?u = socks t" "xmit_free ?u = xmit_free t"
    by (simp_all add: xmit_free_def quiet_fields [OF quiet_resendPacket [of i p t]])
  have tb: "tbuf ?u c = tbuf t c" if "c \<noteq> p" for c using that by (simp add: resendPacket_def Let_def split_beta)
  have sp: "sent_seg (insert (tcp_frame (tbuf ?u p)) ?N) ?u p"
    using sg by (simp add: sent_seg_def resendPacket_def Let_def split_beta)
  have out: "c \<noteq> p" if "c \<in> set (rb_list (outgoing (socks t i)))" for c
    using that p ok by (auto simp: sender_ok_def buffers_def)
  have ok': "sender_ok i (insert (tcp_frame (tbuf ?u p)) ?N) t" using ok by (rule sender_ok_mono) auto
  have "sender_ok i (insert (tcp_frame (tbuf ?u p)) ?N) ?u"
  proof (rule sender_okI [OF ok'])
    show "mset (buffers i ?u) \<subseteq># mset (buffers i t)" by (simp add: buffers_def q)
    show "out_seg (insert (tcp_frame (tbuf ?u p)) ?N) ?u c" if "c \<in> set (rb_list (outgoing (socks ?u i)))" for c
    proof -
      have c: "c \<in> set (rb_list (outgoing (socks t i)))" using that by (simp add: q)
      have "buf_key (tbuf ?u c) = buf_key (tbuf t c)" using tb [OF out [OF c]] by simp
      from key_cong(1) [OF this] show ?thesis using ok' c by (simp add: sender_ok_def)
    qed
    show "b_pendingArp (tbuf ?u c) = 0" if "c \<in> set (tl (rb_list (outgoing (socks ?u i))))" for c
    proof -
      have c: "c \<in> set (tl (rb_list (outgoing (socks t i))))" using that by (simp add: q)
      then have "c \<in> set (rb_list (outgoing (socks t i)))" by (cases "rb_list (outgoing (socks t i))") simp_all
      then have "tbuf ?u c = tbuf t c" using tb out by blast
      then show ?thesis using ok' c by (simp add: sender_ok_def)
    qed
    show "sent_seg (insert (tcp_frame (tbuf ?u p)) ?N) ?u c" if "c \<in> set (rb_list (sent (socks ?u i)))" for c
    proof (cases "c = p")
      case False
      have "buf_key (tbuf ?u c) = buf_key (tbuf t c)" using tb [OF False] by simp
      from key_cong(2) [OF this] show ?thesis using ok' that by (simp add: q sender_ok_def)
    qed (use sp in simp)
  qed (use ok' in \<open>simp_all add: q sender_ok_def\<close>)
  moreover have "waiting i ?u = waiting i t"
  proof -
    have "map (queued ?u) (rb_list (outgoing (socks t i))) = map (queued t) (rb_list (outgoing (socks t i)))"
    proof (rule map_cong [OF refl])
      fix c assume "c \<in> set (rb_list (outgoing (socks t i)))"
      from tb [OF out [OF this]] show "queued ?u c = queued t c" by (simp add: queued_def seg_data_def)
    qed
    then show ?thesis by (simp only: waiting_def q)
  qed
  ultimately have "feeds i j (l\<lparr>tx := t\<rparr>) ?l" using st data_wire_resendPacket [of i p t] by (auto simp: feeds_def)
  then show ?thesis using feeds_trans [OF o] t(1) by (intro exI [of _ ?l]) simp
qed

lemma drive_socket_feeds:
  assumes "sender_ok i (net_frames l) (tx l)" and "\<not> snd (drive_socket i (tx l))"
  shows "\<exists>l'. feeds i j l l' \<and> tx l' = fst (drive_socket i (tx l))"
proof (cases "rb_peek (sent (socks (tx l) i))")
  case None
  then show ?thesis using drive_outgoing_feeds [OF assms(1) refl, of j] by (simp add: drive_socket_def)
next
  case (Some p)
  have wf: "rb_wf (sent (socks (tx l) i))" using assms(1) by (simp add: sender_ok_def)
  then have "p \<in> set (rb_list (sent (socks (tx l) i)))" using Some rb.peek_result [OF wf] by (auto split: list.splits)
  then show ?thesis
    using drive_retransmit_feeds [OF assms(1), of p j] drive_outgoing_feeds [OF assms(1) refl, of j] assms(2)
    by (auto simp: drive_socket_def Some split: if_splits)
qed

section \<open>Sending and acknowledgements\<close>

lemma drop_queued_ack_ok:
  fixes s :: "'a tcp_state_scheme" and i
  defines "s' \<equiv> drop_queued_ack i s"
  assumes "sender_ok i N s" and "rb_hasRoom (outgoing (socks s i))"
  shows "sender_ok i N s'" and "waiting i s' = waiting i s" and "tx_view i s' = tx_view i s" and "tbuf s' = tbuf s"
    and "mset (buffers i s') \<subseteq># mset (buffers i s)" and "rb_hasRoom (outgoing (socks s' i))" and "wire s' = wire s"
    and "sk_core (socks s' i) = sk_core (socks s i)"
proof -
  have wf: "rb_wf (outgoing (socks s i))" using assms(2) by (simp add: sender_ok_def)
  have "s' = s \<or> (\<exists>p ps. rb_list (outgoing (socks s i)) = p # ps \<and> b_dataLen (tbuf s p) = 0 \<and>
      s' = returnXmitBuf p (upd_sock i (\<lambda>k. k\<lparr>outgoing := fst (rb_dequeue (outgoing k))\<rparr>) s))"
    using rb.peek_result [OF wf] by (auto simp: s'_def drop_queued_ack_def Let_def split: option.splits list.splits)
  then consider "s' = s" | p ps where "rb_list (outgoing (socks s i)) = p # ps" "b_dataLen (tbuf s p) = 0"
    "s' = returnXmitBuf p (upd_sock i (\<lambda>k. k\<lparr>outgoing := fst (rb_dequeue (outgoing k))\<rparr>) s)" by blast
  then have "sender_ok i N s' \<and> waiting i s' = waiting i s \<and> tx_view i s' = tx_view i s \<and> tbuf s' = tbuf s \<and>
     mset (buffers i s') \<subseteq># mset (buffers i s) \<and> rb_hasRoom (outgoing (socks s' i)) \<and> wire s' = wire s \<and>
     sk_core (socks s' i) = sk_core (socks s i)"
  proof cases
    case 1
    then show ?thesis using assms(2,3) by simp
  next
    case 2
    note dq = rb.deq_some [OF wf 2(1)]
    have f: "outgoing (socks s' i) = fst (rb_dequeue (outgoing (socks s i)))" "sent (socks s' i) = sent (socks s i)"
      "state (socks s' i) = state (socks s i)" "maxEnqueueSize (socks s' i) = maxEnqueueSize (socks s i)" "tbuf s' = tbuf s"
      "sk_core (socks s' i) = sk_core (socks s i)" "wire s' = wire s" "tx_view i s' = tx_view i s"
      by (simp_all add: 2(3) sk_core_def) (simp_all add: returnXmitBuf_def upd_sock_def tx_view_def Let_def)
    have "unat (freeXmitBuffers s) < 255" using assms(2) by (simp add: sender_ok_def buffers_def length_xmit_free)
    then have x: "xmit_free s' = xmit_free s @ (if pooled s p then [p] else [])"
      by (simp add: 2(3)) (simp add: upd_sock_def xmit_free_def pooled_def returnXmitBuf_def u8_Suc)
    have m: "mset (buffers i s') \<subseteq># mset (buffers i s)" using dq 2(1) by (simp add: buffers_def f x)
    have o: "out_seg N s' c = out_seg N s c" "sent_seg N s' c = sent_seg N s c" "queued s' c = queued s c" for c
      by (simp_all add: out_seg_def sent_seg_def queued_def seg_data_def f(5))
    have "sender_ok i N s'"
    proof (rule sender_okI [OF assms(2) f(3,4) _ _ m])
      show "b_pendingArp (tbuf s' c) = 0" if "c \<in> set (tl (rb_list (outgoing (socks s' i))))" for c
      proof -
        have "c \<in> set ps" using that dq by (cases ps) (simp_all add: f)
        then show ?thesis using assms(2) 2(1) by (simp add: sender_ok_def f(5))
      qed
    qed (use assms(2) dq 2(1) in \<open>simp_all add: sender_ok_def f(1,2) o\<close>)
    moreover have "waiting i s' = waiting i s"
      using dq 2(1,2) by (simp add: waiting_def f(1) o queued_def [of s p] seg_data_def cong: map_cong)
    moreover have "rb_hasRoom (outgoing (socks s' i))"
      using rb.room_iff [OF wf] rb.room_iff [of "outgoing (socks s' i)"] dq assms(3) 2(1) by (simp add: f(1))
    ultimately show ?thesis using f m by simp
  qed
  then show "sender_ok i N s'" "waiting i s' = waiting i s" "tx_view i s' = tx_view i s" "tbuf s' = tbuf s"
    "mset (buffers i s') \<subseteq># mset (buffers i s)" "rb_hasRoom (outgoing (socks s' i))" "wire s' = wire s"
    "sk_core (socks s' i) = sk_core (socks s i)" by simp_all
qed

text \<open>A fresh buffer goes to the end of the queue.\<close>

lemma enqueue_ok:
  fixes s :: "'a tcp_state_scheme" and i b
  defines "s' \<equiv> fst (enqueue i b s)"
  assumes "sender_ok i N s" and "rb_hasRoom (outgoing (socks s i))" and "b \<notin> set (buffers i s)" and "b \<noteq> StackBuffer"
    and "length (buffers i s) < 254" and "b_dataLen (tbuf s b) \<le> maxEnqueueSize (socks s i)"
  shows "sender_ok i N s'" and "waiting i s' = waiting i s @ seg_data b s" and "tx_view i s' = tx_view i s"
    and "wire s' = wire s"
proof -
  define t where "t = drop_queued_ack i s"
  note d = drop_queued_ack_ok [OF assms(2,3), folded t_def]
  have wf: "rb_wf (outgoing (socks t i))" using d(1) by (simp add: sender_ok_def)
  have room: "length (rb_list (outgoing (socks t i))) < 4" using rb.room_iff [OF wf] d(6) by simp
  note eq = rb.enq_room [OF wf room, of b]
  have me: "maxEnqueueSize (socks t i) = maxEnqueueSize (socks s i)"
    by (auto simp: t_def drop_queued_ack_def Let_def split: option.split)
  have nr: "\<not> enqueue_refused i b (socks s i)" "\<not> maxEnqueueSize (socks s i) < b_dataLen (tbuf s b)"
    using assms(2,7) by (simp_all add: sender_ok_def enqueue_refused_def)
  have bt: "b \<notin> set (buffers i t)" "length (buffers i t) < 254"
    using mset_sub_distinct [OF d(5)] assms(2,4,6) by (auto simp: sender_ok_def)
  have f: "outgoing (socks s' i) = fst (rb_enqueue b (outgoing (socks t i)))" "sent (socks s' i) = sent (socks t i)"
    "state (socks s' i) = state (socks t i)" "maxEnqueueSize (socks s' i) = maxEnqueueSize (socks t i)"
    "tbuf s' = (tbuf s)(b := reset_accounting (tbuf s b))" "xmit_free s' = xmit_free t" "wire s' = wire t" "tx_view i s' = tx_view i t"
    using nr d(4) by (simp_all add: s'_def enqueue_def t_def [symmetric] Let_def split_beta)
      (simp_all add: upd_sock_def upd_buf_def xmit_free_def tx_view_def Let_def)
  show "tx_view i s' = tx_view i s" "wire s' = wire s" using f(7,8) d(3,7) by simp_all
  have k: "buf_key (tbuf s' c) = buf_key (tbuf t c)" if "c \<noteq> b" for c using that by (simp add: f(5) d(4))
  have nb: "c \<noteq> b" if "c \<in> set (rb_list (outgoing (socks t i))) \<union> set (rb_list (sent (socks t i)))" for c
    using that bt(1) by (auto simp: buffers_def)
  have ob: "out_seg N s' b"
    using assms(2,7) by (simp add: out_seg_def f(5) reset_accounting_def isForceProbe_def sender_ok_def word_le_nat_alt)
  have "mset (buffers i s') = add_mset b (mset (buffers i t))" using eq by (simp add: buffers_def f)
  then have m: "mset (buffers i s') = mset (b # buffers i t)" by simp
  have dt: "distinct (b # buffers i t)" using bt(1) d(1) by (simp add: sender_ok_def)
  note ms = mset_sub_distinct [of "buffers i s'" "b # buffers i t", unfolded m, OF subset_mset.order_refl dt]
  have tl: "c \<in> set (rb_list (outgoing (socks t i))) \<union> {b} \<and> b_pendingArp (tbuf s' c) = 0"
    if "c \<in> set (tl (rb_list (outgoing (socks s' i))))" for c
  proof -
    have "c \<in> set (tl (rb_list (outgoing (socks t i)))) \<union> {b}"
      using that eq by (cases "rb_list (outgoing (socks t i))") (simp_all add: f(1))
    moreover have "c \<in> set (rb_list (outgoing (socks t i)))" if "c \<in> set (tl (rb_list (outgoing (socks t i))))"
      using that by (cases "rb_list (outgoing (socks t i))") simp_all
    ultimately show ?thesis
      using d(1) nb [of c] by (auto simp: sender_ok_def f(5) reset_accounting_def d(4) split: if_splits)
  qed
  show "sender_ok i N s'"
    unfolding sender_ok_def
  proof (intro conjI ballI)
    show "out_seg N s' c" if "c \<in> set (rb_list (outgoing (socks s' i)))" for c
    proof (cases "c = b")
      case False
      then have "c \<in> set (rb_list (outgoing (socks t i)))" using that eq by (simp add: f(1))
      then show ?thesis using d(1) key_cong(1) [OF k [OF False], of N] by (simp add: sender_ok_def)
    qed (use ob in simp)
    show "b_pendingArp (tbuf s' c) = 0" if "c \<in> set (tl (rb_list (outgoing (socks s' i))))" for c using tl [OF that] by simp
    show "sent_seg N s' c" if "c \<in> set (rb_list (sent (socks s' i)))" for c
    proof -
      have c: "c \<in> set (rb_list (sent (socks t i)))" using that by (simp add: f(2))
      then show ?thesis using d(1) key_cong(2) [OF k [OF nb], of c N] by (simp add: sender_ok_def)
    qed
    show "distinct (buffers i s')" by (rule ms(1))
    show "StackBuffer \<notin> set (buffers i s')" using ms(2) assms(5) d(1) by (auto simp: sender_ok_def)
    show "length (buffers i s') \<le> 254" using ms(3) bt(2) by simp
  qed (use d(1) eq in \<open>simp_all add: sender_ok_def f\<close>)
  have e: "map (queued s') (rb_list (outgoing (socks t i))) = map (queued t) (rb_list (outgoing (socks t i)))"
    by (rule map_cong [OF refl], rule key_cong(3) [OF k]) (use nb in blast)
  have qb: "queued s' b = seg_data b s" by (simp add: queued_def f(5) reset_accounting_def seg_data_def)
  show "waiting i s' = waiting i s @ seg_data b s"
    unfolding d(2) [symmetric] by (simp add: waiting_def f(1) eq e qb)
qed

lemma getXmitBuf_some:
  assumes "snd (getXmitBuf s) = Some b"
  shows "xmit_free s = xmit_free (fst (getXmitBuf s)) @ [b]" and "socks (fst (getXmitBuf s)) = socks s"
    and "tbuf (fst (getXmitBuf s)) = tbuf s" and "wire (fst (getXmitBuf s)) = wire s" and "tx_view i (fst (getXmitBuf s)) = tx_view i s"
proof -
  have n: "freeXmitBuffers s \<noteq> 0" and b: "b = xmitBuffers s (unat (freeXmitBuffers s - 1))"
    using assms by (auto simp: getXmitBuf_def split: if_splits)
  have "unat (freeXmitBuffers s) = Suc (unat (freeXmitBuffers s - 1))"
    using n unat_minus_one [of "freeXmitBuffers s"] unat_gt_0 [of "freeXmitBuffers s"] by simp
  then show "xmit_free s = xmit_free (fst (getXmitBuf s)) @ [b]" using n by (simp add: xmit_free_def getXmitBuf_def b)
  show "socks (fst (getXmitBuf s)) = socks s" "tbuf (fst (getXmitBuf s)) = tbuf s" "wire (fst (getXmitBuf s)) = wire s"
    "tx_view i (fst (getXmitBuf s)) = tx_view i s"
    by (simp_all add: getXmitBuf_def tx_view_def Let_def)
qed

text \<open>One turn of \<open>send\<close>: the next bytes of the user are queued.\<close>

lemma send_step_ok:
  fixes s :: "'a tcp_state_scheme" and i m len n b
  defines "r \<equiv> send_step i m len n b (fst (getXmitBuf s))"
  assumes "sender_ok i N s" and "rb_hasRoom (outgoing (socks s i))" and "snd (getXmitBuf s) = Some b" and "n < len"
  shows "sender_ok i N (fst r)" and "unat n \<le> unat (snd r)" and "unat (snd r) \<le> unat len"
    and "waiting i (fst r) = waiting i s @ rdbytes m (unat n) (unat (snd r) - unat n)"
    and "tx_view i (fst r) = tx_view i s" and "wire (fst r) = wire s"
proof -
  define t where "t = fst (getXmitBuf s)"
  note g = getXmitBuf_some [OF assms(4), folded t_def]
  define c where "c = (let sz = getSuggestedSendSize (socks t i) in if len - n < sz then len - n else sz)"
  define u where "u = upd_buf b (\<lambda>d. d\<lparr>b_data := memcpy (b_data d) 0 (rdbytes m (unat n) (unat c)), b_dataLen := c\<rparr>) t"
  have r: "r = (fst (enqueue i b u), n + c)" by (simp add: r_def send_step_def t_def [symmetric] Let_def c_def u_def)
  have bs: "mset (buffers i s) = add_mset b (mset (buffers i t))" by (simp add: buffers_def g)
  have ds: "distinct (buffers i s)" "StackBuffer \<notin> set (buffers i s)" "length (buffers i s) \<le> 254"
    using assms(2) by (simp_all add: sender_ok_def)
  have sb: "set (buffers i s) = insert b (set (buffers i t))" using bs by (metis set_mset_add_mset_insert set_mset_mset)
  have db: "distinct (b # buffers i t)" using mset_sub_distinct(1) [of "b # buffers i t" "buffers i s"] bs ds(1) by simp
  have lb: "length (buffers i s) = Suc (length (buffers i t))" using arg_cong [OF bs, of size] by simp
  have kt: "buf_key (tbuf t p) = buf_key (tbuf s p)" for p by (simp add: g)
  have t: "sender_ok i N t"
  proof (rule sender_okI [OF assms(2)])
    show "mset (buffers i t) \<subseteq># mset (buffers i s)" by (simp add: bs)
  qed (use assms(2) in \<open>simp_all add: sender_ok_def g(2) key_cong [OF kt]\<close>)
  have uq: "buffers i u = buffers i t" "socks u = socks t" by (simp_all add: u_def buffers_def xmit_free_def) (simp add: upd_buf_def)
  have k: "buf_key (tbuf u p) = buf_key (tbuf t p)" if "p \<noteq> b" for p using that by (simp add: u_def)
  have nb: "p \<noteq> b" if "p \<in> set (rb_list (outgoing (socks t i))) \<union> set (rb_list (sent (socks t i)))" for p
    using that db by (auto simp: buffers_def)
  have u: "sender_ok i N u"
  proof (rule sender_okI [OF t])
    show "out_seg N u p" if "p \<in> set (rb_list (outgoing (socks u i)))" for p
      using that t key_cong(1) [OF k [OF nb], of p N] by (simp add: sender_ok_def uq)
    show "b_pendingArp (tbuf u p) = 0" if "p \<in> set (tl (rb_list (outgoing (socks u i))))" for p
    proof -
      have p: "p \<in> set (tl (rb_list (outgoing (socks t i))))" using that by (simp add: uq)
      then have "p \<in> set (rb_list (outgoing (socks t i)))" by (cases "rb_list (outgoing (socks t i))") simp_all
      then show ?thesis using t p key_cong(4) [OF k [OF nb], of p] by (simp add: sender_ok_def)
    qed
    show "sent_seg N u p" if "p \<in> set (rb_list (sent (socks u i)))" for p
      using that t key_cong(2) [OF k [OF nb], of p N] by (simp add: sender_ok_def uq)
  qed (use t in \<open>simp_all add: uq sender_ok_def\<close>)
  have wu: "waiting i u = waiting i t"
  proof -
    have "map (queued u) (rb_list (outgoing (socks t i))) = map (queued t) (rb_list (outgoing (socks t i)))"
      by (rule map_cong [OF refl], rule key_cong(3) [OF k]) (use nb in blast)
    then show ?thesis by (simp only: waiting_def uq)
  qed
  have wt: "waiting i t = waiting i s"
    by (simp add: waiting_def g(2) key_cong(3) [OF kt] cong: map_cong)
  have cm: "c \<le> maxEnqueueSize (socks t i)" and cl: "c \<le> len - n"
    by (auto simp: c_def Let_def getSuggestedSendSize_def)
  have room: "rb_hasRoom (outgoing (socks u i))" using assms(3) by (simp add: uq g)
  have b1: "b \<notin> set (buffers i u)" "b \<noteq> StackBuffer" "length (buffers i u) < 254"
    using db ds lb by (auto simp: uq sb)
  have b2: "b_dataLen (tbuf u b) \<le> maxEnqueueSize (socks u i)" using cm by (simp add: uq) (simp add: u_def)
  note e = enqueue_ok [OF u room b1 b2]
  show "sender_ok i N (fst r)" using e(1) by (simp add: r)
  have ln: "unat (len - n) = unat len - unat n" using assms(5) by (simp add: u16_sub)
  have "unat c \<le> unat len - unat n" using cl unfolding word_le_nat_alt ln .
  moreover have "unat n < unat len" "unat len < 65536" using assms(5) u16_bound [of len] by (simp_all add: word_less_nat_alt)
  ultimately have nc: "unat (n + c) = unat n + unat c" "unat n + unat c \<le> unat len" by (simp_all add: u16_add)
  then show "unat n \<le> unat (snd r)" "unat (snd r) \<le> unat len" by (simp_all add: r)
  have "seg_data b u = rdbytes m (unat n) (unat c)"
    using rdbytes_memcpy_same [of "b_data (tbuf t b)" 0 "rdbytes m (unat n) (unat c)"] by (simp add: seg_data_def u_def)
  then show "waiting i (fst r) = waiting i s @ rdbytes m (unat n) (unat (snd r) - unat n)"
    using e(2) nc wu wt by (simp add: r)
  have "tx_view i u = tx_view i t" "wire u = wire t" by (simp_all add: u_def) (simp_all add: upd_buf_def tx_view_def Let_def)
  then show "tx_view i (fst r) = tx_view i s" "wire (fst r) = wire s" using e(3,4) g by (simp_all add: r)
qed

lemma send_loop_ok:
  assumes "send_loop i m len n s = Some x" and "sender_ok i N s"
  shows "sender_ok i N (fst x) \<and> tx_view i (fst x) = tx_view i s \<and> wire (fst x) = wire s \<and> unat n \<le> unat (snd x) \<and>
    (unat n \<le> unat len \<longrightarrow> unat (snd x) \<le> unat len) \<and>
    waiting i (fst x) = waiting i s @ rdbytes m (unat n) (unat (snd x) - unat n)"
  using assms
proof (induction rule: send_loop.raw_induct [rotated, consumes 1, case_names 1])
  case (1 loop i m len n s x)
  show ?case
  proof (cases "n < len \<and> rb_hasRoom (outgoing (socks s i)) \<and> snd (getXmitBuf s) \<noteq> None")
    case True
    then obtain b where b: "snd (getXmitBuf s) = Some b" by blast
    define r where "r = send_step i m len n b (fst (getXmitBuf s))"
    have l: "loop i m len (snd r) (fst r) = Some x" using 1(2) True b by (simp add: r_def)
    note st = send_step_ok [OF 1(3) _ b, of n len m, folded r_def]
    have st: "sender_ok i N (fst r)" "unat n \<le> unat (snd r)" "unat (snd r) \<le> unat len"
      "waiting i (fst r) = waiting i s @ rdbytes m (unat n) (unat (snd r) - unat n)"
      "tx_view i (fst r) = tx_view i s" "wire (fst r) = wire s"
      using True st by blast+
    note ih = 1(1) [OF l st(1)]
    have "rdbytes m (unat n) (unat (snd x) - unat n) =
        rdbytes m (unat n) (unat (snd r) - unat n) @ rdbytes m (unat (snd r)) (unat (snd x) - unat (snd r))"
      using rdbytes_append [of m "unat n" "unat (snd r) - unat n" "unat (snd x) - unat (snd r)"] ih st(2) by simp
    then show ?thesis using ih st by simp
  next
    case False
    then have "x = (s, n)" using 1(2) by (auto split: if_splits option.splits)
    then show ?thesis using 1(3) by simp
  qed
qed

lemma send_ok:
  assumes "send i m n s = Some (s', r)" and "sender_ok i N s" and "n \<le> 32767"
  shows "sender_ok i N s'" and "tx_view i s' = tx_view i s" and "wire s' = wire s"
    and "waiting i s' = waiting i s @ rdbytes m 0 (nat r)"
proof -
  have "sender_ok i N s' \<and> tx_view i s' = tx_view i s \<and> wire s' = wire s \<and> waiting i s' = waiting i s @ rdbytes m 0 (nat r)"
  proof (cases "remoteWindow (socks s i) = 0")
    case True
    then show ?thesis using assms(1,2) by (simp add: send_def sender_ok_def)
  next
    case False
    then obtain x where x: "send_loop i m n 0 s = Some x" "s' = fst x" "r = sint (snd x)"
      using assms(1,2) by (auto simp: send_def sender_ok_def)
    note l = send_loop_ok [OF x(1) assms(2)]
    have "unat n \<le> 32767" using assms(3) by (simp add: word_le_nat_alt)
    then have "unat (snd x) < 32768" using l by simp
    then have "nat r = unat (snd x)" using sint_u16_small [of "snd x"] x(3) by simp
    then show ?thesis using l x(2) by simp
  qed
  then show "sender_ok i N s'" "tx_view i s' = tx_view i s" "wire s' = wire s" "waiting i s' = waiting i s @ rdbytes m 0 (nat r)"
    by simp_all
qed

lemma removeSentPackets_keeps:
  assumes "\<And>t. f (fst (remove_step i a t)) = f t"
  shows "f (removeSentPackets i a s) = f s"
proof (induction i\<equiv>i a\<equiv>a s rule: removeSentPackets.induct)
  case (1 s)
  then show ?case using assms by (subst removeSentPackets.simps) auto
qed

lemma removeSentPackets_ok:
  fixes s :: "'a tcp_state_scheme" and i a
  defines "s' \<equiv> removeSentPackets i a s"
  assumes "sender_ok i N s"
  shows "sender_ok i N s'" and "waiting i s' = waiting i s" and "tx_view i s' = tx_view i s" and "wire s' = wire s"
proof -
  let ?xs = "rb_list (sent (socks s i))"
  have wf: "rb_wf (sent (socks s i))" using assms(2) by (simp add: sender_ok_def)
  have "length (xmit_free s) + length ?xs \<le> 255" using assms(2) by (simp add: sender_ok_def buffers_def)
  from removeSentPackets_removed [OF wf refl this, of a]
  have r: "rb_wf (sent (socks s' i))" "rb_list (sent (socks s' i)) = dropWhile (acked i a s) ?xs" "tbuf s' = tbuf s"
    "xmit_free s' = xmit_free s @ filter (pooled s) (takeWhile (acked i a s) ?xs)"
    by (simp_all add: removed_def s'_def)
  have k: "(state (socks (fst (remove_step i a t)) i), maxEnqueueSize (socks (fst (remove_step i a t)) i),
      outgoing (socks (fst (remove_step i a t)) i), tx_view i (fst (remove_step i a t)), wire (fst (remove_step i a t))) =
    (state (socks t i), maxEnqueueSize (socks t i), outgoing (socks t i), tx_view i t, wire t)" for t :: "'a tcp_state_scheme"
    by (auto simp: remove_step_def Let_def srtt_update_def tx_view_def split: option.split)
      (simp_all add: upd_sock_def returnXmitBuf_def srtt_update_def)
  from removeSentPackets_keeps [of "\<lambda>t. (state (socks t i), maxEnqueueSize (socks t i), outgoing (socks t i), tx_view i t, wire t)", OF k]
  have f: "state (socks s' i) = state (socks s i)" "maxEnqueueSize (socks s' i) = maxEnqueueSize (socks s i)"
    "outgoing (socks s' i) = outgoing (socks s i)" "tx_view i s' = tx_view i s" "wire s' = wire s"
    by (simp_all add: s'_def)
  then show "tx_view i s' = tx_view i s" "wire s' = wire s" by simp_all
  have o: "out_seg N s' c = out_seg N s c" "sent_seg N s' c = sent_seg N s c" "queued s' c = queued s c" for c
    by (simp_all add: out_seg_def sent_seg_def queued_def seg_data_def r(3))
  show "waiting i s' = waiting i s" by (simp add: waiting_def f o cong: map_cong)
  have "mset ?xs = mset (takeWhile (acked i a s) ?xs) + mset (dropWhile (acked i a s) ?xs)"
    by (metis mset_append takeWhile_dropWhile_id)
  then have m: "mset (buffers i s') \<subseteq># mset (buffers i s)"
    by (simp add: buffers_def r f multiset_filter_subset subset_mset.add_mono)
  show "sender_ok i N s'"
  proof (rule sender_okI [OF assms(2) f(1,2) _ _ m])
    show "sent_seg N s' c" if "c \<in> set (rb_list (sent (socks s' i)))" for c
      using set_dropWhileD [OF that [unfolded r(2)]] assms(2) by (simp add: sender_ok_def o)
  qed (use assms(2) in \<open>simp_all add: sender_ok_def o r f\<close>)
qed

section \<open>From the calls of one program to those of the other\<close>

text \<open>
  \<open>tr_accepted\<close> are the bytes the calls of \<open>send\<close> accepted, \<open>tr_received\<close> those the calls of \<open>recv\<close> returned.  The network is
  the wire of the sender: it delivers frames that were given to the driver, in any order and number.
\<close>

record ('s, 't) transfer =
  tr_from :: 's
  tr_to :: 't
  tr_accepted :: "u8 list"
  tr_received :: "u8 list"

inductive transfer_step ::
    "nat \<Rightarrow> nat \<Rightarrow> ('a tcp_state_scheme, 'b tcp_state_scheme) transfer \<Rightarrow>
     ('a tcp_state_scheme, 'b tcp_state_scheme) transfer \<Rightarrow> bool"
  for i j where
  sending: "send i m n (tr_from x) = Some (s', r) \<Longrightarrow> n \<le> 32767 \<Longrightarrow>
    transfer_step i j x (x\<lparr>tr_from := s', tr_accepted := tr_accepted x @ rdbytes m 0 (nat r)\<rparr>)"
| driving: "drive_socket i (tr_from x) = (s', False) \<Longrightarrow> transfer_step i j x (x\<lparr>tr_from := s'\<rparr>)"
| acknowledged: "transfer_step i j x (x\<lparr>tr_from := removeSentPackets i a (tr_from x)\<rparr>)"
| from_other: "tx_view i s' = tx_view i (tr_from x) \<Longrightarrow> queue_view i s' = queue_view i (tr_from x) \<Longrightarrow>
    data_wire s' \<subseteq> data_wire (tr_from x) \<Longrightarrow> transfer_step i j x (x\<lparr>tr_from := s'\<rparr>)"
| arriving: "f \<in> data_wire (tr_from x) \<Longrightarrow> holds_frame f p (tr_to x) \<Longrightarrow> Tcp_process p (tr_to x) = Some t' \<Longrightarrow>
    transfer_step i j x (x\<lparr>tr_to := t'\<rparr>)"
| garbled: "\<not> tcp_checksum_ok p (tr_to x) \<Longrightarrow> Tcp_process p (tr_to x) = Some t' \<Longrightarrow> transfer_step i j x (x\<lparr>tr_to := t'\<rparr>)"
| reading: "recv j n (tr_to x) = (t', rc, xs) \<Longrightarrow>
    transfer_step i j x (x\<lparr>tr_to := t', tr_received := tr_received x @ xs\<rparr>)"
| to_other: "rx_view t' = rx_view (tr_to x) \<Longrightarrow> transfer_step i j x (x\<lparr>tr_to := t'\<rparr>)"

definition new_transfer :: "'s \<Rightarrow> 't \<Rightarrow> ('s, 't) transfer" where
  "new_transfer s t = \<lparr>tr_from = s, tr_to = t, tr_accepted = [], tr_received = []\<rparr>"

text \<open>The link of \<open>EndToEnd\<close> simulates it: what is accepted is what was handed to the network and what still waits.\<close>

definition simulates ::
    "nat \<Rightarrow> nat \<Rightarrow> 'a tcp_state_scheme \<Rightarrow> 'b tcp_state_scheme \<Rightarrow> ('a tcp_state_scheme, 'b tcp_state_scheme) link \<Rightarrow>
     ('a tcp_state_scheme, 'b tcp_state_scheme) transfer \<Rightarrow> bool" where
  "simulates i j s t l x \<longleftrightarrow> (link_step i j)\<^sup>*\<^sup>* (new_link s t) l \<and> tr_from x = tx l \<and> tr_to x = rx l \<and>
     tr_received x = read_bytes l \<and> sender_ok i (net_frames l) (tx l) \<and> tr_accepted x = sent_bytes l @ waiting i (tx l) \<and>
     data_wire (tx l) \<subseteq> net_frames l"

lemma simulates_feeds:
  assumes "simulates i j s t l x" and "feeds i j l l'" and "x' = x\<lparr>tr_from := tx l'\<rparr>"
  shows "simulates i j s t l' x'"
  using assms unfolding simulates_def feeds_def by (elim conjE, intro conjI) (auto intro: rtranclp_trans)

lemma simulates_rx:
  assumes "simulates i j s t l x" and "link_step i j l l'" and "tx l' = tx l" and "net_frames l' = net_frames l"
    and "sent_bytes l' = sent_bytes l" and "x' = x\<lparr>tr_to := rx l', tr_received := read_bytes l'\<rparr>"
  shows "simulates i j s t l' x'"
  using assms unfolding simulates_def by (auto intro: rtranclp.rtrancl_into_rtrancl)

lemma transfer_simulated:
  assumes "transfer_step i j x x'" and "simulates i j s t l x"
  shows "\<exists>l'. simulates i j s t l' x'"
proof -
  have e: "tx l = tr_from x" "rx l = tr_to x" "read_bytes l = tr_received x" and ok: "sender_ok i (net_frames l) (tx l)"
    and acc: "sent_bytes l @ waiting i (tx l) = tr_accepted x" and dw: "data_wire (tx l) \<subseteq> net_frames l"
    using assms(2) by (simp_all add: simulates_def)
  show ?thesis
    using assms(1)
  proof (cases rule: transfer_step.cases)
    case (sending m n s' r)
    note so = send_ok [OF sending(2) [folded e(1)] ok sending(3)]
    have "link_step i j l (l\<lparr>tx := s'\<rparr>)" by (rule link_step.tx_other) (rule so(2))
    then have "simulates i j s t (l\<lparr>tx := s'\<rparr>) x'"
      using assms(2) so acc dw data_wire_cong [OF so(3)] unfolding simulates_def sending(1)
      by (auto intro: rtranclp.rtrancl_into_rtrancl)
    then show ?thesis by blast
  next
    case (driving s')
    then obtain l' where "feeds i j l l'" "tx l' = s'" using drive_socket_feeds [OF ok, of j] e(1) by auto
    then show ?thesis using simulates_feeds [OF assms(2)] driving(1) by blast
  next
    case (acknowledged a)
    note r = removeSentPackets_ok [OF ok, of a]
    let ?l = "l\<lparr>tx := removeSentPackets i a (tx l)\<rparr>"
    have "link_step i j l ?l" by (rule link_step.tx_other) (rule r(3))
    then have "feeds i j l ?l" using r data_wire_cong [OF r(4)] by (auto simp: feeds_def)
    then show ?thesis using simulates_feeds [OF assms(2)] acknowledged e(1) by force
  next
    case (from_other s')
    then have "feeds i j l (l\<lparr>tx := s'\<rparr>)" using feeds_other [OF ok] e(1) by simp
    then show ?thesis using simulates_feeds [OF assms(2)] from_other(1) by force
  next
    case (arriving f p t')
    then have "link_step i j l (l\<lparr>rx := t'\<rparr>)" using link_step.arrives [of f l p t' i j] dw e by auto
    then show ?thesis using simulates_rx [OF assms(2)] arriving(1) e by force
  next
    case (garbled p t')
    then have "link_step i j l (l\<lparr>rx := t'\<rparr>)" using link_step.damaged [of p l t' i j] e by auto
    then show ?thesis using simulates_rx [OF assms(2)] garbled(1) e by force
  next
    case (reading n t' rc xs)
    then have "link_step i j l (l\<lparr>rx := t', read_bytes := read_bytes l @ xs\<rparr>)" using link_step.reads [of j n l t' rc xs i] e by auto
    then show ?thesis using simulates_rx [OF assms(2)] reading(1) e by force
  next
    case (to_other t')
    then have "link_step i j l (l\<lparr>rx := t'\<rparr>)" using link_step.rx_other [of t' l i j] e by auto
    then show ?thesis using simulates_rx [OF assms(2)] to_other(1) e by force
  qed
qed

lemma transfers_simulated:
  assumes "(transfer_step i j)\<^sup>*\<^sup>* (new_transfer s t) x" and "sender_ok i {} s" and "waiting i s = []" and "data_wire s = {}"
  shows "\<exists>l. simulates i j s t l x"
  using assms(1)
proof (induction rule: rtranclp_induct)
  case base
  have "simulates i j s t (new_link s t) (new_transfer s t)"
    using assms(2-4) by (simp add: simulates_def new_link_def new_transfer_def)
  then show ?case by blast
next
  case (step x x')
  then show ?case using transfer_simulated by blast
qed

section \<open>Properties\<close>

text \<open>
  C1. A TCP connection is a reliable byte stream: from two connected hosts with empty queues on, whatever sequence of
  calls of \<open>send\<close>, of the driver and of acknowledgements on one side, of arrivals (in any order, repeated or never, or
  damaged) and of calls of \<open>recv\<close> on the other, the bytes received, with those still in the receive buffer, are a
  prefix of the bytes that \<open>send\<close> accepted.  The stream has less than \<open>2 ^ 32\<close> bytes, a call of \<open>send\<close> at most 32767.
\<close>

theorem tcp_is_reliable_stream:
  assumes "paired i j s t" and "rcv_contents j t = []" and "sender_ok i {} s" and "waiting i s = []" and "data_wire s = {}"
    and "(transfer_step i j)\<^sup>*\<^sup>* (new_transfer s t) x" and "length (tr_accepted x) < 2 ^ 32"
  shows "prefix (tr_received x @ rcv_contents j (tr_to x)) (tr_accepted x)"
proof -
  obtain l where l: "simulates i j s t l x" using transfers_simulated [OF assms(6,3-5)] by blast
  then have e: "sent_bytes l @ waiting i (tx l) = tr_accepted x" "rx l = tr_to x" "read_bytes l = tr_received x"
    by (simp_all add: simulates_def)
  have "length (sent_bytes l) < 2 ^ 32" using assms(7) arg_cong [OF e(1), of length] by simp
  then have "prefix (read_bytes l @ rcv_contents j (rx l)) (sent_bytes l)"
    using tcp_stream_delivered_in_order [OF assms(1,2)] l by (simp add: simulates_def)
  then show ?thesis unfolding e(1) [symmetric] by (simp add: e(2,3))
qed

text \<open>The host of \<open>demo_host\<close> with one transmit buffer in its pool.\<close>

definition demo_tx :: tcp_state where
  "demo_tx = (upd_sock 0 (\<lambda>k. k\<lparr>maxEnqueueSize := 512\<rparr>) demo_host)\<lparr>xmitBuffers := (\<lambda>_. XmitBuffer 0), freeXmitBuffers := 1\<rparr>"

lemma demo_tx_fields:
  "socks demo_tx 0 = zero_socket\<lparr>state := TCP_STATE_ESTABLISHED, seqNum := 1000, ackNum := 77, srcPort := 1025,
     dstPort := 6667, dstHost := (10, 0, 0, 2), cachedMacAddr := (1, 2, 3), remoteWindow := 512, maxEnqueueSize := 512\<rparr>"
  "MyIpAddr demo_tx = (10, 0, 0, 1)" "wire demo_tx = []" "drv_carry demo_tx = (\<lambda>_. False)"
  "xmitBuffers demo_tx = (\<lambda>_. XmitBuffer 0)" "freeXmitBuffers demo_tx = 1"
  by (simp_all add: demo_tx_def demo_host_def demo_send_def) (simp_all add: upd_sock_def upd_buf_def zero_state)

lemma empty_ring_simps: "rb_wf empty_ring" "rb_list empty_ring = []" "rb_entries empty_ring = 0"
  by (simp_all add: empty_ring_def rb_wf_def rb_list_def)

lemma demo_tx_ok: "sender_ok 0 {} demo_tx" "waiting 0 demo_tx = []" "data_wire demo_tx = {}" "paired 0 0 demo_tx demo_peer"
proof -
  have "xmit_free demo_tx = [XmitBuffer 0]" by (simp add: xmit_free_def demo_tx_fields)
  then show "sender_ok 0 {} demo_tx"
    by (simp add: sender_ok_def buffers_def demo_tx_fields zero_socket_def empty_ring_simps)
  show "waiting 0 demo_tx = []" by (simp add: waiting_def demo_tx_fields zero_socket_def empty_ring_simps)
  show "data_wire demo_tx = {}" by (simp add: data_wire_def demo_tx_fields)
  show "paired 0 0 demo_tx demo_peer"
    using demo_paired(1) by (simp add: paired_def Let_def demo_tx_fields demo_host_ports)
qed

text \<open>The five bytes go into the buffer and the buffer into the queue.\<close>

definition demo_queued :: tcp_state where
  "demo_queued = fst (enqueue 0 (XmitBuffer 0) (upd_buf (XmitBuffer 0) (\<lambda>d. d\<lparr>b_data :=
     memcpy (b_data d) 0 (rdbytes (\<lambda>i. of_nat (65 + i)) 0 5), b_dataLen := 5\<rparr>) (demo_tx\<lparr>freeXmitBuffers := 0\<rparr>)))"

lemma demo_queued_sent: "send 0 (\<lambda>i. of_nat (65 + i)) 5 demo_tx = Some (demo_queued, 5)"
proof -
  have g: "snd (getXmitBuf demo_tx) = Some (XmitBuffer 0)" "fst (getXmitBuf demo_tx) = demo_tx\<lparr>freeXmitBuffers := 0\<rparr>"
    by (simp_all add: getXmitBuf_def demo_tx_fields)
  have st: "send_step 0 (\<lambda>i. of_nat (65 + i)) 5 0 (XmitBuffer 0) (fst (getXmitBuf demo_tx)) = (demo_queued, 5)"
    by (simp add: send_step_def g(2) demo_queued_def getSuggestedSendSize_def demo_tx_fields)
  have "rb_hasRoom (outgoing (socks demo_tx 0))"
    by (simp add: demo_tx_fields zero_socket_def rb_hasRoom_def empty_ring_simps cfg_defs)
  then have "send_loop 0 (\<lambda>i. of_nat (65 + i)) 5 0 demo_tx = Some (demo_queued, 5)"
    using st by (subst send_loop.simps) (simp add: g(1), subst send_loop.simps, simp)
  then show ?thesis by (simp add: send_def demo_tx_fields)
qed

text \<open>The driver hands the buffer to the network and moves it to the queue of what has been sent.\<close>

lemma demo_queued_fields:
  "socks demo_queued 0 = (socks demo_tx 0)\<lparr>outgoing := fst (rb_enqueue (XmitBuffer 0) empty_ring), lastActivity := Timer_CurrentTicks demo_tx\<rparr>"
  "MyIpAddr demo_queued = (10, 0, 0, 1)" "wire demo_queued = []" "drv_carry demo_queued = (\<lambda>_. False)"
  "b_dataLen (tbuf demo_queued (XmitBuffer 0)) = 5" "b_pendingArp (tbuf demo_queued (XmitBuffer 0)) = 0"
  "b_flags (tbuf demo_queued (XmitBuffer 0)) = 0"
  by (simp_all add: demo_queued_def enqueue_def enqueue_refused_def drop_queued_ack_def Let_def demo_tx_fields zero_socket_def
      empty_ring_simps rb_enqueue_def cfg_defs reset_accounting_def)
    (simp_all add: upd_sock_def upd_buf_def demo_tx_fields)

lemma demo_queue: "rb_list (outgoing (socks demo_queued 0)) = [XmitBuffer 0]" "rb_entries (outgoing (socks demo_queued 0)) = 1"
    "rb_peek (outgoing (socks demo_queued 0)) = Some (XmitBuffer 0)"
  by (simp_all add: demo_queued_fields rb_enqueue_def empty_ring_def cfg_defs rb_list_def rb_slot_def rb_peek_def)

definition demo_driven :: tcp_state where
  "demo_driven = drive_sent 0 (XmitBuffer 0) (fst (sendPacket 0 (XmitBuffer 0) demo_queued))"

definition demo_frame :: frame where
  "demo_frame = tcp_frame (tbuf (fst (sendPacket 0 (XmitBuffer 0) demo_queued)) (XmitBuffer 0))"

lemma demo_driven_sent: "drive_socket 0 demo_queued = (demo_driven, False)" "demo_frame \<in> data_wire demo_driven"
  "sends_data 0 (XmitBuffer 0) demo_queued" "seg_data (XmitBuffer 0) demo_queued = [65, 66, 67, 68, 69]"
  "paired 0 0 demo_queued demo_peer"
proof -
  note f = demo_queued_fields demo_tx_fields
  let ?v = "sendPacket 0 (XmitBuffer 0) demo_queued"
  show sd: "sends_data 0 (XmitBuffer 0) demo_queued"
    by (simp add: sends_data_def f isForceProbe_def)
  have sk: "cachedMacAddr (socks demo_queued 0) \<noteq> Eth_Broadcast" by (simp add: f Eth_Broadcast_def)
  have rc: "snd ?v = 0" using sendPacket_cached(1) [OF f(6) sk] .
  show pair: "paired 0 0 demo_queued demo_peer"
    using demo_tx_ok(4) by (simp add: paired_def Let_def f)
  show "seg_data (XmitBuffer 0) demo_queued = [65, 66, 67, 68, 69]"
    using send_ok(4) [OF demo_queued_sent demo_tx_ok(1), unfolded demo_tx_ok(2)]
    by (simp add: waiting_def demo_queue queued_def f(6) rdbytes_def upt_rec)
  have "outgoing (socks (fst ?v) 0) = outgoing (socks demo_queued 0)" "sent (socks (fst ?v) 0) = empty_ring"
    by (simp_all add: frame_simps f zero_socket_def)
  then have out: "rb_entries (outgoing (socks demo_driven 0)) = 0"
    using demo_queue by (simp add: demo_driven_def drive_sent_entries)
  have "drive_out_step 0 demo_queued = (demo_driven, True)"
    using rc demo_queue by (simp add: drive_out_step_def f split_beta demo_driven_def zero_socket_def rb_hasRoom_def empty_ring_simps cfg_defs)
  moreover have "drive_out_step 0 demo_driven = (demo_driven, False)"
    using out by (simp add: drive_out_step_def rb_peek_def)
  ultimately have "drive_outgoing 0 demo_queued = demo_driven"
    by (subst drive_outgoing.simps) (simp, subst drive_outgoing.simps, simp)
  then show "drive_socket 0 demo_queued = (demo_driven, False)"
    by (simp add: drive_socket_def f zero_socket_def rb_peek_def empty_ring_simps)
  have "drv_ok demo_queued" by (auto simp: drv_ok_def f intro: exI [of _ 0])
  then have "demo_frame \<in> fst ` set (wire (fst ?v))"
    using sendPacket_cached(3) [OF f(6) sk] by (simp add: demo_frame_def)
  moreover have "carries_data demo_frame"
    using sendPacket_buf(4) [OF f(6), of 0]
    by (simp add: demo_frame_def carries_data_tcp_frame f sent_tcpLen_def sends_syn_def)
  moreover have "data_wire demo_driven = data_wire (fst ?v)" by (simp add: demo_driven_def data_wire_drive_sent)
  ultimately show "demo_frame \<in> data_wire demo_driven" by (auto simp: data_wire_def)
qed

text \<open>The peer with the frame in a packet buffer takes it, and the application reads three bytes.\<close>

definition demo_holding :: tcp_state where
  "demo_holding = demo_peer\<lparr>pkt_mem := (\<lambda>_. mem_of (frame_bytes demo_frame))\<rparr>"

lemma demo_holding_facts:
  "rx_view demo_holding = rx_view demo_peer" "holds_frame demo_frame (PoolBuf 0) demo_holding"
  "paired 0 0 demo_queued demo_holding" "rcv_contents 0 demo_holding = []" "rcv_room 0 demo_holding = 512"
  "oldestUnackedSeq (socks demo_holding 0) = seqNum (socks demo_holding 0)"
proof -
  show v: "rx_view demo_holding = rx_view demo_peer" by (simp add: demo_holding_def)
  show "holds_frame demo_frame (PoolBuf 0) demo_holding" by (simp add: holds_frame_def demo_holding_def mem_of_def)
  show "paired 0 0 demo_queued demo_holding" "rcv_contents 0 demo_holding = []" "rcv_room 0 demo_holding = 512"
    using demo_driven_sent(5) demo_paired(2,3) rx_ok_cong [OF v] rx_viewD(3,11) [OF v] rx_rcv_cong [OF v]
    by (simp_all add: paired_def Let_def)
  show "oldestUnackedSeq (socks demo_holding 0) = seqNum (socks demo_holding 0)"
    using demo_paired(4) by (simp add: demo_holding_def)
qed

lemma demo_taken:
  obtains t where "Tcp_process (PoolBuf 0) demo_holding = Some t" and "rcv_contents 0 t = [65, 66, 67, 68, 69]" and "rcv_wf 0 t"
proof -
  note h = demo_holding_facts
  obtain t where t: "Tcp_process (PoolBuf 0) demo_holding = Some t"
    "rcv_contents 0 t = rcv_contents 0 demo_holding @ seg_data (XmitBuffer 0) demo_queued"
    "paired 0 0 (fst (sendPacket 0 (XmitBuffer 0) demo_queued)) t"
    using segment_taken [OF h(3) demo_driven_sent(3) refl h(2) [unfolded demo_frame_def] _ h(6)]
    by (auto simp: h(5) demo_queued_fields(5))
  show thesis by (rule that [of t]) (use t h(4) demo_driven_sent(4) in \<open>simp_all add: paired_def Let_def rx_ok_def\<close>)
qed

theorem tcp_is_reliable_stream_witness:
  "\<exists>x. (transfer_step 0 0)\<^sup>*\<^sup>* (new_transfer demo_tx demo_peer) x \<and> tr_accepted x = [65, 66, 67, 68, 69] \<and>
     tr_received x = [65, 66, 67] \<and> prefix (tr_received x @ rcv_contents 0 (tr_to x)) (tr_accepted x)"
proof -
  note step = rtranclp.rtrancl_into_rtrancl
  let ?xs = "[65, 66, 67, 68, 69] :: u8 list" and ?start = "new_transfer demo_tx demo_peer"
  obtain t where t: "Tcp_process (PoolBuf 0) demo_holding = Some t" "rcv_contents 0 t = ?xs" "rcv_wf 0 t"
    by (rule demo_taken)
  obtain u rc where u: "recv 0 3 t = (u, rc, [65, 66, 67])"
    using recv_spec [OF t(3), of 3] t(2) by (cases "recv 0 3 t") (auto simp: take_Cons')
  let ?x1 = "\<lparr>tr_from = demo_queued, tr_to = demo_peer, tr_accepted = ?xs, tr_received = []\<rparr>"
  let ?x2 = "?x1\<lparr>tr_from := demo_driven\<rparr>" let ?x3 = "?x2\<lparr>tr_to := demo_holding\<rparr>" let ?x4 = "?x3\<lparr>tr_to := t\<rparr>"
  let ?x5 = "?x4\<lparr>tr_to := u, tr_received := [] @ [65, 66, 67]\<rparr>"
  have 1: "transfer_step 0 0 ?start ?x1"
    using transfer_step.sending [of 0 "\<lambda>i. of_nat (65 + i)" 5 ?start demo_queued 5 0] demo_queued_sent
    by (simp add: new_transfer_def rdbytes_def upt_rec)
  have 2: "transfer_step 0 0 ?x1 ?x2"
    using transfer_step.driving [of 0 ?x1 demo_driven 0] demo_driven_sent(1) by simp
  have 3: "transfer_step 0 0 ?x2 ?x3"
    using transfer_step.to_other [of demo_holding ?x2 0 0] demo_holding_facts(1) by simp
  have 4: "transfer_step 0 0 ?x3 ?x4"
    using transfer_step.arriving [of demo_frame ?x3 "PoolBuf 0" t 0 0] demo_driven_sent(2) demo_holding_facts(2) t(1) by simp
  have 5: "transfer_step 0 0 ?x4 ?x5"
    using transfer_step.reading [of 0 3 ?x4 u rc "[65, 66, 67]" 0] u by simp
  let ?R = "transfer_step 0 0"
  have r: "?R\<^sup>*\<^sup>* ?start ?x5"
    using step [of ?R, OF step [of ?R, OF step [of ?R, OF step [of ?R, OF r_into_rtranclp [of ?R, OF 1] 2] 3] 4] 5] .
  have "prefix (tr_received ?x5 @ rcv_contents 0 (tr_to ?x5)) (tr_accepted ?x5)"
    by (rule tcp_is_reliable_stream [OF demo_tx_ok(4) demo_paired(2) demo_tx_ok(1,2,3) r]) simp
  with r show ?thesis by (intro exI [of _ ?x5]) simp
qed

end
