(* ===== verification/ChecksumRef.thy ===== *)
theory ChecksumRef
  imports Checksum
begin

text \<open>
  The checksum in C, the form that the comment of \<^verbatim>\<open>code/TCPLIB/IP.CPP\<close> keeps as the standard algorithm: a 32-bit sum
  that is folded when its top bit is set, and folded to 16 bits at the end.  The assembler routines of \<open>Checksum\<close>
  that replaced it return the same values.
\<close>

unbundle bit_operations_syntax

section \<open>The routines\<close>

definition fold_sum :: "u32 \<Rightarrow> u32" where
  "fold_sum s = (s AND 0xffff) + drop_bit 16 s"

text \<open>The loop \<^verbatim>\<open>while ( len > 1 )\<close>: the data pointer, the rest of the length and the sum behind it.\<close>

function sum_words :: "mem \<Rightarrow> nat \<Rightarrow> u16 \<Rightarrow> u32 \<Rightarrow> nat \<times> u16 \<times> u32" where
  "sum_words m p len s =
     (if 1 < len then
        (let s = s + ucast (rd16 m p);
             s = (if s AND 0x80000000 \<noteq> 0 then fold_sum s else s)
         in sum_words m (p + 2) (len - 2) s)
      else (p, len, s))"
  by pat_completeness auto

lemma len_minus_2: "1 < len \<Longrightarrow> unat (len - 2 :: u16) = unat len - 2"
  by (subst unat_sub) (auto simp: word_less_nat_alt word_le_nat_alt)

termination sum_words
  by (relation "measure (\<lambda>(m, p, len, s). unat len)") (auto simp: len_minus_2 word_less_nat_alt)

lemma high_word: "unat (drop_bit 16 (s :: u32)) = unat s div 65536"
  unfolding unat_drop_bit_eq by (simp add: drop_bit_eq_div)

lemma fold_sum_unat: "unat (fold_sum s) = unat s mod 65536 + unat s div 65536"
proof -
  have m: "unat (s AND 0xffff) = unat s mod 65536"
  proof -
    have "s AND 0xffff = take_bit 16 s" by (simp add: take_bit_eq_mask mask_eq_exp_minus_1)
    then show ?thesis by (simp add: unsigned_take_bit_eq take_bit_eq_mod [where 'a = nat])
  qed
  have "unat s div 65536 < 65536" using u32_bound [of s] by (simp add: less_mult_imp_div_less)
  moreover have "unat s mod 65536 < 65536" by simp
  ultimately have "unat s mod 65536 + unat s div 65536 < 2 ^ LENGTH(32)" by simp
  then show ?thesis by (simp add: fold_sum_def unat_word_ariths(1) m high_word)
qed

text \<open>The loop \<^verbatim>\<open>while ( sum >> 16 )\<close>.\<close>

function fold_all :: "u32 \<Rightarrow> u32" where
  "fold_all s = (if drop_bit 16 s \<noteq> 0 then fold_all (fold_sum s) else s)"
  by pat_completeness auto

lemma high_part: "drop_bit 16 (s :: u32) = 0 \<longleftrightarrow> unat s < 65536"
proof -
  have "drop_bit 16 s = 0 \<longleftrightarrow> unat (drop_bit 16 s) = 0" by (rule unat_eq_0 [symmetric])
  also have "\<dots> \<longleftrightarrow> unat s div 65536 = 0" by (simp add: high_word)
  finally show ?thesis by (simp add: div_eq_0_iff)
qed

lemma fold_sum_less: "65536 \<le> unat s \<Longrightarrow> unat (fold_sum s) < unat s"
  using mult_div_mod_eq [of 65536 "unat s"] div_greater_zero_iff [of "unat s" 65536] unfolding fold_sum_unat by linarith

termination fold_all
  by (relation "measure unat") (auto simp: high_part fold_sum_less)

definition add_last_byte :: "mem \<Rightarrow> nat \<Rightarrow> u16 \<Rightarrow> u32 \<Rightarrow> u32" where
  "add_last_byte m p len s = (if len \<noteq> 0 then s + ucast (m p) else s)"

definition simpleChecksum :: "mem \<Rightarrow> nat \<Rightarrow> u16 \<Rightarrow> u16" where
  "simpleChecksum m data_p len =
     (case sum_words m data_p len 0 of
        (data_p, len, s) \<Rightarrow> ucast (NOT (fold_all (add_last_byte m data_p len s))))"

definition genericChecksum :: "mem \<Rightarrow> nat \<Rightarrow> u16 \<Rightarrow> u16" where
  "genericChecksum m data_p len = simpleChecksum m data_p len"

text \<open>The structure \<^verbatim>\<open>psheader\<close>.\<close>

definition psheader :: "IpAddr \<Rightarrow> IpAddr \<Rightarrow> u8 \<Rightarrow> u16 \<Rightarrow> mem" where
  "psheader src target protocol len =
     mem_of (ip_addr_bytes src @ ip_addr_bytes target @ [0, protocol] @ bytes16 (htons len))"

definition pseudoChecksum :: "IpAddr \<Rightarrow> IpAddr \<Rightarrow> mem \<Rightarrow> nat \<Rightarrow> u8 \<Rightarrow> u16 \<Rightarrow> u16" where
  "pseudoChecksum src target m data_p protocol len =
     (case sum_words (psheader src target protocol len) 0 12 0 of
        (_, _, s) \<Rightarrow>
          (case sum_words m data_p len (fold_all s) of
             (data_p, len, s) \<Rightarrow> ucast (NOT (fold_all (add_last_byte m data_p len s)) AND 0xFFFF)))"

declare sum_words.simps [simp del] fold_all.simps [simp del]

section \<open>The sum is the ones' complement sum\<close>

definition sum_rep :: "nat \<Rightarrow> u32 \<Rightarrow> bool" where
  "sum_rep n s \<longleftrightarrow> unat s mod 65535 = n mod 65535 \<and> (unat s = 0 \<longleftrightarrow> n = 0)"

lemma sum_rep_0: "sum_rep 0 0"
  by (simp add: sum_rep_def)

lemma sum_rep_cong: "sum_rep n s \<Longrightarrow> n = m \<Longrightarrow> sum_rep m s"
  by simp

lemma sum_rep_add:
  assumes "sum_rep n s" and "unat s < 2 ^ 31" and "unat x < 65536"
  shows "sum_rep (n + unat x) (s + x)" and "unat (s + x) = unat s + unat x"
proof -
  show u: "unat (s + x) = unat s + unat x" using assms(2,3) by (intro unat_add_lem [THEN iffD1]) simp
  have "(unat s + unat x) mod 65535 = (n + unat x) mod 65535"
    using assms(1) unfolding sum_rep_def by (metis mod_add_left_eq)
  then show "sum_rep (n + unat x) (s + x)" using assms(1) by (auto simp: sum_rep_def u)
qed

lemma sum_rep_fold:
  assumes "sum_rep n s"
  shows "sum_rep n (fold_sum s)"
proof -
  let ?q = "unat s div 65536" and ?r = "unat s mod 65536"
  have "unat s = ?q * 65535 + (?r + ?q)" using div_mult_mod_eq [of "unat s" 65536] by simp
  then have "(?r + ?q) mod 65535 = unat s mod 65535" by (metis mod_mult_self3)
  moreover have "?r + ?q = 0 \<longleftrightarrow> unat s = 0" using div_mult_mod_eq [of "unat s" 65536] by auto
  ultimately show ?thesis using assms by (simp add: sum_rep_def fold_sum_unat)
qed

lemma top_bit: "s AND 0x80000000 = 0 \<longleftrightarrow> unat (s :: u32) < 2 ^ 31"
proof -
  have "s AND 0x80000000 = 0 \<longleftrightarrow> \<not> bit s 31"
    using and_exp_eq_0_iff_not_bit [of s 31] by simp
  also have "bit s 31 = bit (unat s) 31" by (simp add: bit_unsigned_iff)
  also have "\<dots> = odd (unat s div 2 ^ 31)" by (rule bit_iff_odd)
  finally have b: "s AND 0x80000000 = 0 \<longleftrightarrow> even (unat s div 2 ^ 31)" by simp
  have "unat s div 2 ^ 31 < 2" using u32_bound [of s] by (simp add: less_mult_imp_div_less)
  then have "even (unat s div 2 ^ 31) \<longleftrightarrow> unat s div 2 ^ 31 = 0" by (cases "unat s div 2 ^ 31") auto
  then show ?thesis using b by (simp add: div_eq_0_iff)
qed

lemma sum_words_spec:
  assumes "sum_rep n s" and "unat s < 2 ^ 31" and "sum_words m p len s = (q, l, s')"
  shows "q = p + 2 * (unat len div 2) \<and> unat l = unat len mod 2 \<and> unat s' < 2 ^ 31 \<and>
    sum_rep (n + word_sum (words_at m p (unat len div 2))) s'"
  using assms
proof (induction m p len s arbitrary: n rule: sum_words.induct)
  case (1 m p len s)
  show ?case
  proof (cases "1 < len")
    case True
    let ?s = "s + ucast (rd16 m p)"
    let ?t = "if ?s AND 0x80000000 \<noteq> 0 then fold_sum ?s else ?s"
    have x: "unat (ucast (rd16 m p) :: u32) = unat (rd16 m p)" by (simp add: unsigned_ucast_eq)
    note a = sum_rep_add [OF 1(2,3), of "ucast (rd16 m p)", unfolded x, OF u16_bound]
    have t: "sum_rep (n + unat (rd16 m p)) ?t" using a(1) sum_rep_fold [OF a(1)] by simp
    have l: "unat ?t < 2 ^ 31"
    proof (cases "?s AND 0x80000000 = 0")
      case True
      then show ?thesis by (simp add: top_bit)
    next
      case False
      have "unat ?s div 65536 \<le> 65536" using u32_bound [of ?s] by (simp add: div_le_mono)
      then show ?thesis using False by (simp add: fold_sum_unat)
    qed
    have e: "sum_words m (p + 2) (len - 2) ?t = (q, l, s')"
      using 1(4) True by (subst (asm) sum_words.simps) (simp add: Let_def)
    obtain k where k: "unat len = k + 2" using True by (metis add.commute le_Suc_ex le_simps(3) numeral_2_eq_2 unat_1 word_less_nat_alt One_nat_def)
    show ?thesis
      using 1(1) [OF True refl refl t l e] by (simp add: len_minus_2 [OF True] k words_at_Suc add.assoc)
  next
    case False
    then have "unat len = 0 \<or> unat len = 1" by (simp add: word_less_nat_alt) linarith
    then show ?thesis using False 1(2-4) by (subst (asm) sum_words.simps) (auto simp: words_at_def)
  qed
qed

lemma fold_all_spec: "sum_rep n s \<Longrightarrow> sum_rep n (fold_all s) \<and> unat (fold_all s) < 65536"
  by (induction s rule: fold_all.induct) (subst (1 2) fold_all.simps, auto simp: sum_rep_fold high_part)

lemma sum_rep_last_byte:
  assumes "sum_rep n s" and "unat s < 2 ^ 31"
  shows "sum_rep (n + (if l = 0 then 0 else unat (m p))) (add_last_byte m p l s)"
proof -
  have "unat (ucast (m p) :: u32) = unat (m p)" by (simp add: unsigned_ucast_eq)
  moreover have "unat (m p) < 65536" using u8_bound [of "m p"] by simp
  ultimately show ?thesis using sum_rep_add(1) [OF assms, of "ucast (m p)"] assms(1) by (simp add: add_last_byte_def)
qed

lemma complement_low: "ucast (NOT s) = NOT (ucast (s :: u32) :: u16)" "ucast (NOT s AND 0xFFFF) = NOT (ucast s :: u16)"
proof -
  have "NOT s AND 0xFFFF = take_bit 16 (NOT s)" by (simp add: take_bit_eq_mask mask_eq_exp_minus_1)
  then show "ucast (NOT s) = NOT (ucast s :: u16)" "ucast (NOT s AND 0xFFFF) = NOT (ucast s :: u16)"
    by (auto intro!: bit_word_eqI simp: bit_simps)
qed

lemma fold_all_oc: "sum_rep n s \<Longrightarrow> NOT (ucast (fold_all s) :: u16) = NOT (of_nat (oc_fold n))"
proof -
  assume "sum_rep n s"
  then have "sum_rep n (fold_all s)" "unat (fold_all s) < 65536" using fold_all_spec by blast+
  then have "unat (fold_all s) = oc_fold n" using oc_fold_unique [of "unat (fold_all s)" n] by (simp add: sum_rep_def)
  then show ?thesis by (metis of_nat_unat)
qed

text \<open>The words of a block and its last byte, on top of any sum.\<close>

lemma sum_block:
  assumes "sum_rep n s" and "unat s < 2 ^ 31" and "sum_words m p len s = (q, l, s')"
  shows "NOT (ucast (fold_all (add_last_byte m q l s')) :: u16) = NOT (of_nat (oc_fold (n + word_sum (block_words m p (unat len)))))"
proof (rule fold_all_oc)
  have w: "q = p + 2 * (unat len div 2)" "unat l = unat len mod 2" "unat s' < 2 ^ 31"
    "sum_rep (n + word_sum (words_at m p (unat len div 2))) s'"
    using sum_words_spec [OF assms] by simp_all
  then have "l = 0 \<longleftrightarrow> even (unat len)" by (metis even_iff_mod_2_eq_zero unat_eq_0)
  then show "sum_rep (n + word_sum (block_words m p (unat len))) (add_last_byte m q l s')"
    using sum_rep_last_byte [OF w(4,3), of l m q] w(1) by (auto simp: block_words_sum add.assoc)
qed

lemma psheader_words: "word_sum (words_at (psheader src target protocol len) 0 6) = word_sum (pseudo_words src target protocol len)"
proof -
  obtain a b c d where s: "src = (a, b, c, d)" by (cases src)
  obtain e f g h where t: "target = (e, f, g, h)" by (cases target)
  have "le16 0 protocol = push_bit 8 (ucast protocol)"
    by (rule bit_word_eqI) (auto simp: le16_def bit_simps)
  moreover have "le16 (ucast x) (ucast (drop_bit 8 x)) = x" for x :: u16
    by (rule bit_word_eqI) (auto simp: le16_def bit_simps)
  ultimately show ?thesis
    by (simp add: words_at_def upt_rec rd16_def psheader_def pseudo_words_def Let_def mem_of_def s t ip_addr_bytes_def bytes16_def)
qed

section \<open>The C and the assembler routines agree\<close>

lemma simpleChecksum_reference: "simpleChecksum m p len = oc_checksum (block_words m p (unat len))"
proof -
  obtain q l s where w: "sum_words m p len 0 = (q, l, s)" by (metis prod.exhaust)
  then show ?thesis using sum_block [OF sum_rep_0 _ w] by (simp add: simpleChecksum_def complement_low oc_checksum_def)
qed

lemma pseudoChecksum_reference:
  "pseudoChecksum src target m p protocol len =
     oc_checksum (pseudo_words src target protocol len @ block_words m p (unat len))"
proof -
  obtain q l s where w: "sum_words (psheader src target protocol len) 0 12 0 = (q, l, s)" by (metis prod.exhaust)
  obtain q' l' s' where v: "sum_words m p len (fold_all s) = (q', l', s')" by (metis prod.exhaust)
  have "sum_rep (word_sum (pseudo_words src target protocol len)) s"
    using sum_words_spec [OF sum_rep_0 _ w] by (simp add: psheader_words)
  then have "sum_rep (word_sum (pseudo_words src target protocol len)) (fold_all s)" "unat (fold_all s) < 2 ^ 31"
    using fold_all_spec by fastforce+
  then show ?thesis using sum_block [OF _ _ v] w v by (simp add: pseudoChecksum_def complement_low oc_checksum_def)
qed

text \<open>The assembler needs a block of two or eight bytes; the C code does not.\<close>

lemma ipchksum_is_genericChecksum: "2 \<le> unat len \<Longrightarrow> ipchksum m p len = genericChecksum m p len"
  by (simp add: ipchksum_reference genericChecksum_def simpleChecksum_reference)

lemma ip_p_chksum_is_pseudoChecksum:
  "8 \<le> unat len \<Longrightarrow> ip_p_chksum src target m p protocol len = pseudoChecksum src target m p protocol len"
  by (simp add: ip_p_chksum_reference pseudoChecksum_reference)

end
