(* ===== verification/Spec2Isabelle.thy ===== *)
theory Spec2Isabelle
  imports BotSystem BotTests Unicode Descriptions Sntp TcpTransfer ChecksumRef
begin

text \<open>
  Verification development of pdtb, a chat bot for DOS on top of the mTCP network stack
  (\<^verbatim>\<open>src/code\<close>).

  \<^bold>\<open>The program.\<close>  The packet driver calls the program's receiver from an interrupt and leaves
  frames in a pool of ten buffers; the main loop takes them off a ring and hands each to a handler by its
  EtherType.  ARP keeps a cache and a table of pending requests; IP checks the header, reassembles
  fragments and hands the payload to ICMP, UDP or TCP.  TCP keeps sockets with three queues each
  (to send, sent, received); the DNS resolver is a client of UDP.  Nothing runs by itself: the
  application calls the packet macros of \<^verbatim>\<open>UTILS.H\<close>, \<^verbatim>\<open>driveArp\<close>, \<^verbatim>\<open>drivePackets\<close> and
  \<^verbatim>\<open>drivePendingQuery\<close> in its loops, and the only concurrency is that of the timer and the packet interrupts.

  \<^bold>\<open>The model.\<close>  Each layer extends the state record of the layer below, in the order \<open>net\<close>,
  \<open>arp_state\<close>, \<open>ipsend_state\<close>, \<open>ip_state\<close>, \<open>tcp_state\<close>, \<open>udp_state\<close>, \<open>icmp_state\<close>, \<open>dns_state\<close> (extended also by \<open>sntp_state\<close>),
  \<open>timer_state\<close>, \<open>config_state\<close>, \<open>startup_state\<close>, \<open>bot_state\<close>; a field is a static variable of the
  source or a part of the machine (memory of the buffers, the heap, the frames that reached the wire,
  the clock).  An operation is a function from states to states; \<open>None\<close> is a call that does not
  return or whose effect is undefined.  Integers have their width as words.  What the code cannot
  determine is a function in the state or a parameter: whether \<^verbatim>\<open>malloc\<close> or the packet driver succeeds, the
  values of \<^verbatim>\<open>rand\<close>, the contents of uninitialised variables, the handlers an application
  registers, the interrupts that come before the \<open>n\<close>th turn of a loop.  Sockets and transmit buffers are
  references into a store, so that the aliasing of the source (a buffer that is in a queue and
  pointed to by the socket) is the model's.

  \<^bold>\<open>The theories.\<close>
  \<^item> \<open>Prelude\<close>, \<open>Headers\<close>: byte order, addresses, memory; the wire formats of \<^verbatim>\<open>ETH.H\<close>, \<^verbatim>\<open>IP.H\<close>, \<^verbatim>\<open>TCP.H\<close>,
    \<^verbatim>\<open>UDP.H\<close>, \<^verbatim>\<open>ARP.H\<close>, their bytes and accessors.
  \<^item> \<open>RingBuf\<close>: \<^verbatim>\<open>RINGBUF.H\<close>; the locale \<open>bounded_queue\<close>, interpreted on the ring buffer.
  \<^item> \<open>Checksum\<close>: the assembler checksum routines of \<^verbatim>\<open>IP.CPP\<close> with their carry flag, equal to the one's
    complement sum of the standard.  \<open>ChecksumRef\<close>: the older C routines, which the source keeps in a comment as the
    standard algorithm, return the same values.
  \<^item> \<open>Packet\<close>: \<^verbatim>\<open>PACKET.CPP\<close>: buffer pool, receiver, dispatch, sending.  The invariant \<open>buf_inv\<close> says that no
    buffer is lost or doubled.
  \<^item> \<open>Arp\<close>: \<^verbatim>\<open>ARP.CPP\<close>; the locale \<open>neighbour_cache\<close>, interpreted on the cache; tables, retries.
  \<^item> \<open>IpSend\<close>, \<open>IpFrag\<close>, \<open>Reassembly\<close>: \<^verbatim>\<open>IP.CPP\<close>: header, routing, fragment table; a datagram cut into fragments
    is put together from any order of arrival.
  \<^item> \<open>TcpBase\<close>, \<open>TcpSend\<close>, \<open>TcpSock\<close>, \<open>TcpProc\<close>: \<^verbatim>\<open>TCP.CPP\<close>, \<^verbatim>\<open>TCP.H\<close>, \<^verbatim>\<open>TCPSOCKM.CPP\<close>: the store, sending, the calls of the
    application, incoming segments and the driver.  \<open>TcpSegment\<close>: the segment that is sent.
    \<open>TcpRecv\<close>: the receive buffer as a byte stream (locale \<open>byte_pipe\<close>).  \<open>TcpAcks\<close>:
    acknowledgements and timeouts.  \<open>TcpStates\<close>: the state machine.
  \<^item> \<open>EndToEnd\<close>, \<open>TcpTransfer\<close>: two hosts and a network between them that loses, repeats, reorders and damages frames,
    as transition systems (\<open>link_step\<close> in terms of segments, \<open>transfer_step\<close> in terms of the calls of the code, simulated
    by it).  The bytes \<^verbatim>\<open>recv\<close> returns are a prefix of those \<^verbatim>\<open>send\<close> accepted, for data in one direction of an established
    connection, a stream of less than \<open>2 ^ 32\<close> bytes, segments up to 65481 bytes and receive buffers in use.
  \<^item> \<open>Udp\<close>, \<open>Icmp\<close>: \<^verbatim>\<open>UDP.CPP\<close>, the ICMP part of \<^verbatim>\<open>IP.CPP\<close>.
  \<^item> \<open>Utils\<close>, \<open>DnsName\<close>, \<open>Dns\<close>: text routines of \<^verbatim>\<open>UTILS.CPP\<close>; \<^verbatim>\<open>DNS.CPP\<close>: names on the wire, cache, hosts file, responses,
    which are compared with a reference that lists the records of a message (\<open>dns_records\<close>).
  \<^item> \<open>Stack\<close>: the layers together: interrupts, \<^verbatim>\<open>Ip::process\<close>, the packet macros, the blocking calls
    \<^verbatim>\<open>connect\<close> and \<^verbatim>\<open>close\<close>, \<^verbatim>\<open>Dns::resolve\<close>; blocking calls return as long as the clock ticks.
  \<^item> \<open>Timer\<close>, \<open>Config\<close>, \<open>ConfigFile\<close>, \<open>Startup\<close>: \<^verbatim>\<open>TIMER.CPP\<close>; the configuration of \<^verbatim>\<open>UTILS.CPP\<close> and its round trip for
    all keywords; starting and stopping the stack.
  \<^item> \<open>Unicode\<close>: \<^verbatim>\<open>UNICODE.CPP\<close>: UTF-8 and the table of display characters, a map for any hash function.
  \<^item> \<open>Descriptions\<close>: \<^verbatim>\<open>ETHTYPE.CPP\<close>, \<^verbatim>\<open>IPTYPE.CPP\<close>: the tables of names, and the binary search in the first one.
  \<^item> \<open>Sntp\<close>: \<^verbatim>\<open>SNTPLIB.CPP\<close>, a second client of UDP (not linked into the bot): the request, the difference
    of the clocks; its handler is one more \<open>packet_consumer\<close>.
  \<^item> \<open>Bot\<close>: \<^verbatim>\<open>BOT/BOT.CPP\<close>: the program around the bot.
  \<^item> \<open>BotText\<close>, \<open>BotParse\<close>, \<open>BotLogic\<close>: the assembler part of the bot, \<^verbatim>\<open>BOT/*.nas\<close>: writing text and numbers, the parser of
    messages with the parser of byte lists it refines, the lines in the received segments, the answers, and \<open>asmRun\<close>,
    which is an instance for the parameter of \<open>main\<close> with that name.  Registers are fields or arguments, the carry flag is a
    \<open>bool\<close>, a pointer is the offset in its buffer; the addresses the linker decides are a parameter.  \<open>BotTests\<close>: the cases
    of \<^verbatim>\<open>TEST/teststr.cpp\<close> and \<^verbatim>\<open>TEST/testpars.cpp\<close> (the whole lines) on the model.
  \<^item> \<open>BufferFlow\<close>, \<open>BufferSystem\<close>, \<open>BotSystem\<close>: the receive buffers through all layers: free stack, ring, reassembly
    table, socket queues, application.  Handlers are interpretations of the locale \<open>packet_consumer\<close>; the stack
    and the bot are transition systems (\<open>stack_step\<close>, \<open>bot_step\<close>) that conserve the pool; the buffers that \<^verbatim>\<open>getSocket\<close> loses when it reinitialises a
    socket with a filled queue are counted in a component of the state of their own.

  \<^bold>\<open>Loops.\<close>  Loops whose end depends on the machine (\<^verbatim>\<open>connect\<close>, \<^verbatim>\<open>close\<close>, the wait for ARP, the receive loop of the
  bot) and those that may not end on bad input (the option scan of \<^verbatim>\<open>readMSS\<close>, name decompression, the fragment loop
  of UDP, the search of the display table) are partial functions into \<open>option\<close>, and that they return is a theorem where it
  holds; all other loops are recursive functions with their termination proved.  No fuel is used.  The interrupt
  sequences of the theorems on blocking calls are those in which time passes and no frame arrives.

  \<^bold>\<open>Not modelled.\<close>  Tracing and statistics output (\<^verbatim>\<open>TRACE.CPP\<close>, \<^verbatim>\<open>dumpStats\<close>, \<^verbatim>\<open>dumpTable\<close>), the checks under
  \<^verbatim>\<open>CONSISTENCY_CHK\<close>, the BIOS calls of \<^verbatim>\<open>INLINES.H\<close>, the DOS error handler and \<^verbatim>\<open>dosVersion\<close>, the iterative mode of
  DNS (compiled out), IPv6 (declarations only), the test drivers, the calls of the log in the dispatcher of the bot,
  and NUL bytes inside of text files.
\<close>

end
